(* ===== verification/Prelude.thy ===== *)
theory Prelude
  imports Main "HOL-Library.Word" "HOL-Library.While_Combinator"
begin

text \<open>
  Shared vocabulary of the development: the machine integers of the SDK
  (\<^verbatim>\<open>include/zephyr/types.h\<close>), the result type in which an undefined behaviour of the C code
  is a value, checked array accesses, and the generic lemmas on words and byte lists that
  the component theories use.
\<close>

unbundle bit_operations_syntax

named_theorems res_simps \<open>evaluation of the result monad and of checked accesses\<close>
named_theorems mask_simps \<open>C bit masks written as shifted masks\<close>
named_theorems len_simps \<open>lengths of encoded byte strings\<close>

section \<open>Machine integers\<close>

text \<open>
  Signed and unsigned integers of one width share a word type; signed readings are taken
  with \<^term>\<open>sint\<close> or \<^term>\<open>scast\<close> where the C code promotes or compares them.
\<close>

type_synonym u8 = "8 word"
type_synonym u16 = "16 word"
type_synonym u32 = "32 word"
type_synonym u64 = "64 word"
type_synonym s8 = "8 word"
type_synonym s16 = "16 word"
type_synonym s32 = "32 word"

type_synonym bytes = "u8 list"

section \<open>Results\<close>

text \<open>
  \<^term>\<open>Out_Of_Bounds\<close> is an access outside an array or outside the received buffer,
  \<^term>\<open>Uninit_Read\<close> a read of an uninitialised local variable, \<^term>\<open>Null_Deref\<close> a use of a
  null pointer, \<^term>\<open>Diverges\<close> a loop that never ends, \<^term>\<open>Bad_Shift\<close> a shift by at least the width of
  its operand, \<^term>\<open>Div_Zero\<close> a division by zero, \<^term>\<open>Num_Overflow\<close> a numeral that does not fit the type it is converted to,
  \<^term>\<open>Bad_Thread\<close> the creation of a thread in the structure of one that runs.
\<close>

datatype c_error = Out_Of_Bounds | Uninit_Read | Null_Deref | Diverges | Bad_Shift | Div_Zero | Num_Overflow | Bad_Thread

type_synonym 'a res = "c_error + 'a"

definition rbind :: "'a res \<Rightarrow> ('a \<Rightarrow> 'b res) \<Rightarrow> 'b res" where
  "rbind m f = (case m of Inl e \<Rightarrow> Inl e | Inr x \<Rightarrow> f x)"

lemma rbind_Inl [simp, res_simps]: "rbind (Inl e) f = Inl e"
  and rbind_Inr [simp, res_simps]: "rbind (Inr x) f = f x"
  by (simp_all add: rbind_def)

lemma rbind_eq_Inr: "rbind m f = Inr y \<longleftrightarrow> (\<exists>x. m = Inr x \<and> f x = Inr y)"
  by (cases m) simp_all

lemma rbind_assoc: "rbind (rbind m f) g = rbind m (\<lambda>x. rbind (f x) g)"
  by (cases m) simp_all

lemma rbind_cong [fundef_cong]:
  "m = m' \<Longrightarrow> (\<And>x. m' = Inr x \<Longrightarrow> f x = f' x) \<Longrightarrow> rbind m f = rbind m' f'"
  by (cases m') simp_all

section \<open>Checked array accesses\<close>

definition arr_get :: "'a list \<Rightarrow> nat \<Rightarrow> 'a res" where
  "arr_get xs i = (if i < length xs then Inr (xs ! i) else Inl Out_Of_Bounds)"

definition arr_set :: "'a list \<Rightarrow> nat \<Rightarrow> 'a \<Rightarrow> 'a list res" where
  "arr_set xs i v = (if i < length xs then Inr (xs[i := v]) else Inl Out_Of_Bounds)"

text \<open>
  \<open>memcpy(dst + off, src, n)\<close>: it fails when the source holds fewer than \<open>n\<close> bytes or the
  target has no room for them.
\<close>

definition mem_cpy :: "'a list \<Rightarrow> nat \<Rightarrow> 'a list \<Rightarrow> nat \<Rightarrow> 'a list res" where
  "mem_cpy dst off src n =
     (if n \<le> length src \<and> off + n \<le> length dst
      then Inr (take off dst @ take n src @ drop (off + n) dst) else Inl Out_Of_Bounds)"

lemma arr_get_ok [res_simps]: "i < length xs \<Longrightarrow> arr_get xs i = Inr (xs ! i)"
  and arr_get_bad [res_simps]: "length xs \<le> i \<Longrightarrow> arr_get xs i = Inl Out_Of_Bounds"
  by (simp_all add: arr_get_def)

lemma arr_get_eq_Inr: "arr_get xs i = Inr v \<longleftrightarrow> i < length xs \<and> v = xs ! i"
  by (auto simp: arr_get_def)

lemma arr_set_ok [res_simps]: "i < length xs \<Longrightarrow> arr_set xs i v = Inr (xs[i := v])"
  by (simp add: arr_set_def)

lemma mem_cpy_ok [res_simps]:
  "n \<le> length src \<Longrightarrow> off + n \<le> length dst \<Longrightarrow>
   mem_cpy dst off src n = Inr (take off dst @ take n src @ drop (off + n) dst)"
  by (simp add: mem_cpy_def)

lemma mem_cpy_overflow [res_simps]:
  "length dst < off + n \<Longrightarrow> mem_cpy dst off src n = Inl Out_Of_Bounds"
  by (simp add: mem_cpy_def)

lemma mem_cpy_length: "mem_cpy dst off src n = Inr dst' \<Longrightarrow> length dst' = length dst"
  by (auto simp: mem_cpy_def split: if_splits)

section \<open>Bit masks of the C code\<close>

lemma mask_8 [mask_simps]: "(0xFF :: 'a::len word) = mask 8"
  and mask_8_8 [mask_simps]: "(0xFF00 :: 'a::len word) = push_bit 8 (mask 8)"
  and mask_8_16 [mask_simps]: "(0xFF0000 :: 'a::len word) = push_bit 16 (mask 8)"
  and mask_8_24 [mask_simps]: "(0xFF000000 :: 'a::len word) = push_bit 24 (mask 8)"
  and mask_8_32 [mask_simps]: "(0xFF00000000 :: 'a::len word) = push_bit 32 (mask 8)"
  and mask_8_40 [mask_simps]: "(0xFF0000000000 :: 'a::len word) = push_bit 40 (mask 8)"
  and mask_12 [mask_simps]: "(0xFFF :: 'a::len word) = mask 12"
  and mask_24 [mask_simps]: "(0xFFFFFF :: 'a::len word) = mask 24"
  by (simp_all add: mask_eq_exp_minus_1 push_bit_eq_mult)

lemma word_eq_bits: "x = y \<longleftrightarrow> (\<forall>n<LENGTH('a). bit x n = bit y n)" for x y :: "'a::len word"
  by (auto intro: bit_word_eqI)

text \<open>A C test \<open>x & m\<close>; for \<open>m = 1 << n\<close> it is the test of bit \<open>n\<close>.\<close>

definition flag_set :: "'a::len word \<Rightarrow> 'a word \<Rightarrow> bool" where
  "flag_set x m \<longleftrightarrow> x AND m \<noteq> 0"

lemma flag_set_bit: "flag_set x (push_bit n 1) \<longleftrightarrow> n < LENGTH('a) \<and> bit x n"
  for x :: "'a::len word"
  by (auto simp: flag_set_def word_eq_bits bit_simps)

lemma flag_set_power: "flag_set x (2 ^ n) \<longleftrightarrow> n < LENGTH('a) \<and> bit x n"
  for x :: "'a::len word"
  using flag_set_bit [of x n] by simp

lemma or_eq_0_word: "x OR y = 0 \<longleftrightarrow> x = 0 \<and> y = 0" for x y :: "'a::len word"
  by (auto simp: word_eq_bits bit_simps)

lemma unat_Suc_word: "x < y \<Longrightarrow> unat (x + 1) = Suc (unat x)" for x y :: "'a::len word"
proof -
  assume "x < y"
  then have "unat x < unat y" by (simp add: word_less_nat_alt)
  moreover have "unat y < 2 ^ LENGTH('a)" by simp
  ultimately have "Suc (unat x) < 2 ^ LENGTH('a)" by linarith
  then show ?thesis by (simp add: unat_word_ariths)
qed

lemma unat_bound: "unat x < 2 ^ LENGTH('a)" for x :: "'a::len word"
  by simp

section \<open>Bytes of a word\<close>

lemma byte_roundtrip:
  "ucast (ucast (drop_bit k v AND drop_bit k (push_bit k (mask 8))) :: u8) = take_bit 8 (drop_bit k v)"
  for v :: "'a::len word"
  by (rule bit_word_eqI) (auto simp: bit_simps dest: bit_imp_le_length)

lemma byte_roundtrip_0: "ucast (ucast (v AND mask 8) :: u8) = take_bit 8 v"
  for v :: "'a::len word"
  by (rule bit_word_eqI) (auto simp: bit_simps)

lemma take_bit_join: "take_bit m v OR push_bit m (take_bit n (drop_bit m v)) = take_bit (m + n) v"
  for v :: "'a::len word"
  by (rule bit_word_eqI) (auto simp: bit_simps)

lemma sint_high_bits:
  fixes m :: "'a::len word"
  assumes "- (2 ^ k) \<le> sint m" "sint m < 2 ^ k" "k \<le> n" "n < LENGTH('a)"
  shows "bit m n = bit m k"
proof -
  have "signed_take_bit k (sint m) = sint m"
    using assms(1,2) by (simp add: signed_take_bit_int_eq_self)
  then have "bit (signed_take_bit k (sint m)) n = bit (sint m) n" by simp
  moreover have "min k (LENGTH('a) - 1) = k" "min n (LENGTH('a) - 1) = n" "min n k = k"
    using assms(3,4) by auto
  ultimately show ?thesis using assms(4) by (simp add: bit_simps bit_sint_iff)
qed

lemma and_mask_ge: "(2 ^ k \<le> x AND mask (Suc k)) \<longleftrightarrow> bit x k" if "Suc k < LENGTH('a)" for x :: "'a::len word"
proof -
  have "uint (x AND mask (Suc k)) = take_bit (Suc k) (uint x)"
    by (simp add: unsigned_take_bit_eq flip: take_bit_eq_mask)
  moreover have "take_bit (Suc k) (uint x) = take_bit k (uint x) + of_bool (bit x k) * 2 ^ k"
    by (simp add: take_bit_Suc_from_most bit_uint_iff that Suc_lessD ac_simps)
  moreover have "uint ((2::'a word) ^ k) = 2 ^ k" using that by transfer (simp add: take_bit_eq_mod)
  moreover have "\<not> 2 ^ k \<le> take_bit k (uint x)" by (simp add: not_le)
  ultimately show ?thesis by (simp add: word_le_def)
qed

section \<open>C loops\<close>

text \<open>
  One pass through a loop body falls through to the next test, leaves the loop
  (\<open>break\<close>) or leaves the function (\<open>return\<close>). A loop that ends gives \<^term>\<open>Break\<close> or
  \<^term>\<open>Return\<close>; one that never ends gives the error \<^term>\<open>Diverges\<close>.
\<close>

datatype ('s, 'r) flow = Next 's | Break 's | Return 'r

fun flow_active :: "('s \<Rightarrow> bool) \<Rightarrow> ('s, 'r) flow res \<Rightarrow> bool" where
  "flow_active b (Inr (Next s)) = b s"
| "flow_active b _ = False"

fun flow_step :: "('s \<Rightarrow> ('s, 'r) flow res) \<Rightarrow> ('s, 'r) flow res \<Rightarrow> ('s, 'r) flow res" where
  "flow_step f (Inr (Next s)) = f s"
| "flow_step f x = x"

fun flow_exit :: "('s, 'r) flow res option \<Rightarrow> ('s, 'r) flow res" where
  "flow_exit None = Inl Diverges"
| "flow_exit (Some (Inr (Next s))) = Inr (Break s)"
| "flow_exit (Some x) = x"

definition c_while :: "('s \<Rightarrow> bool) \<Rightarrow> ('s \<Rightarrow> ('s, 'r) flow res) \<Rightarrow> 's \<Rightarrow> ('s, 'r) flow res" where
  "c_while b f s = flow_exit (while_option (flow_active b) (flow_step f) (Inr (Next s)))"

lemma c_while_unfold:
  "c_while b f s =
     (if b s then rbind (f s) (\<lambda>x. case x of Next s' \<Rightarrow> c_while b f s' | _ \<Rightarrow> Inr x)
      else Inr (Break s))"
proof (cases "b s")
  case True
  show ?thesis
  proof (cases "f s")
    case (Inr x)
    with True show ?thesis
      by (cases x) (simp_all add: c_while_def while_option_unfold [of "flow_active b"])
  qed (use True in \<open>simp add: c_while_def while_option_unfold [of "flow_active b"]\<close>)
qed (simp add: c_while_def while_option_unfold [of "flow_active b"])

text \<open>Total correctness: an invariant and a measure that every pass decreases.\<close>

lemma c_while_total:
  assumes "I s"
    and "\<And>s. I s \<Longrightarrow> b s \<Longrightarrow> \<exists>x. f s = Inr x \<and>
      (case x of Next s' \<Rightarrow> I s' \<and> (m s' :: nat) < m s | Break s' \<Rightarrow> Q s' | Return r \<Rightarrow> R r)"
    and "\<And>s. I s \<Longrightarrow> \<not> b s \<Longrightarrow> Q s"
  shows "\<exists>x. c_while b f s = Inr x \<and> (case x of Next _ \<Rightarrow> False | Break s' \<Rightarrow> Q s' | Return r \<Rightarrow> R r)"
  using assms(1)
proof (induction "m s" arbitrary: s rule: less_induct)
  case less
  show ?case
  proof (cases "b s")
    case True
    with assms(2) [OF less.prems] obtain x where "f s = Inr x" and
      "case x of Next s' \<Rightarrow> I s' \<and> m s' < m s | Break s' \<Rightarrow> Q s' | Return r \<Rightarrow> R r" by blast
    with True less.hyps show ?thesis
      by (cases x) (auto simp: c_while_unfold [of b f s])
  qed (use assms(3) less.prems in \<open>auto simp: c_while_unfold [of b f s]\<close>)
qed

text \<open>A loop whose invariant keeps the condition true never ends.\<close>

lemma c_while_diverges:
  assumes "I s" "\<And>s. I s \<Longrightarrow> b s \<and> (\<exists>t. f s = Inr (Next t) \<and> I t)"
  shows "c_while b f s = Inl Diverges"
proof (cases "while_option (flow_active b) (flow_step f) (Inr (Next s))")
  case (Some x)
  have "\<exists>t. x = Inr (Next t) \<and> I t"
    by (rule while_option_rule [OF _ Some, where P = "\<lambda>x. \<exists>t. x = Inr (Next t) \<and> I t"])
       (use assms in auto)
  with assms(2) while_option_stop [OF Some] show ?thesis by auto
qed (simp add: c_while_def)

text \<open>
  A loop whose body may pause in the middle of a pass: \<open>f\<close> is the body up to the pause, with what it has
  reached in \<open>Return\<close>, and \<open>h\<close> the rest of the pass. The loop with the whole body is the one with \<open>f\<close>, then
  \<open>h\<close>, then the loop again.
\<close>

lemma c_while_resume:
  fixes f :: "'s \<Rightarrow> ('s, 'p) flow res" and h :: "'p \<Rightarrow> ('s, 'r) flow res"
  defines "g \<equiv> \<lambda>s. rbind (f s) (\<lambda>x. case x of Next s' \<Rightarrow> Inr (Next s') | Break s' \<Rightarrow> Inr (Break s') | Return r \<Rightarrow> h r)"
  shows "c_while b g s = rbind (c_while b f s) (\<lambda>x. case x of
      Return r \<Rightarrow> rbind (h r) (\<lambda>y. case y of Next s' \<Rightarrow> c_while b g s' | _ \<Rightarrow> Inr y)
    | Next s' \<Rightarrow> Inr (Next s') | Break s' \<Rightarrow> Inr (Break s'))"
proof -
  have g: "g s = rbind (f s) (\<lambda>x. case x of Next s' \<Rightarrow> Inr (Next s') | Break s' \<Rightarrow> Inr (Break s') | Return r \<Rightarrow> h r)" for s
    by (simp add: g_def)
  show ?thesis
  proof (cases "while_option (flow_active b) (flow_step f) (Inr (Next s))")
    case None
    let ?I = "\<lambda>s. while_option (flow_active b) (flow_step f) (Inr (Next s)) = None"
    have I: "b s \<and> (\<exists>t. f s = Inr (Next t) \<and> while_option (flow_active b) (flow_step f) (Inr (Next t)) = None)"
      if "while_option (flow_active b) (flow_step f) (Inr (Next s)) = None" for s
    proof -
      from that have b: "b s" by (simp add: while_option_unfold [of "flow_active b"] split: if_splits)
      show ?thesis
      proof (cases "f s")
        case (Inl e)
        with that b show ?thesis by (simp add: while_option_unfold [of "flow_active b"])
      next
        case (Inr x)
        with that b show ?thesis by (cases x) (simp_all add: while_option_unfold [of "flow_active b"])
      qed
    qed
    have "c_while b f s = Inl Diverges" by (rule c_while_diverges [where I = ?I, OF None I])
    moreover have "c_while b g s = Inl Diverges"
    proof (rule c_while_diverges [where I = ?I, OF None])
      fix s assume "?I s"
      from I [OF this] obtain t where "b s" "f s = Inr (Next t)" "?I t" by blast
      then show "b s \<and> (\<exists>t. g s = Inr (Next t) \<and> ?I t)" by (simp add: g)
    qed
    ultimately show ?thesis by simp
  next
    case (Some y)
    then obtain k where "y = (flow_step f ^^ k) (Inr (Next s))" "\<not> flow_active b y"
      using while_option_stop2 by metis
    then show ?thesis
    proof (induction k arbitrary: s)
      case 0
      then show ?case by (simp add: c_while_unfold [of b])
    next
      case (Suc k)
      show ?case
      proof (cases "b s \<and> (\<exists>t. f s = Inr (Next t))")
        case True
        then obtain t where t: "b s" "f s = Inr (Next t)" by blast
        then have "y = (flow_step f ^^ k) (Inr (Next t))" using Suc.prems(1) by (simp add: funpow_Suc_right del: funpow.simps)
        from Suc.IH [OF this Suc.prems(2)] t show ?thesis by (simp add: c_while_unfold [of b _ s] g [of s])
      next
        case False
        then show ?thesis
          by (cases "f s") (auto simp: c_while_unfold [of b _ s] g [of s] split: flow.split)
      qed
    qed
  qed
qed

lemma drop_bit_1_less: "m \<noteq> 0 \<Longrightarrow> unat (drop_bit 1 m) < unat m" for m :: "'a::len word"
proof -
  assume "m \<noteq> 0"
  then have "0 < unat m" by (simp add: unat_gt_0)
  then have "unat m div 2 < unat m" by simp
  then show ?thesis by (simp add: drop_bit_eq_div unat_div)
qed

section \<open>Labelled steps\<close>

text \<open>
  Runs of a labelled step relation, invariants that every step keeps, and simulations: each step of a concrete system from a state with
  the invariant is a step of an abstract one with the same label.
\<close>

inductive lrun :: "('s \<Rightarrow> 'l \<Rightarrow> 's \<Rightarrow> bool) \<Rightarrow> 's \<Rightarrow> 'l list \<Rightarrow> 's \<Rightarrow> bool" for step where
  lrun_Nil: "lrun step x [] x"
| lrun_Cons: "step x l y \<Longrightarrow> lrun step y ls z \<Longrightarrow> lrun step x (l # ls) z"

inductive_simps lrun_simps: "lrun step x [] y" "lrun step x (l # ls) y"

locale step_invariant =
  fixes step :: "'s \<Rightarrow> 'l \<Rightarrow> 's \<Rightarrow> bool"
    and inv :: "'s \<Rightarrow> bool"
  assumes inv_step: "step x l y \<Longrightarrow> inv x \<Longrightarrow> inv y"
begin

lemma inv_run: "lrun step x ls y \<Longrightarrow> inv x \<Longrightarrow> inv y"
  by (induction rule: lrun.induct) (blast intro: inv_step)+

end

locale simulation = step_invariant step inv
  for step :: "'s \<Rightarrow> 'l \<Rightarrow> 's \<Rightarrow> bool" and inv :: "'s \<Rightarrow> bool" +
  fixes astep :: "'a \<Rightarrow> 'l \<Rightarrow> 'a \<Rightarrow> bool"
    and abs :: "'s \<Rightarrow> 'a"
  assumes simulates: "step x l y \<Longrightarrow> inv x \<Longrightarrow> astep (abs x) l (abs y)"
begin

lemma run_simulates: "lrun step x ls y \<Longrightarrow> inv x \<Longrightarrow> lrun astep (abs x) ls (abs y)"
  by (induction rule: lrun.induct) (auto intro: lrun_Nil lrun_Cons simulates inv_step)

end

end
