(* ===== verification/Types_Encode.thy ===== *)
theory Types_Encode
  imports Prelude
begin

text \<open>
  The byte codecs shared by the GATT services and by the OTA profile:
  \<^verbatim>\<open>samples/bluetooth/gatt/types_encode.h\<close>, \<^verbatim>\<open>date_time.h\<close>, the IEEE-11073 short floats of
  \<^verbatim>\<open>iso_ieee_11073.h\<close>, and the byte-stream macros of \<^verbatim>\<open>ext/lib/actions/ota/bstream.h\<close>.
  An encoder that stores into \<open>encoded_data[0..n-1]\<close> and returns \<open>n\<close> is a function to the
  list of these \<open>n\<close> bytes; a decoder takes the bytes its pointer argument gives access to
  and fails when it reads past them.
\<close>

section \<open>Little- and big-endian integers\<close>

definition u16_encode :: "u16 \<Rightarrow> bytes" where
  "u16_encode v = [ucast (v AND 0x00FF), ucast (drop_bit 8 (v AND 0xFF00))]"

definition u24_encode :: "u32 \<Rightarrow> bytes" where
  "u24_encode v =
     [ucast (v AND 0x000000FF), ucast (drop_bit 8 (v AND 0x0000FF00)),
      ucast (drop_bit 16 (v AND 0x00FF0000))]"

definition u32_encode :: "u32 \<Rightarrow> bytes" where
  "u32_encode v =
     [ucast (v AND 0x000000FF), ucast (drop_bit 8 (v AND 0x0000FF00)),
      ucast (drop_bit 16 (v AND 0x00FF0000)), ucast (drop_bit 24 (v AND 0xFF000000))]"

definition u48_encode :: "u64 \<Rightarrow> bytes" where
  "u48_encode v =
     [ucast (v AND 0x0000000000FF), ucast (drop_bit 8 (v AND 0x00000000FF00)),
      ucast (drop_bit 16 (v AND 0x000000FF0000)), ucast (drop_bit 24 (v AND 0x0000FF000000)),
      ucast (drop_bit 32 (v AND 0x00FF00000000)), ucast (drop_bit 40 (v AND 0xFF0000000000))]"

definition u32_big_encode :: "u32 \<Rightarrow> bytes" where
  "u32_big_encode v =
     [ucast (drop_bit 24 (v AND 0xFF000000)), ucast (drop_bit 16 (v AND 0x00FF0000)),
      ucast (drop_bit 8 (v AND 0x0000FF00)), ucast (v AND 0x000000FF)]"

definition u16_decode :: "bytes \<Rightarrow> u16 res" where
  "u16_decode p = rbind (arr_get p 0) (\<lambda>b0. rbind (arr_get p 1) (\<lambda>b1.
     Inr (ucast b0 OR push_bit 8 (ucast b1))))"

definition u16_big_decode :: "bytes \<Rightarrow> u16 res" where
  "u16_big_decode p = rbind (arr_get p 0) (\<lambda>b0. rbind (arr_get p 1) (\<lambda>b1.
     Inr (push_bit 8 (ucast b0) OR ucast b1)))"

definition u24_decode :: "bytes \<Rightarrow> u32 res" where
  "u24_decode p = rbind (arr_get p 0) (\<lambda>b0. rbind (arr_get p 1) (\<lambda>b1.
     rbind (arr_get p 2) (\<lambda>b2.
     Inr (ucast b0 OR push_bit 8 (ucast b1) OR push_bit 16 (ucast b2)))))"

definition u32_decode :: "bytes \<Rightarrow> u32 res" where
  "u32_decode p = rbind (arr_get p 0) (\<lambda>b0. rbind (arr_get p 1) (\<lambda>b1.
     rbind (arr_get p 2) (\<lambda>b2. rbind (arr_get p 3) (\<lambda>b3.
     Inr (ucast b0 OR push_bit 8 (ucast b1) OR push_bit 16 (ucast b2) OR push_bit 24 (ucast b3))))))"

definition u32_big_decode :: "bytes \<Rightarrow> u32 res" where
  "u32_big_decode p = rbind (arr_get p 0) (\<lambda>b0. rbind (arr_get p 1) (\<lambda>b1.
     rbind (arr_get p 2) (\<lambda>b2. rbind (arr_get p 3) (\<lambda>b3.
     Inr (push_bit 24 (ucast b0) OR push_bit 16 (ucast b1) OR push_bit 8 (ucast b2) OR ucast b3)))))"

definition u48_decode :: "bytes \<Rightarrow> u64 res" where
  "u48_decode p = rbind (arr_get p 0) (\<lambda>b0. rbind (arr_get p 1) (\<lambda>b1.
     rbind (arr_get p 2) (\<lambda>b2. rbind (arr_get p 3) (\<lambda>b3.
     rbind (arr_get p 4) (\<lambda>b4. rbind (arr_get p 5) (\<lambda>b5.
     Inr (ucast b0 OR push_bit 8 (ucast b1) OR push_bit 16 (ucast b2) OR push_bit 24 (ucast b3)
          OR push_bit 32 (ucast b4) OR push_bit 40 (ucast b5))))))))"

lemmas encode_defs =
  u16_encode_def u24_encode_def u32_encode_def u48_encode_def u32_big_encode_def
lemmas decode_defs =
  u16_decode_def u16_big_decode_def u24_decode_def u32_decode_def u32_big_decode_def u48_decode_def

lemma encode_lengths [simp, len_simps]:
  "length (u16_encode v) = 2" "length (u24_encode w) = 3" "length (u32_encode w) = 4"
  "length (u48_encode x) = 6" "length (u32_big_encode w) = 4"
  by (simp_all add: encode_defs)

section \<open>Date and time\<close>

record date_time =
  year :: u16
  month :: u8
  day :: u8
  hours :: u8
  minutes :: u8
  seconds :: u8

definition date_time_encode :: "date_time \<Rightarrow> bytes" where
  "date_time_encode d =
     u16_encode (year d) @ [month d, day d, hours d, minutes d, seconds d]"

definition date_time_decode :: "bytes \<Rightarrow> (date_time \<times> u8) res" where
  "date_time_decode p = rbind (u16_decode p) (\<lambda>y. rbind (arr_get p 2) (\<lambda>mo.
     rbind (arr_get p 3) (\<lambda>d. rbind (arr_get p 4) (\<lambda>h. rbind (arr_get p 5) (\<lambda>mi.
     rbind (arr_get p 6) (\<lambda>s.
     Inr (\<lparr>year = y, month = mo, day = d, hours = h, minutes = mi, seconds = s\<rparr>, 7)))))))"

lemma date_time_encode_length [simp, len_simps]: "length (date_time_encode d) = 7"
  by (simp add: date_time_encode_def)

section \<open>IEEE-11073 short floats\<close>

record ieee_sfloat =
  exponent :: s8
  mantissa :: s16

text \<open>
  The expression \<open>(exponent << 12) | (mantissa & 0x0fff)\<close> truncated to 16 bits, which the
  measurement encoders of both glucose services spell out for every short float.
\<close>

definition sfloat_pack :: "ieee_sfloat \<Rightarrow> u16" where
  "sfloat_pack f = push_bit 12 (scast (exponent f)) OR (mantissa f AND 0x0FFF)"

text \<open>The inverse macros \<open>UINT16_TO_SFLT_M\<close> and \<open>UINT16_TO_SFLT_E\<close> of \<^verbatim>\<open>bstream.h\<close>.\<close>

definition UINT16_TO_SFLT_M :: "u16 \<Rightarrow> s16" where
  "UINT16_TO_SFLT_M n = (if n AND 0x0FFF \<ge> 0x0800 then n OR 0xF000 else n AND 0x0FFF)"

definition UINT16_TO_SFLT_E :: "u16 \<Rightarrow> s8" where
  "UINT16_TO_SFLT_E n =
     (if drop_bit 12 n \<ge> 0x0008 then ucast (drop_bit 12 n OR 0xF0) else ucast (drop_bit 12 n))"

section \<open>Round trips\<close>

lemma u16_encode_join [simp]: "u16_encode (ucast a OR push_bit 8 (ucast b)) = [a, b]" for a b :: u8
proof -
  have "bit a (8 + n) \<longleftrightarrow> False" for n using bit_imp_le_length [of a "8 + n"] by auto
  then show ?thesis
    unfolding u16_encode_def mask_simps by (auto simp: bit_simps intro!: bit_word_eqI)
qed

lemmas bytes_join = take_bit_join [of 8 _ 8, simplified] take_bit_join [of 16 _ 8, simplified]
  take_bit_join [of 24 _ 8, simplified] take_bit_join [of 32 _ 8, simplified] take_bit_join [of 40 _ 8, simplified]

lemma u16_roundtrip: "u16_decode (u16_encode v @ rest) = Inr v"
  unfolding u16_decode_def u16_encode_def mask_simps
  by (simp add: arr_get_def byte_roundtrip byte_roundtrip_0 bytes_join take_bit_word_eq_self)

lemma u16_encode_inj: "u16_encode v = u16_encode w \<longleftrightarrow> v = w"
  by (metis Inr_inject u16_roundtrip)

lemma u24_roundtrip: "u24_decode (u24_encode v @ rest) = Inr (v AND 0xFFFFFF)"
  unfolding u24_decode_def u24_encode_def mask_simps
  by (simp add: arr_get_def byte_roundtrip byte_roundtrip_0 bytes_join flip: or.assoc)  (simp flip: take_bit_eq_mask)

lemma u32_roundtrip: "u32_decode (u32_encode v @ rest) = Inr v"
  unfolding u32_decode_def u32_encode_def mask_simps
  by (simp add: arr_get_def byte_roundtrip byte_roundtrip_0 bytes_join take_bit_word_eq_self flip: or.assoc)

lemma u32_big_roundtrip: "u32_big_decode (u32_big_encode v @ rest) = Inr v"
  unfolding u32_big_decode_def u32_big_encode_def mask_simps
  apply (simp add: arr_get_def byte_roundtrip byte_roundtrip_0 or.commute or.left_commute)
  apply (simp add: bytes_join take_bit_word_eq_self flip: or.assoc)
  done

lemma u48_roundtrip: "u48_decode (u48_encode v @ rest) = Inr (take_bit 48 v)"
  unfolding u48_decode_def u48_encode_def mask_simps
  by (simp add: arr_get_def byte_roundtrip byte_roundtrip_0 bytes_join flip: or.assoc)

lemma date_time_roundtrip: "date_time_decode (date_time_encode d @ rest) = Inr (d, 7)"
  unfolding date_time_decode_def date_time_encode_def
  by (simp add: u16_roundtrip) (simp add: arr_get_def u16_encode_def)


lemma u16_big_decode_swap: "u16_big_decode (a # b # rest) = u16_decode (b # a # rest)"
  by (simp add: u16_big_decode_def u16_decode_def arr_get_def or.commute)

lemma sfloat_M_roundtrip:
  assumes "- 2048 \<le> sint (mantissa f)" "sint (mantissa f) < 2048"
  shows "UINT16_TO_SFLT_M (sfloat_pack f) = mantissa f"
proof -
  have h: "bit (mantissa f) n = bit (mantissa f) 11" if "12 \<le> n" "n < 16" for n
    using sint_high_bits [of 11 "mantissa f" n] assms that by simp
  have F: "(0xF000 :: u16) = push_bit 12 (mask 4)" "(0x800 :: u16) = 2 ^ 11" "(0xFFF :: u16) = mask (Suc 11)"
    by (simp_all add: mask_eq_exp_minus_1 push_bit_eq_mult)
  have b11: "bit (sfloat_pack f) 11 = bit (mantissa f) 11"
    by (simp add: sfloat_pack_def mask_simps bit_simps)
  have g: "0x800 \<le> sfloat_pack f AND 0xFFF \<longleftrightarrow> bit (mantissa f) 11"
    by (subst F(2), subst F(3), subst and_mask_ge) (simp_all add: b11)
  show ?thesis
    unfolding UINT16_TO_SFLT_M_def g
  proof (rule bit_word_eqI)
    fix n assume "n < LENGTH(16)"
    then consider "n < 12" | "12 \<le> n" "n < 16" "bit (mantissa f) n = bit (mantissa f) 11"
      using h [of n] by fastforce
    then show "bit (if bit (mantissa f) 11 then sfloat_pack f OR 0xF000 else sfloat_pack f AND 0xFFF) n
        = bit (mantissa f) n"
      by cases (auto simp: F(1) sfloat_pack_def mask_simps bit_simps)
  qed
qed

lemma sfloat_E_roundtrip:
  assumes "- 8 \<le> sint (exponent f)" "sint (exponent f) < 8"
  shows "UINT16_TO_SFLT_E (sfloat_pack f) = exponent f"
proof -
  have h: "bit (exponent f) n = bit (exponent f) 3" if "4 \<le> n" "n < 8" for n
    using sint_high_bits [of 3 "exponent f" n] assms that by simp
  have F: "(0xF0 :: u16) = push_bit 4 (mask 4)" "(8 :: u16) = 2 ^ 3" 
    by (simp_all add: mask_eq_exp_minus_1 push_bit_eq_mult)
  have d: "drop_bit 12 (sfloat_pack f) = drop_bit 12 (sfloat_pack f) AND mask (Suc 3)"
    by (rule bit_word_eqI) (auto simp: bit_simps dest: bit_imp_le_length)
  have b3: "bit (drop_bit 12 (sfloat_pack f)) 3 = bit (exponent f) 3"
    by (simp add: sfloat_pack_def mask_simps bit_simps)
  have g: "8 \<le> drop_bit 12 (sfloat_pack f) \<longleftrightarrow> bit (exponent f) 3"
    by (subst d, subst F(2), subst and_mask_ge) (simp_all add: b3)
  show ?thesis
    unfolding UINT16_TO_SFLT_E_def g
  proof (rule bit_word_eqI)
    fix n assume "n < LENGTH(8)"
    then consider "n < 4" | "4 \<le> n" "n < 8" "bit (exponent f) n = bit (exponent f) 3"
      using h [of n] by fastforce
    then show "bit (if bit (exponent f) 3 then ucast (drop_bit 12 (sfloat_pack f) OR 0xF0)
        else ucast (drop_bit 12 (sfloat_pack f)) :: s8) n = bit (exponent f) n"
      by cases (auto simp: F(1) sfloat_pack_def mask_simps bit_simps)
  qed
qed

text \<open>
  C39 (round trip). What the integer and date encoders write is read back by the
  matching decoder, whatever follows in the buffer; the 24- and 48-bit encoders keep the low
  24 and 48 bits.
\<close>

theorem codecs_roundtrip:
  "u16_decode (u16_encode a @ r) = Inr a \<and>
   u24_decode (u24_encode b @ r) = Inr (b AND 0xFFFFFF) \<and>
   u32_decode (u32_encode b @ r) = Inr b \<and>
   u32_big_decode (u32_big_encode b @ r) = Inr b \<and>
   u48_decode (u48_encode c @ r) = Inr (take_bit 48 c) \<and>
   date_time_decode (date_time_encode d @ r) = Inr (d, 7)"
  by (intro conjI u16_roundtrip u24_roundtrip u32_roundtrip u32_big_roundtrip u48_roundtrip
      date_time_roundtrip)

text \<open>
  A short float whose exponent fits in four signed bits and whose
  mantissa fits in twelve is recovered by the unpacking macros from the 16-bit value the
  measurement encoders send.
\<close>

theorem sfloat_roundtrip:
  assumes "- 8 \<le> sint (exponent f)" "sint (exponent f) < 8"
    and "- 2048 \<le> sint (mantissa f)" "sint (mantissa f) < 2048"
  shows "\<lparr>exponent = UINT16_TO_SFLT_E (sfloat_pack f), mantissa = UINT16_TO_SFLT_M (sfloat_pack f)\<rparr> = f"
  using sfloat_E_roundtrip [OF assms(1,2)] sfloat_M_roundtrip [OF assms(3,4)] by simp

theorem sfloat_roundtrip_witness:
  "sfloat_pack \<lparr>exponent = - 3, mantissa = - 5\<rparr> = 0xDFFB \<and>
   \<lparr>exponent = UINT16_TO_SFLT_E (sfloat_pack \<lparr>exponent = - 3, mantissa = - 5\<rparr>),
    mantissa = UINT16_TO_SFLT_M (sfloat_pack \<lparr>exponent = - 3, mantissa = - 5\<rparr>)\<rparr>
     = \<lparr>exponent = - 3, mantissa = - 5\<rparr>"
  by (rule conjI, code_simp, rule sfloat_roundtrip, code_simp+)

end
