(* ===== verification/Crc16.thy ===== *)
theory Crc16
  imports Prelude
begin

text \<open>
  The end-to-end CRC of the continuous glucose monitoring service (\<open>invert_u8\<close>, \<open>invert_u16\<close>
  and \<open>crc16_ccitt\<close> of \<^verbatim>\<open>samples/bluetooth/gatt/cgms.c\<close>). The routine reflects every input byte
  and the result; it is shown equal to the usual reflected shift-right computation, and to
  detect every corruption that is confined to one byte.
\<close>

section \<open>The code\<close>

definition invert_u8 :: "u8 \<Rightarrow> u8" where
  "invert_u8 src =
     fold (\<lambda>i tmp. if flag_set src (push_bit i 1) then tmp OR push_bit (7 - i) 1 else tmp) [0..<8] 0"

definition invert_u16 :: "u16 \<Rightarrow> u16" where
  "invert_u16 src =
     fold (\<lambda>i tmp. if flag_set src (push_bit i 1) then tmp OR push_bit (15 - i) 1 else tmp) [0..<16] 0"

text \<open>The body of the inner loop, and one pass through the outer loop.\<close>

definition crc16_bit :: "u16 \<Rightarrow> u16" where
  "crc16_bit crcin =
     (if flag_set crcin 0x8000 then push_bit 1 crcin XOR 0x1021 else push_bit 1 crcin)"

definition crc16_byte :: "u16 \<Rightarrow> u8 \<Rightarrow> u16" where
  "crc16_byte crcin c = (crc16_bit ^^ 8) (crcin XOR push_bit 8 (ucast (invert_u8 c)))"

definition crc16_ccitt :: "bytes \<Rightarrow> u16" where
  "crc16_ccitt push_msg = invert_u16 (foldl crc16_byte 0xffff push_msg)"

section \<open>Reference: the reflected CRC\<close>

definition refl_bit :: "u16 \<Rightarrow> u16" where
  "refl_bit x = (if bit x 0 then drop_bit 1 x XOR 0x8408 else drop_bit 1 x)"

definition refl_byte :: "u16 \<Rightarrow> u8 \<Rightarrow> u16" where
  "refl_byte x c = (refl_bit ^^ 8) (x XOR ucast c)"

definition refl_crc :: "bytes \<Rightarrow> u16" where
  "refl_crc = foldl refl_byte 0xffff"

section \<open>Bit reversal\<close>

lemma bit_reverse_fold:
  fixes x :: "'a::len word"
  assumes "k \<le> Suc m" "m < LENGTH('a)"
  shows "bit (fold (\<lambda>i t. if flag_set x (push_bit i 1) then t OR push_bit (m - i) 1 else t) [0..<k] (0 :: 'a word)) n
     \<longleftrightarrow> (\<exists>i<k. bit x i \<and> n = m - i)"
  using assms(1)
proof (induction k)
  case (Suc k)
  then have k: "k < LENGTH('a)" "m - k < LENGTH('a)" "k \<le> Suc m" using assms(2) by auto
  with Suc show ?case by (auto simp: flag_set_power bit_simps less_Suc_eq)
qed simp

lemma bit_invert_u8: "bit (invert_u8 x) n \<longleftrightarrow> n < 8 \<and> bit x (7 - n)"
proof -
  have "bit (invert_u8 x) n \<longleftrightarrow> (\<exists>i<8. bit x i \<and> n = 7 - i)"
    unfolding invert_u8_def by (rule bit_reverse_fold) simp_all
  also have "\<dots> \<longleftrightarrow> n < 8 \<and> bit x (7 - n)"
    by (auto intro: exI [of _ "7 - n"])
  finally show ?thesis .
qed

lemma bit_invert_u16: "bit (invert_u16 x) n \<longleftrightarrow> n < 16 \<and> bit x (15 - n)"
proof -
  have "bit (invert_u16 x) n \<longleftrightarrow> (\<exists>i<16. bit x i \<and> n = 15 - i)"
    unfolding invert_u16_def by (rule bit_reverse_fold) simp_all
  also have "\<dots> \<longleftrightarrow> n < 16 \<and> bit x (15 - n)"
    by (auto intro: exI [of _ "15 - n"])
  finally show ?thesis .
qed

lemma invert_u8_involutive: "invert_u8 (invert_u8 x) = x"
  by (rule bit_word_eqI) (auto simp: bit_invert_u8)

lemma invert_u16_involutive: "invert_u16 (invert_u16 x) = x"
  by (rule bit_word_eqI) (auto simp: bit_invert_u16)

lemma invert_u16_inj: "invert_u16 x = invert_u16 y \<longleftrightarrow> x = y"
  by (metis invert_u16_involutive)

lemma invert_u16_xor: "invert_u16 (x XOR y) = invert_u16 x XOR invert_u16 y"
  by (rule bit_word_eqI) (auto simp: bit_invert_u16 bit_simps)

lemma invert_u16_shift: "invert_u16 (push_bit 1 x) = drop_bit 1 (invert_u16 x)"
  by (rule bit_word_eqI) (auto simp: bit_invert_u16 bit_simps simp del: push_bit_Suc)

lemma invert_u16_byte: "invert_u16 (push_bit 8 (ucast (invert_u8 c))) = ucast c"
proof (rule bit_word_eqI)
  fix n assume "n < LENGTH(16)"
  then show "bit (invert_u16 (push_bit 8 (ucast (invert_u8 c)))) n = bit (ucast c :: u16) n"
    by (cases "n < 8") (auto simp: bit_invert_u16 bit_invert_u8 bit_simps dest: bit_imp_le_length)
qed

section \<open>Equality with the reference\<close>

lemma flag_top: "flag_set (x :: u16) 0x8000 \<longleftrightarrow> bit x 15"
  using flag_set_bit [of x 15] by (simp add: push_bit_eq_mult)

lemma invert_u16_step: "invert_u16 (crc16_bit x) = refl_bit (invert_u16 x)"
proof -
  have "invert_u16 0x1021 = 0x8408" by code_simp
  moreover have "bit (invert_u16 x) 0 \<longleftrightarrow> bit x 15" by (simp add: bit_invert_u16)
  ultimately show ?thesis
    by (simp add: crc16_bit_def refl_bit_def flag_top invert_u16_xor invert_u16_shift
        del: push_bit_Suc One_nat_def)
qed

lemma invert_u16_steps: "invert_u16 ((crc16_bit ^^ n) x) = (refl_bit ^^ n) (invert_u16 x)"
  by (induction n) (simp_all add: invert_u16_step)

lemma invert_u16_crc16_byte: "invert_u16 (crc16_byte x c) = refl_byte (invert_u16 x) c"
  unfolding crc16_byte_def refl_byte_def invert_u16_steps invert_u16_xor invert_u16_byte ..

lemma invert_u16_foldl:
  "invert_u16 (foldl crc16_byte x msg) = foldl refl_byte (invert_u16 x) msg"
  by (induction msg arbitrary: x) (simp_all add: invert_u16_crc16_byte)

text \<open>
  C36 (equivalence). The double-reflecting routine computes the reflected CRC-16 with the
  polynomial 0x8408 and the initial value 0xFFFF.
\<close>

theorem crc16_ccitt_is_reflected: "crc16_ccitt msg = refl_crc msg"
proof -
  have "invert_u16 0xffff = 0xffff" by code_simp
  then show ?thesis by (simp add: crc16_ccitt_def refl_crc_def invert_u16_foldl)
qed

section \<open>Error detection\<close>

lemma xor_cancel_left: "z XOR x = z XOR y \<longleftrightarrow> x = y" for x y z :: "'a::len word"
  by (metis xor.assoc xor.left_neutral xor_self_eq)

lemma xor_cancel_right: "x XOR z = y XOR z \<longleftrightarrow> x = y" for x y z :: "'a::len word"
  by (metis xor.commute xor_cancel_left)

lemma crc16_bit_inj: "crc16_bit x = crc16_bit y \<Longrightarrow> x = y"
proof -
  assume eq: "crc16_bit x = crc16_bit y"
  have low: "bit (crc16_bit z) 0 \<longleftrightarrow> bit z 15" for z
  proof -
    have "bit (0x1021 :: u16) 0" by simp
    then show ?thesis by (simp add: crc16_bit_def flag_top bit_simps del: push_bit_Suc)
  qed
  from eq low [of x] low [of y] have top: "bit x 15 \<longleftrightarrow> bit y 15" by simp
  with eq have sh: "push_bit 1 x = push_bit 1 y"
    by (cases "bit x 15")
      (simp_all add: crc16_bit_def flag_top xor_cancel_right del: push_bit_Suc One_nat_def)
  show "x = y"
  proof (rule bit_word_eqI)
    fix n assume n: "n < LENGTH(16)"
    from sh have "bit (push_bit 1 x) (Suc n) = bit (push_bit 1 y) (Suc n)" by (rule arg_cong)
    with n top show "bit x n = bit y n"
      by (cases "n = 15") (auto simp: bit_simps simp del: push_bit_Suc)
  qed
qed

lemma crc16_bits_inj: "(crc16_bit ^^ n) x = (crc16_bit ^^ n) y \<Longrightarrow> x = y"
  by (induction n) (auto dest: crc16_bit_inj)

lemma crc16_byte_inj_crc: "crc16_byte x c = crc16_byte y c \<Longrightarrow> x = y"
  unfolding crc16_byte_def by (drule crc16_bits_inj) (simp add: xor_cancel_right)

lemma crc16_byte_inj_byte: "crc16_byte x a = crc16_byte x b \<Longrightarrow> a = b"
proof -
  assume "crc16_byte x a = crc16_byte x b"
  then have "push_bit 8 (ucast (invert_u8 a)) = (push_bit 8 (ucast (invert_u8 b)) :: u16)"
    unfolding crc16_byte_def using crc16_bits_inj xor_cancel_left by blast
  then have "invert_u16 (push_bit 8 (ucast (invert_u8 a))) = invert_u16 (push_bit 8 (ucast (invert_u8 b)))"
    by simp
  then have "(ucast a :: u16) = ucast b" by (simp only: invert_u16_byte)
  moreover have "ucast (ucast c :: u16) = c" for c :: u8
    by (rule bit_word_eqI) (auto simp: bit_simps)
  ultimately show "a = b" by metis
qed

lemma foldl_crc16_inj: "foldl crc16_byte x msg = foldl crc16_byte y msg \<Longrightarrow> x = y"
  by (induction msg arbitrary: x y) (auto dest: crc16_byte_inj_crc)

lemma crc16_one_byte: "crc16_ccitt (pre @ a # post) = crc16_ccitt (pre @ b # post) \<Longrightarrow> a = b"
  by (auto simp: crc16_ccitt_def invert_u16_inj dest!: foldl_crc16_inj crc16_byte_inj_byte)

text \<open>
  Two messages that differ in exactly one byte have different CRCs, so a
  receiver that compares the CRC rejects every corruption confined to one byte.
\<close>

theorem crc16_detects_byte_corruption:
  "crc16_ccitt (pre @ a # post) = crc16_ccitt (pre @ b # post) \<longleftrightarrow> a = b"
  using crc16_one_byte by blast

end
