(* ===== verification/Gatt_Env.thy ===== *)
theory Gatt_Env
  imports Prelude
begin

text \<open>
  The Bluetooth host as the services see it. The host is in the ROM of the chip, so its two
  transmission calls are a parameter of the model: an environment gives the result code of
  every \<open>bt_gatt_notify\<close> and \<open>bt_gatt_indicate\<close> call, and the result may depend on all earlier
  calls. A service keeps the trace of its calls (attribute index, bytes, result code).
\<close>

datatype gatt_call = Notify nat bytes s32 | Indicate nat bytes s32

record gatt_env =
  env_notify :: "gatt_call list \<Rightarrow> nat \<Rightarrow> bytes \<Rightarrow> s32"
  env_indicate :: "gatt_call list \<Rightarrow> nat \<Rightarrow> bytes \<Rightarrow> s32"

definition bt_gatt_notify ::
    "gatt_env \<Rightarrow> nat \<Rightarrow> bytes \<Rightarrow> gatt_call list \<Rightarrow> s32 \<times> gatt_call list" where
  "bt_gatt_notify env attr data tr =
     (let r = env_notify env tr attr data in (r, tr @ [Notify attr data r]))"

definition bt_gatt_indicate ::
    "gatt_env \<Rightarrow> nat \<Rightarrow> bytes \<Rightarrow> gatt_call list \<Rightarrow> s32 \<times> gatt_call list" where
  "bt_gatt_indicate env attr data tr =
     (let r = env_indicate env tr attr data in (r, tr @ [Indicate attr data r]))"

text \<open>An environment in which every transmission is accepted.\<close>

definition env_accepts :: "gatt_env \<Rightarrow> bool" where
  "env_accepts env \<longleftrightarrow>
     (\<forall>tr a d. env_notify env tr a d = 0) \<and> (\<forall>tr a d. env_indicate env tr a d = 0)"

definition env_always_ok :: gatt_env where
  "env_always_ok = \<lparr>env_notify = (\<lambda>_ _ _. 0), env_indicate = (\<lambda>_ _ _. 0)\<rparr>"

lemma env_always_ok_accepts [simp]: "env_accepts env_always_ok"
  by (simp add: env_accepts_def env_always_ok_def)

lemma env_acceptsD:
  "env_accepts env \<Longrightarrow> env_notify env tr a d = 0"
  "env_accepts env \<Longrightarrow> env_indicate env tr a d = 0"
  by (simp_all add: env_accepts_def)

section \<open>ATT error codes and error numbers\<close>

text \<open>\<open>BT_GATT_ERR(e)\<close> is \<open>-(e)\<close>; a handler returns such a value or the accepted length.\<close>

definition BT_GATT_ERR :: "int \<Rightarrow> int" where
  "BT_GATT_ERR e = - e"

abbreviation (input) "BT_ATT_ERR_INVALID_HANDLE \<equiv> 0x01 :: int"
abbreviation (input) "BT_ATT_ERR_INVALID_OFFSET \<equiv> 0x07 :: int"
abbreviation (input) "BT_ATT_ERR_INVALID_ATTRIBUTE_LEN \<equiv> 0x0d :: int"
abbreviation (input) "BT_ATT_ERR_UNLIKELY \<equiv> 0x0e :: int"
abbreviation (input) "BT_ATT_ERR_CCC_IMPROPER_CONF \<equiv> 0xfd :: int"
abbreviation (input) "BT_ATT_ERR_PROCEDURE_IN_PROGRESS \<equiv> 0xfe :: int"
abbreviation (input) "BT_ATT_ERR_OUT_OF_RANGE \<equiv> 0xff :: int"

abbreviation (input) "EINVAL \<equiv> 22 :: s32"
abbreviation (input) "ENOMEM \<equiv> 12 :: s32"

abbreviation (input) "BT_GATT_CCC_NOTIFY \<equiv> 0x0001 :: u16"
abbreviation (input) "BT_GATT_CCC_INDICATE \<equiv> 0x0002 :: u16"

text \<open>
  The host's \<open>bt_gatt_attr_read\<close>, which copies a part of a value to the reader, is a parameter of the read handlers: from the
  length of the buffer, the offset and the value to the result and the bytes copied out.
\<close>

type_synonym attr_read = "nat \<Rightarrow> nat \<Rightarrow> bytes \<Rightarrow> int \<times> bytes"

end
