(* ===== verification/Slot_Db.thy ===== *)
theory Slot_Db
  imports Gatt_Env
begin

text \<open>
  The record databases of the two glucose services. \<^verbatim>\<open>cgms_db.c\<close> and \<^verbatim>\<open>gls_db.c\<close> are the same
  code over two record types, so the operations are defined once, polymorphic in the record
  type; the service theories instantiate them under the names of the C functions.

  The state is the static array \<open>database[MAX_RECORDS]\<close> and the counter \<open>records_num\<close>. The
  loops run over the whole array (their bound is the declared size of the array). The
  interface \<open>record_store\<close> states what the record access procedures rely on.
\<close>

section \<open>State and operations\<close>

record 'r database_entry =
  is_in_use :: bool
  entry_record :: 'r

record 'r slot_db =
  slots :: "'r database_entry list"
  records_num :: u16

abbreviation (input) "MAX_RECORDS \<equiv> 20 :: nat"

definition slot_db_init :: "'r slot_db \<Rightarrow> 'r slot_db" where
  "slot_db_init d =
     d\<lparr>slots := map (\<lambda>e. e\<lparr>is_in_use := False\<rparr>) (slots d), records_num := 0\<rparr>"

definition slot_db_num_records_get :: "'r slot_db \<Rightarrow> u16" where
  "slot_db_num_records_get d = records_num d"

text \<open>The result is the error code, or the record copied to the caller's memory.\<close>

definition slot_db_record_get :: "u8 \<Rightarrow> 'r slot_db \<Rightarrow> (s32 + 'r) res" where
  "slot_db_record_get rec_idx d =
     (if unat rec_idx \<ge> unat (records_num d) then Inr (Inl (- EINVAL))
      else rbind (arr_get (slots d) (unat rec_idx)) (\<lambda>e. Inr (Inr (entry_record e))))"

fun take_free_slot :: "'r \<Rightarrow> 'r database_entry list \<Rightarrow> 'r database_entry list option" where
  "take_free_slot r [] = None"
| "take_free_slot r (e # es) =
     (if \<not> is_in_use e then Some (e\<lparr>is_in_use := True, entry_record := r\<rparr> # es)
      else map_option ((#) e) (take_free_slot r es))"

definition slot_db_record_add :: "'r \<Rightarrow> 'r slot_db \<Rightarrow> s32 \<times> 'r slot_db" where
  "slot_db_record_add r d =
     (if records_num d = of_nat MAX_RECORDS then (- ENOMEM, d)
      else (case take_free_slot r (slots d) of
              Some es \<Rightarrow> (0, d\<lparr>slots := es, records_num := records_num d + 1\<rparr>)
            | None \<Rightarrow> (- ENOMEM, d)))"

definition slot_db_record_delete :: "u8 \<Rightarrow> 'r slot_db \<Rightarrow> (s32 \<times> 'r slot_db) res" where
  "slot_db_record_delete rec_idx d =
     (if unat rec_idx \<ge> unat (records_num d) then Inr (- EINVAL, d)
      else rbind (arr_get (slots d) (unat rec_idx)) (\<lambda>e.
           Inr (0, d\<lparr>slots := (slots d)[unat rec_idx := e\<lparr>is_in_use := False\<rparr>],
                     records_num := records_num d - 1\<rparr>)))"

fun release_first_slot :: "'r database_entry list \<Rightarrow> 'r database_entry list option" where
  "release_first_slot [] = None"
| "release_first_slot (e # es) =
     (if is_in_use e then Some (e\<lparr>is_in_use := False\<rparr> # es)
      else map_option ((#) e) (release_first_slot es))"

definition slot_db_record_delete_first :: "'r slot_db \<Rightarrow> s32 \<times> 'r slot_db" where
  "slot_db_record_delete_first d =
     (case release_first_slot (slots d) of
        Some es \<Rightarrow> (0, d\<lparr>slots := es, records_num := records_num d - 1\<rparr>)
      | None \<Rightarrow> (- 1, d))"

text \<open>
  The loop of \<open>record_delete_last\<close> starts at the last index and counts up
  (\<open>for (i = MAX - 1; i >= 0; i++)\<close>), so after the last entry it reads past the array.
\<close>

function release_last_slot :: "nat \<Rightarrow> 'r database_entry list \<Rightarrow> 'r database_entry list res" where
  "release_last_slot i es =
     (if i < length es
      then if is_in_use (es ! i) then Inr (es[i := (es ! i)\<lparr>is_in_use := False\<rparr>])
           else release_last_slot (Suc i) es
      else Inl Out_Of_Bounds)"
  by pat_completeness auto
termination
  by (relation "measure (\<lambda>(i, es). length es - i)") auto

declare release_last_slot.simps [simp del]

definition slot_db_record_delete_last :: "'r slot_db \<Rightarrow> (s32 \<times> 'r slot_db) res" where
  "slot_db_record_delete_last d =
     rbind (release_last_slot (MAX_RECORDS - 1) (slots d)) (\<lambda>es.
       Inr (0, d\<lparr>slots := es, records_num := records_num d - 1\<rparr>))"

definition slot_db_record_delete_all :: "'r slot_db \<Rightarrow> 'r slot_db" where
  "slot_db_record_delete_all d =
     d\<lparr>slots := map (\<lambda>e. e\<lparr>is_in_use := False\<rparr>) (slots d), records_num := 0\<rparr>"

section \<open>Invariants and abstraction\<close>

text \<open>
  \<open>db_count_ok\<close>: the array has its declared size and the counter is the number of entries in
  use. \<open>db_compact\<close>: in addition the entries in use are the first ones, which is what
  \<open>record_get\<close> presupposes when it compares an array index with the counter. The
  records a compact database holds are the abstract list \<open>db_contents\<close>.
\<close>

definition in_use_count :: "'r slot_db \<Rightarrow> nat" where
  "in_use_count d = length (filter is_in_use (slots d))"

definition db_count_ok :: "'r slot_db \<Rightarrow> bool" where
  "db_count_ok d \<longleftrightarrow> length (slots d) = MAX_RECORDS \<and> unat (records_num d) = in_use_count d"

definition db_compact :: "'r slot_db \<Rightarrow> bool" where
  "db_compact d \<longleftrightarrow> length (slots d) = MAX_RECORDS \<and> unat (records_num d) \<le> MAX_RECORDS \<and>
     (\<forall>i<MAX_RECORDS. is_in_use (slots d ! i) \<longleftrightarrow> i < unat (records_num d))"

definition db_contents :: "'r slot_db \<Rightarrow> 'r list" where
  "db_contents d = map entry_record (take (unat (records_num d)) (slots d))"

lemma db_contents_length:
  "length (slots d) = MAX_RECORDS \<Longrightarrow> unat (records_num d) \<le> MAX_RECORDS \<Longrightarrow>
   length (db_contents d) = unat (records_num d)"
  by (simp add: db_contents_def)

lemma take_free_slot_at:
  "k < length es \<Longrightarrow> (\<forall>i<k. is_in_use (es ! i)) \<Longrightarrow> \<not> is_in_use (es ! k) \<Longrightarrow>
   take_free_slot r es = Some (es[k := (es ! k)\<lparr>is_in_use := True, entry_record := r\<rparr>])"
proof (induction es arbitrary: k)
  case (Cons e es)
  show ?case
  proof (cases k)
    case (Suc j)
    with Cons.prems have "is_in_use e" and "\<forall>i<j. is_in_use (es ! i)" by fastforce+
    with Cons.prems Suc Cons.IH [of j] show ?thesis by simp
  qed (use Cons.prems in simp)
qed simp

lemma release_first_slot_at:
  "k < length es \<Longrightarrow> (\<forall>i<k. \<not> is_in_use (es ! i)) \<Longrightarrow> is_in_use (es ! k) \<Longrightarrow>
   release_first_slot es = Some (es[k := (es ! k)\<lparr>is_in_use := False\<rparr>])"
proof (induction es arbitrary: k)
  case (Cons e es)
  show ?case
  proof (cases k)
    case (Suc j)
    with Cons.prems have "\<not> is_in_use e" and "\<forall>i<j. \<not> is_in_use (es ! i)" by fastforce+
    with Cons.prems Suc Cons.IH [of j] show ?thesis by simp
  qed (use Cons.prems in simp)
qed simp

lemma take_free_slot_count:
  "take_free_slot r es = Some es' \<Longrightarrow>
   length es' = length es \<and> length (filter is_in_use es') = Suc (length (filter is_in_use es))"
  by (induction es arbitrary: es') (auto split: if_splits)

lemma take_free_slot_None: "take_free_slot r es = None \<longleftrightarrow> (\<forall>e\<in>set es. is_in_use e)"
  by (induction es) auto

lemma release_first_slot_count:
  "release_first_slot es = Some es' \<Longrightarrow>
   length es' = length es \<and> length (filter is_in_use es) = Suc (length (filter is_in_use es'))"
  by (induction es arbitrary: es') (auto split: if_splits)

lemma release_first_slot_None: "release_first_slot es = None \<longleftrightarrow> (\<forall>e\<in>set es. \<not> is_in_use e)"
  by (induction es) auto

lemma filter_count_update:
  "i < length es \<Longrightarrow> is_in_use (es ! i) \<Longrightarrow>
   Suc (length (filter is_in_use (es[i := (es ! i)\<lparr>is_in_use := False\<rparr>]))) =
     length (filter is_in_use es)"
proof (induction es arbitrary: i)
  case (Cons e es)
  then show ?case by (cases i) auto
qed simp

lemma release_last_slot_last:
  "length es = Suc i \<Longrightarrow> release_last_slot i es =
     (if is_in_use (es ! i) then Inr (es[i := (es ! i)\<lparr>is_in_use := False\<rparr>]) else Inl Out_Of_Bounds)"
  by (simp add: release_last_slot.simps [of i] release_last_slot.simps [of "Suc i"])

section \<open>The counter invariant\<close>

lemma filter_none [simp]: "filter is_in_use (map (\<lambda>e. e\<lparr>is_in_use := False\<rparr>) es) = []"
  by (induction es) auto

lemma db_count_ok_reset:
  "db_count_ok d \<Longrightarrow> db_count_ok (slot_db_init d) \<and> db_count_ok (slot_db_record_delete_all d)"
  by (simp add: db_count_ok_def slot_db_init_def slot_db_record_delete_all_def in_use_count_def)

lemma in_use_count_le: "db_count_ok d \<Longrightarrow> in_use_count d \<le> MAX_RECORDS"
  by (metis db_count_ok_def in_use_count_def length_filter_le)

lemma db_count_ok_add:
  assumes "db_count_ok d" shows "db_count_ok (snd (slot_db_record_add r d))"
proof (cases "take_free_slot r (slots d)")
  case (Some es)
  with take_free_slot_count [OF Some] assms in_use_count_le [OF assms] show ?thesis
    by (auto simp: slot_db_record_add_def db_count_ok_def in_use_count_def unat_word_ariths)
qed (use assms in \<open>simp add: slot_db_record_add_def\<close>)

lemma db_count_pred:
  "unat (n :: u16) = Suc k \<Longrightarrow> unat (n - 1) = k"
  by (simp add: unat_sub_if_size)

lemma db_count_ok_delete_first:
  assumes "db_count_ok d" shows "db_count_ok (snd (slot_db_record_delete_first d))"
proof (cases "release_first_slot (slots d)")
  case (Some es)
  with release_first_slot_count [OF Some] assms show ?thesis
    by (simp add: slot_db_record_delete_first_def db_count_ok_def in_use_count_def db_count_pred)
qed (use assms in \<open>simp add: slot_db_record_delete_first_def\<close>)

lemma db_count_ok_delete_last:
  assumes "db_count_ok d" "slot_db_record_delete_last d = Inr (c, d')" shows "db_count_ok d'"
proof -
  let ?es = "slots d"
  from assms have len: "length ?es = Suc 19" by (simp add: db_count_ok_def)
  with assms(2) have u: "is_in_use (?es ! 19)"
    and d': "d' = d\<lparr>slots := ?es[19 := (?es ! 19)\<lparr>is_in_use := False\<rparr>], records_num := records_num d - 1\<rparr>"
    by (auto simp: slot_db_record_delete_last_def release_last_slot_last split: if_splits)
  from filter_count_update [of 19 ?es] u len assms(1) show ?thesis
    by (simp add: d' db_count_ok_def in_use_count_def db_count_pred [OF sym])
qed

text \<open>Deleting the last record stays within the array exactly when the last entry is in use.\<close>

lemma delete_last_in_use:
  assumes "db_count_ok d" "is_in_use (slots d ! 19)"
  shows "\<exists>c d'. slot_db_record_delete_last d = Inr (c, d') \<and> db_count_ok d'"
proof -
  have "length (slots d) = Suc 19" using assms(1) by (simp add: db_count_ok_def)
  then obtain c d' where "slot_db_record_delete_last d = Inr (c, d')"
    using assms(2) by (simp add: slot_db_record_delete_last_def release_last_slot_last)
  with db_count_ok_delete_last [OF assms(1) this] show ?thesis by blast
qed

lemma delete_last_free:
  assumes "db_count_ok d" "\<not> is_in_use (slots d ! 19)"
  shows "slot_db_record_delete_last d = Inl Out_Of_Bounds"
proof -
  have "length (slots d) = Suc 19" using assms(1) by (simp add: db_count_ok_def)
  with assms(2) show ?thesis by (simp add: slot_db_record_delete_last_def release_last_slot_last)
qed

section \<open>The interface of a record store\<close>

text \<open>
  What the record access procedures use: the number of records and access by index. A
  \<open>record_store\<close> can also grow and be cleared.
\<close>

locale record_source =
  fixes invar :: "'db \<Rightarrow> bool"
    and contents :: "'db \<Rightarrow> 'r list"
    and num :: "'db \<Rightarrow> u16"
    and get :: "u8 \<Rightarrow> 'db \<Rightarrow> (s32 + 'r) res"
  assumes num_contents: "invar d \<Longrightarrow> unat (num d) = length (contents d)"
    and contents_bound: "invar d \<Longrightarrow> length (contents d) \<le> MAX_RECORDS"
    and get_contents:
      "invar d \<Longrightarrow> unat i < length (contents d) \<Longrightarrow> get i d = Inr (Inr (contents d ! unat i))"
    and get_beyond: "invar d \<Longrightarrow> length (contents d) \<le> unat i \<Longrightarrow> get i d = Inr (Inl (- EINVAL))"

locale record_store = record_source +
  fixes add :: "'b \<Rightarrow> 'a \<Rightarrow> s32 \<times> 'a"
    and clear :: "'a \<Rightarrow> 'a"
  assumes add_contents:
      "invar d \<Longrightarrow> length (contents d) < MAX_RECORDS \<Longrightarrow>
       fst (add r d) = 0 \<and> invar (snd (add r d)) \<and> contents (snd (add r d)) = contents d @ [r]"
    and add_full: "invar d \<Longrightarrow> length (contents d) = MAX_RECORDS \<Longrightarrow> add r d = (- ENOMEM, d)"
    and clear_contents: "invar d \<Longrightarrow> invar (clear d) \<and> contents (clear d) = []"
begin

lemma add_invar: "invar d \<Longrightarrow> invar (snd (add r d))"
  using add_contents [of d r] add_full [of d r] contents_bound [of d] by force

lemma fold_add_contents:
  "invar d \<Longrightarrow> length (contents d) + length rs \<le> MAX_RECORDS \<Longrightarrow>
   invar (fold (\<lambda>r. snd \<circ> add r) rs d) \<and> contents (fold (\<lambda>r. snd \<circ> add r) rs d) = contents d @ rs"
proof (induction rs arbitrary: d)
  case (Cons r rs)
  with add_contents [of d r] show ?case by simp
qed simp

lemma fold_add_capped:
  "invar d \<Longrightarrow> contents (fold (\<lambda>r. snd \<circ> add r) rs d) = take MAX_RECORDS (contents d @ rs)"
proof (induction rs arbitrary: d)
  case Nil
  then show ?case using contents_bound by simp
next
  case (Cons r rs)
  show ?case
  proof (cases "length (contents d) < MAX_RECORDS")
    case True
    with add_contents [OF Cons.prems, of r] Cons.IH [of "snd (add r d)"] show ?thesis by simp
  next
    case False
    with contents_bound [OF Cons.prems] have full: "length (contents d) = MAX_RECORDS" by simp
    with add_full [OF Cons.prems, of r] Cons.IH [OF Cons.prems] show ?thesis by simp
  qed
qed

end

text \<open>The polymorphic operations implement the interface on compact databases.\<close>

lemma compact_in_use: "db_compact d \<Longrightarrow> i < MAX_RECORDS \<Longrightarrow> is_in_use (slots d ! i) \<longleftrightarrow> i < unat (records_num d)"
  and compact_bound: "db_compact d \<Longrightarrow> unat (records_num d) \<le> MAX_RECORDS"
  and compact_length: "db_compact d \<Longrightarrow> length (slots d) = MAX_RECORDS"
  by (simp_all add: db_compact_def)

lemma compact_add:
  assumes "db_compact d" "unat (records_num d) < MAX_RECORDS"
  shows "fst (slot_db_record_add r d) = 0 \<and> db_compact (snd (slot_db_record_add r d)) \<and>
         db_contents (snd (slot_db_record_add r d)) = db_contents d @ [r]"
proof -
  let ?k = "unat (records_num d)"
  let ?e = "(slots d ! ?k)\<lparr>is_in_use := True, entry_record := r\<rparr>"
  have k: "?k < length (slots d)" using assms by (simp add: compact_length)
  have free: "take_free_slot r (slots d) = Some ((slots d)[?k := ?e])"
    using k assms by (intro take_free_slot_at) (auto simp: compact_in_use compact_length)
  have ne: "records_num d \<noteq> of_nat MAX_RECORDS" using assms(2) by auto
  have suc: "unat (records_num d + 1) = Suc ?k"
    using assms(2) by (simp add: unat_word_ariths)
  have add: "slot_db_record_add r d = (0, d\<lparr>slots := (slots d)[?k := ?e], records_num := records_num d + 1\<rparr>)"
    using ne by (simp add: slot_db_record_add_def free)
  have "take (Suc ?k) ((slots d)[?k := ?e]) = take ?k (slots d) @ [?e]"
    using k by (simp add: take_Suc_conv_app_nth)
  then have "db_contents (snd (slot_db_record_add r d)) = db_contents d @ [r]"
    by (simp add: add db_contents_def suc)
  moreover have "db_compact (snd (slot_db_record_add r d))"
    using assms by (auto simp: add db_compact_def suc nth_list_update less_Suc_eq)
  ultimately show ?thesis by (simp add: add)
qed

lemma compact_reset:
  "db_compact d \<Longrightarrow> db_compact (slot_db_record_delete_all d) \<and> db_contents (slot_db_record_delete_all d) = []"
  by (simp add: db_compact_def slot_db_record_delete_all_def db_contents_def)

lemma compact_get:
  assumes "db_compact d"
  shows "slot_db_record_get i d =
     (if unat i < length (db_contents d) then Inr (Inr (db_contents d ! unat i)) else Inr (Inl (- EINVAL)))"
proof -
  have "length (db_contents d) = unat (records_num d)"
    using assms by (simp add: db_contents_length compact_length compact_bound)
  then show ?thesis
    using compact_bound [OF assms] compact_length [OF assms]
    by (simp add: slot_db_record_get_def arr_get_def db_contents_def)
qed

lemma slot_db_is_record_store:
  "record_store db_compact db_contents slot_db_num_records_get slot_db_record_get
     slot_db_record_add slot_db_record_delete_all"
proof unfold_locales
  fix d :: "'r slot_db" and i :: u8 and r :: 'r
  assume c: "db_compact d"
  then have len: "length (db_contents d) = unat (records_num d)"
    by (simp add: db_contents_length compact_length compact_bound)
  show "unat (slot_db_num_records_get d) = length (db_contents d)"
    by (simp add: slot_db_num_records_get_def len)
  show "length (db_contents d) \<le> MAX_RECORDS" using compact_bound [OF c] by (simp add: len)
  show "unat i < length (db_contents d) \<Longrightarrow> slot_db_record_get i d = Inr (Inr (db_contents d ! unat i))"
    and "length (db_contents d) \<le> unat i \<Longrightarrow> slot_db_record_get i d = Inr (Inl (- EINVAL))"
    by (simp_all add: compact_get [OF c])
  show "length (db_contents d) < MAX_RECORDS \<Longrightarrow> fst (slot_db_record_add r d) = 0 \<and>
      db_compact (snd (slot_db_record_add r d)) \<and>
      db_contents (snd (slot_db_record_add r d)) = db_contents d @ [r]"
    using compact_add [OF c] by (simp add: len)
  show "length (db_contents d) = MAX_RECORDS \<Longrightarrow> slot_db_record_add r d = (- ENOMEM, d)"
    by (simp add: slot_db_record_add_def len word_unat_eq_iff)
  show "db_compact (slot_db_record_delete_all d) \<and> db_contents (slot_db_record_delete_all d) = []"
    by (rule compact_reset [OF c])
qed

text \<open>
  A database whose counter is right is a record source even when it has holes: its contents
  are then the first \<open>records_num\<close> entries, which is what \<open>record_get\<close> hands out.
\<close>

lemma count_ok_bound: "db_count_ok d \<Longrightarrow> unat (records_num d) \<le> MAX_RECORDS"
  using in_use_count_le [of d] by (simp add: db_count_ok_def)

lemma slot_db_is_record_source:
  "record_source db_count_ok db_contents slot_db_num_records_get slot_db_record_get"
proof unfold_locales
  fix d :: "'r slot_db" and i :: u8
  assume c: "db_count_ok d"
  then have sz: "length (slots d) = MAX_RECORDS" by (simp add: db_count_ok_def)
  then have len: "length (db_contents d) = unat (records_num d)"
    by (rule db_contents_length) (rule count_ok_bound [OF c])
  show "unat (slot_db_num_records_get d) = length (db_contents d)"
    by (simp add: slot_db_num_records_get_def len)
  show "length (db_contents d) \<le> MAX_RECORDS" using count_ok_bound [OF c] by (simp add: len)
  show "unat i < length (db_contents d) \<Longrightarrow> slot_db_record_get i d = Inr (Inr (db_contents d ! unat i))"
    using count_ok_bound [OF c] by (simp add: len slot_db_record_get_def arr_get_def sz) (simp add: db_contents_def sz)
  show "length (db_contents d) \<le> unat i \<Longrightarrow> slot_db_record_get i d = Inr (Inl (- EINVAL))"
    by (simp add: len slot_db_record_get_def)
qed

lemma compact_count_ok: "db_compact d \<Longrightarrow> db_count_ok d"
proof -
  assume c: "db_compact d"
  then have "filter is_in_use (slots d) = filter is_in_use (take (unat (records_num d)) (slots d)) @
      filter is_in_use (drop (unat (records_num d)) (slots d))"
    by (metis append_take_drop_id filter_append)
  moreover have "filter is_in_use (take (unat (records_num d)) (slots d)) = take (unat (records_num d)) (slots d)"
    using c by (auto simp: filter_id_conv in_set_conv_nth compact_in_use compact_length)
  moreover have "filter is_in_use (drop (unat (records_num d)) (slots d)) = []"
    using c by (auto simp: filter_empty_conv in_set_conv_nth compact_in_use compact_length)
  ultimately show ?thesis
    using c by (simp add: db_count_ok_def in_use_count_def compact_length compact_bound)
qed

end
