(* ===== verification/Racp.thy ===== *)
theory Racp
  imports Slot_Db
begin

text \<open>
  The Record Access Control Point (RACP) procedures. \<^verbatim>\<open>cgms.c\<close> and \<^verbatim>\<open>gls.c\<close> contain the same
  procedures over their own record type, filter field and measurement sender; they are
  defined here once, over a record of the service's operations (\<open>racp_ops\<close>) and an extensible
  record of the static variables they share (\<open>racp_ctx\<close>). Each service extends the record with
  its own variables and instantiates the procedures under the names of its C functions.
\<close>

section \<open>Data\<close>

record racp =
  racp_opcode :: u8
  racp_operator :: u8
  racp_operand_len :: u8
  racp_operand :: bytes

datatype comm_state = STATE_NO_COMM | STATE_RACP_PROC_ACTIVE

record 'db racp_ctx =
  db :: 'db
  racp_ccc :: u8
  racp_indicating :: u8
  racp_buf :: bytes
  racp_request :: racp
  racp_response_code :: u8
  racp_state :: comm_state
  racp_proc_operator :: u8
  racp_proc_filter :: u16
  racp_proc_record_idx :: u8
  racp_proc_records_reported :: u8
  racp_work_submitted :: bool
  trace :: "gatt_call list"

text \<open>
  The operations of a service: its database, the field a filter compares
  (\<open>time_offset\<close> or \<open>sequence_number\<close>), its measurement sender, the attribute index of its
  control point and the host environment.
\<close>

record ('db, 'r, 'm) racp_ops =
  op_num :: "'db \<Rightarrow> u16"
  op_get :: "u8 \<Rightarrow> 'db \<Rightarrow> (s32 + 'r) res"
  op_delete_all :: "'db \<Rightarrow> 'db"
  op_delete_first :: "'db \<Rightarrow> s32 \<times> 'db"
  op_delete_last :: "'db \<Rightarrow> (s32 \<times> 'db) res"
  op_key :: "'r \<Rightarrow> u16"
  op_send :: "'r \<Rightarrow> ('db, 'm) racp_ctx_scheme \<Rightarrow> s32 \<times> ('db, 'm) racp_ctx_scheme"
  op_attr :: nat
  op_env :: gatt_env

abbreviation (input) "RACP_OPCODE_REPORT_RECS \<equiv> 1 :: u8"
abbreviation (input) "RACP_OPCODE_DELETE_RECS \<equiv> 2 :: u8"
abbreviation (input) "RACP_OPCODE_ABORT_OPERATION \<equiv> 3 :: u8"
abbreviation (input) "RACP_OPCODE_REPORT_NUM_RECS \<equiv> 4 :: u8"
abbreviation (input) "RACP_OPCODE_NUM_RECS_RESPONSE \<equiv> 5 :: u8"
abbreviation (input) "RACP_OPCODE_RESPONSE_CODE \<equiv> 6 :: u8"

abbreviation (input) "RACP_OPERATOR_NULL \<equiv> 0 :: u8"
abbreviation (input) "RACP_OPERATOR_ALL \<equiv> 1 :: u8"
abbreviation (input) "RACP_OPERATOR_LESS_OR_EQUAL \<equiv> 2 :: u8"
abbreviation (input) "RACP_OPERATOR_GREATER_OR_EQUAL \<equiv> 3 :: u8"
abbreviation (input) "RACP_OPERATOR_RANGE \<equiv> 4 :: u8"
abbreviation (input) "RACP_OPERATOR_FIRST \<equiv> 5 :: u8"
abbreviation (input) "RACP_OPERATOR_LAST \<equiv> 6 :: u8"
abbreviation (input) "RACP_OPERATOR_RFU_START \<equiv> 7 :: u8"

abbreviation (input) "RACP_RESPONSE_RESERVED \<equiv> 0 :: u8"
abbreviation (input) "RACP_RESPONSE_SUCCESS \<equiv> 1 :: u8"
abbreviation (input) "RACP_RESPONSE_OPCODE_UNSUPPORTED \<equiv> 2 :: u8"
abbreviation (input) "RACP_RESPONSE_INVALID_OPERATOR \<equiv> 3 :: u8"
abbreviation (input) "RACP_RESPONSE_OPERATOR_UNSUPPORTED \<equiv> 4 :: u8"
abbreviation (input) "RACP_RESPONSE_INVALID_OPERAND \<equiv> 5 :: u8"
abbreviation (input) "RACP_RESPONSE_NO_RECORDS_FOUND \<equiv> 6 :: u8"
abbreviation (input) "RACP_RESPONSE_ABORT_FAILED \<equiv> 7 :: u8"
abbreviation (input) "RACP_RESPONSE_OPERAND_UNSUPPORTED \<equiv> 9 :: u8"

abbreviation (input) "OPERAND_FILTER_TYPE_SEQ_NUM \<equiv> 1 :: u8"
abbreviation (input) "OPERAND_FILTER_TYPE_FACING_TIME \<equiv> 2 :: u8"
abbreviation (input) "OPERAND_FILTER_TYPE_RFU_START \<equiv> 7 :: u8"

section \<open>Decoding and encoding control point values\<close>

text \<open>\<open>racp_decode\<close> writes over the previous request: bytes it does not copy keep their value.\<close>

definition racp_decode :: "u8 \<Rightarrow> bytes \<Rightarrow> racp \<Rightarrow> racp res" where
  "racp_decode data_len buf v =
     rbind (if data_len > 0 then arr_get buf 0 else Inr 0xFF) (\<lambda>opc.
     rbind (if data_len > 1 then arr_get buf 1 else Inr 0xFF) (\<lambda>opr.
     if data_len > 2
     then rbind (mem_cpy (racp_operand v) 0 (drop 2 buf) (unat (data_len - 2))) (\<lambda>opd.
            Inr \<lparr>racp_opcode = opc, racp_operator = opr, racp_operand_len = data_len - 2,
                 racp_operand = opd\<rparr>)
     else Inr (v\<lparr>racp_opcode := opc, racp_operator := opr, racp_operand_len := 0\<rparr>)))"

text \<open>
  \<open>racp_encode\<close> stores into the given buffer and returns the length, and does nothing when the
  buffer pointer is null.
\<close>

definition racp_encode :: "racp \<Rightarrow> bytes option \<Rightarrow> (u8 \<times> bytes option) res" where
  "racp_encode v b = (case b of None \<Rightarrow> Inr (0, None)
     | Some buf \<Rightarrow>
         (let n = unat (racp_operand_len v) in
          if n \<le> length (racp_operand v)
          then rbind (mem_cpy buf 0 (racp_opcode v # racp_operator v # take n (racp_operand v)) (2 + n))
                 (\<lambda>buf'. Inr (2 + racp_operand_len v, Some buf'))
          else Inl Out_Of_Bounds))"

section \<open>Sending responses\<close>

definition state_set ::
    "comm_state \<Rightarrow> ('db, 'm) racp_ctx_scheme \<Rightarrow> ('db, 'm) racp_ctx_scheme" where
  "state_set new_state s = s\<lparr>racp_state := new_state\<rparr>"

text \<open>The confirmation of an indication (\<open>cgms_indicate_rsp\<close>, \<open>gls_indicate_rsp\<close>).\<close>

definition racp_indicate_rsp :: "('db, 'm) racp_ctx_scheme \<Rightarrow> ('db, 'm) racp_ctx_scheme" where
  "racp_indicate_rsp s = state_set STATE_NO_COMM (s\<lparr>racp_indicating := 0\<rparr>)"

definition racp_send ::
    "('db, 'r, 'm) racp_ops \<Rightarrow> racp \<Rightarrow> ('db, 'm) racp_ctx_scheme \<Rightarrow> ('db, 'm) racp_ctx_scheme res" where
  "racp_send ops v s =
     (if racp_ccc s \<noteq> 0 \<and> racp_indicating s = 0
      then rbind (racp_encode v (Some (replicate (length (racp_buf s)) 0))) (\<lambda>(len, b).
           let buf = the b;
               (r, tr) = bt_gatt_indicate (op_env ops) (op_attr ops) (take (unat len) buf) (trace s)
           in Inr (s\<lparr>racp_buf := buf, trace := tr,
                     racp_indicating := (if r = 0 then 1 else racp_indicating s)\<rparr>))
      else Inr s)"

text \<open>Of the local variable \<open>racp_val\<close> only the initialised bytes of the operand are modelled.\<close>

definition racp_response_code_send ::
    "('db, 'r, 'm) racp_ops \<Rightarrow> u8 \<Rightarrow> u8 \<Rightarrow> ('db, 'm) racp_ctx_scheme \<Rightarrow> ('db, 'm) racp_ctx_scheme res" where
  "racp_response_code_send ops opc val s =
     racp_send ops \<lparr>racp_opcode = RACP_OPCODE_RESPONSE_CODE, racp_operator = RACP_OPERATOR_NULL,
                    racp_operand_len = 2, racp_operand = [opc, val]\<rparr> s"

section \<open>Reporting records\<close>

text \<open>
  The function for all records ends in \<open>k_sleep\<close> after a record that was sent; the second component of its
  result says whether it does. It then returns zero without touching the state.
\<close>

definition racp_report_records_all ::
    "('db, 'r, 'm) racp_ops \<Rightarrow> ('db, 'm) racp_ctx_scheme \<Rightarrow> (s32 \<times> bool \<times> ('db, 'm) racp_ctx_scheme) res" where
  "racp_report_records_all ops s =
     (let total_records = op_num ops (db s) in
      if unat (racp_proc_record_idx s) \<ge> unat total_records
      then Inr (0, False, state_set STATE_NO_COMM s)
      else rbind (op_get ops (racp_proc_record_idx s) (db s)) (\<lambda>g.
             case g of Inl err \<Rightarrow> Inr (err, False, s)
             | Inr rec \<Rightarrow> (let (err, s') = op_send ops rec s in Inr (err, err = 0, s'))))"

definition racp_report_records_first_last ::
    "('db, 'r, 'm) racp_ops \<Rightarrow> ('db, 'm) racp_ctx_scheme \<Rightarrow> (s32 \<times> ('db, 'm) racp_ctx_scheme) res" where
  "racp_report_records_first_last ops s =
     (let total_records = op_num ops (db s) in
      if racp_proc_records_reported s \<noteq> 0 \<or> total_records = 0
      then Inr (0, state_set STATE_NO_COMM s)
      else rbind (if racp_proc_operator s = RACP_OPERATOR_FIRST then op_get ops 0 (db s)
                  else if racp_proc_operator s = RACP_OPERATOR_LAST
                  then op_get ops (ucast (total_records - 1)) (db s)
                  else Inl Uninit_Read) (\<lambda>g.
             case g of Inl err \<Rightarrow> Inr (err, s) | Inr rec \<Rightarrow> Inr (op_send ops rec s)))"

definition report_ge_body ::
    "('db, 'r, 'm) racp_ops \<Rightarrow> ('db, 'm) racp_ctx_scheme \<Rightarrow>
     (('db, 'm) racp_ctx_scheme, s32 \<times> ('db, 'm) racp_ctx_scheme) flow res" where
  "report_ge_body ops s =
     rbind (op_get ops (racp_proc_record_idx s) (db s)) (\<lambda>g.
       case g of Inl err \<Rightarrow> Inr (Return (err, s))
       | Inr rec \<Rightarrow>
           if op_key ops rec \<ge> racp_proc_filter s
           then (let (err, s') = op_send ops rec s in
                 if err \<noteq> 0 then Inr (Return (err, s')) else Inr (Break s'))
           else Inr (Next (s\<lparr>racp_proc_record_idx := racp_proc_record_idx s + 1\<rparr>)))"

definition racp_report_records_greater_or_equal ::
    "('db, 'r, 'm) racp_ops \<Rightarrow> ('db, 'm) racp_ctx_scheme \<Rightarrow> (s32 \<times> ('db, 'm) racp_ctx_scheme) res" where
  "racp_report_records_greater_or_equal ops s =
     (let total_records = op_num ops (db s) in
      rbind (c_while (\<lambda>s. unat (racp_proc_record_idx s) < unat total_records) (report_ge_body ops) s)
        (\<lambda>x. case x of Return r \<Rightarrow> Inr r
             | Break s' \<Rightarrow> Inr (0, if unat (racp_proc_record_idx s') = unat total_records
                                   then state_set STATE_NO_COMM s' else s')
             | Next s' \<Rightarrow> Inr (0, s')))"

definition racp_report_records_completed ::
    "('db, 'r, 'm) racp_ops \<Rightarrow> ('db, 'm) racp_ctx_scheme \<Rightarrow> ('db, 'm) racp_ctx_scheme res" where
  "racp_report_records_completed ops s =
     racp_response_code_send ops RACP_OPCODE_REPORT_RECS
       (if racp_proc_records_reported s > 0 then RACP_RESPONSE_SUCCESS
        else RACP_RESPONSE_NO_RECORDS_FOUND) s"

text \<open>
  The loop of \<open>racp_report_records_procedure\<close>. \<open>report_return\<close> is what it does with the result of a report
  function. \<open>report_pass\<close> is one pass, up to its end or to its sleep: \<open>Return (True, s)\<close> is a procedure that
  sleeps in the state \<open>s\<close>, \<open>Return (False, s)\<close> one that has returned. \<open>report_step\<close> is a whole pass during
  whose sleep nothing else runs.
\<close>

definition report_return ::
    "('db, 'r, 'm) racp_ops \<Rightarrow> s32 \<Rightarrow> ('db, 'm) racp_ctx_scheme \<Rightarrow> ('db, 'm) racp_ctx_scheme res" where
  "report_return ops err s =
     (if err = 0
      then if racp_state s = STATE_RACP_PROC_ACTIVE
           then Inr (s\<lparr>racp_proc_record_idx := racp_proc_record_idx s + 1\<rparr>)
           else racp_report_records_completed ops s
      else Inr (state_set STATE_NO_COMM s))"

definition report_pass ::
    "('db, 'r, 'm) racp_ops \<Rightarrow> ('db, 'm) racp_ctx_scheme \<Rightarrow>
     (('db, 'm) racp_ctx_scheme, bool \<times> ('db, 'm) racp_ctx_scheme) flow res" where
  "report_pass ops s =
     (if racp_opcode (racp_request s) \<noteq> RACP_OPCODE_REPORT_RECS then Inr (Break s)
      else if racp_proc_operator s \<notin> {RACP_OPERATOR_ALL, RACP_OPERATOR_FIRST, RACP_OPERATOR_LAST,
                                      RACP_OPERATOR_GREATER_OR_EQUAL}
      then Inr (Return (False, state_set STATE_NO_COMM s))
      else rbind (if racp_proc_operator s = RACP_OPERATOR_ALL then racp_report_records_all ops s
                  else rbind (if racp_proc_operator s = RACP_OPERATOR_GREATER_OR_EQUAL
                              then racp_report_records_greater_or_equal ops s
                              else racp_report_records_first_last ops s) (\<lambda>(err, s'). Inr (err, False, s')))
             (\<lambda>(err, sleeps, s').
                if sleeps then Inr (Return (True, s'))
                else rbind (report_return ops err s') (\<lambda>s''. Inr (Next s''))))"

definition report_step ::
    "('db, 'r, 'm) racp_ops \<Rightarrow> ('db, 'm) racp_ctx_scheme \<Rightarrow>
     (('db, 'm) racp_ctx_scheme, ('db, 'm) racp_ctx_scheme) flow res" where
  "report_step ops s =
     rbind (report_pass ops s) (\<lambda>x. case x of
         Next s' \<Rightarrow> Inr (Next s')
       | Break s' \<Rightarrow> Inr (Break s')
       | Return (asleep, s') \<Rightarrow>
           if asleep then rbind (report_return ops 0 s') (\<lambda>s''. Inr (Next s'')) else Inr (Return s'))"

text \<open>The procedure when nothing else runs during its sleeps.\<close>

definition racp_report_records_procedure ::
    "('db, 'r, 'm) racp_ops \<Rightarrow> ('db, 'm) racp_ctx_scheme \<Rightarrow> ('db, 'm) racp_ctx_scheme res" where
  "racp_report_records_procedure ops s =
     rbind (c_while (\<lambda>s. racp_state s = STATE_RACP_PROC_ACTIVE) (report_step ops) s)
       (\<lambda>x. case x of Next s' \<Rightarrow> Inr s' | Break s' \<Rightarrow> Inr s' | Return s' \<Rightarrow> Inr s')"

text \<open>
  The procedure in pieces: up to its first sleep or its end (\<open>True\<close> for a procedure that sleeps), and from
  the end of a sleep to the next one or to the end of the procedure.
\<close>

definition report_until_sleep ::
    "('db, 'r, 'm) racp_ops \<Rightarrow> ('db, 'm) racp_ctx_scheme \<Rightarrow> (bool \<times> ('db, 'm) racp_ctx_scheme) res" where
  "report_until_sleep ops s =
     rbind (c_while (\<lambda>s. racp_state s = STATE_RACP_PROC_ACTIVE) (report_pass ops) s)
       (\<lambda>x. case x of Next s' \<Rightarrow> Inr (False, s') | Break s' \<Rightarrow> Inr (False, s') | Return r \<Rightarrow> Inr r)"

definition racp_wake ::
    "('db, 'r, 'm) racp_ops \<Rightarrow> ('db, 'm) racp_ctx_scheme \<Rightarrow> (bool \<times> ('db, 'm) racp_ctx_scheme) res" where
  "racp_wake ops s = rbind (report_return ops 0 s) (report_until_sleep ops)"

section \<open>Checking a request\<close>

definition report_request_check :: "racp \<Rightarrow> u8 res" where
  "report_request_check r =
     (if racp_operator r \<in> {RACP_OPERATOR_ALL, RACP_OPERATOR_FIRST, RACP_OPERATOR_LAST}
      then Inr (if racp_operand_len r \<noteq> 0 then RACP_RESPONSE_INVALID_OPERAND else RACP_RESPONSE_RESERVED)
      else if racp_operator r = RACP_OPERATOR_GREATER_OR_EQUAL
      then rbind (arr_get (racp_operand r) 0) (\<lambda>filter_type.
           Inr (if filter_type = OPERAND_FILTER_TYPE_SEQ_NUM
                then (if racp_operand_len r \<noteq> 3 then RACP_RESPONSE_INVALID_OPERAND
                      else RACP_RESPONSE_RESERVED)
                else if filter_type = OPERAND_FILTER_TYPE_FACING_TIME
                then RACP_RESPONSE_OPERAND_UNSUPPORTED
                else if filter_type \<ge> OPERAND_FILTER_TYPE_RFU_START
                then RACP_RESPONSE_OPERAND_UNSUPPORTED
                else RACP_RESPONSE_INVALID_OPERAND))
      else if racp_operator r \<in> {RACP_OPERATOR_LESS_OR_EQUAL, RACP_OPERATOR_RANGE}
      then Inr RACP_RESPONSE_OPERATOR_UNSUPPORTED
      else Inr (if racp_operator r \<ge> RACP_OPERATOR_RFU_START then RACP_RESPONSE_OPERATOR_UNSUPPORTED
                else RACP_RESPONSE_INVALID_OPERATOR))"

definition delete_request_check :: "racp \<Rightarrow> u8" where
  "delete_request_check r =
     (if racp_operator r \<in> {RACP_OPERATOR_ALL, RACP_OPERATOR_FIRST, RACP_OPERATOR_LAST}
      then (if racp_operand_len r \<noteq> 0 then RACP_RESPONSE_INVALID_OPERAND else RACP_RESPONSE_RESERVED)
      else if racp_operator r \<in> {RACP_OPERATOR_GREATER_OR_EQUAL, RACP_OPERATOR_LESS_OR_EQUAL,
                                 RACP_OPERATOR_RANGE}
      then RACP_RESPONSE_OPERATOR_UNSUPPORTED
      else if racp_operator r \<ge> RACP_OPERATOR_RFU_START then RACP_RESPONSE_OPERATOR_UNSUPPORTED
      else RACP_RESPONSE_INVALID_OPERATOR)"

definition abort_request_check :: "comm_state \<Rightarrow> racp \<Rightarrow> u8" where
  "abort_request_check st r =
     (if st = STATE_RACP_PROC_ACTIVE
      then if racp_operator r \<noteq> RACP_OPERATOR_NULL then RACP_RESPONSE_INVALID_OPERATOR
           else if racp_operand_len r \<noteq> 0 then RACP_RESPONSE_INVALID_OPERAND
           else RACP_RESPONSE_SUCCESS
      else RACP_RESPONSE_ABORT_FAILED)"

text \<open>The verdict and the response code left in \<open>*response_code\<close>.\<close>

definition is_request_to_be_executed :: "comm_state \<Rightarrow> racp \<Rightarrow> (bool \<times> u8) res" where
  "is_request_to_be_executed st r =
     (if racp_opcode r = RACP_OPCODE_ABORT_OPERATION
      then (let rc = abort_request_check st r in Inr (rc = RACP_RESPONSE_RESERVED, rc))
      else if st \<noteq> STATE_NO_COMM then Inr (False, RACP_RESPONSE_RESERVED)
      else if racp_opcode r = RACP_OPCODE_REPORT_RECS \<or> racp_opcode r = RACP_OPCODE_REPORT_NUM_RECS
      then rbind (report_request_check r) (\<lambda>rc. Inr (rc = RACP_RESPONSE_RESERVED, rc))
      else if racp_opcode r = RACP_OPCODE_DELETE_RECS
      then (let rc = delete_request_check r in Inr (rc = RACP_RESPONSE_RESERVED, rc))
      else Inr (False, RACP_RESPONSE_OPCODE_UNSUPPORTED))"

section \<open>Executing a request\<close>

text \<open>The 16-bit filter value in the bytes 1 and 2 of the operand.\<close>

definition operand_filter :: "racp \<Rightarrow> u16 res" where
  "operand_filter r = rbind (arr_get (racp_operand r) 2) (\<lambda>hi. rbind (arr_get (racp_operand r) 1) (\<lambda>lo.
     Inr (push_bit 8 (ucast hi) OR ucast lo)))"

definition report_records_request_execute ::
    "('db, 'r, 'm) racp_ops \<Rightarrow> racp \<Rightarrow> ('db, 'm) racp_ctx_scheme \<Rightarrow> ('db, 'm) racp_ctx_scheme res" where
  "report_records_request_execute ops r s =
     rbind (operand_filter r) (\<lambda>flt.
       racp_report_records_procedure ops
         ((state_set STATE_RACP_PROC_ACTIVE s)\<lparr>racp_proc_record_idx := 0,
            racp_proc_operator := racp_operator r, racp_proc_records_reported := 0,
            racp_proc_filter := flt\<rparr>))"

definition delete_records_request_execute ::
    "('db, 'r, 'm) racp_ops \<Rightarrow> racp \<Rightarrow> ('db, 'm) racp_ctx_scheme \<Rightarrow> ('db, 'm) racp_ctx_scheme res" where
  "delete_records_request_execute ops r s =
     rbind (if racp_operator r = RACP_OPERATOR_ALL
            then Inr (op_num ops (db s), op_delete_all ops (db s))
            else if racp_operator r = RACP_OPERATOR_FIRST
            then (let (c, d) = op_delete_first ops (db s) in Inr (if c = 0 then 1 else 0, d))
            else if racp_operator r = RACP_OPERATOR_LAST
            then rbind (op_delete_last ops (db s)) (\<lambda>(c, d). Inr (if c = 0 then 1 else 0, d))
            else Inr (0, db s)) (\<lambda>(del_num_records, d).
       racp_send ops \<lparr>racp_opcode = RACP_OPCODE_RESPONSE_CODE, racp_operator = RACP_OPERATOR_NULL,
           racp_operand_len = 2,
           racp_operand = [RACP_OPCODE_DELETE_RECS,
             if del_num_records > (0 :: u16) then RACP_RESPONSE_SUCCESS
             else RACP_RESPONSE_NO_RECORDS_FOUND]\<rparr> (s\<lparr>db := d\<rparr>))"

text \<open>
  The counting loop \<open>for (i = 0; i < total_records; i++)\<close>, whose index is a 16-bit variable
  passed as an 8-bit index. The result is \<open>None\<close> where the function returns without answering
  because \<open>record_get\<close> failed.
\<close>

function count_matching ::
    "('db, 'r, 'm) racp_ops \<Rightarrow> 'db \<Rightarrow> u16 \<Rightarrow> u16 \<Rightarrow> u16 \<Rightarrow> u16 \<Rightarrow> u16 option res" where
  "count_matching ops d flt tot i n =
     (if i < tot
      then rbind (op_get ops (ucast i) d) (\<lambda>g.
             case g of Inl err \<Rightarrow> Inr None
             | Inr rec \<Rightarrow> count_matching ops d flt tot (i + 1) (if op_key ops rec \<ge> flt then n + 1 else n))
      else Inr (Some n))"
  by pat_completeness auto
termination
  by (relation "measure (\<lambda>(ops, d, flt, tot, i, n). unat tot - unat i)")
     (auto simp: unat_Suc_word word_less_nat_alt)

declare count_matching.simps [simp del]

definition report_num_records_request_execute ::
    "('db, 'r, 'm) racp_ops \<Rightarrow> racp \<Rightarrow> ('db, 'm) racp_ctx_scheme \<Rightarrow> ('db, 'm) racp_ctx_scheme res" where
  "report_num_records_request_execute ops r s =
     (let total_records = op_num ops (db s) in
      rbind (if racp_operator r = RACP_OPERATOR_ALL then Inr (Some total_records)
             else if racp_operator r = RACP_OPERATOR_GREATER_OR_EQUAL
             then rbind (operand_filter r) (\<lambda>flt. count_matching ops (db s) flt total_records 0 0)
             else if racp_operator r = RACP_OPERATOR_FIRST \<or> racp_operator r = RACP_OPERATOR_LAST
             then Inr (Some (if total_records > 0 then 1 else 0))
             else Inr (Some 0)) (\<lambda>num.
        case num of None \<Rightarrow> Inr s
        | Some num_records \<Rightarrow>
            racp_send ops \<lparr>racp_opcode = RACP_OPCODE_NUM_RECS_RESPONSE, racp_operator = RACP_OPERATOR_NULL,
              racp_operand_len = 2,
              racp_operand = [ucast (num_records AND 0xFF), ucast (drop_bit 8 num_records)]\<rparr> s))"

definition racp_handle ::
    "('db, 'r, 'm) racp_ops \<Rightarrow> ('db, 'm) racp_ctx_scheme \<Rightarrow> ('db, 'm) racp_ctx_scheme res" where
  "racp_handle ops s =
     rbind (is_request_to_be_executed (racp_state s) (racp_request s)) (\<lambda>(exec, rc).
       let s = s\<lparr>racp_response_code := rc\<rparr>; r = racp_request s in
       if exec
       then if racp_opcode r = RACP_OPCODE_REPORT_RECS then report_records_request_execute ops r s
            else if racp_opcode r = RACP_OPCODE_REPORT_NUM_RECS
            then report_num_records_request_execute ops r s
            else if racp_opcode r = RACP_OPCODE_DELETE_RECS then delete_records_request_execute ops r s
            else Inr s
       else if rc \<noteq> RACP_RESPONSE_RESERVED
       then racp_response_code_send ops (racp_opcode r) rc (state_set STATE_NO_COMM s)
       else Inr s)"

text \<open>The work item up to the first sleep of a report, or to its end when it does not sleep.\<close>

definition racp_handle_start ::
    "('db, 'r, 'm) racp_ops \<Rightarrow> ('db, 'm) racp_ctx_scheme \<Rightarrow> (bool \<times> ('db, 'm) racp_ctx_scheme) res" where
  "racp_handle_start ops s =
     rbind (is_request_to_be_executed (racp_state s) (racp_request s)) (\<lambda>(exec, rc).
       let r = racp_request s in
       if exec \<and> racp_opcode r = RACP_OPCODE_REPORT_RECS
       then rbind (operand_filter r) (\<lambda>flt.
              report_until_sleep ops
                ((state_set STATE_RACP_PROC_ACTIVE (s\<lparr>racp_response_code := rc\<rparr>))\<lparr>racp_proc_record_idx := 0,
                   racp_proc_operator := racp_operator r, racp_proc_records_reported := 0,
                   racp_proc_filter := flt\<rparr>))
       else rbind (racp_handle ops s) (\<lambda>s'. Inr (False, s')))"

text \<open>What decides how a sleeping report goes on.\<close>

definition racp_control ::
    "('db, 'm) racp_ctx_scheme \<Rightarrow> racp \<times> comm_state \<times> u8 \<times> u8 \<times> bool" where
  "racp_control s = (racp_request s, racp_state s, racp_proc_operator s, racp_proc_record_idx s, racp_work_submitted s)"

section \<open>The interface of a service\<close>

text \<open>
  What the procedures need of a service: its database is a record source, its sender
  changes only the trace and the number of reported records, and a successful transmission
  of a \<open>sendable\<close> record is counted. \<open>ctx_ok\<close> is the invariant of the shared variables.
\<close>

definition ctx_ok :: "('db \<Rightarrow> bool) \<Rightarrow> ('db, 'm) racp_ctx_scheme \<Rightarrow> bool" where
  "ctx_ok invar s \<longleftrightarrow> invar (db s) \<and> 18 \<le> length (racp_buf s) \<and> length (racp_operand (racp_request s)) = 6"

locale racp_service = record_source invar contents "op_num ops" "op_get ops"
  for invar :: "'db \<Rightarrow> bool" and contents :: "'db \<Rightarrow> 'r list" and ops :: "('db, 'r, 'm) racp_ops" +
  fixes sendable :: "'r \<Rightarrow> bool"
  assumes send_frame:
      "snd (op_send ops r s) =
         s\<lparr>trace := trace (snd (op_send ops r s)),
           racp_proc_records_reported := racp_proc_records_reported (snd (op_send ops r s))\<rparr>"
    and send_counts:
      "sendable r \<Longrightarrow> fst (op_send ops r s) = 0 \<Longrightarrow>
       racp_proc_records_reported (snd (op_send ops r s)) = racp_proc_records_reported s + 1"

section \<open>Generic facts\<close>

lemma unat_inc_u8: "unat (x :: u8) < 255 \<Longrightarrow> unat (x + 1) = Suc (unat x)"
  by (simp add: unat_word_ariths)

lemma racp_encode_two:
  assumes "4 \<le> length buf"
  shows "racp_encode \<lparr>racp_opcode = a, racp_operator = b, racp_operand_len = 2, racp_operand = [c, d]\<rparr> (Some buf)
     = Inr (4, Some ([a, b, c, d] @ drop 4 buf))"
  using assms by (simp add: racp_encode_def mem_cpy_def)

text \<open>A response of two operand bytes is one indication, if the client wants it.\<close>

definition after_response ::
    "('db, 'r, 'm) racp_ops \<Rightarrow> bytes \<Rightarrow> ('db, 'm) racp_ctx_scheme \<Rightarrow> ('db, 'm) racp_ctx_scheme" where
  "after_response ops msg s =
     (if racp_ccc s \<noteq> 0 \<and> racp_indicating s = 0
      then let r = env_indicate (op_env ops) (trace s) (op_attr ops) msg in
           s\<lparr>racp_buf := msg @ replicate (length (racp_buf s) - 4) 0,
             trace := trace s @ [Indicate (op_attr ops) msg r],
             racp_indicating := (if r = 0 then 1 else racp_indicating s)\<rparr>
      else s)"

lemma racp_send_two:
  assumes "4 \<le> length (racp_buf s)"
  shows "racp_send ops \<lparr>racp_opcode = a, racp_operator = b, racp_operand_len = 2, racp_operand = [c, d]\<rparr> s
     = Inr (after_response ops [a, b, c, d] s)"
  using assms
  by (simp add: racp_send_def racp_encode_two after_response_def bt_gatt_indicate_def Let_def)

lemma racp_response_code_send_eq:
  "4 \<le> length (racp_buf s) \<Longrightarrow>
   racp_response_code_send ops opc val s =
     Inr (after_response ops [RACP_OPCODE_RESPONSE_CODE, RACP_OPERATOR_NULL, opc, val] s)"
  by (simp add: racp_response_code_send_def racp_send_two)

lemma after_response_frame [simp]:
  "db (after_response ops msg s) = db s"
  "racp_request (after_response ops msg s) = racp_request s"
  "racp_state (after_response ops msg s) = racp_state s"
  "racp_ctx.more (after_response ops msg s) = racp_ctx.more s"
  "racp_work_submitted (after_response ops msg s) = racp_work_submitted s"
  by (simp_all add: after_response_def Let_def)

lemma after_response_buf: "length msg = 4 \<Longrightarrow> 4 \<le> length (racp_buf s) \<Longrightarrow>
  length (racp_buf (after_response ops msg s)) = length (racp_buf s)"
  by (simp add: after_response_def Let_def)

text \<open>A pass without interruption, as one expression over the results of the report functions.\<close>

definition report_all_result ::
    "('db, 'r, 'm) racp_ops \<Rightarrow> ('db, 'm) racp_ctx_scheme \<Rightarrow> (s32 \<times> ('db, 'm) racp_ctx_scheme) res" where
  "report_all_result ops s = rbind (racp_report_records_all ops s) (\<lambda>(err, sleeps, s'). Inr (err, s'))"

lemma report_all_result_eq:
  "report_all_result ops s =
     (let total_records = op_num ops (db s) in
      if unat (racp_proc_record_idx s) \<ge> unat total_records
      then Inr (0, state_set STATE_NO_COMM s)
      else rbind (op_get ops (racp_proc_record_idx s) (db s)) (\<lambda>g.
             case g of Inl err \<Rightarrow> Inr (err, s) | Inr rec \<Rightarrow> Inr (op_send ops rec s)))"
  by (auto simp: report_all_result_def racp_report_records_all_def Let_def rbind_assoc
      intro!: arg_cong2 [where f = rbind] split: sum.split prod.split)

lemma report_all_sleeps: "racp_report_records_all ops s = Inr (err, True, s') \<Longrightarrow> err = 0"
  by (cases "op_get ops (racp_proc_record_idx s) (db s)")
    (auto simp: racp_report_records_all_def Let_def split: if_splits sum.split_asm prod.split_asm)

lemma report_step_unfold:
  "report_step ops s =
     (if racp_opcode (racp_request s) \<noteq> RACP_OPCODE_REPORT_RECS then Inr (Break s)
      else if racp_proc_operator s \<notin> {RACP_OPERATOR_ALL, RACP_OPERATOR_FIRST, RACP_OPERATOR_LAST,
                                      RACP_OPERATOR_GREATER_OR_EQUAL}
      then Inr (Return (state_set STATE_NO_COMM s))
      else rbind (if racp_proc_operator s = RACP_OPERATOR_ALL then report_all_result ops s
                  else if racp_proc_operator s = RACP_OPERATOR_GREATER_OR_EQUAL
                  then racp_report_records_greater_or_equal ops s
                  else racp_report_records_first_last ops s) (\<lambda>(err, s').
             if err = 0
             then if racp_state s' = STATE_RACP_PROC_ACTIVE
                  then Inr (Next (s'\<lparr>racp_proc_record_idx := racp_proc_record_idx s' + 1\<rparr>))
                  else rbind (racp_report_records_completed ops s') (\<lambda>s''. Inr (Next s''))
             else Inr (Next (state_set STATE_NO_COMM s'))))"
proof -
  have next_flow: "rbind (rbind y (\<lambda>s''. Inr (Next s''))) (\<lambda>x. case x of Next s' \<Rightarrow> Inr (Next s')
      | Break s' \<Rightarrow> Inr (Break s') | Return z \<Rightarrow> f z) = rbind y (\<lambda>s''. Inr (Next s''))"
    for y :: "('db, 'm) racp_ctx_scheme res" and f :: "bool \<times> ('db, 'm) racp_ctx_scheme \<Rightarrow> _"
    by (cases y) simp_all
  have ret: "rbind (report_return ops err u) (\<lambda>s''. Inr (Next s'')) =
      (if err = 0
       then if racp_state u = STATE_RACP_PROC_ACTIVE
            then Inr (Next (u\<lparr>racp_proc_record_idx := racp_proc_record_idx u + 1\<rparr>))
            else rbind (racp_report_records_completed ops u) (\<lambda>s''. Inr (Next s''))
       else Inr (Next (state_set STATE_NO_COMM u)))" for err u
    by (simp add: report_return_def)
  show ?thesis
    unfolding report_step_def report_pass_def report_all_result_def ret [symmetric]
    by (cases "racp_report_records_all ops s"; cases "racp_report_records_greater_or_equal ops s";
        cases "racp_report_records_first_last ops s")
      (auto simp: next_flow dest: report_all_sleeps split: prod.split)
qed

lemma report_step_other: "racp_opcode (racp_request s) \<noteq> RACP_OPCODE_REPORT_RECS \<Longrightarrow>
  report_step ops s = Inr (Break s)"
  by (simp add: report_step_unfold)

text \<open>
  The pieces make up the whole: a procedure whose sleeps nothing interrupts is the one that runs to its first
  sleep, wakes, and so on to its end.
\<close>

lemma procedure_resumes:
  "racp_report_records_procedure ops s =
     rbind (report_until_sleep ops s) (\<lambda>(asleep, s').
       if asleep then rbind (report_return ops 0 s') (racp_report_records_procedure ops) else Inr s')"
proof -
  let ?b = "\<lambda>s. racp_state s = STATE_RACP_PROC_ACTIVE"
  let ?h = "\<lambda>(asleep, s'). if asleep then rbind (report_return ops 0 s') (\<lambda>s''. Inr (Next s'')) else Inr (Return s')"
  have step: "report_step ops = (\<lambda>s. rbind (report_pass ops s) (\<lambda>x. case x of
      Next s' \<Rightarrow> Inr (Next s') | Break s' \<Rightarrow> Inr (Break s') | Return r \<Rightarrow> ?h r))"
    by (rule ext) (simp add: report_step_def split_def)
  have "c_while ?b (report_step ops) s = rbind (c_while ?b (report_pass ops) s) (\<lambda>x. case x of
      Return r \<Rightarrow> rbind (?h r) (\<lambda>y. case y of Next s' \<Rightarrow> c_while ?b (report_step ops) s' | _ \<Rightarrow> Inr y)
    | Next s' \<Rightarrow> Inr (Next s') | Break s' \<Rightarrow> Inr (Break s'))"
    unfolding step by (rule c_while_resume)
  then show ?thesis
    by (auto simp: racp_report_records_procedure_def [abs_def] report_until_sleep_def rbind_assoc
        intro!: arg_cong2 [where f = rbind] split: flow.split)
qed

lemma wake_resumes:
  "rbind (report_return ops 0 s) (racp_report_records_procedure ops) =
     rbind (racp_wake ops s) (\<lambda>(asleep, s').
       if asleep then rbind (report_return ops 0 s') (racp_report_records_procedure ops) else Inr s')"
  by (simp add: racp_wake_def rbind_assoc procedure_resumes [symmetric])

lemma handle_resumes:
  "racp_handle ops s =
     rbind (racp_handle_start ops s) (\<lambda>(asleep, s').
       if asleep then rbind (report_return ops 0 s') (racp_report_records_procedure ops) else Inr s')"
proof (cases "is_request_to_be_executed (racp_state s) (racp_request s)")
  case (Inr x)
  show ?thesis
  proof (cases "fst x \<and> racp_opcode (racp_request s) = RACP_OPCODE_REPORT_RECS")
    case True
    with Inr show ?thesis
      by (cases x) (simp add: racp_handle_def racp_handle_start_def report_records_request_execute_def rbind_assoc
          Let_def procedure_resumes [symmetric])
  next
    case False
    then have "racp_handle_start ops s = rbind (racp_handle ops s) (\<lambda>s'. Inr (False, s'))"
      using Inr by (cases x) (auto simp: racp_handle_start_def Let_def)
    then show ?thesis by (cases "racp_handle ops s") simp_all
  qed
qed (simp add: racp_handle_def racp_handle_start_def)

text \<open>The state a report ends in, after the records in \<open>rs\<close> have been sent.\<close>

definition report_answer :: "u8 \<Rightarrow> bytes" where
  "report_answer n = [RACP_OPCODE_RESPONSE_CODE, RACP_OPERATOR_NULL, RACP_OPCODE_REPORT_RECS,
     if n > 0 then RACP_RESPONSE_SUCCESS else RACP_RESPONSE_NO_RECORDS_FOUND]"

lemma report_completed_eq:
  "4 \<le> length (racp_buf s) \<Longrightarrow>
   racp_report_records_completed ops s =
     Inr (after_response ops (report_answer (racp_proc_records_reported s)) s)"
  by (simp add: racp_report_records_completed_def racp_response_code_send_eq report_answer_def)

section \<open>What a report transmits\<close>

text \<open>The records a report request selects.\<close>

definition report_select :: "u8 \<Rightarrow> u16 \<Rightarrow> ('r \<Rightarrow> u16) \<Rightarrow> 'r list \<Rightarrow> 'r list" where
  "report_select opr flt key rs =
     (if opr = RACP_OPERATOR_ALL then rs
      else if opr = RACP_OPERATOR_FIRST then take 1 rs
      else if opr = RACP_OPERATOR_LAST then (if rs = [] then [] else [last rs])
      else if opr = RACP_OPERATOR_GREATER_OR_EQUAL then filter (\<lambda>r. key r \<ge> flt) rs
      else [])"

text \<open>
  The state after the records \<open>rs\<close> have been transmitted, where \<open>emit m r\<close> are the calls that
  transmit \<open>r\<close> when the service's own variables are \<open>m\<close>.
\<close>

definition sent ::
    "('m \<Rightarrow> 'r \<Rightarrow> gatt_call list) \<Rightarrow> 'r list \<Rightarrow> ('db, 'm) racp_ctx_scheme \<Rightarrow> ('db, 'm) racp_ctx_scheme" where
  "sent emit rs s =
     s\<lparr>trace := trace s @ concat (map (emit (racp_ctx.more s)) rs),
       racp_proc_records_reported := racp_proc_records_reported s + of_nat (length rs)\<rparr>"

lemma sent_Nil [simp]: "sent emit [] s = s"
  by (simp add: sent_def)

lemma sent_append: "sent emit (rs @ rs') s = sent emit rs' (sent emit rs s)"
  by (simp add: sent_def)

lemma sent_Cons: "sent emit (r # rs) s = sent emit rs (sent emit [r] s)"
  using sent_append [of emit "[r]" rs s] by simp

lemma sent_frame [simp]:
  "db (sent emit rs s) = db s" "racp_request (sent emit rs s) = racp_request s"
  "racp_state (sent emit rs s) = racp_state s" "racp_buf (sent emit rs s) = racp_buf s"
  "racp_proc_operator (sent emit rs s) = racp_proc_operator s"
  "racp_proc_filter (sent emit rs s) = racp_proc_filter s"
  "racp_proc_record_idx (sent emit rs s) = racp_proc_record_idx s"
  "racp_ccc (sent emit rs s) = racp_ccc s" "racp_indicating (sent emit rs s) = racp_indicating s"
  "racp_ctx.more (sent emit rs s) = racp_ctx.more s"
  by (simp_all add: sent_def)

lemma sent_commute [simp]:
  "sent emit rs (s\<lparr>racp_proc_record_idx := i\<rparr>) = (sent emit rs s)\<lparr>racp_proc_record_idx := i\<rparr>"
  "sent emit rs (s\<lparr>racp_state := st\<rparr>) = (sent emit rs s)\<lparr>racp_state := st\<rparr>"
  by (simp_all add: sent_def)

text \<open>The final state of a report that sent the records \<open>rs\<close> and stopped at index \<open>i\<close>.\<close>

definition report_done ::
    "('db, 'r, 'm) racp_ops \<Rightarrow> ('m \<Rightarrow> 'r \<Rightarrow> gatt_call list) \<Rightarrow> 'r list \<Rightarrow> u8 \<Rightarrow>
     ('db, 'm) racp_ctx_scheme \<Rightarrow> ('db, 'm) racp_ctx_scheme" where
  "report_done ops emit rs i s =
     (let s' = sent emit rs (s\<lparr>racp_state := STATE_NO_COMM, racp_proc_record_idx := i\<rparr>) in
      after_response ops (report_answer (racp_proc_records_reported s')) s')"

lemma report_done_Cons:
  "report_done ops emit rs i ((sent emit [r] s)\<lparr>racp_proc_record_idx := j\<rparr>) = report_done ops emit (r # rs) i s"
  by (simp add: report_done_def sent_Cons [of emit r rs])

lemma report_done_state [simp]: "racp_state (report_done ops emit rs i s) = STATE_NO_COMM"
  by (simp add: report_done_def Let_def)

lemma report_finish:
  assumes "4 \<le> length (racp_buf s)"
  shows "rbind (racp_report_records_completed ops (state_set STATE_NO_COMM s)) (\<lambda>s'. Inr (Next s')) =
     Inr (Next (report_done ops emit [] (racp_proc_record_idx s) s))"
  using assms by (simp add: report_completed_eq state_set_def report_done_def)

lemma ctx_ok_updates [simp]:
  "ctx_ok invar (s\<lparr>racp_ccc := c\<rparr>) = ctx_ok invar s"
  "ctx_ok invar (s\<lparr>trace := tr\<rparr>) = ctx_ok invar s"
  "ctx_ok invar (s\<lparr>racp_indicating := c\<rparr>) = ctx_ok invar s"
  "ctx_ok invar (s\<lparr>racp_work_submitted := w\<rparr>) = ctx_ok invar s"
  "ctx_ok invar (s\<lparr>racp_response_code := c\<rparr>) = ctx_ok invar s"
  "ctx_ok invar (state_set st s) = ctx_ok invar s"
  by (simp_all add: ctx_ok_def state_set_def)

lemma after_response_ctx_ok [simp]: "ctx_ok invar s \<Longrightarrow> length msg = 4 \<Longrightarrow> ctx_ok invar (after_response ops msg s)"
  by (simp add: ctx_ok_def after_response_buf)

lemma state_set_simps [simp]:
  "racp_state (state_set st s) = st" "db (state_set st s) = db s"
  "racp_request (state_set st s) = racp_request s" "racp_buf (state_set st s) = racp_buf s"
  "racp_proc_record_idx (state_set st s) = racp_proc_record_idx s"
  "racp_proc_operator (state_set st s) = racp_proc_operator s"
  "racp_ctx.more (state_set st s) = racp_ctx.more s" "trace (state_set st s) = trace s"
  "racp_ccc (state_set st s) = racp_ccc s" "racp_indicating (state_set st s) = racp_indicating s"
  "racp_work_submitted (state_set st s) = racp_work_submitted s"
  by (simp_all add: state_set_def)

lemma idx_of_nat: "unat (i :: u8) = n \<Longrightarrow> i = of_nat n"
  by (drule sym) simp

context racp_service
begin

lemma all_step:
  assumes "ctx_ok invar s" "racp_opcode (racp_request s) = RACP_OPCODE_REPORT_RECS"
    and "racp_proc_operator s = RACP_OPERATOR_ALL" "racp_state s = STATE_RACP_PROC_ACTIVE"
    and live: "\<And>r s. op_send ops r s = (0, sent emit [r] s)"
  shows "report_step ops s =
    (let i = unat (racp_proc_record_idx s) in
     Inr (Next (if i < length (contents (db s))
       then (sent emit [contents (db s) ! i] s)\<lparr>racp_proc_record_idx := racp_proc_record_idx s + 1\<rparr>
       else report_done ops emit [] (racp_proc_record_idx s) s)))"
  using assms
  by (simp add: report_step_unfold report_all_result_eq ctx_ok_def num_contents get_contents
      Let_def not_le report_finish [where emit = emit])

lemma all_loop:
  assumes "ctx_ok invar s" "racp_opcode (racp_request s) = RACP_OPCODE_REPORT_RECS"
    and "racp_proc_operator s = RACP_OPERATOR_ALL" "racp_state s = STATE_RACP_PROC_ACTIVE"
    and "unat (racp_proc_record_idx s) \<le> length (contents (db s))"
    and live: "\<And>r s. op_send ops r s = (0, sent emit [r] s)"
  shows "c_while (\<lambda>s. racp_state s = STATE_RACP_PROC_ACTIVE) (report_step ops) s =
    Inr (Break (report_done ops emit (drop (unat (racp_proc_record_idx s)) (contents (db s)))
      (of_nat (length (contents (db s)))) s))"
  using assms(1-5)
proof (induction "length (contents (db s)) - unat (racp_proc_record_idx s)" arbitrary: s)
  case 0
  then have len: "unat (racp_proc_record_idx s) = length (contents (db s))" by simp
  with 0 all_step [OF 0(2-5) live] show ?case
    by (simp add: c_while_unfold [of _ "report_step ops" s]
        c_while_unfold [of _ "report_step ops" "report_done _ _ _ _ _"] flip: idx_of_nat [OF len])
next
  case (Suc n)
  let ?i = "unat (racp_proc_record_idx s)" and ?cs = "contents (db s)"
  let ?s = "(sent emit [?cs ! ?i] s)\<lparr>racp_proc_record_idx := racp_proc_record_idx s + 1\<rparr>"
  from Suc.hyps(2) have lt: "?i < length ?cs" by simp
  with contents_bound [of "db s"] Suc.prems(1) have inc: "unat (racp_proc_record_idx s + 1) = Suc ?i"
    by (simp add: ctx_ok_def unat_inc_u8)
  have "c_while (\<lambda>s. racp_state s = STATE_RACP_PROC_ACTIVE) (report_step ops) s =
      c_while (\<lambda>s. racp_state s = STATE_RACP_PROC_ACTIVE) (report_step ops) ?s"
    using all_step [OF Suc.prems(1-4) live] lt Suc.prems(4)
    by (simp add: c_while_unfold [of _ "report_step ops" s])
  also have "\<dots> = Inr (Break (report_done ops emit (drop (Suc ?i) ?cs) (of_nat (length ?cs)) ?s))"
    using Suc.hyps(1) [of ?s] Suc.hyps(2) Suc.prems inc lt by (simp add: ctx_ok_def)
  finally show ?case
    using lt by (simp add: report_done_Cons Cons_nth_drop_Suc)
qed

lemma last_index:
  assumes "invar d" "contents d \<noteq> []"
  shows "unat (ucast (op_num ops d - 1) :: u8) = length (contents d) - 1"
proof -
  from assms have n: "unat (op_num ops d) = length (contents d)" "length (contents d) \<le> MAX_RECORDS"
    using num_contents contents_bound by auto
  with assms(2) have "unat (op_num ops d - 1) = length (contents d) - 1"
    by (cases "contents d") (auto simp: db_count_pred)
  with n(2) show ?thesis by (simp add: unsigned_ucast_eq take_bit_nat_eq_self)
qed

lemma get_hd: "invar d \<Longrightarrow> contents d \<noteq> [] \<Longrightarrow> op_get ops 0 d = Inr (Inr (hd (contents d)))"
  by (simp add: get_contents hd_conv_nth)

lemma get_last:
  "invar d \<Longrightarrow> contents d \<noteq> [] \<Longrightarrow>
   op_get ops (ucast (op_num ops d - 1)) d = Inr (Inr (last (contents d)))"
  using last_index [of d] by (simp add: get_contents last_conv_nth)

lemma first_last_step:
  assumes "ctx_ok invar s" "racp_opcode (racp_request s) = RACP_OPCODE_REPORT_RECS"
    and "racp_proc_operator s \<in> {RACP_OPERATOR_FIRST, RACP_OPERATOR_LAST}"
    and "racp_state s = STATE_RACP_PROC_ACTIVE"
    and live: "\<And>r s. op_send ops r s = (0, sent emit [r] s)"
  shows "report_step ops s =
     Inr (Next (if racp_proc_records_reported s \<noteq> 0 \<or> contents (db s) = []
       then report_done ops emit [] (racp_proc_record_idx s) s
       else (sent emit [if racp_proc_operator s = RACP_OPERATOR_FIRST then hd (contents (db s))
                        else last (contents (db s))] s)
            \<lparr>racp_proc_record_idx := racp_proc_record_idx s + 1\<rparr>))"
proof -
  have z: "op_num ops (db s) = 0 \<longleftrightarrow> contents (db s) = []"
    using num_contents [of "db s"] assms(1) by (auto simp: ctx_ok_def unat_eq_zero)
  with assms show ?thesis
    by (auto simp add: report_step_unfold racp_report_records_first_last_def Let_def ctx_ok_def
        get_hd get_last report_finish [where emit = emit])
qed

lemma first_last_loop:
  assumes "ctx_ok invar s" "racp_opcode (racp_request s) = RACP_OPCODE_REPORT_RECS"
    and "racp_proc_operator s \<in> {RACP_OPERATOR_FIRST, RACP_OPERATOR_LAST}"
    and "racp_state s = STATE_RACP_PROC_ACTIVE" "racp_proc_records_reported s = 0"
    and live: "\<And>r s. op_send ops r s = (0, sent emit [r] s)"
  shows "\<exists>i. c_while (\<lambda>s. racp_state s = STATE_RACP_PROC_ACTIVE) (report_step ops) s =
    Inr (Break (report_done ops emit
      (report_select (racp_proc_operator s) (racp_proc_filter s) (op_key ops) (contents (db s))) i s))"
proof (cases "contents (db s) = []")
  case True
  with first_last_step [OF assms(1-4) live] assms(3,4,5) show ?thesis
    by (auto simp: c_while_unfold [of _ "report_step ops" s] report_select_def
        c_while_unfold [of _ "report_step ops" "report_done _ _ _ _ _"])
next
  case False
  let ?r = "if racp_proc_operator s = RACP_OPERATOR_FIRST then hd (contents (db s)) else last (contents (db s))"
  let ?s = "(sent emit [?r] s)\<lparr>racp_proc_record_idx := racp_proc_record_idx s + 1\<rparr>"
  have rep: "racp_proc_records_reported ?s \<noteq> 0" using assms(5) by (simp add: sent_def)
  have step1: "report_step ops s = Inr (Next ?s)"
    using first_last_step [OF assms(1-4) live] False assms(5) by simp
  have step2: "report_step ops ?s = Inr (Next (report_done ops emit [] (racp_proc_record_idx ?s) ?s))"
    using first_last_step [of ?s emit, OF _ _ _ _ live] assms(1-4) rep by (simp add: ctx_ok_def)
  have "c_while (\<lambda>s. racp_state s = STATE_RACP_PROC_ACTIVE) (report_step ops) s =
      Inr (Break (report_done ops emit [?r] (racp_proc_record_idx s + 1) s))"
    using assms(4) step1 step2
    by (simp add: c_while_unfold [of _ "report_step ops" s] c_while_unfold [of _ "report_step ops" ?s]
        c_while_unfold [of _ "report_step ops" "report_done _ _ _ _ _"] report_done_Cons)
  moreover have "[?r] = report_select (racp_proc_operator s) (racp_proc_filter s) (op_key ops) (contents (db s))"
    using False assms(3) by (auto simp: report_select_def take_Suc)
  ultimately show ?thesis by auto
qed

text \<open>The inner loop of the filtered report stops at the next record that passes the filter.\<close>

lemma ge_inner_loop:
  assumes "ctx_ok invar s" "unat (racp_proc_record_idx s) \<le> length (contents (db s))"
    and live: "\<And>r s. op_send ops r s = (0, sent emit [r] s)"
  shows "c_while (\<lambda>s'. unat (racp_proc_record_idx s') < unat (op_num ops (db s))) (report_ge_body ops) s =
    Inr (Break (case dropWhile (\<lambda>r. \<not> racp_proc_filter s \<le> op_key ops r)
                       (drop (unat (racp_proc_record_idx s)) (contents (db s))) of
        [] \<Rightarrow> s\<lparr>racp_proc_record_idx := of_nat (length (contents (db s)))\<rparr>
      | r # rs \<Rightarrow> (sent emit [r] s)
          \<lparr>racp_proc_record_idx := of_nat (length (contents (db s)) - Suc (length rs))\<rparr>))"
  using assms(1,2)
proof (induction "length (contents (db s)) - unat (racp_proc_record_idx s)" arbitrary: s)
  case 0
  then have len: "unat (racp_proc_record_idx s) = length (contents (db s))" by simp
  with 0 num_contents [of "db s"] show ?case
    by (simp add: c_while_unfold [of _ "report_ge_body ops" s] ctx_ok_def flip: idx_of_nat [OF len])
next
  case (Suc n)
  let ?i = "unat (racp_proc_record_idx s)" and ?cs = "contents (db s)"
  let ?b = "\<lambda>s'. unat (racp_proc_record_idx s') < unat (op_num ops (db s))"
  let ?s = "s\<lparr>racp_proc_record_idx := racp_proc_record_idx s + 1\<rparr>"
  from Suc.hyps(2) have lt: "?i < length ?cs" by simp
  with Suc.prems(1) have get: "op_get ops (racp_proc_record_idx s) (db s) = Inr (Inr (?cs ! ?i))"
    and num: "unat (op_num ops (db s)) = length ?cs"
    by (simp_all add: ctx_ok_def get_contents num_contents)
  from lt contents_bound [of "db s"] Suc.prems(1) have inc: "unat (racp_proc_record_idx s + 1) = Suc ?i"
    by (simp add: ctx_ok_def unat_inc_u8)
  have dr: "drop ?i ?cs = ?cs ! ?i # drop (Suc ?i) ?cs" using lt by (simp add: Cons_nth_drop_Suc)
  show ?case
  proof (cases "racp_proc_filter s \<le> op_key ops (?cs ! ?i)")
    case True
    then have "c_while ?b (report_ge_body ops) s = Inr (Break (sent emit [?cs ! ?i] s))"
      using lt by (subst c_while_unfold) (simp add: report_ge_body_def get num live)
    moreover have "length ?cs - Suc (length (drop (Suc ?i) ?cs)) = ?i" using lt by simp
    ultimately show ?thesis
      using True by (simp add: dr sent_def del: length_drop)
  next
    case False
    then have "c_while ?b (report_ge_body ops) s = c_while ?b (report_ge_body ops) ?s"
      using lt by (subst c_while_unfold) (simp add: report_ge_body_def get num)
    also have "\<dots> = Inr (Break (case dropWhile (\<lambda>r. \<not> racp_proc_filter s \<le> op_key ops r) (drop (Suc ?i) ?cs) of
        [] \<Rightarrow> ?s\<lparr>racp_proc_record_idx := of_nat (length ?cs)\<rparr>
      | r # rs \<Rightarrow> (sent emit [r] ?s)\<lparr>racp_proc_record_idx := of_nat (length ?cs - Suc (length rs))\<rparr>))"
      using Suc.hyps(1) [of ?s] Suc.hyps(2) Suc.prems inc lt by (simp add: ctx_ok_def cong: list.case_cong)
    finally show ?thesis
      using False by (simp add: dr cong: list.case_cong)
  qed
qed

lemma ge_step:
  assumes "ctx_ok invar s" "racp_opcode (racp_request s) = RACP_OPCODE_REPORT_RECS"
    and "racp_proc_operator s = RACP_OPERATOR_GREATER_OR_EQUAL" "racp_state s = STATE_RACP_PROC_ACTIVE"
    and "unat (racp_proc_record_idx s) \<le> length (contents (db s))"
    and live: "\<And>r s. op_send ops r s = (0, sent emit [r] s)"
  shows "report_step ops s = Inr (Next
    (case dropWhile (\<lambda>r. \<not> racp_proc_filter s \<le> op_key ops r)
                       (drop (unat (racp_proc_record_idx s)) (contents (db s))) of
        [] \<Rightarrow> report_done ops emit [] (of_nat (length (contents (db s)))) s
      | r # rs \<Rightarrow> (sent emit [r] s)
          \<lparr>racp_proc_record_idx := of_nat (length (contents (db s)) - length rs)\<rparr>))"
proof -
  let ?cs = "contents (db s)"
  let ?rest = "dropWhile (\<lambda>r. \<not> racp_proc_filter s \<le> op_key ops r) (drop (unat (racp_proc_record_idx s)) ?cs)"
  have b: "length ?cs \<le> MAX_RECORDS" and num: "unat (op_num ops (db s)) = length ?cs" and buf: "4 \<le> length (racp_buf s)"
    using assms(1) contents_bound num_contents by (auto simp: ctx_ok_def)
  have small: "unat (of_nat k :: u8) = k" if "k \<le> length ?cs" for k
    using that b by (simp add: unat_of_nat)
  have len: "length ?rest \<le> length ?cs"
    by (metis length_dropWhile_le length_drop diff_le_self le_trans)
  note inner = ge_inner_loop [OF assms(1,5) live]
  show ?thesis
  proof (cases ?rest)
    case Nil
    with inner have "racp_report_records_greater_or_equal ops s =
        Inr (0, state_set STATE_NO_COMM (s\<lparr>racp_proc_record_idx := of_nat (length ?cs)\<rparr>))"
      by (simp add: racp_report_records_greater_or_equal_def small num)
    with assms(2,3) buf show ?thesis
      unfolding Nil by (simp add: report_step_unfold report_finish [where emit = emit])
         (simp add: report_done_def)
  next
    case (Cons r rs)
    define k where "k = length ?cs - Suc (length rs)"
    from Cons len have k: "k < length ?cs" "length ?cs - length rs = Suc k"
      by (simp_all add: k_def)
    from inner have "c_while (\<lambda>s'. unat (racp_proc_record_idx s') < unat (op_num ops (db s))) (report_ge_body ops) s =
        Inr (Break ((sent emit [r] s)\<lparr>racp_proc_record_idx := of_nat k\<rparr>))"
      unfolding Cons by (simp only: list.case k_def)
    then have "racp_report_records_greater_or_equal ops s =
        Inr (0, (sent emit [r] s)\<lparr>racp_proc_record_idx := of_nat k\<rparr>)"
      using k(1) small [of k] by (simp add: racp_report_records_greater_or_equal_def num)
    then show ?thesis
      using assms(2,3,4) unfolding Cons by (simp add: report_step_unfold k(2) add.commute)
  qed
qed

lemma ge_loop:
  assumes "ctx_ok invar s" "racp_opcode (racp_request s) = RACP_OPCODE_REPORT_RECS"
    and "racp_proc_operator s = RACP_OPERATOR_GREATER_OR_EQUAL" "racp_state s = STATE_RACP_PROC_ACTIVE"
    and "unat (racp_proc_record_idx s) \<le> length (contents (db s))"
    and live: "\<And>r s. op_send ops r s = (0, sent emit [r] s)"
  shows "c_while (\<lambda>s. racp_state s = STATE_RACP_PROC_ACTIVE) (report_step ops) s =
    Inr (Break (report_done ops emit
      (filter (\<lambda>r. racp_proc_filter s \<le> op_key ops r) (drop (unat (racp_proc_record_idx s)) (contents (db s))))
      (of_nat (length (contents (db s)))) s))"
  using assms(1-5)
proof (induction "length (contents (db s)) - unat (racp_proc_record_idx s)" arbitrary: s rule: less_induct)
  case less
  let ?cs = "contents (db s)" and ?i = "unat (racp_proc_record_idx s)"
  let ?p = "\<lambda>r. racp_proc_filter s \<le> op_key ops r"
  let ?rest = "dropWhile (\<lambda>r. \<not> ?p r) (drop ?i ?cs)"
  have flt: "filter ?p (drop ?i ?cs) = filter ?p ?rest"
    by (metis (no_types, lifting) filter_False filter_append set_takeWhileD takeWhile_dropWhile_id append_Nil)
  note step = ge_step [OF less.prems live]
  show ?case
  proof (cases ?rest)
    case Nil
    show ?thesis
      using step less.prems(4) unfolding flt Nil
      by (simp add: c_while_unfold [of _ "report_step ops" s]
          c_while_unfold [of _ "report_step ops" "report_done _ _ _ _ _"])
  next
    case (Cons r rs)
    let ?s = "(sent emit [r] s)\<lparr>racp_proc_record_idx := of_nat (length ?cs - length rs)\<rparr>"
    have pr: "?p r" using Cons by (metis dropWhile_eq_Cons_conv)
    obtain pre where pre: "drop ?i ?cs = pre @ r # rs" by (metis Cons takeWhile_dropWhile_id)
    then have ln: "length ?cs - ?i = length pre + Suc (length rs)"
      by (metis length_append length_drop length_Cons)
    have cs: "drop (length ?cs - length rs) ?cs = rs"
    proof -
      have "?cs = (take ?i ?cs @ pre @ [r]) @ rs" using pre by (metis append.assoc append_Cons append_Nil append_take_drop_id)
      then show ?thesis by (metis append_eq_conv_conj diff_add_inverse2 length_append)
    qed
    have idx: "unat (racp_proc_record_idx ?s) = length ?cs - length rs"
      using contents_bound [of "db s"] less.prems(1) by (simp add: ctx_ok_def unat_of_nat)
    have "c_while (\<lambda>s. racp_state s = STATE_RACP_PROC_ACTIVE) (report_step ops) s =
        c_while (\<lambda>s. racp_state s = STATE_RACP_PROC_ACTIVE) (report_step ops) ?s"
      using step less.prems(4) unfolding Cons by (simp add: c_while_unfold [of _ "report_step ops" s])
    also have "\<dots> = Inr (Break (report_done ops emit (filter ?p rs) (of_nat (length ?cs)) ?s))"
      using less.hyps [of ?s] less.prems ln idx cs by (simp add: ctx_ok_def)
    finally show ?thesis
      unfolding flt Cons using pr by (simp add: report_done_Cons)
  qed
qed

text \<open>Every kind of report, from the state the request handler sets up.\<close>

lemma procedure_reports:
  assumes "ctx_ok invar s" "racp_opcode (racp_request s) = RACP_OPCODE_REPORT_RECS"
    and "racp_proc_operator s \<in> {RACP_OPERATOR_ALL, RACP_OPERATOR_FIRST, RACP_OPERATOR_LAST,
      RACP_OPERATOR_GREATER_OR_EQUAL}"
    and "racp_state s = STATE_RACP_PROC_ACTIVE" "racp_proc_record_idx s = 0"
    and "racp_proc_records_reported s = 0"
    and live: "\<And>r s. op_send ops r s = (0, sent emit [r] s)"
  shows "\<exists>i. racp_report_records_procedure ops s =
    Inr (report_done ops emit
      (report_select (racp_proc_operator s) (racp_proc_filter s) (op_key ops) (contents (db s))) i s)"
proof -
  consider "racp_proc_operator s = RACP_OPERATOR_ALL"
    | "racp_proc_operator s \<in> {RACP_OPERATOR_FIRST, RACP_OPERATOR_LAST}"
    | "racp_proc_operator s = RACP_OPERATOR_GREATER_OR_EQUAL" using assms(3) by blast
  then show ?thesis
  proof cases
    case 1
    with all_loop [OF assms(1,2) 1 assms(4) _ live] assms(5) show ?thesis
      by (auto simp: racp_report_records_procedure_def report_select_def)
  next
    case 2
    with first_last_loop [OF assms(1,2) 2 assms(4,6) live] show ?thesis
      by (auto simp: racp_report_records_procedure_def)
  next
    case 3
    with ge_loop [OF assms(1,2) 3 assms(4) _ live] assms(5) show ?thesis
      by (auto simp: racp_report_records_procedure_def report_select_def)
  qed
qed

end
section \<open>Every report ends\<close>

text \<open>What no step of a report changes, whatever the host answers.\<close>

definition same_request :: "('db, 'm) racp_ctx_scheme \<Rightarrow> ('db, 'm) racp_ctx_scheme \<Rightarrow> bool" where
  "same_request s t \<longleftrightarrow> db t = db s \<and> racp_request t = racp_request s \<and>
     racp_ctx.more t = racp_ctx.more s \<and> racp_proc_operator t = racp_proc_operator s \<and>
     racp_proc_filter t = racp_proc_filter s \<and> racp_work_submitted t = racp_work_submitted s \<and>
     length (racp_buf t) = length (racp_buf s)"

lemma same_request_refl [simp]: "same_request s s"
  by (simp add: same_request_def)

lemma same_request_trans: "same_request s t \<Longrightarrow> same_request t u \<Longrightarrow> same_request s u"
  by (simp add: same_request_def)

lemma same_request_updates [simp]:
  "same_request s (t\<lparr>racp_proc_record_idx := i\<rparr>) = same_request s t"
  "same_request s (state_set st t) = same_request s t"
  "same_request s (t\<lparr>racp_proc_records_reported := n\<rparr>) = same_request s t"
  "same_request s (t\<lparr>trace := tr\<rparr>) = same_request s t"
  by (simp_all add: same_request_def state_set_def)

lemma same_request_response:
  "4 \<le> length (racp_buf t) \<Longrightarrow> length msg = 4 \<Longrightarrow>
   same_request s (after_response ops msg t) = same_request s t"
  by (simp add: same_request_def after_response_def Let_def)

lemma same_request_ctx_ok: "same_request s t \<Longrightarrow> ctx_ok invar t = ctx_ok invar s"
  by (simp add: same_request_def ctx_ok_def)

text \<open>The index stays within the database while a report runs, and each step makes progress.\<close>

definition idx_ok :: "nat \<Rightarrow> ('db, 'm) racp_ctx_scheme \<Rightarrow> bool" where
  "idx_ok n s \<longleftrightarrow> racp_state s = STATE_RACP_PROC_ACTIVE \<longrightarrow>
     racp_proc_operator s \<in> {RACP_OPERATOR_FIRST, RACP_OPERATOR_LAST} \<or> unat (racp_proc_record_idx s) \<le> n"

definition report_measure :: "nat \<Rightarrow> ('db, 'm) racp_ctx_scheme \<Rightarrow> nat" where
  "report_measure n s =
     (if racp_state s \<noteq> STATE_RACP_PROC_ACTIVE then 0
      else if racp_proc_operator s \<in> {RACP_OPERATOR_FIRST, RACP_OPERATOR_LAST}
      then (if racp_proc_records_reported s = 0 then 2 else 1)
      else Suc (n - unat (racp_proc_record_idx s)))"

context racp_service
begin

lemma send_same:
  "same_request s (snd (op_send ops r s))" "racp_state (snd (op_send ops r s)) = racp_state s"
  "racp_proc_record_idx (snd (op_send ops r s)) = racp_proc_record_idx s"
  by (subst send_frame, simp)+

lemma completed_returns:
  assumes "ctx_ok invar s" "racp_state s = STATE_NO_COMM"
  shows "\<exists>t. racp_report_records_completed ops s = Inr t \<and> same_request s t \<and> racp_state t = STATE_NO_COMM"
proof -
  have buf: "4 \<le> length (racp_buf s)" using assms(1) by (simp add: ctx_ok_def)
  then show ?thesis
    using assms(2) by (simp add: report_completed_eq same_request_response report_answer_def)
qed

lemma ge_inner_returns:
  assumes "ctx_ok invar s" "unat (racp_proc_record_idx s) \<le> length (contents (db s))"
  shows "\<exists>x. c_while (\<lambda>s'. unat (racp_proc_record_idx s') < unat (op_num ops (db s))) (report_ge_body ops) s = Inr x \<and>
    (case x of Next _ \<Rightarrow> False
     | Break t \<Rightarrow> same_request s t \<and> racp_state t = racp_state s \<and>
         unat (racp_proc_record_idx s) \<le> unat (racp_proc_record_idx t) \<and>
         unat (racp_proc_record_idx t) \<le> length (contents (db s))
     | Return r \<Rightarrow> fst r \<noteq> 0 \<and> same_request s (snd r))"
proof (rule c_while_total [where m = "\<lambda>t. length (contents (db s)) - unat (racp_proc_record_idx t)"
      and I = "\<lambda>t. same_request s t \<and> racp_state t = racp_state s \<and>
         unat (racp_proc_record_idx s) \<le> unat (racp_proc_record_idx t) \<and>
         unat (racp_proc_record_idx t) \<le> length (contents (db s))"])
  fix t
  assume I: "same_request s t \<and> racp_state t = racp_state s \<and>
         unat (racp_proc_record_idx s) \<le> unat (racp_proc_record_idx t) \<and>
         unat (racp_proc_record_idx t) \<le> length (contents (db s))"
    and b: "unat (racp_proc_record_idx t) < unat (op_num ops (db s))"
  let ?i = "unat (racp_proc_record_idx t)"
  from assms(1) have inv: "invar (db s)" by (simp add: ctx_ok_def)
  with b have lt: "?i < length (contents (db s))" by (simp add: num_contents)
  with inv I have get: "op_get ops (racp_proc_record_idx t) (db t) = Inr (Inr (contents (db s) ! ?i))"
    by (simp add: get_contents same_request_def)
  from lt contents_bound [OF inv] have inc: "unat (racp_proc_record_idx t + 1) = Suc ?i"
    by (simp add: unat_inc_u8)
  obtain e t' where snd: "op_send ops (contents (db s) ! ?i) t = (e, t')" by fastforce
  with send_same [where s = t and r = "contents (db s) ! ?i"] I same_request_trans
  have t': "same_request s t'" "racp_state t' = racp_state s" "racp_proc_record_idx t' = racp_proc_record_idx t"
    by auto
  show "\<exists>x. report_ge_body ops t = Inr x \<and>
      (case x of Next u \<Rightarrow> (same_request s u \<and> racp_state u = racp_state s \<and>
         unat (racp_proc_record_idx s) \<le> unat (racp_proc_record_idx u) \<and>
         unat (racp_proc_record_idx u) \<le> length (contents (db s))) \<and>
         length (contents (db s)) - unat (racp_proc_record_idx u) < length (contents (db s)) - ?i
       | Break u \<Rightarrow> same_request s u \<and> racp_state u = racp_state s \<and>
         unat (racp_proc_record_idx s) \<le> unat (racp_proc_record_idx u) \<and>
         unat (racp_proc_record_idx u) \<le> length (contents (db s))
       | Return r \<Rightarrow> fst r \<noteq> 0 \<and> same_request s (snd r))"
    using I lt inc t' by (simp add: report_ge_body_def get snd) linarith
qed (use assms in simp_all)

lemma ge_returns:
  assumes "ctx_ok invar s" "unat (racp_proc_record_idx s) \<le> length (contents (db s))"
    and "racp_state s = STATE_RACP_PROC_ACTIVE"
  shows "\<exists>e t. racp_report_records_greater_or_equal ops s = Inr (e, t) \<and> same_request s t \<and>
    (e = 0 \<longrightarrow> racp_state t = STATE_NO_COMM \<or>
       racp_state t = STATE_RACP_PROC_ACTIVE \<and> unat (racp_proc_record_idx s) \<le> unat (racp_proc_record_idx t) \<and>
       unat (racp_proc_record_idx t) < length (contents (db s)))"
proof -
  from ge_inner_returns [OF assms(1,2)] obtain x where x:
    "c_while (\<lambda>s'. unat (racp_proc_record_idx s') < unat (op_num ops (db s))) (report_ge_body ops) s = Inr x"
    "case x of Next _ \<Rightarrow> False
     | Break t \<Rightarrow> same_request s t \<and> racp_state t = racp_state s \<and>
         unat (racp_proc_record_idx s) \<le> unat (racp_proc_record_idx t) \<and>
         unat (racp_proc_record_idx t) \<le> length (contents (db s))
     | Return r \<Rightarrow> fst r \<noteq> 0 \<and> same_request s (snd r)" by blast
  have num: "unat (op_num ops (db s)) = length (contents (db s))"
    using assms(1) by (simp add: ctx_ok_def num_contents)
  show ?thesis
  proof (cases x)
    case (Break t)
    with x assms(3) num show ?thesis
      by (cases "unat (racp_proc_record_idx t) = length (contents (db s))")
         (auto simp: racp_report_records_greater_or_equal_def)
  qed (use x in \<open>auto simp: racp_report_records_greater_or_equal_def\<close>)
qed

lemma all_returns:
  assumes "ctx_ok invar s" "racp_state s = STATE_RACP_PROC_ACTIVE"
  shows "\<exists>e t. report_all_result ops s = Inr (e, t) \<and> same_request s t \<and>
    (e = 0 \<longrightarrow> racp_state t = STATE_NO_COMM \<or>
       racp_state t = STATE_RACP_PROC_ACTIVE \<and> racp_proc_record_idx t = racp_proc_record_idx s \<and>
       unat (racp_proc_record_idx s) < length (contents (db s)))"
proof (cases "unat (racp_proc_record_idx s) < length (contents (db s))")
  case True
  with assms show ?thesis
    using send_same [where s = s]
    by (simp add: report_all_result_eq ctx_ok_def num_contents get_contents)
      (metis prod.collapse)
qed (use assms in \<open>simp add: report_all_result_eq ctx_ok_def num_contents Let_def\<close>)

lemma first_last_returns:
  assumes "ctx_ok invar s" "racp_state s = STATE_RACP_PROC_ACTIVE"
    and "racp_proc_operator s \<in> {RACP_OPERATOR_FIRST, RACP_OPERATOR_LAST}"
    and "\<forall>r\<in>set (contents (db s)). sendable r"
  shows "\<exists>e t. racp_report_records_first_last ops s = Inr (e, t) \<and> same_request s t \<and>
    (e = 0 \<longrightarrow> racp_state t = STATE_NO_COMM \<or>
       racp_state t = STATE_RACP_PROC_ACTIVE \<and> racp_proc_record_idx t = racp_proc_record_idx s \<and>
       racp_proc_records_reported s = 0 \<and> racp_proc_records_reported t = 1)"
proof (cases "racp_proc_records_reported s \<noteq> 0 \<or> op_num ops (db s) = 0")
  case False
  let ?cs = "contents (db s)"
  from assms(1) have inv: "invar (db s)" by (simp add: ctx_ok_def)
  with False num_contents [OF inv] have ne: "?cs \<noteq> []" by (auto simp: unat_eq_zero)
  define r where "r = (if racp_proc_operator s = RACP_OPERATOR_FIRST then hd ?cs else last ?cs)"
  have r: "r \<in> set ?cs"
    "(if racp_proc_operator s = RACP_OPERATOR_FIRST then op_get ops 0 (db s)
      else op_get ops (ucast (op_num ops (db s) - 1)) (db s)) = Inr (Inr r)"
    using ne inv by (simp_all add: r_def get_hd get_last)
  obtain e t where et: "op_send ops r s = (e, t)" by fastforce
  with r(2) False assms(3) have "racp_report_records_first_last ops s = Inr (e, t)"
    by (auto simp: racp_report_records_first_last_def Let_def)
  with et send_same(1) [of s r] send_same(2,3) [of r s] send_counts [of r s] r(1) assms(2,4) False
  show ?thesis by auto
qed (use assms in \<open>auto simp: racp_report_records_first_last_def Let_def\<close>)

lemma report_step_returns:
  assumes "ctx_ok invar s" "racp_state s = STATE_RACP_PROC_ACTIVE"
    and "racp_opcode (racp_request s) = RACP_OPCODE_REPORT_RECS"
    and "idx_ok (length (contents (db s))) s"
    and "\<forall>r\<in>set (contents (db s)). sendable r"
  shows "\<exists>x. report_step ops s = Inr x \<and>
    (case x of Next t \<Rightarrow> same_request s t \<and> idx_ok (length (contents (db s))) t \<and>
         report_measure (length (contents (db s))) t < report_measure (length (contents (db s))) s
     | Break t \<Rightarrow> False
     | Return t \<Rightarrow> same_request s t \<and> racp_state t = STATE_NO_COMM)"
proof (cases "racp_proc_operator s \<in> {RACP_OPERATOR_ALL, RACP_OPERATOR_FIRST, RACP_OPERATOR_LAST,
    RACP_OPERATOR_GREATER_OR_EQUAL}")
  case True
  let ?n = "length (contents (db s))" and ?FL = "{RACP_OPERATOR_FIRST, RACP_OPERATOR_LAST}"
  define rep where "rep = (if racp_proc_operator s = RACP_OPERATOR_ALL then report_all_result ops s
                  else if racp_proc_operator s = RACP_OPERATOR_GREATER_OR_EQUAL
                  then racp_report_records_greater_or_equal ops s
                  else racp_report_records_first_last ops s)"
  have "\<exists>e t. rep = Inr (e, t) \<and> same_request s t \<and> (e = 0 \<longrightarrow> racp_state t = STATE_NO_COMM \<or>
      racp_state t = STATE_RACP_PROC_ACTIVE \<and>
      (if racp_proc_operator s \<in> ?FL then racp_proc_records_reported s = 0 \<and> racp_proc_records_reported t = 1
       else unat (racp_proc_record_idx s) \<le> unat (racp_proc_record_idx t) \<and> unat (racp_proc_record_idx t) < ?n))"
    using True assms(2,4) all_returns [OF assms(1,2)] ge_returns [OF assms(1)] first_last_returns [OF assms(1,2) _ assms(5)]
    unfolding rep_def by (fastforce simp: idx_ok_def)
  then obtain e t where rep: "rep = Inr (e, t)" and st: "same_request s t" and
    ok: "e = 0 \<Longrightarrow> racp_state t = STATE_NO_COMM \<or> racp_state t = STATE_RACP_PROC_ACTIVE \<and>
      (if racp_proc_operator s \<in> ?FL then racp_proc_records_reported s = 0 \<and> racp_proc_records_reported t = 1
       else unat (racp_proc_record_idx s) \<le> unat (racp_proc_record_idx t) \<and> unat (racp_proc_record_idx t) < ?n)"
    by blast
  have step: "report_step ops s = (if e = 0
      then if racp_state t = STATE_RACP_PROC_ACTIVE
           then Inr (Next (t\<lparr>racp_proc_record_idx := racp_proc_record_idx t + 1\<rparr>))
           else rbind (racp_report_records_completed ops t) (\<lambda>s''. Inr (Next s''))
      else Inr (Next (state_set STATE_NO_COMM t)))"
    using True assms(3) rep by (simp add: report_step_unfold rep_def)
  have opr: "racp_proc_operator t = racp_proc_operator s" using st by (simp add: same_request_def)
  have m: "0 < report_measure ?n s" using assms(2) by (simp add: report_measure_def)
  consider "e \<noteq> 0" | "e = 0" "racp_state t = STATE_NO_COMM" | "e = 0" "racp_state t = STATE_RACP_PROC_ACTIVE"
    using ok by blast
  then show ?thesis
  proof cases
    case 1
    with step st m show ?thesis by (simp add: idx_ok_def report_measure_def)
  next
    case 2
    from completed_returns [of t] 2 st assms(1) obtain u where
      "racp_report_records_completed ops t = Inr u" "same_request t u" "racp_state u = STATE_NO_COMM"
      by (auto simp: same_request_ctx_ok)
    with step st m 2 same_request_trans [OF st] show ?thesis by (simp add: idx_ok_def report_measure_def)
  next
    case 3
    show ?thesis
    proof (cases "racp_proc_operator s \<in> ?FL")
      case True
      with ok 3 step st opr assms(2) show ?thesis by (auto simp: idx_ok_def report_measure_def)
    next
      case False
      with ok 3 have lt: "unat (racp_proc_record_idx s) \<le> unat (racp_proc_record_idx t)" "unat (racp_proc_record_idx t) < ?n"
        by auto
      with contents_bound [of "db s"] assms(1) have "unat (racp_proc_record_idx t + 1) = Suc (unat (racp_proc_record_idx t))"
        by (simp add: ctx_ok_def unat_inc_u8)
      with 3 step st opr assms(2) lt False show ?thesis by (auto simp: idx_ok_def report_measure_def)
    qed
  qed
qed (use assms(3) in \<open>simp add: report_step_unfold\<close>)

text \<open>
  A loop over the passes of a report ends, whatever the host answers; the body may be \<open>report_step\<close> itself or
  a function that differs from it only in what it returns.
\<close>

lemma report_loop_returns:
  assumes "ctx_ok invar s" "racp_opcode (racp_request s) = RACP_OPCODE_REPORT_RECS"
    and "idx_ok (length (contents (db s))) s" "\<forall>r\<in>set (contents (db s)). sendable r"
    and f: "\<And>t. same_request s t \<Longrightarrow> f t = rbind (report_step ops t) (\<lambda>x. case x of
        Next u \<Rightarrow> Inr (Next u) | Break u \<Rightarrow> Inr (Break u) | Return u \<Rightarrow> Inr (Return (k u)))"
  shows "\<exists>x. c_while (\<lambda>s. racp_state s = STATE_RACP_PROC_ACTIVE) f s = Inr x \<and>
    (case x of Next _ \<Rightarrow> False | Break t \<Rightarrow> same_request s t \<and> racp_state t = STATE_NO_COMM
     | Return r \<Rightarrow> \<exists>t. r = k t \<and> same_request s t \<and> racp_state t = STATE_NO_COMM)"
proof -
  let ?n = "length (contents (db s))"
  let ?Q = "\<lambda>t. same_request s t \<and> racp_state t = STATE_NO_COMM"
  show ?thesis
  proof (rule c_while_total [where m = "report_measure ?n" and I = "\<lambda>t. same_request s t \<and> idx_ok ?n t"])
    fix t assume I: "same_request s t \<and> idx_ok ?n t" and b: "racp_state t = STATE_RACP_PROC_ACTIVE"
    have t: "ctx_ok invar t" "db t = db s" "racp_request t = racp_request s"
      using I assms(1) same_request_ctx_ok [of s t invar] by (auto simp: same_request_def)
    obtain x where x: "report_step ops t = Inr x"
      "case x of Next u \<Rightarrow> same_request t u \<and> idx_ok ?n u \<and> report_measure ?n u < report_measure ?n t
       | Break u \<Rightarrow> False | Return u \<Rightarrow> same_request t u \<and> racp_state u = STATE_NO_COMM"
      using report_step_returns [OF t(1) b, unfolded t(2,3), OF assms(2) conjunct2 [OF I] assms(4)]
      by (elim exE conjE) (rule that)
    show "\<exists>x. f t = Inr x \<and> (case x of Next u \<Rightarrow> (same_request s u \<and> idx_ok ?n u) \<and>
        report_measure ?n u < report_measure ?n t | Break u \<Rightarrow> ?Q u | Return r \<Rightarrow> \<exists>u. r = k u \<and> ?Q u)"
      using x I f [of t] same_request_trans [of s t] by (cases x) auto
  next
    fix t assume "same_request s t \<and> idx_ok ?n t" "racp_state t \<noteq> STATE_RACP_PROC_ACTIVE"
    then show "?Q t" using comm_state.exhaust by blast
  qed (use assms in simp)
qed

lemma procedure_returns:
  assumes "ctx_ok invar s" "racp_opcode (racp_request s) = RACP_OPCODE_REPORT_RECS"
    and "idx_ok (length (contents (db s))) s" "\<forall>r\<in>set (contents (db s)). sendable r"
  shows "\<exists>t. racp_report_records_procedure ops s = Inr t \<and> same_request s t \<and> racp_state t = STATE_NO_COMM"
proof -
  have "report_step ops t = rbind (report_step ops t) (\<lambda>x. case x of
      Next u \<Rightarrow> Inr (Next u) | Break u \<Rightarrow> Inr (Break u) | Return u \<Rightarrow> Inr (Return (id u)))" for t
    by (cases "report_step ops t") (simp_all split: flow.split)
  from report_loop_returns [OF assms this] show ?thesis
    by (elim exE conjE) (simp add: racp_report_records_procedure_def split: flow.split_asm)
qed

text \<open>A report that is not of all records never sleeps, and ends by itself.\<close>

lemma until_sleep_other:
  assumes "ctx_ok invar s" "racp_opcode (racp_request s) = RACP_OPCODE_REPORT_RECS"
    and "idx_ok (length (contents (db s))) s" "\<forall>r\<in>set (contents (db s)). sendable r"
    and "racp_proc_operator s \<noteq> RACP_OPERATOR_ALL"
  shows "\<exists>t. report_until_sleep ops s = Inr (False, t) \<and> same_request s t \<and> racp_state t = STATE_NO_COMM"
proof -
  have pass: "report_pass ops t = rbind (report_step ops t) (\<lambda>x. case x of
      Next u \<Rightarrow> Inr (Next u) | Break u \<Rightarrow> Inr (Break u) | Return u \<Rightarrow> Inr (Return (Pair False u)))"
    if "same_request s t" for t
  proof -
    have "racp_proc_operator t \<noteq> RACP_OPERATOR_ALL" using that assms(5) by (simp add: same_request_def)
    then show ?thesis
      by (cases "racp_report_records_greater_or_equal ops t"; cases "racp_report_records_first_last ops t")
        (auto simp: report_step_def report_pass_def rbind_assoc split: prod.split)
  qed
  have "\<exists>x. c_while (\<lambda>s. racp_state s = STATE_RACP_PROC_ACTIVE) (report_pass ops) s = Inr x \<and>
      (case x of Next _ \<Rightarrow> False | Break t \<Rightarrow> same_request s t \<and> racp_state t = STATE_NO_COMM
       | Return r \<Rightarrow> \<exists>t. r = Pair False t \<and> same_request s t \<and> racp_state t = STATE_NO_COMM)"
    by (rule report_loop_returns [OF assms(1-4)]) (rule pass)
  then show ?thesis
    by (elim exE conjE) (auto simp add: report_until_sleep_def split: flow.split_asm)
qed

text \<open>
  A report of all records sleeps after each record it has sent, and otherwise ends: idle, unless the
  opcode it started with has been overwritten.
\<close>

lemma until_sleep_all:
  assumes "ctx_ok invar s" "racp_proc_operator s = RACP_OPERATOR_ALL"
  shows "\<exists>a t. report_until_sleep ops s = Inr (a, t) \<and> same_request s t \<and>
    (a \<longrightarrow> racp_state t = STATE_RACP_PROC_ACTIVE \<and> racp_opcode (racp_request s) = RACP_OPCODE_REPORT_RECS \<and>
            racp_proc_record_idx t = racp_proc_record_idx s \<and> unat (racp_proc_record_idx s) < length (contents (db s))) \<and>
    (\<not> a \<longrightarrow> racp_state t = STATE_NO_COMM \<or> t = s \<and> racp_opcode (racp_request s) \<noteq> RACP_OPCODE_REPORT_RECS)"
proof (cases "racp_state s = STATE_RACP_PROC_ACTIVE \<and> racp_opcode (racp_request s) = RACP_OPCODE_REPORT_RECS")
  case True
  show ?thesis
  proof (cases "unat (racp_proc_record_idx s) < length (contents (db s))")
    case lt: True
    let ?r = "contents (db s) ! unat (racp_proc_record_idx s)"
    obtain e u where send: "op_send ops ?r s = (e, u)" by fastforce
    with send_same [where s = s and r = ?r] True
    have u: "same_request s u" "racp_state u = STATE_RACP_PROC_ACTIVE" "racp_proc_record_idx u = racp_proc_record_idx s" by auto
    have "report_pass ops s = (if e = 0 then Inr (Return (True, u)) else Inr (Next (state_set STATE_NO_COMM u)))"
      using True lt assms send
      by (simp add: report_pass_def racp_report_records_all_def ctx_ok_def num_contents get_contents report_return_def)
    with True lt u show ?thesis
      by (auto simp: report_until_sleep_def c_while_unfold [of _ "report_pass ops" s]
          c_while_unfold [of _ "report_pass ops" "state_set _ _"])
  next
    case False
    let ?s = "state_set STATE_NO_COMM s"
    from completed_returns [of ?s] assms(1) obtain u where
      u: "racp_report_records_completed ops ?s = Inr u" "same_request ?s u" "racp_state u = STATE_NO_COMM" by auto
    have "report_pass ops s = Inr (Next u)"
      using True False assms u
      by (simp add: report_pass_def racp_report_records_all_def ctx_ok_def num_contents Let_def report_return_def)
    moreover have "same_request s u" using u(2) by (simp add: same_request_def state_set_def)
    ultimately show ?thesis
      using True u(3) by (auto simp: report_until_sleep_def c_while_unfold [of _ "report_pass ops" s]
          c_while_unfold [of _ "report_pass ops" u])
  qed
next
  case False
  then have "report_until_sleep ops s = Inr (False, s)"
    by (auto simp: report_until_sleep_def c_while_unfold [of _ "report_pass ops" s] report_pass_def)
  with False show ?thesis by (cases "racp_state s") auto
qed

lemma wake_returns:
  assumes "ctx_ok invar s" "racp_proc_operator s = RACP_OPERATOR_ALL"
  shows "\<exists>a t. racp_wake ops s = Inr (a, t) \<and> same_request s t \<and>
    (a \<longrightarrow> racp_state t = STATE_RACP_PROC_ACTIVE \<and> racp_opcode (racp_request s) = RACP_OPCODE_REPORT_RECS \<and>
            racp_proc_record_idx t = racp_proc_record_idx s + 1 \<and> unat (racp_proc_record_idx t) < length (contents (db s))) \<and>
    (\<not> a \<longrightarrow> racp_state t = STATE_NO_COMM \<or> racp_opcode (racp_request s) \<noteq> RACP_OPCODE_REPORT_RECS)"
proof (cases "racp_state s")
  case STATE_NO_COMM
  with completed_returns [OF assms(1)] obtain u where
    "racp_report_records_completed ops s = Inr u" "same_request s u" "racp_state u = STATE_NO_COMM" by blast
  with STATE_NO_COMM show ?thesis
    by (auto simp: racp_wake_def report_return_def report_until_sleep_def c_while_unfold [of _ "report_pass ops" u])
next
  case STATE_RACP_PROC_ACTIVE
  let ?s = "s\<lparr>racp_proc_record_idx := racp_proc_record_idx s + 1\<rparr>"
  have "ctx_ok invar ?s" using assms(1) by (simp add: ctx_ok_def)
  from until_sleep_all [OF this] assms(2) obtain a t where
    "report_until_sleep ops ?s = Inr (a, t)" "same_request ?s t"
    "a \<longrightarrow> racp_state t = STATE_RACP_PROC_ACTIVE \<and> racp_opcode (racp_request s) = RACP_OPCODE_REPORT_RECS \<and>
       racp_proc_record_idx t = racp_proc_record_idx s + 1 \<and> unat (racp_proc_record_idx s + 1) < length (contents (db s))"
    "\<not> a \<longrightarrow> racp_state t = STATE_NO_COMM \<or> t = ?s \<and> racp_opcode (racp_request s) \<noteq> RACP_OPCODE_REPORT_RECS"
    by auto
  moreover from this(2) have "same_request s t" by (simp add: same_request_def)
  ultimately show ?thesis
    using STATE_RACP_PROC_ACTIVE by (cases a) (auto simp: racp_wake_def report_return_def)
qed

end

section \<open>The request handler\<close>

lemma report_check_operator:
  "report_request_check r = Inr RACP_RESPONSE_RESERVED \<Longrightarrow>
   racp_operator r \<in> {RACP_OPERATOR_ALL, RACP_OPERATOR_FIRST, RACP_OPERATOR_LAST, RACP_OPERATOR_GREATER_OR_EQUAL}"
  by (auto simp: report_request_check_def split: if_splits)

lemma operand_filter_ok: "length (racp_operand r) = 6 \<Longrightarrow> \<exists>flt. operand_filter r = Inr flt"
  by (simp add: operand_filter_def arr_get_def)

lemma report_check_ok: "length (racp_operand r) = 6 \<Longrightarrow> \<exists>rc. report_request_check r = Inr rc"
  by (simp add: report_request_check_def arr_get_def)

lemma is_request_ok: "length (racp_operand r) = 6 \<Longrightarrow> \<exists>x. is_request_to_be_executed st r = Inr x"
  using report_check_ok [of r] by (auto simp: is_request_to_be_executed_def Let_def)

text \<open>The state in which the report procedure starts.\<close>

definition report_start :: "u16 \<Rightarrow> ('db, 'm) racp_ctx_scheme \<Rightarrow> ('db, 'm) racp_ctx_scheme" where
  "report_start flt s =
     (state_set STATE_RACP_PROC_ACTIVE (s\<lparr>racp_response_code := RACP_RESPONSE_RESERVED\<rparr>))
       \<lparr>racp_proc_record_idx := 0, racp_proc_operator := racp_operator (racp_request s),
        racp_proc_records_reported := 0, racp_proc_filter := flt\<rparr>"

lemma report_start_simps [simp]:
  "db (report_start flt s) = db s" "racp_request (report_start flt s) = racp_request s"
  "racp_state (report_start flt s) = STATE_RACP_PROC_ACTIVE"
  "racp_proc_operator (report_start flt s) = racp_operator (racp_request s)"
  "racp_proc_filter (report_start flt s) = flt" "racp_proc_record_idx (report_start flt s) = 0"
  "racp_proc_records_reported (report_start flt s) = 0" "racp_buf (report_start flt s) = racp_buf s"
  "racp_ctx.more (report_start flt s) = racp_ctx.more s" "trace (report_start flt s) = trace s"
  "racp_ccc (report_start flt s) = racp_ccc s" "racp_indicating (report_start flt s) = racp_indicating s"
  "racp_work_submitted (report_start flt s) = racp_work_submitted s"
  by (simp_all add: report_start_def state_set_def)

lemma ctx_ok_report_start [simp]: "ctx_ok invar (report_start flt s) = ctx_ok invar s"
  by (simp add: ctx_ok_def)

lemma racp_handle_report:
  assumes "racp_state s = STATE_NO_COMM" "racp_opcode (racp_request s) = RACP_OPCODE_REPORT_RECS"
    and "report_request_check (racp_request s) = Inr RACP_RESPONSE_RESERVED"
    and "operand_filter (racp_request s) = Inr flt"
  shows "racp_handle ops s = racp_report_records_procedure ops (report_start flt s)"
  using assms
  by (simp add: racp_handle_def is_request_to_be_executed_def report_records_request_execute_def
      report_start_def)

lemma report_done_trace:
  "trace (report_done ops emit rs i s) =
     trace s @ concat (map (emit (racp_ctx.more s)) rs) @
     (if racp_ccc s \<noteq> 0 \<and> racp_indicating s = 0
      then let msg = report_answer (racp_proc_records_reported s + of_nat (length rs));
               tr = trace s @ concat (map (emit (racp_ctx.more s)) rs)
           in [Indicate (op_attr ops) msg (env_indicate (op_env ops) tr (op_attr ops) msg)]
      else [])"
  by (simp add: report_done_def Let_def after_response_def sent_def)

lemma report_done_frame [simp]:
  "db (report_done ops emit rs i s) = db s" "racp_request (report_done ops emit rs i s) = racp_request s"
  "racp_ctx.more (report_done ops emit rs i s) = racp_ctx.more s"
  by (simp_all add: report_done_def Let_def)

text \<open>A request that is refused is answered with its response code.\<close>

lemma racp_handle_refused:
  assumes "is_request_to_be_executed (racp_state s) (racp_request s) = Inr (False, rc)" "rc \<noteq> RACP_RESPONSE_RESERVED"
    and "4 \<le> length (racp_buf s)"
  shows "racp_handle ops s = Inr (after_response ops
     [RACP_OPCODE_RESPONSE_CODE, RACP_OPERATOR_NULL, racp_opcode (racp_request s), rc]
     (state_set STATE_NO_COMM (s\<lparr>racp_response_code := rc\<rparr>)))"
  using assms by (simp add: racp_handle_def racp_response_code_send_eq Let_def)

context racp_service
begin

lemma select_length: "invar d \<Longrightarrow> length (report_select opr flt key (contents d)) \<le> MAX_RECORDS"
  using contents_bound [of d] le_trans [OF length_filter_le contents_bound [of d]]
  by (auto simp: report_select_def)

lemma handle_report_trace:
  assumes "ctx_ok invar s" "racp_state s = STATE_NO_COMM"
    and "racp_opcode (racp_request s) = RACP_OPCODE_REPORT_RECS"
    and "report_request_check (racp_request s) = Inr RACP_RESPONSE_RESERVED"
    and "operand_filter (racp_request s) = Inr flt"
    and "racp_ccc s \<noteq> 0" "racp_indicating s = 0"
    and live: "\<And>r s. op_send ops r s = (0, sent emit [r] s)"
    and ind: "\<And>tr a m. env_indicate (op_env ops) tr a m = 0"
  shows "\<exists>t. racp_handle ops s = Inr t \<and> db t = db s \<and> racp_state t = STATE_NO_COMM \<and>
    trace t = trace s @
      concat (map (emit (racp_ctx.more s))
        (report_select (racp_operator (racp_request s)) flt (op_key ops) (contents (db s)))) @
      [Indicate (op_attr ops) [6, 0, 1,
         if report_select (racp_operator (racp_request s)) flt (op_key ops) (contents (db s)) = []
         then RACP_RESPONSE_NO_RECORDS_FOUND else RACP_RESPONSE_SUCCESS] 0]"
proof -
  let ?sel = "report_select (racp_operator (racp_request s)) flt (op_key ops) (contents (db s))"
  have "length ?sel \<le> MAX_RECORDS" using assms(1) select_length by (simp add: ctx_ok_def)
  then have pos: "(0 :: u8) < of_nat (length ?sel) \<longleftrightarrow> ?sel \<noteq> []"
    by (simp add: word_less_nat_alt unat_of_nat)
  obtain i where "racp_handle ops s = Inr (report_done ops emit ?sel i (report_start flt s))"
    using racp_handle_report [of s flt ops, OF assms(2-5)] report_check_operator [OF assms(4)]
      procedure_reports [of "report_start flt s" emit, OF _ _ _ _ _ _ live] assms(1,3) by auto
  then show ?thesis
    using assms(6,7) pos ind by (simp add: report_done_trace Let_def report_answer_def)
qed

lemma handle_report_returns:
  assumes "ctx_ok invar s" "racp_state s = STATE_NO_COMM"
    and "racp_opcode (racp_request s) = RACP_OPCODE_REPORT_RECS"
    and "\<forall>r\<in>set (contents (db s)). sendable r"
  shows "\<exists>t. racp_handle ops s = Inr t \<and> db t = db s \<and> racp_state t = STATE_NO_COMM \<and>
    ctx_ok invar t \<and> racp_ctx.more t = racp_ctx.more s"
proof -
  from assms(1) have len: "length (racp_operand (racp_request s)) = 6" and buf: "4 \<le> length (racp_buf s)"
    by (simp_all add: ctx_ok_def)
  obtain rc where rc: "report_request_check (racp_request s) = Inr rc" using report_check_ok [OF len] by blast
  obtain flt where flt: "operand_filter (racp_request s) = Inr flt" using operand_filter_ok [OF len] by blast
  show ?thesis
  proof (cases "rc = RACP_RESPONSE_RESERVED")
    case True
    with rc have ok: "report_request_check (racp_request s) = Inr RACP_RESPONSE_RESERVED" by simp
    have "idx_ok (length (contents (db s))) (report_start flt s)" by (simp add: idx_ok_def)
    with procedure_returns [of "report_start flt s"] racp_handle_report [of s flt ops, OF assms(2,3) ok flt] assms(1,3,4)
    obtain t where "racp_handle ops s = Inr t" "same_request (report_start flt s) t" "racp_state t = STATE_NO_COMM" by auto
    with assms(1) same_request_ctx_ok show ?thesis by (fastforce simp: same_request_def)
  next
    case False
    with rc assms(2,3) have "is_request_to_be_executed (racp_state s) (racp_request s) = Inr (False, rc)"
      by (simp add: is_request_to_be_executed_def)
    from racp_handle_refused [OF this False buf, of ops] assms(1) buf show ?thesis
      by (simp add: ctx_ok_def after_response_buf)
  qed
qed

text \<open>
  A report request up to its first sleep: only a report of all records sleeps, and every other one leaves the
  service idle.
\<close>

lemma start_report:
  assumes "ctx_ok invar s" "racp_state s = STATE_NO_COMM"
    and "racp_opcode (racp_request s) = RACP_OPCODE_REPORT_RECS"
    and "\<forall>r\<in>set (contents (db s)). sendable r"
  shows "\<exists>a t. racp_handle_start ops s = Inr (a, t) \<and> ctx_ok invar t \<and> racp_ctx.more t = racp_ctx.more s \<and>
    racp_request t = racp_request s \<and> racp_work_submitted t = racp_work_submitted s \<and>
    (a \<longrightarrow> racp_state t = STATE_RACP_PROC_ACTIVE \<and> racp_proc_operator t = RACP_OPERATOR_ALL \<and> racp_proc_record_idx t = 0) \<and>
    (\<not> a \<longrightarrow> racp_state t = STATE_NO_COMM)"
proof -
  from assms(1) have len: "length (racp_operand (racp_request s)) = 6" and buf: "4 \<le> length (racp_buf s)"
    by (simp_all add: ctx_ok_def)
  obtain rc where rc: "report_request_check (racp_request s) = Inr rc" using report_check_ok [OF len] by blast
  obtain flt where flt: "operand_filter (racp_request s) = Inr flt" using operand_filter_ok [OF len] by blast
  show ?thesis
  proof (cases "rc = RACP_RESPONSE_RESERVED")
    case True
    let ?s = "report_start flt s"
    have start: "racp_handle_start ops s = report_until_sleep ops ?s"
      using True rc flt assms(2,3) by (simp add: racp_handle_start_def report_start_def is_request_to_be_executed_def)
    have "\<exists>a t. report_until_sleep ops ?s = Inr (a, t) \<and> same_request ?s t \<and>
      (a \<longrightarrow> racp_state t = STATE_RACP_PROC_ACTIVE \<and> racp_operator (racp_request s) = RACP_OPERATOR_ALL \<and>
         racp_proc_record_idx t = 0) \<and> (\<not> a \<longrightarrow> racp_state t = STATE_NO_COMM)"
    proof (cases "racp_operator (racp_request s) = RACP_OPERATOR_ALL")
      case all: True
      then show ?thesis using until_sleep_all [of ?s] assms(1,3) by auto
    next
      case False
      have "idx_ok (length (contents (db s))) ?s" by (simp add: idx_ok_def)
      then show ?thesis using until_sleep_other [of ?s] False assms(1,3,4) by auto
    qed
    with start assms(1) same_request_ctx_ok [of ?s _ invar] show ?thesis by (fastforce simp: same_request_def)
  next
    case False
    with rc assms(2,3) have no: "is_request_to_be_executed (racp_state s) (racp_request s) = Inr (False, rc)"
      by (simp add: is_request_to_be_executed_def)
    from racp_handle_refused [OF this False buf, of ops] assms(1) buf no show ?thesis
      by (intro exI [of _ False]) (simp add: racp_handle_start_def ctx_ok_def after_response_buf)
  qed
qed

lemma count_matching_eq:
  assumes "invar d" "unat i \<le> length (contents d)"
  shows "count_matching ops d flt (op_num ops d) i n =
    Inr (Some (n + of_nat (length (filter (\<lambda>r. flt \<le> op_key ops r) (drop (unat i) (contents d))))))"
  using assms(2)
proof (induction "length (contents d) - unat i" arbitrary: i n)
  case 0
  with num_contents [OF assms(1)] show ?case
    by (simp add: count_matching.simps word_less_nat_alt)
next
  case (Suc k)
  from Suc.hyps(2) have lt: "unat i < length (contents d)" by simp
  with contents_bound [OF assms(1)] have u: "unat (ucast i :: u8) = unat i" "unat (i + 1) = Suc (unat i)"
    by (simp_all add: unsigned_ucast_eq take_bit_nat_eq_self unat_word_ariths)
  have lt': "i < op_num ops d" using lt num_contents [OF assms(1)] by (simp add: word_less_nat_alt)
  have dr: "drop (unat i) (contents d) = contents d ! unat i # drop (Suc (unat i)) (contents d)"
    using lt by (simp add: Cons_nth_drop_Suc)
  show ?case
    using Suc.hyps(1) [of "i + 1"] Suc.hyps(2) lt lt' u get_contents [OF assms(1), of "ucast i"]
    by (subst count_matching.simps) (simp add: dr ac_simps)
qed

lemma handle_count:
  assumes "ctx_ok invar s" "racp_state s = STATE_NO_COMM"
    and "racp_opcode (racp_request s) = RACP_OPCODE_REPORT_NUM_RECS"
    and "report_request_check (racp_request s) = Inr RACP_RESPONSE_RESERVED"
    and "operand_filter (racp_request s) = Inr flt"
  shows "racp_handle ops s = Inr (after_response ops [RACP_OPCODE_NUM_RECS_RESPONSE, RACP_OPERATOR_NULL,
      of_nat (length (report_select (racp_operator (racp_request s)) flt (op_key ops) (contents (db s)))), 0]
    (s\<lparr>racp_response_code := RACP_RESPONSE_RESERVED\<rparr>))"
proof -
  let ?cs = "contents (db s)" and ?opr = "racp_operator (racp_request s)"
  let ?n = "length (report_select ?opr flt (op_key ops) ?cs)"
  from assms(1) have inv: "invar (db s)" and buf: "4 \<le> length (racp_buf s)" by (simp_all add: ctx_ok_def)
  have n: "?n \<le> MAX_RECORDS" by (rule select_length [OF inv])
  have num: "op_num ops (db s) = of_nat (length ?cs)"
    using num_contents [OF inv] by (simp flip: num_contents [OF inv])
  have z: "(0 :: u16) < of_nat (length ?cs) \<longleftrightarrow> ?cs \<noteq> []"
    using contents_bound [OF inv] by (simp add: word_less_nat_alt unat_of_nat)
  have bytes: "ucast (of_nat k AND (0xFF :: u16)) = (of_nat k :: u8)" "ucast (drop_bit 8 (of_nat k :: u16)) = (0 :: u8)"
    if "k \<le> MAX_RECORDS" for k
  proof -
    have "k < 256" using that by simp
    then show "ucast (of_nat k AND (0xFF :: u16)) = (of_nat k :: u8)"
      "ucast (drop_bit 8 (of_nat k :: u16)) = (0 :: u8)"
      by (simp_all add: word_unat_eq_iff unsigned_ucast_eq mask_simps unsigned_and_eq unat_drop_bit_eq
          unat_of_nat drop_bit_nat_def take_bit_nat_eq_self unsigned_take_bit_eq flip: take_bit_eq_mask)
  qed
  have cnt: "count_matching ops (db s) flt (of_nat (length ?cs)) 0 0 =
      Inr (Some (of_nat (length (filter (\<lambda>r. flt \<le> op_key ops r) ?cs))))"
    using count_matching_eq [OF inv, of 0 flt 0] num by simp
  have m: "min (length ?cs) (Suc 0) = Suc 0" if "?cs \<noteq> []" using that by (cases ?cs) simp_all
  have exec: "racp_handle ops s = report_num_records_request_execute ops (racp_request s)
      (s\<lparr>racp_response_code := RACP_RESPONSE_RESERVED\<rparr>)"
    using assms(2-4) by (simp add: racp_handle_def is_request_to_be_executed_def)
  have "report_num_records_request_execute ops (racp_request s) (s\<lparr>racp_response_code := RACP_RESPONSE_RESERVED\<rparr>) =
      racp_send ops \<lparr>racp_opcode = RACP_OPCODE_NUM_RECS_RESPONSE, racp_operator = RACP_OPERATOR_NULL,
        racp_operand_len = 2, racp_operand = [ucast (of_nat ?n AND (0xFF :: u16)), ucast (drop_bit 8 (of_nat ?n :: u16))]\<rparr>
        (s\<lparr>racp_response_code := RACP_RESPONSE_RESERVED\<rparr>)"
    using report_check_operator [OF assms(4)] assms(5) cnt z
    by (auto simp: report_num_records_request_execute_def num report_select_def m Let_def)
  then show ?thesis
    unfolding exec using bytes [OF n] buf by (simp add: racp_send_two)
qed

end

section \<open>Deletion\<close>

text \<open>
  A service that can also delete: every deletion keeps the invariant, and deleting the last
  record stays within the database exactly on the databases in \<open>last_ok\<close>.
\<close>

definition delete_last_request :: "('db, 'm) racp_ctx_scheme \<Rightarrow> bool" where
  "delete_last_request s \<longleftrightarrow> racp_opcode (racp_request s) = RACP_OPCODE_DELETE_RECS \<and>
     racp_operator (racp_request s) = RACP_OPERATOR_LAST \<and> racp_operand_len (racp_request s) = 0"

locale racp_delete_service = racp_service invar contents ops sendable
  for invar :: "'db \<Rightarrow> bool" and contents :: "'db \<Rightarrow> 'r list" and ops :: "('db, 'r, 'm) racp_ops"
    and sendable :: "'r \<Rightarrow> bool" +
  fixes last_ok :: "'db \<Rightarrow> bool"
  assumes delete_all_invar: "invar d \<Longrightarrow> invar (op_delete_all ops d)"
    and delete_first_invar: "invar d \<Longrightarrow> invar (snd (op_delete_first ops d))"
    and delete_last_ok: "invar d \<Longrightarrow> last_ok d \<Longrightarrow> \<exists>c d'. op_delete_last ops d = Inr (c, d') \<and> invar d'"
    and delete_last_bad: "invar d \<Longrightarrow> \<not> last_ok d \<Longrightarrow> op_delete_last ops d = Inl Out_Of_Bounds"
begin

lemma delete_returns:
  assumes "ctx_ok invar s" "racp_operator r = RACP_OPERATOR_LAST \<longrightarrow> last_ok (db s)"
  shows "\<exists>t. delete_records_request_execute ops r s = Inr t \<and> ctx_ok invar t \<and>
    racp_state t = racp_state s \<and> racp_ctx.more t = racp_ctx.more s"
proof -
  have inv: "invar (db s)" and buf: "4 \<le> length (racp_buf s)" using assms(1) by (simp_all add: ctx_ok_def)
  have "\<exists>n d. (if racp_operator r = RACP_OPERATOR_ALL
            then Inr (op_num ops (db s), op_delete_all ops (db s))
            else if racp_operator r = RACP_OPERATOR_FIRST
            then (let (c, d) = op_delete_first ops (db s) in Inr (if c = 0 then 1 else 0, d))
            else if racp_operator r = RACP_OPERATOR_LAST
            then rbind (op_delete_last ops (db s)) (\<lambda>(c, d). Inr (if c = 0 then 1 else 0, d))
            else Inr (0 :: u16, db s)) = Inr (n, d) \<and> invar d" (is "\<exists>n d. ?del = _ \<and> _")
    using delete_all_invar [OF inv] delete_first_invar [OF inv] delete_last_ok [OF inv] assms(2) inv
    by (cases "op_delete_first ops (db s)") fastforce
  then obtain n d where del: "?del = Inr (n, d)" and d: "invar d" by blast
  have "delete_records_request_execute ops r s = racp_send ops
      \<lparr>racp_opcode = RACP_OPCODE_RESPONSE_CODE, racp_operator = RACP_OPERATOR_NULL, racp_operand_len = 2,
       racp_operand = [RACP_OPCODE_DELETE_RECS, if n > 0 then RACP_RESPONSE_SUCCESS else RACP_RESPONSE_NO_RECORDS_FOUND]\<rparr>
      (s\<lparr>db := d\<rparr>)"
    unfolding delete_records_request_execute_def del by simp
  with d assms(1) buf show ?thesis
    by (auto simp: racp_send_two after_response_buf ctx_ok_def)
qed

lemma handle_ok:
  assumes "ctx_ok invar s" "racp_state s = STATE_NO_COMM" "\<forall>r\<in>set (contents (db s)). sendable r"
    and "delete_last_request s \<longrightarrow> last_ok (db s)"
  shows "\<exists>t. racp_handle ops s = Inr t \<and> ctx_ok invar t \<and> racp_state t = STATE_NO_COMM \<and>
    racp_ctx.more t = racp_ctx.more s"
proof -
  let ?r = "racp_request s" and ?R = "RACP_RESPONSE_RESERVED"
  from assms(1) have len: "length (racp_operand ?r) = 6" and buf: "4 \<le> length (racp_buf s)" by (simp_all add: ctx_ok_def)
  obtain rc where rc: "report_request_check ?r = Inr rc" using report_check_ok [OF len] by blast
  obtain flt where flt: "operand_filter ?r = Inr flt" using operand_filter_ok [OF len] by blast
  consider (report) "racp_opcode ?r = RACP_OPCODE_REPORT_RECS"
    | (count) "racp_opcode ?r = RACP_OPCODE_REPORT_NUM_RECS" "rc = ?R"
    | (delete) "racp_opcode ?r = RACP_OPCODE_DELETE_RECS" "delete_request_check ?r = ?R"
    | (refused) "\<exists>rc'. is_request_to_be_executed (racp_state s) ?r = Inr (False, rc') \<and> rc' \<noteq> ?R"
    using assms(2) rc
    by (cases "racp_opcode ?r = 3"; cases "racp_opcode ?r = 1"; cases "racp_opcode ?r = 2"; cases "racp_opcode ?r = 4")
       (simp_all add: is_request_to_be_executed_def abort_request_check_def Let_def, blast+)
  then show ?thesis
  proof cases
    case report
    from handle_report_returns [OF assms(1,2) report assms(3)] show ?thesis by auto
  next
    case count
    with handle_count [OF assms(1,2) count(1) _ flt] rc assms(1,2) show ?thesis by simp
  next
    case delete
    have "racp_operator ?r = RACP_OPERATOR_LAST \<longrightarrow> last_ok (db (s\<lparr>racp_response_code := ?R\<rparr>))"
      using delete assms(4) by (auto simp: delete_last_request_def delete_request_check_def split: if_splits)
    from delete_returns [OF _ this] assms(1,2) delete show ?thesis
      by (simp add: racp_handle_def is_request_to_be_executed_def)
  next
    case refused
    then obtain rc' where "is_request_to_be_executed (racp_state s) ?r = Inr (False, rc')" "rc' \<noteq> ?R" by blast
    from racp_handle_refused [OF this buf, of ops] assms(1) show ?thesis by simp
  qed
qed

text \<open>The work item up to its first sleep, for requests other than reports.\<close>

lemma start_ok:
  assumes "ctx_ok invar s" "\<forall>r\<in>set (contents (db s)). sendable r"
    and "racp_state s = STATE_NO_COMM \<and> delete_last_request s \<longrightarrow> last_ok (db s)"
  shows "\<exists>a t. racp_handle_start ops s = Inr (a, t) \<and> ctx_ok invar t \<and> racp_ctx.more t = racp_ctx.more s \<and>
    (a \<longrightarrow> racp_proc_operator t = RACP_OPERATOR_ALL \<and> racp_proc_record_idx t = 0)"
proof (cases "racp_state s = STATE_NO_COMM \<and> racp_opcode (racp_request s) = RACP_OPCODE_REPORT_RECS")
  case True
  with start_report [OF assms(1) _ _ assms(2)] show ?thesis by blast
next
  case False
  obtain x where x: "is_request_to_be_executed (racp_state s) (racp_request s) = Inr x"
    using is_request_ok [of "racp_request s" "racp_state s"] assms(1) by (auto simp: ctx_ok_def)
  with False have "\<not> (fst x \<and> racp_opcode (racp_request s) = RACP_OPCODE_REPORT_RECS)"
    by (cases "racp_state s") (auto simp: is_request_to_be_executed_def)
  with x have start: "racp_handle_start ops s = rbind (racp_handle ops s) (\<lambda>s'. Inr (False, s'))"
    by (cases x) (auto simp: racp_handle_start_def Let_def)
  show ?thesis
  proof (cases "racp_state s")
    case STATE_NO_COMM
    with handle_ok [OF assms(1) _ assms(2)] assms(3) start show ?thesis by auto
  next
    case STATE_RACP_PROC_ACTIVE
    have buf: "4 \<le> length (racp_buf s)" using assms(1) by (simp add: ctx_ok_def)
    have "\<exists>t. racp_handle ops s = Inr t \<and> ctx_ok invar t \<and> racp_ctx.more t = racp_ctx.more s"
      using STATE_RACP_PROC_ACTIVE buf assms(1)
      by (auto simp: racp_handle_def is_request_to_be_executed_def abort_request_check_def Let_def
          racp_response_code_send_eq)
    with start show ?thesis by auto
  qed
qed

lemma handle_bad:
  assumes "ctx_ok invar s" "racp_state s = STATE_NO_COMM" "delete_last_request s" "\<not> last_ok (db s)"
  shows "racp_handle ops s = Inl Out_Of_Bounds"
  using assms delete_last_bad [of "db s"]
  by (simp add: racp_handle_def is_request_to_be_executed_def delete_last_request_def delete_request_check_def
      delete_records_request_execute_def ctx_ok_def)

lemma start_bad:
  assumes "ctx_ok invar s" "racp_state s = STATE_NO_COMM" "delete_last_request s" "\<not> last_ok (db s)"
  shows "racp_handle_start ops s = Inl Out_Of_Bounds"
  using handle_bad [OF assms] assms(2,3)
  by (simp add: racp_handle_start_def is_request_to_be_executed_def delete_last_request_def delete_request_check_def)

end

section \<open>Decoding a request stays within the operand buffer up to eight bytes\<close>

lemma racp_decode_ok:
  assumes "length (racp_operand v) = 6"
  shows "if length buf mod 256 \<le> 8
    then \<exists>r. racp_decode (of_nat (length buf)) buf v = Inr r \<and> length (racp_operand r) = 6
    else racp_decode (of_nat (length buf)) buf v = Inl Out_Of_Bounds"
proof -
  let ?n = "of_nat (length buf) :: u8"
  have n: "unat ?n = length buf mod 256" by (simp add: unat_of_nat)
  have le: "length buf mod 256 \<le> length buf" by simp
  have sub: "unat (?n - 2) = length buf mod 256 - 2" if "2 < ?n"
    using that by (simp add: unat_sub word_le_nat_alt word_less_nat_alt n)
  have "racp_decode ?n buf v = (if length buf mod 256 \<le> 2
     then Inr (v\<lparr>racp_opcode := (if 0 < length buf mod 256 then buf ! 0 else 0xFF),
        racp_operator := (if 1 < length buf mod 256 then buf ! 1 else 0xFF), racp_operand_len := 0\<rparr>)
     else rbind (mem_cpy (racp_operand v) 0 (drop 2 buf) (length buf mod 256 - 2)) (\<lambda>opd.
        Inr \<lparr>racp_opcode = buf ! 0, racp_operator = buf ! 1, racp_operand_len = ?n - 2, racp_operand = opd\<rparr>))"
    using le sub by (simp add: racp_decode_def arr_get_def word_less_nat_alt n)
  then show ?thesis using le assms by (auto simp: mem_cpy_def)
qed

end
