(* ===== verification/Cgms.thy ===== *)
theory Cgms
  imports Types_Encode Crc16 Racp
begin

text \<open>
  The continuous glucose monitoring service: \<^verbatim>\<open>samples/bluetooth/gatt/cgms.c\<close>, \<^verbatim>\<open>cgms.h\<close> and its
  record database \<^verbatim>\<open>cgms_db.c\<close>. The static variables are a record: those the record access
  procedures share (theory \<open>Racp\<close>) and, in its extension slot, the service's own (\<open>cgms_vars\<close>).
  Each GATT callback, work item and timer handler is one function on that state. The theory
  ends with the event relation of the service and its invariant.
\<close>

section \<open>Data\<close>

record cgms_cgm_session_run_time =
  run_time_value :: u16
  run_time_crc :: u16

record cgms_cgm_session_start_time =
  session_start_time :: date_time
  time_zone :: s8
  dst_offset :: u8
  start_time_crc :: u16

record cgms_cgm_feature =
  feature_bits :: u32
  cgm_type_sample_location :: u8
  feature_crc :: u16

record cgms_cgm_measurement =
  meas_size :: u8
  meas_flag :: u8
  cgm_glucose_concentration :: ieee_sfloat
  meas_time_offset :: u16
  sensor_status_annunciation :: u32
  cgm_trend_information :: ieee_sfloat
  cgm_quality :: ieee_sfloat
  meas_crc :: u16

record cgms_cgm_status =
  status_time_offset :: u16
  sensor_status :: u32
  status_crc :: u16

record cgms_record =
  meas :: cgms_cgm_measurement

record cgm_socp =
  socp_opcode :: u8
  socp_operand :: bytes
  socp_operand_len :: u8
  socp_crc :: u16

text \<open>
  \<open>gatt_cgms\<close> and the other static variables. \<open>socp_work_submitted\<close> and \<open>timer_started\<close> stand for
  the kernel objects \<open>cgms_socp_work_item\<close> and \<open>cgms_timer\<close>.
\<close>

record cgms_vars =
  cgm_meas :: cgms_cgm_measurement
  cgm_meas_ccc :: u8
  cgm_feature :: cgms_cgm_feature
  cgm_status :: cgms_cgm_status
  cgm_session_start_time :: cgms_cgm_session_start_time
  cgm_session_run_time :: cgms_cgm_session_run_time
  socp_ccc :: u8
  communication_interval :: u8
  socp_indicating :: u8
  socp_buf :: bytes
  start_session :: bool
  socp_response :: cgm_socp
  session_run_time :: u16
  socp_work_submitted :: bool
  timer_started :: bool

type_synonym cgms_state = "(cgms_record slot_db, cgms_vars) racp_ctx_scheme"

abbreviation vars :: "(cgms_record slot_db, cgms_vars) racp_ctx_scheme \<Rightarrow> cgms_vars" where
  "vars s \<equiv> racp_ctx.more s"

definition upd_vars :: "(cgms_vars \<Rightarrow> cgms_vars) \<Rightarrow> cgms_state \<Rightarrow> cgms_state" where
  "upd_vars f s = racp_ctx.more_update f s"

abbreviation (input) "CGM_FEAT_E2E_CRC_SUPPORTED \<equiv> 0x1000 :: u32"
abbreviation (input) "CGM_MEAS_MAX_SIZE \<equiv> 18 :: nat"
abbreviation (input) "CGM_SOCP_MAX_OPERAND_LEN \<equiv> 10 :: nat"
abbreviation (input) "CGMS_ERR_MISSING_CRC \<equiv> 0x80 :: int"
abbreviation (input) "CGMS_ERR_INVALID_CRC \<equiv> 0x81 :: int"

abbreviation (input) "CGM_TREND_INFORMATION_PRESENT \<equiv> 0x01 :: u8"
abbreviation (input) "CGM_QUALITY_PRESENT \<equiv> 0x02 :: u8"
abbreviation (input) "CGM_SENSOR_STAT_ANNU_WARNING_OCTET_PRESENT \<equiv> 0x20 :: u8"
abbreviation (input) "CGM_SENSOR_STAT_ANNU_CAL_OR_TEMP_OCTET_PRESENT \<equiv> 0x40 :: u8"
abbreviation (input) "CGM_SENSOR_STAT_ANNU_STAT_OCTET_PRESENT \<equiv> 0x80 :: u8"

abbreviation (input) "SOCP_OPCODE_SET_CGM_COMMUNICATION_INTERVAL \<equiv> 1 :: u8"
abbreviation (input) "SOCP_OPCODE_GET_CGM_COMMUNICATION_INTERVAL \<equiv> 2 :: u8"
abbreviation (input) "SOCP_OPCODE_CGM_COMMUNICATION_INTERVAL_RESPONSE \<equiv> 3 :: u8"
abbreviation (input) "SOCP_OPCODE_START_THE_SESSION \<equiv> 26 :: u8"
abbreviation (input) "SOCP_OPCODE_RESPONSE_CODE \<equiv> 28 :: u8"
abbreviation (input) "SOCP_RESPONSE_SUCCESS \<equiv> 1 :: u8"
abbreviation (input) "SOCP_RESPONSE_OPCODE_UNSUPPORTED \<equiv> 2 :: u8"
abbreviation (input) "SOCP_RESPONSE_INVALID_OPERAND \<equiv> 3 :: u8"

definition crc_supported :: "cgms_vars \<Rightarrow> bool" where
  "crc_supported g \<longleftrightarrow> flag_set (feature_bits (cgm_feature g)) CGM_FEAT_E2E_CRC_SUPPORTED"

section \<open>The record database\<close>

definition cgms_db_init :: "cgms_record slot_db \<Rightarrow> cgms_record slot_db" where
  "cgms_db_init = slot_db_init"

definition cgms_db_num_records_get :: "cgms_record slot_db \<Rightarrow> u16" where
  "cgms_db_num_records_get = slot_db_num_records_get"

definition cgms_db_record_get :: "u8 \<Rightarrow> cgms_record slot_db \<Rightarrow> (s32 + cgms_record) res" where
  "cgms_db_record_get = slot_db_record_get"

definition cgms_db_record_add :: "cgms_record \<Rightarrow> cgms_record slot_db \<Rightarrow> s32 \<times> cgms_record slot_db" where
  "cgms_db_record_add = slot_db_record_add"

definition cgms_db_record_delete :: "u8 \<Rightarrow> cgms_record slot_db \<Rightarrow> (s32 \<times> cgms_record slot_db) res" where
  "cgms_db_record_delete = slot_db_record_delete"

definition cgms_db_record_delete_first :: "cgms_record slot_db \<Rightarrow> s32 \<times> cgms_record slot_db" where
  "cgms_db_record_delete_first = slot_db_record_delete_first"

definition cgms_db_record_delete_last :: "cgms_record slot_db \<Rightarrow> (s32 \<times> cgms_record slot_db) res" where
  "cgms_db_record_delete_last = slot_db_record_delete_last"

definition cgms_db_record_delete_all :: "cgms_record slot_db \<Rightarrow> cgms_record slot_db" where
  "cgms_db_record_delete_all = slot_db_record_delete_all"

lemmas cgms_db_defs = cgms_db_init_def cgms_db_num_records_get_def cgms_db_record_get_def
  cgms_db_record_add_def cgms_db_record_delete_def cgms_db_record_delete_first_def cgms_db_record_delete_last_def
  cgms_db_record_delete_all_def

interpretation cgms_db: record_store db_compact db_contents cgms_db_num_records_get cgms_db_record_get
  cgms_db_record_add cgms_db_record_delete_all
  unfolding cgms_db_defs by (rule slot_db_is_record_store)

section \<open>Client configuration\<close>

definition cgms_cgm_meas_ccc_cfg_changed :: "u16 \<Rightarrow> cgms_state \<Rightarrow> cgms_state" where
  "cgms_cgm_meas_ccc_cfg_changed v =
     upd_vars (\<lambda>g. g\<lparr>cgm_meas_ccc := (if v = BT_GATT_CCC_NOTIFY then 1 else 0)\<rparr>)"

definition cgms_racp_ccc_cfg_changed :: "u16 \<Rightarrow> cgms_state \<Rightarrow> cgms_state" where
  "cgms_racp_ccc_cfg_changed v s = s\<lparr>racp_ccc := (if v = BT_GATT_CCC_INDICATE then 1 else 0)\<rparr>"

definition cgms_cgm_spec_ops_ctrl_point_ccc_cfg_changed :: "u16 \<Rightarrow> cgms_state \<Rightarrow> cgms_state" where
  "cgms_cgm_spec_ops_ctrl_point_ccc_cfg_changed v =
     upd_vars (\<lambda>g. g\<lparr>socp_ccc := (if v = BT_GATT_CCC_INDICATE then 1 else 0)\<rparr>)"

section \<open>Reads\<close>

text \<open>
  The host's \<open>bt_gatt_attr_read\<close> is the parameter \<open>rd\<close>: it gets the requested length, the offset
  and the bytes of the value.
\<close>

definition cgms_cgm_feature_read :: "attr_read \<Rightarrow> cgms_state \<Rightarrow> nat \<Rightarrow> nat \<Rightarrow> int \<times> bytes" where
  "cgms_cgm_feature_read rd s len offset =
     rd len offset (u24_encode (feature_bits (cgm_feature (vars s)))
       @ [cgm_type_sample_location (cgm_feature (vars s))] @ u16_encode (status_crc (cgm_status (vars s))))"

definition cgms_cgm_status_read :: "attr_read \<Rightarrow> cgms_state \<Rightarrow> nat \<Rightarrow> nat \<Rightarrow> int \<times> bytes" where
  "cgms_cgm_status_read rd s len offset =
     rd len offset (u16_encode (status_time_offset (cgm_status (vars s)))
       @ u24_encode (sensor_status (cgm_status (vars s)))
       @ (if crc_supported (vars s) then u16_encode (status_crc (cgm_status (vars s))) else []))"

text \<open>The packed structures as the bytes they occupy (little-endian).\<close>

definition start_time_bytes :: "cgms_cgm_session_start_time \<Rightarrow> bytes" where
  "start_time_bytes t = date_time_encode (session_start_time t) @ [time_zone t, dst_offset t]
     @ u16_encode (start_time_crc t)"

definition start_time_of_bytes :: "bytes \<Rightarrow> cgms_cgm_session_start_time res" where
  "start_time_of_bytes b = rbind (date_time_decode b) (\<lambda>(d, n). rbind (arr_get b 7) (\<lambda>tz.
     rbind (arr_get b 8) (\<lambda>dst. rbind (u16_decode (drop 9 b)) (\<lambda>crc.
     Inr \<lparr>session_start_time = d, time_zone = tz, dst_offset = dst, start_time_crc = crc\<rparr>))))"

definition run_time_bytes :: "cgms_cgm_session_run_time \<Rightarrow> bytes" where
  "run_time_bytes t = u16_encode (run_time_value t) @ u16_encode (run_time_crc t)"

abbreviation (input) "SIZEOF_START_TIME \<equiv> 11 :: nat"

definition cgms_cgm_start_time_read :: "attr_read \<Rightarrow> cgms_state \<Rightarrow> nat \<Rightarrow> nat \<Rightarrow> int \<times> bytes" where
  "cgms_cgm_start_time_read rd s len offset =
     (let size = SIZEOF_START_TIME - 2 + (if crc_supported (vars s) then 2 else 0)
      in rd len offset (take size (start_time_bytes (cgm_session_start_time (vars s)))))"

definition cgms_cgm_run_time_read ::
    "attr_read \<Rightarrow> cgms_state \<Rightarrow> nat \<Rightarrow> nat \<Rightarrow> (int \<times> bytes) \<times> cgms_state" where
  "cgms_cgm_run_time_read rd s len offset =
     (let rt = cgm_session_run_time (vars s);
          rt = (if crc_supported (vars s)
                then rt\<lparr>run_time_crc := crc16_ccitt (u16_encode (run_time_value rt))\<rparr> else rt);
          size = 2 + (if crc_supported (vars s) then 2 else 0)
      in (rd len offset (take size (run_time_bytes rt)),
          upd_vars (\<lambda>g. g\<lparr>cgm_session_run_time := rt\<rparr>) s))"

section \<open>Writing the session start time\<close>

text \<open>
  \<open>buf\<close> holds the received bytes; the handler reads the time zone at its fixed position before it
  looks at the length.
\<close>

definition cgms_cgm_start_time_write :: "bytes \<Rightarrow> u16 \<Rightarrow> cgms_state \<Rightarrow> (int \<times> cgms_state) res" where
  "cgms_cgm_start_time_write buf offset s =
     rbind (arr_get buf 7) (\<lambda>tz.
     if sint tz < - 48 \<or> sint tz > 56 then Inr (BT_GATT_ERR BT_ATT_ERR_OUT_OF_RANGE, s)
     else let stored = start_time_bytes (cgm_session_start_time (vars s));
              end_pos = unat offset + length buf in
     rbind (if crc_supported (vars s) \<and> end_pos = SIZEOF_START_TIME - 2
            then Inr (Some (BT_GATT_ERR CGMS_ERR_MISSING_CRC))
            else if crc_supported (vars s) \<and> end_pos = SIZEOF_START_TIME
            then rbind (u16_decode (drop 9 buf)) (\<lambda>crc.
                 Inr (if crc16_ccitt (take (SIZEOF_START_TIME - 2) stored) \<noteq> crc
                      then Some (BT_GATT_ERR CGMS_ERR_INVALID_CRC) else None))
            else Inr None) (\<lambda>err.
     case err of Some e \<Rightarrow> Inr (e, s)
     | None \<Rightarrow>
         if end_pos > SIZEOF_START_TIME then Inr (BT_GATT_ERR BT_ATT_ERR_INVALID_OFFSET, s)
         else rbind (mem_cpy stored (unat offset) buf (length buf)) (\<lambda>mem.
              rbind (start_time_of_bytes mem) (\<lambda>t.
              Inr (int (length buf), upd_vars (\<lambda>g. g\<lparr>cgm_session_start_time := t\<rparr>) s)))))"

section \<open>The session\<close>

definition cgms_crc_enable :: "bool \<Rightarrow> cgms_state \<Rightarrow> cgms_state" where
  "cgms_crc_enable enable = upd_vars (\<lambda>g. g\<lparr>cgm_feature := (cgm_feature g)\<lparr>feature_bits :=
     (if enable then feature_bits (cgm_feature g) OR CGM_FEAT_E2E_CRC_SUPPORTED
      else feature_bits (cgm_feature g) AND NOT CGM_FEAT_E2E_CRC_SUPPORTED)\<rparr>\<rparr>)"

definition cgmss_timer_start :: "cgms_state \<Rightarrow> cgms_state" where
  "cgmss_timer_start = upd_vars (\<lambda>g. g\<lparr>timer_started := True\<rparr>)"

definition cgm_measurement_delete :: "cgms_state \<Rightarrow> cgms_state" where
  "cgm_measurement_delete s = s\<lparr>db := cgms_db_record_delete_all (db s)\<rparr>"

definition default_start_time :: "cgms_cgm_session_start_time \<Rightarrow> cgms_cgm_session_start_time" where
  "default_start_time t = t\<lparr>session_start_time :=
       \<lparr>year = 2018, month = 4, day = 19, hours = 14, minutes = 42, seconds = 22\<rparr>,
     time_zone := 8 * 4, dst_offset := 0\<rparr>"

definition cgms_set_session_start_time :: "cgms_state \<Rightarrow> cgms_state" where
  "cgms_set_session_start_time s =
     (let t = default_start_time (cgm_session_start_time (vars s));
          t = (if crc_supported (vars s)
               then t\<lparr>start_time_crc := crc16_ccitt (take (SIZEOF_START_TIME - 2) (start_time_bytes t))\<rparr> else t)
      in cgm_measurement_delete (cgmss_timer_start
           (upd_vars (\<lambda>g. g\<lparr>cgm_session_start_time := t, session_run_time := 0\<rparr>) s)))"

section \<open>The specific operations control point\<close>

definition cgms_socp_decode :: "u8 \<Rightarrow> bytes \<Rightarrow> cgm_socp \<Rightarrow> cgm_socp res" where
  "cgms_socp_decode data_len buf v =
     rbind (if data_len > 0 then arr_get buf 0 else Inr 0xFF) (\<lambda>opc.
     if data_len > 1
     then rbind (mem_cpy (socp_operand v) 0 (drop 1 buf) (unat (data_len - 1))) (\<lambda>opd.
          Inr (v\<lparr>socp_opcode := opc, socp_operand_len := data_len - 1, socp_operand := opd\<rparr>))
     else Inr (v\<lparr>socp_opcode := opc, socp_operand_len := 0\<rparr>))"

definition cgms_socp_encode :: "cgms_vars \<Rightarrow> cgm_socp \<Rightarrow> bytes option \<Rightarrow> (u8 \<times> bytes option) res" where
  "cgms_socp_encode g v b = (case b of None \<Rightarrow> Inr (0, None)
     | Some buf \<Rightarrow>
         (let n = unat (socp_operand_len v);
              crc = (if crc_supported g then u16_encode (socp_crc v) else []);
              msg = socp_opcode v # take n (socp_operand v) @ crc in
          if n \<le> length (socp_operand v)
          then rbind (mem_cpy buf 0 msg (length msg)) (\<lambda>buf'. Inr (of_nat (length msg), Some buf'))
          else Inl Out_Of_Bounds))"

definition socp_indicate_rsp :: "cgms_state \<Rightarrow> cgms_state" where
  "socp_indicate_rsp = upd_vars (\<lambda>g. g\<lparr>socp_indicating := 0\<rparr>)"

definition socp_send :: "gatt_env \<Rightarrow> cgm_socp \<Rightarrow> cgms_state \<Rightarrow> cgms_state res" where
  "socp_send env v s =
     (if socp_indicating (vars s) = 0
      then rbind (cgms_socp_encode (vars s) v (Some (replicate (length (socp_buf (vars s))) 0))) (\<lambda>(len, b).
           let buf = the b;
               (r, tr) = bt_gatt_indicate env 16 (take (unat len) buf) (trace s)
           in Inr (upd_vars (\<lambda>g. g\<lparr>socp_buf := buf,
                     socp_indicating := (if r = 0 then 1 else socp_indicating g)\<rparr>) (s\<lparr>trace := tr\<rparr>)))
      else Inr s)"

text \<open>
  The request is a local variable; of its fields only the opcode and the operand length are
  read. The response is built in the global \<open>socp_response\<close>, so bytes of its operand that a
  branch does not set keep their value.
\<close>

definition socp_respond :: "u8 \<Rightarrow> bytes \<Rightarrow> u8 \<Rightarrow> cgm_socp \<Rightarrow> cgm_socp" where
  "socp_respond opc opd n r =
     r\<lparr>socp_opcode := opc, socp_operand := opd @ drop (length opd) (socp_operand r), socp_operand_len := n\<rparr>"

definition socp_execute :: "bytes \<Rightarrow> cgm_socp \<Rightarrow> cgms_state \<Rightarrow> cgms_state res" where
  "socp_execute buf req s =
     (let respond = (\<lambda>opc opd n. upd_vars (\<lambda>g. g\<lparr>socp_response := socp_respond opc opd n (socp_response g)\<rparr>)) in
      if socp_opcode req = SOCP_OPCODE_SET_CGM_COMMUNICATION_INTERVAL
      then if socp_operand_len req = 1
           then rbind (arr_get buf 1) (\<lambda>v.
                Inr (upd_vars (\<lambda>g. g\<lparr>communication_interval := v\<rparr>)
                  (respond SOCP_OPCODE_RESPONSE_CODE
                     [SOCP_OPCODE_SET_CGM_COMMUNICATION_INTERVAL, SOCP_RESPONSE_SUCCESS] 2 s)))
           else Inr (respond SOCP_OPCODE_RESPONSE_CODE [SOCP_RESPONSE_INVALID_OPERAND, SOCP_RESPONSE_SUCCESS] 1 s)
      else if socp_opcode req = SOCP_OPCODE_GET_CGM_COMMUNICATION_INTERVAL
      then Inr (respond SOCP_OPCODE_CGM_COMMUNICATION_INTERVAL_RESPONSE
             [if socp_operand_len req = 0 then communication_interval (vars s)
              else SOCP_RESPONSE_INVALID_OPERAND] 1 s)
      else if socp_opcode req = SOCP_OPCODE_START_THE_SESSION
      then if socp_operand_len req = 0
           then Inr (cgms_set_session_start_time (upd_vars (\<lambda>g. g\<lparr>start_session := True\<rparr>)
                  (respond SOCP_OPCODE_START_THE_SESSION [SOCP_RESPONSE_SUCCESS] 1 s)))
           else Inr (respond SOCP_OPCODE_START_THE_SESSION [SOCP_RESPONSE_INVALID_OPERAND] 1 s)
      else Inr (respond SOCP_OPCODE_RESPONSE_CODE [SOCP_RESPONSE_OPCODE_UNSUPPORTED] 1 s))"

definition socp_add_crc :: "cgms_state \<Rightarrow> cgms_state" where
  "socp_add_crc s =
     (if crc_supported (vars s)
      then upd_vars (\<lambda>g. g\<lparr>socp_response := (socp_response g)\<lparr>socp_crc :=
             crc16_ccitt (socp_opcode (socp_response g) #
               take (unat (socp_operand_len (socp_response g))) (socp_operand (socp_response g)))\<rparr>\<rparr>) s
      else s)"

definition cgms_cgm_spec_ops_ctrl_point_write :: "bytes \<Rightarrow> cgms_state \<Rightarrow> (int \<times> cgms_state) res" where
  "cgms_cgm_spec_ops_ctrl_point_write buf s =
     rbind (cgms_socp_decode (of_nat (length buf)) buf
              \<lparr>socp_opcode = 0, socp_operand = replicate CGM_SOCP_MAX_OPERAND_LEN 0,
               socp_operand_len = 0, socp_crc = 0\<rparr>) (\<lambda>req.
     rbind (socp_execute buf req s) (\<lambda>s'.
     Inr (int (length buf), upd_vars (\<lambda>g. g\<lparr>socp_work_submitted := True\<rparr>) (socp_add_crc s'))))"

definition cgms_socp_handle :: "gatt_env \<Rightarrow> cgms_state \<Rightarrow> cgms_state res" where
  "cgms_socp_handle env s = socp_send env (socp_response (vars s)) s"

section \<open>Measurements\<close>

text \<open>
  \<open>cgms_meas_encode\<close>: the bytes stored in \<open>buf\<close> and the measurement with its updated size and
  checksum. The sensor status octets come from \<open>gatt_cgms.cgm_meas\<close>, not from the argument.
\<close>

definition cgms_meas_body :: "cgms_vars \<Rightarrow> cgms_cgm_measurement \<Rightarrow> bytes" where
  "cgms_meas_body g m =
     [meas_size m, meas_flag m] @ u16_encode (sfloat_pack (cgm_glucose_concentration m))
     @ u16_encode (meas_time_offset m)
     @ (if flag_set (meas_flag (cgm_meas g)) CGM_SENSOR_STAT_ANNU_STAT_OCTET_PRESENT
        then [ucast (sensor_status_annunciation (cgm_meas g) AND 0x000000FF)] else [])
     @ (if flag_set (meas_flag (cgm_meas g)) CGM_SENSOR_STAT_ANNU_CAL_OR_TEMP_OCTET_PRESENT
        then [ucast (drop_bit 8 (sensor_status_annunciation (cgm_meas g) AND 0x0000FF00))] else [])
     @ (if flag_set (meas_flag (cgm_meas g)) CGM_SENSOR_STAT_ANNU_WARNING_OCTET_PRESENT
        then [ucast (drop_bit 16 (sensor_status_annunciation (cgm_meas g) AND 0x00FF0000))] else [])
     @ (if flag_set (meas_flag m) CGM_TREND_INFORMATION_PRESENT
        then u16_encode (sfloat_pack (cgm_trend_information m)) else [])
     @ (if flag_set (meas_flag m) CGM_QUALITY_PRESENT then u16_encode (sfloat_pack (cgm_quality m)) else [])"

definition cgms_meas_encode :: "cgms_vars \<Rightarrow> cgms_cgm_measurement \<Rightarrow> bytes \<times> cgms_cgm_measurement" where
  "cgms_meas_encode g m =
     (let body = cgms_meas_body g m;
          crc = crc16_ccitt body;
          msg = (if crc_supported g then body @ u16_encode crc else body);
          m = (if crc_supported g then m\<lparr>meas_crc := crc\<rparr> else m);
          size = of_nat (length msg)
      in (msg[0 := size], m\<lparr>meas_size := size\<rparr>))"

definition cgm_meas_send :: "gatt_env \<Rightarrow> cgms_record \<Rightarrow> cgms_state \<Rightarrow> s32 \<times> cgms_state" where
  "cgm_meas_send env rec s =
     (let (buf, m) = cgms_meas_encode (vars s) (meas rec);
          (err, tr) = bt_gatt_notify env 2 buf (trace s);
          s = s\<lparr>trace := tr\<rparr>
      in (err, if err \<noteq> 0 then s else s\<lparr>racp_proc_records_reported := racp_proc_records_reported s + 1\<rparr>))"

definition cgm_measurement_simulation :: "cgms_state \<Rightarrow> cgms_state" where
  "cgm_measurement_simulation s =
     (let g = vars s;
          m = (cgm_meas g)\<lparr>meas_flag := CGM_TREND_INFORMATION_PRESENT OR CGM_QUALITY_PRESENT
                 OR CGM_SENSOR_STAT_ANNU_WARNING_OCTET_PRESENT OR CGM_SENSOR_STAT_ANNU_CAL_OR_TEMP_OCTET_PRESENT
                 OR CGM_SENSOR_STAT_ANNU_STAT_OCTET_PRESENT,
               cgm_glucose_concentration := \<lparr>exponent = 0, mantissa = 90\<rparr>,
               meas_time_offset := session_run_time g,
               sensor_status_annunciation := 0x100,
               cgm_trend_information := \<lparr>exponent = 0, mantissa = 3\<rparr>,
               cgm_quality := \<lparr>exponent = 0, mantissa = 4\<rparr>\<rparr>;
          status = ucast (sensor_status_annunciation m AND 0x000000FF) :: u8;
          cal_temp = ucast (drop_bit 8 (sensor_status_annunciation m AND 0x0000FF00)) :: u8;
          warning = ucast (drop_bit 16 (sensor_status_annunciation m AND 0x00FF0000)) :: u8;
          buf = u16_encode (meas_time_offset m) @ [status, cal_temp, warning];
          st = (cgm_status g)\<lparr>status_time_offset := meas_time_offset m,
                 sensor_status := push_bit 16 (ucast warning) OR push_bit 8 (ucast cal_temp) OR ucast status\<rparr>;
          st = (if crc_supported g then st\<lparr>status_crc := crc16_ccitt buf\<rparr> else st)
      in upd_vars (\<lambda>g. g\<lparr>cgm_meas := m, cgm_status := st\<rparr>)
           (s\<lparr>db := snd (cgms_db_record_add \<lparr>meas = m\<rparr> (db s))\<rparr>))"

definition cgm_measurement_notify :: "gatt_env \<Rightarrow> cgms_state \<Rightarrow> cgms_state" where
  "cgm_measurement_notify env s =
     (if cgm_meas_ccc (vars s) \<noteq> 0
      then let (buf, m) = cgms_meas_encode (vars s) (cgm_meas (vars s));
               (err, tr) = bt_gatt_notify env 2 buf (trace s)
           in upd_vars (\<lambda>g. g\<lparr>cgm_meas := m\<rparr>) (s\<lparr>trace := tr\<rparr>)
      else s)"

text \<open>The four statements of \<open>cgms_timer_handler\<close>, in order.\<close>

definition timer_count :: "cgms_state \<Rightarrow> cgms_state" where
  "timer_count = upd_vars (\<lambda>g. g\<lparr>session_run_time := session_run_time g + 1\<rparr>)"

definition timer_simulate :: "cgms_state \<Rightarrow> cgms_state" where
  "timer_simulate s =
     (if session_run_time (vars s) mod 5 = 0 \<and> unat (cgms_db_num_records_get (db s)) < MAX_RECORDS
      then cgm_measurement_simulation s else s)"

definition timer_notify :: "gatt_env \<Rightarrow> cgms_state \<Rightarrow> cgms_state" where
  "timer_notify env s =
     (if communication_interval (vars s) = 0xFF then cgm_measurement_notify env s
      else if communication_interval (vars s) \<noteq> 0 \<and>
              session_run_time (vars s) mod ucast (communication_interval (vars s)) = 0
      then cgm_measurement_notify env s else s)"

definition timer_run_time :: "cgms_state \<Rightarrow> cgms_state" where
  "timer_run_time = upd_vars (\<lambda>g. g\<lparr>cgm_session_run_time :=
     (cgm_session_run_time g)\<lparr>run_time_value := session_run_time g div 60\<rparr>\<rparr>)"

definition cgms_timer_handler :: "gatt_env \<Rightarrow> cgms_state \<Rightarrow> cgms_state" where
  "cgms_timer_handler env s = timer_run_time (timer_notify env (timer_simulate (timer_count s)))"

section \<open>Record access\<close>

definition cgms_ops :: "gatt_env \<Rightarrow> (cgms_record slot_db, cgms_record, cgms_vars) racp_ops" where
  "cgms_ops env = \<lparr>op_num = cgms_db_num_records_get, op_get = cgms_db_record_get,
     op_delete_all = cgms_db_record_delete_all, op_delete_first = cgms_db_record_delete_first,
     op_delete_last = cgms_db_record_delete_last, op_key = (\<lambda>r. meas_time_offset (meas r)),
     op_send = cgm_meas_send env, op_attr = 13, op_env = env\<rparr>"

lemma cgms_ops_simps [simp]:
  "op_num (cgms_ops env) = cgms_db_num_records_get" "op_get (cgms_ops env) = cgms_db_record_get"
  "op_delete_all (cgms_ops env) = cgms_db_record_delete_all"
  "op_delete_first (cgms_ops env) = cgms_db_record_delete_first"
  "op_delete_last (cgms_ops env) = cgms_db_record_delete_last"
  "op_key (cgms_ops env) r = meas_time_offset (meas r)"
  "op_send (cgms_ops env) = cgm_meas_send env" "op_attr (cgms_ops env) = 13" "op_env (cgms_ops env) = env"
  by (simp_all add: cgms_ops_def)

definition cgms_racp_handle :: "gatt_env \<Rightarrow> cgms_state \<Rightarrow> cgms_state res" where
  "cgms_racp_handle env s = racp_handle (cgms_ops env) s"

text \<open>
  The work item up to its first sleep, and its continuation after one; \<open>cgms_racp_handle\<close> is the work item when
  nothing else runs during its sleeps.
\<close>

definition cgms_racp_handle_start :: "gatt_env \<Rightarrow> cgms_state \<Rightarrow> (bool \<times> cgms_state) res" where
  "cgms_racp_handle_start env s = racp_handle_start (cgms_ops env) s"

definition cgms_racp_wake :: "gatt_env \<Rightarrow> cgms_state \<Rightarrow> (bool \<times> cgms_state) res" where
  "cgms_racp_wake env s = racp_wake (cgms_ops env) s"

definition cgms_racp_write :: "bytes \<Rightarrow> cgms_state \<Rightarrow> (int \<times> cgms_state) res" where
  "cgms_racp_write buf s =
     (if racp_ccc s = 0 then Inr (BT_GATT_ERR BT_ATT_ERR_CCC_IMPROPER_CONF, s)
      else rbind (racp_decode (of_nat (length buf)) buf (racp_request s)) (\<lambda>req.
           let s = s\<lparr>racp_request := req\<rparr> in
           if racp_opcode req \<noteq> RACP_OPCODE_ABORT_OPERATION \<and> racp_state s \<noteq> STATE_NO_COMM
           then Inr (BT_GATT_ERR BT_ATT_ERR_PROCEDURE_IN_PROGRESS, s)
           else Inr (int (length buf), s\<lparr>racp_work_submitted := True\<rparr>)))"

section \<open>Initialisation\<close>

text \<open>
  The feature bits are those of patient alerts, sensor malfunction, temperature, result and type
  detection, device fault, multiple sessions, trend and quality.
\<close>

definition cgms_init :: "cgms_state \<Rightarrow> cgms_state" where
  "cgms_init s =
     (let f = (cgm_feature (vars s))\<lparr>feature_bits :=
            0x2 OR 0x40 OR 0x80 OR 0x100 OR 0x400 OR 0x800 OR 0x4000 OR 0x8000 OR 0x10000, cgm_type_sample_location := 0x11\<rparr>;
          f = (if flag_set (feature_bits f) CGM_FEAT_E2E_CRC_SUPPORTED
               then f\<lparr>feature_crc := crc16_ccitt (u32_encode (feature_bits f) @ [cgm_type_sample_location f])\<rparr>
               else f)
      in state_set STATE_NO_COMM
           (upd_vars (\<lambda>g. g\<lparr>cgm_feature := f\<rparr>) (s\<lparr>db := cgms_db_init (db s)\<rparr>)))"

section \<open>Generic facts\<close>

lemma upd_vars_simps [simp]:
  "vars (upd_vars f s) = f (vars s)" "db (upd_vars f s) = db s" "racp_ccc (upd_vars f s) = racp_ccc s"
  "racp_indicating (upd_vars f s) = racp_indicating s" "racp_buf (upd_vars f s) = racp_buf s"
  "racp_request (upd_vars f s) = racp_request s" "racp_state (upd_vars f s) = racp_state s"
  "racp_work_submitted (upd_vars f s) = racp_work_submitted s" "trace (upd_vars f s) = trace s"
  "racp_proc_operator (upd_vars f s) = racp_proc_operator s"
  "racp_proc_record_idx (upd_vars f s) = racp_proc_record_idx s"
  by (simp_all add: upd_vars_def)

lemma upd_vars_twice [simp]: "upd_vars f (upd_vars h s) = upd_vars (f \<circ> h) s"
  by (simp add: upd_vars_def o_def)

lemma ctx_ok_upd_vars [simp]: "ctx_ok invar (upd_vars f s) = ctx_ok invar s"
  by (simp add: ctx_ok_def)

text \<open>The notification that carries a record, when the host accepts it.\<close>

definition cgms_emit :: "cgms_vars \<Rightarrow> cgms_record \<Rightarrow> gatt_call list" where
  "cgms_emit g r = [Notify 2 (fst (cgms_meas_encode g (meas r))) 0]"

lemma cgm_meas_send_accepted:
  "env_accepts env \<Longrightarrow> cgm_meas_send env r s = (0, sent cgms_emit [r] s)"
  by (simp add: cgm_meas_send_def bt_gatt_notify_def env_acceptsD sent_def cgms_emit_def split: prod.split)

lemma cgm_meas_send_eq:
  "cgm_meas_send env r s =
     (let buf = fst (cgms_meas_encode (vars s) (meas r)); err = env_notify env (trace s) 2 buf in
      (err, s\<lparr>trace := trace s @ [Notify 2 buf err], racp_proc_records_reported :=
        (if err = 0 then racp_proc_records_reported s + 1 else racp_proc_records_reported s)\<rparr>))"
  by (simp add: cgm_meas_send_def bt_gatt_notify_def Let_def split: prod.split)

lemma cgms_is_racp_service: "racp_service db_count_ok db_contents (cgms_ops env) (\<lambda>_. True)"
proof (rule racp_service.intro)
  show "record_source db_count_ok db_contents (op_num (cgms_ops env)) (op_get (cgms_ops env))"
    by (simp add: cgms_db_defs slot_db_is_record_source)
  show "racp_service_axioms (cgms_ops env) (\<lambda>_. True)"
    by unfold_locales (simp_all add: cgm_meas_send_eq Let_def)
qed

text \<open>The service provides what the record access procedures need, deletion included.\<close>

interpretation cgms_racp: racp_delete_service db_count_ok db_contents "cgms_ops env" "\<lambda>_. True"
  "\<lambda>d. is_in_use (slots d ! 19)" for env
proof (rule racp_delete_service.intro [OF cgms_is_racp_service], unfold_locales)
  fix d :: "cgms_record slot_db"
  assume d: "db_count_ok d"
  show "db_count_ok (op_delete_all (cgms_ops env) d)" "db_count_ok (snd (op_delete_first (cgms_ops env) d))"
    using d by (simp_all add: cgms_db_defs db_count_ok_reset db_count_ok_delete_first)
  show "is_in_use (slots d ! 19) \<Longrightarrow> \<exists>c d'. op_delete_last (cgms_ops env) d = Inr (c, d') \<and> db_count_ok d'"
    and "\<not> is_in_use (slots d ! 19) \<Longrightarrow> op_delete_last (cgms_ops env) d = Inl Out_Of_Bounds"
    using d by (simp_all add: cgms_db_defs delete_last_in_use delete_last_free)
qed

section \<open>Events\<close>

text \<open>
  The entry points of the service: GATT callbacks, the two work items, the confirmations
  and the timer. A work item runs when it was submitted. Both work items run on the system work
  queue, whose thread is cooperative, so every entry point runs to completion except a report of all
  records, which sleeps after each record. The state of the service is therefore a pair: whether the
  record access work item sleeps, and the variables. While it sleeps no other work item runs, but the
  callbacks and the timer do; \<open>Racp_Wake\<close> is the end of a sleep.
\<close>

datatype cgms_event =
    Meas_Ccc u16 | Racp_Ccc u16 | Socp_Ccc u16
  | Start_Time_Write bytes u16 | Socp_Write bytes | Racp_Write bytes
  | Run_Time_Read nat nat | Racp_Work | Racp_Wake | Socp_Work | Racp_Confirm | Socp_Confirm | Timer_Tick
  | Crc_Enable bool

definition cgms_callback :: "gatt_env \<Rightarrow> attr_read \<Rightarrow> cgms_event \<Rightarrow> cgms_state \<Rightarrow> cgms_state res" where
  "cgms_callback env rd e s = (case e of
     Meas_Ccc v \<Rightarrow> Inr (cgms_cgm_meas_ccc_cfg_changed v s)
   | Racp_Ccc v \<Rightarrow> Inr (cgms_racp_ccc_cfg_changed v s)
   | Socp_Ccc v \<Rightarrow> Inr (cgms_cgm_spec_ops_ctrl_point_ccc_cfg_changed v s)
   | Start_Time_Write buf off \<Rightarrow> rbind (cgms_cgm_start_time_write buf off s) (\<lambda>r. Inr (snd r))
   | Socp_Write buf \<Rightarrow> rbind (cgms_cgm_spec_ops_ctrl_point_write buf s) (\<lambda>r. Inr (snd r))
   | Racp_Write buf \<Rightarrow> rbind (cgms_racp_write buf s) (\<lambda>r. Inr (snd r))
   | Run_Time_Read len off \<Rightarrow> Inr (snd (cgms_cgm_run_time_read rd s len off))
   | Racp_Confirm \<Rightarrow> Inr (racp_indicate_rsp s)
   | Socp_Confirm \<Rightarrow> Inr (socp_indicate_rsp s)
   | Timer_Tick \<Rightarrow> Inr (if timer_started (vars s) then cgms_timer_handler env s else s)
   | Crc_Enable b \<Rightarrow> Inr (cgms_crc_enable b s)
   | _ \<Rightarrow> Inr s)"

definition cgms_event_step ::
    "gatt_env \<Rightarrow> attr_read \<Rightarrow> cgms_event \<Rightarrow> bool \<times> cgms_state \<Rightarrow> (bool \<times> cgms_state) res" where
  "cgms_event_step env rd e sys = (case sys of (asleep, s) \<Rightarrow> (case e of
     Racp_Work \<Rightarrow> if racp_work_submitted s \<and> \<not> asleep
       then cgms_racp_handle_start env (s\<lparr>racp_work_submitted := False\<rparr>) else Inr (asleep, s)
   | Racp_Wake \<Rightarrow> if asleep then cgms_racp_wake env s else Inr (asleep, s)
   | Socp_Work \<Rightarrow> if socp_work_submitted (vars s) \<and> \<not> asleep
       then rbind (cgms_socp_handle env (upd_vars (\<lambda>g. g\<lparr>socp_work_submitted := False\<rparr>) s)) (\<lambda>t. Inr (asleep, t))
       else Inr (asleep, s)
   | _ \<Rightarrow> rbind (cgms_callback env rd e s) (\<lambda>t. Inr (asleep, t))))"

text \<open>The inputs on which a handler stays within its buffers.\<close>

definition start_time_write_safe :: "bytes \<Rightarrow> u16 \<Rightarrow> cgms_state \<Rightarrow> bool" where
  "start_time_write_safe buf off s \<longleftrightarrow> 8 \<le> length buf \<and>
     (- 48 \<le> sint (buf ! 7) \<and> sint (buf ! 7) \<le> 56 \<and> crc_supported (vars s) \<and>
      unat off + length buf = SIZEOF_START_TIME \<longrightarrow> off = 0)"

definition cgms_event_safe :: "cgms_event \<Rightarrow> bool \<times> cgms_state \<Rightarrow> bool" where
  "cgms_event_safe e sys = (case sys of (asleep, s) \<Rightarrow> case e of
     Start_Time_Write buf off \<Rightarrow> start_time_write_safe buf off s
   | Socp_Write buf \<Rightarrow> length buf mod 256 \<le> Suc CGM_SOCP_MAX_OPERAND_LEN
   | Racp_Write buf \<Rightarrow> racp_ccc s = 0 \<or> length buf mod 256 \<le> 8
   | Racp_Work \<Rightarrow> racp_work_submitted s \<and> \<not> asleep \<and> racp_state s = STATE_NO_COMM \<and> delete_last_request s
       \<longrightarrow> is_in_use (slots (db s) ! 19)
   | _ \<Rightarrow> True)"

text \<open>
  The invariant of the variables between two events, the same for an idle service, and the invariant of the
  service: a report that sleeps is one of all records, at an index of the database.
\<close>

definition cgms_mem_ok :: "cgms_state \<Rightarrow> bool" where
  "cgms_mem_ok s \<longleftrightarrow> ctx_ok db_count_ok s \<and>
     length (socp_buf (vars s)) = 11 \<and> length (socp_operand (socp_response (vars s))) = 10 \<and>
     socp_operand_len (socp_response (vars s)) \<le> 2"

definition cgms_ok :: "cgms_state \<Rightarrow> bool" where
  "cgms_ok s \<longleftrightarrow> cgms_mem_ok s \<and> racp_state s = STATE_NO_COMM"

definition cgms_sys_ok :: "bool \<times> cgms_state \<Rightarrow> bool" where
  "cgms_sys_ok sys \<longleftrightarrow> (case sys of (asleep, s) \<Rightarrow> cgms_mem_ok s \<and>
     (asleep \<longrightarrow> racp_proc_operator s = RACP_OPERATOR_ALL \<and> unat (racp_proc_record_idx s) < MAX_RECORDS))"

section \<open>The invariant\<close>

lemma date_time_decode_ok: "7 \<le> length b \<Longrightarrow> \<exists>d. date_time_decode b = Inr (d, 7)"
  by (simp add: date_time_decode_def u16_decode_def arr_get_def del: length_greater_0_conv)

lemma start_time_of_bytes_ok: "length b = 11 \<Longrightarrow> \<exists>t. start_time_of_bytes b = Inr t"
  using date_time_decode_ok [of b]
  by (auto simp: start_time_of_bytes_def u16_decode_def arr_get_def)

lemma start_time_bytes_length [simp]: "length (start_time_bytes t) = 11"
  by (simp add: start_time_bytes_def)

lemma start_time_write_ok:
  assumes "start_time_write_safe buf off s"
  shows "\<exists>r s'. cgms_cgm_start_time_write buf off s = Inr (r, s') \<and>
    (s' = s \<or> (\<exists>t. s' = upd_vars (\<lambda>g. g\<lparr>cgm_session_start_time := t\<rparr>) s))"
proof -
  let ?st = "start_time_bytes (cgm_session_start_time (vars s))"
  from assms have len: "8 \<le> length buf" by (simp add: start_time_write_safe_def)
  have copy: "\<exists>t. rbind (mem_cpy ?st (unat off) buf (length buf)) start_time_of_bytes = Inr t"
    if "unat off + length buf \<le> 11"
    using that start_time_of_bytes_ok [of "take (unat off) ?st @ buf @ drop (unat off + length buf) ?st"]
    by (auto simp: mem_cpy_def)
  have crc: "\<exists>c. u16_decode (drop 9 buf) = Inr c" if "off = 0" "unat off + length buf = 11"
    using that by (simp add: u16_decode_def arr_get_def)
  show ?thesis
  proof (cases "unat off + length buf \<le> 11")
    case True
    from copy [OF True] obtain t mem where "mem_cpy ?st (unat off) buf (length buf) = Inr mem" "start_time_of_bytes mem = Inr t"
      by (auto simp: rbind_eq_Inr)
    then show ?thesis
      using assms len crc
      by (auto simp: cgms_cgm_start_time_write_def start_time_write_safe_def arr_get_def Let_def) blast
  qed (use len in \<open>auto simp: cgms_cgm_start_time_write_def arr_get_def Let_def\<close>)
qed

lemma start_time_write_bad:
  "\<not> start_time_write_safe buf off s \<Longrightarrow> cgms_cgm_start_time_write buf off s = Inl Out_Of_Bounds"
  using unat_eq_zero [of off]
  by (auto simp: cgms_cgm_start_time_write_def start_time_write_safe_def arr_get_def Let_def u16_decode_def)

lemma socp_decode_ok:
  assumes "length (socp_operand v) = 10"
  shows "if length buf mod 256 \<le> 11
    then \<exists>r. cgms_socp_decode (of_nat (length buf)) buf v = Inr r \<and>
       (socp_operand_len r = 1 \<longrightarrow> 1 < length buf)
    else cgms_socp_decode (of_nat (length buf)) buf v = Inl Out_Of_Bounds"
proof -
  let ?n = "of_nat (length buf) :: u8"
  have n: "unat ?n = length buf mod 256" by (simp add: unat_of_nat)
  have le: "length buf mod 256 \<le> length buf" by simp
  have sub: "unat (?n - 1) = length buf mod 256 - 1" if "1 < ?n"
    using that by (simp add: unat_sub word_le_nat_alt word_less_nat_alt n)
  have "cgms_socp_decode ?n buf v = (if length buf mod 256 \<le> 1
     then Inr (v\<lparr>socp_opcode := (if 0 < length buf mod 256 then buf ! 0 else 0xFF), socp_operand_len := 0\<rparr>)
     else rbind (mem_cpy (socp_operand v) 0 (drop 1 buf) (length buf mod 256 - 1)) (\<lambda>opd.
        Inr (v\<lparr>socp_opcode := buf ! 0, socp_operand_len := ?n - 1, socp_operand := opd\<rparr>)))"
    using le sub by (simp add: cgms_socp_decode_def arr_get_def word_less_nat_alt n)
  then show ?thesis using le assms by (auto simp: mem_cpy_def)
qed

lemma cgms_mem_ok_upd_vars:
  "cgms_mem_ok s \<Longrightarrow> (\<And>g. socp_buf (f g) = socp_buf g) \<Longrightarrow> (\<And>g. socp_response (f g) = socp_response g) \<Longrightarrow>
   cgms_mem_ok (upd_vars f s)"
  by (simp add: cgms_mem_ok_def)

lemma socp_respond_ok:
  "length (socp_operand r) = 10 \<Longrightarrow> length opd \<le> 10 \<Longrightarrow> length (socp_operand (socp_respond opc opd n r)) = 10"
  "socp_operand_len (socp_respond opc opd n r) = n"
  by (simp_all add: socp_respond_def)

lemma set_session_start_time_ok: "cgms_mem_ok s \<Longrightarrow> cgms_mem_ok (cgms_set_session_start_time s)"
  by (simp add: cgms_set_session_start_time_def cgm_measurement_delete_def cgmss_timer_start_def cgms_mem_ok_def
      ctx_ok_def cgms_db_defs db_count_ok_reset Let_def)

lemma socp_execute_ok:
  assumes "cgms_mem_ok s" "socp_operand_len req = 1 \<longrightarrow> 1 < length buf"
  shows "\<exists>t. socp_execute buf req s = Inr t \<and> cgms_mem_ok t"
proof -
  have resp: "cgms_mem_ok (upd_vars (\<lambda>g. g\<lparr>socp_response := socp_respond opc opd n (socp_response g)\<rparr>) s)"
    if "length opd \<le> 10" "n \<le> 2" for opc opd n
    using assms(1) that by (simp add: cgms_mem_ok_def socp_respond_ok)
  then show ?thesis
    using assms(2) set_session_start_time_ok
    by (simp add: socp_execute_def Let_def arr_get_def cgms_mem_ok_upd_vars del: upd_vars_twice)
qed

lemma socp_add_crc_ok: "cgms_mem_ok s \<Longrightarrow> cgms_mem_ok (socp_add_crc s)"
  by (simp add: socp_add_crc_def cgms_mem_ok_def)

lemma socp_write_ok:
  assumes "cgms_mem_ok s" "length buf mod 256 \<le> 11"
  shows "\<exists>t. cgms_cgm_spec_ops_ctrl_point_write buf s = Inr (int (length buf), t) \<and> cgms_mem_ok t"
proof -
  let ?v = "\<lparr>socp_opcode = 0, socp_operand = replicate 10 0, socp_operand_len = 0, socp_crc = 0\<rparr>"
  from socp_decode_ok [of ?v buf] assms(2) obtain req where
    req: "cgms_socp_decode (of_nat (length buf)) buf ?v = Inr req" "socp_operand_len req = 1 \<longrightarrow> 1 < length buf" by auto
  from socp_execute_ok [OF assms(1) req(2)] obtain t where "socp_execute buf req s = Inr t" "cgms_mem_ok t" by blast
  with req(1) show ?thesis
    by (simp add: cgms_cgm_spec_ops_ctrl_point_write_def socp_add_crc_ok cgms_mem_ok_upd_vars)
qed

lemma racp_write_ok:
  assumes "cgms_mem_ok s" "racp_ccc s = 0 \<or> length buf mod 256 \<le> 8"
  shows "\<exists>r t. cgms_racp_write buf s = Inr (r, t) \<and> cgms_mem_ok t"
  using racp_decode_ok [of "racp_request s" buf] assms
  by (auto simp: cgms_racp_write_def cgms_mem_ok_def ctx_ok_def Let_def)

lemma socp_handle_ok:
  assumes "cgms_mem_ok s" shows "\<exists>t. cgms_socp_handle env s = Inr t \<and> cgms_mem_ok t"
proof -
  have "unat (socp_operand_len (socp_response (vars s))) \<le> 2"
    using assms by (simp add: cgms_mem_ok_def word_le_nat_alt)
  with assms show ?thesis
    by (auto simp: cgms_socp_handle_def socp_send_def cgms_socp_encode_def mem_cpy_def cgms_mem_ok_def Let_def split: prod.split)
qed

lemma simulation_ok: "cgms_mem_ok s \<Longrightarrow> cgms_mem_ok (cgm_measurement_simulation s)"
  by (simp add: cgm_measurement_simulation_def cgms_mem_ok_def ctx_ok_def cgms_db_defs db_count_ok_add Let_def)

lemma notify_ok: "cgms_mem_ok s \<Longrightarrow> cgms_mem_ok (cgm_measurement_notify env s)"
  by (simp add: cgm_measurement_notify_def bt_gatt_notify_def Let_def cgms_mem_ok_def split: prod.split)

lemma timer_handler_ok: "cgms_mem_ok s \<Longrightarrow> cgms_mem_ok (cgms_timer_handler env s)"
  by (simp add: cgms_timer_handler_def timer_count_def timer_simulate_def timer_notify_def timer_run_time_def
      cgms_mem_ok_upd_vars simulation_ok notify_ok)

lemmas cgms_ok_iff = cgms_ok_def [unfolded cgms_mem_ok_def]

text \<open>What the callbacks leave alone while a report sleeps.\<close>

lemma racp_control_upd_vars [simp]: "racp_control (upd_vars f s) = racp_control s"
  by (simp add: racp_control_def)

lemma timer_control [simp]: "racp_control (cgms_timer_handler env s) = racp_control s"
  by (simp add: cgms_timer_handler_def timer_count_def timer_simulate_def timer_notify_def timer_run_time_def
      cgm_measurement_simulation_def cgm_measurement_notify_def Let_def racp_control_def split: prod.split)

lemma socp_execute_control: "socp_execute buf req s = Inr t \<Longrightarrow> racp_control t = racp_control s"
  by (auto simp: socp_execute_def Let_def rbind_eq_Inr cgms_set_session_start_time_def cgm_measurement_delete_def
      cgmss_timer_start_def racp_control_def split: if_splits)

lemma socp_write_control:
  "cgms_cgm_spec_ops_ctrl_point_write buf s = Inr (r, t) \<Longrightarrow> racp_control t = racp_control s"
  by (auto simp: cgms_cgm_spec_ops_ctrl_point_write_def rbind_eq_Inr socp_add_crc_def dest: socp_execute_control)

lemma socp_handle_control: "cgms_socp_handle env s = Inr t \<Longrightarrow> racp_control t = racp_control s"
  by (auto simp: cgms_socp_handle_def socp_send_def rbind_eq_Inr Let_def racp_control_def split_def split: if_splits)

lemma racp_write_control:
  "cgms_racp_write buf s = Inr (r, t) \<Longrightarrow>
   racp_proc_operator t = racp_proc_operator s \<and> racp_proc_record_idx t = racp_proc_record_idx s"
  by (auto simp: cgms_racp_write_def rbind_eq_Inr Let_def split: if_splits)

lemma callback_control:
  assumes "cgms_callback env rd e s = Inr t" "\<forall>buf. e \<noteq> Racp_Write buf" "e \<noteq> Racp_Confirm"
  shows "racp_control t = racp_control s"
proof (cases e)
  case (Start_Time_Write buf off)
  with assms(1) start_time_write_ok [of buf off s] start_time_write_bad [of buf off s] show ?thesis
    by (cases "start_time_write_safe buf off s") (auto simp: cgms_callback_def)
next
  case (Socp_Write buf)
  with assms(1) show ?thesis by (auto simp: cgms_callback_def rbind_eq_Inr dest: socp_write_control)
next
  case Racp_Ccc
  with assms(1) show ?thesis by (auto simp: cgms_callback_def cgms_racp_ccc_cfg_changed_def racp_control_def)
qed (use assms in \<open>auto simp: cgms_callback_def cgms_cgm_meas_ccc_cfg_changed_def socp_indicate_rsp_def
  cgms_crc_enable_def cgms_cgm_spec_ops_ctrl_point_ccc_cfg_changed_def cgms_cgm_run_time_read_def Let_def\<close>)

lemma callback_sleep:
  assumes "cgms_callback env rd e s = Inr t"
  shows "racp_proc_operator t = racp_proc_operator s \<and> racp_proc_record_idx t = racp_proc_record_idx s"
proof (cases "(\<exists>buf. e = Racp_Write buf) \<or> e = Racp_Confirm")
  case True
  with assms racp_write_control show ?thesis
    by (auto simp: cgms_callback_def rbind_eq_Inr racp_indicate_rsp_def state_set_def)
next
  case False
  with callback_control [OF assms] show ?thesis by (simp add: racp_control_def)
qed

text \<open>Every safe event succeeds and keeps the invariant; every other event is out of bounds.\<close>

lemma callback_ok:
  assumes "cgms_mem_ok s" "cgms_event_safe e (a, s)"
  shows "\<exists>t. cgms_callback env rd e s = Inr t \<and> cgms_mem_ok t"
proof (cases e)
  case (Start_Time_Write buf off)
  with assms(2) start_time_write_ok [of buf off s] assms(1) show ?thesis
    by (auto simp: cgms_callback_def cgms_event_safe_def cgms_mem_ok_upd_vars)
next
  case (Socp_Write buf)
  with assms socp_write_ok [OF assms(1), of buf] show ?thesis
    by (auto simp: cgms_callback_def cgms_event_safe_def)
next
  case (Racp_Write buf)
  with assms racp_write_ok [OF assms(1), of buf] show ?thesis
    by (auto simp: cgms_callback_def cgms_event_safe_def)
next
  case Racp_Confirm
  with assms(1) show ?thesis by (simp add: cgms_callback_def racp_indicate_rsp_def cgms_mem_ok_def)
next
  case Racp_Ccc
  with assms(1) show ?thesis by (simp add: cgms_callback_def cgms_racp_ccc_cfg_changed_def cgms_mem_ok_def)
qed (use assms(1) in \<open>simp_all add: cgms_callback_def cgms_mem_ok_upd_vars timer_handler_ok socp_indicate_rsp_def
  cgms_crc_enable_def cgms_cgm_meas_ccc_cfg_changed_def cgms_cgm_spec_ops_ctrl_point_ccc_cfg_changed_def
  cgms_cgm_run_time_read_def Let_def\<close>)

text \<open>The record access work item and its continuation.\<close>

lemma handle_start_ok:
  assumes "cgms_mem_ok s" "racp_state s = STATE_NO_COMM \<and> delete_last_request s \<longrightarrow> is_in_use (slots (db s) ! 19)"
  shows "\<exists>a t. cgms_racp_handle_start env s = Inr (a, t) \<and> cgms_sys_ok (a, t)"
  using cgms_racp.start_ok [of s env] assms
  by (auto simp: cgms_racp_handle_start_def cgms_mem_ok_def cgms_sys_ok_def)

lemma wake_ok:
  assumes "cgms_sys_ok (True, s)"
  shows "\<exists>a t. cgms_racp_wake env s = Inr (a, t) \<and> cgms_sys_ok (a, t) \<and> racp_request t = racp_request s \<and>
    racp_work_submitted t = racp_work_submitted s \<and> (a \<longrightarrow> racp_proc_record_idx t = racp_proc_record_idx s + 1) \<and>
    (\<not> a \<longrightarrow> racp_state t = STATE_NO_COMM \<or> racp_opcode (racp_request s) \<noteq> RACP_OPCODE_REPORT_RECS)"
proof -
  from assms have s: "ctx_ok db_count_ok s" "racp_proc_operator s = RACP_OPERATOR_ALL" "cgms_mem_ok s"
    by (simp_all add: cgms_sys_ok_def cgms_mem_ok_def)
  from cgms_racp.wake_returns [OF s(1,2), of env] obtain a t where
    t: "cgms_racp_wake env s = Inr (a, t)" "same_request s t"
    "a \<longrightarrow> racp_proc_record_idx t = racp_proc_record_idx s + 1 \<and> unat (racp_proc_record_idx t) < length (db_contents (db s))"
    "\<not> a \<longrightarrow> racp_state t = STATE_NO_COMM \<or> racp_opcode (racp_request s) \<noteq> RACP_OPCODE_REPORT_RECS"
    unfolding cgms_racp_wake_def by blast
  have "length (db_contents (db s)) \<le> MAX_RECORDS" using s(1) cgms_racp.contents_bound by (simp add: ctx_ok_def)
  with t s same_request_ctx_ok [OF t(2), of db_count_ok] show ?thesis
    by (auto simp: cgms_sys_ok_def cgms_mem_ok_def same_request_def)
qed

lemma event_step_ok:
  assumes "cgms_sys_ok sys" "cgms_event_safe e sys"
  shows "\<exists>sys'. cgms_event_step env rd e sys = Inr sys' \<and> cgms_sys_ok sys'"
proof -
  obtain a s where sys: "sys = (a, s)" by fastforce
  with assms have ok: "cgms_sys_ok (a, s)" "cgms_event_safe e (a, s)" "cgms_mem_ok s" by (simp_all add: cgms_sys_ok_def)
  consider "e = Racp_Work" | "e = Racp_Wake" | "e = Socp_Work" | "e \<notin> {Racp_Work, Racp_Wake, Socp_Work}" by blast
  then show ?thesis
  proof cases
    case 1
    let ?s = "s\<lparr>racp_work_submitted := False\<rparr>"
    have "cgms_mem_ok ?s" "delete_last_request ?s = delete_last_request s"
      using ok(3) by (simp_all add: cgms_mem_ok_def delete_last_request_def)
    with 1 ok sys handle_start_ok [of ?s env] show ?thesis
      by (auto simp: cgms_event_step_def cgms_event_safe_def)
  next
    case 2
    show ?thesis
    proof (cases a)
      case True
      with wake_ok [of s env] ok(1) obtain b t where "cgms_racp_wake env s = Inr (b, t)" "cgms_sys_ok (b, t)" by auto
      with 2 sys True show ?thesis by (simp add: cgms_event_step_def)
    qed (use 2 sys ok(1) in \<open>simp add: cgms_event_step_def\<close>)
  next
    case 3
    let ?s = "upd_vars (\<lambda>g. g\<lparr>socp_work_submitted := False\<rparr>) s"
    have "cgms_mem_ok ?s" using ok(3) by (simp add: cgms_mem_ok_upd_vars)
    with socp_handle_ok [of ?s env] obtain t where "cgms_socp_handle env ?s = Inr t" "cgms_mem_ok t" by blast
    with 3 sys ok show ?thesis by (auto simp: cgms_event_step_def cgms_sys_ok_def)
  next
    case 4
    obtain t where t: "cgms_callback env rd e s = Inr t" "cgms_mem_ok t" using callback_ok [OF ok(3,2)] by blast
    have "cgms_event_step env rd e sys = Inr (a, t)" using 4 sys t(1) by (cases e) (auto simp: cgms_event_step_def)
    with ok(1) t callback_sleep [OF t(1)] show ?thesis by (auto simp: cgms_sys_ok_def)
  qed
qed

lemma event_step_bad:
  assumes "cgms_sys_ok sys" "\<not> cgms_event_safe e sys"
  shows "cgms_event_step env rd e sys = Inl Out_Of_Bounds"
proof -
  obtain a s where sys: "sys = (a, s)" by fastforce
  with assms have ok: "cgms_mem_ok s" "\<not> cgms_event_safe e (a, s)" by (simp_all add: cgms_sys_ok_def)
  show ?thesis
  proof (cases e)
    case (Start_Time_Write buf off)
    with ok(2) start_time_write_bad [of buf off s] show ?thesis
      by (simp add: sys cgms_event_step_def cgms_callback_def cgms_event_safe_def)
  next
    case (Socp_Write buf)
    with ok(2) socp_decode_ok [of "\<lparr>socp_opcode = 0, socp_operand = replicate 10 0, socp_operand_len = 0, socp_crc = 0\<rparr>" buf]
    show ?thesis
      by (simp add: sys cgms_event_step_def cgms_callback_def cgms_event_safe_def cgms_cgm_spec_ops_ctrl_point_write_def)
  next
    case (Racp_Write buf)
    with ok racp_decode_ok [of "racp_request s" buf] show ?thesis
      by (simp add: sys cgms_event_step_def cgms_callback_def cgms_event_safe_def cgms_racp_write_def cgms_mem_ok_def ctx_ok_def)
  next
    case Racp_Work
    let ?s = "s\<lparr>racp_work_submitted := False\<rparr>"
    have "ctx_ok db_count_ok ?s" "racp_state ?s = STATE_NO_COMM" "delete_last_request ?s" "\<not> is_in_use (slots (db ?s) ! 19)"
      using ok Racp_Work by (simp_all add: cgms_mem_ok_def delete_last_request_def cgms_event_safe_def)
    from cgms_racp.start_bad [OF this, of env] Racp_Work ok show ?thesis
      by (simp add: sys cgms_event_step_def cgms_event_safe_def cgms_racp_handle_start_def)
  qed (use ok(2) in \<open>simp_all add: cgms_event_safe_def\<close>)
qed

section \<open>Reachable states\<close>

text \<open>Static variables start as zero; the array sizes are those of the declarations.\<close>

definition cgms_boot :: cgms_state where
  "cgms_boot =
     (let z = \<lparr>exponent = 0, mantissa = 0\<rparr>;
          m = \<lparr>meas_size = 0, meas_flag = 0, cgm_glucose_concentration = z, meas_time_offset = 0,
               sensor_status_annunciation = 0, cgm_trend_information = z, cgm_quality = z, meas_crc = 0\<rparr>
      in \<lparr>db = \<lparr>slots = replicate MAX_RECORDS \<lparr>is_in_use = False, entry_record = \<lparr>meas = m\<rparr>\<rparr>, records_num = 0\<rparr>,
          racp_ccc = 0, racp_indicating = 0, racp_buf = replicate CGM_MEAS_MAX_SIZE 0,
          racp_request = \<lparr>racp_opcode = 0, racp_operator = 0, racp_operand_len = 0, racp_operand = replicate 6 0\<rparr>,
          racp_response_code = 0, racp_state = STATE_NO_COMM, racp_proc_operator = 0, racp_proc_filter = 0,
          racp_proc_record_idx = 0, racp_proc_records_reported = 0, racp_work_submitted = False, trace = [],
          \<dots> = \<lparr>cgm_meas = m, cgm_meas_ccc = 0,
            cgm_feature = \<lparr>feature_bits = 0, cgm_type_sample_location = 0, feature_crc = 0\<rparr>,
            cgm_status = \<lparr>status_time_offset = 0, sensor_status = 0, status_crc = 0\<rparr>,
            cgm_session_start_time = \<lparr>session_start_time =
                \<lparr>year = 0, month = 0, day = 0, hours = 0, minutes = 0, seconds = 0\<rparr>,
              time_zone = 0, dst_offset = 0, start_time_crc = 0\<rparr>,
            cgm_session_run_time = \<lparr>run_time_value = 0, run_time_crc = 0\<rparr>, socp_ccc = 0,
            communication_interval = 0, socp_indicating = 0, socp_buf = replicate 11 0, start_session = False,
            socp_response = \<lparr>socp_opcode = 0, socp_operand = replicate 10 0, socp_operand_len = 0, socp_crc = 0\<rparr>,
            session_run_time = 0, socp_work_submitted = False, timer_started = False\<rparr>\<rparr>)"

inductive cgms_reachable :: "gatt_env \<Rightarrow> attr_read \<Rightarrow> bool \<times> cgms_state \<Rightarrow> bool" for env rd where
  reach_init: "cgms_reachable env rd (False, cgms_init cgms_boot)"
| reach_step: "cgms_reachable env rd sys \<Longrightarrow> cgms_event_step env rd e sys = Inr sys' \<Longrightarrow> cgms_reachable env rd sys'"

lemma cgms_init_ok: "cgms_ok (cgms_init cgms_boot)"
  by (simp add: cgms_init_def cgms_boot_def Let_def cgms_ok_iff ctx_ok_def cgms_db_defs db_count_ok_def
      slot_db_init_def in_use_count_def)

lemma reachable_ok: "cgms_reachable env rd sys \<Longrightarrow> cgms_sys_ok sys"
proof (induction rule: cgms_reachable.induct)
  case (reach_step sys e sys')
  with event_step_ok [of sys e env rd] event_step_bad [of sys e env rd] show ?case
    by (cases "cgms_event_safe e sys") auto
qed (use cgms_init_ok in \<open>simp add: cgms_sys_ok_def cgms_ok_def\<close>)



section \<open>Record access\<close>

text \<open>
  C1 (functional). A valid report request sends the records it selects (all, the first,
  the last, or those whose time offset is at least the operand), in database order and nothing
  else, then one indication with the response code: success, or no records found when the
  selection is empty. The database is unchanged and the service idle again. The request is handled without
  another event during the pauses between the records.
\<close>

theorem cgms_report_exact:
  assumes "cgms_ok s" "env_accepts env" "racp_ccc s \<noteq> 0" "racp_indicating s = 0"
    and "racp_opcode (racp_request s) = RACP_OPCODE_REPORT_RECS"
    and "report_request_check (racp_request s) = Inr RACP_RESPONSE_RESERVED"
    and "operand_filter (racp_request s) = Inr flt"
    and "sel = report_select (racp_operator (racp_request s)) flt (\<lambda>r. meas_time_offset (meas r)) (db_contents (db s))"
  shows "\<exists>t. cgms_racp_handle env s = Inr t \<and> db t = db s \<and> racp_state t = STATE_NO_COMM \<and>
    trace t = trace s @ map (\<lambda>r. Notify 2 (fst (cgms_meas_encode (vars s) (meas r))) 0) sel @
      [Indicate 13 [6, 0, 1, if sel = [] then RACP_RESPONSE_NO_RECORDS_FOUND else RACP_RESPONSE_SUCCESS] 0]"
proof -
  have key: "op_key (cgms_ops env) = (\<lambda>r. meas_time_offset (meas r))" by (rule ext) simp
  have live: "\<And>r s. op_send (cgms_ops env) r s = (0, sent cgms_emit [r] s)"
    using assms(2) by (simp add: cgm_meas_send_accepted)
  have m: "concat (map (cgms_emit g) rs) = map (\<lambda>r. Notify 2 (fst (cgms_meas_encode g (meas r))) 0) rs" for g rs
    by (induction rs) (simp_all add: cgms_emit_def)
  show ?thesis
    using cgms_racp.handle_report_trace [where env = env and emit = cgms_emit, OF _ _ assms(5-7,3,4) live]
      assms(1,2,8) by (simp add: cgms_racp_handle_def cgms_ok_iff key env_acceptsD m)
qed

text \<open>
  The number of stored records is answered exactly: the response carries the
  number of records the same operator would report.
\<close>

theorem cgms_count_exact:
  assumes "cgms_ok s" "env_accepts env" "racp_ccc s \<noteq> 0" "racp_indicating s = 0"
    and "racp_opcode (racp_request s) = RACP_OPCODE_REPORT_NUM_RECS"
    and "report_request_check (racp_request s) = Inr RACP_RESPONSE_RESERVED"
    and "operand_filter (racp_request s) = Inr flt"
    and "n = length (report_select (racp_operator (racp_request s)) flt (\<lambda>r. meas_time_offset (meas r)) (db_contents (db s)))"
  shows "\<exists>t. cgms_racp_handle env s = Inr t \<and> n \<le> 20 \<and> db t = db s \<and>
    trace t = trace s @ [Indicate 13 [RACP_OPCODE_NUM_RECS_RESPONSE, RACP_OPERATOR_NULL, of_nat n, 0] 0]"
proof -
  have key: "op_key (cgms_ops env) = (\<lambda>r. meas_time_offset (meas r))" by (rule ext) simp
  have "n \<le> 20" using cgms_racp.select_length [where d = "db s"] assms(1,8) by (simp add: cgms_ok_iff ctx_ok_def)
  then show ?thesis
    using cgms_racp.handle_count [where env = env, OF _ _ assms(5-7)] assms(1-4,8)
    by (simp add: cgms_racp_handle_def cgms_ok_iff key after_response_def env_acceptsD)
qed

text \<open>
  Deleting all records empties the database, answers success exactly when there
  was a record to delete, and a report that follows finds no records.
\<close>

theorem cgms_delete_all:
  assumes "cgms_ok s" "racp_opcode (racp_request s) = RACP_OPCODE_DELETE_RECS"
    and "racp_operator (racp_request s) = RACP_OPERATOR_ALL" "racp_operand_len (racp_request s) = 0"
    and "racp_ccc s \<noteq> 0" "racp_indicating s = 0" "env_accepts env"
  shows "\<exists>t. cgms_racp_handle env s = Inr t \<and> db_contents (db t) = [] \<and> cgms_db_num_records_get (db t) = 0 \<and>
    db_compact (db t) \<and> trace t = trace s @ [Indicate 13 [6, 0, 2,
      if db_contents (db s) = [] then RACP_RESPONSE_NO_RECORDS_FOUND else RACP_RESPONSE_SUCCESS] 0]"
proof -
  have c: "db_count_ok (db s)" "4 \<le> length (racp_buf s)" using assms(1) by (simp_all add: cgms_ok_iff ctx_ok_def)
  have z: "cgms_db_num_records_get (db s) = 0 \<longleftrightarrow> db_contents (db s) = []"
    using cgms_racp.num_contents [OF c(1)] by (metis cgms_ops_simps(1) length_0_conv unat_eq_zero)
  have "db_compact (cgms_db_record_delete_all (db s))" "db_contents (cgms_db_record_delete_all (db s)) = []"
    "cgms_db_num_records_get (cgms_db_record_delete_all (db s)) = 0"
    using c(1) by (simp_all add: cgms_db_defs db_compact_def slot_db_record_delete_all_def db_contents_def
        slot_db_num_records_get_def db_count_ok_def)
  then show ?thesis
    using assms c(2) z
    by (simp add: cgms_racp_handle_def racp_handle_def is_request_to_be_executed_def delete_request_check_def
        delete_records_request_execute_def racp_send_two after_response_def env_acceptsD cgms_ok_iff word_gt_0)
qed

section \<open>A report and the events during its sleeps\<close>

fun cgms_run :: "gatt_env \<Rightarrow> attr_read \<Rightarrow> cgms_event list \<Rightarrow> bool \<times> cgms_state \<Rightarrow> (bool \<times> cgms_state) res" where
  "cgms_run env rd [] sys = Inr sys"
| "cgms_run env rd (e # es) sys = rbind (cgms_event_step env rd e sys) (cgms_run env rd es)"

text \<open>
  The events other than record access control point writes, with the inputs that are safe in every state.
\<close>

definition cgms_quiet :: "cgms_event \<Rightarrow> bool" where
  "cgms_quiet e = (case e of Racp_Write _ \<Rightarrow> False
     | Start_Time_Write buf off \<Rightarrow> 8 \<le> length buf \<and> off = 0
     | Socp_Write buf \<Rightarrow> length buf mod 256 \<le> Suc CGM_SOCP_MAX_OPERAND_LEN
     | _ \<Rightarrow> True)"

text \<open>An idle service, and a report that sleeps with its own opcode still in place.\<close>

definition cgms_settling :: "bool \<times> cgms_state \<Rightarrow> bool" where
  "cgms_settling sys \<longleftrightarrow> cgms_sys_ok sys \<and> (case sys of (asleep, s) \<Rightarrow> \<not> racp_work_submitted s \<and>
     (if asleep then racp_opcode (racp_request s) = RACP_OPCODE_REPORT_RECS else racp_state s = STATE_NO_COMM))"

definition sleeps_left :: "bool \<times> cgms_state \<Rightarrow> nat" where
  "sleeps_left sys = (case sys of (asleep, s) \<Rightarrow> if asleep then MAX_RECORDS - unat (racp_proc_record_idx s) else 0)"

lemma quiet_step:
  assumes "cgms_settling sys" "cgms_quiet e"
  shows "\<exists>sys'. cgms_event_step env rd e sys = Inr sys' \<and> cgms_settling sys' \<and>
    sleeps_left sys' \<le> sleeps_left sys - (if e = Racp_Wake then 1 else 0)"
proof -
  obtain a s where sys: "sys = (a, s)" by fastforce
  have ok: "cgms_sys_ok (a, s)" "\<not> racp_work_submitted s"
    "if a then racp_opcode (racp_request s) = RACP_OPCODE_REPORT_RECS else racp_state s = STATE_NO_COMM"
    using assms(1) by (simp_all add: sys cgms_settling_def)
  have safe: "cgms_event_safe e sys"
    using assms(2) ok(2) by (cases e) (auto simp: sys cgms_quiet_def cgms_event_safe_def start_time_write_safe_def)
  from event_step_ok [of sys e env rd] ok(1) safe sys obtain sys' where
    step: "cgms_event_step env rd e sys = Inr sys'" "cgms_sys_ok sys'" by auto
  consider "e = Racp_Work \<or> e = Racp_Wake \<and> \<not> a" | "e = Racp_Wake" a
    | "e = Racp_Confirm" | "e \<notin> {Racp_Work, Racp_Wake, Racp_Confirm}" by blast
  then show ?thesis
  proof cases
    case 1
    with ok(2) have "cgms_event_step env rd e sys = Inr sys" by (auto simp: sys cgms_event_step_def)
    with 1 assms(1) show ?thesis by (auto simp: sys sleeps_left_def)
  next
    case 2
    from wake_ok [of s env] ok(1) 2 obtain b t where
      t: "cgms_racp_wake env s = Inr (b, t)" "cgms_sys_ok (b, t)" "racp_request t = racp_request s" "\<not> racp_work_submitted t"
      "b \<longrightarrow> racp_proc_record_idx t = racp_proc_record_idx s + 1"
      "\<not> b \<longrightarrow> racp_state t = STATE_NO_COMM \<or> racp_opcode (racp_request s) \<noteq> RACP_OPCODE_REPORT_RECS" using ok(2) by auto
    have idx: "unat (racp_proc_record_idx s) < 20" using ok(1) 2 by (simp add: cgms_sys_ok_def)
    have "unat (racp_proc_record_idx s + 1) = Suc (unat (racp_proc_record_idx s))" using idx by (simp add: unat_inc_u8)
    then show ?thesis
      using 2 t ok(3) idx by (auto simp: sys cgms_event_step_def cgms_settling_def sleeps_left_def)
  next
    case 3
    then have "cgms_event_step env rd e sys = Inr (a, racp_indicate_rsp s)"
      by (simp add: sys cgms_event_step_def cgms_callback_def)
    with 3 step ok show ?thesis
      by (auto simp: sys cgms_settling_def sleeps_left_def racp_indicate_rsp_def state_set_def)
  next
    case 4
    have "\<exists>t. sys' = (a, t) \<and> racp_control t = racp_control s"
    proof (cases "e = Socp_Work")
      case True
      with step(1) show ?thesis
        by (auto simp: sys cgms_event_step_def rbind_eq_Inr split: if_splits dest: socp_handle_control)
    next
      case False
      with 4 step(1) assms(2) have "\<exists>t. sys' = (a, t) \<and> cgms_callback env rd e s = Inr t"
        by (cases e) (auto simp: sys cgms_event_step_def rbind_eq_Inr)
      moreover have "\<forall>buf. e \<noteq> Racp_Write buf" using assms(2) by (auto simp: cgms_quiet_def)
      ultimately show ?thesis using 4 callback_control [of env rd e s] by auto
    qed
    with 4 step ok show ?thesis
      by (auto simp: sys racp_control_def cgms_settling_def sleeps_left_def)
  qed
qed

lemma quiet_run:
  assumes "cgms_settling sys" "\<forall>e\<in>set evs. cgms_quiet e" "sleeps_left sys \<le> count_list evs Racp_Wake"
  shows "\<exists>t. cgms_run env rd evs sys = Inr (False, t) \<and> cgms_ok t"
  using assms
proof (induction evs arbitrary: sys)
  case Nil
  obtain a s where "sys = (a, s)" by fastforce
  with Nil show ?case
    by (auto simp: sleeps_left_def cgms_settling_def cgms_sys_ok_def cgms_ok_def split: if_splits)
next
  case (Cons e evs)
  from quiet_step [of sys e env rd] Cons.prems obtain sys' where
    s': "cgms_event_step env rd e sys = Inr sys'" "cgms_settling sys'"
    "sleeps_left sys' \<le> sleeps_left sys - (if e = Racp_Wake then 1 else 0)" by auto
  with Cons.prems(3) have "sleeps_left sys' \<le> count_list evs Racp_Wake" by (auto split: if_splits)
  with Cons.IH [OF s'(2)] Cons.prems(2) s'(1) show ?case by simp
qed


text \<open>
  A write that is neither a report request nor an abort, while a report sleeps: it is refused as a procedure
  is in progress, but its opcode has replaced the one of the report, which therefore stops at the end of its
  sleep without a response and with the procedure still active.
\<close>

theorem cgms_write_strands_report:
  assumes "cgms_sys_ok (True, s)" "racp_state s = STATE_RACP_PROC_ACTIVE" "racp_ccc s \<noteq> 0"
    and "racp_decode (of_nat (length buf)) buf (racp_request s) = Inr req"
    and "racp_opcode req \<noteq> RACP_OPCODE_REPORT_RECS" "racp_opcode req \<noteq> RACP_OPCODE_ABORT_OPERATION"
  shows "cgms_racp_write buf s = Inr (BT_GATT_ERR BT_ATT_ERR_PROCEDURE_IN_PROGRESS, s\<lparr>racp_request := req\<rparr>) \<and>
    (\<exists>t. cgms_run env rd [Racp_Write buf, Racp_Wake] (True, s) = Inr (False, t) \<and>
       racp_state t = STATE_RACP_PROC_ACTIVE \<and> trace t = trace s)"
  using assms
  by (simp add: cgms_racp_write_def cgms_event_step_def cgms_callback_def cgms_racp_wake_def racp_wake_def
      report_return_def report_until_sleep_def c_while_unfold [of _ "report_pass _"] report_pass_def)

section \<open>A session over time\<close>

lemma simulation_adds:
  "\<exists>r. db (cgm_measurement_simulation s) = snd (cgms_db_record_add r (db s)) \<and>
     meas_time_offset (meas r) = session_run_time (vars s)"
  by (rule exI [where x = "\<lparr>meas = cgm_meas (vars (cgm_measurement_simulation s))\<rparr>"])
     (simp add: cgm_measurement_simulation_def Let_def)

lemma simulation_run_time [simp]:
  "session_run_time (vars (cgm_measurement_simulation s)) = session_run_time (vars s)"
  by (simp add: cgm_measurement_simulation_def Let_def)

lemma notify_frame [simp]:
  "db (cgm_measurement_notify env s) = db s"
  "session_run_time (vars (cgm_measurement_notify env s)) = session_run_time (vars s)"
  by (simp_all add: cgm_measurement_notify_def Let_def split: prod.split)

lemma timer_parts [simp]:
  "session_run_time (vars (timer_count s)) = session_run_time (vars s) + 1" "db (timer_count s) = db s"
  "session_run_time (vars (timer_simulate s)) = session_run_time (vars s)"
  "session_run_time (vars (timer_notify env s)) = session_run_time (vars s)" "db (timer_notify env s) = db s"
  "session_run_time (vars (timer_run_time s)) = session_run_time (vars s)" "db (timer_run_time s) = db s"
  by (simp_all add: timer_count_def timer_simulate_def timer_notify_def timer_run_time_def)

lemma tick_run_time: "session_run_time (vars (cgms_timer_handler env s)) = session_run_time (vars s) + 1"
  by (simp add: cgms_timer_handler_def)

lemma tick_db:
  "\<exists>r. db (cgms_timer_handler env s) =
     (if (session_run_time (vars s) + 1) mod 5 = 0 \<and> unat (cgms_db_num_records_get (db s)) < MAX_RECORDS
      then snd (cgms_db_record_add r (db s)) else db s) \<and> meas_time_offset (meas r) = session_run_time (vars s) + 1"
proof -
  let ?s = "timer_count s"
  obtain r where r: "db (cgm_measurement_simulation ?s) = snd (cgms_db_record_add r (db ?s))"
    "meas_time_offset (meas r) = session_run_time (vars ?s)" using simulation_adds by blast
  then show ?thesis by (intro exI [of _ r]) (simp add: cgms_timer_handler_def timer_simulate_def)
qed

lemma tick_due: "Suc n < 65536 \<Longrightarrow> ((of_nat n + 1 :: u16) mod 5 = 0) \<longleftrightarrow> Suc n mod 5 = 0"
  by (simp add: word_unat_eq_iff unat_mod unat_word_ariths unat_of_nat)

lemma set_session_start_time_frame:
  "db (cgms_set_session_start_time s) = cgms_db_record_delete_all (db s)"
  "session_run_time (vars (cgms_set_session_start_time s)) = 0"
  by (simp_all add: cgms_set_session_start_time_def cgm_measurement_delete_def cgmss_timer_start_def Let_def)

text \<open>
  After a session start and \<open>n\<close> ticks of the one-second timer (before the 16-bit run
  time wraps), the database holds one record for every fifth tick, up to its capacity, in order
  and with that tick as its time offset, whatever the host answered to the notifications.
\<close>

theorem cgms_session_records:
  assumes "cgms_ok s" "n < 65536"
    and "t = (cgms_timer_handler env ^^ n) (cgms_set_session_start_time s)"
  shows "session_run_time (vars t) = of_nat n \<and> db_compact (db t) \<and>
    map (\<lambda>r. meas_time_offset (meas r)) (db_contents (db t)) = map (\<lambda>i. of_nat (5 * Suc i)) [0..<min 20 (n div 5)]"
  using assms(2) unfolding assms(3)
proof (induction n)
  case 0
  have "length (slots (db s)) = 20" using assms(1) by (simp add: cgms_ok_iff ctx_ok_def db_count_ok_def)
  then show ?case
    by (simp add: set_session_start_time_frame cgms_db_defs slot_db_record_delete_all_def db_compact_def db_contents_def)
next
  case (Suc n)
  define u where "u = (cgms_timer_handler env ^^ n) (cgms_set_session_start_time s)"
  have IH: "session_run_time (vars u) = of_nat n" "db_compact (db u)"
    "map (\<lambda>r. meas_time_offset (meas r)) (db_contents (db u)) = map (\<lambda>i. of_nat (5 * Suc i)) [0..<min 20 (n div 5)]"
    using Suc by (simp_all add: u_def)
  have len: "length (db_contents (db u)) = min 20 (n div 5)" using arg_cong [OF IH(3), of length] by simp
  with cgms_db.num_contents [OF IH(2)] have num: "unat (cgms_db_num_records_get (db u)) = min 20 (n div 5)" by simp
  from tick_db [of env u] obtain r where r: "meas_time_offset (meas r) = of_nat n + 1"
    "db (cgms_timer_handler env u) = (if Suc n mod 5 = 0 \<and> min 20 (n div 5) < 20 then snd (cgms_db_record_add r (db u)) else db u)"
    using IH(1) tick_due [OF Suc.prems] num by auto
  have "db_compact (db (cgms_timer_handler env u)) \<and>
    map (\<lambda>r. meas_time_offset (meas r)) (db_contents (db (cgms_timer_handler env u))) =
      map (\<lambda>i. of_nat (5 * Suc i)) [0..<min 20 (Suc n div 5)]"
  proof (cases "Suc n mod 5 = 0 \<and> n div 5 < 20")
    case True
    then have d: "Suc n div 5 = Suc (n div 5)" and m: "min 20 (n div 5) = n div 5" by (simp_all add: div_Suc)
    have n: "5 * Suc (n div 5) = Suc n" unfolding d [symmetric] using True by (metis dvd_eq_mod_eq_0 dvd_mult_div_cancel)
    then have off: "meas_time_offset (meas r) = of_nat (5 * Suc (n div 5))" using r(1) unfolding n by simp
    have "min 20 (Suc n div 5) = Suc (n div 5)" using True d by simp
    then show ?thesis
      using cgms_db.add_contents [OF IH(2), of r] True len r(2) m IH(3) off
      by (simp del: of_nat_mult of_nat_Suc mult_Suc_right)
  next
    case False
    then have "min 20 (Suc n div 5) = min 20 (n div 5)" by (auto simp: div_Suc)
    with False r(2) IH(2,3) show ?thesis by (auto split: if_splits)
  qed
  then show ?case using IH(1) by (simp add: tick_run_time flip: u_def)
qed

theorem cgms_session_records_witness:
  "map (\<lambda>r. meas_time_offset (meas r))
     (db_contents (db ((cgms_timer_handler env_always_ok ^^ 12) (cgms_set_session_start_time (cgms_init cgms_boot))))) = [5, 10]"
  using cgms_session_records [OF cgms_init_ok _ refl, of 12 env_always_ok] by (simp add: upt_rec)

section \<open>The specific operations control point\<close>

lemma socp_write_small:
  assumes "length buf \<le> 2" "buf \<noteq> []"
  shows "cgms_cgm_spec_ops_ctrl_point_write buf s =
    rbind (socp_execute buf \<lparr>socp_opcode = hd buf, socp_operand = tl buf @ replicate (10 - length (tl buf)) 0,
             socp_operand_len = of_nat (length (tl buf)), socp_crc = 0\<rparr> s)
      (\<lambda>s'. Inr (int (length buf), upd_vars (\<lambda>g. g\<lparr>socp_work_submitted := True\<rparr>) (socp_add_crc s')))"
proof -
  obtain a where "buf = [a] \<or> (\<exists>b. buf = [a, b])" using assms by (cases buf; cases "tl buf") auto
  then show ?thesis
    by (auto simp: cgms_cgm_spec_ops_ctrl_point_write_def cgms_socp_decode_def arr_get_def mem_cpy_def)
qed

text \<open>The indication that carries a response, and the state after it.\<close>

definition socp_message :: "cgms_vars \<Rightarrow> bytes \<Rightarrow> bytes" where
  "socp_message g msg = msg @ (if crc_supported g then u16_encode (crc16_ccitt msg) else [])"

lemma socp_handle_sends:
  assumes "socp_indicating (vars s) = 0" "length (socp_buf (vars s)) = 11" "env_accepts env"
    and "socp_response (vars s) = r" "socp_operand_len r = of_nat (length opd)" "length opd \<le> 2"
    and "take (length opd) (socp_operand r) = opd" "length (socp_operand r) = 10"
    and "crc_supported (vars s) \<longrightarrow> socp_crc r = crc16_ccitt (socp_opcode r # opd)"
  shows "\<exists>t. cgms_socp_handle env s = Inr t \<and> length (socp_buf (vars t)) = 11 \<and> socp_response (vars t) = r \<and>
    communication_interval (vars t) = communication_interval (vars s) \<and> cgm_feature (vars t) = cgm_feature (vars s) \<and>
    trace t = trace s @ [Indicate 16 (socp_message (vars s) (socp_opcode r # opd)) 0]"
proof -
  have n: "unat (socp_operand_len r) = length opd" using assms(5,6) by (simp add: unat_of_nat)
  have l: "unat (of_nat k :: u8) = k" if "k \<le> 5" for k using that by (simp add: unat_of_nat)
  let ?m = "socp_message (vars s) (socp_opcode r # opd)"
  have "cgms_socp_encode (vars s) r (Some (replicate 11 0)) = Inr (of_nat (length ?m), Some (?m @ replicate (11 - length ?m) 0))"
    using assms(6-9) n by (simp add: cgms_socp_encode_def socp_message_def mem_cpy_def Let_def)
  moreover have "length ?m \<le> 5" using assms(6) by (simp add: socp_message_def)
  ultimately show ?thesis
    using assms(1-4) l [of "length ?m"]
    by (simp add: cgms_socp_handle_def socp_send_def bt_gatt_indicate_def env_acceptsD del: of_nat_Suc)
qed

lemma socp_set_interval:
  assumes "length (socp_operand (socp_response (vars s))) = 10"
  shows "\<exists>t. cgms_cgm_spec_ops_ctrl_point_write [SOCP_OPCODE_SET_CGM_COMMUNICATION_INTERVAL, v] s = Inr (2, t) \<and>
    trace t = trace s \<and> vars t = (vars s)\<lparr>communication_interval := v, socp_response := socp_response (vars t), socp_work_submitted := True\<rparr> \<and>
    socp_opcode (socp_response (vars t)) = 28 \<and> socp_operand_len (socp_response (vars t)) = 2 \<and> take (Suc (Suc 0)) (socp_operand (socp_response (vars t))) = [1, 1] \<and> length (socp_operand (socp_response (vars t))) = 10 \<and>
    (crc_supported (vars s) \<longrightarrow> socp_crc (socp_response (vars t)) = crc16_ccitt [28, 1, 1])"
  using assms
  by (simp add: socp_write_small socp_execute_def arr_get_def socp_respond_def socp_add_crc_def crc_supported_def)

lemma socp_get_interval:
  assumes "length (socp_operand (socp_response (vars s))) = 10"
  shows "\<exists>t. cgms_cgm_spec_ops_ctrl_point_write [SOCP_OPCODE_GET_CGM_COMMUNICATION_INTERVAL] s = Inr (1, t) \<and>
    trace t = trace s \<and> vars t = (vars s)\<lparr>socp_response := socp_response (vars t), socp_work_submitted := True\<rparr> \<and>
    socp_opcode (socp_response (vars t)) = 3 \<and> socp_operand_len (socp_response (vars t)) = 1 \<and> take (Suc 0) (socp_operand (socp_response (vars t))) = [communication_interval (vars s)] \<and>
    length (socp_operand (socp_response (vars t))) = 10 \<and> (crc_supported (vars s) \<longrightarrow> socp_crc (socp_response (vars t)) = crc16_ccitt [3, communication_interval (vars s)])"
  using assms
  by (simp add: socp_write_small socp_execute_def arr_get_def socp_respond_def socp_add_crc_def crc_supported_def)

text \<open>
  Setting the communication interval and then asking for it: the first write
  is answered with success, and the second, once the client has confirmed, with the value that
  was set. Each answer carries the checksum when the service supports it.
\<close>

theorem socp_interval_roundtrip:
  assumes "cgms_ok s" "env_accepts env" "socp_indicating (vars s) = 0"
  shows "\<exists>s1 s2 s3 s4. cgms_cgm_spec_ops_ctrl_point_write [SOCP_OPCODE_SET_CGM_COMMUNICATION_INTERVAL, v] s = Inr (2, s1) \<and>
    cgms_socp_handle env s1 = Inr s2 \<and>
    cgms_cgm_spec_ops_ctrl_point_write [SOCP_OPCODE_GET_CGM_COMMUNICATION_INTERVAL] (socp_indicate_rsp s2) = Inr (1, s3) \<and>
    cgms_socp_handle env s3 = Inr s4 \<and> communication_interval (vars s4) = v \<and>
    trace s4 = trace s @
      [Indicate 16 (socp_message (vars s) [28, 1, 1]) 0, Indicate 16 (socp_message (vars s) [3, v]) 0]"
proof -
  have len: "length (socp_buf (vars s)) = 11" "length (socp_operand (socp_response (vars s))) = 10"
    using assms(1) by (simp_all add: cgms_ok_iff)
  from socp_set_interval [OF len(2), of v] obtain s1 where s1':
    "cgms_cgm_spec_ops_ctrl_point_write [1, v] s = Inr (2, s1)" "trace s1 = trace s"
    "vars s1 = (vars s)\<lparr>communication_interval := v, socp_response := socp_response (vars s1), socp_work_submitted := True\<rparr>"
    and r': "socp_opcode (socp_response (vars s1)) = 28" "socp_operand_len (socp_response (vars s1)) = 2"
    "take (Suc (Suc 0)) (socp_operand (socp_response (vars s1))) = [1, 1]" "length (socp_operand (socp_response (vars s1))) = 10"
    "crc_supported (vars s) \<longrightarrow> socp_crc (socp_response (vars s1)) = crc16_ccitt [28, 1, 1]" by blast
  define r where "r = socp_response (vars s1)"
  have s1: "cgms_cgm_spec_ops_ctrl_point_write [1, v] s = Inr (2, s1)" "trace s1 = trace s"
    "vars s1 = (vars s)\<lparr>communication_interval := v, socp_response := r, socp_work_submitted := True\<rparr>"
    unfolding r_def by (fact s1')+
  note r = r' [folded r_def]
  have msg: "socp_message (vars s1) m = socp_message (vars s) m" "crc_supported (vars s1) = crc_supported (vars s)" for m
    using s1(3) by (simp_all add: socp_message_def crc_supported_def)
  obtain s2 where s2: "cgms_socp_handle env s1 = Inr s2" "length (socp_buf (vars s2)) = 11" "socp_response (vars s2) = r"
    "communication_interval (vars s2) = v" "cgm_feature (vars s2) = cgm_feature (vars s)"
    "trace s2 = trace s @ [Indicate 16 (socp_message (vars s) [28, 1, 1]) 0]"
    using socp_handle_sends [of s1 env r "[1, 1]"] s1 r len(1) assms(2,3) msg by auto
  let ?c = "socp_indicate_rsp s2"
  have c: "vars ?c = (vars s2)\<lparr>socp_indicating := 0\<rparr>" "trace ?c = trace s2" by (simp_all add: socp_indicate_rsp_def)
  from socp_get_interval [of ?c] c s2(3,4) r(4) obtain s3 where s3':
    "cgms_cgm_spec_ops_ctrl_point_write [2] ?c = Inr (1, s3)" "trace s3 = trace s2"
    "vars s3 = (vars s2)\<lparr>socp_indicating := 0, socp_response := socp_response (vars s3), socp_work_submitted := True\<rparr>"
    and q': "socp_opcode (socp_response (vars s3)) = 3" "socp_operand_len (socp_response (vars s3)) = 1"
    "take (Suc 0) (socp_operand (socp_response (vars s3))) = [v]" "length (socp_operand (socp_response (vars s3))) = 10"
    "crc_supported (vars ?c) \<longrightarrow> socp_crc (socp_response (vars s3)) = crc16_ccitt [3, v]" by auto
  define q where "q = socp_response (vars s3)"
  have s3: "cgms_cgm_spec_ops_ctrl_point_write [2] ?c = Inr (1, s3)" "trace s3 = trace s2"
    "vars s3 = (vars s2)\<lparr>socp_indicating := 0, socp_response := q, socp_work_submitted := True\<rparr>"
    unfolding q_def by (fact s3')+
  note q = q' [folded q_def]
  have msg: "socp_message (vars s3) m = socp_message (vars s) m" "crc_supported (vars s3) = crc_supported (vars ?c)" for m
    using s3(3) s2(5) c(1) by (simp_all add: socp_message_def crc_supported_def)
  from socp_handle_sends [of s3 env q "[v]"] s3 q s2 assms(2) msg obtain s4 where
    "cgms_socp_handle env s3 = Inr s4" "communication_interval (vars s4) = v"
    "trace s4 = trace s @ [Indicate 16 (socp_message (vars s) [28, 1, 1]) 0, Indicate 16 (socp_message (vars s) [3, v]) 0]"
    by auto
  with s1(1) s2(1) s3(1) show ?thesis by blast
qed

lemma start_time_of_bytes_inverse:
  assumes "length b = 11" "start_time_of_bytes b = Inr t" shows "start_time_bytes t = b"
proof -
  obtain b0 b1 b2 b3 b4 b5 b6 b7 b8 b9 b10 where "b = [b0, b1, b2, b3, b4, b5, b6, b7, b8, b9, b10]"
    using assms(1) by (auto simp: length_Suc_conv eval_nat_numeral)
  with assms(2) show ?thesis
    by (auto simp: start_time_of_bytes_def date_time_decode_def u16_decode_def arr_get_def start_time_bytes_def
        date_time_encode_def)
qed

text \<open>
  A session start time of nine bytes with a time zone in range, written while the checksum is not
  supported, is what a later read returns.
\<close>

theorem start_time_roundtrip:
  assumes "\<not> crc_supported (vars s)" "length buf = 9" "- 48 \<le> sint (buf ! 7)" "sint (buf ! 7) \<le> 56"
  shows "\<exists>t. cgms_cgm_start_time_write buf 0 s = Inr (9, t) \<and>
    (\<forall>rd len off. cgms_cgm_start_time_read rd t len off = rd len off buf)"
proof -
  let ?old = "start_time_bytes (cgm_session_start_time (vars s))"
  obtain t where t: "start_time_of_bytes (buf @ drop 9 ?old) = Inr t"
    using start_time_of_bytes_ok [of "buf @ drop 9 ?old"] assms(2) by auto
  then have "start_time_bytes t = buf @ drop 9 ?old" using start_time_of_bytes_inverse [OF _ t] assms(2) by simp
  then show ?thesis
    using assms t
    by (simp add: cgms_cgm_start_time_write_def cgms_cgm_start_time_read_def arr_get_def mem_cpy_def Let_def
        crc_supported_def)
qed

section \<open>Measurement messages\<close>

lemma meas_body_length: "6 \<le> length (cgms_meas_body g m) \<and> length (cgms_meas_body g m) \<le> 13"
  by (simp add: cgms_meas_body_def)

text \<open>
  An encoded measurement fits the 18-byte buffer its senders give it, its first byte is its length,
  and the length is recorded in the measurement.
\<close>

theorem cgms_meas_encode_fits:
  assumes "(msg, m') = cgms_meas_encode g m"
  shows "length msg \<le> CGM_MEAS_MAX_SIZE \<and> unat (hd msg) = length msg \<and> meas_size m' = hd msg"
proof -
  have "length msg \<le> 15" "msg \<noteq> []" "hd msg = of_nat (length msg)" "meas_size m' = of_nat (length msg)"
    using assms meas_body_length [of g m]
    by (cases "cgms_meas_body g m"; auto simp: cgms_meas_encode_def Let_def split: if_splits)+
  then show ?thesis by (simp add: unat_of_nat)
qed

text \<open>
  The checksum is computed before the size byte is stored. A measurement whose recorded size is not
  yet the length of its message is therefore sent with a checksum that does not match the message.
\<close>

theorem cgms_meas_crc_mismatch:
  assumes "crc_supported g" "(msg, m') = cgms_meas_encode g m" "meas_size m \<noteq> of_nat (length msg)"
  shows "drop (length msg - 2) msg \<noteq> u16_encode (crc16_ccitt (take (length msg - 2) msg))"
proof -
  let ?b = "cgms_meas_body g m"
  obtain rest where b: "?b = meas_size m # rest" by (simp add: cgms_meas_body_def)
  have msg: "msg = (of_nat (length msg) # rest) @ u16_encode (crc16_ccitt ?b)"
    using assms(1,2) by (simp add: cgms_meas_encode_def Let_def b)
  then have len: "length msg - 2 = Suc (length rest)" by (metis add_diff_cancel_right' encode_lengths(1) length_Cons length_append)
  have parts: "drop (length msg - 2) msg = u16_encode (crc16_ccitt ?b)" "take (length msg - 2) msg = of_nat (length msg) # rest"
    using msg unfolding len by (metis append_eq_conv_conj length_Cons)+
  show ?thesis
    unfolding parts u16_encode_inj using crc16_one_byte [of "[]" "meas_size m" rest "of_nat (length msg)"] assms(3) b by auto
qed

section \<open>Concrete states\<close>

text \<open>A state with the records \<open>rs\<close> stored, a client that wants indications and a pending request.\<close>

definition cgms_pending :: "u8 \<Rightarrow> u8 \<Rightarrow> u8 \<Rightarrow> bytes \<Rightarrow> cgms_record list \<Rightarrow> cgms_state" where
  "cgms_pending opc opr n opd rs =
     (cgms_init cgms_boot)\<lparr>racp_ccc := 1,
        racp_request := \<lparr>racp_opcode = opc, racp_operator = opr, racp_operand_len = n, racp_operand = opd\<rparr>,
        db := fold (\<lambda>r. snd \<circ> cgms_db_record_add r) rs (db (cgms_init cgms_boot))\<rparr>"

definition demo_record :: "u16 \<Rightarrow> cgms_record" where
  "demo_record t = \<lparr>meas = (cgm_meas (vars cgms_boot))\<lparr>meas_time_offset := t\<rparr>\<rparr>"

lemma boot_db: "db_compact (db (cgms_init cgms_boot))" "db_contents (db (cgms_init cgms_boot)) = []"
  by (simp_all add: cgms_init_def cgms_boot_def Let_def cgms_db_defs slot_db_init_def db_compact_def db_contents_def)

lemma pending_db:
  assumes "length rs \<le> 20"
  shows "db_contents (db (cgms_pending opc opr n opd rs)) = rs \<and> db_count_ok (db (cgms_pending opc opr n opd rs))"
  using cgms_db.fold_add_contents [OF boot_db(1), of rs] boot_db(2) assms
  by (simp add: cgms_pending_def compact_count_ok)

lemma pending_ok: "length rs \<le> 20 \<Longrightarrow> length opd = 6 \<Longrightarrow> cgms_ok (cgms_pending opc opr n opd rs)"
  using cgms_init_ok pending_db [of rs opc opr n opd] by (simp add: cgms_ok_iff ctx_ok_def) (simp add: cgms_pending_def)

lemma pending_simps [simp]:
  "racp_request (cgms_pending opc opr n opd rs) = \<lparr>racp_opcode = opc, racp_operator = opr, racp_operand_len = n, racp_operand = opd\<rparr>"
  "racp_ccc (cgms_pending opc opr n opd rs) = 1" "racp_indicating (cgms_pending opc opr n opd rs) = 0"
  "trace (cgms_pending opc opr n opd rs) = []"
  "vars (cgms_pending opc opr n opd rs) = vars (cgms_init cgms_boot)"
  by (simp_all add: cgms_pending_def cgms_init_def cgms_boot_def Let_def)

theorem cgms_report_exact_witness:
  "\<exists>t. cgms_racp_handle env_always_ok (cgms_pending 1 3 3 [1, 10, 0, 0, 0, 0] (map demo_record [5, 10, 15])) = Inr t \<and>
     trace t = map (\<lambda>r. Notify 2 (fst (cgms_meas_encode (vars (cgms_init cgms_boot)) (meas r))) 0) (map demo_record [10, 15])
       @ [Indicate 13 [6, 0, 1, 1] 0]"
  using cgms_report_exact [of "cgms_pending 1 3 3 [1, 10, 0, 0, 0, 0] (map demo_record [5, 10, 15])" env_always_ok 10,
      OF pending_ok env_always_ok_accepts _ _ _ _ _ refl]
    pending_db [of "map demo_record [5, 10, 15]" 1 3 3 "[1, 10, 0, 0, 0, 0]"]
  by (auto simp: report_request_check_def operand_filter_def arr_get_def report_select_def demo_record_def)

theorem cgms_count_exact_witness:
  "\<exists>t. cgms_racp_handle env_always_ok (cgms_pending 4 1 0 [0, 0, 0, 0, 0, 0] (map demo_record [5, 10, 15])) = Inr t \<and>
     trace t = [Indicate 13 [5, 0, 3, 0] 0]"
  using cgms_count_exact [of "cgms_pending 4 1 0 [0, 0, 0, 0, 0, 0] (map demo_record [5, 10, 15])" env_always_ok 0,
      OF pending_ok env_always_ok_accepts _ _ _ _ _ refl]
    pending_db [of "map demo_record [5, 10, 15]" 4 1 0 "[0, 0, 0, 0, 0, 0]"]
  by (auto simp: report_request_check_def operand_filter_def arr_get_def report_select_def)


theorem cgms_delete_all_witness:
  "\<exists>t. cgms_racp_handle env_always_ok (cgms_pending 2 1 0 [0, 0, 0, 0, 0, 0] [demo_record 5]) = Inr t \<and> db_contents (db t) = []"
  using cgms_delete_all [of "cgms_pending 2 1 0 [0, 0, 0, 0, 0, 0] [demo_record 5]" env_always_ok, OF pending_ok] by auto

theorem socp_interval_roundtrip_witness:
  "\<exists>s1 s2 s3 s4. cgms_cgm_spec_ops_ctrl_point_write [1, 7] (cgms_init cgms_boot) = Inr (2, s1) \<and>
     cgms_socp_handle env_always_ok s1 = Inr s2 \<and>
     cgms_cgm_spec_ops_ctrl_point_write [2] (socp_indicate_rsp s2) = Inr (1, s3) \<and>
     cgms_socp_handle env_always_ok s3 = Inr s4 \<and> communication_interval (vars s4) = 7"
proof -
  have "socp_indicating (vars (cgms_init cgms_boot)) = 0" by (simp add: cgms_init_def cgms_boot_def Let_def)
  from socp_interval_roundtrip [OF cgms_init_ok env_always_ok_accepts this, of 7] show ?thesis by blast
qed

theorem start_time_roundtrip_witness:
  "\<exists>t. cgms_cgm_start_time_write [0xE2, 7, 4, 19, 14, 42, 22, 32, 0] 0 (cgms_init cgms_boot) = Inr (9, t) \<and>
     cgms_cgm_start_time_read (\<lambda>_ _ b. (int (length b), b)) t 20 0 = (9, [0xE2, 7, 4, 19, 14, 42, 22, 32, 0])"
proof -
  have "\<not> crc_supported (vars (cgms_init cgms_boot))"
    by (simp add: cgms_init_def cgms_boot_def Let_def crc_supported_def flag_set_def)
  from start_time_roundtrip [OF this, of "[0xE2, 7, 4, 19, 14, 42, 22, 32, 0]"] show ?thesis by auto
qed

theorem cgms_meas_encode_fits_witness:
  "length (fst (cgms_meas_encode (vars cgms_boot) (meas (demo_record 5)))) \<le> CGM_MEAS_MAX_SIZE"
  using cgms_meas_encode_fits [of "fst (cgms_meas_encode (vars cgms_boot) (meas (demo_record 5)))"
      "snd (cgms_meas_encode (vars cgms_boot) (meas (demo_record 5)))"] by simp

theorem cgms_meas_crc_mismatch_witness:
  "let msg = fst (cgms_meas_encode (vars (cgms_crc_enable True cgms_boot)) (meas (demo_record 5)))
   in drop (length msg - 2) msg \<noteq> u16_encode (crc16_ccitt (take (length msg - 2) msg))"
proof -
  let ?g = "vars (cgms_crc_enable True cgms_boot)"
  have c: "crc_supported ?g" by (simp add: cgms_crc_enable_def crc_supported_def cgms_boot_def Let_def flag_set_def)
  have "meas_size (meas (demo_record 5)) \<noteq> of_nat (length (fst (cgms_meas_encode ?g (meas (demo_record 5)))))"
    using c by (simp add: demo_record_def cgms_meas_encode_def cgms_meas_body_def cgms_boot_def Let_def flag_set_def cgms_crc_enable_def)
  from cgms_meas_crc_mismatch [OF c surjective_pairing [symmetric] this] show ?thesis by (simp add: Let_def)
qed

end
