(* ===== verification/Gls.thy ===== *)
theory Gls
  imports Types_Encode Racp
begin

text \<open>
  The glucose service: \<^verbatim>\<open>samples/bluetooth/gatt/gls.c\<close>, \<^verbatim>\<open>gls.h\<close> and its record database
  \<^verbatim>\<open>gls_db.c\<close>. The record access procedures are those of theory \<open>Racp\<close> on this service's
  database, sequence numbers and measurement sender; the service's other static variables are
  \<open>gls_vars\<close>.
\<close>

section \<open>Data\<close>

record gls_glucose_meas =
  gm_flags :: u8
  gm_sequence_number :: u16
  gm_base_time :: date_time
  gm_time_offset :: s16
  gm_glucose_concentration :: ieee_sfloat
  gm_type :: u8
  gm_sample_location :: u8
  gm_sensor_status_annunciation :: u16

record gls_meas_context =
  gc_flags :: u8
  gc_sequence_number :: u16
  gc_extended_flags :: u8
  gc_carbohydrate_id :: u8
  gc_carbohydrate :: ieee_sfloat
  gc_meal :: u8
  gc_tester_and_health :: u8
  gc_exercise_duration :: u16
  gc_exercise_intensity :: u8
  gc_medication_id :: u8
  gc_medication :: ieee_sfloat
  gc_hba1c :: ieee_sfloat

record gls_record =
  gr_meas :: gls_glucose_meas
  gr_context :: gls_meas_context

record gls_vars =
  glucose_meas :: gls_glucose_meas
  glucose_meas_ccc :: u8
  gls_context :: gls_meas_context
  context_ccc :: u8
  glucose_feature :: u16
  systick :: s16
  record_next_seq_num :: u16
  gls_timer_started :: bool

type_synonym gls_state = "(gls_record slot_db, gls_vars) racp_ctx_scheme"

abbreviation gvars :: "(gls_record slot_db, gls_vars) racp_ctx_scheme \<Rightarrow> gls_vars" where
  "gvars s \<equiv> racp_ctx.more s"

definition upd_gvars :: "(gls_vars \<Rightarrow> gls_vars) \<Rightarrow> gls_state \<Rightarrow> gls_state" where
  "upd_gvars f s = racp_ctx.more_update f s"

abbreviation (input) "GLS_ERR_CCC_IMPROPER_CONF \<equiv> 0x81 :: int"
abbreviation (input) "GLS_ERR_PROCEDURE_IN_PROGRESS \<equiv> 0x80 :: int"
abbreviation (input) "GLS_BUF_SIZE \<equiv> 32 :: nat"
abbreviation (input) "SIZEOF_GLS_RACP \<equiv> 9 :: nat"

abbreviation (input) "GLS_MEAS_FLAG_TIME_OFFSET \<equiv> 0x01 :: u8"
abbreviation (input) "GLS_MEAS_FLAG_CONC_TYPE_LOC \<equiv> 0x02 :: u8"
abbreviation (input) "GLS_MEAS_FLAG_UNITS_KG_L \<equiv> 0x00 :: u8"
abbreviation (input) "GLS_MEAS_FLAG_UNITS_MOL_L \<equiv> 0x04 :: u8"
abbreviation (input) "GLS_MEAS_FLAG_SENSOR_STATUS \<equiv> 0x08 :: u8"
abbreviation (input) "GLS_MEAS_FLAG_CONTEXT_INFO \<equiv> 0x10 :: u8"

abbreviation (input) "GLS_CONTEXT_FLAG_CARB \<equiv> 0x01 :: u8"
abbreviation (input) "GLS_CONTEXT_FLAG_MEAL \<equiv> 0x02 :: u8"
abbreviation (input) "GLS_CONTEXT_FLAG_TESTER \<equiv> 0x04 :: u8"
abbreviation (input) "GLS_CONTEXT_FLAG_EXERCISE \<equiv> 0x08 :: u8"
abbreviation (input) "GLS_CONTEXT_FLAG_MED \<equiv> 0x10 :: u8"
abbreviation (input) "GLS_CONTEXT_FLAG_MED_KG \<equiv> 0x00 :: u8"
abbreviation (input) "GLS_CONTEXT_FLAG_MED_L \<equiv> 0x20 :: u8"
abbreviation (input) "GLS_CONTEXT_FLAG_HBA1C \<equiv> 0x40 :: u8"
abbreviation (input) "GLS_CONTEXT_FLAG_EXT \<equiv> 0x80 :: u8"

section \<open>The record database\<close>

definition gls_db_init :: "gls_record slot_db \<Rightarrow> gls_record slot_db" where
  "gls_db_init = slot_db_init"

definition gls_db_num_records_get :: "gls_record slot_db \<Rightarrow> u16" where
  "gls_db_num_records_get = slot_db_num_records_get"

definition gls_db_record_get :: "u8 \<Rightarrow> gls_record slot_db \<Rightarrow> (s32 + gls_record) res" where
  "gls_db_record_get = slot_db_record_get"

definition gls_db_record_add :: "gls_record \<Rightarrow> gls_record slot_db \<Rightarrow> s32 \<times> gls_record slot_db" where
  "gls_db_record_add = slot_db_record_add"

definition gls_db_record_delete :: "u8 \<Rightarrow> gls_record slot_db \<Rightarrow> (s32 \<times> gls_record slot_db) res" where
  "gls_db_record_delete = slot_db_record_delete"

definition gls_db_record_delete_first :: "gls_record slot_db \<Rightarrow> s32 \<times> gls_record slot_db" where
  "gls_db_record_delete_first = slot_db_record_delete_first"

definition gls_db_record_delete_last :: "gls_record slot_db \<Rightarrow> (s32 \<times> gls_record slot_db) res" where
  "gls_db_record_delete_last = slot_db_record_delete_last"

definition gls_db_record_delete_all :: "gls_record slot_db \<Rightarrow> gls_record slot_db" where
  "gls_db_record_delete_all = slot_db_record_delete_all"

lemmas gls_db_defs = gls_db_init_def gls_db_num_records_get_def gls_db_record_get_def
  gls_db_record_add_def gls_db_record_delete_def gls_db_record_delete_first_def
  gls_db_record_delete_last_def gls_db_record_delete_all_def

interpretation gls_db: record_store db_compact db_contents gls_db_num_records_get gls_db_record_get
  gls_db_record_add gls_db_record_delete_all
  unfolding gls_db_defs by (rule slot_db_is_record_store)

section \<open>Client configuration and reads\<close>

definition gls_glucose_meas_ccc_cfg_changed :: "u16 \<Rightarrow> gls_state \<Rightarrow> gls_state" where
  "gls_glucose_meas_ccc_cfg_changed v =
     upd_gvars (\<lambda>g. g\<lparr>glucose_meas_ccc := (if v = BT_GATT_CCC_NOTIFY then 1 else 0)\<rparr>)"

definition gls_glucose_meas_context_ccc_cfg_changed :: "u16 \<Rightarrow> gls_state \<Rightarrow> gls_state" where
  "gls_glucose_meas_context_ccc_cfg_changed v =
     upd_gvars (\<lambda>g. g\<lparr>context_ccc := (if v = BT_GATT_CCC_NOTIFY then 1 else 0)\<rparr>)"

definition gls_racp_ccc_cfg_changed :: "u16 \<Rightarrow> gls_state \<Rightarrow> gls_state" where
  "gls_racp_ccc_cfg_changed v s = s\<lparr>racp_ccc := (if v = BT_GATT_CCC_INDICATE then 1 else 0)\<rparr>"

definition gls_glucose_feature_read :: "attr_read \<Rightarrow> gls_state \<Rightarrow> nat \<Rightarrow> nat \<Rightarrow> int \<times> bytes" where
  "gls_glucose_feature_read rd s len offset = rd len offset (u16_encode (glucose_feature (gvars s)))"

section \<open>Sequence numbers\<close>

text \<open>The result is the error code of \<open>next_sequence_number_set\<close> (zero on success).\<close>

definition next_sequence_number_set :: "gls_state \<Rightarrow> (s32 \<times> gls_state) res" where
  "next_sequence_number_set s =
     (let num_records = gls_db_num_records_get (db s) in
      if num_records > 0
      then rbind (gls_db_record_get (ucast (num_records - 1)) (db s)) (\<lambda>g.
           case g of Inl err \<Rightarrow> Inr (err, s)
           | Inr rec \<Rightarrow> Inr (0, upd_gvars (\<lambda>v. v\<lparr>record_next_seq_num := gm_sequence_number (gr_meas rec) + 1\<rparr>) s))
      else Inr (0, upd_gvars (\<lambda>v. v\<lparr>record_next_seq_num := 0\<rparr>) s))"

section \<open>Encoders\<close>

text \<open>
  The optional fields are guarded by \<open>flags | FLAG\<close>, which is never zero; the tests are kept as
  they are written.
\<close>

definition gls_meas_encode :: "gls_glucose_meas \<Rightarrow> bytes" where
  "gls_meas_encode m =
     [gm_flags m] @ u16_encode (gm_sequence_number m) @ date_time_encode (gm_base_time m)
     @ (if gm_flags m OR GLS_MEAS_FLAG_TIME_OFFSET \<noteq> 0 then u16_encode (gm_time_offset m) else [])
     @ (if gm_flags m OR GLS_MEAS_FLAG_CONC_TYPE_LOC \<noteq> 0
        then u16_encode (sfloat_pack (gm_glucose_concentration m)) @ [push_bit 4 (gm_type m) OR gm_sample_location m]
        else [])
     @ (if gm_flags m OR GLS_MEAS_FLAG_SENSOR_STATUS \<noteq> 0 then u16_encode (gm_sensor_status_annunciation m) else [])"

definition gls_meas_context_encode :: "gls_meas_context \<Rightarrow> bytes" where
  "gls_meas_context_encode c =
     [gc_flags c] @ u16_encode (gc_sequence_number c)
     @ (if gc_flags c OR GLS_CONTEXT_FLAG_EXT \<noteq> 0 then [gc_extended_flags c] else [])
     @ (if gc_flags c OR GLS_CONTEXT_FLAG_CARB \<noteq> 0
        then [gc_carbohydrate_id c] @ u16_encode (sfloat_pack (gc_carbohydrate c)) else [])
     @ (if gc_flags c OR GLS_CONTEXT_FLAG_MEAL \<noteq> 0 then [gc_meal c] else [])
     @ (if gc_flags c OR GLS_CONTEXT_FLAG_TESTER \<noteq> 0 then [gc_tester_and_health c] else [])
     @ (if gc_flags c OR GLS_CONTEXT_FLAG_EXERCISE \<noteq> 0
        then u16_encode (gc_exercise_duration c) @ [gc_exercise_intensity c] else [])
     @ (if gc_flags c OR GLS_CONTEXT_FLAG_MED \<noteq> 0
        then [gc_medication_id c] @ u16_encode (sfloat_pack (gc_medication c)) else [])
     @ (if gc_flags c OR GLS_CONTEXT_FLAG_HBA1C \<noteq> 0 then u16_encode (sfloat_pack (gc_hba1c c)) else [])"

section \<open>Sending a record\<close>

text \<open>
  The variable \<open>err\<close> holds the result of the last transmission: where a context follows, the
  result of the measurement itself is overwritten.
\<close>

definition glucose_meas_send :: "gatt_env \<Rightarrow> gls_record \<Rightarrow> gls_state \<Rightarrow> s32 \<times> gls_state" where
  "glucose_meas_send env rec s =
     (let (err, tr) = bt_gatt_notify env 2 (gls_meas_encode (gr_meas rec)) (trace s);
          s = s\<lparr>trace := tr\<rparr>;
          s = (if err \<noteq> 0 then s else s\<lparr>racp_proc_records_reported := racp_proc_records_reported s + 1\<rparr>)
      in if flag_set (gm_flags (gr_meas rec)) GLS_MEAS_FLAG_CONTEXT_INFO
         then let (err, tr) = bt_gatt_notify env 5 (gls_meas_context_encode (gr_context rec)) (trace s)
              in (err, s\<lparr>trace := tr\<rparr>)
         else (err, s))"

section \<open>Record access\<close>

definition gls_ops :: "gatt_env \<Rightarrow> (gls_record slot_db, gls_record, gls_vars) racp_ops" where
  "gls_ops env = \<lparr>op_num = gls_db_num_records_get, op_get = gls_db_record_get,
     op_delete_all = gls_db_record_delete_all, op_delete_first = gls_db_record_delete_first,
     op_delete_last = gls_db_record_delete_last, op_key = (\<lambda>r. gm_sequence_number (gr_meas r)),
     op_send = glucose_meas_send env, op_attr = 10, op_env = env\<rparr>"

lemma gls_ops_simps [simp]:
  "op_num (gls_ops env) = gls_db_num_records_get" "op_get (gls_ops env) = gls_db_record_get"
  "op_delete_all (gls_ops env) = gls_db_record_delete_all"
  "op_delete_first (gls_ops env) = gls_db_record_delete_first"
  "op_delete_last (gls_ops env) = gls_db_record_delete_last"
  "op_key (gls_ops env) r = gm_sequence_number (gr_meas r)"
  "op_send (gls_ops env) = glucose_meas_send env" "op_attr (gls_ops env) = 10" "op_env (gls_ops env) = env"
  by (simp_all add: gls_ops_def)

text \<open>The functions of \<^verbatim>\<open>gls.c\<close> that are instances of the shared procedures.\<close>

definition gls_racp_decode :: "u8 \<Rightarrow> bytes \<Rightarrow> racp \<Rightarrow> racp res" where
  "gls_racp_decode = racp_decode"

definition gls_racp_encode :: "racp \<Rightarrow> bytes option \<Rightarrow> (u8 \<times> bytes option) res" where
  "gls_racp_encode = racp_encode"

definition gls_state_set :: "comm_state \<Rightarrow> gls_state \<Rightarrow> gls_state" where
  "gls_state_set = state_set"

definition gls_indicate_rsp :: "gls_state \<Rightarrow> gls_state" where
  "gls_indicate_rsp = racp_indicate_rsp"

definition gls_racp_send :: "gatt_env \<Rightarrow> racp \<Rightarrow> gls_state \<Rightarrow> gls_state res" where
  "gls_racp_send env = racp_send (gls_ops env)"

definition gls_racp_response_code_send :: "gatt_env \<Rightarrow> u8 \<Rightarrow> u8 \<Rightarrow> gls_state \<Rightarrow> gls_state res" where
  "gls_racp_response_code_send env = racp_response_code_send (gls_ops env)"

definition gls_report_records_all :: "gatt_env \<Rightarrow> gls_state \<Rightarrow> (s32 \<times> bool \<times> gls_state) res" where
  "gls_report_records_all env = racp_report_records_all (gls_ops env)"

definition gls_report_records_first_last :: "gatt_env \<Rightarrow> gls_state \<Rightarrow> (s32 \<times> gls_state) res" where
  "gls_report_records_first_last env = racp_report_records_first_last (gls_ops env)"

definition gls_report_records_greater_or_equal :: "gatt_env \<Rightarrow> gls_state \<Rightarrow> (s32 \<times> gls_state) res" where
  "gls_report_records_greater_or_equal env = racp_report_records_greater_or_equal (gls_ops env)"

definition gls_report_records_completed :: "gatt_env \<Rightarrow> gls_state \<Rightarrow> gls_state res" where
  "gls_report_records_completed env = racp_report_records_completed (gls_ops env)"

definition gls_report_records_procedure :: "gatt_env \<Rightarrow> gls_state \<Rightarrow> gls_state res" where
  "gls_report_records_procedure env = racp_report_records_procedure (gls_ops env)"

definition gls_is_request_to_be_executed :: "comm_state \<Rightarrow> racp \<Rightarrow> (bool \<times> u8) res" where
  "gls_is_request_to_be_executed = is_request_to_be_executed"

definition gls_report_records_request_execute :: "gatt_env \<Rightarrow> racp \<Rightarrow> gls_state \<Rightarrow> gls_state res" where
  "gls_report_records_request_execute env = report_records_request_execute (gls_ops env)"

definition gls_delete_records_request_execute :: "gatt_env \<Rightarrow> racp \<Rightarrow> gls_state \<Rightarrow> gls_state res" where
  "gls_delete_records_request_execute env = delete_records_request_execute (gls_ops env)"

definition gls_report_num_records_request_execute :: "gatt_env \<Rightarrow> racp \<Rightarrow> gls_state \<Rightarrow> gls_state res" where
  "gls_report_num_records_request_execute env = report_num_records_request_execute (gls_ops env)"

definition gls_racp_handle :: "gatt_env \<Rightarrow> gls_state \<Rightarrow> gls_state res" where
  "gls_racp_handle env = racp_handle (gls_ops env)"

text \<open>The work item up to its first sleep, and its continuation after one.\<close>

definition gls_racp_handle_start :: "gatt_env \<Rightarrow> gls_state \<Rightarrow> (bool \<times> gls_state) res" where
  "gls_racp_handle_start env = racp_handle_start (gls_ops env)"

definition gls_racp_wake :: "gatt_env \<Rightarrow> gls_state \<Rightarrow> (bool \<times> gls_state) res" where
  "gls_racp_wake env = racp_wake (gls_ops env)"

definition gls_racp_write :: "bytes \<Rightarrow> u16 \<Rightarrow> gls_state \<Rightarrow> (int \<times> gls_state) res" where
  "gls_racp_write buf offset s =
     (if racp_ccc s = 0 then Inr (BT_GATT_ERR GLS_ERR_CCC_IMPROPER_CONF, s)
      else if unat offset + length buf > SIZEOF_GLS_RACP then Inr (BT_GATT_ERR BT_ATT_ERR_INVALID_OFFSET, s)
      else rbind (gls_racp_decode (of_nat (length buf)) buf (racp_request s)) (\<lambda>req.
           let s = s\<lparr>racp_request := req\<rparr> in
           if racp_opcode req \<noteq> RACP_OPCODE_ABORT_OPERATION \<and> racp_state s \<noteq> STATE_NO_COMM
           then Inr (BT_GATT_ERR GLS_ERR_PROCEDURE_IN_PROGRESS, s)
           else Inr (int (length buf), s\<lparr>racp_work_submitted := True\<rparr>)))"

section \<open>Simulated measurements\<close>

definition set_base_time :: date_time where
  "set_base_time = \<lparr>year = 2018, month = 4, day = 11, hours = 16, minutes = 6, seconds = 18\<rparr>"

datatype gls_unit = UNIT_KG_L | UNIT_MOL_L

definition zero_meas :: gls_glucose_meas where
  "zero_meas = \<lparr>gm_flags = 0, gm_sequence_number = 0,
     gm_base_time = \<lparr>year = 0, month = 0, day = 0, hours = 0, minutes = 0, seconds = 0\<rparr>,
     gm_time_offset = 0, gm_glucose_concentration = \<lparr>exponent = 0, mantissa = 0\<rparr>, gm_type = 0,
     gm_sample_location = 0, gm_sensor_status_annunciation = 0\<rparr>"

definition zero_context :: gls_meas_context where
  "zero_context = \<lparr>gc_flags = 0, gc_sequence_number = 0, gc_extended_flags = 0, gc_carbohydrate_id = 0,
     gc_carbohydrate = \<lparr>exponent = 0, mantissa = 0\<rparr>, gc_meal = 0, gc_tester_and_health = 0,
     gc_exercise_duration = 0, gc_exercise_intensity = 0, gc_medication_id = 0,
     gc_medication = \<lparr>exponent = 0, mantissa = 0\<rparr>, gc_hba1c = \<lparr>exponent = 0, mantissa = 0\<rparr>\<rparr>"

definition simulated_meas :: "gls_unit \<Rightarrow> u16 \<Rightarrow> s16 \<Rightarrow> gls_glucose_meas" where
  "simulated_meas unit seq tick =
     (let unit_val = (if unit = UNIT_KG_L then GLS_MEAS_FLAG_UNITS_KG_L else GLS_MEAS_FLAG_UNITS_MOL_L) in
      zero_meas\<lparr>gm_glucose_concentration := \<lparr>exponent = (if unit = UNIT_KG_L then - 5 else - 3), mantissa = 5\<rparr>,
        gm_flags := GLS_MEAS_FLAG_TIME_OFFSET OR GLS_MEAS_FLAG_CONC_TYPE_LOC OR unit_val OR GLS_MEAS_FLAG_SENSOR_STATUS,
        gm_sequence_number := seq, gm_base_time := set_base_time, gm_time_offset := tick,
        gm_type := 3, gm_sample_location := 1, gm_sensor_status_annunciation := 0\<rparr>)"

definition simulated_context :: "gls_unit \<Rightarrow> u16 \<Rightarrow> gls_meas_context" where
  "simulated_context unit seq =
     (let flags = GLS_CONTEXT_FLAG_CARB OR GLS_CONTEXT_FLAG_MEAL OR GLS_CONTEXT_FLAG_TESTER
                  OR GLS_CONTEXT_FLAG_EXERCISE OR GLS_CONTEXT_FLAG_MED OR GLS_CONTEXT_FLAG_HBA1C OR GLS_CONTEXT_FLAG_EXT in
      zero_context\<lparr>
        gc_flags := flags OR (if unit = UNIT_KG_L then GLS_CONTEXT_FLAG_MED_KG else GLS_CONTEXT_FLAG_MED_L),
        gc_sequence_number := seq, gc_extended_flags := 0, gc_carbohydrate_id := 1,
        gc_carbohydrate := \<lparr>exponent = - 3, mantissa = 90\<rparr>, gc_meal := 1,
        gc_tester_and_health := push_bit 4 5 OR 1, gc_exercise_duration := 1800, gc_exercise_intensity := 70,
        gc_medication_id := 1, gc_medication := \<lparr>exponent = - 3, mantissa = 3\<rparr>,
        gc_hba1c := \<lparr>exponent = 0, mantissa = 5\<rparr>\<rparr>)"

definition glucose_measurement_simulation :: "gls_unit \<Rightarrow> bool \<Rightarrow> gls_state \<Rightarrow> gls_state" where
  "glucose_measurement_simulation unit with_context s =
     (let seq = record_next_seq_num (gvars s) + 1;
          m = simulated_meas unit seq (systick (gvars s));
          mc = m\<lparr>gm_flags := gm_flags m OR GLS_MEAS_FLAG_CONTEXT_INFO\<rparr>;
          c = simulated_context unit seq;
          s = upd_gvars (\<lambda>g. g\<lparr>record_next_seq_num := seq, glucose_meas := (if with_context then mc else m),
                gls_context := (if with_context then c else gls_context g)\<rparr>) s;
          new_record = (if with_context then \<lparr>gr_meas = mc, gr_context = c\<rparr>
                        else \<lparr>gr_meas = m, gr_context = zero_context\<rparr>)
      in s\<lparr>db := snd (gls_db_record_add new_record (db s))\<rparr>)"

definition glucose_measurement_delete :: "gls_state \<Rightarrow> gls_state" where
  "glucose_measurement_delete s = s\<lparr>db := gls_db_record_delete_all (db s)\<rparr>"

definition gls_state_reset :: "gls_state \<Rightarrow> gls_state" where
  "gls_state_reset = gls_state_set STATE_NO_COMM"

text \<open>\<open>systick % 5 == 0\<close> on a signed 16-bit counter.\<close>

definition gls_timer_handler :: "gls_state \<Rightarrow> gls_state" where
  "gls_timer_handler s =
     (let s = upd_gvars (\<lambda>g. g\<lparr>systick := systick g + 1\<rparr>) s in
      if sint (systick (gvars s)) mod 5 = 0 \<and> unat (gls_db_num_records_get (db s)) < MAX_RECORDS
      then glucose_measurement_simulation UNIT_MOL_L False s else s)"

section \<open>Initialisation\<close>

definition gls_init :: "gls_state \<Rightarrow> (s32 \<times> gls_state) res" where
  "gls_init s =
     (let s = (upd_gvars (\<lambda>g. g\<lparr>glucose_meas := zero_meas, glucose_meas_ccc := 0, gls_context := zero_context,
                 context_ccc := 0, glucose_feature := 0x0001 OR 0x0002 OR 0x0020 OR 0x0100 OR 0x0200 OR 0x0400\<rparr>) s)
              \<lparr>racp_ccc := 0, db := gls_db_init (db s)\<rparr> in
      rbind (next_sequence_number_set s) (\<lambda>(err, s).
      if err \<noteq> 0 then Inr (err, s)
      else Inr (0, gls_state_set STATE_NO_COMM (upd_gvars (\<lambda>g. g\<lparr>gls_timer_started := True\<rparr>) s))))"

section \<open>Generic facts\<close>

lemma upd_gvars_simps [simp]:
  "gvars (upd_gvars f s) = f (gvars s)" "db (upd_gvars f s) = db s" "racp_ccc (upd_gvars f s) = racp_ccc s"
  "racp_indicating (upd_gvars f s) = racp_indicating s" "racp_buf (upd_gvars f s) = racp_buf s"
  "racp_request (upd_gvars f s) = racp_request s" "racp_state (upd_gvars f s) = racp_state s"
  "racp_work_submitted (upd_gvars f s) = racp_work_submitted s" "trace (upd_gvars f s) = trace s"
  "racp_proc_operator (upd_gvars f s) = racp_proc_operator s"
  "racp_proc_record_idx (upd_gvars f s) = racp_proc_record_idx s"
  by (simp_all add: upd_gvars_def)

lemma ctx_ok_upd_gvars [simp]: "ctx_ok invar (upd_gvars f s) = ctx_ok invar s"
  by (simp add: ctx_ok_def)

text \<open>A record without context: its only transmission is the measurement.\<close>

definition plain_record :: "gls_record \<Rightarrow> bool" where
  "plain_record r \<longleftrightarrow> \<not> flag_set (gm_flags (gr_meas r)) GLS_MEAS_FLAG_CONTEXT_INFO"

definition gls_emit :: "gls_vars \<Rightarrow> gls_record \<Rightarrow> gatt_call list" where
  "gls_emit g r = Notify 2 (gls_meas_encode (gr_meas r)) 0 #
     (if plain_record r then [] else [Notify 5 (gls_meas_context_encode (gr_context r)) 0])"

lemma glucose_meas_send_accepted:
  "env_accepts env \<Longrightarrow> glucose_meas_send env r s = (0, sent gls_emit [r] s)"
  by (cases s) (simp add: glucose_meas_send_def bt_gatt_notify_def env_acceptsD sent_def gls_emit_def plain_record_def Let_def)

lemma glucose_meas_send_plain:
  "plain_record r \<Longrightarrow> glucose_meas_send env r s =
     (let buf = gls_meas_encode (gr_meas r); err = env_notify env (trace s) 2 buf in
      (err, s\<lparr>trace := trace s @ [Notify 2 buf err], racp_proc_records_reported :=
        (if err = 0 then racp_proc_records_reported s + 1 else racp_proc_records_reported s)\<rparr>))"
  by (simp add: glucose_meas_send_def bt_gatt_notify_def plain_record_def Let_def)

lemma gls_is_racp_service: "racp_service db_count_ok db_contents (gls_ops env) plain_record"
proof (rule racp_service.intro)
  show "record_source db_count_ok db_contents (op_num (gls_ops env)) (op_get (gls_ops env))"
    by (simp add: gls_db_defs slot_db_is_record_source)
  show "racp_service_axioms (gls_ops env) plain_record"
  proof
    show "snd (op_send (gls_ops env) r s) = s\<lparr>trace := trace (snd (op_send (gls_ops env) r s)),
        racp_proc_records_reported := racp_proc_records_reported (snd (op_send (gls_ops env) r s))\<rparr>" for r s
      by (cases s) (simp add: glucose_meas_send_def bt_gatt_notify_def Let_def)
  qed (simp add: glucose_meas_send_plain Let_def)
qed

interpretation gls_racp: racp_service db_count_ok db_contents "gls_ops env" plain_record
  for env
  by (rule gls_is_racp_service)

section \<open>Messages\<close>

text \<open>
  Every encoded measurement is 17 bytes and every encoded context 17 bytes, so both fit the
  32-byte buffer of the sender. The lengths do not depend on the flags byte: the tests
  \<open>flags | FLAG\<close> are always true, so fields the flags declare absent are transmitted all the same.
\<close>

theorem gls_encode_lengths:
  "length (gls_meas_encode m) = 17 \<and> length (gls_meas_context_encode c) = 17 \<and> (17 :: nat) \<le> GLS_BUF_SIZE"
  by (simp add: gls_meas_encode_def gls_meas_context_encode_def or_eq_0_word)

section \<open>Record access\<close>

text \<open>The state invariant: also every stored record is one the timer produced, without a context.\<close>

definition gls_ok :: "gls_state \<Rightarrow> bool" where
  "gls_ok s \<longleftrightarrow> ctx_ok db_count_ok s \<and> racp_state s = STATE_NO_COMM \<and>
     (\<forall>e\<in>set (slots (db s)). plain_record (entry_record e))"

lemma contents_plain: "(\<forall>e\<in>set (slots d). plain_record (entry_record e)) \<Longrightarrow> \<forall>r\<in>set (db_contents d). plain_record r"
  by (auto simp: db_contents_def dest: in_set_takeD)

text \<open>
  C10 (functional). A valid report request of the glucose service sends the selected records in database order,
  each as a measurement followed by its context if it has one, then one indication with the
  response code; the selection compares sequence numbers. The request is handled without another event during
  the pauses between the records.
\<close>

theorem gls_report_exact:
  assumes "ctx_ok db_count_ok s" "racp_state s = STATE_NO_COMM" "env_accepts env" "racp_ccc s \<noteq> 0" "racp_indicating s = 0"
    and "racp_opcode (racp_request s) = RACP_OPCODE_REPORT_RECS"
    and "report_request_check (racp_request s) = Inr RACP_RESPONSE_RESERVED"
    and "operand_filter (racp_request s) = Inr flt"
    and "sel = report_select (racp_operator (racp_request s)) flt (\<lambda>r. gm_sequence_number (gr_meas r)) (db_contents (db s))"
  shows "\<exists>t. gls_racp_handle env s = Inr t \<and> db t = db s \<and> racp_state t = STATE_NO_COMM \<and>
    trace t = trace s @ concat (map (gls_emit (gvars s)) sel) @
      [Indicate 10 [6, 0, 1, if sel = [] then RACP_RESPONSE_NO_RECORDS_FOUND else RACP_RESPONSE_SUCCESS] 0]"
proof -
  have key: "op_key (gls_ops env) = (\<lambda>r. gm_sequence_number (gr_meas r))" by (rule ext) simp
  have live: "\<And>r s. op_send (gls_ops env) r s = (0, sent gls_emit [r] s)"
    using assms(3) by (simp add: glucose_meas_send_accepted)
  show ?thesis
    using gls_racp.handle_report_trace [where env = env and emit = gls_emit, OF assms(1,2,6-8,4,5) live]
      assms(3,9) by (simp add: gls_racp_handle_def key env_acceptsD)
qed

text \<open>
  With records that carry no context, a report request whose sleeps nothing interrupts is processed to its end
  whatever the host answers: the handler returns with the database unchanged and the service idle.
\<close>

theorem gls_report_returns:
  assumes "gls_ok s" "racp_opcode (racp_request s) = RACP_OPCODE_REPORT_RECS"
  shows "\<exists>t. gls_racp_handle env s = Inr t \<and> db t = db s \<and> gvars t = gvars s \<and> racp_state t = STATE_NO_COMM"
  using gls_racp.handle_report_returns [where env = env, OF _ _ assms(2)] assms(1) contents_plain [of "db s"]
  by (auto simp: gls_racp_handle_def gls_ok_def)

text \<open>
  C40 (error). A record with a context makes a report of the first record run forever when the host keeps refusing
  the measurement while it accepts the context: the sender returns the result of the
  context, the record is never counted as reported, and the procedure sends it again.
\<close>

theorem gls_report_diverges:
  assumes "ctx_ok db_count_ok s" "racp_state s = STATE_NO_COMM"
    and "racp_request s = \<lparr>racp_opcode = RACP_OPCODE_REPORT_RECS, racp_operator = RACP_OPERATOR_FIRST,
           racp_operand_len = 0, racp_operand = opd\<rparr>"
    and "db_contents (db s) = r # rs" "\<not> plain_record r"
    and "\<And>tr d. env_notify env tr 2 d \<noteq> 0" "\<And>tr d. env_notify env tr 5 d = 0"
  shows "gls_racp_handle env s = Inl Diverges"
proof -
  define I :: "gls_state \<Rightarrow> bool" where "I = (\<lambda>t. racp_state t = STATE_RACP_PROC_ACTIVE \<and> db t = db s \<and>
    racp_request t = racp_request s \<and> racp_proc_operator t = RACP_OPERATOR_FIRST \<and> racp_proc_records_reported t = 0)"
  have inv: "db_count_ok (db s)" using assms(1) by (simp add: ctx_ok_def)
  have get: "gls_db_record_get 0 (db s) = Inr (Inr r)"
    using gls_racp.get_hd [OF inv] assms(4) by simp
  have num: "gls_db_num_records_get (db s) \<noteq> 0"
    using gls_racp.num_contents [OF inv] assms(4) by auto
  have send: "\<exists>t'. glucose_meas_send env r t = (0, t') \<and> I t'" if "I t" for t
    using that assms(5-7) by (simp add: glucose_meas_send_def bt_gatt_notify_def plain_record_def I_def Let_def)
  have step: "\<exists>t'. report_step (gls_ops env) t = Inr (Next t') \<and> I t'" if "I t" for t
  proof -
    from send [OF that] obtain t' where t': "glucose_meas_send env r t = (0, t')" "I t'" by blast
    with that get num assms(3) have "report_step (gls_ops env) t = Inr (Next (t'\<lparr>racp_proc_record_idx := racp_proc_record_idx t' + 1\<rparr>))"
      by (simp add: report_step_unfold racp_report_records_first_last_def I_def)
    with t'(2) show ?thesis by (simp add: I_def)
  qed
  obtain flt where flt: "operand_filter (racp_request s) = Inr flt"
    using operand_filter_ok [of "racp_request s"] assms(1) by (auto simp: ctx_ok_def)
  have "I (report_start flt s)" using assms(3) by (simp add: I_def)
  then have "c_while (\<lambda>s. racp_state s = STATE_RACP_PROC_ACTIVE) (report_step (gls_ops env)) (report_start flt s) = Inl Diverges"
    by (rule c_while_diverges) (use step in \<open>auto simp: I_def\<close>)
  moreover have "gls_racp_handle env s = racp_report_records_procedure (gls_ops env) (report_start flt s)"
    unfolding gls_racp_handle_def
    by (rule racp_handle_report [OF assms(2) _ _ flt]) (simp_all add: assms(3) report_request_check_def)
  ultimately show ?thesis by (simp add: racp_report_records_procedure_def)
qed

section \<open>Events\<close>

text \<open>
  As in the continuous glucose service the state is a pair: whether the work item sleeps in a report of all
  records, and the variables. The callbacks, the timer and the two functions the application calls run at
  any time, the work item only when it does not sleep; \<open>Gls_Racp_Wake\<close> is the end of a sleep.
\<close>

datatype gls_event =
    Gls_Meas_Ccc u16 | Gls_Context_Ccc u16 | Gls_Racp_Ccc u16 | Gls_Racp_Write bytes u16
  | Gls_Racp_Work | Gls_Racp_Wake | Gls_Confirm | Gls_Tick | Gls_Delete | Gls_Reset

definition gls_callback :: "gls_event \<Rightarrow> gls_state \<Rightarrow> gls_state res" where
  "gls_callback e s = (case e of
     Gls_Meas_Ccc v \<Rightarrow> Inr (gls_glucose_meas_ccc_cfg_changed v s)
   | Gls_Context_Ccc v \<Rightarrow> Inr (gls_glucose_meas_context_ccc_cfg_changed v s)
   | Gls_Racp_Ccc v \<Rightarrow> Inr (gls_racp_ccc_cfg_changed v s)
   | Gls_Racp_Write buf off \<Rightarrow> rbind (gls_racp_write buf off s) (\<lambda>r. Inr (snd r))
   | Gls_Confirm \<Rightarrow> Inr (gls_indicate_rsp s)
   | Gls_Tick \<Rightarrow> Inr (if gls_timer_started (gvars s) then gls_timer_handler s else s)
   | Gls_Delete \<Rightarrow> Inr (glucose_measurement_delete s)
   | Gls_Reset \<Rightarrow> Inr (gls_state_reset s)
   | _ \<Rightarrow> Inr s)"

definition gls_event_step :: "gatt_env \<Rightarrow> gls_event \<Rightarrow> bool \<times> gls_state \<Rightarrow> (bool \<times> gls_state) res" where
  "gls_event_step env e sys = (case sys of (asleep, s) \<Rightarrow> (case e of
     Gls_Racp_Work \<Rightarrow> if racp_work_submitted s \<and> \<not> asleep
       then gls_racp_handle_start env (s\<lparr>racp_work_submitted := False\<rparr>) else Inr (asleep, s)
   | Gls_Racp_Wake \<Rightarrow> if asleep then gls_racp_wake env s else Inr (asleep, s)
   | _ \<Rightarrow> rbind (gls_callback e s) (\<lambda>t. Inr (asleep, t))))"

text \<open>
  The only inputs that leave the buffers: a write of nine bytes at offset zero, which the length
  check admits although only six operand bytes fit after opcode and operator, and the
  deletion of the last record while the last entry is free.
\<close>

definition gls_event_safe :: "gls_event \<Rightarrow> bool \<times> gls_state \<Rightarrow> bool" where
  "gls_event_safe e sys = (case sys of (asleep, s) \<Rightarrow> case e of
     Gls_Racp_Write buf off \<Rightarrow> racp_ccc s = 0 \<or> length buf \<noteq> 9 \<or> off \<noteq> 0
   | Gls_Racp_Work \<Rightarrow> racp_work_submitted s \<and> \<not> asleep \<and> racp_state s = STATE_NO_COMM \<and> delete_last_request s
       \<longrightarrow> is_in_use (slots (db s) ! 19)
   | _ \<Rightarrow> True)"

definition gls_boot :: gls_state where
  "gls_boot = \<lparr>db = \<lparr>slots = replicate MAX_RECORDS \<lparr>is_in_use = False,
        entry_record = \<lparr>gr_meas = zero_meas, gr_context = zero_context\<rparr>\<rparr>, records_num = 0\<rparr>,
     racp_ccc = 0, racp_indicating = 0, racp_buf = replicate GLS_BUF_SIZE 0,
     racp_request = \<lparr>racp_opcode = 0, racp_operator = 0, racp_operand_len = 0, racp_operand = replicate 6 0\<rparr>,
     racp_response_code = 0, racp_state = STATE_NO_COMM, racp_proc_operator = 0, racp_proc_filter = 0,
     racp_proc_record_idx = 0, racp_proc_records_reported = 0, racp_work_submitted = False, trace = [],
     \<dots> = \<lparr>glucose_meas = zero_meas, glucose_meas_ccc = 0, gls_context = zero_context, context_ccc = 0,
       glucose_feature = 0, systick = 0, record_next_seq_num = 0, gls_timer_started = False\<rparr>\<rparr>"

inductive gls_reachable :: "gatt_env \<Rightarrow> bool \<times> gls_state \<Rightarrow> bool" for env where
  gls_reach_init: "gls_init gls_boot = Inr (0, s) \<Longrightarrow> gls_reachable env (False, s)"
| gls_reach_step: "gls_reachable env sys \<Longrightarrow> gls_event_step env e sys = Inr sys' \<Longrightarrow> gls_reachable env sys'"

definition all_plain :: "gls_record slot_db \<Rightarrow> bool" where
  "all_plain d \<longleftrightarrow> (\<forall>e\<in>set (slots d). plain_record (entry_record e))"

lemma gls_ok_alt: "gls_ok s \<longleftrightarrow> ctx_ok db_count_ok s \<and> racp_state s = STATE_NO_COMM \<and> all_plain (db s)"
  by (simp add: gls_ok_def all_plain_def)

lemma take_free_slot_plain:
  "take_free_slot r es = Some es' \<Longrightarrow> plain_record r \<Longrightarrow> \<forall>e\<in>set es. plain_record (entry_record e) \<Longrightarrow>
   \<forall>e\<in>set es'. plain_record (entry_record e)"
  by (induction es arbitrary: es') (auto split: if_splits)

lemma release_first_slot_plain:
  "release_first_slot es = Some es' \<Longrightarrow> \<forall>e\<in>set es. plain_record (entry_record e) \<Longrightarrow>
   \<forall>e\<in>set es'. plain_record (entry_record e)"
  by (induction es arbitrary: es') (auto split: if_splits)

lemma release_last_slot_plain:
  "release_last_slot i es = Inr es' \<Longrightarrow> \<forall>e\<in>set es. plain_record (entry_record e) \<Longrightarrow>
   \<forall>e\<in>set es'. plain_record (entry_record e)"
proof (induction i es rule: release_last_slot.induct)
  case (1 i es)
  show ?case
  proof (cases "i < length es \<and> is_in_use (es ! i)")
    case True
    then have "es' = es[i := (es ! i)\<lparr>is_in_use := False\<rparr>]"
      using "1.prems"(1) by (subst (asm) release_last_slot.simps) simp
    then show ?thesis using True "1.prems"(2) set_update_subset_insert [of es i] by fastforce
  next
    case False
    then have "i < length es \<and> release_last_slot (Suc i) es = Inr es'"
      using "1.prems"(1) by (subst (asm) release_last_slot.simps) (simp split: if_splits)
    with False "1.IH" "1.prems"(2) show ?thesis by blast
  qed
qed

lemma all_plain_ops:
  assumes "all_plain d"
  shows "plain_record r \<Longrightarrow> all_plain (snd (gls_db_record_add r d))" "all_plain (gls_db_record_delete_all d)"
    "all_plain (snd (gls_db_record_delete_first d))" "gls_db_record_delete_last d = Inr (c, d') \<Longrightarrow> all_plain d'"
  using assms
  by (auto simp: gls_db_defs all_plain_def slot_db_record_add_def slot_db_record_delete_all_def
      slot_db_record_delete_first_def slot_db_record_delete_last_def rbind_eq_Inr split: option.split
      dest: take_free_slot_plain release_first_slot_plain release_last_slot_plain)

text \<open>On databases of plain records the service provides deletion as well.\<close>

definition gls_db_ok :: "gls_record slot_db \<Rightarrow> bool" where
  "gls_db_ok d \<longleftrightarrow> db_count_ok d \<and> all_plain d"

lemma gls_ok_iff: "gls_ok s \<longleftrightarrow> ctx_ok gls_db_ok s \<and> racp_state s = STATE_NO_COMM"
  by (auto simp: gls_ok_alt ctx_ok_def gls_db_ok_def)

lemma gls_is_plain_service: "racp_service gls_db_ok db_contents (gls_ops env) plain_record"
proof (rule racp_service.intro)
  show "record_source gls_db_ok db_contents (op_num (gls_ops env)) (op_get (gls_ops env))"
    by unfold_locales (simp_all add: gls_db_ok_def gls_racp.num_contents [simplified] gls_racp.contents_bound
        gls_racp.get_contents [simplified] gls_racp.get_beyond [simplified])
  show "racp_service_axioms (gls_ops env) plain_record"
    using gls_is_racp_service [of env] by (simp add: racp_service_def)
qed

interpretation gls_plain: racp_delete_service gls_db_ok db_contents "gls_ops env" plain_record
  "\<lambda>d. is_in_use (slots d ! 19)" for env
proof (rule racp_delete_service.intro [OF gls_is_plain_service], unfold_locales)
  fix d :: "gls_record slot_db"
  assume d: "gls_db_ok d"
  show "gls_db_ok (op_delete_all (gls_ops env) d)" "gls_db_ok (snd (op_delete_first (gls_ops env) d))"
    using d all_plain_ops [of d] by (simp_all add: gls_db_ok_def)
      (simp_all add: gls_db_defs db_count_ok_reset db_count_ok_delete_first)
  show "is_in_use (slots d ! 19) \<Longrightarrow> \<exists>c d'. op_delete_last (gls_ops env) d = Inr (c, d') \<and> gls_db_ok d'"
    and "\<not> is_in_use (slots d ! 19) \<Longrightarrow> op_delete_last (gls_ops env) d = Inl Out_Of_Bounds"
    using d all_plain_ops(4) [of d] delete_last_in_use [of d] by (auto simp: gls_db_defs gls_db_ok_def delete_last_free)
qed

lemma gls_init_boot: "\<exists>s. gls_init gls_boot = Inr (0, s) \<and> gls_ok s \<and> db_compact (db s) \<and> db_contents (db s) = [] \<and>
    systick (gvars s) = 0 \<and> record_next_seq_num (gvars s) = 0 \<and> trace s = [] \<and> racp_indicating s = 0"
  by (simp add: gls_init_def gls_boot_def Let_def next_sequence_number_set_def gls_db_defs slot_db_init_def
      slot_db_num_records_get_def gls_ok_def ctx_ok_def db_count_ok_def db_compact_def db_contents_def in_use_count_def
      plain_record_def zero_meas_def flag_set_def gls_state_set_def)

lemma gls_simulation_db:
  "db (glucose_measurement_simulation UNIT_MOL_L False s) = snd (gls_db_record_add
     \<lparr>gr_meas = simulated_meas UNIT_MOL_L (record_next_seq_num (gvars s) + 1) (systick (gvars s)), gr_context = zero_context\<rparr> (db s))"
  "gvars (glucose_measurement_simulation UNIT_MOL_L False s) = (gvars s)\<lparr>record_next_seq_num := record_next_seq_num (gvars s) + 1,
     glucose_meas := simulated_meas UNIT_MOL_L (record_next_seq_num (gvars s) + 1) (systick (gvars s))\<rparr>"
  by (simp_all add: glucose_measurement_simulation_def Let_def)

lemma simulated_plain: "plain_record \<lparr>gr_meas = simulated_meas UNIT_MOL_L seq tick, gr_context = c\<rparr>"
  by (simp add: plain_record_def simulated_meas_def flag_set_def)

text \<open>
  The invariant of the service: the variables are in order and every record is a plain one, and a report
  that sleeps is one of all records, at an index of the database.
\<close>

definition gls_sys_ok :: "bool \<times> gls_state \<Rightarrow> bool" where
  "gls_sys_ok sys \<longleftrightarrow> (case sys of (asleep, s) \<Rightarrow> ctx_ok gls_db_ok s \<and>
     (asleep \<longrightarrow> racp_proc_operator s = RACP_OPERATOR_ALL \<and> unat (racp_proc_record_idx s) < MAX_RECORDS))"

lemma gls_sys_plain: "ctx_ok gls_db_ok s \<Longrightarrow> \<forall>r\<in>set (db_contents (db s)). plain_record r"
  using contents_plain [of "db s"] by (simp add: ctx_ok_def gls_db_ok_def all_plain_def)

lemma gls_tick_ok: "ctx_ok gls_db_ok s \<Longrightarrow> ctx_ok gls_db_ok (gls_timer_handler s)"
proof -
  assume s: "ctx_ok gls_db_ok s"
  let ?s = "upd_gvars (\<lambda>g. g\<lparr>systick := systick g + 1\<rparr>) s"
  have "ctx_ok gls_db_ok (glucose_measurement_simulation UNIT_MOL_L False ?s)"
    using s all_plain_ops(1) [of "db s"] simulated_plain
    by (simp add: ctx_ok_def gls_db_ok_def gls_simulation_db db_count_ok_add flip: gls_db_record_add_def)
      (simp add: glucose_measurement_simulation_def Let_def gls_db_record_add_def db_count_ok_add)
  then show ?thesis using s by (simp add: gls_timer_handler_def Let_def)
qed

lemma gls_tick_sleep [simp]:
  "racp_proc_operator (gls_timer_handler s) = racp_proc_operator s"
  "racp_proc_record_idx (gls_timer_handler s) = racp_proc_record_idx s"
  by (simp_all add: gls_timer_handler_def glucose_measurement_simulation_def Let_def)

lemma gls_racp_write_ok:
  assumes "ctx_ok gls_db_ok s" "racp_ccc s = 0 \<or> length buf \<noteq> 9 \<or> off \<noteq> 0"
  shows "\<exists>r t. gls_racp_write buf off s = Inr (r, t) \<and> ctx_ok gls_db_ok t \<and>
    racp_proc_operator t = racp_proc_operator s \<and> racp_proc_record_idx t = racp_proc_record_idx s"
proof (cases "unat off + length buf \<le> 9")
  case True
  with assms(2) have "racp_ccc s = 0 \<or> length buf \<le> 8" using unat_eq_zero [of off] by auto
  with racp_decode_ok [of "racp_request s" buf] assms(1) show ?thesis
    by (auto simp: gls_racp_write_def gls_racp_decode_def ctx_ok_def Let_def)
qed (use assms(1) in \<open>auto simp: gls_racp_write_def\<close>)

lemma gls_callback_ok:
  assumes "ctx_ok gls_db_ok s" "gls_event_safe e (a, s)"
  shows "\<exists>t. gls_callback e s = Inr t \<and> ctx_ok gls_db_ok t \<and>
    racp_proc_operator t = racp_proc_operator s \<and> racp_proc_record_idx t = racp_proc_record_idx s"
proof (cases e)
  case (Gls_Racp_Write buf off)
  with gls_racp_write_ok [OF assms(1), of buf off] assms(2) show ?thesis
    by (auto simp: gls_callback_def gls_event_safe_def)
next
  case Gls_Delete
  with assms(1) all_plain_ops(2) [of "db s"] show ?thesis
    by (simp add: gls_callback_def glucose_measurement_delete_def ctx_ok_def gls_db_ok_def gls_db_record_delete_all_def
        db_count_ok_reset)
qed (use assms(1) gls_tick_ok [of s] in \<open>simp_all add: gls_callback_def
  gls_glucose_meas_ccc_cfg_changed_def gls_glucose_meas_context_ccc_cfg_changed_def gls_racp_ccc_cfg_changed_def
  gls_indicate_rsp_def racp_indicate_rsp_def gls_state_reset_def gls_state_set_def\<close>)

lemma gls_wake_ok:
  assumes "gls_sys_ok (True, s)"
  shows "\<exists>a t. gls_racp_wake env s = Inr (a, t) \<and> gls_sys_ok (a, t)"
proof -
  from assms have s: "ctx_ok gls_db_ok s" "racp_proc_operator s = RACP_OPERATOR_ALL" by (simp_all add: gls_sys_ok_def)
  from gls_plain.wake_returns [OF s, of env] obtain a t where
    t: "gls_racp_wake env s = Inr (a, t)" "same_request s t"
    "a \<longrightarrow> unat (racp_proc_record_idx t) < length (db_contents (db s))"
    unfolding gls_racp_wake_def by blast
  have "length (db_contents (db s)) \<le> MAX_RECORDS" using s(1) gls_plain.contents_bound by (simp add: ctx_ok_def)
  with t s same_request_ctx_ok [OF t(2), of gls_db_ok] show ?thesis
    by (intro exI [of _ a] exI [of _ t]) (auto simp: gls_sys_ok_def same_request_def)
qed

lemma gls_handle_start_ok:
  assumes "ctx_ok gls_db_ok s" "racp_state s = STATE_NO_COMM \<and> delete_last_request s \<longrightarrow> is_in_use (slots (db s) ! 19)"
  shows "\<exists>a t. gls_racp_handle_start env s = Inr (a, t) \<and> gls_sys_ok (a, t)"
  using gls_plain.start_ok [OF assms(1) gls_sys_plain [OF assms(1)] assms(2), of env]
  by (auto simp: gls_racp_handle_start_def gls_sys_ok_def)

lemma gls_event_step_ok:
  assumes "gls_sys_ok sys" "gls_event_safe e sys"
  shows "\<exists>sys'. gls_event_step env e sys = Inr sys' \<and> gls_sys_ok sys'"
proof -
  obtain a s where sys: "sys = (a, s)" by fastforce
  with assms have ok: "gls_sys_ok (a, s)" "gls_event_safe e (a, s)" "ctx_ok gls_db_ok s" by (simp_all add: gls_sys_ok_def)
  consider "e = Gls_Racp_Work" | "e = Gls_Racp_Wake" | "e \<notin> {Gls_Racp_Work, Gls_Racp_Wake}" by blast
  then show ?thesis
  proof cases
    case 1
    let ?s = "s\<lparr>racp_work_submitted := False\<rparr>"
    have "ctx_ok gls_db_ok ?s" "delete_last_request ?s = delete_last_request s"
      using ok(3) by (simp_all add: delete_last_request_def)
    with 1 ok sys gls_handle_start_ok [of ?s env] show ?thesis
      by (auto simp: gls_event_step_def gls_event_safe_def)
  next
    case 2
    show ?thesis
    proof (cases a)
      case True
      with gls_wake_ok [of s env] ok(1) obtain b t where "gls_racp_wake env s = Inr (b, t)" "gls_sys_ok (b, t)" by auto
      with 2 sys True show ?thesis by (simp add: gls_event_step_def)
    qed (use 2 sys ok(1) in \<open>simp add: gls_event_step_def\<close>)
  next
    case 3
    obtain t where t: "gls_callback e s = Inr t" "ctx_ok gls_db_ok t"
      "racp_proc_operator t = racp_proc_operator s" "racp_proc_record_idx t = racp_proc_record_idx s"
      using gls_callback_ok [OF ok(3,2)] by blast
    have "gls_event_step env e sys = Inr (a, t)" using 3 sys t(1) by (cases e) (auto simp: gls_event_step_def)
    with ok(1) t show ?thesis by (auto simp: gls_sys_ok_def)
  qed
qed

lemma gls_event_step_bad:
  assumes "gls_sys_ok sys" "\<not> gls_event_safe e sys"
  shows "gls_event_step env e sys = Inl Out_Of_Bounds"
proof -
  obtain a s where sys: "sys = (a, s)" by fastforce
  with assms have ok: "ctx_ok gls_db_ok s" "\<not> gls_event_safe e (a, s)" by (simp_all add: gls_sys_ok_def)
  show ?thesis
  proof (cases e)
    case (Gls_Racp_Write buf off)
    with racp_decode_ok [of "racp_request s" buf] ok show ?thesis
      by (auto simp: sys gls_event_step_def gls_callback_def gls_event_safe_def gls_racp_write_def gls_racp_decode_def ctx_ok_def)
  next
    case Gls_Racp_Work
    let ?s = "s\<lparr>racp_work_submitted := False\<rparr>"
    have "ctx_ok gls_db_ok ?s" "racp_state ?s = STATE_NO_COMM" "delete_last_request ?s" "\<not> is_in_use (slots (db ?s) ! 19)"
      using ok Gls_Racp_Work by (simp_all add: delete_last_request_def gls_event_safe_def)
    from gls_plain.start_bad [OF this, of env] Gls_Racp_Work ok show ?thesis
      by (simp add: sys gls_event_step_def gls_event_safe_def gls_racp_handle_start_def)
  qed (use ok(2) in \<open>simp_all add: gls_event_safe_def\<close>)
qed

lemma gls_reachable_ok: "gls_reachable env sys \<Longrightarrow> gls_sys_ok sys"
proof (induction rule: gls_reachable.induct)
  case (gls_reach_init s)
  with gls_init_boot show ?case by (auto simp: gls_sys_ok_def gls_ok_iff)
next
  case (gls_reach_step sys e sys')
  with gls_event_step_ok [of sys e env] gls_event_step_bad [of sys e env] show ?case
    by (cases "gls_event_safe e sys") auto
qed



text \<open>
  As in the continuous glucose service, a refused write during a sleep replaces the opcode of the report, which
  then stops without a response and with the procedure still active.
\<close>

theorem gls_write_strands_report:
  assumes "gls_sys_ok (True, s)" "racp_state s = STATE_RACP_PROC_ACTIVE" "racp_ccc s \<noteq> 0"
    and "unat off + length buf \<le> SIZEOF_GLS_RACP"
    and "racp_decode (of_nat (length buf)) buf (racp_request s) = Inr req"
    and "racp_opcode req \<noteq> RACP_OPCODE_REPORT_RECS" "racp_opcode req \<noteq> RACP_OPCODE_ABORT_OPERATION"
  shows "gls_racp_write buf off s = Inr (BT_GATT_ERR GLS_ERR_PROCEDURE_IN_PROGRESS, s\<lparr>racp_request := req\<rparr>) \<and>
    (\<exists>t. rbind (gls_event_step env (Gls_Racp_Write buf off) (True, s)) (gls_event_step env Gls_Racp_Wake) = Inr (False, t) \<and>
       racp_state t = STATE_RACP_PROC_ACTIVE \<and> trace t = trace s)"
  using assms
  by (simp add: gls_racp_write_def gls_racp_decode_def gls_event_step_def gls_callback_def gls_racp_wake_def racp_wake_def
      report_return_def report_until_sleep_def c_while_unfold [of _ "report_pass _"] report_pass_def)

section \<open>Records over time\<close>

lemma gls_tick_vars: "systick (gvars (gls_timer_handler s)) = systick (gvars s) + 1"
  by (simp add: gls_timer_handler_def Let_def gls_simulation_db)

lemma gls_tick_db:
  "db (gls_timer_handler s) =
     (if sint (systick (gvars s) + 1) mod 5 = 0 \<and> unat (gls_db_num_records_get (db s)) < MAX_RECORDS
      then snd (gls_db_record_add \<lparr>gr_meas = simulated_meas UNIT_MOL_L (record_next_seq_num (gvars s) + 1) (systick (gvars s) + 1),
        gr_context = zero_context\<rparr> (db s)) else db s)"
  "record_next_seq_num (gvars (gls_timer_handler s)) =
     (if sint (systick (gvars s) + 1) mod 5 = 0 \<and> unat (gls_db_num_records_get (db s)) < MAX_RECORDS
      then record_next_seq_num (gvars s) + 1 else record_next_seq_num (gvars s))"
  by (simp_all add: gls_timer_handler_def Let_def gls_simulation_db)

lemma gls_tick_due: "Suc n < 32768 \<Longrightarrow> sint (of_nat n + 1 :: s16) mod 5 = 0 \<longleftrightarrow> Suc n mod 5 = 0"
proof -
  assume n: "Suc n < 32768"
  have "sint (of_nat n + 1 :: s16) = sint (of_nat (Suc n) :: s16)" by (simp add: add.commute)
  also have "\<dots> = int (Suc n)" using n by (simp only: signed_of_nat) (simp add: signed_take_bit_int_eq_self)
  finally show ?thesis by (metis int_ops(3) of_nat_mod of_nat_eq_0_iff of_nat_numeral)
qed

text \<open>
  From power-on, \<open>n\<close> timer ticks (before the signed counter wraps) leave one record for every fifth
  tick, up to the capacity, with sequence numbers 1, 2, 3, and so on in database order and the tick as its
  time offset.
\<close>

theorem gls_tick_records:
  assumes "gls_init gls_boot = Inr (0, s)" "n < 32768" "t = (gls_timer_handler ^^ n) s"
  shows "systick (gvars t) = of_nat n \<and> db_compact (db t) \<and> record_next_seq_num (gvars t) = of_nat (min 20 (n div 5)) \<and>
    map (\<lambda>r. (gm_sequence_number (gr_meas r), gm_time_offset (gr_meas r))) (db_contents (db t)) =
      map (\<lambda>i. (of_nat (Suc i), of_nat (5 * Suc i))) [0..<min 20 (n div 5)]"
  using assms(2) unfolding assms(3)
proof (induction n)
  case 0
  from gls_init_boot assms(1) show ?case by auto
next
  case (Suc n)
  let ?view = "\<lambda>r. (gm_sequence_number (gr_meas r), gm_time_offset (gr_meas r))"
  define u where "u = (gls_timer_handler ^^ n) s"
  have IH: "systick (gvars u) = of_nat n" "db_compact (db u)" "record_next_seq_num (gvars u) = of_nat (min 20 (n div 5))"
    "map ?view (db_contents (db u)) = map (\<lambda>i. (of_nat (Suc i), of_nat (5 * Suc i))) [0..<min 20 (n div 5)]"
    using Suc by (simp_all add: u_def)
  have len: "length (db_contents (db u)) = min 20 (n div 5)" using arg_cong [OF IH(4), of length] by simp
  with gls_db.num_contents [OF IH(2)] have num: "unat (gls_db_num_records_get (db u)) = min 20 (n div 5)" by simp
  note due = gls_tick_due [OF Suc.prems]
  have "db_compact (db (gls_timer_handler u)) \<and>
    record_next_seq_num (gvars (gls_timer_handler u)) = of_nat (min 20 (Suc n div 5)) \<and>
    map ?view (db_contents (db (gls_timer_handler u))) =
      map (\<lambda>i. (of_nat (Suc i), of_nat (5 * Suc i))) [0..<min 20 (Suc n div 5)]"
  proof (cases "Suc n mod 5 = 0 \<and> n div 5 < 20")
    case True
    let ?r = "\<lparr>gr_meas = simulated_meas UNIT_MOL_L (of_nat (n div 5) + 1) (of_nat n + 1), gr_context = zero_context\<rparr>"
    from True have d: "Suc n div 5 = Suc (n div 5)" and m: "min 20 (n div 5) = n div 5" by (simp_all add: div_Suc)
    have n: "5 * Suc (n div 5) = Suc n" unfolding d [symmetric] using True by (metis dvd_eq_mod_eq_0 dvd_mult_div_cancel)
    have db: "db (gls_timer_handler u) = snd (gls_db_record_add ?r (db u))"
      using True num m IH(1,3) due by (simp add: gls_tick_db)
    have seq: "record_next_seq_num (gvars (gls_timer_handler u)) = of_nat (Suc (n div 5))"
      using True num m IH(1,3) due by (simp add: gls_tick_db add.commute)
    have view: "?view ?r = (of_nat (Suc (n div 5)), of_nat (5 * Suc (n div 5)))"
      unfolding n by (simp add: simulated_meas_def add.commute)
    have "min 20 (Suc n div 5) = Suc (n div 5)" using True d by simp
    then show ?thesis
      using gls_db.add_contents [OF IH(2), of ?r] True len db seq m IH(4) view
      by (simp del: of_nat_mult of_nat_Suc mult_Suc_right)
  next
    case False
    then have "min 20 (Suc n div 5) = min 20 (n div 5)" by (auto simp: div_Suc)
    with False num IH due show ?thesis by (auto simp: gls_tick_db)
  qed
  then show ?case using IH(1) by (simp add: gls_tick_vars add.commute flip: u_def)
qed

theorem gls_tick_records_witness:
  "\<exists>s. gls_init gls_boot = Inr (0, s) \<and>
     map (\<lambda>r. (gm_sequence_number (gr_meas r), gm_time_offset (gr_meas r))) (db_contents (db ((gls_timer_handler ^^ 12) s))) =
       [(1, 5), (2, 10)]"
proof -
  from gls_init_boot obtain s where s: "gls_init gls_boot = Inr (0, s)" by blast
  from gls_tick_records [OF s _ refl, of 12] s show ?thesis by (auto simp: upt_rec)
qed

section \<open>Concrete states\<close>

definition gls_pending :: "u8 \<Rightarrow> u8 \<Rightarrow> gls_record list \<Rightarrow> gls_state" where
  "gls_pending opc opr rs = gls_boot\<lparr>racp_ccc := 1,
     racp_request := \<lparr>racp_opcode = opc, racp_operator = opr, racp_operand_len = 0, racp_operand = replicate 6 0\<rparr>,
     db := fold (\<lambda>r. snd \<circ> gls_db_record_add r) rs (db gls_boot)\<rparr>"

lemma gls_boot_db: "db_compact (db gls_boot)" "db_contents (db gls_boot) = []" "all_plain (db gls_boot)"
  by (simp_all add: gls_boot_def db_compact_def db_contents_def all_plain_def plain_record_def zero_meas_def flag_set_def)

lemma gls_pending_db:
  "length rs \<le> 20 \<Longrightarrow> db_contents (db (gls_pending opc opr rs)) = rs \<and> db_count_ok (db (gls_pending opc opr rs))"
  using gls_db.fold_add_contents [OF gls_boot_db(1), of rs] gls_boot_db(2)
  by (simp add: gls_pending_def compact_count_ok)

lemma gls_pending_simps [simp]:
  "racp_request (gls_pending opc opr rs) = \<lparr>racp_opcode = opc, racp_operator = opr, racp_operand_len = 0, racp_operand = replicate 6 0\<rparr>"
  "racp_ccc (gls_pending opc opr rs) = 1" "racp_indicating (gls_pending opc opr rs) = 0" "trace (gls_pending opc opr rs) = []"
  "racp_state (gls_pending opc opr rs) = STATE_NO_COMM" "length (racp_buf (gls_pending opc opr rs)) = 32"
  by (simp_all add: gls_pending_def gls_boot_def)

definition demo_context_record :: gls_record where
  "demo_context_record = \<lparr>gr_meas = zero_meas\<lparr>gm_flags := GLS_MEAS_FLAG_CONTEXT_INFO\<rparr>, gr_context = zero_context\<rparr>"

theorem gls_report_exact_witness:
  "\<exists>t. gls_racp_handle env_always_ok (gls_pending 1 6 [\<lparr>gr_meas = zero_meas, gr_context = zero_context\<rparr>, demo_context_record]) = Inr t \<and>
     trace t = [Notify 2 (gls_meas_encode (gr_meas demo_context_record)) 0, Notify 5 (gls_meas_context_encode zero_context) 0,
       Indicate 10 [6, 0, 1, 1] 0]"
  using gls_report_exact [of "gls_pending 1 6 [\<lparr>gr_meas = zero_meas, gr_context = zero_context\<rparr>, demo_context_record]" env_always_ok 0,
      OF _ _ _ _ _ _ _ _ refl] gls_pending_db [of "[\<lparr>gr_meas = zero_meas, gr_context = zero_context\<rparr>, demo_context_record]" 1 6]
  by (auto simp: ctx_ok_def report_request_check_def operand_filter_def arr_get_def report_select_def gls_emit_def
      plain_record_def demo_context_record_def flag_set_def)

theorem gls_report_returns_witness:
  "\<exists>t. gls_racp_handle (env_always_ok\<lparr>env_notify := \<lambda>_ _ _. - 1\<rparr>) (gls_pending 1 1 [\<lparr>gr_meas = zero_meas, gr_context = zero_context\<rparr>]) = Inr t \<and>
     racp_state t = STATE_NO_COMM"
proof -
  let ?s = "gls_pending 1 1 [\<lparr>gr_meas = zero_meas, gr_context = zero_context\<rparr>]"
  have "all_plain (db ?s)"
    using all_plain_ops(1) [OF gls_boot_db(3)] by (simp add: gls_pending_def plain_record_def zero_meas_def flag_set_def)
  then have "gls_ok ?s" using gls_pending_db [of "[\<lparr>gr_meas = zero_meas, gr_context = zero_context\<rparr>]"] by (simp add: gls_ok_alt ctx_ok_def)
  from gls_report_returns [OF this] show ?thesis by auto
qed

theorem gls_report_diverges_witness:
  "gls_racp_handle \<lparr>env_notify = \<lambda>_ a _. if a = 2 then - 1 else 0, env_indicate = \<lambda>_ _ _. 0\<rparr> (gls_pending 1 5 [demo_context_record])
     = Inl Diverges"
  by (rule gls_report_diverges [where rs = "[]" and r = demo_context_record and opd = "replicate 6 0"])
     (use gls_pending_db [of "[demo_context_record]" 1 5] in
       \<open>simp_all add: ctx_ok_def plain_record_def demo_context_record_def flag_set_def\<close>)

end
