(* ===== verification/Hrs.thy ===== *)
theory Hrs
  imports Types_Encode Gatt_Env "HOL-Library.Sublist"
begin

unbundle bit_operations_syntax

text \<open>
  The heart rate service (\<^verbatim>\<open>samples/bluetooth/gatt/hrs.c\<close>): the simulated sensors, the buffer of RR intervals that a timer fills
  and a notification empties, the encoding of a measurement, and the control point. The buffer is shown to implement a bounded queue.
\<close>

section \<open>Simulated sensors\<close>

record sensorsim_cfg =
  sim_min :: u32
  sim_max :: u32
  sim_incr :: u32
  start_at_max :: bool

record sensorsim_state =
  current_val :: u32
  is_increasing :: bool

definition sensorsim_init :: "sensorsim_cfg \<Rightarrow> sensorsim_state" where
  "sensorsim_init c = (if start_at_max c then \<lparr>current_val = sim_max c, is_increasing = False\<rparr>
     else \<lparr>current_val = sim_min c, is_increasing = True\<rparr>)"

definition sensorsim_increment :: "sensorsim_cfg \<Rightarrow> sensorsim_state \<Rightarrow> sensorsim_state" where
  "sensorsim_increment c st = (if sim_max c - current_val st > sim_incr c then st\<lparr>current_val := current_val st + sim_incr c\<rparr>
     else st\<lparr>current_val := sim_max c, is_increasing := False\<rparr>)"

definition sensorsim_decrement :: "sensorsim_cfg \<Rightarrow> sensorsim_state \<Rightarrow> sensorsim_state" where
  "sensorsim_decrement c st = (if current_val st - sim_min c > sim_incr c then st\<lparr>current_val := current_val st - sim_incr c\<rparr>
     else st\<lparr>current_val := sim_min c, is_increasing := True\<rparr>)"

definition sensorsim_measure :: "sensorsim_cfg \<Rightarrow> sensorsim_state \<Rightarrow> u32 \<times> sensorsim_state" where
  "sensorsim_measure c st = (let st = (if is_increasing st then sensorsim_increment c st else sensorsim_decrement c st) in (current_val st, st))"

section \<open>State\<close>

abbreviation (input) "BT_HRS_MAX_BUFFERED_RR_INTERVALS \<equiv> 20 :: nat"
abbreviation (input) "BT_GATT_HRM_MAX_SIZE \<equiv> 45 :: nat"
abbreviation (input) "MAX_HRM_LEN \<equiv> 20 :: nat"
abbreviation (input) "HRM_INITIAL_VALUE \<equiv> 100 :: u16"
abbreviation (input) "HRM_MAX_VALUE \<equiv> 280 :: u16"
abbreviation (input) "HRS_ERR_CONTROL_POINT_NOT_SUPPORT \<equiv> 0x80 :: int"

record bt_gatt_hrm =
  hrm_flags :: u8
  hrm_value :: u16
  energy_expended :: u16
  rr_interval :: "u16 list"
  rr_interval_count :: u16

record bt_gatt_hrs =
  hrm :: bt_gatt_hrm
  body_sensor_location :: u8
  heart_rate_control_point :: u8
  is_heart_rate_value_format_uint16 :: bool
  is_sensor_contact_detected :: bool
  is_sensor_contact_supported :: bool
  is_energy_expended_present :: bool
  is_rr_interval_present :: bool

record hrs_state =
  gatt_hrs :: bt_gatt_hrs
  simulate_hrm :: u8
  heartrate :: u16
  energy_cfg :: sensorsim_cfg
  energy_sim :: sensorsim_state
  rr_cfg :: sensorsim_cfg
  rr_sim :: sensorsim_state
  hrs_trace :: "gatt_call list"

section \<open>Operations\<close>

definition hrmc_ccc_cfg_changed :: "u16 \<Rightarrow> hrs_state \<Rightarrow> hrs_state" where
  "hrmc_ccc_cfg_changed value s = s\<lparr>simulate_hrm := (if value = BT_GATT_CCC_NOTIFY then 1 else 0)\<rparr>"

definition read_blsc :: "attr_read \<Rightarrow> hrs_state \<Rightarrow> nat \<Rightarrow> nat \<Rightarrow> int \<times> bytes" where
  "read_blsc rd s len offset = rd len offset [body_sensor_location (gatt_hrs s)]"

definition hrs_write_ctrl_point :: "bytes \<Rightarrow> u16 \<Rightarrow> hrs_state \<Rightarrow> (int \<times> hrs_state) res" where
  "hrs_write_ctrl_point buf offset s =
     rbind (arr_get buf 0) (\<lambda>hrcp.
     if hrcp \<noteq> 1 then Inr (BT_GATT_ERR HRS_ERR_CONTROL_POINT_NOT_SUPPORT, s)
     else if unat offset + length buf > 1 then Inr (BT_GATT_ERR BT_ATT_ERR_INVALID_OFFSET, s)
     else rbind (mem_cpy [heart_rate_control_point (gatt_hrs s)] (unat offset) buf (length buf)) (\<lambda>v.
       let g = gatt_hrs s in
       Inr (int (length buf), s\<lparr>gatt_hrs := g\<lparr>heart_rate_control_point := hd v, hrm := (hrm g)\<lparr>energy_expended := 0\<rparr>\<rparr>\<rparr>)))"

text \<open>A full buffer loses its oldest value.\<close>

definition bt_hrs_rr_interval_timer_handler :: "hrs_state \<Rightarrow> hrs_state res" where
  "bt_hrs_rr_interval_timer_handler s =
     (if is_rr_interval_present (gatt_hrs s)
      then let (v, sim) = sensorsim_measure (rr_cfg s) (rr_sim s); s = s\<lparr>rr_sim := sim\<rparr>; g = gatt_hrs s; h = hrm g in
        rbind (if unat (rr_interval_count h) = BT_HRS_MAX_BUFFERED_RR_INTERVALS
               then rbind (mem_cpy (rr_interval h) 0 (drop 1 (rr_interval h)) (BT_HRS_MAX_BUFFERED_RR_INTERVALS - 1)) (\<lambda>rr.
                 Inr (h\<lparr>rr_interval := rr, rr_interval_count := rr_interval_count h - 1\<rparr>))
               else Inr h) (\<lambda>h.
        rbind (arr_set (rr_interval h) (unat (rr_interval_count h)) (ucast v)) (\<lambda>rr.
        Inr (s\<lparr>gatt_hrs := g\<lparr>hrm := h\<lparr>rr_interval := rr, rr_interval_count := rr_interval_count h + 1\<rparr>\<rparr>\<rparr>)))
      else Inr s)"

definition bt_hrs_energy_expended_timer_handler :: "hrs_state \<Rightarrow> hrs_state" where
  "bt_hrs_energy_expended_timer_handler s =
     (if is_energy_expended_present (gatt_hrs s)
      then let (v, sim) = sensorsim_measure (energy_cfg s) (energy_sim s); g = gatt_hrs s; h = hrm g in
        s\<lparr>energy_sim := sim, gatt_hrs := g\<lparr>hrm := h\<lparr>energy_expended := energy_expended h + ucast v\<rparr>\<rparr>\<rparr>
      else s)"

definition sensor_simulator_init :: "hrs_state \<Rightarrow> hrs_state" where
  "sensor_simulator_init s =
     (let ec = \<lparr>sim_min = 0, sim_max = 65535, sim_incr = 10, start_at_max = False\<rparr>;
          rc = \<lparr>sim_min = 100, sim_max = 500, sim_incr = 1, start_at_max = False\<rparr> in
      s\<lparr>energy_cfg := ec, energy_sim := sensorsim_init ec, rr_cfg := rc, rr_sim := sensorsim_init rc\<rparr>)"

text \<open>
  The loop over the buffered intervals: it stops at the end of the message, and moves what is left to the start of the buffer. The result is the
  number of intervals encoded, the buffer, the length and the message.
\<close>

function encode_rr :: "u16 list \<Rightarrow> nat \<Rightarrow> nat \<Rightarrow> u8 \<Rightarrow> bytes \<Rightarrow> (nat \<times> u16 list \<times> u8 \<times> bytes) res" where
  "encode_rr rr cnt i len buf =
     (if i < cnt
      then if unat len + 2 > MAX_HRM_LEN
        then rbind (mem_cpy rr 0 (drop i rr) (cnt - i)) (\<lambda>rr. Inr (i, rr, len, buf))
        else rbind (arr_get rr i) (\<lambda>v. rbind (mem_cpy buf (unat len) (u16_encode v) 2) (\<lambda>buf. encode_rr rr cnt (i + 1) (len + 2) buf))
      else Inr (i, rr, len, buf))"
  by pat_completeness auto
termination by (relation "measure (\<lambda>(rr, cnt, i, len, buf). cnt - i)") auto

declare encode_rr.simps [simp del]

definition hrm_encode :: "bt_gatt_hrs \<Rightarrow> bytes \<Rightarrow> bool \<Rightarrow> (u8 \<times> bytes \<times> bt_gatt_hrs) res" where
  "hrm_encode g buf energy_expended_included =
     (let h = hrm g in
      rbind (if hrm_value h > 0xff
             then rbind (mem_cpy buf 1 (u16_encode (hrm_value h)) 2) (\<lambda>buf. Inr (3, buf, h\<lparr>hrm_flags := hrm_flags h OR 1\<rparr>))
             else rbind (arr_set buf 1 (ucast (hrm_value h))) (\<lambda>buf. Inr (2, buf, h\<lparr>hrm_flags := hrm_flags h AND NOT 1\<rparr>))) (\<lambda>(len, buf, h).
      rbind (if energy_expended_included
             then if is_energy_expended_present g
               then rbind (mem_cpy buf (unat len) (u16_encode (energy_expended h)) 2) (\<lambda>buf. Inr (len + 2, buf)) else Inr (len, buf)
             else Inr (len + 2, buf)) (\<lambda>(len, buf).
      let h = (if rr_interval_count h > 0 then h\<lparr>hrm_flags := hrm_flags h OR 0x10\<rparr> else h) in
      rbind (encode_rr (rr_interval h) (unat (rr_interval_count h)) 0 len buf) (\<lambda>(i, rr, len, buf).
      let h = h\<lparr>rr_interval := rr, rr_interval_count := rr_interval_count h - of_nat i\<rparr> in
      rbind (arr_set buf 0 (hrm_flags h)) (\<lambda>buf. Inr (len, buf, g\<lparr>hrm := h\<rparr>))))))"

definition hrs_init :: "u8 \<Rightarrow> hrs_state \<Rightarrow> hrs_state" where
  "hrs_init blsc s =
     (let h = \<lparr>hrm_flags = 0x02 OR 0x04 OR 0x08 OR 0x10, hrm_value = HRM_INITIAL_VALUE, energy_expended = 0,
               rr_interval = replicate BT_HRS_MAX_BUFFERED_RR_INTERVALS 0, rr_interval_count = 0\<rparr>;
          g = \<lparr>hrm = h, body_sensor_location = (if blsc \<le> 6 then blsc else 3), heart_rate_control_point = 0,
               is_heart_rate_value_format_uint16 = False, is_sensor_contact_detected = True, is_sensor_contact_supported = True,
               is_energy_expended_present = True, is_rr_interval_present = True\<rparr> in
      sensor_simulator_init (s\<lparr>gatt_hrs := g\<rparr>))"

definition hrs_notify :: "gatt_env \<Rightarrow> hrs_state \<Rightarrow> hrs_state res" where
  "hrs_notify env s =
     (if simulate_hrm s = 0 then Inr s
      else let hr = heartrate s + 1; hr = (if hr = HRM_MAX_VALUE then HRM_INITIAL_VALUE else hr); g = gatt_hrs s;
               s = s\<lparr>heartrate := hr\<rparr>; g = g\<lparr>hrm := (hrm g)\<lparr>hrm_value := hr\<rparr>\<rparr> in
        rbind (hrm_encode g (replicate BT_GATT_HRM_MAX_SIZE 0) (is_energy_expended_present g)) (\<lambda>(len, buf, g).
        Inr (s\<lparr>gatt_hrs := g, hrs_trace := snd (bt_gatt_notify env 2 (take (unat len) buf) (hrs_trace s))\<rparr>)))"

section \<open>The encoding\<close>

text \<open>How many intervals fit behind the first \<open>n\<close> bytes.\<close>

definition rr_room :: "nat \<Rightarrow> nat" where
  "rr_room n = (MAX_HRM_LEN - n) div 2"

lemma u8_add_2: "unat (len :: u8) \<le> 18 \<Longrightarrow> unat (len + 2) = unat len + 2"
  by (simp add: unat_word_ariths)

lemma encode_rr_exact:
  assumes "i \<le> cnt" "cnt \<le> length rr" "unat len \<le> MAX_HRM_LEN" "MAX_HRM_LEN \<le> length buf"
  shows "\<exists>rr' len' buf'. encode_rr rr cnt i len buf = Inr (i + min (cnt - i) (rr_room (unat len)), rr', len', buf') \<and>
    length rr' = length rr \<and> length buf' = length buf \<and> unat len' = unat len + 2 * min (cnt - i) (rr_room (unat len)) \<and>
    take (cnt - (i + min (cnt - i) (rr_room (unat len)))) rr' = drop (i + min (cnt - i) (rr_room (unat len))) (take cnt rr) \<and>
    take (unat len') buf' = take (unat len) buf @ concat (map u16_encode (take (min (cnt - i) (rr_room (unat len))) (drop i rr)))"
  using assms
proof (induction rr cnt i len buf rule: encode_rr.induct)
  case (1 rr cnt i len buf)
  consider (end_of_list) "i = cnt" | (full) "i < cnt" "18 < unat len" | (more) "i < cnt" "unat len \<le> 18" using "1.prems"(1) by linarith
  then show ?case
  proof cases
    case end_of_list
    then show ?thesis by (simp add: encode_rr.simps)
  next
    case full
    then have "rr_room (unat len) = 0" by (simp add: rr_room_def)
    moreover have "cnt - i \<le> length rr - i" "cnt - i \<le> length rr" using "1.prems"(2) by auto
    ultimately show ?thesis using full "1.prems" by (subst encode_rr.simps) (simp add: mem_cpy_def drop_take)
  next
    case more
    let ?buf = "take (unat len) buf @ u16_encode (rr ! i) @ drop (unat len + 2) buf"
    have g: "arr_get rr i = Inr (rr ! i)" using more "1.prems"(2) by (simp add: arr_get_def)
    have c: "mem_cpy buf (unat len) (u16_encode (rr ! i)) 2 = Inr ?buf" using more "1.prems"(4) by (simp add: mem_cpy_def)
    have s: "encode_rr rr cnt i len buf = encode_rr rr cnt (i + 1) (len + 2) ?buf" using more g c by (subst encode_rr.simps) simp
    have l: "unat (len + 2) = unat len + 2" using u8_add_2 more by simp
    define k where "k = min (cnt - (i + 1)) (rr_room (unat len + 2))"
    have room: "rr_room (unat len) = Suc (rr_room (unat len + 2))" using more by (simp add: rr_room_def)
    then have k: "min (cnt - i) (rr_room (unat len)) = Suc k" using more by (simp add: k_def)
    have d: "take (Suc k) (drop i rr) = rr ! i # take k (drop (i + 1) rr)"
      using more "1.prems"(2) by (simp add: Cons_nth_drop_Suc [symmetric])
    have lb: "length ?buf = length buf" using more "1.prems"(4) by simp
    have q: "\<not> unat len + 2 > MAX_HRM_LEN" "i + 1 \<le> cnt" "unat (len + 2) \<le> MAX_HRM_LEN" "MAX_HRM_LEN \<le> length ?buf"
      using more l lb "1.prems"(4) by simp_all
    note ih = "1.IH" [OF more(1) q(1) g c q(2) "1.prems"(2) q(3,4), unfolded l, folded k_def]
    obtain rr' len' buf' where e: "encode_rr rr cnt (i + 1) (len + 2) ?buf = Inr (i + 1 + k, rr', len', buf')"
      "length rr' = length rr" "length buf' = length ?buf" "unat len' = unat len + 2 + 2 * k"
      "take (cnt - (i + 1 + k)) rr' = drop (i + 1 + k) (take cnt rr)"
      "take (unat len') buf' = take (unat len + 2) ?buf @ concat (map u16_encode (take k (drop (i + 1) rr)))"
using ih by blast
    have b: "take (unat len + 2) ?buf = take (unat len) buf @ u16_encode (rr ! i)" using more "1.prems"(4) by simp
    show ?thesis using s e b lb unfolding k d by simp
  qed
qed

text \<open>The reading of a measurement that the profile prescribes: the flags say how the rate is encoded and what follows.\<close>

fun u16_pairs :: "bytes \<Rightarrow> u16 list" where
  "u16_pairs (a # b # bs) = (ucast a OR push_bit 8 (ucast b)) # u16_pairs bs"
| "u16_pairs _ = []"

definition hrm_read :: "bytes \<Rightarrow> u16 \<times> u16 option \<times> u16 list" where
  "hrm_read msg =
     (let fl = hd msg; body = tl msg;
          (hr, body) = (if bit fl 0 then (hd (u16_pairs body), drop 2 body) else (ucast (hd body), drop 1 body));
          (e, body) = (if bit fl 3 then (Some (hd (u16_pairs body)), drop 2 body) else (None, body)) in
      (hr, e, if bit fl 4 then u16_pairs body else []))"

lemma u16_pairs_encode: "u16_pairs (u16_encode v @ bs) = v # u16_pairs bs"
proof -
  obtain a b where ab: "u16_encode v = [a, b]" by (simp add: u16_encode_def)
  have "u16_encode v = u16_encode (ucast a OR push_bit 8 (ucast b))" using ab by simp
  then have "v = ucast a OR push_bit 8 (ucast b)" unfolding u16_encode_inj .
  then show ?thesis using ab by simp
qed

lemma u16_pairs_concat: "u16_pairs (concat (map u16_encode vs)) = vs"
  by (induction vs) (simp_all add: u16_pairs_encode)

text \<open>The intervals that wait in the buffer.\<close>

definition rr_queue :: "bt_gatt_hrs \<Rightarrow> u16 list" where
  "rr_queue g = take (unat (rr_interval_count (hrm g))) (rr_interval (hrm g))"

definition hrm_ok :: "bt_gatt_hrs \<Rightarrow> bool" where
  "hrm_ok g \<longleftrightarrow> is_energy_expended_present g \<and> is_rr_interval_present g \<and> bit (hrm_flags (hrm g)) 3 \<and> bit (hrm_flags (hrm g)) 4 \<and>
     length (rr_interval (hrm g)) = 20 \<and> unat (rr_interval_count (hrm g)) \<le> 20"

definition sent_at_once :: "u16 \<Rightarrow> nat" where
  "sent_at_once hr = (if hr > 0xff then 7 else 8)"

lemma hrm_read_wide: "hrm_read (fl # u16_encode v @ u16_encode e @ rest) = (v, Some e, u16_pairs rest)"
  if "bit fl 0" "bit fl 3" "bit fl 4"
  using that u16_pairs_encode [of v "u16_encode e @ rest"] u16_pairs_encode [of e rest] by (simp add: hrm_read_def u16_encode_def)

lemma hrm_read_narrow: "hrm_read (fl # b # u16_encode e @ rest) = (ucast b, Some e, u16_pairs rest)"
  if "\<not> bit fl 0" "bit fl 3" "bit fl 4"
  using that u16_pairs_encode [of e rest] by (simp add: hrm_read_def u16_encode_def)

lemma hrm_read_message:
  assumes "bit fl 0 = (255 < v)" "bit fl 3" "bit fl 4"
  shows "hrm_read (fl # (if 255 < v then u16_encode v else [ucast v]) @ u16_encode e @ rest) = (v, Some e, u16_pairs rest)"
proof -
  have "ucast (ucast v :: u8) = v" if "v \<le> 255"
    using that by (simp add: word_unat_eq_iff unsigned_ucast_eq word_le_nat_alt unsigned_take_bit_eq take_bit_nat_eq_self_iff)
  then show ?thesis using assms hrm_read_wide hrm_read_narrow by (simp add: not_less)
qed

text \<open>The bytes before the intervals.\<close>

lemma hrm_encode_head:
  assumes "length buf = 45" "unat len = (if 255 < v then 3 else 2)"
  defines "rate \<equiv> (if 255 < v then u16_encode v else [ucast v :: u8])"
  shows "\<exists>buf1. (if 255 < v then mem_cpy buf 1 (u16_encode v) 2 else arr_set buf 1 (ucast v)) = Inr buf1 \<and>
    (\<exists>buf2. mem_cpy buf1 (unat len) (u16_encode e) 2 = Inr buf2 \<and> length buf2 = 45 \<and>
       take (unat len + 2) buf2 = hd buf # rate @ u16_encode e)"
proof -
  obtain b0 b1 bs where buf: "buf = b0 # b1 # bs" "length bs = 43" using assms(1) by (cases buf; cases "tl buf") auto
  show ?thesis using assms(2) buf by (auto simp: rate_def mem_cpy_def arr_set_def u16_encode_def numeral_3_eq_3 take_Cons')
qed

lemma or_set_bit: "bit fl 4 \<Longrightarrow> fl OR 0x10 = fl" for fl :: u8
proof -
  assume b: "bit fl 4"
  have "fl OR 2 ^ 4 = fl" by (rule bit_word_eqI) (use b in \<open>auto simp only: bit_or_iff bit_exp_iff\<close>)
  then show ?thesis by simp
qed

lemma hrm_encode_exact:
  assumes "hrm_ok g"
  defines "k \<equiv> min (length (rr_queue g)) (sent_at_once (hrm_value (hrm g)))"
  shows "\<exists>len buf g'. hrm_encode g (replicate BT_GATT_HRM_MAX_SIZE 0) True = Inr (len, buf, g') \<and> unat len \<le> MAX_HRM_LEN \<and> unat len \<le> length buf \<and>
    hrm_read (take (unat len) buf) = (hrm_value (hrm g), Some (energy_expended (hrm g)), take k (rr_queue g)) \<and>
    hrm_ok g' \<and> rr_queue g' = drop k (rr_queue g)"
proof -
  define h where "h = hrm g"
  define v where "v = hrm_value h"
  define c where "c = unat (rr_interval_count h)"
  define len :: u8 where "len = (if 255 < v then 3 else 2)"
  define fl where "fl = (if 255 < v then hrm_flags h OR 1 else hrm_flags h AND NOT 1)"
  let ?buf = "replicate 45 0 :: bytes"
  let ?rate = "if 255 < v then u16_encode v else [ucast v :: u8]"
  have ok: "is_energy_expended_present g" "is_rr_interval_present g" "bit (hrm_flags h) 3" "bit (hrm_flags h) 4" "length (rr_interval h) = 20" "c \<le> 20"
    using assms(1) by (simp_all add: hrm_ok_def h_def c_def)
  have len: "unat len = (if 255 < v then 3 else 2)" by (simp add: len_def)
  have len2: "unat (len + 2) = unat len + 2" using len by (intro u8_add_2) auto
  have flb: "bit fl 0 = (255 < v)" "bit fl 3" "bit fl 4"
    using ok(3,4) by (auto simp: fl_def bit_simps)
  obtain buf1 buf2 where b1: "(if 255 < v then mem_cpy ?buf 1 (u16_encode v) 2 else arr_set ?buf 1 (ucast v)) = Inr buf1"
    and b2: "mem_cpy buf1 (unat len) (u16_encode (energy_expended h)) 2 = Inr buf2" "length buf2 = 45"
      "take (unat len + 2) buf2 = hd ?buf # ?rate @ u16_encode (energy_expended h)"
    using hrm_encode_head [OF _ len, of ?buf "energy_expended h"] by (metis length_replicate)
  have room: "rr_room (unat (len + 2)) = sent_at_once v" using len len2 by (simp add: rr_room_def sent_at_once_def)
  have q: "length (rr_queue g) = c" using ok(5,6) by (simp add: rr_queue_def h_def c_def)
  have k: "min (c - 0) (rr_room (unat (len + 2))) = k" using q room by (simp add: k_def v_def h_def)
  obtain rr' len' buf3 where e: "encode_rr (rr_interval h) c 0 (len + 2) buf2 = Inr (k, rr', len', buf3)" "length rr' = 20" "length buf3 = 45"
    "unat len' = unat len + 2 + 2 * k" "take (c - k) rr' = drop k (take c (rr_interval h))"
    "take (unat len') buf3 = take (unat len + 2) buf2 @ concat (map u16_encode (take k (rr_interval h)))"
    using encode_rr_exact [of 0 c "rr_interval h" "len + 2" buf2, unfolded k] ok(5,6) b2(2) len len2 by (cases "255 < v") auto
  define h' where "h' = h\<lparr>hrm_flags := fl, rr_interval := rr', rr_interval_count := rr_interval_count h - of_nat k\<rparr>"
  have kc: "k \<le> c" "k \<le> 8" using q by (auto simp: k_def sent_at_once_def)
  then have cnt: "unat (rr_interval_count h - of_nat k) = c - k"
    using le_unat_uoi [of k "rr_interval_count h"] unfolding c_def by (simp add: unat_sub word_le_nat_alt)
  have "hrm_encode g ?buf True = Inr (len', buf3[0 := fl], g\<lparr>hrm := h'\<rparr>)"
  proof -
    have s: "arr_set buf3 0 x = Inr (buf3[0 := x])" for x using e(3) by (simp add: arr_set_def)
    show ?thesis
      using b1 b2(1) e(1) or_set_bit [OF flb(3)] ok(1)
      by (cases "255 < v") (simp_all add: hrm_encode_def Let_def h_def [symmetric] v_def [symmetric] c_def [symmetric] len_def fl_def s h'_def)
  qed
  moreover have "take (unat len') (buf3[0 := fl]) = fl # ?rate @ u16_encode (energy_expended h) @ concat (map u16_encode (take k (rr_interval h)))"
    using e(3,4,6) b2(3) by (simp add: take_update_swap)
  moreover have "hrm_read (fl # ?rate @ u16_encode (energy_expended h) @ concat (map u16_encode (take k (rr_interval h)))) =
      (v, Some (energy_expended h), take k (rr_queue g))"
    using hrm_read_message [OF flb] kc(1) by (simp add: u16_pairs_concat rr_queue_def h_def c_def)
  moreover have "unat len' \<le> 20" using e(4) len kc(2) room q by (auto simp: k_def sent_at_once_def v_def h_def split: if_splits)
  moreover have "hrm_ok (g\<lparr>hrm := h'\<rparr>)" "rr_queue (g\<lparr>hrm := h'\<rparr>) = drop k (rr_queue g)"
    using ok flb e(2,5) cnt by (simp_all add: hrm_ok_def h'_def rr_queue_def h_def c_def)
  ultimately show ?thesis using e(3) by (auto simp: v_def h_def)
qed

section \<open>The service as a bounded queue\<close>

text \<open>The events of the service: the two timers, the application's call, and the requests of the client.\<close>

datatype hrs_event = Rr_Tick | Energy_Tick | Hrs_Notify | Hrs_Ccc u16 | Hrs_Write bytes u16

definition hrs_do :: "gatt_env \<Rightarrow> hrs_event \<Rightarrow> hrs_state \<Rightarrow> hrs_state res" where
  "hrs_do env e s = (case e of
     Rr_Tick \<Rightarrow> bt_hrs_rr_interval_timer_handler s
   | Energy_Tick \<Rightarrow> Inr (bt_hrs_energy_expended_timer_handler s)
   | Hrs_Notify \<Rightarrow> hrs_notify env s
   | Hrs_Ccc v \<Rightarrow> Inr (hrmc_ccc_cfg_changed v s)
   | Hrs_Write buf off \<Rightarrow> rbind (hrs_write_ctrl_point buf off s) (\<lambda>(_, s). Inr s))"

definition hrs_step :: "gatt_env \<Rightarrow> hrs_state \<Rightarrow> hrs_event \<Rightarrow> hrs_state \<Rightarrow> bool" where
  "hrs_step env s e t \<longleftrightarrow> hrs_do env e s = Inr t"

definition RR_CFG :: sensorsim_cfg where
  "RR_CFG = \<lparr>sim_min = 100, sim_max = 500, sim_incr = 1, start_at_max = False\<rparr>"

text \<open>
  The specification: a queue of at most twenty intervals. A measurement is added at the end, and the oldest is dropped when the queue is full. To
  a subscribed client a notification hands over intervals from the front, at least seven when there are as many.
\<close>

record rr_spec =
  subscribed :: bool
  handed_over :: "u16 list"
  waiting :: "u16 list"
  sensor :: sensorsim_state

inductive rr_spec_step :: "rr_spec \<Rightarrow> hrs_event \<Rightarrow> rr_spec \<Rightarrow> bool" where
  measured: "sensorsim_measure RR_CFG (sensor a) = (v, st) \<Longrightarrow>
    rr_spec_step a Rr_Tick (a\<lparr>waiting := (if length (waiting a) < 20 then waiting a else tl (waiting a)) @ [ucast v], sensor := st\<rparr>)"
| sent: "subscribed a \<Longrightarrow> min 7 (length (waiting a)) \<le> k \<Longrightarrow>
    rr_spec_step a Hrs_Notify (a\<lparr>handed_over := handed_over a @ take k (waiting a), waiting := drop k (waiting a)\<rparr>)"
| unsubscribed: "\<not> subscribed a \<Longrightarrow> rr_spec_step a Hrs_Notify a"
| ccc: "rr_spec_step a (Hrs_Ccc v) (a\<lparr>subscribed := (v = BT_GATT_CCC_NOTIFY)\<rparr>)"
| energy: "rr_spec_step a Energy_Tick a"
| control: "rr_spec_step a (Hrs_Write buf off) a"

text \<open>The intervals in what was passed to the host, and the state of the queue.\<close>

fun rr_of_call :: "gatt_call \<Rightarrow> u16 list" where
  "rr_of_call (Notify a msg r) = snd (snd (hrm_read msg))"
| "rr_of_call (Indicate a msg r) = []"

definition rr_abs :: "hrs_state \<Rightarrow> rr_spec" where
  "rr_abs s = \<lparr>subscribed = (simulate_hrm s \<noteq> 0), handed_over = concat (map rr_of_call (hrs_trace s)), waiting = rr_queue (gatt_hrs s), sensor = rr_sim s\<rparr>"

definition hrs_ok :: "hrs_state \<Rightarrow> bool" where
  "hrs_ok s \<longleftrightarrow> hrm_ok (gatt_hrs s) \<and> rr_cfg s = RR_CFG"

lemma rr_queue_length: "hrm_ok g \<Longrightarrow> length (rr_queue g) = unat (rr_interval_count (hrm g)) \<and> length (rr_queue g) \<le> 20"
  by (simp add: rr_queue_def hrm_ok_def)

lemma push_rr:
  assumes "length rr = 20" "unat (c :: u16) \<le> 20"
  shows "\<exists>rr1 c1 rr2. (if unat c = 20 then rbind (mem_cpy rr 0 (drop 1 rr) (20 - 1)) (\<lambda>rr. Inr (rr, c - 1)) else Inr (rr, c)) = Inr (rr1, c1) \<and>
    arr_set rr1 (unat c1) v = Inr rr2 \<and> length rr2 = 20 \<and> unat (c1 + 1) \<le> 20 \<and>
    take (unat (c1 + 1)) rr2 = (if unat c < 20 then take (unat c) rr else tl (take (unat c) rr)) @ [v]"
proof (cases "unat c = 20")
  case True
  then have "c = 20" by (simp add: word_unat_eq_iff)
  moreover obtain x xs where "rr = x # xs" "length xs = 19" using assms(1) by (cases rr) auto
  moreover have "drop 19 rr = [rr ! 19]" using Cons_nth_drop_Suc [of 19 rr] assms(1) by simp
  ultimately show ?thesis using assms(1) by (simp add: mem_cpy_def arr_set_def list_update_append)
next
  case False
  then have c: "unat c < 20" "unat (c + 1) = Suc (unat c)" using assms(2) by (auto simp: unat_word_ariths)
  then have "take (unat (c + 1)) (rr[unat c := v]) = take (unat c) rr @ [v]"
    using assms(1) by (simp add: take_Suc_conv_app_nth)
  then show ?thesis using c assms(1) False by (simp add: arr_set_def)
qed

lemma rr_tick:
  assumes "hrs_ok s"
  shows "\<exists>t. bt_hrs_rr_interval_timer_handler s = Inr t \<and> hrs_ok t \<and> rr_spec_step (rr_abs s) Rr_Tick (rr_abs t)"
proof -
  obtain v st where m: "sensorsim_measure (rr_cfg s) (rr_sim s) = (v, st)" by fastforce
  define g where "g = gatt_hrs s"
  define h where "h = hrm g"
  have ok: "is_rr_interval_present g" "length (rr_interval h) = 20" "unat (rr_interval_count h) \<le> 20" "hrm_ok g" "rr_cfg s = RR_CFG"
    using assms by (simp_all add: hrs_ok_def hrm_ok_def g_def h_def)
  obtain rr1 c1 rr2 where p: "(if unat (rr_interval_count h) = 20 then rbind (mem_cpy (rr_interval h) 0 (drop 1 (rr_interval h)) (20 - 1))
      (\<lambda>rr. Inr (rr, rr_interval_count h - 1)) else Inr (rr_interval h, rr_interval_count h)) = Inr (rr1, c1)"
    "arr_set rr1 (unat c1) (ucast v) = Inr rr2" "length rr2 = 20" "unat (c1 + 1) \<le> 20"
    "take (unat (c1 + 1)) rr2 = (if length (rr_queue g) < 20 then rr_queue g else tl (rr_queue g)) @ [ucast v]"
    using push_rr [OF ok(2,3), of "ucast v"] rr_queue_length [OF ok(4)] by (auto simp: rr_queue_def h_def)
  let ?t = "s\<lparr>rr_sim := st, gatt_hrs := g\<lparr>hrm := h\<lparr>rr_interval := rr2, rr_interval_count := c1 + 1\<rparr>\<rparr>\<rparr>"
  have "bt_hrs_rr_interval_timer_handler s = Inr ?t"
    using p(1,2) m ok(1) unfolding bt_hrs_rr_interval_timer_handler_def g_def h_def
    by (auto simp: rbind_eq_Inr Let_def split: if_splits)
  moreover have "hrs_ok ?t" using assms ok p(3,4) by (simp add: hrs_ok_def hrm_ok_def h_def)
  moreover have "rr_spec_step (rr_abs s) Rr_Tick (rr_abs ?t)"
  proof -
    have "rr_abs ?t = (rr_abs s)\<lparr>waiting := (if length (waiting (rr_abs s)) < 20 then waiting (rr_abs s) else tl (waiting (rr_abs s))) @ [ucast v],
        sensor := st\<rparr>"
      using p(5) by (simp add: rr_abs_def rr_queue_def g_def)
    then show ?thesis using measured [of "rr_abs s" v st] m ok(5) by (simp add: rr_abs_def)
  qed
  ultimately show ?thesis by blast
qed

lemma hrs_notify_exact:
  assumes "hrs_ok s" "simulate_hrm s \<noteq> 0"
  defines "k \<equiv> \<lambda>t. min (length (rr_queue (gatt_hrs s))) (sent_at_once (heartrate t))"
  shows "\<exists>t msg r. hrs_notify env s = Inr t \<and> hrs_trace t = hrs_trace s @ [Notify 2 msg r] \<and> length msg \<le> MAX_HRM_LEN \<and>
    hrm_read msg = (heartrate t, Some (energy_expended (hrm (gatt_hrs s))), take (k t) (rr_queue (gatt_hrs s))) \<and>
    hrs_ok t \<and> rr_queue (gatt_hrs t) = drop (k t) (rr_queue (gatt_hrs s)) \<and> simulate_hrm t = simulate_hrm s \<and> rr_sim t = rr_sim s"
proof -
  define hr where "hr = (if heartrate s + 1 = 280 then 100 else heartrate s + 1)"
  define g where "g = (gatt_hrs s)\<lparr>hrm := (hrm (gatt_hrs s))\<lparr>hrm_value := hr\<rparr>\<rparr>"
  have g: "hrm_ok g" "rr_queue g = rr_queue (gatt_hrs s)" "hrm_value (hrm g) = hr" "energy_expended (hrm g) = energy_expended (hrm (gatt_hrs s))"
    "is_energy_expended_present g"
    using assms(1) by (simp_all add: hrs_ok_def hrm_ok_def g_def rr_queue_def)
  obtain len buf g' where e: "hrm_encode g (replicate 45 0) True = Inr (len, buf, g')" "unat len \<le> 20" "unat len \<le> length buf"
    "hrm_read (take (unat len) buf) = (hr, Some (energy_expended (hrm (gatt_hrs s))), take (min (length (rr_queue g)) (sent_at_once hr)) (rr_queue g))"
    "hrm_ok g'" "rr_queue g' = drop (min (length (rr_queue g)) (sent_at_once hr)) (rr_queue g)"
    using hrm_encode_exact [OF g(1)] g(3,4) by auto
  have "hrs_notify env s = Inr (s\<lparr>heartrate := hr, gatt_hrs := g', hrs_trace := hrs_trace s @ [Notify 2 (take (unat len) buf) (env_notify env (hrs_trace s) 2 (take (unat len) buf))]\<rparr>)"
    using assms(2) e(1) g(5) unfolding hrs_notify_def Let_def hr_def [symmetric] by (simp add: g_def bt_gatt_notify_def Let_def)
  then show ?thesis using e g(2) assms(1) by (simp add: hrs_ok_def k_def)
qed

lemma hrs_notify_step:
  assumes "hrs_ok s"
  shows "\<exists>t. hrs_notify env s = Inr t \<and> hrs_ok t \<and> rr_spec_step (rr_abs s) Hrs_Notify (rr_abs t)"
proof (cases "simulate_hrm s = 0")
  case True
  then show ?thesis using assms unsubscribed [of "rr_abs s"] by (simp add: hrs_notify_def rr_abs_def)
next
  case False
  obtain t msg r where t: "hrs_notify env s = Inr t" "hrs_trace t = hrs_trace s @ [Notify 2 msg r]" "hrs_ok t"
    "snd (snd (hrm_read msg)) = take (min (length (rr_queue (gatt_hrs s))) (sent_at_once (heartrate t))) (rr_queue (gatt_hrs s))"
    "rr_queue (gatt_hrs t) = drop (min (length (rr_queue (gatt_hrs s))) (sent_at_once (heartrate t))) (rr_queue (gatt_hrs s))"
    "simulate_hrm t = simulate_hrm s" "rr_sim t = rr_sim s"
    using hrs_notify_exact [OF assms False, of env] by auto
  have "rr_spec_step (rr_abs s) Hrs_Notify (rr_abs t)"
    using sent [of "rr_abs s" "min (length (rr_queue (gatt_hrs s))) (sent_at_once (heartrate t))"] False t
    by (auto simp: rr_abs_def sent_at_once_def)
  then show ?thesis using t(1,3) by blast
qed

lemma hrs_write_step:
  assumes "hrs_ok s" "hrs_do env (Hrs_Write buf off) s = Inr t"
  shows "hrs_ok t" "rr_abs t = rr_abs s"
proof -
  obtain r where "hrs_write_ctrl_point buf off s = Inr (r, t)" using assms(2) by (auto simp: hrs_do_def rbind_eq_Inr)
  then have "hrs_ok t \<and> rr_abs t = rr_abs s"
    using assms(1) by (auto simp: hrs_write_ctrl_point_def rbind_eq_Inr Let_def hrs_ok_def hrm_ok_def rr_abs_def rr_queue_def split: if_splits)
  then show "hrs_ok t" "rr_abs t = rr_abs s" by simp_all
qed

lemma hrs_step_queue:
  assumes "hrs_step env s e t" "hrs_ok s"
  shows "hrs_ok t \<and> rr_spec_step (rr_abs s) e (rr_abs t)"
proof (cases e)
  case Rr_Tick
  then show ?thesis using rr_tick [OF assms(2)] assms(1) by (auto simp: hrs_step_def hrs_do_def)
next
  case Hrs_Notify
  then show ?thesis using hrs_notify_step [OF assms(2), of env] assms(1) by (auto simp: hrs_step_def hrs_do_def)
next
  case Energy_Tick
  then have t: "t = bt_hrs_energy_expended_timer_handler s" using assms(1) by (simp add: hrs_step_def hrs_do_def)
  have "hrs_ok t" "rr_abs t = rr_abs s"
    using t assms(2) by (auto simp: bt_hrs_energy_expended_timer_handler_def hrs_ok_def hrm_ok_def rr_abs_def rr_queue_def Let_def split: prod.splits)
  then show ?thesis using Energy_Tick energy by simp
next
  case (Hrs_Ccc v)
  then show ?thesis using assms ccc [of "rr_abs s" v] by (auto simp: hrs_step_def hrs_do_def hrmc_ccc_cfg_changed_def hrs_ok_def rr_abs_def)
next
  case (Hrs_Write buf off)
  then show ?thesis using hrs_write_step [OF assms(2)] assms(1) control by (auto simp: hrs_step_def)
qed

interpretation rr: simulation "hrs_step env" hrs_ok rr_spec_step rr_abs
  by unfold_locales (use hrs_step_queue in blast)+

lemma hrs_init_ok: "hrs_ok (hrs_init loc s)" "waiting (rr_abs (hrs_init loc s)) = []" "handed_over (rr_abs (hrs_init loc s)) = concat (map rr_of_call (hrs_trace s))"
  by (simp_all add: hrs_init_def sensor_simulator_init_def hrs_ok_def hrm_ok_def RR_CFG_def rr_abs_def rr_queue_def Let_def bit_or_iff)

text \<open>What the sensor measures in the next \<open>n\<close> seconds.\<close>

primrec sensor_values :: "nat \<Rightarrow> sensorsim_state \<Rightarrow> u16 list" where
  "sensor_values 0 st = []"
| "sensor_values (Suc n) st = ucast (fst (sensorsim_measure RR_CFG st)) # sensor_values n (snd (sensorsim_measure RR_CFG st))"

definition ticks :: "hrs_event list \<Rightarrow> nat" where
  "ticks es = length (filter (\<lambda>e. e = Rr_Tick) es)"

lemma ticks_simps [simp]: "ticks [] = 0" "ticks (e # es) = (if e = Rr_Tick then Suc (ticks es) else ticks es)"
  by (simp_all add: ticks_def)

lemma spec_step_order:
  assumes "rr_spec_step a e b" "length (waiting a) \<le> 20"
  defines "m \<equiv> \<lambda>n. if e = Rr_Tick then Suc n else n"
  defines "lost \<equiv> if e = Rr_Tick \<and> length (waiting a) = 20 then 1 else 0"
  shows "length (waiting b) \<le> min 20 (m (length (waiting a))) \<and>
    handed_over b @ waiting b @ sensor_values n (sensor b) = handed_over a @ drop lost (waiting a @ sensor_values (m n) (sensor a))"
  using assms(1,2)
proof cases
  case (measured v st)
  then show ?thesis using assms(2) by (auto simp: m_def lost_def drop_Suc tl_append split: list.splits)
next
  case (sent k)
  then show ?thesis using assms(2) by (simp add: m_def lost_def)
qed (use assms(2) in \<open>simp_all add: m_def lost_def\<close>)

lemma drop_subseq: "subseq (h @ drop n xs) (h @ xs)"
  by (intro list_emb_append_mono) (simp_all add: suffix_drop suffix_imp_subseq)

text \<open>The order of the intervals, and when none is lost.\<close>

lemma spec_run_order:
  assumes "lrun rr_spec_step a es b" "length (waiting a) \<le> 20"
  shows "length (waiting b) \<le> 20 \<and>
    subseq (handed_over b @ waiting b) (handed_over a @ waiting a @ sensor_values (ticks es) (sensor a)) \<and>
    (length (waiting a) + ticks es \<le> 20 \<longrightarrow> handed_over b @ waiting b = handed_over a @ waiting a @ sensor_values (ticks es) (sensor a))"
  using assms
proof (induction rule: lrun.induct)
  case (lrun_Cons a e b es c)
  let ?m = "\<lambda>n. if e = Rr_Tick then Suc n else n"
  let ?lost = "if e = Rr_Tick \<and> length (waiting a) = 20 then 1 else 0"
  note o = spec_step_order [OF lrun_Cons.hyps(1) lrun_Cons.prems, of "ticks es"]
  define w where "w = handed_over b @ waiting b @ sensor_values (ticks es) (sensor b)"
  have b: "length (waiting b) \<le> 20" "length (waiting b) \<le> ?m (length (waiting a))" using o by (auto split: if_splits)
  have w: "w = handed_over a @ drop ?lost (waiting a @ sensor_values (ticks (e # es)) (sensor a))" using o by (simp add: w_def)
  have ih: "length (waiting c) \<le> 20" "subseq (handed_over c @ waiting c) w" "length (waiting b) + ticks es \<le> 20 \<longrightarrow> handed_over c @ waiting c = w"
    using lrun_Cons.IH [OF b(1)] by (simp_all add: w_def)
  have "subseq (handed_over c @ waiting c) (handed_over a @ waiting a @ sensor_values (ticks (e # es)) (sensor a))"
    using ih(2) drop_subseq w by (metis subseq_order.trans)
  moreover have "handed_over c @ waiting c = handed_over a @ waiting a @ sensor_values (ticks (e # es)) (sensor a)"
    if "length (waiting a) + ticks (e # es) \<le> 20"
  proof -
    have l: "\<not> (e = Rr_Tick \<and> length (waiting a) = 20)" and "length (waiting b) + ticks es \<le> 20" using that b(2) by (auto split: if_splits)
    then show ?thesis using ih(3) w unfolding if_not_P [OF l] by (simp del: ticks_simps)
  qed
  ultimately show ?case using ih(1) by blast
qed simp

text \<open>
  C22 (refinement). The heart rate service implements the queue of intervals: on any sequence of timer ticks, notifications and requests after
  initialisation, whatever the host answers, it does what the queue does. The intervals handed to the host and those that wait are, in order and without repetition, among those
  measured, all of them as long as no more than twenty were measured; and the next event is handled without undefined behaviour unless it is an
  empty write to the control point, whose first byte is read all the same.
\<close>

theorem hrs_refines_queue:
  assumes "hrs_trace s = []" "lrun (hrs_step env) (hrs_init loc s) es t"
  shows "lrun rr_spec_step (rr_abs (hrs_init loc s)) es (rr_abs t) \<and>
    subseq (handed_over (rr_abs t) @ waiting (rr_abs t)) (sensor_values (ticks es) (sensorsim_init RR_CFG)) \<and>
    (ticks es \<le> 20 \<longrightarrow> handed_over (rr_abs t) @ waiting (rr_abs t) = sensor_values (ticks es) (sensorsim_init RR_CFG)) \<and>
    (\<forall>e. (\<exists>u. hrs_do env e t = Inr u) \<longleftrightarrow> (\<forall>off. e \<noteq> Hrs_Write [] off))"
proof -
  let ?s = "hrs_init loc s"
  have r: "lrun rr_spec_step (rr_abs ?s) es (rr_abs t)" using rr.run_simulates [OF assms(2) hrs_init_ok(1)] .
  have ok: "hrs_ok t" using rr.inv_run [OF assms(2) hrs_init_ok(1)] .
  have "sensor (rr_abs ?s) = sensorsim_init RR_CFG" by (simp add: rr_abs_def hrs_init_def sensor_simulator_init_def RR_CFG_def Let_def)
  moreover have "(\<exists>u. hrs_do env e t = Inr u) \<longleftrightarrow> (\<forall>off. e \<noteq> Hrs_Write [] off)" for e
  proof (cases e)
    case (Hrs_Write buf off)
    then show ?thesis by (cases buf) (auto simp: hrs_do_def hrs_write_ctrl_point_def arr_get_def mem_cpy_def Let_def)
  qed (use rr_tick [OF ok] hrs_notify_step [OF ok, of env] in \<open>auto simp: hrs_do_def\<close>)
  ultimately show ?thesis using r spec_run_order [OF r] hrs_init_ok(2,3) [of loc s] assms(1) by simp
qed

definition hrs_boot :: hrs_state where
  "hrs_boot = \<lparr>gatt_hrs = \<lparr>hrm = \<lparr>hrm_flags = 0, hrm_value = 0, energy_expended = 0, rr_interval = replicate 20 0, rr_interval_count = 0\<rparr>,
       body_sensor_location = 0, heart_rate_control_point = 0, is_heart_rate_value_format_uint16 = False, is_sensor_contact_detected = False,
       is_sensor_contact_supported = False, is_energy_expended_present = False, is_rr_interval_present = False\<rparr>, simulate_hrm = 0, heartrate = 254, energy_cfg = RR_CFG, energy_sim = sensorsim_init RR_CFG,
     rr_cfg = RR_CFG, rr_sim = sensorsim_init RR_CFG, hrs_trace = []\<rparr>"

theorem hrs_refines_queue_witness:
  "\<exists>t. lrun (hrs_step env_always_ok) (hrs_init 1 hrs_boot) [Rr_Tick, Hrs_Ccc 1, Hrs_Notify] t \<and> handed_over (rr_abs t) @ waiting (rr_abs t) = [101]"
proof -
  let ?s = "hrs_init 1 hrs_boot"
  obtain t1 where t1: "hrs_step env_always_ok ?s Rr_Tick t1" "hrs_ok t1"
    using rr_tick [OF hrs_init_ok(1)] by (auto simp: hrs_step_def hrs_do_def)
  let ?t2 = "hrmc_ccc_cfg_changed 1 t1"
  have t2: "hrs_step env_always_ok t1 (Hrs_Ccc 1) ?t2" by (simp add: hrs_step_def hrs_do_def)
  obtain t where "hrs_step env_always_ok ?t2 Hrs_Notify t"
    using hrs_notify_step [of ?t2 env_always_ok] hrs_step_queue [OF t2 t1(2)] by (auto simp: hrs_step_def hrs_do_def)
  then have run: "lrun (hrs_step env_always_ok) ?s [Rr_Tick, Hrs_Ccc 1, Hrs_Notify] t" using t1(1) t2 by (meson lrun_Cons lrun_Nil)
  moreover have "sensor_values 1 (sensorsim_init RR_CFG) = [101]"
    by (simp add: sensorsim_measure_def sensorsim_increment_def sensorsim_init_def RR_CFG_def)
  ultimately show ?thesis using hrs_refines_queue [OF _ run] by (auto simp: hrs_boot_def)
qed

text \<open>
  A notification to a subscribed client always fits the twenty bytes of a packet, and its flags describe it: read as the profile
  prescribes, it gives the heart rate, the energy and the first intervals of the queue, seven or eight of them or all there are, which leave the queue.
\<close>

theorem hrs_message_exact:
  assumes "lrun (hrs_step env) (hrs_init loc s) es t" "simulate_hrm t \<noteq> 0"
  shows "\<exists>u msg r k. k = min (length (rr_queue (gatt_hrs t))) (sent_at_once (heartrate u)) \<and>
    hrs_do env Hrs_Notify t = Inr u \<and> hrs_trace u = hrs_trace t @ [Notify 2 msg r] \<and> length msg \<le> MAX_HRM_LEN \<and>
    hrm_read msg = (heartrate u, Some (energy_expended (hrm (gatt_hrs t))), take k (rr_queue (gatt_hrs t))) \<and>
    rr_queue (gatt_hrs u) = drop k (rr_queue (gatt_hrs t))"
proof -
  have "hrs_ok t" using rr.inv_run [OF assms(1) hrs_init_ok(1)] .
  then show ?thesis using hrs_notify_exact [OF _ assms(2), of env] by (auto simp: hrs_do_def)
qed

theorem hrs_message_exact_witness:
  "\<exists>u msg r. hrs_do env_always_ok Hrs_Notify (hrmc_ccc_cfg_changed 1 (hrs_init 1 hrs_boot)) = Inr u \<and> hrs_trace u = [Notify 2 msg r] \<and>
    length msg \<le> 20 \<and> fst (hrm_read msg) = heartrate u"
proof -
  let ?t = "hrmc_ccc_cfg_changed 1 (hrs_init 1 hrs_boot)"
  have "lrun (hrs_step env_always_ok) (hrs_init 1 hrs_boot) [Hrs_Ccc 1] ?t"
    by (intro lrun_Cons [OF _ lrun_Nil]) (simp add: hrs_step_def hrs_do_def)
  moreover have "simulate_hrm ?t \<noteq> 0" "hrs_trace ?t = []"
    by (simp_all add: hrmc_ccc_cfg_changed_def hrs_init_def sensor_simulator_init_def hrs_boot_def Let_def)
  ultimately show ?thesis using hrs_message_exact [of env_always_ok 1 hrs_boot "[Hrs_Ccc 1]" ?t] by fastforce
qed

end
