(* ===== verification/Speed_Cadence.thy ===== *)
theory Speed_Cadence
  imports Types_Encode Gatt_Env
begin

unbundle bit_operations_syntax

text \<open>
  The cycling and the running speed and cadence services (\<^verbatim>\<open>samples/bluetooth/gatt/cscs.c\<close> and \<^verbatim>\<open>rscs.c\<close>): the speed and cadence
  control point, which the two files implement separately, the simulated sensors and the measurements. What a client may rely on when it
  updates the location of the sensor is a locale, interpreted for both.
\<close>

abbreviation (input) "SC_CP_OP_SET_CWR \<equiv> 0x01 :: u8"
abbreviation (input) "SC_CP_OP_UPDATE_LOC \<equiv> 0x03 :: u8"
abbreviation (input) "SC_CP_OP_REQ_SUPP_LOC \<equiv> 0x04 :: u8"
abbreviation (input) "SC_CP_OP_RESPONSE \<equiv> 0x10 :: u8"
abbreviation (input) "SC_CP_RSP_SUCCESS \<equiv> 0x01 :: u8"
abbreviation (input) "SC_CP_RSP_OP_NOT_SUPP \<equiv> 0x02 :: u8"
abbreviation (input) "SC_CP_RSP_INVAL_PARAM \<equiv> 0x03 :: u8"
abbreviation (input) "SC_ERR_IN_PROGRESS \<equiv> 0x80 :: int"
abbreviation (input) "SC_ERR_CCC_CONFIG \<equiv> 0x81 :: int"

section \<open>Cycling speed and cadence\<close>

record cscs_state =
  cwr :: u32
  sensor_location :: u8
  csc_simulate :: bool
  ctrl_point_configured :: bool
  lwet :: u16
  ccr :: u16
  lcet :: u16
  csc_i :: u8
  rand_val :: u32
  csc_trace :: "gatt_call list"

definition csc_supported_locations :: bytes where
  "csc_supported_locations = [0x00, 0x04, 0x0c, 0x05, 0x06]"

definition csc_meas_ccc_cfg_changed :: "u16 \<Rightarrow> cscs_state \<Rightarrow> cscs_state" where
  "csc_meas_ccc_cfg_changed value s = s\<lparr>csc_simulate := (value = BT_GATT_CCC_NOTIFY)\<rparr>"

definition csc_ctrl_point_ccc_cfg_changed :: "u16 \<Rightarrow> cscs_state \<Rightarrow> cscs_state" where
  "csc_ctrl_point_ccc_cfg_changed value s = s\<lparr>ctrl_point_configured := (value = BT_GATT_CCC_INDICATE)\<rparr>"

definition read_location :: "attr_read \<Rightarrow> cscs_state \<Rightarrow> nat \<Rightarrow> nat \<Rightarrow> int \<times> bytes" where
  "read_location rd s len offset = rd len offset [sensor_location s]"

definition read_csc_feature :: "attr_read \<Rightarrow> nat \<Rightarrow> nat \<Rightarrow> int \<times> bytes" where
  "read_csc_feature rd len offset = rd len offset (u16_encode (1 OR 2 OR 4))"

text \<open>The buffer has the length of the answer; the answer is a notification, although the client has subscribed to indications.\<close>

definition csc_ctrl_point_ind :: "gatt_env \<Rightarrow> u8 \<Rightarrow> u8 \<Rightarrow> bytes \<Rightarrow> cscs_state \<Rightarrow> cscs_state" where
  "csc_ctrl_point_ind env req_op status data s =
     s\<lparr>csc_trace := snd (bt_gatt_notify env 9 ([SC_CP_OP_RESPONSE, req_op, status] @ data) (csc_trace s))\<rparr>"

definition csc_write_ctrl_point :: "gatt_env \<Rightarrow> bytes \<Rightarrow> cscs_state \<Rightarrow> (int \<times> cscs_state) res" where
  "csc_write_ctrl_point env buf s =
     (if \<not> ctrl_point_configured s then Inr (BT_GATT_ERR SC_ERR_CCC_CONFIG, s)
      else if length buf = 0 then Inr (BT_GATT_ERR BT_ATT_ERR_INVALID_ATTRIBUTE_LEN, s)
      else rbind (arr_get buf 0) (\<lambda>req_op.
        let reply = (\<lambda>status s. Inr (int (length buf), csc_ctrl_point_ind env req_op status [] s)) in
        if req_op = SC_CP_OP_SET_CWR
        then if length buf \<noteq> 5 then reply SC_CP_RSP_INVAL_PARAM s
          else rbind (u32_decode (drop 1 buf)) (\<lambda>v. reply SC_CP_RSP_SUCCESS (s\<lparr>cwr := v\<rparr>))
        else if req_op = SC_CP_OP_UPDATE_LOC
        then if length buf \<noteq> 2 then reply SC_CP_RSP_INVAL_PARAM s
          else rbind (arr_get buf 1) (\<lambda>l.
            if l = sensor_location s then reply SC_CP_RSP_SUCCESS s
            else if l \<in> set csc_supported_locations then reply SC_CP_RSP_SUCCESS (s\<lparr>sensor_location := l\<rparr>)
            else reply SC_CP_RSP_INVAL_PARAM s)
        else if req_op = SC_CP_OP_REQ_SUPP_LOC
        then if length buf \<noteq> 1 then reply SC_CP_RSP_INVAL_PARAM s
          else Inr (int (length buf), csc_ctrl_point_ind env req_op SC_CP_RSP_SUCCESS csc_supported_locations s)
        else reply SC_CP_RSP_OP_NOT_SUPP s))"

definition measurement_nfy :: "gatt_env \<Rightarrow> u32 \<Rightarrow> u16 \<Rightarrow> u16 \<Rightarrow> u16 \<Rightarrow> cscs_state \<Rightarrow> cscs_state" where
  "measurement_nfy env wheel wt crank ct s =
     (let fl = 0 :: u8; fl = (if wheel \<noteq> 0 then fl OR 1 else fl); fl = (if crank \<noteq> 0 then fl OR 2 else fl);
          msg = fl # (if wheel \<noteq> 0 then u32_encode wheel @ u16_encode wt else []) @ (if crank \<noteq> 0 then u16_encode crank @ u16_encode ct else []) in
      s\<lparr>csc_trace := snd (bt_gatt_notify env 2 msg (csc_trace s))\<rparr>)"

definition csc_simulation :: "gatt_env \<Rightarrow> cscs_state \<Rightarrow> cscs_state" where
  "csc_simulation env s =
     (let s = s\<lparr>rand_val := (if rand_val s > 1000 then 1 else rand_val s + 1)\<rparr>;
          rand = rand_val s;
          nfy_wheel = (csc_i s mod 2 = 0);
          s = (if nfy_wheel then s\<lparr>lwet := lwet s + ucast (1050 + rand mod 50), cwr := cwr s + 2\<rparr> else s);
          nfy_crank = (csc_i s mod 3 = 0);
          s = (if nfy_crank then s\<lparr>lcet := lcet s + ucast (1000 + rand mod 50), ccr := ccr s + 1\<rparr> else s);
          s = measurement_nfy env (if nfy_wheel then cwr s else 0) (if nfy_wheel then lwet s else 0) (if nfy_crank then ccr s else 0)
                (if nfy_crank then lcet s else 0) s;
          s = (if csc_i s mod 64 = 0 then s\<lparr>lcet := 0, lwet := 0, csc_i := 0\<rparr> else s) in
      s\<lparr>csc_i := csc_i s + 1\<rparr>)"

definition cscs_notify :: "gatt_env \<Rightarrow> cscs_state \<Rightarrow> cscs_state" where
  "cscs_notify env s = (if csc_simulate s then csc_simulation env s else s)"

section \<open>Running speed and cadence\<close>

record rscs_rsc_measurement =
  rsc_flag :: u8
  instantaneous_speed :: u16
  instantaneous_cadence :: u8
  instantaneous_stride_length :: u16
  total_distance :: u32

text \<open>The counter of the timer stays far below the range of \<open>int\<close>.\<close>

record rscs_state =
  rsc_meas :: rscs_rsc_measurement
  rsc_meas_ccc :: u8
  rsc_feature :: u16
  rsc_sensor_location :: u8
  sc_control_point_ccc :: u8
  ctrl_point_resp :: bytes
  ctrl_point_indicating :: u8
  curr_total_distance :: u32
  walking :: bool
  rsc_cnt :: nat
  rsc_trace :: "gatt_call list"

definition rscs_supported_locations :: bytes where
  "rscs_supported_locations = [0x00, 0x01, 0x02, 0x03, 0x0e]"

definition rscs_rsc_meas_ccc_cfg_changed :: "u16 \<Rightarrow> rscs_state \<Rightarrow> rscs_state" where
  "rscs_rsc_meas_ccc_cfg_changed value s = s\<lparr>rsc_meas_ccc := (if value = BT_GATT_CCC_NOTIFY then 1 else 0)\<rparr>"

definition rscs_sc_ctrl_point_ccc_cfg_changed :: "u16 \<Rightarrow> rscs_state \<Rightarrow> rscs_state" where
  "rscs_sc_ctrl_point_ccc_cfg_changed value s = s\<lparr>sc_control_point_ccc := (if value = BT_GATT_CCC_INDICATE then 1 else 0)\<rparr>"

definition rscs_sensor_location_read :: "attr_read \<Rightarrow> rscs_state \<Rightarrow> nat \<Rightarrow> nat \<Rightarrow> int \<times> bytes" where
  "rscs_sensor_location_read rd s len offset = rd len offset [rsc_sensor_location s]"

definition rscs_rsc_feature_read :: "attr_read \<Rightarrow> rscs_state \<Rightarrow> nat \<Rightarrow> nat \<Rightarrow> int \<times> bytes" where
  "rscs_rsc_feature_read rd s len offset = rd len offset (u16_encode (rsc_feature s))"

definition ctrl_point_indicate_rsp :: "rscs_state \<Rightarrow> rscs_state" where
  "ctrl_point_indicate_rsp s = s\<lparr>ctrl_point_indicating := 0\<rparr>"

text \<open>The answer is a static struct of four bytes, whose array \<open>data\<close> has one element.\<close>

definition rscs_ctrl_point_ind :: "gatt_env \<Rightarrow> u8 \<Rightarrow> u8 \<Rightarrow> bytes \<Rightarrow> rscs_state \<Rightarrow> rscs_state res" where
  "rscs_ctrl_point_ind env req_op status data s =
     rbind (mem_cpy (ctrl_point_resp s) 0 [SC_CP_OP_RESPONSE, req_op, status] 3) (\<lambda>resp.
     rbind (if data \<noteq> [] then mem_cpy resp 3 data (length data) else Inr resp) (\<lambda>resp.
     let (err, tr) = bt_gatt_indicate env 9 (take (3 + length data) resp) (rsc_trace s); s = s\<lparr>ctrl_point_resp := resp, rsc_trace := tr\<rparr> in
     Inr (if err = 0 then s\<lparr>ctrl_point_indicating := 1\<rparr> else s)))"

definition rscs_sc_ctrl_point_write :: "gatt_env \<Rightarrow> bytes \<Rightarrow> rscs_state \<Rightarrow> (int \<times> rscs_state) res" where
  "rscs_sc_ctrl_point_write env buf s =
     (if sc_control_point_ccc s = 0 then Inr (BT_GATT_ERR SC_ERR_CCC_CONFIG, s)
      else if length buf = 0 then Inr (BT_GATT_ERR BT_ATT_ERR_INVALID_ATTRIBUTE_LEN, s)
      else if ctrl_point_indicating s \<noteq> 0 then Inr (BT_GATT_ERR SC_ERR_IN_PROGRESS, s)
      else rbind (arr_get buf 0) (\<lambda>req_op.
        let reply = (\<lambda>status s. rbind (rscs_ctrl_point_ind env req_op status [] s) (\<lambda>s. Inr (int (length buf), s))) in
        if req_op = SC_CP_OP_SET_CWR
        then if length buf \<noteq> 5 then reply SC_CP_RSP_INVAL_PARAM s
          else rbind (u32_decode (drop 1 buf)) (\<lambda>v. reply SC_CP_RSP_SUCCESS (s\<lparr>rsc_meas := (rsc_meas s)\<lparr>total_distance := v\<rparr>\<rparr>))
        else if req_op = SC_CP_OP_UPDATE_LOC
        then if length buf \<noteq> 2 then reply SC_CP_RSP_INVAL_PARAM s
          else rbind (arr_get buf 1) (\<lambda>l.
            if l = rsc_sensor_location s then reply SC_CP_RSP_SUCCESS s
            else if l \<in> set rscs_supported_locations then reply SC_CP_RSP_SUCCESS (s\<lparr>rsc_sensor_location := l\<rparr>)
            else reply SC_CP_RSP_INVAL_PARAM s)
        else if req_op = SC_CP_OP_REQ_SUPP_LOC
        then if length buf \<noteq> 1 then reply SC_CP_RSP_INVAL_PARAM s
          else rbind (rscs_ctrl_point_ind env req_op SC_CP_RSP_SUCCESS rscs_supported_locations s) (\<lambda>s. Inr (int (length buf), s))
        else reply SC_CP_RSP_OP_NOT_SUPP s))"

definition rsc_measurement_simulation :: "rscs_state \<Rightarrow> rscs_state" where
  "rsc_measurement_simulation s =
     (let fl = 1 OR 2; fl = (if walking s then fl OR 0 else fl OR 4); m = (rsc_meas s)\<lparr>rsc_flag := fl\<rparr> in
      if flag_set fl 4
      then s\<lparr>rsc_meas := m\<lparr>instantaneous_speed := 1152, instantaneous_cadence := 250, instantaneous_stride_length := 100,
             total_distance := total_distance m + 50\<rparr>\<rparr>
      else s\<lparr>rsc_meas := m\<lparr>instantaneous_speed := 384, instantaneous_cadence := 110, instantaneous_stride_length := 75,
             total_distance := total_distance m + 15\<rparr>\<rparr>)"

text \<open>At most the ten bytes of the packed struct, the size of the buffer.\<close>

definition rsc_measurement_notify :: "gatt_env \<Rightarrow> rscs_state \<Rightarrow> rscs_state" where
  "rsc_measurement_notify env s =
     (if rsc_meas_ccc s \<noteq> 0
      then let m = rsc_meas s;
               msg = [rsc_flag m] @ u16_encode (instantaneous_speed m) @ [instantaneous_cadence m]
                 @ (if flag_set (rsc_flag m) 1 then u16_encode (instantaneous_stride_length m) else [])
                 @ (if flag_set (rsc_flag m) 2 then u32_encode (curr_total_distance s) else []) in
        s\<lparr>rsc_trace := snd (bt_gatt_notify env 2 msg (rsc_trace s))\<rparr>
      else s)"

definition rscs_timer_handler :: "gatt_env \<Rightarrow> rscs_state \<Rightarrow> rscs_state" where
  "rscs_timer_handler env s =
     (let s = rsc_measurement_simulation s;
          s = (if rsc_cnt s mod 3 = 0 then s\<lparr>curr_total_distance := total_distance (rsc_meas s)\<rparr> else s) in
      rsc_measurement_notify env (s\<lparr>rsc_cnt := rsc_cnt s + 1\<rparr>))"

definition rscs_init :: "rscs_state \<Rightarrow> rscs_state" where
  "rscs_init s = s\<lparr>rsc_feature := 1 OR 2 OR 4 OR 16, rsc_sensor_location := 0x02\<rparr>"

section \<open>Updating the location\<close>

text \<open>
  What a client relies on: a control point that is ready answers an update with success and takes the location over if it is supported
  or already set, and answers an invalid parameter and changes nothing otherwise; after the confirmation it is ready again.
\<close>

fun requests :: "('l \<Rightarrow> 's \<Rightarrow> (int \<times> 's) res) \<Rightarrow> ('s \<Rightarrow> 's) \<Rightarrow> 'l list \<Rightarrow> 's \<Rightarrow> 's res" where
  "requests request confirm [] s = Inr s"
| "requests request confirm (l # ls) s = rbind (request l s) (\<lambda>(_, s). requests request confirm ls (confirm s))"

locale location_point =
  fixes update :: "u8 \<Rightarrow> 's \<Rightarrow> (int \<times> 's) res" and confirm :: "'s \<Rightarrow> 's" and location :: "'s \<Rightarrow> u8" and ready :: "'s \<Rightarrow> bool"
    and answers :: "'s \<Rightarrow> bytes list" and supported :: "u8 list"
  assumes accepted: "ready s \<Longrightarrow> l \<in> set supported \<or> l = location s \<Longrightarrow>
      \<exists>t. update l s = Inr (2, t) \<and> location t = l \<and> answers t = answers s @ [[0x10, 3, 1]] \<and> ready (confirm t)"
    and refused: "ready s \<Longrightarrow> l \<notin> set supported \<Longrightarrow> l \<noteq> location s \<Longrightarrow>
      \<exists>t. update l s = Inr (2, t) \<and> location t = location s \<and> answers t = answers s @ [[0x10, 3, 3]] \<and> ready (confirm t)"
    and confirm_keeps: "location (confirm s) = location s" "answers (confirm s) = answers s"
begin

lemma updates_last:
  assumes "ready s" "location s \<in> set supported"
  shows "\<exists>t. requests update confirm ls s = Inr t \<and> ready t \<and> location t = last (location s # filter (\<lambda>l. l \<in> set supported) ls) \<and>
    answers t = answers s @ map (\<lambda>l. [0x10, 3, if l \<in> set supported then 1 else 3]) ls"
  using assms
proof (induction ls arbitrary: s)
  case (Cons l ls)
  let ?c = "if l \<in> set supported then 1 else 3 :: u8"
  obtain t where t: "update l s = Inr (2, t)" "location t = (if l \<in> set supported then l else location s)" "answers t = answers s @ [[0x10, 3, ?c]]"
    "ready (confirm t)"
    using accepted [of s l] refused [of s l] Cons.prems by (cases "l \<in> set supported") fastforce+
  have "location (confirm t) \<in> set supported" using t(2) Cons.prems(2) confirm_keeps(1) by simp
  then show ?case using Cons.IH [OF t(4)] t confirm_keeps by (auto split: if_splits)
qed simp

end

definition sent_bytes :: "gatt_call list \<Rightarrow> nat \<Rightarrow> bytes list" where
  "sent_bytes tr a = concat (map (\<lambda>c. case c of Notify b msg r \<Rightarrow> if b = a then [msg] else [] | Indicate b msg r \<Rightarrow> if b = a then [msg] else []) tr)"

lemma sent_bytes_append [simp]:
  "sent_bytes (tr @ [Notify b msg r]) a = sent_bytes tr a @ (if b = a then [msg] else [])"
  "sent_bytes (tr @ [Indicate b msg r]) a = sent_bytes tr a @ (if b = a then [msg] else [])"
  by (simp_all add: sent_bytes_def)

definition rscs_ready :: "rscs_state \<Rightarrow> bool" where
  "rscs_ready s \<longleftrightarrow> sc_control_point_ccc s \<noteq> 0 \<and> ctrl_point_indicating s = 0 \<and> length (ctrl_point_resp s) = 4"

lemma rscs_reply:
  assumes "length (ctrl_point_resp s) = 4"
  shows "\<exists>t. rscs_ctrl_point_ind env op st [] s = Inr t \<and> rsc_sensor_location t = rsc_sensor_location s \<and> sc_control_point_ccc t = sc_control_point_ccc s \<and>
    length (ctrl_point_resp t) = 4 \<and> sent_bytes (rsc_trace t) 9 = sent_bytes (rsc_trace s) 9 @ [[0x10, op, st]]"
  using assms by (simp add: rscs_ctrl_point_ind_def mem_cpy_def bt_gatt_indicate_def Let_def)

lemma rscs_update:
  assumes "rscs_ready s"
  shows "\<exists>t. rscs_sc_ctrl_point_write env [3, l] s = Inr (2, t) \<and> rscs_ready (ctrl_point_indicate_rsp t) \<and>
    (if l = rsc_sensor_location s \<or> l \<in> set rscs_supported_locations
     then rsc_sensor_location t = l \<and> sent_bytes (rsc_trace t) 9 = sent_bytes (rsc_trace s) 9 @ [[0x10, 3, 1]]
     else rsc_sensor_location t = rsc_sensor_location s \<and> sent_bytes (rsc_trace t) 9 = sent_bytes (rsc_trace s) 9 @ [[0x10, 3, 3]])"
proof -
  define ok where "ok \<longleftrightarrow> l = rsc_sensor_location s \<or> l \<in> set rscs_supported_locations"
  define u where "u = (if ok \<and> l \<noteq> rsc_sensor_location s then s\<lparr>rsc_sensor_location := l\<rparr> else s)"
  define st :: u8 where "st = (if ok then 1 else 3)"
  have r: "sc_control_point_ccc s \<noteq> 0" "ctrl_point_indicating s = 0" "length (ctrl_point_resp s) = 4" using assms by (simp_all add: rscs_ready_def)
  have u4: "length (ctrl_point_resp u) = 4" using r(3) by (simp add: u_def)
  obtain t where t: "rscs_ctrl_point_ind env 3 st [] u = Inr t" "rsc_sensor_location t = rsc_sensor_location u"
    "sc_control_point_ccc t = sc_control_point_ccc u" "length (ctrl_point_resp t) = 4" "sent_bytes (rsc_trace t) 9 = sent_bytes (rsc_trace u) 9 @ [[0x10, 3, st]]"
    using rscs_reply [of u env 3 st] u4 by auto
  have "rscs_sc_ctrl_point_write env [3, l] s = Inr (2, t)"
    using r t(1) by (auto simp: rscs_sc_ctrl_point_write_def arr_get_def u_def st_def ok_def split: if_splits)
  moreover have "rscs_ready (ctrl_point_indicate_rsp t)" using t(3,4) r(1) by (simp add: rscs_ready_def ctrl_point_indicate_rsp_def u_def)
  ultimately show ?thesis using t(2,5) by (auto simp: u_def st_def ok_def)
qed

interpretation rscs_loc: location_point "\<lambda>l. rscs_sc_ctrl_point_write env [3, l]" ctrl_point_indicate_rsp rsc_sensor_location rscs_ready
  "\<lambda>s. sent_bytes (rsc_trace s) 9" rscs_supported_locations
proof
  show "\<exists>t. rscs_sc_ctrl_point_write env [3, l] s = Inr (2, t) \<and> rsc_sensor_location t = l \<and>
      sent_bytes (rsc_trace t) 9 = sent_bytes (rsc_trace s) 9 @ [[0x10, 3, 1]] \<and> rscs_ready (ctrl_point_indicate_rsp t)"
    if "rscs_ready s" "l \<in> set rscs_supported_locations \<or> l = rsc_sensor_location s" for s l
    using rscs_update [OF that(1), of env l] that(2) by auto
  show "\<exists>t. rscs_sc_ctrl_point_write env [3, l] s = Inr (2, t) \<and> rsc_sensor_location t = rsc_sensor_location s \<and>
      sent_bytes (rsc_trace t) 9 = sent_bytes (rsc_trace s) 9 @ [[0x10, 3, 3]] \<and> rscs_ready (ctrl_point_indicate_rsp t)"
    if "rscs_ready s" "l \<notin> set rscs_supported_locations" "l \<noteq> rsc_sensor_location s" for s l
    using rscs_update [OF that(1), of env l] that(2,3) by auto
qed (simp_all add: ctrl_point_indicate_rsp_def)

interpretation csc_loc: location_point "\<lambda>l. csc_write_ctrl_point env [3, l]" "\<lambda>s. s" sensor_location ctrl_point_configured
  "\<lambda>s. sent_bytes (csc_trace s) 9" csc_supported_locations
  by unfold_locales (auto simp: csc_write_ctrl_point_def csc_ctrl_point_ind_def arr_get_def bt_gatt_notify_def Let_def)

text \<open>
  Updating the location of the sensor works alike in both services: when a subscribed client sends updates, in the running service each after the answer
  to the one before was confirmed, every update is answered, with success exactly when the location is supported, and the location is in the end the last
  supported one that was requested, or the one from before.
\<close>

theorem location_updates:
  assumes "ctrl_point_configured c" "sensor_location c \<in> set csc_supported_locations"
    and "rscs_ready r" "rsc_sensor_location r \<in> set rscs_supported_locations"
  shows "\<exists>c' r'. requests (\<lambda>l. csc_write_ctrl_point env [3, l]) (\<lambda>s. s) ls c = Inr c' \<and>
    requests (\<lambda>l. rscs_sc_ctrl_point_write env [3, l]) ctrl_point_indicate_rsp ls r = Inr r' \<and>
    sensor_location c' = last (sensor_location c # filter (\<lambda>l. l \<in> set csc_supported_locations) ls) \<and>
    rsc_sensor_location r' = last (rsc_sensor_location r # filter (\<lambda>l. l \<in> set rscs_supported_locations) ls) \<and>
    sent_bytes (csc_trace c') 9 = sent_bytes (csc_trace c) 9 @ map (\<lambda>l. [0x10, 3, if l \<in> set csc_supported_locations then 1 else 3]) ls \<and>
    sent_bytes (rsc_trace r') 9 = sent_bytes (rsc_trace r) 9 @ map (\<lambda>l. [0x10, 3, if l \<in> set rscs_supported_locations then 1 else 3]) ls"
  using csc_loc.updates_last [OF assms(1,2), of env ls] rscs_loc.updates_last [OF assms(3,4), of env ls] by blast

definition csc_boot :: cscs_state where
  "csc_boot = \<lparr>cwr = 0, sensor_location = 0, csc_simulate = False, ctrl_point_configured = False, lwet = 0, ccr = 0, lcet = 0, csc_i = 0,
     rand_val = 0, csc_trace = []\<rparr>"

definition rsc_boot :: rscs_state where
  "rsc_boot = rscs_init \<lparr>rsc_meas = \<lparr>rsc_flag = 0, instantaneous_speed = 0, instantaneous_cadence = 0, instantaneous_stride_length = 0, total_distance = 0\<rparr>,
     rsc_meas_ccc = 0, rsc_feature = 0, rsc_sensor_location = 0, sc_control_point_ccc = 0, ctrl_point_resp = replicate 4 0, ctrl_point_indicating = 0,
     curr_total_distance = 0, walking = False, rsc_cnt = 0, rsc_trace = []\<rparr>"

theorem location_updates_witness:
  "\<exists>c' r'. requests (\<lambda>l. csc_write_ctrl_point env_always_ok [3, l]) (\<lambda>s. s) [1, 5, 9] (csc_ctrl_point_ccc_cfg_changed 2 csc_boot) = Inr c' \<and>
    requests (\<lambda>l. rscs_sc_ctrl_point_write env_always_ok [3, l]) ctrl_point_indicate_rsp [1, 5, 9] (rscs_sc_ctrl_point_ccc_cfg_changed 2 rsc_boot) = Inr r' \<and>
    sensor_location c' = 5 \<and> rsc_sensor_location r' = 1"
proof -
  let ?c = "csc_ctrl_point_ccc_cfg_changed 2 csc_boot"
  let ?r = "rscs_sc_ctrl_point_ccc_cfg_changed 2 rsc_boot"
  have "ctrl_point_configured ?c" "sensor_location ?c = 0" "rscs_ready ?r" "rsc_sensor_location ?r = 2"
    by (simp_all add: csc_ctrl_point_ccc_cfg_changed_def csc_boot_def rscs_sc_ctrl_point_ccc_cfg_changed_def rsc_boot_def rscs_init_def rscs_ready_def)
  moreover have "filter (\<lambda>l. l \<in> set csc_supported_locations) [1, 5, 9] = [5]" "filter (\<lambda>l. l \<in> set rscs_supported_locations) [1, 5, 9] = [1]"
    by (simp_all add: csc_supported_locations_def rscs_supported_locations_def)
  moreover have "0 \<in> set csc_supported_locations" "2 \<in> set rscs_supported_locations"
    by (simp_all add: csc_supported_locations_def rscs_supported_locations_def)
  ultimately show ?thesis using location_updates [of ?c ?r env_always_ok "[1, 5, 9]"] by auto
qed

section \<open>Safety\<close>

datatype rscs_event = Rsc_Tick | Rsc_Write bytes | Rsc_Confirm | Rsc_Meas_Ccc u16 | Rsc_Ctrl_Ccc u16

definition rscs_do :: "gatt_env \<Rightarrow> rscs_event \<Rightarrow> rscs_state \<Rightarrow> rscs_state res" where
  "rscs_do env e s = (case e of
     Rsc_Tick \<Rightarrow> Inr (rscs_timer_handler env s)
   | Rsc_Write buf \<Rightarrow> rbind (rscs_sc_ctrl_point_write env buf s) (\<lambda>(_, s). Inr s)
   | Rsc_Confirm \<Rightarrow> Inr (ctrl_point_indicate_rsp s)
   | Rsc_Meas_Ccc v \<Rightarrow> Inr (rscs_rsc_meas_ccc_cfg_changed v s)
   | Rsc_Ctrl_Ccc v \<Rightarrow> Inr (rscs_sc_ctrl_point_ccc_cfg_changed v s))"

definition rscs_step :: "gatt_env \<Rightarrow> rscs_state \<Rightarrow> rscs_event \<Rightarrow> rscs_state \<Rightarrow> bool" where
  "rscs_step env s e t \<longleftrightarrow> rscs_do env e s = Inr t"

definition rscs_ok :: "rscs_state \<Rightarrow> bool" where
  "rscs_ok s \<longleftrightarrow> length (ctrl_point_resp s) = 4 \<and> rsc_sensor_location s \<in> set rscs_supported_locations"

lemma rscs_replies:
  assumes "rscs_ok s"
  shows "\<exists>r t. rbind (rscs_ctrl_point_ind env op st [] s) (\<lambda>s. Inr (n, s)) = Inr (r, t) \<and> rscs_ok t"
  using rscs_reply [of s env op st] assms by (auto simp: rscs_ok_def)

lemma u32_decode_5: "length buf = 5 \<Longrightarrow> \<exists>v. u32_decode (drop 1 buf) = Inr v"
  by (simp add: u32_decode_def arr_get_def)

lemma rscs_write_cases:
  assumes "rscs_ok s"
  shows "if sc_control_point_ccc s \<noteq> 0 \<and> ctrl_point_indicating s = 0 \<and> buf = [4] then rscs_sc_ctrl_point_write env buf s = Inl Out_Of_Bounds
    else \<exists>r t. rscs_sc_ctrl_point_write env buf s = Inr (r, t) \<and> rscs_ok t"
proof (cases "sc_control_point_ccc s = 0 \<or> ctrl_point_indicating s \<noteq> 0 \<or> buf = []")
  case True
  then show ?thesis using assms by (auto simp: rscs_sc_ctrl_point_write_def)
next
  case False
  then obtain op bs where buf: "buf = op # bs" by (cases buf) auto
  let ?n = "int (length buf)"
  note reply = rscs_replies [OF assms, where env = env and op = op and n = ?n]
  have dist: "rscs_ok (s\<lparr>rsc_meas := m\<rparr>)" for m using assms by (simp add: rscs_ok_def)
  have loc: "l \<in> set rscs_supported_locations \<Longrightarrow> rscs_ok (s\<lparr>rsc_sensor_location := l\<rparr>)" for l using assms by (simp add: rscs_ok_def)
  have over: "rscs_ctrl_point_ind env op st rscs_supported_locations s = Inl Out_Of_Bounds" for st
    using assms by (simp add: rscs_ctrl_point_ind_def mem_cpy_def rscs_ok_def rscs_supported_locations_def)
  have g: "arr_get buf 0 = Inr op" using buf by (simp add: arr_get_def)
  consider (cwr) "op = 1" | (upd) "op = 3" | (supp) "op = 4" | (other) "op \<noteq> 1" "op \<noteq> 3" "op \<noteq> 4" by blast
  then show ?thesis
  proof cases
    case cwr
    then show ?thesis using False buf g reply rscs_replies [OF dist, where env = env and op = op and n = ?n] u32_decode_5 [of buf]
      by (auto simp: rscs_sc_ctrl_point_write_def)
  next
    case upd
    have "\<exists>r t. rscs_sc_ctrl_point_write env buf s = Inr (r, t) \<and> rscs_ok t"
    proof (cases "length buf = 2")
      case True
      then have "arr_get buf 1 = Inr (buf ! 1)" by (simp add: arr_get_def)
      then show ?thesis using False buf g upd True reply rscs_replies [OF loc, where env = env and op = op and n = ?n]
        by (auto simp: rscs_sc_ctrl_point_write_def)
    qed (use False buf g upd reply in \<open>auto simp: rscs_sc_ctrl_point_write_def\<close>)
    then show ?thesis using upd buf by simp
  next
    case supp
    then show ?thesis using False buf g reply over by (auto simp: rscs_sc_ctrl_point_write_def)
  next
    case other
    then show ?thesis using False buf g reply by (auto simp: rscs_sc_ctrl_point_write_def)
  qed
qed

interpretation rscs: step_invariant "rscs_step env" rscs_ok
proof
  show "rscs_ok y" if "rscs_step env x l y" "rscs_ok x" for x l y
  proof (cases l)
    case (Rsc_Write buf)
    then show ?thesis using that rscs_write_cases [OF that(2), of buf env] by (auto simp: rscs_step_def rscs_do_def split: if_splits)
  next
    case Rsc_Tick
    then show ?thesis
      using that by (auto simp: rscs_step_def rscs_do_def rscs_timer_handler_def rsc_measurement_simulation_def rsc_measurement_notify_def rscs_ok_def Let_def)
  qed (use that in \<open>auto simp: rscs_step_def rscs_do_def ctrl_point_indicate_rsp_def rscs_rsc_meas_ccc_cfg_changed_def
    rscs_sc_ctrl_point_ccc_cfg_changed_def rscs_ok_def\<close>)
qed

lemma rsc_boot_ok: "rscs_ok rsc_boot"
  by (simp add: rscs_ok_def rsc_boot_def rscs_init_def rscs_supported_locations_def)

text \<open>
  In every state that the running service reaches, the location of the sensor is a supported one, and an event is handled without
  undefined behaviour unless a subscribed client asks for the supported locations while no answer is pending: the five locations are
  then copied to an array of one byte, which overwrites the variables behind it.
\<close>

theorem rscs_overflow_exact:
  assumes "lrun (rscs_step env) rsc_boot es t"
  shows "rsc_sensor_location t \<in> set rscs_supported_locations \<and>
    (rscs_do env e t = Inl Out_Of_Bounds \<longleftrightarrow> e = Rsc_Write [4] \<and> sc_control_point_ccc t \<noteq> 0 \<and> ctrl_point_indicating t = 0) \<and>
    (rscs_do env e t \<noteq> Inl Out_Of_Bounds \<longrightarrow> (\<exists>u. rscs_do env e t = Inr u))"
proof -
  have ok: "rscs_ok t" using rscs.inv_run [OF assms rsc_boot_ok] .
  show ?thesis
  proof (cases e)
    case (Rsc_Write buf)
    then show ?thesis using rscs_write_cases [OF ok, of buf env] ok by (auto simp: rscs_do_def rscs_ok_def split: if_splits)
  qed (use ok in \<open>simp_all add: rscs_do_def rscs_ok_def\<close>)
qed

theorem rscs_overflow_exact_witness:
  "rscs_do env_always_ok (Rsc_Write [4]) (rscs_sc_ctrl_point_ccc_cfg_changed 2 rsc_boot) = Inl Out_Of_Bounds"
proof -
  let ?t = "rscs_sc_ctrl_point_ccc_cfg_changed 2 rsc_boot"
  have "lrun (rscs_step env_always_ok) rsc_boot [Rsc_Ctrl_Ccc 2] ?t"
    by (intro lrun_Cons [OF _ lrun_Nil]) (simp add: rscs_step_def rscs_do_def)
  moreover have "sc_control_point_ccc ?t \<noteq> 0" "ctrl_point_indicating ?t = 0"
    by (simp_all add: rscs_sc_ctrl_point_ccc_cfg_changed_def rsc_boot_def rscs_init_def)
  ultimately show ?thesis using rscs_overflow_exact [of env_always_ok "[Rsc_Ctrl_Ccc 2]" ?t "Rsc_Write [4]"] by simp
qed

text \<open>The cycling service sizes its buffer by the answer: no write goes out of bounds.\<close>

lemma csc_write_safe: "\<exists>r t. csc_write_ctrl_point env buf s = Inr (r, t) \<and>
  (sensor_location s \<in> set csc_supported_locations \<longrightarrow> sensor_location t \<in> set csc_supported_locations)"
proof (cases "ctrl_point_configured s \<and> buf \<noteq> []")
  case True
  then obtain op bs where "buf = op # bs" by (cases buf) auto
  then show ?thesis using True u32_decode_5 [of buf]
    by (auto simp: csc_write_ctrl_point_def csc_ctrl_point_ind_def arr_get_def Let_def)
qed (auto simp: csc_write_ctrl_point_def)

end
