(* ===== verification/Ota.thy ===== *)
theory Ota
  imports Gatt_Env Types_Encode
begin

text \<open>
  The over-the-air update profile, \<^verbatim>\<open>ext/lib/actions/ota\<close>: the GATT attributes
  (\<^verbatim>\<open>ota_profile.c\<close>), the control block and event dispatch (\<^verbatim>\<open>ota.c\<close>), the file transfer
  control and data handlers (\<^verbatim>\<open>ota_ft.c\<close>), the connection parameters (\<^verbatim>\<open>ota_dc.c\<close>) and the
  storage layer (\<^verbatim>\<open>ota_storage.c\<close>).

  The code outside the repository is an environment (\<open>ota_env\<close>): the host's notifications, the
  NOR flash driver of the ROM, \<open>crc32\<close>, the application's version string, the message queue (it
  may drop a message) and the memory-mapped pointer to the partition table.
\<close>

section \<open>Data\<close>

record 'd ota_env =
  oe_gatt :: gatt_env
  oe_post :: "u32 list \<Rightarrow> u32 \<Rightarrow> bool"
  oe_read :: "'d \<Rightarrow> u32 \<Rightarrow> u32 \<Rightarrow> bytes"
  oe_write :: "u32 \<Rightarrow> bytes \<Rightarrow> 'd \<Rightarrow> 'd"
  oe_erase :: "u32 \<Rightarrow> u32 \<Rightarrow> 'd \<Rightarrow> 'd"
  oe_crc32 :: "bytes \<Rightarrow> u32 \<Rightarrow> u32"
  oe_version :: bytes
  oe_table_addr :: u32
  oe_table_len :: u32
  oe_mtu :: nat

record bt_le_conn_param =
  interval_min :: u16
  interval_max :: u16
  latency :: u16
  timeout :: u16

text \<open>
  \<open>otaCb\<close> and the other static variables. \<open>storage\<close> is the flash device behind
  \<open>otaCb.storage\<close> (\<open>None\<close> for the null pointer), \<open>ota_conn\<close> says that \<open>otaCb.conn\<close> is not null, \<open>ota_events\<close> are
  the posted messages that are not handled yet, \<open>wake_lock\<close> is the number of wake locks the profile holds.
\<close>

record 'd ota_state =
  tx_ready_mask :: u8
  ft_addr :: u32
  ft_len :: u32
  ft_crc :: u32
  ft_handle :: u16
  ftc_msg_len :: u16
  ftc_msg_buf :: bytes
  ft_in_progress :: u8
  wakeup_flag :: bool
  pending_count :: u32
  send_count :: u32
  storage :: "'d option"
  ota_conn :: bool
  conn_param :: bt_le_conn_param
  ota_need_reset :: u8
  ota_dc :: u8
  ota_ftc :: u8
  ota_ftd :: u8
  ota_au :: u8
  ota_events :: "u32 list"
  wake_lock :: int
  disconnected :: bool
  param_updates :: "bt_le_conn_param list"
  ota_trace :: "gatt_call list"

abbreviation (input) "OTA_TX_MASK_FTC_BIT \<equiv> 0x04 :: u8"
abbreviation (input) "OTA_TX_MASK_FTD_BIT \<equiv> 0x08 :: u8"
abbreviation (input) "OTA_TX_MASK_FTC_ASYNC_BIT \<equiv> 0x20 :: u8"
abbreviation (input) "EV_FTC \<equiv> 0x04 :: u32"
abbreviation (input) "EV_FTD \<equiv> 0x08 :: u32"
abbreviation (input) "EV_FTC_ASYNC \<equiv> 0x20 :: u32"
abbreviation (input) "EV_CONN_PARAM_UPDATE \<equiv> 0x40 :: u32"
abbreviation (input) "EV_DISCONNECT \<equiv> 0x80 :: u32"

abbreviation (input) "OTA_DC_HDL \<equiv> 2 :: nat"
abbreviation (input) "OTA_FTC_HDL \<equiv> 5 :: nat"
abbreviation (input) "OTA_FTD_HDL \<equiv> 8 :: nat"
abbreviation (input) "OTA_AU_HDL \<equiv> 11 :: nat"

abbreviation (input) "OTA_FTC_OP_NONE \<equiv> 0x00 :: u8"
abbreviation (input) "OTA_FTC_OP_GET_REQ \<equiv> 0x01 :: u8"
abbreviation (input) "OTA_FTC_OP_GET_RSP \<equiv> 0x02 :: u8"
abbreviation (input) "OTA_FTC_OP_PUT_REQ \<equiv> 0x03 :: u8"
abbreviation (input) "OTA_FTC_OP_PUT_RSP \<equiv> 0x04 :: u8"
abbreviation (input) "OTA_FTC_OP_ERASE_REQ \<equiv> 0x05 :: u8"
abbreviation (input) "OTA_FTC_OP_ERASE_RSP \<equiv> 0x06 :: u8"
abbreviation (input) "OTA_FTC_OP_VERIFY_REQ \<equiv> 0x07 :: u8"
abbreviation (input) "OTA_FTC_OP_VERIFY_RSP \<equiv> 0x08 :: u8"
abbreviation (input) "OTA_FTC_OP_ABORT \<equiv> 0x09 :: u8"
abbreviation (input) "OTA_FTC_OP_EOF \<equiv> 0x0a :: u8"
abbreviation (input) "OTA_FTC_OP_PACKET_RECEIVED \<equiv> 0x0b :: u8"
abbreviation (input) "OTA_FTC_OP_SYSTEM_RESET \<equiv> 0x0c :: u8"
abbreviation (input) "OTA_FTC_OP_GET_VERSION_REQ \<equiv> 0x0d :: u8"
abbreviation (input) "OTA_FTC_OP_GET_VERSION_RSP \<equiv> 0x0e :: u8"

abbreviation (input) "OTA_FTC_ST_SUCCESS \<equiv> 0 :: u8"
abbreviation (input) "OTA_FTC_ST_IN_PROGRESS \<equiv> 4 :: u8"
abbreviation (input) "OTA_FTC_ST_VERIFICATION \<equiv> 5 :: u8"

section \<open>Byte streams\<close>

text \<open>The macros of \<^verbatim>\<open>bstream.h\<close> that the handlers use; a read past the received bytes is an error.\<close>

definition BSTREAM_TO_UINT16 :: "bytes \<Rightarrow> (u16 \<times> bytes) res" where
  "BSTREAM_TO_UINT16 p = rbind (arr_get p 0) (\<lambda>b0. rbind (arr_get p 1) (\<lambda>b1.
     Inr (ucast b0 + push_bit 8 (ucast b1), drop 2 p)))"

definition BSTREAM_TO_UINT32 :: "bytes \<Rightarrow> (u32 \<times> bytes) res" where
  "BSTREAM_TO_UINT32 p = rbind (arr_get p 0) (\<lambda>b0. rbind (arr_get p 1) (\<lambda>b1.
     rbind (arr_get p 2) (\<lambda>b2. rbind (arr_get p 3) (\<lambda>b3.
     Inr (ucast b0 + push_bit 8 (ucast b1) + push_bit 16 (ucast b2) + push_bit 24 (ucast b3), drop 4 p)))))"

definition UINT16_TO_BSTREAM :: "u16 \<Rightarrow> bytes" where
  "UINT16_TO_BSTREAM n = [ucast n, ucast (drop_bit 8 n)]"

section \<open>Storage\<close>

definition ota_storage_write :: "'d ota_env \<Rightarrow> u32 \<Rightarrow> bytes \<Rightarrow> 'd ota_state \<Rightarrow> 'd ota_state" where
  "ota_storage_write env addr buf s = s\<lparr>storage := map_option (oe_write env addr buf) (storage s)\<rparr>"

text \<open>
  With a null device the caller's buffer, an uninitialised local array, is left as it is; both
  callers use its bytes at once.
\<close>

definition ota_storage_read :: "'d ota_env \<Rightarrow> u32 \<Rightarrow> u32 \<Rightarrow> 'd ota_state \<Rightarrow> bytes res" where
  "ota_storage_read env addr len s =
     (case storage s of None \<Rightarrow> Inl Uninit_Read | Some d \<Rightarrow> Inr (oe_read env d addr len))"

definition ota_storage_erase :: "'d ota_env \<Rightarrow> u32 \<Rightarrow> u32 \<Rightarrow> 'd ota_state \<Rightarrow> 'd ota_state" where
  "ota_storage_erase env addr sz s = s\<lparr>storage := map_option (oe_erase env addr sz) (storage s)\<rparr>"

section \<open>Events and notifications\<close>

definition ota_send_event :: "'d ota_env \<Rightarrow> u32 \<Rightarrow> 'd ota_state \<Rightarrow> 'd ota_state" where
  "ota_send_event env ev s =
     (if oe_post env (ota_events s) ev then s\<lparr>ota_events := ota_events s @ [ev]\<rparr> else s)"

definition ota_ccc_enabled :: "nat \<Rightarrow> 'd ota_state \<Rightarrow> bool" where
  "ota_ccc_enabled handle s =
     (if handle = OTA_DC_HDL then ota_dc s \<noteq> 0
      else if handle = OTA_FTC_HDL then ota_ftc s \<noteq> 0
      else if handle = OTA_FTD_HDL then ota_ftd s \<noteq> 0
      else if handle = OTA_AU_HDL then ota_au s \<noteq> 0
      else True)"

definition ota_send_notify :: "'d ota_env \<Rightarrow> nat \<Rightarrow> bytes \<Rightarrow> 'd ota_state \<Rightarrow> 'd ota_state" where
  "ota_send_notify env handle data s =
     s\<lparr>ota_trace := snd (bt_gatt_notify (oe_gatt env) handle data (ota_trace s))\<rparr>"

definition ota_dc_ccc_cfg_changed :: "u16 \<Rightarrow> 'd ota_state \<Rightarrow> 'd ota_state" where
  "ota_dc_ccc_cfg_changed v s = s\<lparr>ota_dc := (if v = BT_GATT_CCC_NOTIFY then 1 else 0)\<rparr>"

definition ota_ftc_ccc_cfg_changed :: "u16 \<Rightarrow> 'd ota_state \<Rightarrow> 'd ota_state" where
  "ota_ftc_ccc_cfg_changed v s = s\<lparr>ota_ftc := (if v = BT_GATT_CCC_NOTIFY then 1 else 0)\<rparr>"

definition ota_ftd_ccc_cfg_changed :: "u16 \<Rightarrow> 'd ota_state \<Rightarrow> 'd ota_state" where
  "ota_ftd_ccc_cfg_changed v s = s\<lparr>ota_ftd := (if v = BT_GATT_CCC_NOTIFY then 1 else 0)\<rparr>"

definition ota_au_ccc_cfg_changed :: "u16 \<Rightarrow> 'd ota_state \<Rightarrow> 'd ota_state" where
  "ota_au_ccc_cfg_changed v s = s\<lparr>ota_au := (if v = BT_GATT_CCC_NOTIFY then 1 else 0)\<rparr>"

section \<open>File transfer control\<close>

definition ota_ftc_send :: "'d ota_env \<Rightarrow> 'd ota_state \<Rightarrow> 'd ota_state" where
  "ota_ftc_send env s =
     (let s = (if ota_ccc_enabled OTA_FTC_HDL s
               then ota_send_notify env OTA_FTC_HDL (take (unat (ftc_msg_len s)) (ftc_msg_buf s)) s else s)
      in s\<lparr>tx_ready_mask := tx_ready_mask s AND NOT OTA_TX_MASK_FTC_BIT\<rparr>)"

definition ota_fdc_async_send :: "'d ota_env \<Rightarrow> 'd ota_state \<Rightarrow> 'd ota_state" where
  "ota_fdc_async_send env s =
     (if pending_count s = send_count s then s
      else let count = ucast (pending_count s - send_count s) :: u16;
               s = s\<lparr>send_count := pending_count s\<rparr>;
               msg = [OTA_FTC_OP_PACKET_RECEIVED] @ UINT16_TO_BSTREAM (ft_handle s) @ [0] @ UINT16_TO_BSTREAM count;
               s = (if ota_ccc_enabled OTA_FTC_HDL s then ota_send_notify env OTA_FTC_HDL msg s else s)
           in s\<lparr>tx_ready_mask := tx_ready_mask s AND NOT OTA_TX_MASK_FTC_ASYNC_BIT\<rparr>)"

definition ota_ftc_send_rsp :: "'d ota_env \<Rightarrow> u8 \<Rightarrow> u16 \<Rightarrow> u8 \<Rightarrow> u16 \<Rightarrow> 'd ota_state \<Rightarrow> 'd ota_state res" where
  "ota_ftc_send_rsp env opc handle status extra_info s =
     (if flag_set (tx_ready_mask s) OTA_TX_MASK_FTC_BIT then Inr s
      else let msg = [opc] @ UINT16_TO_BSTREAM handle @ [status]
                 @ (if opc = OTA_FTC_OP_PACKET_RECEIVED then UINT16_TO_BSTREAM extra_info
                    else if opc = OTA_FTC_OP_GET_VERSION_RSP then oe_version env else []) in
           rbind (mem_cpy (ftc_msg_buf s) 0 msg (length msg)) (\<lambda>buf.
           Inr (ota_send_event env EV_FTC
             (s\<lparr>ftc_msg_buf := buf, ftc_msg_len := of_nat (length msg),
                tx_ready_mask := tx_ready_mask s OR OTA_TX_MASK_FTC_BIT, ota_conn := True\<rparr>))))"

definition ota_ftc_proc_get_req :: "'d ota_env \<Rightarrow> u16 \<Rightarrow> bytes \<Rightarrow> 'd ota_state \<Rightarrow> 'd ota_state res" where
  "ota_ftc_proc_get_req env handle p s =
     (if ft_in_progress s \<noteq> OTA_FTC_OP_NONE
      then ota_ftc_send_rsp env OTA_FTC_OP_GET_RSP handle OTA_FTC_ST_IN_PROGRESS 0 s
      else rbind (BSTREAM_TO_UINT32 p) (\<lambda>(addr, p). rbind (BSTREAM_TO_UINT32 p) (\<lambda>(len, p).
           let s = s\<lparr>ft_addr := (if handle = 0 then oe_table_addr env else addr),
                     ft_len := (if handle = 0 then oe_table_len env else len),
                     ft_handle := handle, ft_in_progress := OTA_FTC_OP_GET_REQ\<rparr> in
           rbind (ota_ftc_send_rsp env OTA_FTC_OP_GET_RSP handle OTA_FTC_ST_SUCCESS 0 s) (\<lambda>s.
           Inr (ota_send_event env EV_FTD (s\<lparr>ota_conn := True\<rparr>))))))"

definition ota_ftc_proc_put_req :: "'d ota_env \<Rightarrow> u16 \<Rightarrow> bytes \<Rightarrow> 'd ota_state \<Rightarrow> 'd ota_state res" where
  "ota_ftc_proc_put_req env handle p s =
     (if ft_in_progress s \<noteq> OTA_FTC_OP_NONE
      then ota_ftc_send_rsp env OTA_FTC_OP_PUT_RSP handle OTA_FTC_ST_IN_PROGRESS 0 s
      else rbind (BSTREAM_TO_UINT32 p) (\<lambda>(addr, p). rbind (BSTREAM_TO_UINT32 p) (\<lambda>(len, p).
           ota_ftc_send_rsp env OTA_FTC_OP_PUT_RSP handle OTA_FTC_ST_SUCCESS 0
             (s\<lparr>ft_handle := handle, ft_addr := addr, ft_len := len, ft_in_progress := OTA_FTC_OP_PUT_REQ,
                pending_count := 0, send_count := 0\<rparr>))))"

text \<open>The checksum loop over pages of at most 256 bytes.\<close>

function verify_loop :: "'d ota_env \<Rightarrow> 'd ota_state \<Rightarrow> u32 \<Rightarrow> u32 \<Rightarrow> u32 res" where
  "verify_loop env s off crc =
     (if off < ft_len s
      then let read_len = min 256 (ft_len s - off) in
           rbind (ota_storage_read env (ft_addr s + off) read_len s) (\<lambda>page.
           verify_loop env s (off + read_len) (oe_crc32 env page crc))
      else Inr crc)"
  by pat_completeness auto

lemma verify_progress:
  fixes off len :: u32 assumes "off < len"
  shows "unat (off + min 256 (len - off)) = unat off + min 256 (unat len - unat off)"
proof -
  have le: "off \<le> len" using assms by simp
  have sub: "unat (len - off) = unat len - unat off" using le by (simp add: unat_sub)
  have m: "unat (min 256 (len - off)) = min 256 (unat len - unat off)"
    by (auto simp: min_def word_le_nat_alt sub)
  have "unat off + min 256 (unat len - unat off) \<le> unat len" using assms by (simp add: word_less_nat_alt)
  also have "unat len < 2 ^ 32" using unsigned_less [of len] by simp
  finally show ?thesis by (simp add: unat_word_ariths m)
qed

termination verify_loop
proof (relation "measure (\<lambda>(env, s, off, crc). unat (ft_len s) - unat off)")
  fix env :: "'d ota_env" and s :: "'d ota_state" and off crc x xa
  assume o: "off < ft_len s" and x: "x = min 256 (ft_len s - off)"
  then have "0 < min 256 (unat (ft_len s) - unat off)" by (simp add: word_less_nat_alt)
  with o show "((env, s, off + x, oe_crc32 env xa crc), env, s, off, crc)
      \<in> measure (\<lambda>(env, s, off, crc). unat (ft_len s) - unat off)"
    by (auto simp: x verify_progress word_less_nat_alt)
qed simp

declare verify_loop.simps [simp del]

definition ota_ftc_proc_verify_req :: "'d ota_env \<Rightarrow> u16 \<Rightarrow> bytes \<Rightarrow> 'd ota_state \<Rightarrow> 'd ota_state res" where
  "ota_ftc_proc_verify_req env handle p s =
     (if ft_in_progress s \<noteq> OTA_FTC_OP_NONE
      then ota_ftc_send_rsp env OTA_FTC_OP_VERIFY_RSP handle OTA_FTC_ST_IN_PROGRESS 0 s
      else rbind (BSTREAM_TO_UINT32 p) (\<lambda>(addr, p). rbind (BSTREAM_TO_UINT32 p) (\<lambda>(len, p).
           rbind (BSTREAM_TO_UINT32 p) (\<lambda>(crc, p).
           let s = s\<lparr>ft_handle := handle, ft_addr := addr, ft_len := len, ft_crc := crc\<rparr> in
           rbind (verify_loop env s 0 0) (\<lambda>c.
           ota_ftc_send_rsp env OTA_FTC_OP_VERIFY_RSP handle
             (if c = ft_crc s then OTA_FTC_ST_SUCCESS else OTA_FTC_ST_VERIFICATION) 0 s)))))"

definition ota_ftc_proc_erase_req :: "'d ota_env \<Rightarrow> u16 \<Rightarrow> bytes \<Rightarrow> 'd ota_state \<Rightarrow> 'd ota_state res" where
  "ota_ftc_proc_erase_req env handle p s =
     (if ft_in_progress s \<noteq> OTA_FTC_OP_NONE
      then ota_ftc_send_rsp env OTA_FTC_OP_ERASE_RSP handle OTA_FTC_ST_IN_PROGRESS 0 s
      else rbind (BSTREAM_TO_UINT32 p) (\<lambda>(addr, p). rbind (BSTREAM_TO_UINT32 p) (\<lambda>(len, p).
           ota_ftc_send_rsp env OTA_FTC_OP_ERASE_RSP handle OTA_FTC_ST_SUCCESS 0
             (ota_storage_erase env addr len (s\<lparr>ft_handle := handle, ft_addr := addr, ft_len := len\<rparr>)))))"

definition ota_ftc_proc_abort :: "'d ota_state \<Rightarrow> 'd ota_state" where
  "ota_ftc_proc_abort s =
     (if ft_in_progress s \<noteq> OTA_FTC_OP_NONE
      then s\<lparr>ft_in_progress := OTA_FTC_OP_NONE, ft_len := 0, ft_addr := 0\<rparr> else s)"

definition ota_ftc_proc_get_version_req :: "'d ota_env \<Rightarrow> u16 \<Rightarrow> 'd ota_state \<Rightarrow> 'd ota_state res" where
  "ota_ftc_proc_get_version_req env handle s =
     ota_ftc_send_rsp env OTA_FTC_OP_GET_VERSION_RSP handle OTA_FTC_ST_SUCCESS 0 s"

definition ota_ftc_proc_reset :: "'d ota_env \<Rightarrow> 'd ota_state \<Rightarrow> 'd ota_state" where
  "ota_ftc_proc_reset env s = ota_send_event env EV_DISCONNECT (s\<lparr>ota_need_reset := 1\<rparr>)"

definition ota_ftc_write :: "'d ota_env \<Rightarrow> bytes \<Rightarrow> 'd ota_state \<Rightarrow> (int \<times> 'd ota_state) res" where
  "ota_ftc_write env buf s =
     (if length buf < 3 then Inr (BT_ATT_ERR_INVALID_ATTRIBUTE_LEN, s)
      else rbind (arr_get buf 0) (\<lambda>opc. rbind (BSTREAM_TO_UINT16 (drop 1 buf)) (\<lambda>(handle, p).
           rbind (if opc = OTA_FTC_OP_GET_REQ then ota_ftc_proc_get_req env handle p s
                  else if opc = OTA_FTC_OP_PUT_REQ then ota_ftc_proc_put_req env handle p s
                  else if opc = OTA_FTC_OP_VERIFY_REQ then ota_ftc_proc_verify_req env handle p s
                  else if opc = OTA_FTC_OP_ERASE_REQ then ota_ftc_proc_erase_req env handle p s
                  else if opc = OTA_FTC_OP_ABORT then Inr (ota_ftc_proc_abort s)
                  else if opc = OTA_FTC_OP_SYSTEM_RESET then Inr (ota_ftc_proc_reset env s)
                  else if opc = OTA_FTC_OP_GET_VERSION_REQ then ota_ftc_proc_get_version_req env handle s
                  else Inr s) (\<lambda>s. Inr (0, s)))))"

section \<open>File transfer data\<close>

definition ota_ftd_write :: "'d ota_env \<Rightarrow> bytes \<Rightarrow> 'd ota_state \<Rightarrow> (int \<times> 'd ota_state) res" where
  "ota_ftd_write env buf s =
     (let len = of_nat (length buf) :: u32 in
      if ft_in_progress s \<noteq> OTA_FTC_OP_PUT_REQ then Inr (BT_ATT_ERR_UNLIKELY, s)
      else if length buf = 0 then Inr (BT_ATT_ERR_INVALID_ATTRIBUTE_LEN, s)
      else if ft_len s \<ge> len
      then let s = ota_storage_write env (ft_addr s) buf s;
               s = s\<lparr>ft_addr := ft_addr s + len, ft_len := ft_len s - len,
                     pending_count := pending_count s + len, ota_conn := True\<rparr> in
           if ft_len s = 0
           then rbind (ota_ftc_send_rsp env OTA_FTC_OP_EOF (ft_handle s) 0 0
                        (ota_send_event env EV_FTC_ASYNC (s\<lparr>ft_in_progress := OTA_FTC_OP_NONE\<rparr>)))
                  (\<lambda>s. Inr (0, s))
           else if \<not> flag_set (tx_ready_mask s) OTA_TX_MASK_FTC_ASYNC_BIT
           then Inr (0, ota_send_event env EV_FTC_ASYNC
                          (s\<lparr>tx_ready_mask := tx_ready_mask s OR OTA_TX_MASK_FTC_ASYNC_BIT\<rparr>))
           else Inr (0, s)
      else Inr (0, s))"

definition ota_ftd_send :: "'d ota_env \<Rightarrow> 'd ota_state \<Rightarrow> 'd ota_state res" where
  "ota_ftd_send env s =
     (if ota_ccc_enabled OTA_FTD_HDL s
      then let readLen = (if 20 < ft_len s then 20 else ft_len s) in
           rbind (if readLen > 0
                  then rbind (ota_storage_read env (ft_addr s) readLen s) (\<lambda>buf.
                       Inr (ota_send_notify env OTA_FTD_HDL buf
                             (s\<lparr>ft_len := ft_len s - readLen, ft_addr := ft_addr s + readLen\<rparr>)))
                  else Inr s) (\<lambda>s.
              if ft_len s = 0 \<or> readLen = 0
              then ota_ftc_send_rsp env OTA_FTC_OP_EOF (ft_handle s) 0 0
                     (s\<lparr>ft_in_progress := OTA_FTC_OP_NONE,
                        tx_ready_mask := tx_ready_mask s AND NOT OTA_TX_MASK_FTD_BIT\<rparr>)
              else Inr (ota_send_event env EV_FTD s))
      else Inr s)"

section \<open>Connection parameters\<close>

text \<open>The host dereferences the connection it is given.\<close>

definition ota_dc_conn_param_update :: "'d ota_state \<Rightarrow> 'd ota_state res" where
  "ota_dc_conn_param_update s =
     (if ota_conn s then Inr (s\<lparr>param_updates := param_updates s @ [conn_param s]\<rparr>) else Inl Null_Deref)"

definition ota_dc_set_conn_param_req :: "'d ota_env \<Rightarrow> bytes \<Rightarrow> 'd ota_state \<Rightarrow> (int \<times> 'd ota_state) res" where
  "ota_dc_set_conn_param_req env p s =
     (if length p \<noteq> 8 then Inr (BT_ATT_ERR_INVALID_ATTRIBUTE_LEN, s)
      else rbind (BSTREAM_TO_UINT16 p) (\<lambda>(mn, p). rbind (BSTREAM_TO_UINT16 p) (\<lambda>(mx, p).
           rbind (BSTREAM_TO_UINT16 p) (\<lambda>(lat, p). rbind (BSTREAM_TO_UINT16 p) (\<lambda>(tmo, p).
           Inr (0, ota_send_event env EV_CONN_PARAM_UPDATE
             (s\<lparr>conn_param := \<lparr>interval_min = mn, interval_max = mx, latency = lat, timeout = tmo\<rparr>, ota_conn := True\<rparr>)))))))"

definition ota_dc_get_conn_param :: "'d ota_state \<Rightarrow> int \<times> 'd ota_state" where
  "ota_dc_get_conn_param s = (0, s)"

definition ota_dc_write :: "'d ota_env \<Rightarrow> bytes \<Rightarrow> 'd ota_state \<Rightarrow> (int \<times> 'd ota_state) res" where
  "ota_dc_write env buf s =
     (if length buf < 2 then Inr (BT_ATT_ERR_INVALID_ATTRIBUTE_LEN, s)
      else rbind (arr_get buf 0) (\<lambda>opc. rbind (arr_get buf 1) (\<lambda>param_id.
           if opc = 0x02
           then if param_id = 0x01 then ota_dc_set_conn_param_req env (drop 2 buf) s
                else Inr (BT_ATT_ERR_OUT_OF_RANGE, s)
           else if opc = 0x01
           then if param_id = 0x02 then Inr (ota_dc_get_conn_param s) else Inr (BT_ATT_ERR_OUT_OF_RANGE, s)
           else Inr (BT_ATT_ERR_OUT_OF_RANGE, s))))"

section \<open>Dispatch\<close>

definition ota_write_cback :: "'d ota_env \<Rightarrow> nat \<Rightarrow> bytes \<Rightarrow> 'd ota_state \<Rightarrow> (int \<times> 'd ota_state) res" where
  "ota_write_cback env handle buf s =
     (let s = (if \<not> wakeup_flag s then s\<lparr>wake_lock := wake_lock s + 1, wakeup_flag := True\<rparr> else s) in
      if handle = OTA_DC_HDL then ota_dc_write env buf s
      else if handle = OTA_FTC_HDL then ota_ftc_write env buf s
      else if handle = OTA_FTD_HDL then ota_ftd_write env buf s
      else Inr (BT_ATT_ERR_INVALID_HANDLE, s))"

definition ota_wakeup_timeout_handler :: "'d ota_state \<Rightarrow> 'd ota_state" where
  "ota_wakeup_timeout_handler s =
     (if wakeup_flag s then s\<lparr>wake_lock := wake_lock s - 1, wakeup_flag := False\<rparr> else s)"

definition is_need_writeCb :: "nat \<Rightarrow> bool" where
  "is_need_writeCb attr_id \<longleftrightarrow> attr_id \<in> {OTA_DC_HDL, OTA_FTC_HDL, OTA_FTD_HDL, OTA_AU_HDL}"

text \<open>The status of the callback is discarded; a write within the MTU is always accepted.\<close>

definition write_ota :: "'d ota_env \<Rightarrow> nat \<Rightarrow> bytes \<Rightarrow> u16 \<Rightarrow> 'd ota_state \<Rightarrow> (int \<times> 'd ota_state) res" where
  "write_ota env attr_id buf offset s =
     (if unat offset + length buf + 3 > oe_mtu env then Inr (BT_GATT_ERR BT_ATT_ERR_INVALID_OFFSET, s)
      else if is_need_writeCb attr_id
      then rbind (ota_write_cback env attr_id buf s) (\<lambda>(_, s). Inr (int (length buf), s))
      else Inr (int (length buf), s))"

definition ota_event_handle :: "'d ota_env \<Rightarrow> u32 \<Rightarrow> 'd ota_state \<Rightarrow> 'd ota_state res" where
  "ota_event_handle env ev s =
     (if ev = EV_FTD then ota_ftd_send env s
      else if ev = EV_FTC then Inr (ota_ftc_send env s)
      else if ev = EV_FTC_ASYNC then Inr (ota_fdc_async_send env s)
      else if ev = EV_CONN_PARAM_UPDATE then ota_dc_conn_param_update s
      else if ev = EV_DISCONNECT then (if ota_conn s then Inr (s\<lparr>disconnected := True\<rparr>) else Inl Null_Deref)
      else Inr s)"

text \<open>The application's loop takes the oldest posted event.\<close>

definition ota_handle_next :: "'d ota_env \<Rightarrow> 'd ota_state \<Rightarrow> 'd ota_state res" where
  "ota_handle_next env s =
     (case ota_events s of [] \<Rightarrow> Inr s | ev # evs \<Rightarrow> ota_event_handle env ev (s\<lparr>ota_events := evs\<rparr>))"

definition ota_profile_init :: "'d option \<Rightarrow> 'd ota_state \<Rightarrow> 'd ota_state" where
  "ota_profile_init dev s =
     s\<lparr>tx_ready_mask := 0, ft_addr := 0, ft_len := 0, ft_crc := 0, ft_handle := 0, ftc_msg_len := 0,
       ftc_msg_buf := replicate 20 0, ft_in_progress := 0, wakeup_flag := False, pending_count := 0,
       send_count := 0, storage := dev, ota_conn := False\<rparr>"

section \<open>Byte streams\<close>

lemma u16_join_add: "(ucast a :: u16) + push_bit 8 (ucast b) = ucast a OR push_bit 8 (ucast b)" for a b :: u8
  by (rule disjunctive_add_eq_or) (auto simp: word_eq_bits bit_simps dest: bit_imp_le_length)

lemma BSTREAM_TO_UINT16_encode: "BSTREAM_TO_UINT16 (u16_encode v @ rest) = Inr (v, rest)"
  using u16_roundtrip [of v rest]
  by (simp add: BSTREAM_TO_UINT16_def u16_decode_def arr_get_def u16_join_add)

lemma add_or_bytes:
  "(ucast a :: u32) + push_bit 8 (ucast b) + push_bit 16 (ucast c) + push_bit 24 (ucast d) =
     ucast a OR push_bit 8 (ucast b) OR push_bit 16 (ucast c) OR push_bit 24 (ucast d)" for a b c d :: u8
proof -
  have "(ucast a :: u32) + push_bit 8 (ucast b) = ucast a OR push_bit 8 (ucast b)"
    by (rule disjunctive_add_eq_or) (auto simp: word_eq_bits bit_simps dest: bit_imp_le_length)
  moreover have "(ucast a OR push_bit 8 (ucast b) :: u32) + push_bit 16 (ucast c) = ucast a OR push_bit 8 (ucast b) OR push_bit 16 (ucast c)"
    by (subst disjunctive_add_eq_or) (auto simp: word_eq_bits bit_simps or.assoc dest: bit_imp_le_length)
  moreover have "(ucast a OR push_bit 8 (ucast b) OR push_bit 16 (ucast c) :: u32) + push_bit 24 (ucast d) =
      ucast a OR push_bit 8 (ucast b) OR push_bit 16 (ucast c) OR push_bit 24 (ucast d)"
    by (subst disjunctive_add_eq_or) (auto simp: word_eq_bits bit_simps or.assoc dest: bit_imp_le_length)
  ultimately show ?thesis by simp
qed

lemma BSTREAM_TO_UINT32_encode: "BSTREAM_TO_UINT32 (u32_encode v @ rest) = Inr (v, rest)"
  using u32_roundtrip [of v rest] encode_lengths(3) [of v]
  by (simp add: BSTREAM_TO_UINT32_def u32_decode_def arr_get_def add_or_bytes)

lemma BSTREAM_TO_UINT32_total:
  "BSTREAM_TO_UINT32 p = (if 4 \<le> length p then Inr (ucast (p ! 0) OR push_bit 8 (ucast (p ! 1)) OR push_bit 16 (ucast (p ! 2))
     OR push_bit 24 (ucast (p ! 3)), drop 4 p) else Inl Out_Of_Bounds)"
  by (simp add: BSTREAM_TO_UINT32_def arr_get_def add_or_bytes del: length_greater_0_conv)

lemma UINT16_TO_BSTREAM_eq: "UINT16_TO_BSTREAM v = u16_encode v"
  unfolding UINT16_TO_BSTREAM_def u16_encode_def mask_simps
  by (auto simp: bit_simps intro!: bit_word_eqI)

section \<open>What the code relies on\<close>

text \<open>
  A NOR flash seen as cells: a read returns the cells, a write can only clear bits, and an
  erase of whole 4 KB sectors sets every bit.
\<close>

definition nor_flash :: "'d ota_env \<Rightarrow> ('d \<Rightarrow> u32 \<Rightarrow> u8) \<Rightarrow> bool" where
  "nor_flash env cell \<longleftrightarrow>
     (\<forall>d a n. oe_read env d a n = map (\<lambda>i. cell d (a + of_nat i)) [0..<unat n]) \<and>
     (\<forall>d a b x. length b \<le> 2 ^ 32 \<longrightarrow> cell (oe_write env a b d) x =
        (if unat (x - a) < length b then cell d x AND b ! unat (x - a) else cell d x)) \<and>
     (\<forall>d a n x. 4096 dvd unat a \<and> 4096 dvd unat n \<longrightarrow>
        cell (oe_erase env a n d) x = (if unat (x - a) < unat n then 0xFF else cell d x))"

text \<open>The checksum of a message can be computed piecewise, starting from the previous value.\<close>

definition crc_chained :: "'d ota_env \<Rightarrow> bool" where
  "crc_chained env \<longleftrightarrow> (\<forall>i. oe_crc32 env [] i = i) \<and>
     (\<forall>x y i. oe_crc32 env (x @ y) i = oe_crc32 env y (oe_crc32 env x i))"

definition region :: "('d \<Rightarrow> u32 \<Rightarrow> u8) \<Rightarrow> 'd \<Rightarrow> u32 \<Rightarrow> nat \<Rightarrow> bytes" where
  "region cell d a n = map (\<lambda>i. cell d (a + of_nat i)) [0..<n]"

lemma region_length [simp]: "length (region cell d a n) = n"
  by (simp add: region_def)

lemma region_append: "region cell d a (m + n) = region cell d a m @ region cell d (a + of_nat m) n"
proof (rule nth_equalityI)
  fix i assume "i < length (region cell d a (m + n))"
  then have i: "i < m + n" by simp
  show "region cell d a (m + n) ! i = (region cell d a m @ region cell d (a + of_nat m) n) ! i"
  proof (cases "i < m")
    case False
    then have "a + of_nat m + of_nat (i - m) = a + of_nat i" by (simp add: add.assoc flip: of_nat_add)
    with False i show ?thesis by (simp add: region_def nth_append)
  qed (simp add: region_def nth_append)
qed simp

lemma nor_flash_read: "nor_flash env cell \<Longrightarrow> oe_read env d a n = region cell d a (unat n)"
  by (simp add: nor_flash_def region_def)

section \<open>Responses\<close>

definition ftc_free :: "'d ota_state \<Rightarrow> bool" where
  "ftc_free s \<longleftrightarrow> \<not> flag_set (tx_ready_mask s) OTA_TX_MASK_FTC_BIT \<and> length (ftc_msg_buf s) = 20"

lemma send_event_frame [simp]:
  "storage (ota_send_event env ev s) = storage s" "ft_in_progress (ota_send_event env ev s) = ft_in_progress s"
  "ft_addr (ota_send_event env ev s) = ft_addr s" "ft_len (ota_send_event env ev s) = ft_len s"
  "ft_handle (ota_send_event env ev s) = ft_handle s" "ft_crc (ota_send_event env ev s) = ft_crc s"
  "ftc_msg_buf (ota_send_event env ev s) = ftc_msg_buf s" "ftc_msg_len (ota_send_event env ev s) = ftc_msg_len s"
  "tx_ready_mask (ota_send_event env ev s) = tx_ready_mask s" "wakeup_flag (ota_send_event env ev s) = wakeup_flag s"
  "wake_lock (ota_send_event env ev s) = wake_lock s" "ota_trace (ota_send_event env ev s) = ota_trace s"
  "ota_ftc (ota_send_event env ev s) = ota_ftc s" "ota_ftd (ota_send_event env ev s) = ota_ftd s"
  "pending_count (ota_send_event env ev s) = pending_count s" "send_count (ota_send_event env ev s) = send_count s"
  "ota_conn (ota_send_event env ev s) = ota_conn s"
  by (simp_all add: ota_send_event_def)

text \<open>A response without extra data, when the previous one has been sent.\<close>

lemma send_rsp_plain:
  assumes "ftc_free s" "opc \<noteq> OTA_FTC_OP_PACKET_RECEIVED" "opc \<noteq> OTA_FTC_OP_GET_VERSION_RSP"
  shows "ota_ftc_send_rsp env opc h st x s = Inr (ota_send_event env EV_FTC
     (s\<lparr>ftc_msg_buf := ([opc] @ u16_encode h @ [st]) @ drop 4 (ftc_msg_buf s), ftc_msg_len := 4,
        tx_ready_mask := tx_ready_mask s OR OTA_TX_MASK_FTC_BIT, ota_conn := True\<rparr>))"
  using assms by (simp add: ota_ftc_send_rsp_def ftc_free_def mem_cpy_def UINT16_TO_BSTREAM_eq Let_def)

lemma send_rsp_total:
  assumes "length (ftc_msg_buf s) = 20" "opc \<noteq> OTA_FTC_OP_GET_VERSION_RSP \<or> length (oe_version env) \<le> 16"
  shows "\<exists>buf n m c evs. ota_ftc_send_rsp env opc h st x s =
      Inr (s\<lparr>ftc_msg_buf := buf, ftc_msg_len := n, tx_ready_mask := m, ota_conn := c, ota_events := evs\<rparr>) \<and>
    length buf = 20 \<and> (ftc_msg_len s \<le> 20 \<longrightarrow> n \<le> 20)"
proof (cases "flag_set (tx_ready_mask s) OTA_TX_MASK_FTC_BIT")
  case True
  have "s = s\<lparr>ftc_msg_buf := ftc_msg_buf s, ftc_msg_len := ftc_msg_len s, tx_ready_mask := tx_ready_mask s,
      ota_conn := ota_conn s, ota_events := ota_events s\<rparr>" by simp
  with True assms(1) show ?thesis
    by (intro exI [of _ "ftc_msg_buf s"] exI [of _ "ftc_msg_len s"] exI [of _ "tx_ready_mask s"]
        exI [of _ "ota_conn s"] exI [of _ "ota_events s"])
       (simp add: ota_ftc_send_rsp_def)
next
  case False
  define msg where "msg = [opc] @ u16_encode h @ [st] @ (if opc = OTA_FTC_OP_PACKET_RECEIVED then u16_encode x
      else if opc = OTA_FTC_OP_GET_VERSION_RSP then oe_version env else [])"
  have len: "length msg \<le> 20" using assms(2) by (auto simp: msg_def)
  let ?s = "s\<lparr>ftc_msg_buf := msg @ drop (length msg) (ftc_msg_buf s), ftc_msg_len := of_nat (length msg),
     tx_ready_mask := tx_ready_mask s OR OTA_TX_MASK_FTC_BIT, ota_conn := True\<rparr>"
  have "ota_ftc_send_rsp env opc h st x s = rbind (mem_cpy (ftc_msg_buf s) 0 msg (length msg)) (\<lambda>buf.
      Inr (ota_send_event env EV_FTC (s\<lparr>ftc_msg_buf := buf, ftc_msg_len := of_nat (length msg),
        tx_ready_mask := tx_ready_mask s OR OTA_TX_MASK_FTC_BIT, ota_conn := True\<rparr>)))"
    unfolding ota_ftc_send_rsp_def Let_def msg_def UINT16_TO_BSTREAM_eq using False by (simp only: if_False)
  then have "ota_ftc_send_rsp env opc h st x s = Inr (ota_send_event env EV_FTC ?s)"
    using assms(1) len by (simp add: mem_cpy_def)
  moreover obtain evs where "ota_send_event env EV_FTC ?s = ?s\<lparr>ota_events := evs\<rparr>"
  proof
    show "ota_send_event env EV_FTC ?s = ?s\<lparr>ota_events := (if oe_post env (ota_events s) EV_FTC
        then ota_events s @ [EV_FTC] else ota_events s)\<rparr>" by (simp add: ota_send_event_def)
  qed
  moreover have "length (msg @ drop (length msg) (ftc_msg_buf s)) = 20" "(of_nat (length msg) :: u16) \<le> 20"
    using len assms(1) by (simp_all add: word_le_nat_alt unat_of_nat)
  ultimately show ?thesis
    by (intro exI [of _ "msg @ drop (length msg) (ftc_msg_buf s)"] exI [of _ "of_nat (length msg)"]
        exI [of _ "tx_ready_mask s OR OTA_TX_MASK_FTC_BIT"] exI [of _ True] exI [of _ evs]) simp
qed

section \<open>Verification\<close>

lemma verify_loop_eq:
  assumes "nor_flash env cell" "crc_chained env" "storage s = Some d" "off \<le> ft_len s"
  shows "verify_loop env s off crc = Inr (oe_crc32 env (region cell d (ft_addr s + off) (unat (ft_len s) - unat off)) crc)"
  using assms(3,4)
  using assms(1,2)
proof (induction env s off crc rule: verify_loop.induct)
  case (1 env s off crc)
  show ?case
  proof (cases "off < ft_len s")
    case True
    let ?n = "min 256 (ft_len s - off)" and ?k = "unat (ft_len s) - unat off"
    have n: "unat ?n = min 256 ?k" 
      using unat_sub [OF less_imp_le [OF True]] by (auto simp: min_def word_le_nat_alt)
    note nxt = verify_progress [OF True]
    have le: "off + ?n \<le> ft_len s" using True nxt by (simp add: word_le_nat_alt word_less_nat_alt)
    have "unat ?n \<le> ?k" using n by simp
    then have k1: "?k = unat ?n + (?k - unat ?n)" by (rule le_add_diff_inverse [symmetric])
    have k2: "?k - unat ?n = unat (ft_len s) - unat (off + ?n)" unfolding n nxt by simp
    have "region cell d (ft_addr s + off) ?k = region cell d (ft_addr s + off) (unat ?n + (?k - unat ?n))"
      using k1 by (rule arg_cong)
    also have "\<dots> = region cell d (ft_addr s + off) (unat ?n) @ region cell d (ft_addr s + (off + ?n)) (unat (ft_len s) - unat (off + ?n))"
      by (simp only: region_append k2) (simp add: add.assoc)
    finally have split: "region cell d (ft_addr s + off) ?k =
        region cell d (ft_addr s + off) (unat ?n) @ region cell d (ft_addr s + (off + ?n)) (unat (ft_len s) - unat (off + ?n))" .
    have page: "ota_storage_read env (ft_addr s + off) ?n s = Inr (region cell d (ft_addr s + off) (unat ?n))"
      using "1.prems" by (simp add: ota_storage_read_def nor_flash_read)
    have "verify_loop env s off crc = verify_loop env s (off + ?n) (oe_crc32 env (region cell d (ft_addr s + off) (unat ?n)) crc)"
      using True by (subst verify_loop.simps) (simp add: page Let_def)
    also have "\<dots> = Inr (oe_crc32 env (region cell d (ft_addr s + (off + ?n)) (unat (ft_len s) - unat (off + ?n)))
        (oe_crc32 env (region cell d (ft_addr s + off) (unat ?n)) crc))"
      using "1.IH" [OF True refl page] "1.prems" le by simp
    finally show ?thesis using "1.prems"(4) by (simp add: split crc_chained_def)
  next
    case False
    with "1.prems" show ?thesis by (subst verify_loop.simps) (simp add: region_def crc_chained_def)
  qed
qed

lemma ftc_write_op:
  "ota_ftc_write env (opc # u16_encode h @ p) s =
     rbind (if opc = OTA_FTC_OP_GET_REQ then ota_ftc_proc_get_req env h p s
                  else if opc = OTA_FTC_OP_PUT_REQ then ota_ftc_proc_put_req env h p s
                  else if opc = OTA_FTC_OP_VERIFY_REQ then ota_ftc_proc_verify_req env h p s
                  else if opc = OTA_FTC_OP_ERASE_REQ then ota_ftc_proc_erase_req env h p s
                  else if opc = OTA_FTC_OP_ABORT then Inr (ota_ftc_proc_abort s)
                  else if opc = OTA_FTC_OP_SYSTEM_RESET then Inr (ota_ftc_proc_reset env s)
                  else if opc = OTA_FTC_OP_GET_VERSION_REQ then ota_ftc_proc_get_version_req env h s
                  else Inr s) (\<lambda>s. Inr (0, s))"
  using BSTREAM_TO_UINT16_encode [of h p] by (simp add: ota_ftc_write_def arr_get_def)

lemma verify_request:
  assumes "nor_flash env cell" "crc_chained env" "storage s = Some d" "ft_in_progress s = OTA_FTC_OP_NONE" "ftc_free s"
  shows "\<exists>t. ota_ftc_write env (OTA_FTC_OP_VERIFY_REQ # u16_encode h @ u32_encode addr @ u32_encode len @ u32_encode crc) s = Inr (0, t) \<and>
    take 4 (ftc_msg_buf t) = [OTA_FTC_OP_VERIFY_RSP] @ u16_encode h @
      [if oe_crc32 env (region cell d addr (unat len)) 0 = crc then OTA_FTC_ST_SUCCESS else OTA_FTC_ST_VERIFICATION] \<and>
    ftc_msg_len t = 4 \<and> storage t = storage s \<and> ft_in_progress t = OTA_FTC_OP_NONE \<and>
    ft_handle t = h \<and> ft_addr t = addr \<and> ft_len t = len \<and> ft_crc t = crc"
proof -
  let ?s = "s\<lparr>ft_handle := h, ft_addr := addr, ft_len := len, ft_crc := crc\<rparr>"
  have v: "verify_loop env ?s 0 0 = Inr (oe_crc32 env (region cell d addr (unat len)) 0)"
    using verify_loop_eq [OF assms(1,2), of ?s d 0 0] assms(3) by simp
  have f: "ftc_free ?s" using assms(5) by (simp add: ftc_free_def)
  show ?thesis
    using assms(4) f v BSTREAM_TO_UINT32_encode [of crc "[]"]
    by (simp add: ftc_write_op ota_ftc_proc_verify_req_def BSTREAM_TO_UINT32_encode send_rsp_plain)
qed


section \<open>Receiving an image\<close>

fun ftd_writes :: "'d ota_env \<Rightarrow> bytes list \<Rightarrow> 'd ota_state \<Rightarrow> 'd ota_state res" where
  "ftd_writes env [] s = Inr s"
| "ftd_writes env (p # ps) s = rbind (ota_ftd_write env p s) (\<lambda>(st, s). ftd_writes env ps s)"

lemma nor_flash_write:
  "nor_flash env cell \<Longrightarrow> length b \<le> 2 ^ 32 \<Longrightarrow> cell (oe_write env a b d) x =
     (if unat (x - a) < length b then cell d x AND b ! unat (x - a) else cell d x)"
  by (simp add: nor_flash_def)

text \<open>Two adjacent writes are one write of the joined data.\<close>

lemma nor_flash_write_append:
  assumes "nor_flash env cell" "length (p @ q) \<le> 2 ^ 32"
  shows "cell (oe_write env (a + of_nat (length p)) q (oe_write env a p d)) x = cell (oe_write env a (p @ q) d) x"
proof -
  let ?k = "unat (x - a)" and ?n = "length p"
  have k: "?k < 2 ^ 32" using unsigned_less [of "x - a"] by simp
  have sub: "unat (x - (a + of_nat ?n)) = (if ?n \<le> ?k then ?k - ?n else 2 ^ 32 + ?k - ?n)"
  proof -
    have "unat (y - of_nat n) = (if n \<le> unat y then unat y - n else 2 ^ 32 + unat y - n)" if "n \<le> 2 ^ 32" for y :: u32 and n
      using that unat_bound [of y] unat_sub_if_size [of y "of_nat n"]
      by (cases "n = 2 ^ 32") (auto simp: word_size unat_of_nat)
    from this [of ?n "x - a"] assms(2) show ?thesis by (simp add: diff_diff_eq)
  qed
  show ?thesis
    using assms k by (auto simp: nor_flash_write sub nth_append)
qed

lemma ftd_write_accepts:
  assumes "ft_in_progress s = OTA_FTC_OP_PUT_REQ" "p \<noteq> []" "length p \<le> unat (ft_len s)" "storage s = Some d"
    and "length (ftc_msg_buf s) = 20"
  shows "\<exists>t. ota_ftd_write env p s = Inr (0, t) \<and> storage t = Some (oe_write env (ft_addr s) p d) \<and>
    ft_addr t = ft_addr s + of_nat (length p) \<and> ft_len t = ft_len s - of_nat (length p) \<and>
    ft_in_progress t = (if length p = unat (ft_len s) then OTA_FTC_OP_NONE else OTA_FTC_OP_PUT_REQ) \<and>
    length (ftc_msg_buf t) = 20 \<and> pending_count t = pending_count s + of_nat (length p)"
proof -
  have u: "unat (of_nat (length p) :: u32) = length p"
    using assms(3) unat_bound [of "ft_len s"] by (simp add: unat_of_nat)
  then have le: "of_nat (length p) \<le> ft_len s" using assms(3) by (simp add: word_le_nat_alt)
  have z: "ft_len s - of_nat (length p) = 0 \<longleftrightarrow> length p = unat (ft_len s)"
    using u by (metis right_minus_eq word_unat_eq_iff)
  let ?s = "ota_storage_write env (ft_addr s) p s"
  let ?t = "?s\<lparr>ft_addr := ft_addr s + of_nat (length p), ft_len := ft_len s - of_nat (length p),
     pending_count := pending_count s + of_nat (length p), ota_conn := True\<rparr>"
  have st: "storage ?s = Some (oe_write env (ft_addr s) p d)" "ft_addr ?s = ft_addr s" "ft_len ?s = ft_len s"
    "pending_count ?s = pending_count s" "ft_in_progress ?s = ft_in_progress s" "ftc_msg_buf ?s = ftc_msg_buf s"
    using assms(4) by (simp_all add: ota_storage_write_def)
  show ?thesis
  proof (cases "length p = unat (ft_len s)")
    case True
    let ?u = "ota_send_event env EV_FTC_ASYNC (?t\<lparr>ft_in_progress := OTA_FTC_OP_NONE\<rparr>)"
    obtain t where t: "ota_ftc_send_rsp env OTA_FTC_OP_EOF (ft_handle ?t) 0 0 ?u = Inr t"
      "storage t = storage ?u" "ft_in_progress t = ft_in_progress ?u" "ft_addr t = ft_addr ?u" "ft_len t = ft_len ?u"
      "length (ftc_msg_buf t) = 20" "pending_count t = pending_count ?u"
      using send_rsp_total [of ?u OTA_FTC_OP_EOF env "ft_handle ?t" 0 0] assms(5) st by fastforce
    have "ota_ftd_write env p s = Inr (0, t)"
      using True z le assms(1,2) st t(1) length_greater_0_conv [of p] by (simp add: ota_ftd_write_def Let_def)
    then show ?thesis using True st t(2-7) by simp
  next
    case False
    then show ?thesis
      using z le assms(1,2,5) st by (simp add: ota_ftd_write_def Let_def)
  qed
qed

lemma ftd_writes_append: "ftd_writes env (ps @ qs) s = rbind (ftd_writes env ps s) (ftd_writes env qs)"
proof (induction ps arbitrary: s)
  case (Cons p ps)
  then show ?case by (cases "ota_ftd_write env p s") (simp_all add: split_def)
qed simp

lemma put_stores:
  assumes "nor_flash env cell" "storage s = Some d" "ft_in_progress s = OTA_FTC_OP_PUT_REQ"
    and "length (ftc_msg_buf s) = 20" "unat (ft_len s) = length (concat ps)" "\<forall>p\<in>set ps. p \<noteq> []" "ps \<noteq> []"
  shows "\<exists>t d'. ftd_writes env ps s = Inr t \<and> storage t = Some d' \<and> ft_in_progress t = OTA_FTC_OP_NONE \<and> ft_len t = 0 \<and>
    length (ftc_msg_buf t) = 20 \<and> (\<forall>x. cell d' x = cell (oe_write env (ft_addr s) (concat ps) d) x)"
  using assms(2-7)
proof (induction ps arbitrary: s d)
  case (Cons p ps)
  have total: "length (concat (p # ps)) < 2 ^ 32" using Cons.prems(4) unat_bound [of "ft_len s"] by simp
  obtain t where t: "ota_ftd_write env p s = Inr (0, t)" "storage t = Some (oe_write env (ft_addr s) p d)"
    "ft_addr t = ft_addr s + of_nat (length p)" "ft_len t = ft_len s - of_nat (length p)"
    "ft_in_progress t = (if length p = unat (ft_len s) then OTA_FTC_OP_NONE else OTA_FTC_OP_PUT_REQ)" "length (ftc_msg_buf t) = 20"
    using ftd_write_accepts [of s p d env] Cons.prems by auto
  have u: "unat (of_nat (length p) :: u32) = length p" using total by (simp add: unat_of_nat)
  have len: "unat (ft_len t) = length (concat ps)"
    using Cons.prems(4) u unat_sub [of "of_nat (length p)" "ft_len s"] by (simp add: t(4) word_le_nat_alt)
  show ?case
  proof (cases "ps = []")
    case True
    with t Cons.prems(4) len show ?thesis by (simp add: unat_eq_zero)
  next
    case False
    then obtain q qs where ps: "ps = q # qs" by (cases ps) auto
    with Cons.prems(5) have "q \<noteq> []" by simp
    with ps Cons.prems(4) have "length p \<noteq> unat (ft_len s)" by simp
    with t(5) have put: "ft_in_progress t = OTA_FTC_OP_PUT_REQ" by simp
    obtain t' d' where "ftd_writes env ps t = Inr t'" "storage t' = Some d'" "ft_in_progress t' = OTA_FTC_OP_NONE" "ft_len t' = 0"
      "length (ftc_msg_buf t') = 20" "\<forall>x. cell d' x = cell (oe_write env (ft_addr t) (concat ps) (oe_write env (ft_addr s) p d)) x"
      using Cons.IH [OF t(2) put t(6) len _ False] Cons.prems(5) by auto
    then show ?thesis
      using nor_flash_write_append [OF assms(1), of p "concat ps" "ft_addr s" d] total by (simp add: t(1,3))
  qed
qed simp

lemma clear_flag: "\<not> flag_set (m AND NOT f) f" for m f :: "'a::len word"
  by (simp add: flag_set_def word_eq_bits bit_simps)

lemma ftc_send_frame [simp]:
  "storage (ota_ftc_send env s) = storage s" "ft_in_progress (ota_ftc_send env s) = ft_in_progress s"
  "ft_addr (ota_ftc_send env s) = ft_addr s" "ft_len (ota_ftc_send env s) = ft_len s"
  "ftc_msg_buf (ota_ftc_send env s) = ftc_msg_buf s"
  by (simp_all add: ota_ftc_send_def ota_send_notify_def Let_def)

lemma ftc_send_free: "length (ftc_msg_buf s) = 20 \<Longrightarrow> ftc_free (ota_ftc_send env s)"
  using clear_flag [of "tx_ready_mask s" OTA_TX_MASK_FTC_BIT]
  by (simp add: ftc_free_def ota_ftc_send_def ota_send_notify_def Let_def)

lemma erase_request:
  assumes "ft_in_progress s = OTA_FTC_OP_NONE" "ftc_free s" "storage s = Some d"
  shows "\<exists>t. ota_ftc_write env (OTA_FTC_OP_ERASE_REQ # u16_encode h @ u32_encode addr @ u32_encode n) s = Inr (0, t) \<and>
    storage t = Some (oe_erase env addr n d) \<and> ft_in_progress t = OTA_FTC_OP_NONE \<and> length (ftc_msg_buf t) = 20"
proof -
  let ?s = "ota_storage_erase env addr n (s\<lparr>ft_handle := h, ft_addr := addr, ft_len := n\<rparr>)"
  have f: "ftc_free ?s" "storage ?s = Some (oe_erase env addr n d)" "ft_in_progress ?s = ft_in_progress s"
    using assms(2,3) by (simp_all add: ftc_free_def ota_storage_erase_def)
  show ?thesis
    using assms(1) f BSTREAM_TO_UINT32_encode [of n "[]"] f(1) [unfolded ftc_free_def]
    by (simp add: ftc_write_op ota_ftc_proc_erase_req_def BSTREAM_TO_UINT32_encode send_rsp_plain)
qed

lemma put_request:
  assumes "ft_in_progress s = OTA_FTC_OP_NONE" "ftc_free s"
  shows "\<exists>t. ota_ftc_write env (OTA_FTC_OP_PUT_REQ # u16_encode h @ u32_encode addr @ u32_encode n) s = Inr (0, t) \<and>
    storage t = storage s \<and> ft_in_progress t = OTA_FTC_OP_PUT_REQ \<and> ft_addr t = addr \<and> ft_len t = n \<and> length (ftc_msg_buf t) = 20"
proof -
  let ?s = "s\<lparr>ft_handle := h, ft_addr := addr, ft_len := n, ft_in_progress := OTA_FTC_OP_PUT_REQ, pending_count := 0, send_count := 0\<rparr>"
  have f: "ftc_free ?s" using assms(2) by (simp add: ftc_free_def)
  show ?thesis
    using assms(1) f BSTREAM_TO_UINT32_encode [of n "[]"] assms(2) [unfolded ftc_free_def]
    by (simp add: ftc_write_op ota_ftc_proc_put_req_def BSTREAM_TO_UINT32_encode send_rsp_plain)
qed

lemma region_written:
  assumes "nor_flash env cell" "length data < 2 ^ 32" "\<And>i. i < length data \<Longrightarrow> cell d (a + of_nat i) = 0xFF"
    and "\<And>x. cell d' x = cell (oe_write env a data d) x"
  shows "region cell d' a (length data) = data"
proof (rule nth_equalityI)
  fix i assume "i < length (region cell d' a (length data))"
  then have i: "i < length data" by simp
  then have "unat (a + of_nat i - a) = i" using assms(2) by (simp add: unat_of_nat)
  moreover have "0xFF AND x = x" for x :: u8
    unfolding mask_simps by (rule bit_word_eqI) (auto simp: bit_simps dest: bit_imp_le_length)
  ultimately show "region cell d' a (length data) ! i = data ! i"
    using i assms by (simp add: region_def nor_flash_write del: add_diff_cancel_left')
qed simp

text \<open>
  C2 (roundtrip). A firmware update end to end: the client erases a region of whole sectors, announces an image, sends it in any
  non-empty packets and asks for verification, with each response sent before the next request. On a flash
  and a checksum that behave as documented, the flash region then holds exactly the image, and the
  verification with the checksum of the image succeeds.
\<close>

theorem ota_update_roundtrip:
  assumes "nor_flash env cell" "crc_chained env" "storage s = Some d" "ft_in_progress s = OTA_FTC_OP_NONE" "ftc_free s"
    and "4096 dvd unat addr" "4096 dvd unat n" "length (concat ps) \<le> unat n" "\<forall>p\<in>set ps. p \<noteq> []" "ps \<noteq> []"
    and "len = of_nat (length (concat ps))"
  shows "\<exists>s1 s2 s3 s4 d'.
    ota_ftc_write env (OTA_FTC_OP_ERASE_REQ # u16_encode h @ u32_encode addr @ u32_encode n) s = Inr (0, s1) \<and>
    ota_ftc_write env (OTA_FTC_OP_PUT_REQ # u16_encode h @ u32_encode addr @ u32_encode len) (ota_ftc_send env s1) = Inr (0, s2) \<and>
    ftd_writes env ps (ota_ftc_send env s2) = Inr s3 \<and>
    ota_ftc_write env (OTA_FTC_OP_VERIFY_REQ # u16_encode h @ u32_encode addr @ u32_encode len @ u32_encode (oe_crc32 env (concat ps) 0))
      (ota_ftc_send env s3) = Inr (0, s4) \<and>
    storage s4 = Some d' \<and> region cell d' addr (length (concat ps)) = concat ps \<and>
    take 4 (ftc_msg_buf s4) = [OTA_FTC_OP_VERIFY_RSP] @ u16_encode h @ [OTA_FTC_ST_SUCCESS]"
proof -
  have lt: "length (concat ps) < 2 ^ 32" using assms(8) unat_bound [of n] by simp
  then have len: "unat len = length (concat ps)" by (simp add: assms(11) unat_of_nat)
  obtain s1 where s1: "ota_ftc_write env (OTA_FTC_OP_ERASE_REQ # u16_encode h @ u32_encode addr @ u32_encode n) s = Inr (0, s1)"
    "storage s1 = Some (oe_erase env addr n d)" "ft_in_progress s1 = OTA_FTC_OP_NONE" "length (ftc_msg_buf s1) = 20"
    using erase_request [OF assms(4,5,3)] by blast
  obtain s2 where s2: "ota_ftc_write env (OTA_FTC_OP_PUT_REQ # u16_encode h @ u32_encode addr @ u32_encode len) (ota_ftc_send env s1) = Inr (0, s2)"
    "storage s2 = storage s1" "ft_in_progress s2 = OTA_FTC_OP_PUT_REQ" "ft_addr s2 = addr" "ft_len s2 = len" "length (ftc_msg_buf s2) = 20"
    using put_request [of "ota_ftc_send env s1" env h addr len] s1 ftc_send_free by auto
  obtain s3 d' where s3: "ftd_writes env ps (ota_ftc_send env s2) = Inr s3" "storage s3 = Some d'" "ft_in_progress s3 = OTA_FTC_OP_NONE"
    "\<forall>x. cell d' x = cell (oe_write env addr (concat ps) (oe_erase env addr n d)) x" "length (ftc_msg_buf s3) = 20"
    using put_stores [OF assms(1), of "ota_ftc_send env s2" "oe_erase env addr n d" ps] s1 s2 len assms(9,10) by auto
  have "cell (oe_erase env addr n d) (addr + of_nat i) = 0xFF" if "i < length (concat ps)" for i
    using that assms(1,6,7,8) lt by (simp add: nor_flash_def unat_of_nat)
  then have reg: "region cell d' addr (length (concat ps)) = concat ps"
    using region_written [OF assms(1) lt, of "oe_erase env addr n d" addr d'] s3(4) by blast
  obtain s4 where "ota_ftc_write env (OTA_FTC_OP_VERIFY_REQ # u16_encode h @ u32_encode addr @ u32_encode len @ u32_encode (oe_crc32 env (concat ps) 0))
      (ota_ftc_send env s3) = Inr (0, s4)" "storage s4 = storage s3"
    "take 4 (ftc_msg_buf s4) = [OTA_FTC_OP_VERIFY_RSP] @ u16_encode h @ [OTA_FTC_ST_SUCCESS]"
    using verify_request [OF assms(1,2), of "ota_ftc_send env s3" d' h addr len "oe_crc32 env (concat ps) 0"] s3 ftc_send_free
    by (auto simp: len reg)
  with s1(1) s2(1) s3(1,2) reg show ?thesis by metis
qed

section \<open>Sending a file\<close>

fun ftd_sends :: "'d ota_env \<Rightarrow> nat \<Rightarrow> 'd ota_state \<Rightarrow> 'd ota_state res" where
  "ftd_sends env 0 s = Inr s"
| "ftd_sends env (Suc k) s = rbind (ota_ftd_send env s) (ftd_sends env k)"

definition notified :: "gatt_call list \<Rightarrow> bytes" where
  "notified tr = concat (map (\<lambda>c. case c of Notify a b r \<Rightarrow> b | Indicate a b r \<Rightarrow> []) tr)"

lemma notified_append [simp]: "notified (tr @ tr') = notified tr @ notified tr'"
  by (simp add: notified_def)

lemma ftd_send_step:
  assumes "nor_flash env cell" "storage s = Some d" "ota_ftd s \<noteq> 0" "length (ftc_msg_buf s) = 20" "0 < ft_len s"
  shows "\<exists>t. ota_ftd_send env s = Inr t \<and> storage t = Some d \<and> ota_ftd t = ota_ftd s \<and> length (ftc_msg_buf t) = 20 \<and>
    ft_addr t = ft_addr s + (if 20 < ft_len s then 20 else ft_len s) \<and>
    ft_len t = ft_len s - (if 20 < ft_len s then 20 else ft_len s) \<and>
    ft_in_progress t = (if 20 < ft_len s then ft_in_progress s else OTA_FTC_OP_NONE) \<and>
    (\<exists>r. ota_trace t = ota_trace s @ [Notify OTA_FTD_HDL (region cell d (ft_addr s) (min 20 (unat (ft_len s)))) r])"
proof -
  define k where "k = (if 20 < ft_len s then 20 else ft_len s)"
  have k0: "0 < k" using assms(5) by (simp add: k_def)
  have uk: "unat k = min 20 (unat (ft_len s))" by (auto simp: k_def word_less_nat_alt)
  let ?n = "ota_send_notify env OTA_FTD_HDL (region cell d (ft_addr s) (unat k)) (s\<lparr>ft_len := ft_len s - k, ft_addr := ft_addr s + k\<rparr>)"
  have n: "ota_trace ?n = ota_trace s @ [Notify OTA_FTD_HDL (region cell d (ft_addr s) (unat k))
        (env_notify (oe_gatt env) (ota_trace s) OTA_FTD_HDL (region cell d (ft_addr s) (unat k)))]"
      "storage ?n = Some d" "ota_ftd ?n = ota_ftd s" "ftc_msg_buf ?n = ftc_msg_buf s" "ft_len ?n = ft_len s - k"
      "ft_addr ?n = ft_addr s + k" "ft_in_progress ?n = ft_in_progress s"
    using assms(2) by (simp_all add: ota_send_notify_def bt_gatt_notify_def Let_def)
  have body: "ota_ftd_send env s = (if ft_len ?n = 0 \<or> k = 0
      then ota_ftc_send_rsp env OTA_FTC_OP_EOF (ft_handle ?n) 0 0
             (?n\<lparr>ft_in_progress := OTA_FTC_OP_NONE, tx_ready_mask := tx_ready_mask ?n AND NOT OTA_TX_MASK_FTD_BIT\<rparr>)
      else Inr (ota_send_event env EV_FTD ?n))"
    using assms(1-3) k0 unfolding ota_ftd_send_def k_def [symmetric] Let_def
    by (simp add: ota_ccc_enabled_def ota_storage_read_def nor_flash_read)
  show ?thesis
  proof (cases "20 < ft_len s")
    case True
    then have "k = 20" "ft_len s - k \<noteq> 0" by (auto simp: k_def)
    then show ?thesis unfolding k_def [symmetric] using True body n uk assms(4) k0 by simp
  next
    case False
    then have k: "k = ft_len s" by (simp add: k_def)
    let ?e = "?n\<lparr>ft_in_progress := OTA_FTC_OP_NONE, tx_ready_mask := tx_ready_mask ?n AND NOT OTA_TX_MASK_FTD_BIT\<rparr>"
    from send_rsp_total [of ?e OTA_FTC_OP_EOF env "ft_handle ?n" 0 0] n(4) assms(4) obtain buf m mask c evs where
      "ota_ftc_send_rsp env OTA_FTC_OP_EOF (ft_handle ?n) 0 0 ?e =
        Inr (?e\<lparr>ftc_msg_buf := buf, ftc_msg_len := m, tx_ready_mask := mask, ota_conn := c, ota_events := evs\<rparr>)" "length buf = 20" by auto
    then show ?thesis unfolding k_def [symmetric] using False body n uk k by simp
  qed
qed

text \<open>
  A get request delivers the requested flash region: handling the data event once for every 20 bytes or part of
  them notifies exactly the bytes of the region in order, whatever result the host reports, and ends the transfer.
\<close>

theorem ota_get_delivers:
  assumes "nor_flash env cell" "storage s = Some d" "ota_ftd s \<noteq> 0" "length (ftc_msg_buf s) = 20" "0 < ft_len s"
    and "k = (unat (ft_len s) + 19) div 20"
  shows "\<exists>t. ftd_sends env k s = Inr t \<and> ft_in_progress t = OTA_FTC_OP_NONE \<and> ft_len t = 0 \<and> storage t = Some d \<and>
    notified (ota_trace t) = notified (ota_trace s) @ region cell d (ft_addr s) (unat (ft_len s))"
  using assms(2-6)
proof (induction k arbitrary: s)
  case 0
  then show ?case by (simp add: word_less_nat_alt div_eq_0_iff)
next
  case (Suc k)
  obtain t r where t: "ota_ftd_send env s = Inr t" "storage t = Some d" "ota_ftd t = ota_ftd s" "length (ftc_msg_buf t) = 20"
    "ft_addr t = ft_addr s + (if 20 < ft_len s then 20 else ft_len s)"
    "ft_len t = ft_len s - (if 20 < ft_len s then 20 else ft_len s)"
    "ft_in_progress t = (if 20 < ft_len s then ft_in_progress s else OTA_FTC_OP_NONE)"
    "ota_trace t = ota_trace s @ [Notify OTA_FTD_HDL (region cell d (ft_addr s) (min 20 (unat (ft_len s)))) r]"
    using ftd_send_step [OF assms(1) Suc.prems(1-4)] by blast
  show ?case
  proof (cases "20 < ft_len s")
    case True
    then have gt: "20 < unat (ft_len s)" by (simp add: word_less_nat_alt)
    have len': "unat (ft_len s - 20) = unat (ft_len s) - 20" using True unat_sub [of 20 "ft_len s"] by simp
    have len: "unat (ft_len t) = unat (ft_len s) - 20" using True t(6) len' by simp
    have "0 < ft_len t" using len gt by (simp add: word_less_nat_alt)
    moreover have "k = (unat (ft_len t) + 19) div 20" using Suc.prems(5) gt by (simp add: len)
    ultimately obtain t' where "ftd_sends env k t = Inr t'" "ft_in_progress t' = OTA_FTC_OP_NONE" "ft_len t' = 0"
      "storage t' = Some d" "notified (ota_trace t') = notified (ota_trace t) @ region cell d (ft_addr t) (unat (ft_len t))"
      using Suc.IH [of t] t Suc.prems by auto
    then show ?thesis
      using t True gt region_append [of cell d "ft_addr s" 20 "unat (ft_len s) - 20"] by (simp add: len len' notified_def)
  next
    case False
    then have le: "unat (ft_len s) \<le> 20" by (simp add: word_less_nat_alt)
    have "0 < unat (ft_len s)" using Suc.prems(4) by (simp add: word_less_nat_alt)
    then have "k = 0" using Suc.prems(5) le by simp
    with False t le show ?thesis by (simp add: notified_def)
  qed
qed

section \<open>One transfer at a time\<close>


section \<open>Invariant and safety of the profile\<close>

text \<open>
  The message buffer has its size and holds the message, a transfer is none, get or put, and
  the wake lock is held exactly while the wake-up flag is set.
\<close>

definition ota_ok :: "'d ota_state \<Rightarrow> bool" where
  "ota_ok s \<longleftrightarrow> length (ftc_msg_buf s) = 20 \<and> ftc_msg_len s \<le> 20 \<and>
     ft_in_progress s \<in> {OTA_FTC_OP_NONE, OTA_FTC_OP_GET_REQ, OTA_FTC_OP_PUT_REQ} \<and>
     wake_lock s = (if wakeup_flag s then 1 else 0) \<and> storage s \<noteq> None"

datatype ota_event =
    Ota_Write nat bytes u16 | Ota_Next_Event | Ota_Wakeup_Timeout
  | Ota_Dc_Ccc u16 | Ota_Ftc_Ccc u16 | Ota_Ftd_Ccc u16 | Ota_Au_Ccc u16

definition ota_event_step :: "'d ota_env \<Rightarrow> ota_event \<Rightarrow> 'd ota_state \<Rightarrow> 'd ota_state res" where
  "ota_event_step env e s = (case e of
     Ota_Write attr buf off \<Rightarrow> rbind (write_ota env attr buf off s) (\<lambda>r. Inr (snd r))
   | Ota_Next_Event \<Rightarrow> ota_handle_next env s
   | Ota_Wakeup_Timeout \<Rightarrow> Inr (ota_wakeup_timeout_handler s)
   | Ota_Dc_Ccc v \<Rightarrow> Inr (ota_dc_ccc_cfg_changed v s)
   | Ota_Ftc_Ccc v \<Rightarrow> Inr (ota_ftc_ccc_cfg_changed v s)
   | Ota_Ftd_Ccc v \<Rightarrow> Inr (ota_ftd_ccc_cfg_changed v s)
   | Ota_Au_Ccc v \<Rightarrow> Inr (ota_au_ccc_cfg_changed v s))"

text \<open>
  A control request that starts an operation reads its parameters without looking at the
  length: it is long enough when the parameters have been received.
\<close>

definition ftc_request_complete :: "bytes \<Rightarrow> 'd ota_state \<Rightarrow> bool" where
  "ftc_request_complete buf s \<longleftrightarrow> length buf < 3 \<or> ft_in_progress s \<noteq> OTA_FTC_OP_NONE \<or>
     ((buf ! 0 \<in> {OTA_FTC_OP_GET_REQ, OTA_FTC_OP_PUT_REQ, OTA_FTC_OP_ERASE_REQ} \<longrightarrow> 11 \<le> length buf) \<and>
      (buf ! 0 = OTA_FTC_OP_VERIFY_REQ \<longrightarrow> 15 \<le> length buf))"

definition ota_event_safe :: "'d ota_env \<Rightarrow> ota_event \<Rightarrow> 'd ota_state \<Rightarrow> bool" where
  "ota_event_safe env e s = (case e of
     Ota_Write attr buf off \<Rightarrow> attr = OTA_FTC_HDL \<and> unat off + length buf + 3 \<le> oe_mtu env \<longrightarrow> ftc_request_complete buf s
   | Ota_Next_Event \<Rightarrow> (case ota_events s of [] \<Rightarrow> True | ev # _ \<Rightarrow> ev = EV_DISCONNECT \<longrightarrow> ota_conn s)
   | _ \<Rightarrow> True)"

text \<open>Every posted event other than a disconnection comes from a handler that has stored the connection.\<close>

definition ota_conn_ok :: "'d ota_state \<Rightarrow> bool" where
  "ota_conn_ok s \<longleftrightarrow> (\<forall>ev\<in>set (ota_events s). ev \<noteq> EV_DISCONNECT \<longrightarrow> ota_conn s)"

lemma ota_ok_send_event [simp]: "ota_ok (ota_send_event env ev s) = ota_ok s"
  by (simp add: ota_ok_def)

lemma ota_ok_send_rsp:
  assumes "ota_ok s" "length (oe_version env) \<le> 16"
  shows "\<exists>t. ota_ftc_send_rsp env opc h st x s = Inr t \<and> ota_ok t"
  using send_rsp_total [of s opc env h st x] assms by (fastforce simp: ota_ok_def)

lemma ota_ok_updates [simp]:
  "ota_ok (s\<lparr>ft_addr := a\<rparr>) = ota_ok s" "ota_ok (s\<lparr>ft_len := l\<rparr>) = ota_ok s" "ota_ok (s\<lparr>ft_crc := c\<rparr>) = ota_ok s"
  "ota_ok (s\<lparr>ft_handle := h\<rparr>) = ota_ok s" "ota_ok (s\<lparr>pending_count := n\<rparr>) = ota_ok s"
  "ota_ok (s\<lparr>send_count := n\<rparr>) = ota_ok s" "ota_ok (s\<lparr>tx_ready_mask := m\<rparr>) = ota_ok s"
  "ota_ok (s\<lparr>ota_events := evs\<rparr>) = ota_ok s" "ota_ok (s\<lparr>storage := map_option f (storage s)\<rparr>) = ota_ok s"
  "ota_ok (s\<lparr>ota_need_reset := r\<rparr>) = ota_ok s" "ota_ok (s\<lparr>conn_param := p\<rparr>) = ota_ok s"
  "ota_ok (s\<lparr>ota_trace := tr\<rparr>) = ota_ok s" "ota_ok (s\<lparr>param_updates := us\<rparr>) = ota_ok s"
  "ota_ok (s\<lparr>disconnected := b\<rparr>) = ota_ok s" "ota_ok (s\<lparr>ota_conn := b\<rparr>) = ota_ok s" "ota_ok (s\<lparr>ota_dc := v\<rparr>) = ota_ok s"
  "ota_ok (s\<lparr>ota_ftc := v\<rparr>) = ota_ok s" "ota_ok (s\<lparr>ota_ftd := v\<rparr>) = ota_ok s" "ota_ok (s\<lparr>ota_au := v\<rparr>) = ota_ok s"
  by (simp_all add: ota_ok_def)

lemma ota_ok_progress [simp]:
  "ota_ok s \<Longrightarrow> p \<in> {OTA_FTC_OP_NONE, OTA_FTC_OP_GET_REQ, OTA_FTC_OP_PUT_REQ} \<Longrightarrow> ota_ok (s\<lparr>ft_in_progress := p\<rparr>)"
  by (simp add: ota_ok_def)

lemma ota_ok_storage [simp]:
  "ota_ok (ota_storage_write env a b s) = ota_ok s" "ota_ok (ota_storage_erase env a n s) = ota_ok s"
  "ota_ok (ota_send_notify env a' b s) = ota_ok s"
  by (simp_all add: ota_storage_write_def ota_storage_erase_def ota_send_notify_def)

lemma verify_loop_total: "storage s \<noteq> None \<Longrightarrow> \<exists>c. verify_loop env s off crc = Inr c"
proof (induction env s off crc rule: verify_loop.induct)
  case (1 env s off crc)
  then obtain d where d: "storage s = Some d" by blast
  show ?case
  proof (cases "off < ft_len s")
    case True
    with "1.IH" [OF True refl] d show ?thesis
      by (subst verify_loop.simps) (simp add: Let_def ota_storage_read_def)
  qed (subst verify_loop.simps, simp)
qed

lemma bstream_ok: "4 + k \<le> length p \<Longrightarrow> \<exists>v. BSTREAM_TO_UINT32 (drop k p) = Inr (v, drop (4 + k) p)"
  by (subst BSTREAM_TO_UINT32_total) simp

lemma ftc_write_ok:
  assumes "ota_ok s" "length (oe_version env) \<le> 16" "ftc_request_complete buf s"
  shows "\<exists>r t. ota_ftc_write env buf s = Inr (r, t) \<and> ota_ok t"
proof (cases "length buf < 3")
  case False
  then obtain opc h p where buf: "buf = opc # u16_encode h @ p"
  proof -
    from False obtain a b c p where "buf = a # [b, c] @ p" by (auto simp: not_less numeral_3_eq_3 Suc_le_length_iff)
    then have "buf = a # u16_encode (ucast b OR push_bit 8 (ucast c)) @ p" by simp
    then show thesis by (rule that)
  qed
  have st: "storage s \<noteq> None" using assms(1) by (simp add: ota_ok_def)
  note rsp = ota_ok_send_rsp [OF _ assms(2)]
  have len: "ft_in_progress s = 0 \<Longrightarrow> opc \<in> {1, 3, 5} \<Longrightarrow> 8 \<le> length p" "ft_in_progress s = 0 \<Longrightarrow> opc = 7 \<Longrightarrow> 12 \<le> length p"
    using assms(3) by (auto simp: buf ftc_request_complete_def)
  have parsed: "\<exists>t. f = Inr t \<and> ota_ok t" if "f = (if ft_in_progress s \<noteq> OTA_FTC_OP_NONE
      then ota_ftc_send_rsp env o1 h OTA_FTC_ST_IN_PROGRESS 0 s else g)"
      "ft_in_progress s = OTA_FTC_OP_NONE \<Longrightarrow> \<exists>t. g = Inr t \<and> ota_ok t" for f g o1
    using that rsp [OF assms(1)] by simp
  have put: "\<exists>t. ota_ftc_proc_put_req env h p s = Inr t \<and> ota_ok t" if "opc = 3"
    unfolding ota_ftc_proc_put_req_def
    by (rule parsed [OF refl]) (use that len assms(1) in \<open>simp add: BSTREAM_TO_UINT32_total rsp\<close>)
  have erase: "\<exists>t. ota_ftc_proc_erase_req env h p s = Inr t \<and> ota_ok t" if "opc = 5"
    unfolding ota_ftc_proc_erase_req_def
    by (rule parsed [OF refl]) (use that len assms(1) in \<open>simp add: BSTREAM_TO_UINT32_total rsp\<close>)
  have get: "\<exists>t. ota_ftc_proc_get_req env h p s = Inr t \<and> ota_ok t" if "opc = 1"
    unfolding ota_ftc_proc_get_req_def
  proof (rule parsed [OF refl])
    assume "ft_in_progress s = OTA_FTC_OP_NONE"
    with that len have l: "8 \<le> length p" by simp
    obtain a n where e: "BSTREAM_TO_UINT32 p = Inr (a, drop 4 p)" "BSTREAM_TO_UINT32 (drop 4 p) = Inr (n, drop 8 p)"
      using l bstream_ok [of 0 p] bstream_ok [of 4 p] by auto
    let ?s = "s\<lparr>ft_addr := (if h = 0 then oe_table_addr env else a), ft_len := (if h = 0 then oe_table_len env else n),
        ft_handle := h, ft_in_progress := OTA_FTC_OP_GET_REQ\<rparr>"
    have "ota_ok ?s" using assms(1) by simp
    from rsp [OF this] obtain t where "ota_ftc_send_rsp env OTA_FTC_OP_GET_RSP h OTA_FTC_ST_SUCCESS 0 ?s = Inr t" "ota_ok t" by blast
    then show "\<exists>t. rbind (BSTREAM_TO_UINT32 p) (\<lambda>(addr, p). rbind (BSTREAM_TO_UINT32 p) (\<lambda>(len, p).
           let s = s\<lparr>ft_addr := (if h = 0 then oe_table_addr env else addr),
                     ft_len := (if h = 0 then oe_table_len env else len),
                     ft_handle := h, ft_in_progress := OTA_FTC_OP_GET_REQ\<rparr> in
           rbind (ota_ftc_send_rsp env OTA_FTC_OP_GET_RSP h OTA_FTC_ST_SUCCESS 0 s) (\<lambda>s.
           Inr (ota_send_event env EV_FTD (s\<lparr>ota_conn := True\<rparr>))))) = Inr t \<and> ota_ok t"
      by (simp only: e rbind_Inr prod.case Let_def) simp
  qed
  have verify: "\<exists>t. ota_ftc_proc_verify_req env h p s = Inr t \<and> ota_ok t" if "opc = 7"
    unfolding ota_ftc_proc_verify_req_def
  proof (rule parsed [OF refl])
    assume "ft_in_progress s = OTA_FTC_OP_NONE"
    with that len have l: "12 \<le> length p" by simp
    obtain a n c where e: "BSTREAM_TO_UINT32 p = Inr (a, drop 4 p)" "BSTREAM_TO_UINT32 (drop 4 p) = Inr (n, drop 8 p)"
      "BSTREAM_TO_UINT32 (drop 8 p) = Inr (c, drop 12 p)"
      using l bstream_ok [of 0 p] bstream_ok [of 4 p] bstream_ok [of 8 p] by auto
    let ?s = "s\<lparr>ft_handle := h, ft_addr := a, ft_len := n, ft_crc := c\<rparr>"
    have s: "ota_ok ?s" "storage ?s \<noteq> None" using assms(1) st by simp_all
    obtain v where v: "verify_loop env ?s 0 0 = Inr v" using verify_loop_total [OF s(2)] by blast
    show "\<exists>t. rbind (BSTREAM_TO_UINT32 p) (\<lambda>(addr, p). rbind (BSTREAM_TO_UINT32 p) (\<lambda>(len, p).
           rbind (BSTREAM_TO_UINT32 p) (\<lambda>(crc, p).
           let s = s\<lparr>ft_handle := h, ft_addr := addr, ft_len := len, ft_crc := crc\<rparr> in
           rbind (verify_loop env s 0 0) (\<lambda>c.
           ota_ftc_send_rsp env OTA_FTC_OP_VERIFY_RSP h
             (if c = ft_crc s then OTA_FTC_ST_SUCCESS else OTA_FTC_ST_VERIFICATION) 0 s)))) = Inr t \<and> ota_ok t"
      by (simp only: e rbind_Inr prod.case Let_def v) (rule rsp [OF s(1)])
  qed
  have "\<exists>t. ota_ftc_proc_get_version_req env h s = Inr t \<and> ota_ok t" "ota_ok (ota_ftc_proc_abort s)" "ota_ok (ota_ftc_proc_reset env s)"
    using assms(1) rsp [OF assms(1)]
    by (simp_all add: ota_ftc_proc_get_version_req_def ota_ftc_proc_abort_def ota_ftc_proc_reset_def)
  with put erase get verify assms(1) show ?thesis
    unfolding buf ftc_write_op by (auto simp: rbind_eq_Inr)
qed (use assms(1) in \<open>simp add: ota_ftc_write_def\<close>)

lemma ftc_write_bad:
  assumes "\<not> ftc_request_complete buf s"
  shows "ota_ftc_write env buf s = Inl Out_Of_Bounds"
proof -
  from assms have l3: "\<not> length buf < 3" and idle: "ft_in_progress s = OTA_FTC_OP_NONE" by (simp_all add: ftc_request_complete_def)
  then obtain opc b c p where buf': "buf = opc # [b, c] @ p" by (auto simp: not_less numeral_3_eq_3 Suc_le_length_iff)
  define h where "h = ucast b OR push_bit 8 (ucast c :: u16)"
  have buf: "buf = opc # u16_encode h @ p" unfolding buf' h_def by simp
  from assms have "(opc \<in> {1, 3, 5} \<and> length p < 8) \<or> (opc = 7 \<and> length p < 12)"
    by (auto simp: buf ftc_request_complete_def)
  then consider "opc \<in> {1, 3, 5}" "length p < 8" | "opc = 7" "length p < 12" by blast
  then show ?thesis
  proof cases
    case 1
    have "rbind (BSTREAM_TO_UINT32 p) (\<lambda>(addr, p). rbind (BSTREAM_TO_UINT32 p) (\<lambda>(len, p). f addr len)) = Inl Out_Of_Bounds"
      for f :: "_ \<Rightarrow> _ \<Rightarrow> 'a ota_state res"
    proof -
      have "\<not> 4 \<le> length p - 4" using 1(2) by simp
      then show ?thesis by (simp add: BSTREAM_TO_UINT32_total)
    qed
    with 1(1) idle show ?thesis
      unfolding buf ftc_write_op
      by (auto simp: ota_ftc_proc_get_req_def ota_ftc_proc_put_req_def ota_ftc_proc_erase_req_def)
  next
    case 2
    then show ?thesis
      unfolding buf ftc_write_op using idle by (simp add: ota_ftc_proc_verify_req_def BSTREAM_TO_UINT32_total)
  qed
qed

lemma ftd_write_ok:
  assumes "ota_ok s" "length (oe_version env) \<le> 16"
  shows "\<exists>r t. ota_ftd_write env buf s = Inr (r, t) \<and> ota_ok t"
proof -
  have rsp: "\<exists>r t. rbind (ota_ftc_send_rsp env opc h 0 0 u) (\<lambda>s. Inr (0 :: int, s)) = Inr (r, t) \<and> ota_ok t"
    if "ota_ok u" for opc h u
    using ota_ok_send_rsp [OF that assms(2), of opc h 0 0] by auto
  define w where "w = (ota_storage_write env (ft_addr s) buf s)
    \<lparr>ft_addr := ft_addr (ota_storage_write env (ft_addr s) buf s) + of_nat (length buf),
     ft_len := ft_len (ota_storage_write env (ft_addr s) buf s) - of_nat (length buf),
     pending_count := pending_count (ota_storage_write env (ft_addr s) buf s) + of_nat (length buf), ota_conn := True\<rparr>"
  have w: "ota_ok w" using assms(1) by (simp add: w_def)
  then show ?thesis
    unfolding ota_ftd_write_def Let_def w_def [symmetric] using assms(1) rsp [of "ota_send_event env EV_FTC_ASYNC (w\<lparr>ft_in_progress := OTA_FTC_OP_NONE\<rparr>)"]
    by simp
qed

lemma BSTREAM_TO_UINT16_ok: "2 + k \<le> length p \<Longrightarrow> \<exists>v. BSTREAM_TO_UINT16 (drop k p) = Inr (v, drop (2 + k) p)"
  by (simp add: BSTREAM_TO_UINT16_def arr_get_def del: length_greater_0_conv)

lemma dc_write_ok:
  assumes "ota_ok s" shows "\<exists>r t. ota_dc_write env buf s = Inr (r, t) \<and> ota_ok t"
proof -
  have set: "\<exists>r t. ota_dc_set_conn_param_req env p s = Inr (r, t) \<and> ota_ok t" for p
  proof (cases "length p = 8")
    case True
    obtain a b c d where "BSTREAM_TO_UINT16 p = Inr (a, drop 2 p)" "BSTREAM_TO_UINT16 (drop 2 p) = Inr (b, drop 4 p)"
      "BSTREAM_TO_UINT16 (drop 4 p) = Inr (c, drop 6 p)" "BSTREAM_TO_UINT16 (drop 6 p) = Inr (d, drop 8 p)"
      using True BSTREAM_TO_UINT16_ok [of 0 p] BSTREAM_TO_UINT16_ok [of 2 p] BSTREAM_TO_UINT16_ok [of 4 p] BSTREAM_TO_UINT16_ok [of 6 p]
      by auto
    with True assms show ?thesis by (simp add: ota_dc_set_conn_param_req_def)
  qed (use assms in \<open>simp add: ota_dc_set_conn_param_req_def\<close>)
  show ?thesis
    using assms set by (cases "length buf < 2") (auto simp: ota_dc_write_def arr_get_def ota_dc_get_conn_param_def simp del: length_greater_0_conv)
qed

lemma event_handle_ok:
  assumes "ota_ok s" "length (oe_version env) \<le> 16" "ota_conn s"
  shows "\<exists>t. ota_event_handle env ev s = Inr t \<and> ota_ok t"
proof -
  have "\<exists>t. ota_ftd_send env s = Inr t \<and> ota_ok t"
  proof (cases "ota_ccc_enabled OTA_FTD_HDL s")
    case True
    let ?k = "if 20 < ft_len s then 20 else ft_len s"
    obtain d where d: "storage s = Some d" using assms(1) by (auto simp: ota_ok_def)
    have "\<exists>s'. (if ?k > 0 then rbind (ota_storage_read env (ft_addr s) ?k s) (\<lambda>buf.
        Inr (ota_send_notify env OTA_FTD_HDL buf (s\<lparr>ft_len := ft_len s - ?k, ft_addr := ft_addr s + ?k\<rparr>))) else Inr s) = Inr s' \<and> ota_ok s'"
      using assms(1) d by (simp add: ota_storage_read_def)
    then obtain s' where s': "(if ?k > 0 then rbind (ota_storage_read env (ft_addr s) ?k s) (\<lambda>buf.
        Inr (ota_send_notify env OTA_FTD_HDL buf (s\<lparr>ft_len := ft_len s - ?k, ft_addr := ft_addr s + ?k\<rparr>))) else Inr s) = Inr s'" "ota_ok s'"
      by blast
    have "ota_ok (s'\<lparr>ft_in_progress := OTA_FTC_OP_NONE, tx_ready_mask := tx_ready_mask s' AND NOT OTA_TX_MASK_FTD_BIT\<rparr>)"
      using s'(2) by simp
    from ota_ok_send_rsp [OF this assms(2)] s'(2) show ?thesis
      unfolding ota_ftd_send_def Let_def s'(1) using True by simp
  qed (use assms(1) in \<open>simp add: ota_ftd_send_def\<close>)
  then show ?thesis
    using assms(1,3)
    by (simp add: ota_event_handle_def ota_ftc_send_def ota_fdc_async_send_def ota_dc_conn_param_update_def Let_def)
qed

lemma write_cback_ok:
  assumes "ota_ok s" "length (oe_version env) \<le> 16" "attr = OTA_FTC_HDL \<longrightarrow> ftc_request_complete buf s"
  shows "\<exists>r t. ota_write_cback env attr buf s = Inr (r, t) \<and> ota_ok t"
proof -
  let ?s = "if \<not> wakeup_flag s then s\<lparr>wake_lock := wake_lock s + 1, wakeup_flag := True\<rparr> else s"
  have s: "ota_ok ?s" "ftc_request_complete buf ?s = ftc_request_complete buf s"
    using assms(1) by (simp_all add: ota_ok_def ftc_request_complete_def)
  show ?thesis
    unfolding ota_write_cback_def Let_def
    using dc_write_ok [OF s(1), of env buf] ftd_write_ok [OF s(1) assms(2), of buf]
      ftc_write_ok [OF s(1) assms(2), of buf] s assms(3) by simp
qed

lemma ota_event_step_ok:
  assumes "ota_ok s" "ota_conn_ok s" "length (oe_version env) \<le> 16" "ota_event_safe env e s"
  shows "\<exists>t. ota_event_step env e s = Inr t \<and> ota_ok t"
proof (cases e)
  case (Ota_Write attr buf off)
  show ?thesis
  proof (cases "unat off + length buf + 3 > oe_mtu env")
    case False
    with Ota_Write assms(4) have "attr = OTA_FTC_HDL \<longrightarrow> ftc_request_complete buf s" by (simp add: ota_event_safe_def)
    from write_cback_ok [OF assms(1,3) this] False Ota_Write assms(1) show ?thesis
      by (auto simp: ota_event_step_def write_ota_def)
  qed (use Ota_Write assms(1) in \<open>simp add: ota_event_step_def write_ota_def\<close>)
next
  case Ota_Next_Event
  show ?thesis
  proof (cases "ota_events s")
    case (Cons ev evs)
    have "ota_conn s" using Cons Ota_Next_Event assms(2,4) by (auto simp: ota_conn_ok_def ota_event_safe_def)
    then have "\<exists>t. ota_event_handle env ev (s\<lparr>ota_events := evs\<rparr>) = Inr t \<and> ota_ok t"
      by (intro event_handle_ok) (use assms in simp_all)
    with Ota_Next_Event Cons show ?thesis by (simp add: ota_event_step_def ota_handle_next_def)
  qed (use Ota_Next_Event assms(1) in \<open>simp add: ota_event_step_def ota_handle_next_def\<close>)
qed (use assms(1) in \<open>simp_all add: ota_event_step_def ota_wakeup_timeout_handler_def ota_dc_ccc_cfg_changed_def
  ota_ftc_ccc_cfg_changed_def ota_ftd_ccc_cfg_changed_def ota_au_ccc_cfg_changed_def, simp add: ota_ok_def\<close>)

text \<open>How an event that is not safe fails.\<close>

definition ota_failure :: "ota_event \<Rightarrow> c_error" where
  "ota_failure e = (if e = Ota_Next_Event then Null_Deref else Out_Of_Bounds)"

lemma ota_event_step_bad:
  assumes "\<not> ota_event_safe env e s"
  shows "ota_event_step env e s = Inl (ota_failure e)"
proof (cases e)
  case (Ota_Write attr buf off)
  let ?s = "if \<not> wakeup_flag s then s\<lparr>wake_lock := wake_lock s + 1, wakeup_flag := True\<rparr> else s"
  have u: "attr = OTA_FTC_HDL" "\<not> unat off + length buf + 3 > oe_mtu env" "\<not> ftc_request_complete buf ?s"
    using assms Ota_Write by (simp_all add: ota_event_safe_def ftc_request_complete_def)
  from ftc_write_bad [OF u(3), of env] u(1,2) Ota_Write show ?thesis
    by (simp add: ota_failure_def ota_event_step_def write_ota_def is_need_writeCb_def ota_write_cback_def Let_def)
next
  case Ota_Next_Event
  then show ?thesis using assms
    by (auto simp: ota_failure_def ota_event_step_def ota_event_safe_def ota_handle_next_def ota_event_handle_def split: list.splits)
qed (use assms in \<open>simp_all add: ota_event_safe_def\<close>)

section \<open>The stored connection\<close>

text \<open>
  A handler keeps the pointer, and either has stored the connection or has posted at most a disconnection.
\<close>

definition conn_step :: "'d ota_state \<Rightarrow> 'd ota_state \<Rightarrow> bool" where
  "conn_step s t \<longleftrightarrow> ota_conn t \<or> \<not> ota_conn s \<and> set (ota_events t) \<subseteq> insert EV_DISCONNECT (set (ota_events s))"

lemma conn_step_ok: "conn_step s t \<Longrightarrow> ota_conn_ok s \<Longrightarrow> ota_conn_ok t"
  by (auto simp: conn_step_def ota_conn_ok_def)

lemma conn_step_refl: "ota_conn t = ota_conn s \<Longrightarrow> ota_events t = ota_events s \<Longrightarrow> conn_step s t"
  by (auto simp: conn_step_def)

lemma conn_step_cong: "conn_step s' t \<Longrightarrow> ota_conn s' = ota_conn s \<Longrightarrow> ota_events s' = ota_events s \<Longrightarrow> conn_step s t"
  by (simp add: conn_step_def)

lemma send_rsp_conn: "ota_ftc_send_rsp env opc h st x s = Inr t \<Longrightarrow> conn_step s t"
  by (auto simp: ota_ftc_send_rsp_def conn_step_def Let_def rbind_eq_Inr split: if_splits)

lemma storage_conn [simp]:
  "ota_conn (ota_storage_write env a b s) = ota_conn s" "ota_conn (ota_storage_erase env a n s) = ota_conn s"
  "ota_events (ota_storage_write env a b s) = ota_events s" "ota_events (ota_storage_erase env a n s) = ota_events s"
  "ota_conn (ota_send_notify env a' b s) = ota_conn s" "ota_events (ota_send_notify env a' b s) = ota_events s"
  by (simp_all add: ota_storage_write_def ota_storage_erase_def ota_send_notify_def)

lemma ftc_write_conn: "ota_ftc_write env buf s = Inr (r, t) \<Longrightarrow> conn_step s t"
  by (auto simp: ota_ftc_write_def rbind_eq_Inr ota_ftc_proc_get_req_def ota_ftc_proc_put_req_def ota_ftc_proc_verify_req_def
      ota_ftc_proc_erase_req_def ota_ftc_proc_abort_def ota_ftc_proc_reset_def ota_ftc_proc_get_version_req_def Let_def
      split: if_splits dest!: send_rsp_conn)
    (auto simp: conn_step_def ota_send_event_def split: if_splits)

lemma ftd_write_conn: "ota_ftd_write env buf s = Inr (r, t) \<Longrightarrow> conn_step s t"
  by (auto simp: ota_ftd_write_def rbind_eq_Inr Let_def split: if_splits dest!: send_rsp_conn) (auto simp: conn_step_def)

lemma dc_write_conn: "ota_dc_write env buf s = Inr (r, t) \<Longrightarrow> conn_step s t"
  by (auto simp: ota_dc_write_def rbind_eq_Inr ota_dc_set_conn_param_req_def ota_dc_get_conn_param_def conn_step_def split: if_splits)

lemma write_cback_conn: "ota_write_cback env attr buf s = Inr (r, t) \<Longrightarrow> conn_step s t"
  by (auto simp: ota_write_cback_def Let_def split: if_splits dest!: ftc_write_conn ftd_write_conn dc_write_conn)
    (auto simp: conn_step_def)

lemma event_handle_conn: "ota_event_handle env ev s = Inr t \<Longrightarrow> ota_conn s \<Longrightarrow> ota_conn t"
  by (auto simp: ota_event_handle_def ota_ftd_send_def ota_ftc_send_def ota_fdc_async_send_def ota_dc_conn_param_update_def
      rbind_eq_Inr Let_def split: if_splits dest!: send_rsp_conn)
    (auto simp: conn_step_def)

lemma ota_event_step_conn:
  assumes "ota_event_step env e s = Inr t" "ota_conn_ok s"
  shows "ota_conn_ok t"
proof (cases e)
  case (Ota_Write attr buf off)
  then have "conn_step s t"
    using assms(1) by (auto simp: ota_event_step_def write_ota_def rbind_eq_Inr split: if_splits dest: write_cback_conn intro: conn_step_refl)
  then show ?thesis using assms(2) by (rule conn_step_ok)
next
  case Ota_Next_Event
  show ?thesis
  proof (cases "ota_events s")
    case (Cons ev evs)
    with assms Ota_Next_Event have h: "ota_event_handle env ev (s\<lparr>ota_events := evs\<rparr>) = Inr t"
      by (simp add: ota_event_step_def ota_handle_next_def)
    have "ota_conn s"
      using h Cons assms(2) by (cases "ev = EV_DISCONNECT") (auto simp: ota_event_handle_def ota_conn_ok_def split: if_splits)
    then show ?thesis using event_handle_conn [OF h] by (simp add: ota_conn_ok_def)
  qed (use assms Ota_Next_Event in \<open>simp add: ota_event_step_def ota_handle_next_def\<close>)
qed (use assms in \<open>auto simp: ota_event_step_def ota_wakeup_timeout_handler_def ota_dc_ccc_cfg_changed_def ota_conn_ok_def
  ota_ftc_ccc_cfg_changed_def ota_ftd_ccc_cfg_changed_def ota_au_ccc_cfg_changed_def split: if_splits\<close>)

section \<open>Reachable states\<close>

inductive ota_reachable :: "'d ota_env \<Rightarrow> 'd \<Rightarrow> 'd ota_state \<Rightarrow> bool" for env dev where
  ota_reach_init: "wake_lock s = 0 \<Longrightarrow> ota_events s = [] \<Longrightarrow> ota_reachable env dev (ota_profile_init (Some dev) s)"
| ota_reach_step: "ota_reachable env dev s \<Longrightarrow> ota_event_step env e s = Inr t \<Longrightarrow> ota_reachable env dev t"

lemma ota_reachable_ok:
  assumes "ota_reachable env dev s" "length (oe_version env) \<le> 16"
  shows "ota_ok s \<and> ota_conn_ok s"
  using assms(1)
proof (induction rule: ota_reachable.induct)
  case (ota_reach_step s e t)
  with ota_event_step_ok [of s env e] ota_event_step_bad [of env e s] ota_event_step_conn [of env e s t] assms(2) show ?case
    by (cases "ota_event_safe env e s") auto
qed (simp add: ota_profile_init_def ota_ok_def ota_conn_ok_def)


text \<open>The second case is reachable: a system reset is the first request after the start.\<close>

lemma ota_reset_first_null:
  assumes "length (oe_version env) \<le> 16" "6 \<le> oe_mtu env" "oe_post env [] EV_DISCONNECT" "wake_lock s = 0" "ota_events s = []"
  shows "\<exists>t. ota_event_step env (Ota_Write OTA_FTC_HDL [OTA_FTC_OP_SYSTEM_RESET, 0, 0] 0) (ota_profile_init (Some dev) s) = Inr t \<and>
    ota_reachable env dev t \<and> ota_event_step env Ota_Next_Event t = Inl Null_Deref"
proof -
  let ?s = "ota_profile_init (Some dev) s"
  obtain t where t: "ota_event_step env (Ota_Write OTA_FTC_HDL [OTA_FTC_OP_SYSTEM_RESET, 0, 0] 0) ?s = Inr t"
    "ota_events t = [EV_DISCONNECT]" "\<not> ota_conn t"
    using assms(2-5)
    by (simp add: ota_event_step_def write_ota_def is_need_writeCb_def ota_write_cback_def ota_ftc_write_def arr_get_def
        BSTREAM_TO_UINT16_def ota_ftc_proc_reset_def ota_send_event_def ota_profile_init_def Let_def)
  then show ?thesis
    using ota_reach_step [OF ota_reach_init [OF assms(4,5)] t(1)]
    by (simp add: ota_event_step_def [of env Ota_Next_Event] ota_handle_next_def ota_event_handle_def)
qed

section \<open>Concrete environment\<close>

text \<open>The version string of the module application (\<^verbatim>\<open>version.c\<close>): \<open>2.0.00.18070920\<close>.\<close>

definition sys_version_get :: bytes where
  "sys_version_get = [0x32, 0x2E, 0x30, 0x2E, 0x30, 0x30, 0x2E, 0x31, 0x38, 0x30, 0x37, 0x30, 0x39, 0x32, 0x30]"

definition mem_env :: "(u32 \<Rightarrow> u8) ota_env" where
  "mem_env = \<lparr>oe_gatt = env_always_ok, oe_post = (\<lambda>_ _. True),
     oe_read = (\<lambda>d a n. map (\<lambda>i. d (a + of_nat i)) [0..<unat n]),
     oe_write = (\<lambda>a b d x. if unat (x - a) < length b then d x AND b ! unat (x - a) else d x),
     oe_erase = (\<lambda>a n d x. if unat (x - a) < unat n then 0xFF else d x),
     oe_crc32 = (\<lambda>b i. foldl (\<lambda>c x. push_bit 1 c + ucast x) i b),
     oe_version = sys_version_get, oe_table_addr = 0, oe_table_len = 0, oe_mtu = 100\<rparr>"

lemma mem_env_flash: "nor_flash mem_env (\<lambda>d. d)"
  by (simp add: nor_flash_def mem_env_def)

lemma mem_env_crc: "crc_chained mem_env"
  by (simp add: crc_chained_def mem_env_def)

definition ota_idle :: "(u32 \<Rightarrow> u8) ota_state" where
  "ota_idle = \<lparr>tx_ready_mask = 0, ft_addr = 0, ft_len = 0, ft_crc = 0, ft_handle = 0, ftc_msg_len = 0,
     ftc_msg_buf = replicate 20 0, ft_in_progress = 0, wakeup_flag = False, pending_count = 0, send_count = 0,
     storage = Some (\<lambda>x. 0), ota_conn = False, conn_param = \<lparr>interval_min = 0, interval_max = 0, latency = 0, timeout = 0\<rparr>,
     ota_need_reset = 0, ota_dc = 1, ota_ftc = 1, ota_ftd = 1, ota_au = 1, ota_events = [], wake_lock = 0,
     disconnected = False, param_updates = [], ota_trace = []\<rparr>"

lemma ota_idle_simps [simp]:
  "storage ota_idle = Some (\<lambda>x. 0)" "ft_in_progress ota_idle = 0" "ftc_free ota_idle" "ota_ftd ota_idle = 1"
  "length (ftc_msg_buf ota_idle) = 20" "wake_lock ota_idle = 0" "ota_events ota_idle = []" "ota_trace ota_idle = []"
  by (simp_all add: ota_idle_def ftc_free_def flag_set_def)


theorem ota_update_roundtrip_witness:
  "\<exists>s1 s2 s3 s4. ota_ftc_write mem_env (5 # u16_encode 1 @ u32_encode 0x1000 @ u32_encode 0x1000) ota_idle = Inr (0, s1) \<and>
     ota_ftc_write mem_env (3 # u16_encode 1 @ u32_encode 0x1000 @ u32_encode 5) (ota_ftc_send mem_env s1) = Inr (0, s2) \<and>
     ftd_writes mem_env [[1, 2, 3], [4, 5]] (ota_ftc_send mem_env s2) = Inr s3 \<and>
     ota_ftc_write mem_env (7 # u16_encode 1 @ u32_encode 0x1000 @ u32_encode 5 @ u32_encode (oe_crc32 mem_env [1, 2, 3, 4, 5] 0))
       (ota_ftc_send mem_env s3) = Inr (0, s4) \<and> take 4 (ftc_msg_buf s4) = [8] @ u16_encode 1 @ [0]"
  using ota_update_roundtrip [OF mem_env_flash mem_env_crc, where s = ota_idle and d = "\<lambda>x. 0" and addr = "0x1000"
      and n = "0x1000" and ps = "[[1, 2, 3], [4, 5]]" and len = 5 and h = 1] by force

theorem ota_get_delivers_witness:
  "\<exists>t. ftd_sends mem_env 3 (ota_idle\<lparr>ft_len := 50, ft_in_progress := 1\<rparr>) = Inr t \<and> ft_in_progress t = 0 \<and>
     notified (ota_trace t) = replicate 50 0"
  using ota_get_delivers [OF mem_env_flash, of "ota_idle\<lparr>ft_len := 50, ft_in_progress := 1\<rparr>" "\<lambda>x. 0" 3]
  by (auto simp: region_def notified_def map_replicate_const)



end
