(* ===== verification/Irc_Protocol.thy ===== *)
theory Irc_Protocol
  imports Prelude
begin

text \<open>
  Infrared waveform recognition (\<^verbatim>\<open>irc_protocol.c\<close>): the recognisers of the pulse-distance
  formats (NEC, 9012, 50462, 7461, 50560), which decode a table of pulse widths within 20 percent and
  rewrite it with the nominal widths, and of the Manchester formats RC5 and RC6. A recogniser returns the
  code it prints, or nothing when it rejects the table, and the table, which it may have rewritten.
\<close>

section \<open>Tolerances\<close>

definition VAL_ESP_L :: "nat \<Rightarrow> nat" where "VAL_ESP_L a = a * 80 div 100"

definition VAL_ESP_R :: "nat \<Rightarrow> nat" where "VAL_ESP_R a = a * 120 div 100"

text \<open>The test \<open>(w > VAL_ESP_L(a)) && (w < VAL_ESP_R(a))\<close>.\<close>

definition near :: "nat \<Rightarrow> u16 \<Rightarrow> bool" where
  "near a w \<longleftrightarrow> VAL_ESP_L a < unat w \<and> unat w < VAL_ESP_R a"

section \<open>Pulse-distance formats\<close>

text \<open>
  The constants of one format in \<^verbatim>\<open>irc_protocol.h\<close>: the header pulses \<open>LDC_0\<close> and \<open>LDC_1\<close> (none for 50462),
  the burst \<open>COM\<close>, the spaces \<open>LOGIC_0\<close> and \<open>LOGIC_1\<close>, the number of code bits and, for 50560, the index of the
  segment pulses, which are skipped.
\<close>

record pulse_format =
  ldc :: "u16 list"
  com :: u16
  logic_0 :: u16
  logic_1 :: u16
  code_num :: nat
  segment :: "nat option"

definition NEC :: pulse_format where
  "NEC = \<lparr>ldc = [9000, 4500], com = 560, logic_0 = 560, logic_1 = 1690, code_num = 32, segment = None\<rparr>"

definition F9012 :: pulse_format where
  "F9012 = \<lparr>ldc = [4500, 4500], com = 560, logic_0 = 560, logic_1 = 1690, code_num = 32, segment = None\<rparr>"

definition F50462 :: pulse_format where
  "F50462 = \<lparr>ldc = [], com = 260, logic_0 = 780, logic_1 = 1799, code_num = 16, segment = None\<rparr>"

definition F7461 :: pulse_format where
  "F7461 = \<lparr>ldc = [9000, 4500], com = 560, logic_0 = 560, logic_1 = 1680, code_num = 42, segment = None\<rparr>"

definition F50560 :: pulse_format where
  "F50560 = \<lparr>ldc = [8000, 4000], com = 520, logic_0 = 520, logic_1 = 1560, code_num = 16, segment = Some 18\<rparr>"

definition skip_segment :: "pulse_format \<Rightarrow> nat \<Rightarrow> nat" where
  "skip_segment fmt i = (if segment fmt = Some i then i + 2 else i)"

text \<open>
  The \<open>generate_*_wave\<close> functions: header, one burst and one space for every bit from the mask
  \<open>1UL << (bits_of_data - 1)\<close> down, and the stop burst. \<open>unsigned long\<close> has 32 bits on the target, so a shift by
  32 or more is undefined. The 8-bit index stays below 68.
\<close>

fun write_pulses :: "u16 list \<Rightarrow> nat \<Rightarrow> u16 list \<Rightarrow> u16 list res" where
  "write_pulses tab i [] = Inr tab"
| "write_pulses tab i (w # ws) = rbind (arr_set tab i w) (\<lambda>tab. write_pulses tab (Suc i) ws)"

function write_code :: "pulse_format \<Rightarrow> u16 list \<Rightarrow> nat \<Rightarrow> u64 \<Rightarrow> u32 \<Rightarrow> (u16 list \<times> nat) res" where
  "write_code fmt tab i data m =
     (if m = 0 then Inr (tab, i)
      else let i = skip_segment fmt i in
        rbind (arr_set tab i (com fmt)) (\<lambda>tab.
        rbind (arr_set tab (i + 1) (if flag_set data (ucast m) then logic_1 fmt else logic_0 fmt)) (\<lambda>tab.
        write_code fmt tab (i + 2) data (drop_bit 1 m))))"
  by auto

termination
  by (relation "measure (\<lambda>(fmt, tab, i, data, m). unat m)") (simp_all add: drop_bit_1_less [simplified])

declare write_code.simps [simp del]

definition first_mask :: "u16 \<Rightarrow> u32 res" where
  "first_mask bits = (if 1 \<le> unat bits \<and> unat bits \<le> 32 then Inr (push_bit (unat bits - 1) 1) else Inl Bad_Shift)"

definition generate_wave :: "pulse_format \<Rightarrow> u16 list \<Rightarrow> u64 \<Rightarrow> u16 \<Rightarrow> u16 list res" where
  "generate_wave fmt tab data bits =
     rbind (write_pulses tab 0 (ldc fmt)) (\<lambda>tab. rbind (first_mask bits) (\<lambda>m.
     rbind (write_code fmt tab (length (ldc fmt)) data m) (\<lambda>(tab, i). arr_set tab i (com fmt))))"

definition generate_nec_wave :: "u16 list \<Rightarrow> u64 \<Rightarrow> u16 \<Rightarrow> u16 list res" where
  "generate_nec_wave = generate_wave NEC"

definition generate_9012_wave :: "u16 list \<Rightarrow> u64 \<Rightarrow> u16 \<Rightarrow> u16 list res" where
  "generate_9012_wave = generate_wave F9012"

definition generate_50462_wave :: "u16 list \<Rightarrow> u64 \<Rightarrow> u16 \<Rightarrow> u16 list res" where
  "generate_50462_wave = generate_wave F50462"

definition generate_7461_wave :: "u16 list \<Rightarrow> u64 \<Rightarrow> u16 \<Rightarrow> u16 list res" where
  "generate_7461_wave = generate_wave F7461"

definition generate_50560_wave :: "u16 list \<Rightarrow> u64 \<Rightarrow> u16 \<Rightarrow> u16 list res" where
  "generate_50560_wave = generate_wave F50560"

text \<open>
  The recognisers: the number of pulses, the header, then a burst and a space for every bit; the stop burst is
  not checked. \<open>data\<close> is 32 bits wide, 64 for 7461.
\<close>

fun check_header :: "u16 list \<Rightarrow> nat \<Rightarrow> u16 list \<Rightarrow> bool res" where
  "check_header tab i [] = Inr True"
| "check_header tab i (h # hs) =
     rbind (arr_get tab i) (\<lambda>w. if near (unat h) w then check_header tab (Suc i) hs else Inr False)"

function check_code :: "pulse_format \<Rightarrow> u16 list \<Rightarrow> nat \<Rightarrow> nat \<Rightarrow> 'a::len word \<Rightarrow> 'a word option res" where
  "check_code fmt tab i lim data =
     (if i < lim then let i = skip_segment fmt i in
        rbind (arr_get tab i) (\<lambda>b. if \<not> near (unat (com fmt)) b then Inr None else
        rbind (arr_get tab (i + 1)) (\<lambda>w.
          if near (unat (logic_0 fmt)) w then check_code fmt tab (i + 2) lim (push_bit 1 data OR 0)
          else if near (unat (logic_1 fmt)) w then check_code fmt tab (i + 2) lim (push_bit 1 data OR 1)
          else Inr None))
      else Inr (Some data))"
  by auto

termination
  by (relation "measure (\<lambda>(fmt, tab, i, lim, data). lim - i)") (auto simp: skip_segment_def split: if_splits)

declare check_code.simps [simp del]

definition wave_length :: "pulse_format \<Rightarrow> nat" where
  "wave_length fmt = code_num fmt * 2 + length (ldc fmt) + (if segment fmt = None then 0 else 2) + 1"

definition decode_wave :: "pulse_format \<Rightarrow> u16 list \<Rightarrow> u16 \<Rightarrow> 'a::len word option res" where
  "decode_wave fmt tab tab_len =
     (if unat tab_len \<noteq> wave_length fmt then Inr None
      else rbind (check_header tab 0 (ldc fmt)) (\<lambda>ok.
        if \<not> ok then Inr None else check_code fmt tab (length (ldc fmt)) (unat tab_len - 1) 0))"

definition is_pulse_wave :: "pulse_format \<Rightarrow> u16 list \<Rightarrow> u16 \<Rightarrow> ('a::len word option \<times> u16 list) res" where
  "is_pulse_wave fmt tab tab_len = rbind (decode_wave fmt tab tab_len) (\<lambda>r.
     case r of None \<Rightarrow> Inr (None, tab)
     | Some data \<Rightarrow> rbind (generate_wave fmt tab (ucast data) (of_nat (code_num fmt))) (\<lambda>tab. Inr (Some data, tab)))"

definition is_nec_wave :: "u16 list \<Rightarrow> u16 \<Rightarrow> (u32 option \<times> u16 list) res" where
  "is_nec_wave = is_pulse_wave NEC"

definition is_9012_protocol :: "u16 list \<Rightarrow> u16 \<Rightarrow> (u32 option \<times> u16 list) res" where
  "is_9012_protocol = is_pulse_wave F9012"

definition is_50462_protocol :: "u16 list \<Rightarrow> u16 \<Rightarrow> (u32 option \<times> u16 list) res" where
  "is_50462_protocol = is_pulse_wave F50462"

definition is_7461_protocol :: "u16 list \<Rightarrow> u16 \<Rightarrow> (u64 option \<times> u16 list) res" where
  "is_7461_protocol = is_pulse_wave F7461"

text \<open>The 50560 recogniser does not rewrite the table: the call of its generator is commented out.\<close>

definition is_50560_protocol :: "u16 list \<Rightarrow> u16 \<Rightarrow> (u32 option \<times> u16 list) res" where
  "is_50560_protocol tab tab_len = rbind (decode_wave F50560 tab tab_len) (\<lambda>r. Inr (r, tab))"

section \<open>Manchester formats\<close>

text \<open>
  \<open>get_pulse_level\<close>: the level of the next half bit (\<open>CARRIER_LEVEL\<close> for even, \<open>SPACE_LEVEL\<close> for odd offsets), with the
  number of half bits of the current pulse already used; \<open>None\<close> is the return value \<open>-1\<close>.
\<close>

definition half_bits :: "nat \<Rightarrow> u16 \<Rightarrow> nat" where
  "half_bits c w = (if near c w then 1 else if near (c * 2) w then 2 else if near (c * 3) w then 3 else 0)"

definition get_pulse_level :: "u16 \<Rightarrow> u8 \<Rightarrow> u8 \<Rightarrow> nat \<Rightarrow> bool option \<times> u8 \<times> u8" where
  "get_pulse_level w off used c =
     (let level = (unat off mod 2 = 0); len = half_bits c w in
      if len = 0 then (None, off, used)
      else let used = used + 1 in
        if len \<le> unat used then (Some level, off + 1, 0) else (Some level, off, used))"

definition next_level :: "nat \<Rightarrow> u16 list \<Rightarrow> u8 \<times> u8 \<Rightarrow> (bool option \<times> u8 \<times> u8) res" where
  "next_level c tab = (\<lambda>(off, used). rbind (arr_get tab (unat off)) (\<lambda>w. Inr (get_pulse_level w off used c)))"

definition rc5_body :: "u16 list \<Rightarrow> u16 \<Rightarrow> (u8 \<times> u8) \<times> u32 \<Rightarrow> ((u8 \<times> u8) \<times> u32, u32 option) flow res" where
  "rc5_body tab tab_len = (\<lambda>(p, data). rbind (next_level 844 tab p) (\<lambda>(a, p).
     rbind (if unat (fst p) = unat tab_len then Inr (Some False, p) else next_level 844 tab p) (\<lambda>(b, p).
     Inr (if a = Some False \<and> b = Some True then Next (p, push_bit 1 data OR 1)
          else if a = Some True \<and> b = Some False then Next (p, push_bit 1 data OR 0)
          else Return None))))"

definition flow_code :: "('p \<times> u32, u32 option) flow \<Rightarrow> u32 option" where
  "flow_code f = (case f of Return r \<Rightarrow> r | Break s \<Rightarrow> Some (snd s) | Next s \<Rightarrow> Some (snd s))"

definition is_rc5_protocol :: "u16 list \<Rightarrow> u16 \<Rightarrow> u32 option res" where
  "is_rc5_protocol tab tab_len =
     (if unat tab_len < 11 + 2 then Inr None
      else rbind (next_level 844 tab (0, 0)) (\<lambda>(a, p). if a \<noteq> Some True then Inr None
      else rbind (next_level 844 tab p) (\<lambda>(a, p). if a \<noteq> Some False then Inr None
      else rbind (next_level 844 tab p) (\<lambda>(a, p). if a \<noteq> Some True then Inr None
      else rbind (c_while (\<lambda>(p, data). unat (fst p) < unat tab_len) (rc5_body tab tab_len) (p, 0))
             (\<lambda>f. Inr (flow_code f))))))"

text \<open>RC6: the fourth bit, the toggle bit, is twice as long.\<close>

definition rc6_half :: "u16 list \<Rightarrow> u8 \<Rightarrow> u8 \<times> u8 \<Rightarrow> (bool option option \<times> u8 \<times> u8) res" where
  "rc6_half tab i p = rbind (next_level 444 tab p) (\<lambda>(a, p).
     if i = 3 then rbind (next_level 444 tab p) (\<lambda>(b, p). Inr (if a \<noteq> b then None else Some a, p))
     else Inr (Some a, p))"

definition rc6_body :: "u16 list \<Rightarrow> ((u8 \<times> u8) \<times> u8) \<times> u32 \<Rightarrow> (((u8 \<times> u8) \<times> u8) \<times> u32, u32 option) flow res" where
  "rc6_body tab = (\<lambda>((p, i), data). rbind (rc6_half tab i p) (\<lambda>(a, p).
     case a of None \<Rightarrow> Inr (Return None) | Some a \<Rightarrow>
     rbind (rc6_half tab i p) (\<lambda>(b, p).
     case b of None \<Rightarrow> Inr (Return None) | Some b \<Rightarrow>
     Inr (if a = Some True \<and> b = Some False then Next ((p, i + 1), push_bit 1 data OR 1)
          else if a = Some False \<and> b = Some True then Next ((p, i + 1), push_bit 1 data OR 0)
          else Return None))))"

definition is_rc6_protocol :: "u16 list \<Rightarrow> u16 \<Rightarrow> u32 option res" where
  "is_rc6_protocol tab tab_len =
     (if unat tab_len < 15 then Inr None
      else rbind (check_header tab 0 [2666, 889]) (\<lambda>ok. if \<not> ok then Inr None
      else rbind (next_level 444 tab (2, 0)) (\<lambda>(a, p). if a \<noteq> Some True then Inr None
      else rbind (next_level 444 tab p) (\<lambda>(a, p). if a \<noteq> Some False then Inr None
      else rbind (c_while (\<lambda>((p, i), data). unat (fst p) < unat tab_len) (rc6_body tab) ((p, 0), 0))
             (\<lambda>f. Inr (flow_code f))))))"

section \<open>Bits of a code\<close>

definition acc_bits :: "bool list \<Rightarrow> 'a::len word \<Rightarrow> 'a word" where
  "acc_bits bs d = foldl (\<lambda>d b. push_bit 1 d OR of_bool b) d bs"

definition code_bits :: "nat \<Rightarrow> 'a::len word \<Rightarrow> bool list" where
  "code_bits k c = map (bit c) (rev [0..<k])"

lemma acc_bits_simps [simp]:
  "acc_bits [] d = d" "acc_bits (b # bs) d = acc_bits bs (push_bit 1 d OR of_bool b)"
  by (simp_all add: acc_bits_def)

lemma code_bits_simps [simp]: "length (code_bits k c) = k" "code_bits 0 c = []" "code_bits (Suc k) c = bit c k # code_bits k c"
  by (simp_all add: code_bits_def)

lemma bit_acc_bits:
  "n < LENGTH('a) \<Longrightarrow> bit (acc_bits bs d) n = (if n < length bs then rev bs ! n else bit d (n - length bs))"
  for d :: "'a::len word"
proof (induction bs arbitrary: d)
  case (Cons b bs)
  have "bit (push_bit 1 d OR of_bool b) (n - length bs) = (if n = length bs then b else bit d (n - (length bs + 1)))"
    if "length bs \<le> n" using that Cons.prems by (auto simp: bit_or_iff bit_push_bit_iff bit_of_bool_iff simp del: push_bit_Suc One_nat_def)
  with Cons show ?case by (auto simp: nth_append not_less)
qed simp

lemma code_bits_acc: "length bs \<le> LENGTH('a) \<Longrightarrow> code_bits (length bs) (acc_bits bs (0 :: 'a::len word)) = bs"
  by (rule nth_equalityI) (auto simp: code_bits_def rev_nth bit_acc_bits)

lemma acc_code_bits: "k \<le> LENGTH('a) \<Longrightarrow> acc_bits (code_bits k c) 0 = take_bit k c" for c :: "'a::len word"
  by (rule bit_word_eqI) (auto simp: bit_acc_bits code_bits_def rev_map bit_take_bit_iff)

lemma acc_bits_range: "length bs \<le> LENGTH('a) \<Longrightarrow> take_bit (length bs) (acc_bits bs 0) = acc_bits bs (0 :: 'a::len word)"
  by (rule bit_word_eqI) (auto simp: bit_acc_bits bit_take_bit_iff)

lemma code_bits_ucast:
  "k \<le> LENGTH('a) \<Longrightarrow> k \<le> LENGTH('b) \<Longrightarrow> code_bits k (ucast c :: 'b::len word) = code_bits k c" for c :: "'a::len word"
  by (auto simp: code_bits_def bit_simps)

section \<open>Decoding\<close>

definition pulses :: "pulse_format \<Rightarrow> bool list \<Rightarrow> u16 list" where
  "pulses fmt bs = concat (map (\<lambda>b. [com fmt, if b then logic_1 fmt else logic_0 fmt]) bs)"

definition wave :: "pulse_format \<Rightarrow> bool list \<Rightarrow> u16 list" where
  "wave fmt bs = ldc fmt @ pulses fmt bs @ [com fmt]"

definition matches :: "u16 list \<Rightarrow> u16 list \<Rightarrow> bool" where
  "matches ws xs = list_all2 (\<lambda>w x. near (unat w) x) ws xs"

lemma pulses_simps [simp]:
  "pulses fmt [] = []" "pulses fmt (b # bs) = com fmt # (if b then logic_1 fmt else logic_0 fmt) # pulses fmt bs"
  "length (pulses fmt bs) = 2 * length bs"
  by (induction bs) (simp_all add: pulses_def)

fun decode_pairs :: "pulse_format \<Rightarrow> u16 list \<Rightarrow> bool list option" where
  "decode_pairs fmt (b # w # xs) =
     (if \<not> near (unat (com fmt)) b then None
      else if near (unat (logic_0 fmt)) w then map_option (Cons False) (decode_pairs fmt xs)
      else if near (unat (logic_1 fmt)) w then map_option (Cons True) (decode_pairs fmt xs) else None)"
| "decode_pairs fmt _ = Some []"

lemma check_header_matches:
  "i + length hs \<le> length tab \<Longrightarrow> check_header tab i hs = Inr (matches hs (take (length hs) (drop i tab)))"
proof (induction hs arbitrary: i)
  case (Cons h hs)
  then have "drop i tab = tab ! i # drop (Suc i) tab" by (simp add: Cons_nth_drop_Suc)
  with Cons show ?case by (simp add: matches_def arr_get_def)
qed (simp add: matches_def)

lemma check_code_prefix:
  assumes "\<forall>m<k. segment fmt \<noteq> Some (i + 2 * m)" "i + 2 * k \<le> lim" "i + 2 * k \<le> length tab"
  shows "check_code fmt tab i lim d = (case decode_pairs fmt (take (2 * k) (drop i tab)) of None \<Rightarrow> Inr None
    | Some bs \<Rightarrow> check_code fmt tab (i + 2 * k) lim (acc_bits bs d))"
  using assms
proof (induction k arbitrary: i d)
  case (Suc k)
  have tab: "drop i tab = tab ! i # tab ! Suc i # drop (Suc (Suc i)) tab"
    using Suc.prems(3) by (simp add: Cons_nth_drop_Suc)
  have skip: "skip_segment fmt i = i" using Suc.prems(1) by (auto simp: skip_segment_def)
  have seg: "\<forall>m<k. segment fmt \<noteq> Some (Suc (Suc i) + 2 * m)" using Suc.prems(1) by (metis Suc_mono add_Suc_shift mult_Suc_right add_2_eq_Suc)
  note IH = Suc.IH [OF seg]
  show ?case
    using Suc.prems(2,3) by (subst check_code.simps) (simp add: skip tab IH arr_get_def option.case_eq_if option.map_sel)
qed simp


lemma check_code_all:
  assumes "segment fmt = None" "i + 2 * k \<le> length tab"
  shows "check_code fmt tab i (i + 2 * k) d = Inr (map_option (\<lambda>bs. acc_bits bs d) (decode_pairs fmt (take (2 * k) (drop i tab))))"
  using check_code_prefix [of k fmt i "i + 2 * k" tab d] assms
  by (simp add: check_code.simps [of fmt tab "i + 2 * k"] split: option.split)

section \<open>Encoding\<close>

lemma write_pulses_ok:
  "i + length ws \<le> length tab \<Longrightarrow> write_pulses tab i ws = Inr (take i tab @ ws @ drop (i + length ws) tab)"
proof (induction ws arbitrary: tab i)
  case (Cons w ws)
  then show ?case by (simp add: arr_set_def upd_conv_take_nth_drop ac_simps)
qed simp

definition nth_mask :: "nat \<Rightarrow> u32" where
  "nth_mask k = (if k = 0 then 0 else push_bit (k - 1) 1)"

lemma nth_mask_0 [simp]: "nth_mask 0 = 0"
  by (simp add: nth_mask_def)

lemma nth_mask_drop: "k < 32 \<Longrightarrow> drop_bit 1 (nth_mask (Suc k)) = nth_mask k"
  by (rule bit_word_eqI) (auto simp: nth_mask_def bit_simps)

lemma nth_mask_bit: "k < 32 \<Longrightarrow> nth_mask (Suc k) \<noteq> 0 \<and> flag_set data (ucast (nth_mask (Suc k))) = bit data k" for data :: u64
proof -
  assume k: "k < 32"
  have "(ucast (2 ^ k :: u32) :: u64) = 2 ^ k" by (rule bit_word_eqI) (use k in \<open>auto simp: bit_simps\<close>)
  with k show ?thesis by (simp add: nth_mask_def flag_set_power)
qed

lemma write_code_ok:
  assumes "segment fmt = None" "k \<le> 32" "i + 2 * k \<le> length tab"
  shows "write_code fmt tab i data (nth_mask k) =
    Inr (take i tab @ pulses fmt (code_bits k data) @ drop (i + 2 * k) tab, i + 2 * k)"
  using assms(2,3)
proof (induction k arbitrary: tab i)
  case 0
  then show ?case by (simp add: write_code.simps)
next
  case (Suc k)
  let ?l = "if bit data k then logic_1 fmt else logic_0 fmt"
  let ?tab = "take i tab @ [com fmt, ?l] @ drop (i + 2) tab"
  have mask: "nth_mask (Suc k) \<noteq> 0" "flag_set data (ucast (nth_mask (Suc k))) = bit data k" "drop_bit 1 (nth_mask (Suc k)) = nth_mask k"
    using Suc.prems(1) nth_mask_bit [of k data] nth_mask_drop [of k] by auto
  have tab: "(tab[i := com fmt])[Suc i := ?l] = ?tab"
    using Suc.prems(2) by (simp add: upd_conv_take_nth_drop take_Suc_conv_app_nth list_update_append drop_update_cancel numeral_2_eq_2)
  have "write_code fmt tab i data (nth_mask (Suc k)) = write_code fmt ?tab (i + 2) data (nth_mask k)"
    using Suc.prems(2) tab by (subst write_code.simps) (simp add: mask mask(3) [simplified] skip_segment_def assms(1) arr_set_def)
  with Suc.IH [of "i + 2" ?tab] Suc.prems show ?case by (simp add: add.commute [of "2 * k" i])
qed


text \<open>
  What the recogniser of a format relies on: the tolerance windows of the two spaces are disjoint; for all formats but
  50560 there are no segment pulses; and for the generators a code fits the 32-bit mask.
\<close>

locale pulse_windows =
  fixes fmt :: pulse_format
  assumes windows: "near (unat (logic_0 fmt)) w \<Longrightarrow> \<not> near (unat (logic_1 fmt)) w"
begin

lemma decode_pairs_iff:
  "length xs = 2 * k \<Longrightarrow> decode_pairs fmt xs = Some bs \<longleftrightarrow> length bs = k \<and> matches (pulses fmt bs) xs"
proof (induction k arbitrary: xs bs)
  case (Suc k)
  then obtain b w ys where xs: "xs = b # w # ys" "length ys = 2 * k"
    by (metis (no_types, lifting) Suc_length_conv mult_Suc_right add_2_eq_Suc)
  show ?case
    using Suc.IH [OF xs(2)] windows by (cases bs) (auto simp: xs(1) matches_def)
qed (auto simp: matches_def)

end

locale pulse_distance = pulse_windows +
  assumes no_segment: "segment fmt = None"
begin

lemma wave_length_eq: "wave_length fmt = length (ldc fmt) + 2 * code_num fmt + 1"
  by (simp add: wave_length_def no_segment)

lemma wave_matches:
  assumes "length bs = code_num fmt" "wave_length fmt \<le> length tab"
  shows "matches (butlast (wave fmt bs)) (take (wave_length fmt - 1) tab) \<longleftrightarrow>
    matches (ldc fmt) (take (length (ldc fmt)) tab) \<and>
    matches (pulses fmt bs) (take (2 * code_num fmt) (drop (length (ldc fmt)) tab))"
proof -
  have "take (wave_length fmt - 1) tab = take (length (ldc fmt)) tab @ take (2 * code_num fmt) (drop (length (ldc fmt)) tab)"
    by (simp add: wave_length_eq take_add)
  moreover have "butlast (wave fmt bs) = ldc fmt @ pulses fmt bs" by (simp add: wave_def butlast_append)
  ultimately show ?thesis using assms by (simp add: matches_def list_all2_append wave_length_eq)
qed

lemma decode_wave_eq:
  fixes z :: "'a::len word"
  assumes "z = 0" "wave_length fmt \<le> length tab"
  shows "decode_wave fmt tab n = Inr (if unat n = wave_length fmt \<and> matches (ldc fmt) (take (length (ldc fmt)) tab)
    then map_option (\<lambda>bs. acc_bits bs z) (decode_pairs fmt (take (2 * code_num fmt) (drop (length (ldc fmt)) tab))) else None)"
  using assms check_header_matches [of 0 "ldc fmt" tab] check_code_all [OF no_segment, of "length (ldc fmt)" "code_num fmt" tab z]
  by (simp add: decode_wave_def wave_length_eq)

theorem decode_wave_iff:
  fixes c :: "'a::len word"
  assumes "wave_length fmt \<le> length tab" "code_num fmt \<le> LENGTH('a)"
  shows "decode_wave fmt tab n = Inr (Some c) \<longleftrightarrow> unat n = wave_length fmt \<and> take_bit (code_num fmt) c = c \<and>
    matches (butlast (wave fmt (code_bits (code_num fmt) c))) (take (wave_length fmt - 1) tab)"
proof -
  have len: "length (take (2 * code_num fmt) (drop (length (ldc fmt)) tab)) = 2 * code_num fmt"
    using assms(1) by (simp add: wave_length_eq)
  have "(\<exists>bs. decode_pairs fmt (take (2 * code_num fmt) (drop (length (ldc fmt)) tab)) = Some bs \<and> acc_bits bs 0 = c) \<longleftrightarrow>
    take_bit (code_num fmt) c = c \<and>
    matches (pulses fmt (code_bits (code_num fmt) c)) (take (2 * code_num fmt) (drop (length (ldc fmt)) tab))"
    (is "?L \<longleftrightarrow> ?R")
  proof
    assume ?L
    then obtain bs where bs: "length bs = code_num fmt" "c = acc_bits bs 0"
      "matches (pulses fmt bs) (take (2 * code_num fmt) (drop (length (ldc fmt)) tab))" by (auto simp: decode_pairs_iff [OF len])
    then show ?R using assms(2) acc_bits_range [of bs, where 'a = 'a] code_bits_acc [of bs, where 'a = 'a] by simp
  next
    assume ?R
    then show ?L using assms(2) acc_code_bits [of "code_num fmt" c]
      by (intro exI [of _ "code_bits (code_num fmt) c"]) (simp add: decode_pairs_iff [OF len])
  qed
  then show ?thesis
    using assms(1) wave_matches [of "code_bits (code_num fmt) c" tab] by (auto simp: decode_wave_eq [OF refl])
qed

lemma decode_wave_total: "wave_length fmt \<le> length tab \<Longrightarrow> \<exists>r. decode_wave fmt tab n = Inr r"
  by (simp add: decode_wave_eq [OF refl])

end

locale pulse_coding = pulse_distance +
  assumes fits: "1 \<le> code_num fmt" "code_num fmt \<le> 32"
begin

lemma generate_wave_ok:
  assumes "wave_length fmt \<le> length tab"
  shows "generate_wave fmt tab data (of_nat (code_num fmt)) =
    Inr (wave fmt (code_bits (code_num fmt) data) @ drop (wave_length fmt) tab)"
proof -
  let ?t = "ldc fmt @ drop (length (ldc fmt)) tab" and ?k = "code_num fmt"
  have h: "write_pulses tab 0 (ldc fmt) = Inr ?t" using assms write_pulses_ok [of 0 "ldc fmt" tab] by (simp add: wave_length_eq)
  have "unat (of_nat ?k :: u16) = ?k" using fits by (simp add: unat_of_nat)
  then have m: "first_mask (of_nat ?k) = Inr (nth_mask ?k)" using fits by (simp add: first_mask_def nth_mask_def)
  have c: "write_code fmt ?t (length (ldc fmt)) data (nth_mask ?k) =
    Inr (ldc fmt @ pulses fmt (code_bits ?k data) @ drop (wave_length fmt - 1) tab, length (ldc fmt) + 2 * ?k)"
    using write_code_ok [OF no_segment fits(2), of "length (ldc fmt)" ?t data] assms by (simp add: wave_length_eq ac_simps)
  have "drop (wave_length fmt - 1) tab = tab ! (wave_length fmt - 1) # drop (wave_length fmt) tab"
    using assms Cons_nth_drop_Suc [of "wave_length fmt - 1" tab] by (simp add: wave_length_eq)
  then show ?thesis by (simp add: generate_wave_def h m c arr_set_def wave_def list_update_append)
qed

theorem is_pulse_wave_iff:
  fixes c :: "'a::len word"
  assumes "wave_length fmt \<le> length tab" "32 \<le> LENGTH('a)" "LENGTH('a) \<le> 64"
  shows "is_pulse_wave fmt tab n = Inr (Some c, t) \<longleftrightarrow> unat n = wave_length fmt \<and> take_bit (code_num fmt) c = c \<and>
    matches (butlast (wave fmt (code_bits (code_num fmt) c))) (take (wave_length fmt - 1) tab) \<and>
    t = wave fmt (code_bits (code_num fmt) c) @ drop (wave_length fmt) tab"
proof -
  have "code_bits (code_num fmt) (ucast d :: u64) = code_bits (code_num fmt) d" for d :: "'a word"
    using fits assms(2) by (intro code_bits_ucast) auto
  then have "is_pulse_wave fmt tab n = Inr (Some c, t) \<longleftrightarrow> decode_wave fmt tab n = Inr (Some c) \<and>
    t = wave fmt (code_bits (code_num fmt) c) @ drop (wave_length fmt) tab"
    using generate_wave_ok [OF assms(1)]
    by (cases "decode_wave fmt tab n :: 'a word option res") (auto simp: is_pulse_wave_def split: option.splits)
  moreover have "code_num fmt \<le> LENGTH('a)" using fits assms(2) by simp
  ultimately show ?thesis using decode_wave_iff [OF assms(1), of n c] by auto
qed

end

section \<open>The formats\<close>

lemmas format_defs = NEC_def F9012_def F50462_def F7461_def F50560_def

lemmas near_simps = near_def VAL_ESP_L_def VAL_ESP_R_def

interpretation nec: pulse_coding NEC
  by unfold_locales (auto simp: NEC_def near_simps)

interpretation p9012: pulse_coding F9012
  by unfold_locales (auto simp: F9012_def near_simps)

interpretation p50462: pulse_coding F50462
  by unfold_locales (auto simp: F50462_def near_simps)

interpretation p7461: pulse_distance F7461
  by unfold_locales (auto simp: F7461_def near_simps)

interpretation p50560: pulse_windows F50560
  by unfold_locales (auto simp: F50560_def near_simps)

lemma format_sizes [simp]:
  "wave_length NEC = 67" "wave_length F9012 = 67" "wave_length F50462 = 33" "wave_length F7461 = 87" "wave_length F50560 = 37"
  "code_num NEC = 32" "code_num F9012 = 32" "code_num F50462 = 16" "code_num F7461 = 42" "code_num F50560 = 16"
  by (simp_all add: wave_length_def format_defs)

lemma take_bit_full [simp]: "take_bit 32 c = c" for c :: u32
  by (rule bit_word_eqI) (auto simp: bit_simps dest: bit_imp_le_length)

text \<open>
  C15 (equivalence). The NEC, 9012 and 50462 recognisers accept exactly the tables of the right length whose pulses, up to the stop burst,
  lie within 20 percent of the nominal wave of a code; they return that code and replace the table by its nominal wave, leaving the rest of
  the buffer alone.
\<close>

theorem irc_pulse_recognisers_exact:
  assumes "67 \<le> length tab"
  shows "(is_nec_wave tab n = Inr (Some c, t) \<longleftrightarrow> unat n = 67 \<and>
      matches (butlast (wave NEC (code_bits 32 c))) (take 66 tab) \<and> t = wave NEC (code_bits 32 c) @ drop 67 tab) \<and>
    (is_9012_protocol tab n = Inr (Some c, t) \<longleftrightarrow> unat n = 67 \<and>
      matches (butlast (wave F9012 (code_bits 32 c))) (take 66 tab) \<and> t = wave F9012 (code_bits 32 c) @ drop 67 tab) \<and>
    (is_50462_protocol tab n = Inr (Some c, t) \<longleftrightarrow> unat n = 33 \<and> take_bit 16 c = c \<and>
      matches (butlast (wave F50462 (code_bits 16 c))) (take 32 tab) \<and> t = wave F50462 (code_bits 16 c) @ drop 33 tab)"
  using assms nec.is_pulse_wave_iff [of tab n c t] p9012.is_pulse_wave_iff [of tab n c t] p50462.is_pulse_wave_iff [of tab n c t]
  by (simp add: is_nec_wave_def is_9012_protocol_def is_50462_protocol_def)

lemma nominal_matches:
  assumes "near (unat (com fmt)) (com fmt)" "near (unat (logic_0 fmt)) (logic_0 fmt)" "near (unat (logic_1 fmt)) (logic_1 fmt)"
    "matches (ldc fmt) (ldc fmt)"
  shows "matches (butlast (wave fmt bs)) (butlast (wave fmt bs))"
proof -
  have "matches (pulses fmt bs) (pulses fmt bs)" using assms(1-3) by (induction bs) (auto simp: matches_def)
  then show ?thesis using assms(4) by (simp add: wave_def butlast_append matches_def list_all2_append)
qed

lemma nominal_formats:
  "matches (butlast (wave NEC bs)) (butlast (wave NEC bs))" "matches (butlast (wave F9012 bs)) (butlast (wave F9012 bs))"
  "matches (butlast (wave F50462 bs)) (butlast (wave F50462 bs))"
  by (rule nominal_matches; simp add: format_defs near_simps matches_def)+

lemma length_wave [simp]: "length (wave fmt bs) = length (ldc fmt) + 2 * length bs + 1"
  by (simp add: wave_def)

lemma take_wave:
  "length bs = code_num fmt \<Longrightarrow> segment fmt = None \<Longrightarrow> take (wave_length fmt - 1) (wave fmt bs @ r) = butlast (wave fmt bs)"
  "length bs = code_num fmt \<Longrightarrow> segment fmt = None \<Longrightarrow> drop (wave_length fmt) (wave fmt bs @ r) = r"
  by (simp_all add: wave_length_def butlast_conv_take wave_def)

text \<open>A format whose nominal pulses lie within its own tolerances can be replayed.\<close>

locale pulse_replay = pulse_coding +
  assumes nominal: "matches (butlast (wave fmt bs)) (butlast (wave fmt bs))"
begin

lemma generate_recognise:
  fixes c :: "'a::len word"
  assumes "wave_length fmt \<le> length tab" "take_bit (code_num fmt) c = c" "unat n = wave_length fmt" "32 \<le> LENGTH('a)" "LENGTH('a) \<le> 64"
  shows "\<exists>t. generate_wave fmt tab (ucast c) (of_nat (code_num fmt)) = Inr t \<and> is_pulse_wave fmt t n = Inr (Some c, t)"
proof -
  let ?w = "wave fmt (code_bits (code_num fmt) c)"
  let ?t = "?w @ drop (wave_length fmt) tab"
  have "code_bits (code_num fmt) (ucast c :: u64) = code_bits (code_num fmt) c"
    using fits assms(4) by (intro code_bits_ucast) auto
  then have g: "generate_wave fmt tab (ucast c) (of_nat (code_num fmt)) = Inr ?t"
    using generate_wave_ok [OF assms(1), of "ucast c"] by simp
  have t: "take (wave_length fmt - 1) ?t = butlast ?w" "drop (wave_length fmt) ?t = drop (wave_length fmt) tab"
    by (rule take_wave; simp add: no_segment)+
  have "wave_length fmt \<le> length ?t" by (simp add: wave_length_eq)
  then have "is_pulse_wave fmt ?t n = Inr (Some c, ?t)"
    using is_pulse_wave_iff [of ?t n c ?t] assms(2-5) nominal t by metis
  with g show ?thesis by blast
qed

end

interpretation nec_replay: pulse_replay NEC
  by unfold_locales (rule nominal_formats)

interpretation p9012_replay: pulse_replay F9012
  by unfold_locales (rule nominal_formats)

interpretation p50462_replay: pulse_replay F50462
  by unfold_locales (rule nominal_formats)


text \<open>
  A 7461 code has 42 bits, but the generator starts from the 32-bit mask \<open>1UL << 41\<close>. Every table the 7461 recogniser would
  accept, and no other, runs into that undefined shift: the format is never recognised.
\<close>

theorem irc_7461_undefined:
  assumes "87 \<le> length tab"
  shows "(is_7461_protocol tab n = Inl Bad_Shift \<longleftrightarrow> unat n = 87 \<and>
      (\<exists>c :: u64. take_bit 42 c = c \<and> matches (butlast (wave F7461 (code_bits 42 c))) (take 86 tab))) \<and>
    (is_7461_protocol tab n = Inl Bad_Shift \<or> is_7461_protocol tab n = Inr (None, tab))"
proof -
  obtain r :: "u64 option" where r: "decode_wave F7461 tab n = Inr r" using p7461.decode_wave_total [of tab n] assms by auto
  have "generate_wave F7461 tab d 42 = Inl Bad_Shift" for d
    using assms write_pulses_ok [of 0 "ldc F7461" tab]
    by (simp add: generate_wave_def first_mask_def F7461_def del: write_pulses.simps)
  then have "is_7461_protocol tab n = (case r of None \<Rightarrow> Inr (None, tab) | Some c \<Rightarrow> Inl Bad_Shift)"
    by (simp add: is_7461_protocol_def is_pulse_wave_def r split: option.split)
  moreover have "(\<exists>c. r = Some c) \<longleftrightarrow> unat n = 87 \<and>
      (\<exists>c :: u64. take_bit 42 c = c \<and> matches (butlast (wave F7461 (code_bits 42 c))) (take 86 tab))"
    using p7461.decode_wave_iff [of tab n, where 'a = 64] assms r by auto
  ultimately show ?thesis by (cases r) auto
qed

lemma check_code_50560:
  fixes d :: u32
  assumes "37 \<le> length tab"
  shows "check_code F50560 tab 2 36 d = Inr (map_option (\<lambda>bs. acc_bits bs d)
    (case decode_pairs F50560 (take 16 (drop 2 tab)) of None \<Rightarrow> None
     | Some bs \<Rightarrow> map_option ((@) bs) (decode_pairs F50560 (take 16 (drop 20 tab)))))"
proof -
  have seg: "segment F50560 = Some 18" by (simp add: F50560_def)
  have a: "check_code F50560 tab 2 36 d = (case decode_pairs F50560 (take 16 (drop 2 tab)) of None \<Rightarrow> Inr None
    | Some bs \<Rightarrow> check_code F50560 tab 18 36 (acc_bits bs d))"
    using check_code_prefix [of 8 F50560 2 36 tab d] assms by (simp add: seg cong: option.case_cong)
  have b: "check_code F50560 tab 18 36 e = check_code F50560 tab 20 36 e" for e :: u32
    by (subst (1 2) check_code.simps) (simp add: skip_segment_def seg)
  have c: "check_code F50560 tab 20 36 e = Inr (map_option (\<lambda>bs. acc_bits bs e) (decode_pairs F50560 (take 16 (drop 20 tab))))" for e :: u32
    using check_code_prefix [of 8 F50560 20 36 tab e] assms
    by (simp add: seg check_code.simps [of _ _ 36] split: option.split)
  show ?thesis by (simp add: a b c acc_bits_def option.map_comp comp_def split: option.split)
qed

text \<open>
  The 50560 recogniser accepts exactly the tables with a header and sixteen bits within tolerance, eight before and eight
  after the two segment pulses, which may have any width; it returns the code of the sixteen bits and leaves the table as it is.
\<close>

theorem irc_50560_exact:
  assumes "37 \<le> length tab"
  shows "is_50560_protocol tab n = Inr (Some c, t) \<longleftrightarrow> t = tab \<and> unat n = 37 \<and> take_bit 16 c = c \<and>
    matches [8000, 4000] (take 2 tab) \<and> matches (pulses F50560 (code_bits 8 (drop_bit 8 c))) (take 16 (drop 2 tab)) \<and>
    matches (pulses F50560 (code_bits 8 c)) (take 16 (drop 20 tab))"
proof -
  let ?x = "take 16 (drop 2 tab)" and ?y = "take 16 (drop 20 tab)"
  have split: "code_bits 16 c = code_bits 8 (drop_bit 8 c) @ code_bits 8 c"
    by (simp add: code_bits_def bit_simps upt_rec numeral_eq_Suc)
  have len: "length ?x = 2 * 8" "length ?y = 2 * 8" using assms by simp_all
  have head: "check_header tab 0 (ldc F50560) = Inr (matches [8000, 4000] (take 2 tab))" "length (ldc F50560) = 2"
    using check_header_matches [of 0 "ldc F50560" tab] assms by (simp_all add: F50560_def numeral_2_eq_2)
  have "(\<exists>b1 b2. decode_pairs F50560 ?x = Some b1 \<and> decode_pairs F50560 ?y = Some b2 \<and> acc_bits (b1 @ b2) 0 = c) \<longleftrightarrow>
    take_bit 16 c = c \<and> matches (pulses F50560 (code_bits 8 (drop_bit 8 c))) ?x \<and> matches (pulses F50560 (code_bits 8 c)) ?y"
    (is "?L \<longleftrightarrow> ?R")
  proof
    assume ?L
    then obtain b1 b2 where b: "length b1 = 8" "length b2 = 8" "c = acc_bits (b1 @ b2) 0"
      "matches (pulses F50560 b1) ?x" "matches (pulses F50560 b2) ?y"
      by (auto simp: p50560.decode_pairs_iff [OF len(1)] p50560.decode_pairs_iff [OF len(2)])
    have "code_bits 16 c = b1 @ b2" "take_bit 16 c = c"
      using code_bits_acc [of "b1 @ b2", where 'a = 32] acc_bits_range [of "b1 @ b2", where 'a = 32] b(1-3) by simp_all
    then have "code_bits 8 (drop_bit 8 c) = b1" "code_bits 8 c = b2" "take_bit 16 c = c"
      unfolding split using b(1) by simp_all
    with b show ?R by simp
  next
    assume ?R
    then show ?L using acc_code_bits [of 16 c]
      by (intro exI [of _ "code_bits 8 (drop_bit 8 c)"] exI [of _ "code_bits 8 c"])
        (simp add: p50560.decode_pairs_iff [OF len(1)] p50560.decode_pairs_iff [OF len(2)] split)
  qed
  then show ?thesis
    using check_code_50560 [OF assms, of 0]
    by (auto simp: is_50560_protocol_def decode_wave_def head split: option.splits if_splits)
qed

section \<open>Manchester streams\<close>

text \<open>
  The half bits of a list of pulses, alternately carrier and space, with a single \<open>None\<close> for a pulse of no valid width; and
  the half bits left at a reading position.
\<close>

fun levels :: "nat \<Rightarrow> bool \<Rightarrow> u16 list \<Rightarrow> bool option list" where
  "levels c b [] = []"
| "levels c b (w # ws) = (if half_bits c w = 0 then [None] else replicate (half_bits c w) (Some b)) @ levels c (\<not> b) ws"

definition stream :: "nat \<Rightarrow> u16 list \<Rightarrow> nat \<Rightarrow> u8 \<times> u8 \<Rightarrow> bool option list" where
  "stream c tab n p = drop (unat (snd p)) (levels c (even (unat (fst p))) (drop (unat (fst p)) (take n tab)))"

definition at_pulse :: "nat \<Rightarrow> u16 list \<Rightarrow> nat \<Rightarrow> u8 \<times> u8 \<Rightarrow> bool" where
  "at_pulse c tab n p \<longleftrightarrow> unat (fst p) \<le> n \<and>
     (snd p = 0 \<or> unat (fst p) < n \<and> unat (snd p) < half_bits c (tab ! unat (fst p)))"

lemma half_bits_le: "half_bits c w \<le> 3"
  by (simp add: half_bits_def)

lemma stream_at:
  assumes "unat (fst p) < n" "n \<le> length tab"
  shows "stream c tab n p = drop (unat (snd p)) ((if half_bits c (tab ! unat (fst p)) = 0 then [None]
    else replicate (half_bits c (tab ! unat (fst p))) (Some (even (unat (fst p))))) @
    levels c (odd (unat (fst p))) (drop (Suc (unat (fst p))) (take n tab)))"
proof -
  have "drop (unat (fst p)) (take n tab) = tab ! unat (fst p) # drop (Suc (unat (fst p))) (take n tab)"
    using assms by (simp add: Cons_nth_drop_Suc [symmetric])
  then show ?thesis by (simp add: stream_def)
qed

lemma stream_end: "at_pulse c tab n p \<Longrightarrow> n \<le> length tab \<Longrightarrow> stream c tab n p = [] \<longleftrightarrow> unat (fst p) = n"
proof (cases "unat (fst p) < n")
  case True
  then show "at_pulse c tab n p \<Longrightarrow> n \<le> length tab \<Longrightarrow> ?thesis" using stream_at [of p n tab c] by (auto simp: at_pulse_def)
qed (auto simp: at_pulse_def stream_def)

lemma next_level_stream:
  assumes p: "at_pulse c tab n p" "unat (fst p) < n" and n: "n \<le> length tab" "n \<le> 255"
  shows "\<exists>x q. next_level c tab p = Inr (x, q) \<and> stream c tab n p = x # tl (stream c tab n p) \<and>
    (if x = None then q = p else stream c tab n q = tl (stream c tab n p) \<and> at_pulse c tab n q)"
proof -
  obtain off used where pp: "p = (off, used)" by (cases p)
  let ?w = "tab ! unat off" and ?h = "half_bits c (tab ! unat off)"
  have nl: "next_level c tab p = Inr (get_pulse_level ?w off used c)"
    using p(2) n(1) by (simp add: next_level_def pp arr_get_def)
  show ?thesis
  proof (cases "?h = 0")
    case True
    then have "used = 0" using p(1) by (simp add: at_pulse_def pp)
    then have "stream c tab n p = None # tl (stream c tab n p)" using True stream_at [OF p(2) n(1), of c] by (simp add: pp)
    moreover have "next_level c tab p = Inr (None, p)" using nl True by (simp add: get_pulse_level_def pp)
    ultimately show ?thesis by (intro exI [of _ None] exI [of _ p]) simp
  next
    case False
    have u: "unat used < ?h" using p False by (auto simp: at_pulse_def pp)
    then have "unat used < 3" using half_bits_le [of c ?w] by simp
    then have u1: "unat (used + 1) = Suc (unat used)" by (simp add: unat_word_ariths)
    have "unat off < 255" using p(2) n(2) by (simp add: pp)
    then have o1: "unat (off + 1) = Suc (unat off)" by (simp add: unat_word_ariths)
    let ?r = "levels c (odd (unat off)) (drop (Suc (unat off)) (take n tab))"
    have s: "stream c tab n p = Some (even (unat off)) # replicate (?h - Suc (unat used)) (Some (even (unat off))) @ ?r"
      using stream_at [OF p(2) n(1), of c] u False by (simp add: pp Suc_diff_Suc flip: replicate_Suc)
    show ?thesis
    proof (cases "?h \<le> Suc (unat used)")
      case True
      then have h: "?h = Suc (unat used)" using u by simp
      have "stream c tab n (off + 1, 0) = ?r" by (simp add: stream_def o1)
      moreover have "at_pulse c tab n (off + 1, 0)" using p(2) by (simp add: at_pulse_def o1 pp)
      ultimately show ?thesis using False by (simp add: nl get_pulse_level_def Let_def s u1 h even_iff_mod_2_eq_zero)
    next
      case f: False
      have "stream c tab n (off, used + 1) = replicate (?h - Suc (unat used)) (Some (even (unat off))) @ ?r"
        using stream_at [of "(off, used + 1)" n tab c] p(2) n(1) f False by (simp add: pp u1)
      moreover have "at_pulse c tab n (off, used + 1)" using p(2) f by (simp add: at_pulse_def u1 pp)
      ultimately show ?thesis using False f by (simp add: nl get_pulse_level_def Let_def s u1 even_iff_mod_2_eq_zero)
    qed
  qed
qed

section \<open>RC5\<close>

fun rc5_pairs :: "bool option list \<Rightarrow> bool list option" where
  "rc5_pairs [] = Some []"
| "rc5_pairs [a] = (if a = Some True then Some [False] else None)"
| "rc5_pairs (a # b # xs) =
     (if a = Some False \<and> b = Some True then map_option (Cons True) (rc5_pairs xs)
      else if a = Some True \<and> b = Some False then map_option (Cons False) (rc5_pairs xs) else None)"

lemma rc5_loop:
  assumes "at_pulse 844 tab (unat n) p" "unat n \<le> length tab" "unat n \<le> 255"
  shows "rbind (c_while (\<lambda>(p, data). unat (fst p) < unat n) (rc5_body tab n) (p, d)) (\<lambda>f. Inr (flow_code f)) =
    Inr (map_option (\<lambda>bs. acc_bits bs d) (rc5_pairs (stream 844 tab (unat n) p)))"
  using assms(1)
proof (induction "length (stream 844 tab (unat n) p)" arbitrary: p d rule: less_induct)
  case less
  let ?S = "stream 844 tab (unat n)"
  show ?case
  proof (cases "unat (fst p) < unat n")
    case False
    then have "unat (fst p) = unat n" using less.prems by (simp add: at_pulse_def)
    with less.prems stream_end [OF less.prems assms(2)] show ?thesis
      by (subst c_while_unfold) (simp add: flow_code_def)
  next
    case True
    obtain a q where a: "next_level 844 tab p = Inr (a, q)" "?S p = a # tl (?S p)"
      "if a = None then q = p else ?S q = tl (?S p) \<and> at_pulse 844 tab (unat n) q"
      using next_level_stream [OF less.prems True assms(2,3)] by blast
    show ?thesis
    proof (cases "a = None \<or> unat (fst q) = unat n")
      case stop: True
      have body: "rc5_body tab n (p, d) = Inr (if a = Some True then Next (q, push_bit 1 d OR 0) else Return None)"
        using a(1,3) True stop by (auto simp: rc5_body_def)
      show ?thesis
      proof (cases a)
        case None
        then have "rc5_pairs (?S p) = None" using a(2) by (cases "tl (?S p)") (metis option.distinct(1) rc5_pairs.simps(2,3))+
        with None True body show ?thesis by (subst c_while_unfold) (simp add: flow_code_def)
      next
        case (Some l)
        then have "tl (?S p) = []" using stop a(3) stream_end [of 844 tab "unat n" q] assms(2) by auto
        then have "?S p = [Some l]" using a(2) Some by simp
        moreover have "c_while (\<lambda>(p, data). unat (fst p) < unat n) (rc5_body tab n) (q, e) = Inr (Break (q, e))" for e
          using Some stop by (subst c_while_unfold) simp
        ultimately show ?thesis using Some True body by (subst c_while_unfold) (auto simp: flow_code_def)
      qed
    next
      case False
      then have q: "?S q = tl (?S p)" "at_pulse 844 tab (unat n) q" "unat (fst q) < unat n" using a(3) by (auto simp: at_pulse_def)
      obtain b r where b: "next_level 844 tab q = Inr (b, r)" "?S q = b # tl (?S q)"
        "if b = None then r = q else ?S r = tl (?S q) \<and> at_pulse 844 tab (unat n) r"
        using next_level_stream [OF q(2,3) assms(2,3)] by blast
      have "rc5_body tab n (p, d) = Inr (if a = Some False \<and> b = Some True then Next (r, push_bit 1 d OR 1)
          else if a = Some True \<and> b = Some False then Next (r, push_bit 1 d OR 0) else Return None)"
        using a(1) b(1) q(3) by (simp add: rc5_body_def)
      note body = this
      have Sp: "?S p = a # b # tl (?S q)" using a(2) b(2) q(1) by metis
      show ?thesis
      proof (cases "b = None")
        case None: True
        with Sp body True show ?thesis by (subst c_while_unfold) (simp add: flow_code_def)
      next
        case False
        then have r: "?S p = a # b # ?S r" "length (?S r) < length (?S p)" "at_pulse 844 tab (unat n) r"
          using b(3) by (simp_all add: Sp)
        note IH = less.hyps [OF r(2,3)]
        show ?thesis
          using True IH [of "push_bit 1 d OR 1"] IH [of "push_bit 1 d OR 0"]
          by (subst c_while_unfold) (auto simp: body r(1) flow_code_def option.map_comp comp_def)
      qed
    qed
  qed
qed


definition manchester :: "bool list \<Rightarrow> bool list" where
  "manchester bs = concat (map (\<lambda>b. if b then [False, True] else [True, False]) bs)"

lemma manchester_simps [simp]: "manchester [] = []" "manchester (b # bs) = (\<not> b) # b # manchester bs"
  by (simp_all add: manchester_def)

lemma manchester_Nil [simp]: "manchester bs = [] \<longleftrightarrow> bs = []"
  by (cases bs) simp_all

lemma rc5_pairs_iff:
  "rc5_pairs xs = Some bs \<longleftrightarrow> map Some (manchester bs) = xs \<or> map Some (manchester bs) = xs @ [Some False]"
proof (induction xs arbitrary: bs rule: rc5_pairs.induct)
  case 1
  then show ?case by (cases bs) auto
next
  case (2 a)
  then show ?case by (cases bs) auto
next
  case (3 a b xs)
  show ?case
  proof (cases bs)
    case (Cons c cs)
    with 3(1,2) [of cs] show ?thesis by (cases c) auto
  qed (use 3 in auto)
qed

lemma levels_length: "length ws \<le> length (levels c b ws)"
proof (induction ws arbitrary: b)
  case (Cons w ws)
  from Cons [of "\<not> b"] show ?case by (auto simp: Suc_le_eq)
qed simp

lemma read_level:
  assumes "at_pulse c tab n p" "stream c tab n p = x # xs" "n \<le> length tab" "n \<le> 255"
  shows "\<exists>q. next_level c tab p = Inr (x, q) \<and> (x \<noteq> None \<longrightarrow> stream c tab n q = xs \<and> at_pulse c tab n q)"
proof -
  have "unat (fst p) < n" using assms(1,2) stream_end [OF assms(1,3)] by (simp add: at_pulse_def)
  then obtain y q where "next_level c tab p = Inr (y, q)" "stream c tab n p = y # tl (stream c tab n p)"
    "if y = None then q = p else stream c tab n q = tl (stream c tab n p) \<and> at_pulse c tab n q"
    using next_level_stream [OF assms(1) _ assms(3,4)] by blast
  with assms(2) show ?thesis by (auto split: if_splits)
qed

lemma is_rc5_levels:
  assumes n: "unat n \<le> length tab" "unat n \<le> 255" and xs: "levels 844 True (take (unat n) tab) = x # y # z # xs"
  shows "is_rc5_protocol tab n = Inr (if 13 \<le> unat n \<and> x = Some True \<and> y = Some False \<and> z = Some True
    then map_option (\<lambda>bs. acc_bits bs 0) (rc5_pairs xs) else None)"
proof (cases "13 \<le> unat n")
  case True
  let ?S = "stream 844 tab (unat n)"
  have "at_pulse 844 tab (unat n) (0, 0)" "?S (0, 0) = x # y # z # xs" by (simp_all add: at_pulse_def stream_def xs)
  then obtain p where p: "next_level 844 tab (0, 0) = Inr (x, p)" "x \<noteq> None \<longrightarrow> ?S p = y # z # xs \<and> at_pulse 844 tab (unat n) p"
    using read_level [of 844 tab "unat n" "(0, 0)" x "y # z # xs"] n by blast
  show ?thesis
  proof (cases "x = Some True")
    case x: True
    then obtain q where q: "next_level 844 tab p = Inr (y, q)" "y \<noteq> None \<longrightarrow> ?S q = z # xs \<and> at_pulse 844 tab (unat n) q"
      using p(2) read_level [of 844 tab "unat n" p y "z # xs"] n by blast
    show ?thesis
    proof (cases "y = Some False")
      case y: True
      then obtain r where "next_level 844 tab q = Inr (z, r)" "z \<noteq> None \<longrightarrow> ?S r = xs \<and> at_pulse 844 tab (unat n) r"
        using q(2) read_level [of 844 tab "unat n" q z xs] n by blast
      with True x y p(1) q(1) rc5_loop [of tab n r 0] n show ?thesis by (auto simp: is_rc5_protocol_def)
    qed (use True x p(1) q(1) in \<open>auto simp: is_rc5_protocol_def\<close>)
  qed (use True p(1) in \<open>auto simp: is_rc5_protocol_def\<close>)
qed (simp add: is_rc5_protocol_def)

text \<open>
  C32 (equivalence). The RC5 recogniser accepts a table of at least 13 pulses exactly when its half bits are the Manchester code of
  two start bits and a list of data bits, without the leading half bit, which is a space and not recorded, and with or
  without a trailing space; it returns the data bits as a number. It never reads outside the table.
\<close>

theorem irc_rc5_exact:
  assumes "unat n \<le> length tab" "unat n \<le> 255"
  shows "\<exists>r. is_rc5_protocol tab n = Inr r \<and> (r = Some c \<longleftrightarrow> 13 \<le> unat n \<and> (\<exists>bs tr. acc_bits bs 0 = c \<and> (tr = [] \<or> tr = [Some False]) \<and>
    levels 844 True (take (unat n) tab) @ tr = map Some (tl (manchester (True # True # bs)))))"
proof (cases "13 \<le> unat n")
  case True
  then have "13 \<le> length (levels 844 True (take (unat n) tab))"
    using levels_length [of "take (unat n) tab" 844 True] assms(1) by simp
  then obtain x y z xs where xs: "levels 844 True (take (unat n) tab) = x # y # z # xs"
    by (auto simp: numeral_eq_Suc Suc_le_length_iff)
  show ?thesis
    using True rc5_pairs_iff [of xs] by (auto simp: is_rc5_levels [OF assms xs] xs)
qed (simp add: is_rc5_protocol_def)

section \<open>RC6\<close>

lemma next_level_step:
  assumes "at_pulse c tab n p" "unat (fst p) < n" "n \<le> length tab" "n \<le> 255"
  shows "\<exists>x q. next_level c tab p = Inr (x, q) \<and> unat (fst q) \<le> Suc (unat (fst p)) \<and> at_pulse c tab n q \<and>
    length (stream c tab n q) + (if x = None then 0 else 1) \<le> length (stream c tab n p)"
proof -
  obtain x q where q: "next_level c tab p = Inr (x, q)" "stream c tab n p = x # tl (stream c tab n p)"
    "if x = None then q = p else stream c tab n q = tl (stream c tab n p) \<and> at_pulse c tab n q"
    using next_level_stream [OF assms] by blast
  have "unat (off + 1) \<le> Suc (unat off)" for off :: u8 by (simp add: unat_word_ariths mod_less_eq_dividend)
  then have "unat (fst q) \<le> Suc (unat (fst p))"
    using q(1) assms(2,3)
    by (auto simp: next_level_def get_pulse_level_def Let_def arr_get_def split: prod.splits if_splits)
  moreover have "length (stream c tab n p) = Suc (length (tl (stream c tab n p)))" using arg_cong [OF q(2), of length] by simp
  ultimately show ?thesis using q(1,3) assms(1) by auto
qed

lemma rc6_half_step:
  assumes "at_pulse 444 tab n p" "Suc (unat (fst p)) < n" "n \<le> length tab" "n \<le> 255"
  shows "\<exists>a q. rc6_half tab i p = Inr (a, q) \<and> unat (fst q) \<le> unat (fst p) + 2 \<and> at_pulse 444 tab n q \<and>
    length (stream 444 tab n q) + (if a = None \<or> a = Some None then 0 else 1) \<le> length (stream 444 tab n p)"
proof -
  have lt: "unat (fst p) < n" using assms(2) by simp
  obtain x q where q: "next_level 444 tab p = Inr (x, q)" "unat (fst q) \<le> Suc (unat (fst p))" "at_pulse 444 tab n q"
    "length (stream 444 tab n q) + (if x = None then 0 else 1) \<le> length (stream 444 tab n p)"
    using next_level_step [OF assms(1) lt assms(3,4)] by blast
  show ?thesis
  proof (cases "i = 3")
    case True
    have "unat (fst q) < n" using q(2) assms(2) by simp
    then obtain y r where "next_level 444 tab q = Inr (y, r)" "unat (fst r) \<le> Suc (unat (fst q))" "at_pulse 444 tab n r"
      "length (stream 444 tab n r) + (if y = None then 0 else 1) \<le> length (stream 444 tab n q)"
      using next_level_step [OF q(3) _ assms(3,4)] by blast
    with True q show ?thesis by (auto simp: rc6_half_def)
  qed (use q in \<open>auto simp: rc6_half_def\<close>)
qed

lemma rc6_body_step:
  assumes "at_pulse 444 tab n p" "unat (fst p) + 3 < n" "n \<le> length tab" "n \<le> 255"
  shows "\<exists>x. rc6_body tab ((p, i), d) = Inr x \<and> (case x of Next s \<Rightarrow> at_pulse 444 tab n (fst (fst s)) \<and>
      length (stream 444 tab n (fst (fst s))) < length (stream 444 tab n p) | Break _ \<Rightarrow> True | Return r \<Rightarrow> True)"
proof -
  obtain a q where q: "rc6_half tab i p = Inr (a, q)" "unat (fst q) \<le> unat (fst p) + 2" "at_pulse 444 tab n q"
    "length (stream 444 tab n q) + (if a = None \<or> a = Some None then 0 else 1) \<le> length (stream 444 tab n p)"
    using rc6_half_step [OF assms(1) _ assms(3,4), of i] assms(2) by auto
  obtain b r where "rc6_half tab i q = Inr (b, r)" "at_pulse 444 tab n r"
    "length (stream 444 tab n r) + (if b = None \<or> b = Some None then 0 else 1) \<le> length (stream 444 tab n q)"
    using rc6_half_step [OF q(3) _ assms(3,4), of i] assms(2) q(2) by auto
  with q show ?thesis by (auto simp: rc6_body_def split: option.splits)
qed

text \<open>
  C35 (termination). The RC6 recogniser checks the end of the table only once per bit and reads up to three pulses past it. With at least three
  more entries in the buffer it returns and stays in bounds.
\<close>

theorem irc_rc6_returns:
  assumes "unat n + 3 \<le> length tab" "length tab \<le> 255"
  shows "\<exists>r. is_rc6_protocol tab n = Inr r"
proof (cases "15 \<le> unat n")
  case True
  let ?N = "length tab"
  have step: "\<exists>x q. next_level 444 tab p = Inr (x, q) \<and> at_pulse 444 tab ?N q \<and> unat (fst q) \<le> Suc (unat (fst p))"
    if "at_pulse 444 tab ?N p" "unat (fst p) < ?N" for p
    using next_level_step [OF that] assms(2) by blast
  have start: "at_pulse 444 tab ?N (2, 0)" "unat (fst (2 :: u8, 0 :: u8)) < ?N" using True assms(1) by (simp_all add: at_pulse_def)
  obtain x p where p: "next_level 444 tab (2, 0) = Inr (x, p)" "at_pulse 444 tab ?N p" "unat (fst p) \<le> 3"
    using step [OF start] by auto
  obtain y q where q: "next_level 444 tab p = Inr (y, q)" "at_pulse 444 tab ?N q"
    using step [OF p(2)] p(3) True assms(1) by auto
  have "\<exists>x. c_while (\<lambda>((p, i), data). unat (fst p) < unat n) (rc6_body tab) ((q, 0), 0) = Inr x \<and>
      (case x of Next _ \<Rightarrow> False | Break s \<Rightarrow> True | Return r \<Rightarrow> True)"
  proof (rule c_while_total [where I = "\<lambda>s. at_pulse 444 tab ?N (fst (fst s))" and m = "\<lambda>s. length (stream 444 tab ?N (fst (fst s)))"
        and Q = "\<lambda>_. True" and R = "\<lambda>_. True"])
    fix s :: "((u8 \<times> u8) \<times> u8) \<times> u32"
    obtain p i d where s: "s = ((p, i), d)" by (metis surj_pair)
    assume "at_pulse 444 tab ?N (fst (fst s))" "(\<lambda>((p, i), data). unat (fst p) < unat n) s"
    then have "at_pulse 444 tab ?N p" "unat (fst p) + 3 < ?N" using assms(1) by (simp_all add: s)
    from rc6_body_step [OF this order.refl assms(2), of i d]
    show "\<exists>x. rc6_body tab s = Inr x \<and> (case x of Next s' \<Rightarrow> at_pulse 444 tab ?N (fst (fst s')) \<and>
        length (stream 444 tab ?N (fst (fst s'))) < length (stream 444 tab ?N (fst (fst s)))
      | Break s' \<Rightarrow> True | Return r \<Rightarrow> True)" by (simp only: s fst_conv)
  qed (use q in auto)
  then show ?thesis
    using True assms(1) p q check_header_matches [of 0 "[2666, 889]" tab]
    by (auto simp: is_rc6_protocol_def simp del: check_header.simps)
qed (simp add: is_rc6_protocol_def)

text \<open>A table of 100 pulses, the capacity of the receive buffer, whose last bit is cut off.\<close>

definition rc6_cut_off :: "u16 list" where
  "rc6_cut_off = [2666, 889, 444, 444] @ [444, 888, 444, 444, 444, 888, 888] @ replicate 89 444"

lemma short_pulse:
  assumes "unat off < length tab" "tab ! unat off = 444"
  shows "next_level 444 tab (off, 0) = Inr (Some (even (unat off)), off + 1, 0)"
  using assms by (simp add: next_level_def arr_get_def get_pulse_level_def half_bits_def near_simps even_iff_mod_2_eq_zero)

lemma rc6_cut_off_tail:
  assumes "k \<le> 44" "3 < unat i" "unat i + k < 256"
  shows "c_while (\<lambda>((p, i), data). unat (fst p) < 100) (rc6_body rc6_cut_off) (((of_nat (99 - 2 * k), 0), i), d) = Inl Out_Of_Bounds"
  using assms
proof (induction k arbitrary: i d)
  case 0
  have "next_level 444 rc6_cut_off (99, 0) = Inr (Some False, 100, 0)"
    using short_pulse [of 99 rc6_cut_off] by (simp add: rc6_cut_off_def nth_append)
  moreover have "next_level 444 rc6_cut_off (100, 0) = Inl Out_Of_Bounds"
    by (simp add: next_level_def arr_get_def rc6_cut_off_def)
  moreover have "i \<noteq> 3" using 0 by auto
  ultimately show ?case by (subst c_while_unfold) (simp add: rc6_body_def rc6_half_def)
next
  case (Suc k)
  let ?o = "of_nat (99 - 2 * Suc k) :: u8"
  have o: "unat ?o = 97 - 2 * k" "unat (?o + 1) = 98 - 2 * k" "?o + 1 + 1 = of_nat (99 - 2 * k)"
  proof -
    have e: "99 - 2 * Suc k = 97 - 2 * k" "99 - 2 * k = Suc (Suc (97 - 2 * k))" using Suc.prems(1) by simp_all
    show u: "unat ?o = 97 - 2 * k" unfolding e(1) unat_of_nat by simp
    have "?o + 1 = of_nat (Suc (97 - 2 * k))" unfolding e(1) by simp
    then show "unat (?o + 1) = 98 - 2 * k" using Suc.prems(1) unat_of_nat [of "Suc (97 - 2 * k)", where 'a = 8] by simp
    show "?o + 1 + 1 = of_nat (99 - 2 * k)" unfolding e by simp
  qed
  have t: "length rc6_cut_off = 100" "m < 100 \<Longrightarrow> 11 \<le> m \<Longrightarrow> rc6_cut_off ! m = 444" for m
    by (auto simp: rc6_cut_off_def nth_append nth_Cons')
  have n: "next_level 444 rc6_cut_off (?o, 0) = Inr (Some False, ?o + 1, 0)"
    "next_level 444 rc6_cut_off (?o + 1, 0) = Inr (Some True, of_nat (99 - 2 * k), 0)"
    using short_pulse [of ?o rc6_cut_off] short_pulse [of "?o + 1" rc6_cut_off] t Suc.prems(1) unfolding o
    by auto
  have "i \<noteq> 3" "unat (i + 1) = Suc (unat i)" using Suc.prems(2,3) by (auto simp: unat_word_ariths)
  then have "rc6_body rc6_cut_off (((?o, 0), i), d) = Inr (Next (((of_nat (99 - 2 * k), 0), i + 1), push_bit 1 d OR 0))"
    "c_while (\<lambda>((p, i), data). unat (fst p) < 100) (rc6_body rc6_cut_off) (((of_nat (99 - 2 * k), 0), i + 1), push_bit 1 d OR 0) = Inl Out_Of_Bounds"
    using n Suc.IH [of "i + 1"] Suc.prems by (simp_all add: rc6_body_def rc6_half_def)
  then show ?case using o(1) by (subst c_while_unfold) simp
qed

text \<open>
  On a table that fills the receive buffer the RC6 recogniser can read past the end of the buffer: it reads the second half
  of the last bit of this table without checking that there is one.
\<close>

theorem irc_rc6_overread: "length rc6_cut_off = 100 \<and> is_rc6_protocol rc6_cut_off 100 = Inl Out_Of_Bounds"
proof -
  let ?w = "c_while (\<lambda>((p, i), data). unat (fst p) < 100) (rc6_body rc6_cut_off)"
  have tail: "?w (((11, 0), 4), d) = Inl Out_Of_Bounds" for d using rc6_cut_off_tail [of 44 4 d] by simp
  note defs = rc6_cut_off_def next_level_def arr_get_def get_pulse_level_def half_bits_def near_simps rc6_body_def rc6_half_def nth_append
  have b0: "rc6_body rc6_cut_off (((4, 0), 0), 0) = Inr (Next (((5, 1), 1), 1))" by (simp add: defs)
  have b1: "rc6_body rc6_cut_off (((5, 1), 1), d) = Inr (Next (((7, 0), 2), push_bit 1 d OR 0))" for d by (simp add: defs)
  have b2: "rc6_body rc6_cut_off (((7, 0), 2), d) = Inr (Next (((9, 0), 3), push_bit 1 d OR 0))" for d by (simp add: defs)
  have b3: "rc6_body rc6_cut_off (((9, 0), 3), d) = Inr (Next (((11, 0), 4), push_bit 1 d OR 0))" for d by (simp add: defs)
  have w3: "?w (((9, 0), 3), d) = Inl Out_Of_Bounds" for d by (subst c_while_unfold) (simp add: b3 tail del: push_bit_Suc)
  have w2: "?w (((7, 0), 2), d) = Inl Out_Of_Bounds" for d by (subst c_while_unfold) (simp add: b2 w3)
  have w1: "?w (((5, 1), 1), d) = Inl Out_Of_Bounds" for d by (subst c_while_unfold) (simp add: b1 w2)
  have w0: "?w (((4, 0), 0), 0) = Inl Out_Of_Bounds" by (subst c_while_unfold) (simp add: b0 w1)
  have "next_level 444 rc6_cut_off (2, 0) = Inr (Some True, 3, 0)" "next_level 444 rc6_cut_off (3, 0) = Inr (Some False, 4, 0)"
    "check_header rc6_cut_off 0 [2666, 889] = Inr True" "length rc6_cut_off = 100" by (simp_all add: defs)
  then show ?thesis by (simp add: is_rc6_protocol_def w0 del: check_header.simps)
qed

section \<open>Examples\<close>

theorem irc_pulse_recognisers_exact_witness:
  "let w = wave NEC (code_bits 32 (0x20DF10EF :: u32)) in is_nec_wave (w @ [7, 7]) 67 = Inr (Some 0x20DF10EF, w @ [7, 7])"
proof -
  let ?w = "wave NEC (code_bits 32 (0x20DF10EF :: u32))"
  have "segment NEC = None" "length (ldc NEC) = 2" by (simp_all add: NEC_def)
  then have "length (?w @ [7, 7]) = 69" "take 66 (?w @ [7, 7]) = butlast ?w" "drop 67 (?w @ [7, 7]) = [7, 7]"
    using take_wave [of "code_bits 32 (0x20DF10EF :: u32)" NEC "[7, 7]"] by simp_all
  then show ?thesis
    using irc_pulse_recognisers_exact [of "?w @ [7, 7]" 67 "0x20DF10EF" "?w @ [7, 7]"] nominal_formats(1)
    by (simp add: Let_def del: append_assoc)
qed


theorem irc_7461_undefined_witness:
  "is_7461_protocol (wave F7461 (code_bits 42 (5 :: u64))) 87 = Inl Bad_Shift"
proof -
  let ?w = "wave F7461 (code_bits 42 (5 :: u64))"
  have "matches (butlast ?w) (butlast ?w)" by (rule nominal_matches) (simp_all add: F7461_def near_simps matches_def)
  moreover have "length ?w = 87" "take 86 ?w = butlast ?w" by (simp_all add: F7461_def butlast_conv_take)
  moreover have "take_bit 42 (5 :: u64) = 5" by (simp add: take_bit_eq_mod)
  ultimately show ?thesis using irc_7461_undefined [of ?w 87] by auto
qed

definition tab_50560 :: "u16 list" where
  "tab_50560 = [8100, 3900] @ pulses F50560 (code_bits 8 (0x12 :: u32)) @ [1, 9999] @ pulses F50560 (code_bits 8 (0x34 :: u32)) @ [520]"

theorem irc_50560_exact_witness: "is_50560_protocol tab_50560 37 = Inr (Some 0x1234, tab_50560)"
proof -
  have "matches (pulses F50560 bs) (pulses F50560 bs)" for bs
    by (induction bs) (simp_all add: matches_def F50560_def near_simps)
  moreover have "take 16 (drop 2 tab_50560) = pulses F50560 (code_bits 8 (0x12 :: u32))"
    "take 16 (drop 20 tab_50560) = pulses F50560 (code_bits 8 (0x34 :: u32))" "length tab_50560 = 37"
    by (simp_all add: tab_50560_def del: code_bits_simps(3))
  moreover have "take 2 tab_50560 = [8100, 3900]" "matches [8000, 4000] [8100, 3900]"
    by (simp_all add: tab_50560_def take_Cons' matches_def near_simps)
  moreover have "code_bits 8 (drop_bit 8 0x1234 :: u32) = code_bits 8 (0x12 :: u32)" "code_bits 8 (0x1234 :: u32) = code_bits 8 (0x34 :: u32)"
    "take_bit 16 (0x1234 :: u32) = 0x1234" by code_simp+
  ultimately show ?thesis using irc_50560_exact [of tab_50560 37 "0x1234" tab_50560] by simp
qed

definition tab_rc5 :: "u16 list" where
  "tab_rc5 = [844, 844, 844, 844, 1688, 844, 844, 844, 844, 844, 844, 844, 844, 1688, 844]"

theorem irc_rc5_exact_witness: "is_rc5_protocol tab_rc5 15 = Inr (Some 0x41)"
proof -
  have "half_bits 844 844 = Suc 0" "half_bits 844 1688 = Suc (Suc 0)" by (simp_all add: half_bits_def near_simps)
  then have "levels 844 True (take 15 tab_rc5) @ [] = map Some (tl (manchester (True # True # [True, False, False, False, False, False, True])))"
    "acc_bits [True, False, False, False, False, False, True] 0 = (0x41 :: u32)"
    by (simp_all add: tab_rc5_def)
  moreover obtain r where "is_rc5_protocol tab_rc5 15 = Inr r" "r = Some 0x41 \<longleftrightarrow> 13 \<le> unat (15 :: u16) \<and>
    (\<exists>bs tr. acc_bits bs 0 = (0x41 :: u32) \<and> (tr = [] \<or> tr = [Some False]) \<and>
      levels 844 True (take (unat (15 :: u16)) tab_rc5) @ tr = map Some (tl (manchester (True # True # bs))))"
    using irc_rc5_exact [of 15 tab_rc5 "0x41"] by (auto simp: tab_rc5_def)
  moreover have "13 \<le> unat (15 :: u16)" "unat (15 :: u16) = 15" by simp_all
  ultimately show ?thesis by metis
qed

theorem irc_rc6_returns_witness: "\<exists>r. is_rc6_protocol (replicate 100 444) 50 = Inr r"
  using irc_rc6_returns [of 50 "replicate 100 444"] by simp

end
