(* ===== verification/Irc_Hal.thy ===== *)
theory Irc_Hal
  imports Irc_Protocol
begin

text \<open>
  Infrared learning (\<^verbatim>\<open>irc_hal.c\<close>, with \<open>CONFIG_IRC_SW_RX\<close> and \<open>CONFIG_NVRAM_CONFIG\<close>): the learning mode with its timer,
  the handler of received pulse tables, which stores them under the name of the key, and the replay of stored keys. The devices, the
  non-volatile memory and the application's callback are outside; the names of the keys (\<open>NV_KEY_MAPS\<close>) are a parameter.
\<close>

section \<open>State\<close>

datatype ir_learn_state = IR_LEARN_SUCCESS | IR_LEARN_FAILED | IR_LEARN_TIMEOUT | IR_LEARN_READY

datatype irc_event =
  Rx_Enable | Rx_Disable | Notify_Register | Notify_Unregister | Learn_Timer bool | Nv_Store string "u16 list" u16
| App_Cb ir_learn_state | Output_Key u16 u32 "(u16 list \<times> u16) option" | Output_Code u16 u32

text \<open>\<open>struct irc_handle\<close> and the static \<open>flash_pulse_tab\<close>; pointers and flags are truth values.\<close>

record irc_handle =
  irc_dev :: bool
  sw_irc_dev :: bool
  event_cb :: bool
  learn_mode_timer :: bool
  cur_learn_keycode :: u32
  cur_learn_state :: ir_learn_state
  has_set_learn_key :: bool
  sw_ir_learn_mode :: bool
  irc_state :: u8
  flash_tab :: "u16 list"
  flash_tab_len :: u16
  irc_out :: "irc_event list"

record irc_env =
  key_maps :: "(u16 \<times> string) list"
  nv_load :: "irc_event list \<Rightarrow> string \<Rightarrow> (u16 list \<times> u16) option"

abbreviation (input) "MAX_PULSE_LEN \<equiv> 100 :: nat"
abbreviation (input) "MIN_FIRST_CODE_NUM \<equiv> 20 :: nat"
abbreviation (input) "IR_KEY_DOWN \<equiv> 1 :: u8"

definition irc_do :: "irc_event \<Rightarrow> irc_handle \<Rightarrow> irc_handle" where
  "irc_do e s = s\<lparr>irc_out := irc_out s @ [e]\<rparr>"

definition start_learn_timer :: "irc_handle \<Rightarrow> irc_handle" where
  "start_learn_timer s = irc_do (Learn_Timer True) (s\<lparr>learn_mode_timer := True\<rparr>)"

definition stop_learn_timer :: "irc_handle \<Rightarrow> irc_handle" where
  "stop_learn_timer s = irc_do (Learn_Timer False) (s\<lparr>learn_mode_timer := False\<rparr>)"

section \<open>Operations\<close>

definition is_code :: "'a option \<Rightarrow> bool" where
  "is_code r \<longleftrightarrow> r \<noteq> None"

text \<open>The recognisers are tried in turn; those of the pulse-distance formats rewrite a table they accept.\<close>

definition check_irc_wave :: "u16 list \<Rightarrow> u16 \<Rightarrow> (ir_learn_state \<times> u16 list) res" where
  "check_irc_wave tab n =
     rbind (is_nec_wave tab n) (\<lambda>(r, tab). if is_code r then Inr (IR_LEARN_SUCCESS, tab)
     else rbind (is_9012_protocol tab n) (\<lambda>(r, tab). if is_code r then Inr (IR_LEARN_SUCCESS, tab)
     else rbind (is_rc5_protocol tab n) (\<lambda>r. if is_code r then Inr (IR_LEARN_SUCCESS, tab)
     else rbind (is_rc6_protocol tab n) (\<lambda>r. if is_code r then Inr (IR_LEARN_SUCCESS, tab)
     else rbind (is_7461_protocol tab n) (\<lambda>(r, tab). if is_code r then Inr (IR_LEARN_SUCCESS, tab)
     else rbind (is_50560_protocol tab n) (\<lambda>(r, tab). if is_code r then Inr (IR_LEARN_SUCCESS, tab)
     else rbind (is_50462_protocol tab n) (\<lambda>(r, tab). if is_code r then Inr (IR_LEARN_SUCCESS, tab)
     else Inr (IR_LEARN_FAILED, tab))))))))"

definition acts_get_nv_keycode :: "irc_env \<Rightarrow> u32 \<Rightarrow> string option" where
  "acts_get_nv_keycode env key_code = map_option snd (find (\<lambda>m. key_code = ucast (fst m)) (key_maps env))"

text \<open>A pulse table arrives; other formats of input are ignored.\<close>

definition irc_hal_event_handle :: "irc_env \<Rightarrow> u16 list \<Rightarrow> u16 \<Rightarrow> irc_handle \<Rightarrow> irc_handle res" where
  "irc_hal_event_handle env tab n s =
     (if \<not> has_set_learn_key s \<or> \<not> sw_ir_learn_mode s then Inr s
      else case acts_get_nv_keycode env (cur_learn_keycode s) of
        None \<Rightarrow> Inr s
      | Some nv_key \<Rightarrow>
          if unat n < MIN_FIRST_CODE_NUM then Inr s
          else rbind (check_irc_wave tab n) (\<lambda>(st, tab).
            let s = (start_learn_timer (stop_learn_timer s))\<lparr>cur_learn_state := st, flash_tab_len := n\<rparr> in
            rbind (mem_cpy (flash_tab s) 0 tab (unat n)) (\<lambda>ft.
            let s = irc_do (Nv_Store nv_key ft n) (s\<lparr>flash_tab := ft\<rparr>); s = s\<lparr>has_set_learn_key := False\<rparr> in
            Inr (if event_cb s then irc_do (App_Cb (cur_learn_state s)) s else s))))"

definition irc_device_open :: "bool \<Rightarrow> bool \<Rightarrow> irc_handle \<Rightarrow> bool \<times> irc_handle" where
  "irc_device_open dev sw_dev s =
     (let s = s\<lparr>irc_dev := dev\<rparr> in
      if \<not> dev then (False, s)
      else let s = s\<lparr>sw_irc_dev := sw_dev\<rparr> in if \<not> sw_dev then (False, s) else (True, s\<lparr>learn_mode_timer := False\<rparr>))"

definition irc_device_enable_rx :: "bool \<Rightarrow> irc_handle \<Rightarrow> irc_handle" where
  "irc_device_enable_rx cb s =
     (let s = irc_do Notify_Register ((irc_do Rx_Enable s)\<lparr>event_cb := cb\<rparr>) in
      start_learn_timer (s\<lparr>sw_ir_learn_mode := True, cur_learn_keycode := 0, has_set_learn_key := False\<rparr>))"

definition irc_device_disable_rx :: "irc_handle \<Rightarrow> irc_handle" where
  "irc_device_disable_rx s =
     (irc_do Notify_Unregister (irc_do Rx_Disable s))\<lparr>sw_ir_learn_mode := False, cur_learn_keycode := 0, has_set_learn_key := False\<rparr>"

definition notify_timeout :: "irc_handle \<Rightarrow> irc_handle" where
  "notify_timeout s = (if event_cb s then irc_do (App_Cb IR_LEARN_TIMEOUT) (s\<lparr>cur_learn_state := IR_LEARN_TIMEOUT\<rparr>) else s)"

definition irc_learn_timeout_event :: "irc_handle \<Rightarrow> irc_handle" where
  "irc_learn_timeout_event s =
     (let s = s\<lparr>learn_mode_timer := False\<rparr> in notify_timeout (if sw_ir_learn_mode s then irc_device_disable_rx s else s))"

definition irc_device_exit_learn_mode :: "irc_handle \<Rightarrow> irc_handle" where
  "irc_device_exit_learn_mode s = (if sw_ir_learn_mode s then notify_timeout (stop_learn_timer (irc_device_disable_rx s)) else s)"

definition irc_device_send_key :: "u32 \<Rightarrow> u8 \<Rightarrow> irc_handle \<Rightarrow> irc_handle" where
  "irc_device_send_key key_code key_state s = (irc_do (Output_Code (ucast key_code) (ucast key_state)) s)\<lparr>irc_state := key_state\<rparr>"

text \<open>
  In learning mode the key becomes the one to learn; the callback is called without a test for its presence. Otherwise the stored table is
  sent; when none is stored under the key the static table is sent as it is.
\<close>

definition irc_device_send_learn_key :: "irc_env \<Rightarrow> u32 \<Rightarrow> u8 \<Rightarrow> irc_handle \<Rightarrow> irc_handle res" where
  "irc_device_send_learn_key env key_code key_state s =
     (case acts_get_nv_keycode env key_code of
        None \<Rightarrow> Inr s
      | Some nv_key \<Rightarrow>
          if sw_ir_learn_mode s
          then if key_state = IR_KEY_DOWN
            then let s = (if \<not> has_set_learn_key s then start_learn_timer (stop_learn_timer s) else s);
                     s = s\<lparr>has_set_learn_key := True, cur_learn_keycode := key_code, cur_learn_state := IR_LEARN_READY\<rparr> in
              if event_cb s then Inr (irc_do (App_Cb IR_LEARN_READY) s) else Inl Null_Deref
            else Inr s
          else let s = (if key_state = IR_KEY_DOWN
                 then case nv_load env (irc_out s) nv_key of
                        Some (tab, n) \<Rightarrow> s\<lparr>flash_tab := tab, flash_tab_len := n\<rparr> | None \<Rightarrow> s
                 else s)
            in Inr ((irc_do (Output_Key (ucast key_code) (ucast key_state) (if key_state = IR_KEY_DOWN then Some (flash_tab s, flash_tab_len s) else None)) s)
                 \<lparr>irc_state := key_state\<rparr>))"

definition irc_device_state_get :: "irc_handle \<Rightarrow> u8" where
  "irc_device_state_get s = irc_state s"

section \<open>Learning and replaying\<close>

text \<open>The memory gives back the table that was stored last under a name.\<close>

fun store_val :: "string \<Rightarrow> irc_event \<Rightarrow> (u16 list \<times> u16) option \<Rightarrow> (u16 list \<times> u16) option" where
  "store_val name (Nv_Store k tab n) old = (if k = name then Some (tab, n) else old)"
| "store_val name _ old = old"

definition stored :: "irc_event list \<Rightarrow> string \<Rightarrow> (u16 list \<times> u16) option" where
  "stored es name = fold (store_val name) es None"

lemma stored_append [simp]: "stored (es @ [e]) name = store_val name e (stored es name)"
  by (simp add: stored_def)

lemma check_nec:
  fixes c :: u32
  assumes "67 \<le> length tab" "matches (butlast (wave NEC (code_bits 32 c))) (take 66 tab)"
  shows "check_irc_wave tab 67 = Inr (IR_LEARN_SUCCESS, wave NEC (code_bits 32 c) @ drop 67 tab)"
proof -
  have "is_nec_wave tab 67 = Inr (Some c, wave NEC (code_bits 32 c) @ drop 67 tab)"
    using nec.is_pulse_wave_iff [of tab 67 c] assms by (simp add: is_nec_wave_def)
  then show ?thesis by (simp add: check_irc_wave_def is_code_def)
qed

text \<open>A key is being learnt.\<close>

definition learning :: "u32 \<Rightarrow> irc_handle \<Rightarrow> bool" where
  "learning key s \<longleftrightarrow> sw_ir_learn_mode s \<and> has_set_learn_key s \<and> cur_learn_keycode s = key \<and> event_cb s \<and> length (flash_tab s) = MAX_PULSE_LEN"

lemma learn_stores:
  assumes "learning key s" "acts_get_nv_keycode env key = Some name" "20 \<le> unat n" "unat n \<le> 100"
    "check_irc_wave tab n = Inr (st, tab')" "unat n \<le> length tab'"
  shows "\<exists>t. irc_hal_event_handle env tab n s = Inr t \<and> cur_learn_state t = st \<and> \<not> has_set_learn_key t \<and> sw_ir_learn_mode t \<and> event_cb t \<and>
    stored (irc_out t) name = Some (take (unat n) tab' @ drop (unat n) (flash_tab s), n)"
proof -
  have "mem_cpy (flash_tab s) 0 tab' (unat n) = Inr (take (unat n) tab' @ drop (unat n) (flash_tab s))"
    using assms(1,4,6) by (simp add: mem_cpy_def learning_def)
  then show ?thesis
    using assms(1-3,5) stored_append [of _ "Nv_Store name x y" for x y]
    by (simp add: irc_hal_event_handle_def learning_def irc_do_def start_learn_timer_def stop_learn_timer_def stored_def Let_def)
qed

lemma exit_keeps_stored:
  assumes "sw_ir_learn_mode t"
  shows "stored (irc_out (irc_device_exit_learn_mode t)) = stored (irc_out t)" "\<not> sw_ir_learn_mode (irc_device_exit_learn_mode t)"
  using assms by (auto simp: irc_device_exit_learn_mode_def irc_device_disable_rx_def notify_timeout_def stop_learn_timer_def irc_do_def stored_def
    fun_eq_iff)

lemma press_sends:
  assumes "\<not> sw_ir_learn_mode t" "acts_get_nv_keycode env key = Some name" "nv_load env (irc_out t) name = Some (ft, n)"
  shows "irc_device_send_learn_key env key IR_KEY_DOWN t = Inr (t\<lparr>flash_tab := ft, flash_tab_len := n, irc_state := 1,
    irc_out := irc_out t @ [Output_Key (ucast key) 1 (Some (ft, n))]\<rparr>)"
  using assms by (simp add: irc_device_send_learn_key_def irc_do_def Let_def)

text \<open>
  C34 (functional). A key is learnt and replayed: when the table of a NEC code, with every pulse within 20 percent, is received for a key, and
  learning mode is left, pressing the key sends the nominal wave of the code, provided that the memory returns what was stored last.
\<close>

theorem irc_learn_replay:
  fixes c :: u32
  assumes "learning key s" "acts_get_nv_keycode env key = Some name" "\<And>es k. nv_load env es k = stored es k"
    "67 \<le> length tab" "matches (butlast (wave NEC (code_bits 32 c))) (take 66 tab)"
  shows "\<exists>t u ft. irc_hal_event_handle env tab 67 s = Inr t \<and> cur_learn_state t = IR_LEARN_SUCCESS \<and>
    irc_device_send_learn_key env key IR_KEY_DOWN (irc_device_exit_learn_mode t) = Inr u \<and>
    last (irc_out u) = Output_Key (ucast key) 1 (Some (ft, 67)) \<and> take 67 ft = wave NEC (code_bits 32 c)"
proof -
  let ?w = "wave NEC (code_bits 32 c)"
  let ?ft = "?w @ drop 67 (flash_tab s)"
  have l: "length ?w = 67" by (simp add: format_defs)
  obtain t where t: "irc_hal_event_handle env tab 67 s = Inr t" "cur_learn_state t = IR_LEARN_SUCCESS" "sw_ir_learn_mode t"
    "stored (irc_out t) name = Some (?ft, 67)"
    using learn_stores [OF assms(1,2) _ _ check_nec [OF assms(4,5)]] l by auto
  have "nv_load env (irc_out (irc_device_exit_learn_mode t)) name = Some (?ft, 67)"
    using exit_keeps_stored(1) [OF t(3)] t(4) assms(3) by simp
  then obtain u where "irc_device_send_learn_key env key IR_KEY_DOWN (irc_device_exit_learn_mode t) = Inr u"
    "last (irc_out u) = Output_Key (ucast key) 1 (Some (?ft, 67))"
    using press_sends [OF exit_keeps_stored(2) [OF t(3)] assms(2)] by simp
  moreover have "take 67 ?ft = ?w" using l by simp
  ultimately show ?thesis using t(1,2) by blast
qed

definition one_key :: irc_env where
  "one_key = \<lparr>key_maps = [(7, ''KEY_A''), (8, ''KEY_B'')], nv_load = stored\<rparr>"

definition irc_boot :: irc_handle where
  "irc_boot = \<lparr>irc_dev = False, sw_irc_dev = False, event_cb = False, learn_mode_timer = False, cur_learn_keycode = 0,
     cur_learn_state = IR_LEARN_SUCCESS, has_set_learn_key = False, sw_ir_learn_mode = False, irc_state = 0,
     flash_tab = replicate MAX_PULSE_LEN 0, flash_tab_len = 0, irc_out = []\<rparr>"

lemma one_key_names: "acts_get_nv_keycode one_key 7 = Some ''KEY_A''" "acts_get_nv_keycode one_key 8 = Some ''KEY_B''"
  by code_simp+

theorem irc_learn_replay_witness:
  "\<exists>s t u ft. irc_device_send_learn_key one_key 7 1 (irc_device_enable_rx True (snd (irc_device_open True True irc_boot))) = Inr s \<and>
    irc_hal_event_handle one_key (wave NEC (code_bits 32 (0x00FF12ED :: u32)) @ replicate 33 0) 67 s = Inr t \<and>
    irc_device_send_learn_key one_key 7 1 (irc_device_exit_learn_mode t) = Inr u \<and>
    last (irc_out u) = Output_Key 7 1 (Some (ft, 67)) \<and> take 67 ft = wave NEC (code_bits 32 (0x00FF12ED :: u32))"
proof -
  let ?w = "wave NEC (code_bits 32 (0x00FF12ED :: u32))"
  obtain s where s: "irc_device_send_learn_key one_key 7 1 (irc_device_enable_rx True (snd (irc_device_open True True irc_boot))) = Inr s"
    "learning 7 s"
    by (simp add: irc_device_send_learn_key_def one_key_names irc_device_enable_rx_def irc_device_open_def irc_boot_def start_learn_timer_def
      stop_learn_timer_def irc_do_def learning_def Let_def)
  have "take 66 (?w @ replicate 33 0) = butlast ?w"
    using take_wave(1) [of "code_bits 32 (0x00FF12ED :: u32)" NEC "replicate 33 0", OF _ nec.no_segment] by simp
  then have "matches (butlast ?w) (take 66 (?w @ replicate 33 0))" using nominal_formats(1) by simp
  moreover have "67 \<le> length (?w @ replicate 33 0)" by (simp add: format_defs)
  moreover have "nv_load one_key es k = stored es k" for es k by (simp add: one_key_def)
  ultimately show ?thesis using irc_learn_replay [OF s(2) one_key_names(1)] s(1) by fastforce
qed

text \<open>
  Pressing a key that was never learnt sends a table all the same, the one of the key that was handled last: a failed read of the
  memory is only not reported.
\<close>

theorem irc_unlearnt_key_sends_last:
  assumes "\<not> sw_ir_learn_mode t" "acts_get_nv_keycode env key = Some name" "acts_get_nv_keycode env other = Some name'"
    "\<And>es k. nv_load env es k = stored es k" "stored (irc_out t) name = Some (ft, n)" "stored (irc_out t) name' = None"
  shows "\<exists>u v. irc_device_send_learn_key env key IR_KEY_DOWN t = Inr u \<and> irc_device_send_learn_key env other IR_KEY_DOWN u = Inr v \<and>
    last (irc_out v) = Output_Key (ucast other) 1 (Some (ft, n))"
proof -
  let ?u = "t\<lparr>flash_tab := ft, flash_tab_len := n, irc_state := 1, irc_out := irc_out t @ [Output_Key (ucast key) 1 (Some (ft, n))]\<rparr>"
  have "irc_device_send_learn_key env key IR_KEY_DOWN t = Inr ?u" using assms(4,5) by (intro press_sends [OF assms(1,2)]) simp
  moreover have "\<exists>v. irc_device_send_learn_key env other IR_KEY_DOWN ?u = Inr v \<and> last (irc_out v) = Output_Key (ucast other) 1 (Some (ft, n))"
    using assms(1,3,4,6) by (simp add: irc_device_send_learn_key_def irc_do_def Let_def)
  ultimately show ?thesis by blast
qed


theorem irc_unlearnt_key_sends_last_witness:
  "\<exists>u v. irc_device_send_learn_key one_key 7 1 (irc_boot\<lparr>irc_out := [Nv_Store ''KEY_A'' [5, 6] 2]\<rparr>) = Inr u \<and>
    irc_device_send_learn_key one_key 8 1 u = Inr v \<and> last (irc_out v) = Output_Key 8 1 (Some ([5, 6], 2))"
proof -
  let ?t = "irc_boot\<lparr>irc_out := [Nv_Store ''KEY_A'' [5, 6] 2]\<rparr>"
  have "\<not> sw_ir_learn_mode ?t" "stored (irc_out ?t) ''KEY_A'' = Some ([5, 6], 2)" "stored (irc_out ?t) ''KEY_B'' = None"
    "nv_load one_key es k = stored es k" for es k by (simp_all add: irc_boot_def stored_def one_key_def)
  then show ?thesis using irc_unlearnt_key_sends_last [OF _ one_key_names, of ?t "[5, 6]" 2] by simp
qed

end
