(* ===== verification/Led.thy ===== *)
theory Led
  imports Prelude
begin

unbundle bit_operations_syntax

text \<open>
  The LED layer (\<^verbatim>\<open>hal/led_hal.c\<close>, \<^verbatim>\<open>framework/led_manager.c\<close>), with LEDs on GPIO pins and on PWM channels: several users may ask one LED to be on
  or to blink, each with its own period, and the LED shows the fastest period asked for. The calls of the drivers, of the timer and of the
  interrupt lock are recorded in the order in which they happen.
\<close>

section \<open>State\<close>

abbreviation (input) "MAX_BLINK_NUM \<equiv> 4 :: nat"
abbreviation (input) "NONE_PWM_CHAN \<equiv> 0xFF :: u8"
abbreviation (input) "LED_ON \<equiv> 0 :: u8"
abbreviation (input) "LED_OFF \<equiv> 1 :: u8"
abbreviation (input) "GPIO_CTL_PULLUP \<equiv> 0x100 :: u32"
abbreviation (input) "GPIO_CTL_PULLDOWN \<equiv> 0x200 :: u32"

datatype led_call =
  Irq_Lock | Irq_Unlock | Gpio_Write u8 u32 | Gpio_Output u8 bool | Gpio_Input u8 | Pinmux_Set u8 u32 | Pwm_Set_Cycles u8 u32 u32 | Pwm_Pol_Set u8 u8
| Blink_Timer_Init | Blink_Timer_Start u32 u32 | Blink_Timer_Stop

record led_config =
  cfg_pin :: u8
  cfg_pwm :: u8
  cfg_pol :: u8

record led_device =
  led_dev :: bool
  blink_state :: u8
  led_pin :: u8
  led_pwm :: u8
  led_pol :: u8
  led_state :: u8
  on_mask :: u32
  blink_period :: "u32 list"
  led_out :: "led_call list"

definition led_do :: "led_call list \<Rightarrow> led_device \<Rightarrow> led_device" where
  "led_do cs led = led\<lparr>led_out := led_out led @ cs\<rparr>"

definition on_bit :: "nat \<Rightarrow> u32" where
  "on_bit i = push_bit i 1"

section \<open>Operations\<close>

definition led_blink_event :: "led_device \<Rightarrow> led_device" where
  "led_blink_event led =
     (let led = led\<lparr>blink_state := (if blink_state led = 0 then 1 else 0)\<rparr> in
      led_do [Gpio_Write (led_pin led) (if led_pol led = 0 then ucast (blink_state led) else if blink_state led = 0 then 1 else 0)] led)"

definition get_led_status :: "led_device \<Rightarrow> u8" where
  "get_led_status led = led_state led"

text \<open>\<open>memset\<close> clears four bytes, which is the first of the four periods.\<close>

definition reset_led_state :: "led_device \<Rightarrow> led_device" where
  "reset_led_state led =
     (let led = led\<lparr>on_mask := 0, blink_period := (blink_period led)[0 := 0]\<rparr> in
      if led_pwm led = NONE_PWM_CHAN then led_do [Blink_Timer_Stop] led else led)"

definition led_device_init :: "bool \<Rightarrow> bool \<Rightarrow> led_config \<Rightarrow> led_device \<Rightarrow> led_device" where
  "led_device_init pwm_dev gpio_dev cfg led =
     (let cfg_led = (\<lambda>led. led\<lparr>led_pin := cfg_pin cfg, led_pwm := cfg_pwm cfg, led_pol := cfg_pol cfg\<rparr>) in
      if cfg_pwm cfg \<noteq> NONE_PWM_CHAN
      then let led = led\<lparr>led_dev := pwm_dev\<rparr> in
        if \<not> pwm_dev then led
        else reset_led_state ((led_do [Pwm_Pol_Set (cfg_pwm cfg) (cfg_pol cfg)] (cfg_led led))\<lparr>on_mask := 0\<rparr>)
      else let led = led\<lparr>led_dev := gpio_dev\<rparr> in
        if \<not> gpio_dev then led
        else reset_led_state (led_do [Gpio_Output (cfg_pin cfg) (cfg_pol cfg \<noteq> 0)] ((cfg_led (led_do [Blink_Timer_Init] led))\<lparr>on_mask := 0\<rparr>)))"

text \<open>The index, or nothing where the code returns \<open>-1\<close>.\<close>

definition find_blink_period :: "led_device \<Rightarrow> u32 \<Rightarrow> nat option" where
  "find_blink_period led p = find (\<lambda>i. p = blink_period led ! i) [0..<MAX_BLINK_NUM]"

definition select_fast_blink_period :: "led_device \<Rightarrow> u32" where
  "select_fast_blink_period led =
     (let ref_val = fold (\<lambda>p r. if p \<noteq> 0 \<and> r > p then p else r) (blink_period led) 0xFFFF in
      if ref_val = 0xFFFF then 0 else ref_val)"

definition clear_on_state :: "u32 \<Rightarrow> led_device \<Rightarrow> led_device" where
  "clear_on_state p led =
     (if p = 0 then led\<lparr>on_mask := on_mask led AND NOT (on_bit MAX_BLINK_NUM)\<rparr>
      else case find_blink_period led p of
        Some i \<Rightarrow> led\<lparr>blink_period := (blink_period led)[i := 0], on_mask := on_mask led AND NOT (on_bit i)\<rparr>
      | None \<Rightarrow> led)"

definition set_on_state :: "u32 \<Rightarrow> led_device \<Rightarrow> led_device" where
  "set_on_state p led =
     (if p = 0 then led\<lparr>on_mask := on_mask led OR on_bit MAX_BLINK_NUM\<rparr>
      else if find_blink_period led p = None
      then case find (\<lambda>i. blink_period led ! i = 0) [0..<MAX_BLINK_NUM] of
        Some i \<Rightarrow> led\<lparr>blink_period := (blink_period led)[i := p], on_mask := on_mask led OR on_bit i\<rparr>
      | None \<Rightarrow> led
      else led)"

text \<open>An unknown state returns with the interrupts locked.\<close>

definition set_led_status :: "u8 \<Rightarrow> u32 \<Rightarrow> led_device \<Rightarrow> led_device" where
  "set_led_status st p led =
     (let led = led_do [Irq_Lock] led in
      if st \<noteq> LED_ON \<and> st \<noteq> LED_OFF then led
      else
        let led = (if st = LED_ON then set_on_state p led else clear_on_state p led);
            st = (if st = LED_OFF \<and> on_mask led \<noteq> 0 then LED_ON else st);
            led = led\<lparr>led_state := st\<rparr>;
            led = (if st = LED_ON
              then let period = select_fast_blink_period led in
                if period = 0
                then if led_pwm led \<noteq> NONE_PWM_CHAN then led_do [Pinmux_Set (led_pin led) 2, Pwm_Set_Cycles (led_pwm led) 10 9] led
                  else led_do [Blink_Timer_Stop, Gpio_Write (led_pin led) (ucast LED_ON)] led
                else let led = led\<lparr>blink_state := 0\<rparr> in
                  if led_pwm led \<noteq> NONE_PWM_CHAN
                  then led_do [Pinmux_Set (led_pin led) 2, Pwm_Set_Cycles (led_pwm led) period (period div 2)] led
                  else led_do [Blink_Timer_Stop, Blink_Timer_Start (period div 2) (period div 2)] led
              else if led_pwm led \<noteq> NONE_PWM_CHAN
              then led_do [Pwm_Set_Cycles (led_pwm led) 10 0,
                     Pinmux_Set (led_pin led) (if led_pol led \<noteq> 0 then GPIO_CTL_PULLDOWN else GPIO_CTL_PULLUP)] led
              else led_do [Blink_Timer_Stop, Gpio_Write (led_pin led) (ucast LED_OFF)] led)
        in led_do [Irq_Unlock] led)"

definition led_device_uninit :: "led_device \<Rightarrow> led_device" where
  "led_device_uninit led = led_do [Gpio_Input (led_pin led)] led"

section \<open>The manager\<close>

text \<open>The configured LEDs are a list; of several entries with the same pin the last is used.\<close>

definition led_manager_init :: "bool \<Rightarrow> bool \<Rightarrow> led_config list \<Rightarrow> led_device list \<Rightarrow> led_device list" where
  "led_manager_init pwm_dev gpio_dev cfgs leds = map2 (led_device_init pwm_dev gpio_dev) cfgs leds"

definition led_manager_uninit :: "led_device list \<Rightarrow> led_device list" where
  "led_manager_uninit leds = map led_device_uninit leds"

definition led_set_state :: "int \<Rightarrow> s32 \<Rightarrow> s32 \<Rightarrow> led_device list \<Rightarrow> led_device list" where
  "led_set_state led_id st p leds =
     (case find (\<lambda>i. uint (led_pin (leds ! i)) = led_id) (rev [0..<length leds]) of
        Some i \<Rightarrow> leds[i := set_led_status (ucast st) p (leds ! i)]
      | None \<Rightarrow> leds)"

section \<open>What an LED shows\<close>

text \<open>The requests that an LED keeps, with zero for a steady light, and what it should show.\<close>

definition led_requests :: "led_device \<Rightarrow> u32 set" where
  "led_requests led = (set (blink_period led) - {0}) \<union> (if bit (on_mask led) MAX_BLINK_NUM then {0} else {})"

datatype led_display = Dark | Steady | Blink u32

definition display :: "u32 set \<Rightarrow> led_display" where
  "display R = (if R = {} then Dark else if R - {0} = {} then Steady else Blink (Min (R - {0})))"

fun shown :: "led_device \<Rightarrow> led_display \<Rightarrow> led_call list" where
  "shown led Dark = (if led_pwm led \<noteq> NONE_PWM_CHAN
     then [Pwm_Set_Cycles (led_pwm led) 10 0, Pinmux_Set (led_pin led) (if led_pol led \<noteq> 0 then GPIO_CTL_PULLDOWN else GPIO_CTL_PULLUP)]
     else [Blink_Timer_Stop, Gpio_Write (led_pin led) 1])"
| "shown led Steady = (if led_pwm led \<noteq> NONE_PWM_CHAN
     then [Pinmux_Set (led_pin led) 2, Pwm_Set_Cycles (led_pwm led) 10 9]
     else [Blink_Timer_Stop, Gpio_Write (led_pin led) 0])"
| "shown led (Blink p) = (if led_pwm led \<noteq> NONE_PWM_CHAN
     then [Pinmux_Set (led_pin led) 2, Pwm_Set_Cycles (led_pwm led) p (p div 2)]
     else [Blink_Timer_Stop, Blink_Timer_Start (p div 2) (p div 2)])"

definition led_ok :: "led_device \<Rightarrow> bool" where
  "led_ok led \<longleftrightarrow> length (blink_period led) = 4 \<and> (\<forall>i<4. bit (on_mask led) i \<longleftrightarrow> blink_period led ! i \<noteq> 0) \<and> (\<forall>i>4. \<not> bit (on_mask led) i) \<and>
     (\<forall>i<4. \<forall>j<4. blink_period led ! i = blink_period led ! j \<longrightarrow> i = j \<or> blink_period led ! i = 0) \<and> (\<forall>p\<in>set (blink_period led). p < 0xFFFF)"

lemma on_bit_iff: "i < 32 \<Longrightarrow> bit (m OR on_bit i) n \<longleftrightarrow> bit m n \<or> n = i" "i < 32 \<Longrightarrow> bit (m AND NOT (on_bit i)) n \<longleftrightarrow> bit m n \<and> n \<noteq> i"
  using bit_imp_le_length [of m n] by (auto simp: on_bit_def bit_simps)

lemma on_mask_zero: "led_ok led \<Longrightarrow> on_mask led = 0 \<longleftrightarrow> led_requests led = {}"
proof -
  assume ok: "led_ok led"
  have "on_mask led = 0 \<longleftrightarrow> (\<forall>i\<le>4. \<not> bit (on_mask led) i)"
    using ok by (auto simp: led_ok_def bit_eq_iff) (metis linorder_not_less)
  also have "\<dots> \<longleftrightarrow> (\<forall>i<4. blink_period led ! i = 0) \<and> \<not> bit (on_mask led) 4"
    using ok by (auto simp: led_ok_def le_less)
  also have "(\<forall>i<4. blink_period led ! i = 0) \<longleftrightarrow> set (blink_period led) - {0} = {}"
    using ok by (simp add: led_ok_def set_conv_nth subset_iff) auto
  finally show ?thesis by (auto simp: led_requests_def)
qed

lemma Min_insert_min: "finite S \<Longrightarrow> Min (insert p (insert r S)) = Min (insert (min p r) S)" for p r :: u32
  by (cases "S = {}") (simp_all add: min.assoc)

lemma fold_min: "fold (\<lambda>p r. if p \<noteq> 0 \<and> r > p then p else r) ps (r :: u32) = Min (insert r (set ps - {0}))"
proof (induction ps arbitrary: r)
  case (Cons p ps)
  have "Min (insert (if p \<noteq> 0 \<and> r > p then p else r) (set ps - {0})) = Min (insert r (set (p # ps) - {0}))"
  proof (cases "p = 0")
    case False
    then have "insert r (set (p # ps) - {0}) = insert p (insert r (set ps - {0}))" by auto
    moreover have "(if p \<noteq> 0 \<and> r > p then p else r) = min p r" using False by (auto simp: min_def)
    ultimately show ?thesis using Min_insert_min [of "set ps - {0}" p r] by simp
  qed simp
  then show ?case using Cons by simp
qed simp

lemma select_display:
  assumes "led_ok led"
  shows "select_fast_blink_period led = (if led_requests led - {0} = {} then 0 else Min (led_requests led - {0}))"
proof -
  define S where "S = set (blink_period led) - {0}"
  have S: "finite S" "led_requests led - {0} = S" "\<And>p. p \<in> S \<Longrightarrow> p < 0xFFFF" using assms by (auto simp: S_def led_requests_def led_ok_def)
  have sel: "select_fast_blink_period led = (if Min (insert 0xFFFF S) = 0xFFFF then 0 else Min (insert 0xFFFF S))"
    by (simp add: select_fast_blink_period_def fold_min S_def Let_def)
  show ?thesis
  proof (cases "S = {}")
    case False
    then have less: "Min S < 0xFFFF" using S(1,3) Min_in by blast
    have "Min (insert 0xFFFF S) = min 0xFFFF (Min S)" using False S(1) by (intro Min_insert)
    also have "\<dots> = Min S" using less by (intro min_absorb2) simp
    finally have "Min (insert 0xFFFF S) = Min S" .
    moreover have "Min S \<noteq> 0xFFFF" using less by (metis less_irrefl)
    ultimately show ?thesis using False sel S(2) by metis
  qed (simp add: sel S(2))
qed

lemma find_upt_Some: "find P [0..<n] = Some i \<Longrightarrow> i < n \<and> P i"
  by (auto simp: find_Some_iff)

lemma find_upt_None: "find P [0..<n] = None \<longleftrightarrow> (\<forall>i<n. \<not> P i)"
  by (auto simp: find_None_iff)

lemma in_update: "i < length xs \<Longrightarrow> x \<noteq> z \<Longrightarrow> x \<in> set (xs[i := z]) \<longleftrightarrow> (\<exists>j<length xs. j \<noteq> i \<and> xs ! j = x)"
  by (auto simp: in_set_conv_nth nth_list_update)

text \<open>Changing one entry and its bit.\<close>

lemma led_ok_update:
  assumes "led_ok led" "i < 4" "q < 0xFFFF" "\<And>j. j < 4 \<Longrightarrow> j \<noteq> i \<Longrightarrow> blink_period led ! j = q \<Longrightarrow> q = 0"
    "\<And>n. bit m n \<longleftrightarrow> (if n = i then q \<noteq> 0 else bit (on_mask led) n)"
  shows "led_ok (led\<lparr>blink_period := (blink_period led)[i := q], on_mask := m\<rparr>)"
proof -
  let ?bp = "(blink_period led)[i := q]"
  have l: "length (blink_period led) = 4" using assms(1) by (simp add: led_ok_def)
  have nth: "?bp ! j = (if j = i then q else blink_period led ! j)" if "j < 4" for j using that l by (simp add: nth_list_update)
  have "bit m j \<longleftrightarrow> ?bp ! j \<noteq> 0" if "j < 4" for j using that assms(1,5) nth by (simp add: led_ok_def)
  moreover have "\<not> bit m j" if "4 < j" for j using that assms(1,2,5) by (simp add: led_ok_def)
  moreover have "j = k \<or> ?bp ! j = 0" if "j < 4" "k < 4" "?bp ! j = ?bp ! k" for j k
    using that assms(1,4) nth [OF that(1)] nth [OF that(2)] by (auto simp: led_ok_def split: if_splits)
  moreover have "p < 0xFFFF" if "p \<in> set ?bp" for p
    using that set_update_subset_insert [of "blink_period led" i q] assms(1,3) by (auto simp: led_ok_def)
  ultimately show ?thesis using l unfolding led_ok_def by simp
qed

lemma clear_requests:
  assumes "led_ok led"
  shows "led_ok (clear_on_state p led)" "led_requests (clear_on_state p led) = led_requests led - {p}"
proof -
  have l: "length (blink_period led) = 4" using assms by (simp add: led_ok_def)
  have "led_ok (clear_on_state p led) \<and> led_requests (clear_on_state p led) = led_requests led - {p}"
  proof (cases "p = 0")
    case True
    then show ?thesis using assms by (auto simp: clear_on_state_def led_ok_def led_requests_def on_bit_iff)
  next
    case False
    show ?thesis
    proof (cases "find_blink_period led p")
      case None
      then have "p \<notin> set (blink_period led)" using l by (auto simp: find_blink_period_def find_upt_None in_set_conv_nth)
      then show ?thesis using assms False None by (simp add: clear_on_state_def led_requests_def)
    next
      case (Some i)
      then have i: "i < 4" "blink_period led ! i = p" using find_upt_Some by (auto simp: find_blink_period_def)
      have other: "blink_period led ! j = p \<longleftrightarrow> j = i" if "j < 4" for j using assms that i False unfolding led_ok_def by metis
      have "x \<in> set ((blink_period led)[i := 0]) \<longleftrightarrow> x \<in> set (blink_period led) \<and> x \<noteq> p" if "x \<noteq> 0" for x
      proof -
        have "x \<in> set ((blink_period led)[i := 0]) \<longleftrightarrow> (\<exists>j<4. j \<noteq> i \<and> blink_period led ! j = x)" using in_update [of i "blink_period led" x 0] that i l by simp
        moreover have "x \<in> set (blink_period led) \<longleftrightarrow> (\<exists>j<4. blink_period led ! j = x)" using l by (simp add: in_set_conv_nth)
        ultimately show ?thesis using other by metis
      qed
      then have "set ((blink_period led)[i := 0]) - {0} = set (blink_period led) - {0} - {p}" by blast
      moreover have "led_ok (led\<lparr>blink_period := (blink_period led)[i := 0], on_mask := on_mask led AND NOT (on_bit i)\<rparr>)"
        using i by (intro led_ok_update [OF assms]) (auto simp: on_bit_iff)
      moreover have "bit (on_mask led AND NOT (on_bit i)) 4 \<longleftrightarrow> bit (on_mask led) 4" using i(1) by (simp add: on_bit_iff)
      moreover have "clear_on_state p led = led\<lparr>blink_period := (blink_period led)[i := 0], on_mask := on_mask led AND NOT (on_bit i)\<rparr>"
        using False Some by (simp add: clear_on_state_def)
      ultimately show ?thesis using False by (auto simp: led_requests_def)
    qed
  qed
  then show "led_ok (clear_on_state p led)" "led_requests (clear_on_state p led) = led_requests led - {p}" by simp_all
qed

text \<open>With four periods in use at most, there is an entry for one that has none.\<close>

lemma free_entry:
  assumes "led_ok led" "finite P" "card P \<le> 4" "led_requests led \<subseteq> insert 0 P" "p \<in> P" "p \<notin> set (blink_period led)"
  shows "\<exists>i. find (\<lambda>i. blink_period led ! i = 0) [0..<4] = Some i"
proof (rule ccontr)
  assume "\<not> ?thesis"
  then have nz: "\<forall>i<4. blink_period led ! i \<noteq> 0" using find_upt_None [of "\<lambda>i. blink_period led ! i = 0" 4] by auto
  have l: "length (blink_period led) = 4" using assms(1) by (simp add: led_ok_def)
  have "distinct (blink_period led)" using assms(1) nz l unfolding distinct_conv_nth led_ok_def by metis
  then have c: "card (set (blink_period led)) = 4" using l by (simp add: distinct_card)
  have "0 \<notin> set (blink_period led)" using nz l by (auto simp: in_set_conv_nth)
  then have "insert p (set (blink_period led)) \<subseteq> P" using assms(4,5) by (auto simp: led_requests_def)
  then have "card (insert p (set (blink_period led))) \<le> card P" using assms(2) by (intro card_mono)
  then show False using c assms(3,6) by simp
qed

lemma set_requests:
  assumes "led_ok led" "p < 0xFFFF" "finite P" "card P \<le> 4" "led_requests led \<subseteq> insert 0 P" "p \<in> insert 0 P" "0 \<notin> P"
  shows "led_ok (set_on_state p led)" "led_requests (set_on_state p led) = insert p (led_requests led)"
proof -
  have l: "length (blink_period led) = 4" using assms by (simp add: led_ok_def)
  have "led_ok (set_on_state p led) \<and> led_requests (set_on_state p led) = insert p (led_requests led)"
  proof (cases "p = 0")
    case True
    then show ?thesis using assms(1) by (auto simp: set_on_state_def led_ok_def led_requests_def on_bit_iff)
  next
    case p: False
    show ?thesis
    proof (cases "find_blink_period led p")
      case (Some i)
      then have "p \<in> set (blink_period led)" using find_upt_Some l by (force simp: find_blink_period_def in_set_conv_nth)
      then show ?thesis using assms(1) p Some by (auto simp: set_on_state_def led_requests_def)
    next
      case None
      then have new: "j < 4 \<Longrightarrow> blink_period led ! j \<noteq> p" for j by (auto simp: find_blink_period_def find_upt_None)
      then have "p \<notin> set (blink_period led)" using l by (auto simp: in_set_conv_nth)
      then obtain i where f: "find (\<lambda>i. blink_period led ! i = 0) [0..<4] = Some i" using free_entry [OF assms(1,3,4,5)] assms(6) p by blast
      then have i: "i < 4" "blink_period led ! i = 0" using find_upt_Some [OF f] by simp_all
      have "x \<in> set ((blink_period led)[i := p]) \<longleftrightarrow> x \<in> set (blink_period led) \<or> x = p" if "x \<noteq> 0" for x
      proof (cases "x = p")
        case True
        then show ?thesis using set_update_memI [of i "blink_period led" p] i l by simp
      next
        case False
        then have "x \<in> set ((blink_period led)[i := p]) \<longleftrightarrow> (\<exists>j<4. j \<noteq> i \<and> blink_period led ! j = x)"
          using in_update [of i "blink_period led" x p] i l by simp
        moreover have "x \<in> set (blink_period led) \<longleftrightarrow> (\<exists>j<4. blink_period led ! j = x)" using l by (simp add: in_set_conv_nth)
        ultimately show ?thesis using i(2) that False by metis
      qed
      then have "set ((blink_period led)[i := p]) - {0} = insert p (set (blink_period led) - {0})" using p by blast
      moreover have "led_ok (led\<lparr>blink_period := (blink_period led)[i := p], on_mask := on_mask led OR on_bit i\<rparr>)"
        using i new p by (intro led_ok_update [OF assms(1) _ assms(2)]) (auto simp: on_bit_iff)
      moreover have "bit (on_mask led OR on_bit i) 4 \<longleftrightarrow> bit (on_mask led) 4" using i(1) by (simp add: on_bit_iff)
      moreover have "set_on_state p led = led\<lparr>blink_period := (blink_period led)[i := p], on_mask := on_mask led OR on_bit i\<rparr>"
        using p None f by (simp add: set_on_state_def)
      ultimately show ?thesis using p by (auto simp: led_requests_def)
    qed
  qed
  then show "led_ok (set_on_state p led)" "led_requests (set_on_state p led) = insert p (led_requests led)" by simp_all
qed

lemma led_do_keeps [simp]:
  "led_ok (led_do cs led) = led_ok led" "led_requests (led_do cs led) = led_requests led" "led_out (led_do cs led) = led_out led @ cs"
  "led_pin (led_do cs led) = led_pin led" "led_pwm (led_do cs led) = led_pwm led" "led_pol (led_do cs led) = led_pol led"
  "on_mask (led_do cs led) = on_mask led" "select_fast_blink_period (led_do cs led) = select_fast_blink_period led"
  by (simp_all add: led_do_def led_ok_def led_requests_def select_fast_blink_period_def)

lemma led_state_keeps [simp]:
  "led_ok (led\<lparr>led_state := st\<rparr>) = led_ok led" "led_requests (led\<lparr>led_state := st\<rparr>) = led_requests led"
  "led_ok (led\<lparr>blink_state := st\<rparr>) = led_ok led" "led_requests (led\<lparr>blink_state := st\<rparr>) = led_requests led"
  "select_fast_blink_period (led\<lparr>led_state := st\<rparr>) = select_fast_blink_period led"
  by (simp_all add: led_ok_def led_requests_def select_fast_blink_period_def)

lemma on_state_keeps [simp]:
  "led_pin (set_on_state p led) = led_pin led" "led_pwm (set_on_state p led) = led_pwm led" "led_pol (set_on_state p led) = led_pol led"
  "led_out (set_on_state p led) = led_out led"
  "led_pin (clear_on_state p led) = led_pin led" "led_pwm (clear_on_state p led) = led_pwm led" "led_pol (clear_on_state p led) = led_pol led"
  "led_out (clear_on_state p led) = led_out led"
  by (simp_all add: set_on_state_def clear_on_state_def split: option.split)

lemma display_select:
  assumes "led_ok led"
  shows "display (led_requests led) = (if led_requests led = {} then Dark else if select_fast_blink_period led = 0 then Steady
    else Blink (select_fast_blink_period led))"
proof (cases "led_requests led - {0} = {}")
  case False
  have "finite (led_requests led - {0})" by (simp add: led_requests_def)
  then have "Min (led_requests led - {0}) \<in> led_requests led - {0}" using False by (rule Min_in)
  then have "Min (led_requests led - {0}) \<noteq> 0" by simp
  moreover have "led_requests led \<noteq> {}" using False by blast
  ultimately show ?thesis unfolding select_display [OF assms] display_def if_not_P [OF False] by metis
next
  case True
  then show ?thesis unfolding select_display [OF assms] display_def if_P [OF True] by simp
qed

text \<open>One call, once the requests are updated: the lamp shows them.\<close>

lemma set_led_status_shows:
  fixes led :: led_device and p :: u32
  assumes "st = LED_ON \<or> st = LED_OFF"
  defines "led' \<equiv> if st = LED_ON then set_on_state p (led_do [Irq_Lock] led) else clear_on_state p (led_do [Irq_Lock] led)"
  assumes "led_ok led'" "st = LED_ON \<longrightarrow> led_requests led' \<noteq> {}"
  shows "led_ok (set_led_status st p led)" "led_requests (set_led_status st p led) = led_requests led'"
    "led_out (set_led_status st p led) = led_out led @ Irq_Lock # shown led (display (led_requests led')) @ [Irq_Unlock]"
    "led_pin (set_led_status st p led) = led_pin led \<and> led_pwm (set_led_status st p led) = led_pwm led \<and> led_pol (set_led_status st p led) = led_pol led"
proof -
  have k: "led_pin led' = led_pin led" "led_pwm led' = led_pwm led" "led_pol led' = led_pol led" "led_out led' = led_out led @ [Irq_Lock]"
    using assms(1) by (auto simp: led'_def)
  have on: "(if st = LED_OFF \<and> on_mask led' \<noteq> 0 then LED_ON else st) = (if led_requests led' = {} then LED_OFF else LED_ON)"
    using assms(1,4) on_mask_zero [OF assms(3)] by auto
  have e: "set_led_status st p led = led_do [Irq_Unlock] (led_do (shown led (display (led_requests led')))
      (if led_requests led' = {} \<or> select_fast_blink_period led' = 0 then led'\<lparr>led_state := (if led_requests led' = {} then LED_OFF else LED_ON)\<rparr>
       else led'\<lparr>led_state := LED_ON, blink_state := 0\<rparr>))"
  proof -
    have l: "(if st = LED_ON then set_on_state p (led_do [Irq_Lock] led) else clear_on_state p (led_do [Irq_Lock] led)) = led'" by (simp add: led'_def)
    have n: "\<not> (st \<noteq> LED_ON \<and> st \<noteq> LED_OFF)" using assms(1) by blast
    show ?thesis
      unfolding set_led_status_def Let_def l if_not_P [OF n] on display_select [OF assms(3)] using k by (simp add: led_do_def)
  qed
  show "led_ok (set_led_status st p led)" "led_requests (set_led_status st p led) = led_requests led'"
    "led_out (set_led_status st p led) = led_out led @ Irq_Lock # shown led (display (led_requests led')) @ [Irq_Unlock]"
    "led_pin (set_led_status st p led) = led_pin led \<and> led_pwm (set_led_status st p led) = led_pwm led \<and> led_pol (set_led_status st p led) = led_pol led"
    using assms(3) k unfolding e by simp_all
qed

text \<open>A request to an LED: on or off, with a period or zero for a steady light.\<close>

definition led_command :: "bool \<times> u32 \<Rightarrow> led_device \<Rightarrow> led_device" where
  "led_command c led = set_led_status (if fst c then LED_ON else LED_OFF) (snd c) led"

definition request :: "bool \<times> u32 \<Rightarrow> u32 set \<Rightarrow> u32 set" where
  "request c R = (if fst c then insert (snd c) R else R - {snd c})"

lemma led_command_shows:
  assumes "led_ok led" "finite P" "card P \<le> 4" "0 \<notin> P" "\<forall>p\<in>P. p < 0xFFFF" "led_requests led \<subseteq> insert 0 P" "snd c \<in> insert 0 P"
  shows "led_ok (led_command c led)" "led_requests (led_command c led) = request c (led_requests led)"
    "led_out (led_command c led) = led_out led @ Irq_Lock # shown led (display (request c (led_requests led))) @ [Irq_Unlock]"
    "led_pin (led_command c led) = led_pin led \<and> led_pwm (led_command c led) = led_pwm led \<and> led_pol (led_command c led) = led_pol led"
proof -
  let ?l = "led_do [Irq_Lock] led"
  let ?st = "if fst c then LED_ON else LED_OFF"
  let ?led = "if ?st = LED_ON then set_on_state (snd c) ?l else clear_on_state (snd c) ?l"
  have lt: "snd c < 0xFFFF" using assms(5,7) by (cases "snd c = 0") auto
  have set_l: "led_ok (set_on_state (snd c) ?l)" "led_requests (set_on_state (snd c) ?l) = insert (snd c) (led_requests led)"
    using set_requests [OF _ lt assms(2,3) _ assms(7,4), of ?l] assms(1,6) by simp_all
  have clr: "led_ok (clear_on_state (snd c) ?l)" "led_requests (clear_on_state (snd c) ?l) = led_requests led - {snd c}"
    using clear_requests [of ?l "snd c"] assms(1) by simp_all
  have l: "led_ok ?led" "?st = LED_ON \<longrightarrow> led_requests ?led \<noteq> {}" "led_requests ?led = request c (led_requests led)"
    using set_l clr by (simp_all add: request_def)
  have st: "?st = LED_ON \<or> ?st = LED_OFF" by simp
  note s = set_led_status_shows [OF st l(1,2)]
  show "led_ok (led_command c led)" "led_requests (led_command c led) = request c (led_requests led)"
    "led_out (led_command c led) = led_out led @ Irq_Lock # shown led (display (request c (led_requests led))) @ [Irq_Unlock]"
    "led_pin (led_command c led) = led_pin led \<and> led_pwm (led_command c led) = led_pwm led \<and> led_pol (led_command c led) = led_pol led"
    using s unfolding led_command_def l(3) .
qed

lemma shown_cong: "led_pin a = led_pin b \<Longrightarrow> led_pwm a = led_pwm b \<Longrightarrow> led_pol a = led_pol b \<Longrightarrow> shown a d = shown b d"
  by (cases d) simp_all

text \<open>
  C27 (refinement). An LED implements the set of requests: after any sequence of requests with at most four different blink periods, each below 65535 milliseconds, the LED
  is dark when no request is left, lit when only the steady one is, and blinks with the shortest period requested otherwise, and every call releases the
  interrupt lock it has taken.
\<close>

theorem led_shows_requests:
  assumes "led_ok led" "finite P" "card P \<le> 4" "0 \<notin> P" "\<forall>p\<in>P. p < 0xFFFF" "led_requests led \<subseteq> insert 0 P" "\<forall>c\<in>set cs. snd c \<in> insert 0 P"
  shows "led_requests (fold led_command cs led) = fold request cs (led_requests led) \<and>
    (cs \<noteq> [] \<longrightarrow> (\<exists>before. led_out (fold led_command cs led) = before @ Irq_Lock # shown led (display (fold request cs (led_requests led))) @ [Irq_Unlock]))"
proof -
  have "led_ok (fold led_command cs led) \<and> led_requests (fold led_command cs led) = fold request cs (led_requests led) \<and>
    led_requests (fold led_command cs led) \<subseteq> insert 0 P \<and>
    (led_pin (fold led_command cs led) = led_pin led \<and> led_pwm (fold led_command cs led) = led_pwm led \<and> led_pol (fold led_command cs led) = led_pol led) \<and>
    (cs \<noteq> [] \<longrightarrow> (\<exists>before. led_out (fold led_command cs led) = before @ Irq_Lock # shown led (display (fold request cs (led_requests led))) @ [Irq_Unlock]))"
    using assms(7)
  proof (induction cs rule: rev_induct)
    case (snoc c cs)
    let ?f = "fold led_command cs led"
    have ih: "led_ok ?f" "led_requests ?f = fold request cs (led_requests led)" "led_requests ?f \<subseteq> insert 0 P"
      "led_pin ?f = led_pin led" "led_pwm ?f = led_pwm led" "led_pol ?f = led_pol led" "snd c \<in> insert 0 P"
      using snoc by auto
    note s = led_command_shows [OF ih(1) assms(2-5) ih(3,7)]
    have "request c (led_requests ?f) \<subseteq> insert 0 P" using ih(3,7) by (auto simp: request_def)
    then show ?case using s ih(2,4-6) shown_cong [of ?f led] by simp
  qed (use assms(1,6) in auto)
  then show ?thesis by blast
qed

definition led_new :: led_device where
  "led_new = \<lparr>led_dev = True, blink_state = 0, led_pin = 5, led_pwm = NONE_PWM_CHAN, led_pol = 0, led_state = 1, on_mask = 0, blink_period = replicate 4 0,
     led_out = []\<rparr>"

lemma led_new_ok: "led_ok led_new" "led_requests led_new = {}"
  by (simp_all add: led_ok_def led_requests_def led_new_def)

theorem led_shows_requests_witness:
  "\<exists>before. led_out (fold led_command [(True, 0), (True, 500), (True, 200), (False, 500)] led_new) =
    before @ [Irq_Lock, Blink_Timer_Stop, Blink_Timer_Start 100 100, Irq_Unlock]"
proof -
  have "fold request [(True, 0), (True, 500), (True, 200), (False, 500)] {} = {0, 200}" by (auto simp: request_def)
  moreover have "{0, 200 :: u32} - {0} = {200}" by auto
  ultimately have d: "display (fold request [(True, 0), (True, 500), (True, 200), (False, 500)] {}) = Blink 200" by (simp add: display_def)
  then show ?thesis
    using led_shows_requests [OF led_new_ok(1), of "{200, 500}" "[(True, 0), (True, 500), (True, 200), (False, 500)]"] led_new_ok(2)
    by (simp add: led_new_def)
qed

text \<open>
  A reset forgets the first period only: a second one blinks again as soon as the LED is to be lit. And a call with an unknown state leaves
  the interrupts locked.
\<close>

lemma led_reset_incomplete:
  assumes "led_ok led" "blink_period led ! 1 = p" "p \<noteq> 0"
  shows "p \<in> led_requests (reset_led_state led)" "on_mask (reset_led_state led) = 0"
proof -
  have "(blink_period led)[0 := 0] ! 1 = p" "1 < length ((blink_period led)[0 := 0])" using assms by (simp_all add: led_ok_def)
  then have "p \<in> set ((blink_period led)[0 := 0])" by (metis nth_mem)
  then show "p \<in> led_requests (reset_led_state led)" "on_mask (reset_led_state led) = 0"
    using assms(3) by (auto simp: reset_led_state_def led_requests_def led_do_def Let_def)
qed

lemma led_unknown_state: "st \<noteq> LED_ON \<Longrightarrow> st \<noteq> LED_OFF \<Longrightarrow> set_led_status st p led = led_do [Irq_Lock] led"
  by (simp add: set_led_status_def)

end
