(* ===== verification/Ancs.thy ===== *)
theory Ancs
  imports Types_Encode
begin

text \<open>
  The client of the Apple notification centre service (\<^verbatim>\<open>samples/ancs/src/ancs/ancs_service.c\<close>): the decoder of the data source, which
  receives the attributes of a notification in fragments, the handler of the notification source, and the request for
  the attributes. The decoder is shown equal to one that reads byte by byte, so that the fragmentation does not matter.
\<close>

section \<open>State\<close>

text \<open>\<open>ds_decoder_unknown\<close> is never assigned.\<close>

datatype ds_decoder_state = Ds_Hdr | Ds_Attrid | Ds_Attrlen | Ds_Attrdata

text \<open>What is printed: the name of an attribute, a length, a character of the data, or an event of the notification source.\<close>

datatype ancs_print = Say_Attr u8 | Say_Len u16 | Say_Char u8 | Say_Event u8 u8 u8 u8

text \<open>\<open>struct ancs_attribute_data_t\<close> with the buffer for the text and what was printed.\<close>

record ancs_data =
  attr_len :: u16
  pending_len :: bool
  rem_attr_len :: u16
  pending_attr_data :: u16
  ds_decoder_state :: ds_decoder_state
  pending_cmd :: u16
  attr_id :: u16
  g_ancs_data :: bytes
  ancs_out :: "ancs_print list"

abbreviation (input) "ANCS_DS_HDR_LEN \<equiv> 5 :: nat"
abbreviation (input) "ANCS_MAX_NOTIF_ATT_LENGTH \<equiv> 20 :: nat"
abbreviation (input) "ANCS_NS_NOTIF_UUID_SIZE \<equiv> 4 :: nat"

section \<open>The decoder\<close>

definition ancs_say :: "ancs_print list \<Rightarrow> ancs_data \<Rightarrow> ancs_data" where
  "ancs_say ps d = d\<lparr>ancs_out := ancs_out d @ ps\<rparr>"

text \<open>
  \<open>printk\<close> with a received text as its format and no arguments: a percent sign starts a conversion, of which only
  \<open>%%\<close> needs no argument; every other one reads an argument that was not passed.
\<close>

fun printk_text :: "bytes \<Rightarrow> bytes res" where
  "printk_text [] = Inr []"
| "printk_text (b # bs) =
     (if b \<noteq> 37 then rbind (printk_text bs) (\<lambda>r. Inr (b # r))
      else (case bs of [] \<Rightarrow> Inl Uninit_Read
            | c # cs \<Rightarrow> if c = 37 then rbind (printk_text cs) (\<lambda>r. Inr (37 # r)) else Inl Uninit_Read))"

text \<open>Copying \<open>n\<close> bytes to the cleared buffer and printing it as a format.\<close>

definition show_text :: "bytes \<Rightarrow> nat \<Rightarrow> nat \<Rightarrow> ancs_data \<Rightarrow> ancs_data res" where
  "show_text p count n d =
     rbind (mem_cpy (replicate (ANCS_MAX_NOTIF_ATT_LENGTH + 1) 0) 0 (drop count p) n) (\<lambda>g.
     rbind (arr_set g n 0) (\<lambda>g. rbind (printk_text (takeWhile (\<lambda>b. b \<noteq> 0) g)) (\<lambda>out.
     Inr (ancs_say (map Say_Char out) (d\<lparr>g_ancs_data := g\<rparr>)))))"

text \<open>
  One pass through the loop, on the position, the state, \<open>b_skip_reserved\<close> and the variables; nothing when the function returns \<open>false\<close>.
\<close>

type_synonym ds_local = "nat \<times> ds_decoder_state \<times> bool \<times> ancs_data"

definition ds_iter :: "bytes \<Rightarrow> ds_local \<Rightarrow> ds_local option res" where
  "ds_iter p = (\<lambda>(count, st, skip, d). case st of
     Ds_Hdr \<Rightarrow> rbind (arr_get p 0) (\<lambda>b. Inr (if b \<noteq> 0 then None else Some (ANCS_DS_HDR_LEN, Ds_Attrid, skip, d)))
   | Ds_Attrid \<Rightarrow> rbind (arr_get p count) (\<lambda>b.
       Inr (Some (if b \<le> 5 then (count + 1, Ds_Attrlen, skip, ancs_say [Say_Attr b] (d\<lparr>attr_id := ucast b\<rparr>))
         else (count + 1, Ds_Attrid, True, ancs_say [Say_Attr b] (d\<lparr>attr_id := 0xff\<rparr>)))))
   | Ds_Attrlen \<Rightarrow>
       rbind (if pending_len d
              then rbind (arr_get p count) (\<lambda>b.
                Inr (count + 1, d\<lparr>attr_len := push_bit 8 (ucast b) OR rem_attr_len d, rem_attr_len := 0, pending_len := False\<rparr>))
              else if count + 1 < length p
              then rbind (arr_get p count) (\<lambda>lo. rbind (arr_get p (count + 1)) (\<lambda>hi.
                Inr (count + 2, d\<lparr>attr_len := ucast lo OR push_bit 8 (ucast hi)\<rparr>)))
              else rbind (arr_get p count) (\<lambda>b. Inr (count + 1, d\<lparr>rem_attr_len := ucast b, pending_len := True\<rparr>))) (\<lambda>(count, d).
       Inr (Some (if \<not> pending_len d then (count, Ds_Attrdata, skip, ancs_say [Say_Len (attr_len d)] d) else (count, st, skip, d))))
   | Ds_Attrdata \<Rightarrow>
       rbind (if pending_attr_data d \<noteq> 0
              then let n = length p - count; n = (if unat (pending_attr_data d) < n then unat (pending_attr_data d) else n) in
                rbind (show_text p count n d) (\<lambda>d. Inr (count + n, d\<lparr>pending_attr_data := pending_attr_data d - of_nat n\<rparr>))
              else if attr_len d > 0
              then let n = length p - count; n = (if unat (pending_attr_data d) < n then unat (pending_attr_data d) else n) in
                rbind (show_text p count n d) (\<lambda>d. Inr (count + n, d\<lparr>pending_attr_data := attr_len d - of_nat n, attr_len := 0\<rparr>))
              else Inr (count, d)) (\<lambda>(count, d).
       Inr (Some (if pending_attr_data d = 0 \<and> attr_len d = 0 then (count, Ds_Attrid, skip, d\<lparr>attr_id := 0xff\<rparr>) else (count, st, skip, d)))))"

fun ds_rank :: "ds_local \<Rightarrow> nat" where
  "ds_rank (count, Ds_Attrdata, skip, d) = (if pending_attr_data d = 0 \<and> attr_len d > 0 then 2 else 1)"
| "ds_rank (count, st, skip, d) = 0"

lemma show_text_keeps: "show_text p count n d = Inr d' \<Longrightarrow> pending_attr_data d' = pending_attr_data d \<and> attr_len d' = attr_len d"
  by (auto simp: show_text_def rbind_eq_Inr ancs_say_def)

lemma ds_iter_decreases:
  assumes "ds_iter p (count, st, skip, d) = Inr (Some (count', st', skip', d'))" "count < length p"
  shows "st = Ds_Hdr \<and> st' \<noteq> Ds_Hdr \<or> st \<noteq> Ds_Hdr \<and> st' \<noteq> Ds_Hdr \<and>
    (length p - count' < length p - count \<or> length p - count' = length p - count \<and> ds_rank (count', st', skip', d') < ds_rank (count, st, skip, d))"
proof (cases st)
  case Ds_Attrdata
  have "unat (pending_attr_data d) \<noteq> 0" if "pending_attr_data d \<noteq> 0" using that by (simp add: unat_eq_zero)
  then show ?thesis using assms Ds_Attrdata
    by (auto simp: ds_iter_def rbind_eq_Inr Let_def dest!: show_text_keeps split: if_splits) (use word_neq_0_conv in force)+
qed (use assms in \<open>auto simp: ds_iter_def rbind_eq_Inr split: if_splits\<close>)

function ds_loop :: "bytes \<Rightarrow> ds_local \<Rightarrow> (ds_decoder_state \<times> ancs_data) option res" where
  "ds_loop p (count, st, skip, d) =
     (if count < length p \<and> \<not> skip
      then rbind (ds_iter p (count, st, skip, d)) (\<lambda>r. case r of None \<Rightarrow> Inr None | Some x \<Rightarrow> ds_loop p x)
      else Inr (Some (st, d)))"
  by pat_completeness auto
termination
  by (relation "measures [\<lambda>(p, count, st, skip, d). if st = Ds_Hdr then 1 else 0, \<lambda>(p, count, st, skip, d). length p - count, \<lambda>(p, x). ds_rank x]")
    (auto dest!: ds_iter_decreases)

declare ds_loop.simps [simp del]

definition ancs_parse_data :: "bytes \<Rightarrow> ancs_data \<Rightarrow> (bool \<times> ancs_data) res" where
  "ancs_parse_data p d = rbind (ds_loop p (0, ds_decoder_state d, False, d)) (\<lambda>r. case r of
     None \<Rightarrow> Inr (False, d) | Some (st, d) \<Rightarrow> Inr (True, d\<lparr>ds_decoder_state := st\<rparr>))"

definition ancs_handle_data_source_data :: "bytes \<Rightarrow> ancs_data \<Rightarrow> ancs_data res" where
  "ancs_handle_data_source_data p d =
     (if pending_cmd d = 0
      then rbind (arr_get p 0) (\<lambda>b.
        let d = (if b = 0 \<and> pending_attr_data d = 0 \<and> attr_len d = 0 \<and> \<not> pending_len d \<and> (ds_decoder_state d = Ds_Hdr \<or> ds_decoder_state d = Ds_Attrid)
              then d\<lparr>ds_decoder_state := Ds_Hdr\<rparr> else d) in
        rbind (ancs_parse_data p d) (\<lambda>(_, d). Inr d))
      else if 0 \<in> set (drop 1 p) then rbind (printk_text (takeWhile (\<lambda>b. b \<noteq> 0) (drop 1 p))) (\<lambda>out. Inr (ancs_say (map Say_Char out) d))
      else Inl Out_Of_Bounds)"

definition ancs_clear_attribute_data :: "ancs_data \<Rightarrow> ancs_data" where
  "ancs_clear_attribute_data d =
     d\<lparr>ds_decoder_state := Ds_Hdr, attr_len := 0, pending_len := False, rem_attr_len := 0, pending_attr_data := 0\<rparr>"

definition ancs_service_data_init :: "ancs_data \<Rightarrow> ancs_data" where
  "ancs_service_data_init d = ancs_clear_attribute_data d"

section \<open>Decoding byte by byte\<close>

text \<open>
  The reference decoder: it waits for an identifier, for the two bytes of a length, or for the remaining data. It rejects reserved
  identifiers, and zero bytes and percent signs in the text.
\<close>

datatype ds_wait = Wait_Id | Wait_Len | Wait_Len_High u8 | Wait_Data nat

fun ds_byte :: "ds_wait \<Rightarrow> u8 \<Rightarrow> (ds_wait \<times> ancs_print list) option" where
  "ds_byte Wait_Id b = (if b \<le> 5 then Some (Wait_Len, [Say_Attr b]) else None)"
| "ds_byte Wait_Len b = Some (Wait_Len_High b, [])"
| "ds_byte (Wait_Len_High lo) b = (let n = push_bit 8 (ucast b) OR ucast lo in Some (if n = 0 then Wait_Id else Wait_Data (unat n), [Say_Len n]))"
| "ds_byte (Wait_Data n) b = (if b = 0 \<or> b = 37 then None else Some (if n = 1 then Wait_Id else Wait_Data (n - 1), [Say_Char b]))"

fun ds_bytes :: "ds_wait \<Rightarrow> bytes \<Rightarrow> (ds_wait \<times> ancs_print list) option" where
  "ds_bytes w [] = Some (w, [])"
| "ds_bytes w (b # bs) = (case ds_byte w b of None \<Rightarrow> None | Some (w, o1) \<Rightarrow> (case ds_bytes w bs of None \<Rightarrow> None | Some (w, o2) \<Rightarrow> Some (w, o1 @ o2)))"

lemma ds_bytes_append:
  "ds_bytes w (xs @ ys) = (case ds_bytes w xs of None \<Rightarrow> None | Some (w, o1) \<Rightarrow> (case ds_bytes w ys of None \<Rightarrow> None | Some (w, o2) \<Rightarrow> Some (w, o1 @ o2)))"
  by (induction xs arbitrary: w) (auto split: option.splits)

lemma ds_bytes_data:
  assumes "length xs \<le> n" "0 < n" "xs \<noteq> []"
  shows "ds_bytes (Wait_Data n) xs = (if 0 \<in> set xs \<or> 37 \<in> set xs then None else Some (if n = length xs then Wait_Id else Wait_Data (n - length xs), map Say_Char xs))"
  using assms
proof (induction xs arbitrary: n)
  case (Cons x xs)
  show ?case
  proof (cases "xs = []")
    case False
    then have "n \<noteq> 1" "length xs \<le> n - 1" "0 < n - 1" using Cons.prems by (cases xs; simp)+
    then show ?thesis using Cons.IH [of "n - 1"] False by auto
  qed (use Cons.prems in auto)
qed simp

text \<open>What the variables of the decoder wait for, and when they are consistent.\<close>

definition waits :: "ds_decoder_state \<Rightarrow> ancs_data \<Rightarrow> ds_wait" where
  "waits st d = (case st of
     Ds_Attrlen \<Rightarrow> if pending_len d then Wait_Len_High (ucast (rem_attr_len d)) else Wait_Len
   | Ds_Attrdata \<Rightarrow> if pending_attr_data d \<noteq> 0 then Wait_Data (unat (pending_attr_data d)) else if attr_len d \<noteq> 0 then Wait_Data (unat (attr_len d)) else Wait_Id
   | _ \<Rightarrow> Wait_Id)"

definition ds_ok :: "ds_decoder_state \<Rightarrow> ancs_data \<Rightarrow> bool" where
  "ds_ok st d \<longleftrightarrow> (case st of
     Ds_Attrlen \<Rightarrow> pending_attr_data d = 0 \<and> attr_len d = 0 \<and> (pending_len d \<longrightarrow> rem_attr_len d = ucast (ucast (rem_attr_len d) :: u8))
   | Ds_Attrdata \<Rightarrow> \<not> pending_len d \<and> (pending_attr_data d = 0 \<or> attr_len d = 0) \<and>
       (pending_attr_data d = 0 \<and> attr_len d = 0 \<longrightarrow> ancs_out d \<noteq> [] \<and> last (ancs_out d) = Say_Len 0)
   | _ \<Rightarrow> pending_attr_data d = 0 \<and> attr_len d = 0 \<and> \<not> pending_len d)"

lemma printk_plain: "37 \<notin> set xs \<Longrightarrow> printk_text xs = Inr xs"
  by (induction xs) auto

lemma show_text_ok:
  assumes "n \<le> 20" "count + n \<le> length p" "0 \<notin> set (take n (drop count p))" "37 \<notin> set (take n (drop count p))"
  shows "show_text p count n d = Inr (ancs_say (map Say_Char (take n (drop count p))) (d\<lparr>g_ancs_data := take n (drop count p) @ replicate (21 - n) 0\<rparr>))"
proof -
  let ?xs = "take n (drop count p)"
  have l: "length ?xs = n" using assms(2) by simp
  have c: "mem_cpy (replicate 21 0) 0 (drop count p) n = Inr (?xs @ replicate (21 - n) 0)" using assms(1,2) by (simp add: mem_cpy_def)
  have "replicate (21 - n) 0 = 0 # replicate (20 - n) (0 :: u8)" using assms(1) by (simp add: Suc_diff_le flip: replicate_Suc)
  then have s: "arr_set (?xs @ replicate (21 - n) 0) n 0 = Inr (?xs @ replicate (21 - n) 0)"
    using l assms(1) by (simp add: arr_set_def list_update_append)
  have "takeWhile (\<lambda>b. b \<noteq> 0) (?xs @ replicate (21 - n) 0) = ?xs" using assms(3) by (subst takeWhile_append2) auto
  then show ?thesis using c s printk_plain [OF assms(4)] by (simp add: show_text_def)
qed

text \<open>A pass through the loop reads some bytes, and the reference decoder agrees.\<close>

definition agrees :: "bytes \<Rightarrow> ds_wait \<Rightarrow> ancs_print list \<Rightarrow> ds_local \<Rightarrow> bool" where
  "agrees p w out = (\<lambda>(c, st, skip, d). c \<le> length p \<and> st \<noteq> Ds_Hdr \<and> \<not> skip \<and> pending_cmd d = 0 \<and> ds_ok st d \<and>
     (\<exists>rest. ds_bytes (waits st d) (drop c p) = Some (w, rest) \<and> out = ancs_out d @ rest))"

lemma ds_bytes_take:
  assumes "ds_bytes w (drop c p) = Some (w', out)" "c + n \<le> length p"
  obtains w1 o1 o2 where "ds_bytes w (take n (drop c p)) = Some (w1, o1)" "ds_bytes w1 (drop (c + n) p) = Some (w', o2)" "out = o1 @ o2"
proof -
  have "drop c p = take n (drop c p) @ drop (c + n) p" using append_take_drop_id [of n "drop c p"] by (simp add: add.commute)
  then show ?thesis using assms(1) that ds_bytes_append [of w "take n (drop c p)" "drop (c + n) p"] by (auto split: option.splits)
qed

lemma drop_cons: "c < length p \<Longrightarrow> drop c p = p ! c # drop (c + 1) p"
  by (simp add: Cons_nth_drop_Suc)

lemma ucast_u16_8: "(ucast (ucast b :: u16) :: u8) = b" for b :: u8
  by (rule bit_word_eqI) (simp add: bit_simps)

lemma iter_id:
  assumes "agrees p w out (c, Ds_Attrid, False, d)" "c < length p"
  shows "\<exists>y. ds_iter p (c, Ds_Attrid, False, d) = Inr (Some y) \<and> agrees p w out y"
  using assms drop_cons [OF assms(2)]
  by (auto simp: agrees_def ds_iter_def arr_get_def waits_def ds_ok_def ancs_say_def split: option.splits if_splits)

lemma iter_len:
  assumes "agrees p w out (c, Ds_Attrlen, False, d)" "c < length p"
  shows "\<exists>y. ds_iter p (c, Ds_Attrlen, False, d) = Inr (Some y) \<and> agrees p w out y"
proof (cases "pending_len d")
  case True
  then show ?thesis using assms drop_cons [OF assms(2)]
    by (auto simp: agrees_def ds_iter_def arr_get_def waits_def ds_ok_def ancs_say_def Let_def unat_eq_zero split: option.splits if_splits)
next
  case False
  show ?thesis
  proof (cases "c + 1 < length p")
    case True
    have "drop c p = p ! c # p ! (c + 1) # drop (c + 2) p" using drop_cons [OF assms(2)] drop_cons [OF True] by simp
    then show ?thesis using assms False True
      by (auto simp: agrees_def ds_iter_def arr_get_def waits_def ds_ok_def ancs_say_def Let_def or.commute split: option.splits if_splits)
  next
    case last: False
    then have "drop c p = [p ! c]" using drop_cons [OF assms(2)] by simp
    then show ?thesis using assms False last
      by (auto simp: agrees_def ds_iter_def arr_get_def waits_def ds_ok_def ucast_u16_8)
  qed
qed

lemma iter_data:
  assumes "agrees p w out (c, Ds_Attrdata, False, d)" "c < length p" "length p \<le> 20"
  shows "\<exists>y. ds_iter p (c, Ds_Attrdata, False, d) = Inr (Some y) \<and> agrees p w out y"
proof (cases "pending_attr_data d = 0")
  case True
  have z: "show_text p c 0 d = Inr (ancs_say [] (d\<lparr>g_ancs_data := replicate 21 0\<rparr>))" using show_text_ok [of 0 c p d] assms(2) by simp
  show ?thesis
  proof (cases "attr_len d = 0")
    case True
    then show ?thesis using assms \<open>pending_attr_data d = 0\<close> by (auto simp: agrees_def ds_iter_def waits_def ds_ok_def)
  next
    case False
    then show ?thesis using assms True z
      by (auto simp: agrees_def ds_iter_def waits_def ds_ok_def Let_def ancs_say_def word_neq_0_conv)
  qed
next
  case False
  define k where "k = unat (pending_attr_data d)"
  define n where "n = (if k < length p - c then k else length p - c)"
  have k: "0 < k" using False by (simp add: k_def unat_gt_0)
  have n: "n \<le> k" "0 < n" "c + n \<le> length p" "n \<le> 20" using assms(2,3) k by (auto simp: n_def)
  obtain rest where r: "ds_bytes (Wait_Data k) (drop c p) = Some (w, rest)" "out = ancs_out d @ rest" "ds_ok Ds_Attrdata d"
    using assms(1) False by (auto simp: agrees_def waits_def k_def)
  obtain w1 o1 o2 where s: "ds_bytes (Wait_Data k) (take n (drop c p)) = Some (w1, o1)" "ds_bytes w1 (drop (c + n) p) = Some (w, o2)" "rest = o1 @ o2"
    using ds_bytes_take [OF r(1) n(3)] .
  have l: "length (take n (drop c p)) = n" using n(3) by simp
  then have "take n (drop c p) \<noteq> []" using n(2) by (metis less_irrefl list.size(3))
  then have d: "0 \<notin> set (take n (drop c p)) \<and> 37 \<notin> set (take n (drop c p))" "w1 = (if k = n then Wait_Id else Wait_Data (k - n))" "o1 = map Say_Char (take n (drop c p))"
    using s(1) ds_bytes_data [of "take n (drop c p)" k] l n(1) k by (auto split: if_splits)
  let ?d = "ancs_say o1 (d\<lparr>g_ancs_data := take n (drop c p) @ replicate (21 - n) 0\<rparr>)"
  have t: "show_text p c n d = Inr ?d" using show_text_ok [OF n(4,3)] d(1,3) by simp
  have u: "unat (pending_attr_data d - of_nat n) = k - n"
    using n(1) le_unat_uoi [of n "pending_attr_data d"] by (simp add: k_def unat_sub word_le_nat_alt)
  then have "pending_attr_data d - of_nat n = 0 \<longleftrightarrow> k = n" using n(1) u by (auto simp flip: unat_eq_zero)
  then have z: "pending_attr_data d = of_nat n \<longleftrightarrow> k = n" by simp
  have it: "ds_iter p (c, Ds_Attrdata, False, d) = rbind (rbind (show_text p c n d) (\<lambda>d. Inr (c + n, d\<lparr>pending_attr_data := pending_attr_data d - of_nat n\<rparr>)))
      (\<lambda>(count, d). Inr (Some (if pending_attr_data d = 0 \<and> attr_len d = 0 then (count, Ds_Attrid, False, d\<lparr>attr_id := 0xff\<rparr>)
        else (count, Ds_Attrdata, False, d))))"
    using False by (simp add: ds_iter_def Let_def n_def k_def)
  have i: "ds_iter p (c, Ds_Attrdata, False, d) = Inr (Some (if k = n \<and> attr_len d = 0
      then (c + n, Ds_Attrid, False, ?d\<lparr>pending_attr_data := pending_attr_data d - of_nat n, attr_id := 0xff\<rparr>)
      else (c + n, Ds_Attrdata, False, ?d\<lparr>pending_attr_data := pending_attr_data d - of_nat n\<rparr>)))"
    using t z unfolding it by (simp add: ancs_say_def)
  have a: "attr_len d = 0" "\<not> pending_len d" "pending_cmd d = 0" using r(3) False assms(1) by (auto simp: ds_ok_def agrees_def)
  show ?thesis
  proof (cases "k = n")
    case True
    then show ?thesis using i s(2,3) d(2) r(2) a n(3) u by (simp add: agrees_def waits_def ds_ok_def ancs_say_def unat_eq_zero)
  next
    case False
    then have "pending_attr_data d - of_nat n \<noteq> 0" using u n(1) by (metis diff_is_0_eq le_antisym unat_0)
    then show ?thesis using False i s(2,3) d(2) r(2) a n(3) u by (simp add: agrees_def waits_def ds_ok_def ancs_say_def)
  qed
qed

lemma iter_agrees:
  assumes "agrees p w out x" "fst x < length p" "length p \<le> 20"
  shows "\<exists>y. ds_iter p x = Inr (Some y) \<and> agrees p w out y"
proof -
  obtain c st skip d where x: "x = (c, st, skip, d)" by (cases x)
  then have "st \<noteq> Ds_Hdr" "\<not> skip" using assms(1) by (simp_all add: agrees_def)
  then show ?thesis using assms x iter_id iter_len iter_data by (cases st) auto
qed

lemma loop_agrees:
  assumes "agrees p w out x" "length p \<le> 20"
  shows "\<exists>st d. ds_loop p x = Inr (Some (st, d)) \<and> agrees p w out (length p, st, False, d)"
  using assms
proof (induction p x rule: ds_loop.induct)
  case (1 p count st skip d)
  show ?case
  proof (cases "count < length p")
    case True
    have ns: "\<not> skip" using "1.prems"(1) by (simp add: agrees_def)
    obtain y where y: "ds_iter p (count, st, skip, d) = Inr (Some y)" "agrees p w out y"
      using iter_agrees [OF "1.prems"(1) _ "1.prems"(2)] True by auto
    then have "ds_loop p (count, st, skip, d) = ds_loop p y" using True ns by (subst ds_loop.simps) simp
    then show ?thesis using "1.IH" [of "Some y" y] True ns y "1.prems"(2) by simp
  next
    case False
    then show ?thesis using "1.prems"(1) by (subst ds_loop.simps) (simp add: agrees_def)
  qed
qed

text \<open>A fragment that continues a message.\<close>

definition ds_at :: "ds_wait \<Rightarrow> ancs_print list \<Rightarrow> ancs_data \<Rightarrow> bool" where
  "ds_at w out d \<longleftrightarrow> ds_decoder_state d \<noteq> Ds_Hdr \<and> pending_cmd d = 0 \<and> ds_ok (ds_decoder_state d) d \<and> waits (ds_decoder_state d) d = w \<and> ancs_out d = out"

lemma ds_ok_state [simp]: "ds_ok st (d\<lparr>ds_decoder_state := s\<rparr>) = ds_ok st d" "waits st (d\<lparr>ds_decoder_state := s\<rparr>) = waits st d"
  by (simp_all add: ds_ok_def waits_def cong: ds_decoder_state.case_cong)

lemma parse_agrees:
  assumes "agrees p w out x" "length p \<le> 20" "ds_loop p (0, ds_decoder_state d, False, d) = ds_loop p x"
  shows "\<exists>d'. ancs_parse_data p d = Inr (True, d') \<and> ds_at w out d'"
  using loop_agrees [OF assms(1,2)] assms(3) by (auto simp: ancs_parse_data_def agrees_def ds_at_def)

lemma handle_continues:
  assumes "ds_at w out d" "p \<noteq> []" "length p \<le> 20" "ds_bytes w p = Some (w', o1)" "\<not> (w = Wait_Id \<and> hd p = 0)"
  shows "\<exists>d'. ancs_handle_data_source_data p d = Inr d' \<and> ds_at w' (out @ o1) d'"
proof -
  have "arr_get p 0 = Inr (hd p)" using assms(2) by (simp add: arr_get_def hd_conv_nth)
  moreover have "\<not> (hd p = 0 \<and> pending_attr_data d = 0 \<and> attr_len d = 0 \<and> \<not> pending_len d \<and> (ds_decoder_state d = Ds_Hdr \<or> ds_decoder_state d = Ds_Attrid))"
    using assms(1,5) by (auto simp: ds_at_def waits_def)
  ultimately have e: "ancs_handle_data_source_data p d = rbind (ancs_parse_data p d) (\<lambda>(_, d). Inr d)"
    using assms(1) unfolding ancs_handle_data_source_data_def Let_def by (simp add: ds_at_def) meson
  have "agrees p w' (out @ o1) (0, ds_decoder_state d, False, d)" using assms(1,4) by (auto simp: agrees_def ds_at_def)
  then show ?thesis using parse_agrees [OF _ assms(3)] e by fastforce
qed

text \<open>The first fragment of a message, which has the header.\<close>

lemma handle_starts:
  assumes "ds_ok (ds_decoder_state d) d" "ds_decoder_state d = Ds_Hdr \<or> ds_decoder_state d = Ds_Attrid" "pending_cmd d = 0" "length u = 4"
    "length u + length x < 20" "ds_bytes Wait_Id x = Some (w, o1)"
  shows "\<exists>d'. ancs_handle_data_source_data (0 # u @ x) d = Inr d' \<and> ds_at w (ancs_out d @ o1) d'"
proof -
  let ?p = "0 # u @ x" and ?d = "d\<lparr>ds_decoder_state := Ds_Hdr\<rparr>"
  have i: "pending_attr_data d = 0" "attr_len d = 0" "\<not> pending_len d" using assms(1,2) by (auto simp: ds_ok_def)
  have e: "ancs_handle_data_source_data ?p d = rbind (ancs_parse_data ?p ?d) (\<lambda>(_, d). Inr d)"
    using assms(2,3) i unfolding ancs_handle_data_source_data_def Let_def by (simp add: arr_get_def)
  have "ds_loop ?p (0, Ds_Hdr, False, ?d) = ds_loop ?p (5, Ds_Attrid, False, ?d)"
    by (subst ds_loop.simps) (simp add: ds_iter_def arr_get_def)
  moreover have "agrees ?p w (ancs_out d @ o1) (5, Ds_Attrid, False, ?d)"
    using assms(3,4,6) i by (simp add: agrees_def ds_ok_def waits_def numeral_eq_Suc)
  ultimately show ?thesis using parse_agrees [of ?p w "ancs_out d @ o1" "(5, Ds_Attrid, False, ?d)" ?d] e assms(5) by auto
qed

section \<open>Messages in fragments\<close>

text \<open>An attribute of a notification, its encoding in the data source, and what should be printed for it.\<close>

type_synonym ancs_attr = "u8 \<times> bytes"

definition attr_bytes :: "ancs_attr \<Rightarrow> bytes" where
  "attr_bytes a = fst a # u16_encode (of_nat (length (snd a))) @ snd a"

definition attr_said :: "ancs_attr \<Rightarrow> ancs_print list" where
  "attr_said a = Say_Attr (fst a) # Say_Len (of_nat (length (snd a))) # map Say_Char (snd a)"

definition attr_ok :: "ancs_attr \<Rightarrow> bool" where
  "attr_ok a \<longleftrightarrow> fst a \<le> 5 \<and> length (snd a) < 65536 \<and> 0 \<notin> set (snd a) \<and> 37 \<notin> set (snd a)"

lemma u16_encode_high: "u16_encode n = [lo, hi] \<Longrightarrow> push_bit 8 (ucast hi) OR ucast lo = n"
  using u16_encode_inj [of n "ucast lo OR push_bit 8 (ucast hi)"] by (simp add: or.commute)

lemma attr_head:
  assumes "attr_ok a"
  obtains lo hi where "attr_bytes a = fst a # lo # hi # snd a" "ds_bytes Wait_Id [fst a, lo, hi] =
    Some (if snd a = [] then Wait_Id else Wait_Data (length (snd a)), [Say_Attr (fst a), Say_Len (of_nat (length (snd a)))])"
proof -
  obtain lo hi where e: "u16_encode (of_nat (length (snd a))) = [lo, hi]" by (simp add: u16_encode_def)
  have n: "push_bit 8 (ucast hi) OR ucast lo = (of_nat (length (snd a)) :: u16)" using u16_encode_high [OF e] .
  have u: "unat (of_nat (length (snd a)) :: u16) = length (snd a)" using assms by (simp add: attr_ok_def unat_of_nat take_bit_nat_eq_self)
  then have "(of_nat (length (snd a)) :: u16) = 0 \<longleftrightarrow> snd a = []" by (metis length_0_conv unat_0 unat_eq_zero)
  then have "ds_bytes Wait_Id [fst a, lo, hi] = Some (if snd a = [] then Wait_Id else Wait_Data (length (snd a)), [Say_Attr (fst a), Say_Len (of_nat (length (snd a)))])"
    using assms n u by (simp add: attr_ok_def Let_def)
  then show ?thesis using that [of lo hi] e by (simp add: attr_bytes_def)
qed

lemma attr_decodes:
  assumes "attr_ok a"
  shows "ds_bytes Wait_Id (attr_bytes a) = Some (Wait_Id, attr_said a)"
proof -
  obtain lo hi where h: "attr_bytes a = fst a # lo # hi # snd a" "ds_bytes Wait_Id [fst a, lo, hi] =
    Some (if snd a = [] then Wait_Id else Wait_Data (length (snd a)), [Say_Attr (fst a), Say_Len (of_nat (length (snd a)))])"
    using attr_head [OF assms] .
  have "attr_bytes a = [fst a, lo, hi] @ snd a" using h(1) by simp
  then show ?thesis using h(2) ds_bytes_append [of Wait_Id "[fst a, lo, hi]" "snd a"] ds_bytes_data [of "snd a" "length (snd a)"] assms
    by (cases "snd a = []") (auto simp: attr_said_def attr_ok_def)
qed

lemma attrs_decode: "list_all attr_ok as \<Longrightarrow> ds_bytes Wait_Id (concat (map attr_bytes as)) = Some (Wait_Id, concat (map attr_said as))"
  by (induction as) (auto simp: ds_bytes_append attr_decodes)

text \<open>Inside an attribute the decoder never waits for an identifier.\<close>

lemma attr_inside:
  assumes "attr_ok a" "attr_bytes a = xs @ ys" "xs \<noteq> []" "ys \<noteq> []"
  shows "ds_bytes Wait_Id xs \<noteq> Some (Wait_Id, o1)"
proof -
  obtain lo hi where h: "attr_bytes a = fst a # lo # hi # snd a" "ds_bytes Wait_Id [fst a, lo, hi] =
    Some (if snd a = [] then Wait_Id else Wait_Data (length (snd a)), [Say_Attr (fst a), Say_Len (of_nat (length (snd a)))])"
    using attr_head [OF assms(1)] .
  consider "xs = [fst a]" | "xs = [fst a, lo]" | zs where "xs = [fst a, lo, hi] @ zs" "snd a = zs @ ys"
    using assms(2-4) h(1) by (auto simp: Cons_eq_append_conv)
  then show ?thesis
  proof cases
    case 3
    then have ne: "snd a \<noteq> []" "length zs < length (snd a)" using assms(4) by auto
    have "ds_bytes (Wait_Data (length (snd a))) zs \<noteq> Some (Wait_Id, o2)" for o2
      using ds_bytes_data [of zs "length (snd a)"] ne by (cases "zs = []") auto
    then show ?thesis using h(2) ds_bytes_append [of Wait_Id "[fst a, lo, hi]" zs] ne(1) 3(1) by (auto split: option.splits)
  qed (use h(2) in \<open>auto split: if_splits\<close>)
qed

lemma attrs_boundary:
  assumes "list_all attr_ok as" "concat (map attr_bytes as) = xs @ ys" "ds_bytes Wait_Id xs = Some (Wait_Id, o1)" "ys \<noteq> []"
    "list_all (\<lambda>a. fst a \<noteq> 0) (if xs = [] then as else tl as)"
  shows "hd ys \<noteq> 0"
  using assms
proof (induction as arbitrary: xs o1)
  case (Cons a as)
  have ok: "attr_ok a" "list_all attr_ok as" using Cons.prems(1) by auto
  show ?case
  proof (cases "xs = []")
    case True
    then show ?thesis using Cons.prems(2,5) by (auto simp: attr_bytes_def)
  next
    case False
    have nz: "list_all (\<lambda>a. fst a \<noteq> 0) as" using False Cons.prems(5) by simp
    from Cons.prems(2) consider zs where "attr_bytes a = xs @ zs" "zs \<noteq> []" | zs where "xs = attr_bytes a @ zs" "concat (map attr_bytes as) = zs @ ys"
      by (auto simp: append_eq_append_conv2) blast
    then show ?thesis
    proof cases
      case 1
      then show ?thesis using attr_inside [OF ok(1) _ False] Cons.prems(3) by blast
    next
      case 2
      then obtain o2 where "ds_bytes Wait_Id zs = Some (Wait_Id, o2)"
        using Cons.prems(3) attr_decodes [OF ok(1)] ds_bytes_append [of Wait_Id "attr_bytes a" zs] by (auto split: option.splits)
      then show ?thesis using Cons.IH [OF ok(2) 2(2) _ Cons.prems(4)] nz by (cases as) auto
    qed
  qed
qed simp

text \<open>The fragments of a message, handled one after the other.\<close>

fun handle_fragments :: "bytes list \<Rightarrow> ancs_data \<Rightarrow> ancs_data res" where
  "handle_fragments [] d = Inr d"
| "handle_fragments (p # ps) d = rbind (ancs_handle_data_source_data p d) (handle_fragments ps)"

lemma fragments_continue:
  assumes "list_all attr_ok as" "list_all (\<lambda>a. fst a \<noteq> 0) (tl as)" "concat (map attr_bytes as) = xs @ concat ps" "xs \<noteq> []"
    "list_all (\<lambda>p. p \<noteq> [] \<and> length p \<le> 20) ps" "ds_bytes Wait_Id xs = Some (w, o1)" "ds_at w (out @ o1) d"
  shows "\<exists>d'. handle_fragments ps d = Inr d' \<and> ds_at Wait_Id (out @ concat (map attr_said as)) d'"
  using assms(3-7)
proof (induction ps arbitrary: xs w o1 d)
  case Nil
  then show ?case using attrs_decode [OF assms(1)] by simp
next
  case (Cons p ps)
  have all: "ds_bytes Wait_Id (xs @ p @ concat ps) = Some (Wait_Id, concat (map attr_said as))" using attrs_decode [OF assms(1)] Cons.prems(1) by simp
  obtain w' o2 where p: "ds_bytes w p = Some (w', o2)" using all Cons.prems(4) by (auto simp: ds_bytes_append split: option.splits)
  have "\<not> (w = Wait_Id \<and> hd p = 0)"
    using attrs_boundary [of as xs "p @ concat ps" o1] assms(1,2) Cons.prems by auto
  then obtain d1 where d1: "ancs_handle_data_source_data p d = Inr d1" "ds_at w' (out @ o1 @ o2) d1"
    using handle_continues [OF Cons.prems(5) _ _ p] Cons.prems(3) by auto
  have "ds_bytes Wait_Id (xs @ p) = Some (w', o1 @ o2)" using Cons.prems(4) p by (simp add: ds_bytes_append)
  then show ?case using Cons.IH [of "xs @ p" w' "o1 @ o2" d1] Cons.prems(1-3) d1 by simp
qed

definition ds_idle :: "ancs_data \<Rightarrow> bool" where
  "ds_idle d \<longleftrightarrow> (ds_decoder_state d = Ds_Hdr \<or> ds_decoder_state d = Ds_Attrid) \<and> ds_ok (ds_decoder_state d) d \<and> pending_cmd d = 0"

lemma at_idle: "ds_at Wait_Id out d \<Longrightarrow> last out \<noteq> Say_Len 0 \<Longrightarrow> ds_idle d"
  by (cases "ds_decoder_state d") (auto simp: ds_at_def ds_idle_def waits_def ds_ok_def split: if_splits)


definition ancs_fresh :: ancs_data where
  "ancs_fresh = \<lparr>attr_len = 0, pending_len = False, rem_attr_len = 0, pending_attr_data = 0, ds_decoder_state = Ds_Hdr, pending_cmd = 0, attr_id = 0,
     g_ancs_data = replicate 21 0, ancs_out = []\<rparr>"


text \<open>
  After a response whose last attribute is empty the decoder is not ready: it reads the header of the next response as an attribute.
\<close>

lemma ancs_header_misread:
  "(case handle_fragments [0 # [9, 8, 7, 6] @ attr_bytes (2, []), 0 # [1, 0, 65, 5] @ attr_bytes (5, [50])] ancs_fresh of
      Inl e \<Rightarrow> None | Inr d \<Rightarrow> Some (ancs_out d)) =
   Some [Say_Attr 2, Say_Len 0, Say_Attr 0, Say_Len 1, Say_Char 65, Say_Attr 5, Say_Len 0x105]"
  by code_simp

end
