(* ===== verification/Ancs_App.thy ===== *)
theory Ancs_App
  imports Ancs
begin

unbundle bit_operations_syntax

text \<open>
  The application of the notification client (\<^verbatim>\<open>samples/ancs/src/ancs\<close>): the discovery of the service (\<^verbatim>\<open>app_disc.c\<close>, \<^verbatim>\<open>ancs_service_disc.c\<close>),
  the rest of \<^verbatim>\<open>ancs_service.c\<close>, the callbacks and events of \<^verbatim>\<open>app_ble.c\<close> and the message loop of \<^verbatim>\<open>main.c\<close>. The host's GATT client, advertising
  and the non-volatile memory are outside; the calls are recorded, and \<open>ancs_host\<close> gives their results.
\<close>

section \<open>State\<close>

record gatt_characteristic =
  start_handle :: u16
  end_handle :: u16
  chr_uuid :: bytes
  has_ccd :: bool
  ccd_handle :: u16

record gatt_service =
  svc_start :: u16
  svc_end :: u16
  num_chars :: u16
  char_index :: u16
  char_data :: "gatt_characteristic list"

datatype disc_type = Discover_Primary | Discover_Characteristic | Discover_Descriptor

datatype ble_event = Conn_Open | Conn_Sec_Open | Conn_Close | Disc_Prim_Serv | Disc_Service_Char | Disc_Service_Char_Desc | Discovery_Complete

datatype app_msg = Ble_Event ble_event int | Ancs_Service

datatype ancs_call =
  Gatt_Discover disc_type u16 u16 | Gatt_Subscribe u16 u16 | Gatt_Write u16 bytes | Adv_Start | Set_Security | Nv_Set string bytes | Reboot

record ancs_host =
  nv_load :: "ancs_call list \<Rightarrow> string \<Rightarrow> bytes option"
  write_result :: "ancs_call list \<Rightarrow> int"
  ota_reset :: "ancs_call list \<Rightarrow> bool"

text \<open>
  The discovery (\<open>g_discovery_data\<close>, \<open>g_service_data\<close>, which points to the only service once discovery has started, the three
  flags and the type in \<open>discover_params\<close>), the decoder, \<open>app_cb\<close>, and the queue of messages.
\<close>

record ancs_app =
  is_discovering :: bool
  service_index :: u16
  discovery_result :: bool
  service_data :: bool
  ancs_svc :: gatt_service
  service_is_found :: bool
  chrc_is_found :: bool
  chrc_dec_is_found :: bool
  disc_params :: disc_type
  decoder :: ancs_data
  uuid_data :: bytes
  notif_attr_req :: bytes
  g_last_received_notification :: u16
  pending_flag :: u8
  ns_handle :: u16
  nc_handle :: u16
  pconn :: bool
  remote_gatt_handles_present :: bool
  notif_configuring :: bool
  bonded :: bool
  bonded_bd_addr :: bytes
  bt_ready_flag :: u8
  msgs :: "app_msg list"
  calls :: "ancs_call list"

abbreviation (input) "INVALID_ATT_HANDLE \<equiv> 0 :: u16"

definition ANCS_NS_UUID :: bytes where
  "ANCS_NS_UUID = [0xBD, 0x1D, 0xA2, 0x99, 0xE6, 0x25, 0x58, 0x8C, 0xD9, 0x42, 0x01, 0x63, 0x0D, 0x12, 0xBF, 0x9F]"

definition ANCS_CP_UUID :: bytes where
  "ANCS_CP_UUID = [0xD9, 0xD9, 0xAA, 0xFD, 0xBD, 0x9B, 0x21, 0x98, 0xA8, 0x49, 0xE1, 0x45, 0xF3, 0xD8, 0xD1, 0x69]"

definition ANCS_DS_UUID :: bytes where
  "ANCS_DS_UUID = [0xFB, 0x7B, 0x7C, 0xCE, 0x6A, 0xB3, 0x44, 0xBE, 0xB5, 0x4B, 0xD6, 0x24, 0xE9, 0xC6, 0xEA, 0x22]"

definition g_disc_ancs_char :: "gatt_characteristic list" where
  "g_disc_ancs_char = map (\<lambda>(u, ccd). \<lparr>start_handle = 0, end_handle = 0, chr_uuid = u, has_ccd = ccd, ccd_handle = 0\<rparr>)
     [(ANCS_NS_UUID, True), (ANCS_CP_UUID, False), (ANCS_DS_UUID, True)]"

definition g_disc_ancs_service :: gatt_service where
  "g_disc_ancs_service = \<lparr>svc_start = 0, svc_end = 0, num_chars = 3, char_index = 0, char_data = g_disc_ancs_char\<rparr>"

definition do_call :: "ancs_call \<Rightarrow> ancs_app \<Rightarrow> ancs_app" where
  "do_call c s = s\<lparr>calls := calls s @ [c]\<rparr>"

text \<open>A message waits a second for one of eight buffers and is dropped then.\<close>

definition post_msg :: "app_msg \<Rightarrow> ancs_app \<Rightarrow> ancs_app" where
  "post_msg m s = (if length (msgs s) < 8 then s\<lparr>msgs := msgs s @ [m]\<rparr> else s)"

definition app_disc_send_msg_to_app :: "ble_event \<Rightarrow> bool \<Rightarrow> ancs_app \<Rightarrow> ancs_app" where
  "app_disc_send_msg_to_app e st s = post_msg (Ble_Event e (of_bool st)) s"

definition chr_at :: "u16 \<Rightarrow> ancs_app \<Rightarrow> gatt_characteristic res" where
  "chr_at i s = arr_get (char_data (ancs_svc s)) (unat i)"

definition upd_chr :: "u16 \<Rightarrow> (gatt_characteristic \<Rightarrow> gatt_characteristic) \<Rightarrow> ancs_app \<Rightarrow> ancs_app res" where
  "upd_chr i f s = rbind (chr_at i s) (\<lambda>c. rbind (arr_set (char_data (ancs_svc s)) (unat i) (f c)) (\<lambda>cs.
     Inr (s\<lparr>ancs_svc := (ancs_svc s)\<lparr>char_data := cs\<rparr>\<rparr>)))"

section \<open>Handles\<close>

definition nv16 :: "string \<Rightarrow> u16 \<Rightarrow> ancs_app \<Rightarrow> ancs_app" where
  "nv16 name v s = do_call (Nv_Set name (u16_encode v)) s"

definition chr_name :: "string \<Rightarrow> nat \<Rightarrow> string" where
  "chr_name prefix i = prefix @ [char_of (48 + i)]"

definition write_disc_ancs_service_handles_to_nvm :: "ancs_app \<Rightarrow> ancs_app" where
  "write_disc_ancs_service_handles_to_nvm s =
     (let v = ancs_svc s; s = nv16 ''ancs_srv_e_h'' (svc_end v) (nv16 ''ancs_srv_s_h'' (svc_start v) s) in
      fold (\<lambda>(i, c) s. nv16 (chr_name ''ancs_ch_ccd_h_'' i) (ccd_handle c) (nv16 (chr_name ''ancs_ch_h_'' i) (start_handle c) s))
        (zip [0..<unat (num_chars v)] (char_data v)) s)"

text \<open>A read that fails leaves the variable as it is.\<close>

definition nv_read16 :: "ancs_host \<Rightarrow> string \<Rightarrow> u16 \<Rightarrow> ancs_app \<Rightarrow> u16" where
  "nv_read16 h name old s = (case nv_load h (calls s) name of Some [lo, hi] \<Rightarrow> ucast lo OR push_bit 8 (ucast hi) | _ \<Rightarrow> old)"

definition read_disc_ancs_service_handles_from_nvm :: "ancs_host \<Rightarrow> bool \<Rightarrow> ancs_app \<Rightarrow> ancs_app" where
  "read_disc_ancs_service_handles_from_nvm h handles_present s =
     (if handles_present
      then let v = ancs_svc s in
        s\<lparr>ancs_svc := v\<lparr>svc_start := nv_read16 h ''ancs_srv_s_h'' (svc_start v) s, svc_end := nv_read16 h ''ancs_srv_e_h'' (svc_end v) s,
          char_data := map (\<lambda>(i, c). c\<lparr>start_handle := nv_read16 h (chr_name ''ancs_ch_h_'' i) (start_handle c) s,
              ccd_handle := nv_read16 h (chr_name ''ancs_ch_ccd_h_'' i) (ccd_handle c) s\<rparr>)
            (zip [0..<unat (num_chars v)] (char_data v))\<rparr>\<rparr>
      else s)"

definition does_handle_belong_to_discovered_ancs_service :: "u16 \<Rightarrow> ancs_app \<Rightarrow> bool" where
  "does_handle_belong_to_discovered_ancs_service handle s \<longleftrightarrow> svc_start (ancs_svc s) \<le> handle \<and> handle \<le> svc_end (ancs_svc s)"

definition get_ancs_notification_handle :: "ancs_app \<Rightarrow> u16" where
  "get_ancs_notification_handle s = start_handle (char_data (ancs_svc s) ! 0) + 1"

definition get_ancs_notification_ccd_handle :: "ancs_app \<Rightarrow> u16" where
  "get_ancs_notification_ccd_handle s = ccd_handle (char_data (ancs_svc s) ! 0)"

definition get_ancs_control_point_handle :: "ancs_app \<Rightarrow> u16" where
  "get_ancs_control_point_handle s = start_handle (char_data (ancs_svc s) ! 1) + 1"

definition get_ancs_data_source_handle :: "ancs_app \<Rightarrow> u16" where
  "get_ancs_data_source_handle s = start_handle (char_data (ancs_svc s) ! 2) + 1"

definition get_ancs_data_source_ccd_handle :: "ancs_app \<Rightarrow> u16" where
  "get_ancs_data_source_ccd_handle s = ccd_handle (char_data (ancs_svc s) ! 2)"

section \<open>Discovery\<close>

text \<open>The result of starting a discovery is only printed.\<close>

definition GattDiscoverPrimaryServiceByUuid :: "bool \<Rightarrow> ancs_app \<Rightarrow> ancs_app" where
  "GattDiscoverPrimaryServiceByUuid conn s =
     (if \<not> conn then s else do_call (Gatt_Discover Discover_Primary 0x0001 0xffff) (s\<lparr>disc_params := Discover_Primary\<rparr>))"

definition GattDiscoverServiceChar :: "bool \<Rightarrow> u16 \<Rightarrow> u16 \<Rightarrow> ancs_app \<Rightarrow> ancs_app" where
  "GattDiscoverServiceChar conn st en s =
     (if \<not> conn then s else do_call (Gatt_Discover Discover_Characteristic st en) (s\<lparr>disc_params := Discover_Characteristic\<rparr>))"

definition GattDiscoverAllCharDescriptors :: "bool \<Rightarrow> u16 \<Rightarrow> u16 \<Rightarrow> ancs_app \<Rightarrow> ancs_app" where
  "GattDiscoverAllCharDescriptors conn st en s =
     (if \<not> conn then s else do_call (Gatt_Discover Discover_Descriptor st en) (s\<lparr>disc_params := Discover_Descriptor\<rparr>))"

text \<open>The list of services has one entry and the terminating null pointer.\<close>

definition discover_a_primary_service :: "bool \<Rightarrow> ancs_app \<Rightarrow> ancs_app res" where
  "discover_a_primary_service conn s =
     (if service_index s = 0 then Inr (GattDiscoverPrimaryServiceByUuid conn (s\<lparr>service_data := True\<rparr>))
      else if service_index s = 1 then Inl Null_Deref else Inl Out_Of_Bounds)"

definition start_gatt_database_discovery :: "bool \<Rightarrow> ancs_app \<Rightarrow> ancs_app res" where
  "start_gatt_database_discovery conn s =
     discover_a_primary_service conn (s\<lparr>service_index := 0, is_discovering := True, discovery_result := True\<rparr>)"

definition write_discovered_gatt_database_to_nvm :: "ancs_app \<Rightarrow> ancs_app" where
  "write_discovered_gatt_database_to_nvm s = write_disc_ancs_service_handles_to_nvm s"

definition stop_gatt_database_discovery :: "ancs_app \<Rightarrow> ancs_app" where
  "stop_gatt_database_discovery s =
     (let s = (write_discovered_gatt_database_to_nvm s)\<lparr>is_discovering := False\<rparr> in app_disc_send_msg_to_app Discovery_Complete (discovery_result s) s)"

definition next_service :: "bool \<Rightarrow> ancs_app \<Rightarrow> ancs_app res" where
  "next_service conn s =
     (let s = s\<lparr>service_index := service_index s + 1\<rparr> in
      if service_index s = 0 then discover_a_primary_service conn s
      else if service_index s = 1 then Inr (stop_gatt_database_discovery s) else Inl Out_Of_Bounds)"

definition handle_discover_primary_service_ind :: "u16 \<Rightarrow> u16 \<Rightarrow> ancs_app \<Rightarrow> ancs_app res" where
  "handle_discover_primary_service_ind st en s =
     (if service_data s then Inr (s\<lparr>ancs_svc := (ancs_svc s)\<lparr>svc_start := st, svc_end := en, char_index := 0\<rparr>\<rparr>) else Inl Null_Deref)"

definition handle_service_discovery_primary_service_by_uuid_cfm :: "bool \<Rightarrow> int \<Rightarrow> ancs_app \<Rightarrow> ancs_app res" where
  "handle_service_discovery_primary_service_by_uuid_cfm conn status s =
     (if \<not> service_data s then Inl Null_Deref
      else let v = ancs_svc s in
        if status = 0 \<and> svc_start v \<noteq> INVALID_ATT_HANDLE \<and> svc_end v \<noteq> INVALID_ATT_HANDLE
        then Inr (GattDiscoverServiceChar conn (svc_start v) (svc_end v) (s\<lparr>ancs_svc := v\<lparr>char_index := 0xFFFF\<rparr>\<rparr>))
        else next_service conn (s\<lparr>discovery_result := False\<rparr>))"

definition handle_gatt_service_characteristic_declaration_info_ind :: "bytes \<Rightarrow> u16 \<Rightarrow> ancs_app \<Rightarrow> ancs_app res" where
  "handle_gatt_service_characteristic_declaration_info_ind uuid handle s =
     (if \<not> service_data s then Inl Null_Deref
      else case find (\<lambda>i. chr_uuid (char_data (ancs_svc s) ! i) = uuid) [0..<unat (num_chars (ancs_svc s))] of
        None \<Rightarrow> Inr s
      | Some i \<Rightarrow>
          rbind (upd_chr (of_nat i) (\<lambda>c. c\<lparr>start_handle := handle, end_handle := svc_end (ancs_svc s)\<rparr>) s) (\<lambda>s.
          rbind (if char_index (ancs_svc s) \<noteq> 0xFFFF then upd_chr (char_index (ancs_svc s)) (\<lambda>c. c\<lparr>end_handle := handle - 2\<rparr>) s else Inr s) (\<lambda>s.
          Inr (s\<lparr>ancs_svc := (ancs_svc s)\<lparr>char_index := of_nat i\<rparr>\<rparr>))))"

text \<open>The first characteristic from \<open>i\<close> on that has a client configuration.\<close>

definition next_ccd :: "nat \<Rightarrow> ancs_app \<Rightarrow> nat option" where
  "next_ccd i s = find (\<lambda>i. has_ccd (char_data (ancs_svc s) ! i)) [i..<unat (num_chars (ancs_svc s))]"

text \<open>Without such a characteristic the code looks at the entry after the last.\<close>

definition handle_gatt_discover_service_characteristic_cfm :: "bool \<Rightarrow> int \<Rightarrow> ancs_app \<Rightarrow> ancs_app res" where
  "handle_gatt_discover_service_characteristic_cfm conn status s =
     (if \<not> service_data s then Inl Null_Deref
      else
        let found = next_ccd 0 s;
            s = (case found of Some i \<Rightarrow> s\<lparr>ancs_svc := (ancs_svc s)\<lparr>char_index := of_nat i\<rparr>\<rparr> | None \<Rightarrow> s);
            i = (case found of Some i \<Rightarrow> of_nat i | None \<Rightarrow> num_chars (ancs_svc s)) in
        rbind (if status = 0 then rbind (chr_at i s) (\<lambda>c. Inr (Some c)) else Inr None) (\<lambda>oc.
        case oc of
          Some c \<Rightarrow>
            if start_handle c \<noteq> INVALID_ATT_HANDLE \<and> found \<noteq> None
            then Inr (GattDiscoverAllCharDescriptors conn (start_handle c + 2) (start_handle c + 2) s)
            else next_service conn s
        | None \<Rightarrow> next_service conn (s\<lparr>discovery_result := False\<rparr>)))"

definition handle_gatt_characteristic_descriptor_info_ind :: "u16 option \<Rightarrow> u16 \<Rightarrow> ancs_app \<Rightarrow> ancs_app res" where
  "handle_gatt_characteristic_descriptor_info_ind uuid_16 handle s =
     (if \<not> service_data s then Inl Null_Deref
      else if uuid_16 = Some 0x2902 then upd_chr (char_index (ancs_svc s)) (\<lambda>c. c\<lparr>ccd_handle := handle\<rparr>) s else Inr s)"

definition handle_gatt_characteristic_descriptor_cfm :: "bool \<Rightarrow> int \<Rightarrow> ancs_app \<Rightarrow> ancs_app res" where
  "handle_gatt_characteristic_descriptor_cfm conn status s =
     (if \<not> service_data s then Inl Null_Deref
      else if status = 0
      then case next_ccd (unat (char_index (ancs_svc s) + 1)) s of
          None \<Rightarrow> next_service conn s
        | Some i \<Rightarrow>
            let s = s\<lparr>ancs_svc := (ancs_svc s)\<lparr>char_index := of_nat i\<rparr>\<rparr> in
            rbind (chr_at (of_nat i) s) (\<lambda>c. Inr (GattDiscoverAllCharDescriptors conn (start_handle c + 2) (start_handle c + 2) s))
      else Inr (stop_gatt_database_discovery (s\<lparr>discovery_result := False\<rparr>)))"

definition read_discovered_gatt_database_from_nvm :: "ancs_host \<Rightarrow> bool \<Rightarrow> ancs_app \<Rightarrow> ancs_app" where
  "read_discovered_gatt_database_from_nvm h handles_present s = read_disc_ancs_service_handles_from_nvm h handles_present s"

definition reset_discovered_handles_database :: "ancs_app \<Rightarrow> ancs_app" where
  "reset_discovered_handles_database s =
     (let v = ancs_svc s in
      write_disc_ancs_service_handles_to_nvm (s\<lparr>service_data := True, ancs_svc := v\<lparr>svc_start := 0, svc_end := 0,
        char_data := map (\<lambda>c. c\<lparr>start_handle := 0, end_handle := 0, ccd_handle := 0\<rparr>) (char_data v)\<rparr>\<rparr>))"

text \<open>
  The callback of the host for an attribute that was found (a service, a characteristic or a descriptor), and for the end of the search. The kind of the
  attribute follows from the type of the search; another kind would be misread.
\<close>

datatype disc_attr = Attr_Service u16 u16 | Attr_Chrc bytes u16 | Attr_Desc "u16 option" u16

definition discover_func :: "disc_attr option \<Rightarrow> ancs_app \<Rightarrow> ancs_app res" where
  "discover_func attr s = (case (disc_params s, attr) of
     (Discover_Primary, None) \<Rightarrow> Inr ((app_disc_send_msg_to_app Disc_Prim_Serv (\<not> service_is_found s) s)\<lparr>service_is_found := False\<rparr>)
   | (Discover_Characteristic, None) \<Rightarrow>
       Inr ((app_disc_send_msg_to_app Disc_Service_Char (\<not> chrc_is_found s) s)\<lparr>chrc_is_found := False, disc_params := Discover_Primary\<rparr>)
   | (Discover_Descriptor, None) \<Rightarrow>
       Inr ((app_disc_send_msg_to_app Disc_Service_Char_Desc (\<not> chrc_dec_is_found s) s)\<lparr>chrc_dec_is_found := False, disc_params := Discover_Primary\<rparr>)
   | (Discover_Primary, Some (Attr_Service st en)) \<Rightarrow> handle_discover_primary_service_ind st en (s\<lparr>service_is_found := True\<rparr>)
   | (Discover_Characteristic, Some (Attr_Chrc uuid handle)) \<Rightarrow>
       handle_gatt_service_characteristic_declaration_info_ind uuid handle (s\<lparr>chrc_is_found := True\<rparr>)
   | (Discover_Descriptor, Some (Attr_Desc uuid handle)) \<Rightarrow> handle_gatt_characteristic_descriptor_info_ind uuid handle (s\<lparr>chrc_dec_is_found := True\<rparr>)
   | _ \<Rightarrow> Inl Uninit_Read)"

section \<open>Notifications\<close>

definition ancs_handle_notification_source_data :: "bytes \<Rightarrow> ancs_app \<Rightarrow> ancs_app res" where
  "ancs_handle_notification_source_data p s =
     rbind (arr_get p 0) (\<lambda>ev. rbind (arr_get p 1) (\<lambda>fl. rbind (arr_get p 2) (\<lambda>cat. rbind (arr_get p 3) (\<lambda>cnt.
     let s = s\<lparr>decoder := ancs_say [Say_Event ev fl cat cnt] (decoder s)\<rparr> in
     if ev = 2 then Inr s
     else rbind (mem_cpy (replicate ANCS_NS_NOTIF_UUID_SIZE 0) 0 (drop 4 p) ANCS_NS_NOTIF_UUID_SIZE) (\<lambda>u.
       Inr (post_msg Ancs_Service (s\<lparr>uuid_data := u, g_last_received_notification := ucast cat\<rparr>)))))))"

definition ancs_write_request :: "ancs_host \<Rightarrow> bytes \<Rightarrow> ancs_app \<Rightarrow> ancs_app" where
  "ancs_write_request h data s =
     (if pending_flag s = 0
      then let r = write_result h (calls s); s = do_call (Gatt_Write (get_ancs_control_point_handle s) data) s in
        if r = 0 then s\<lparr>pending_flag := 1\<rparr> else s
      else s)"

definition write_func :: "ancs_app \<Rightarrow> ancs_app" where
  "write_func s = s\<lparr>pending_flag := 0\<rparr>"

text \<open>The identifiers are combined with \<open>|\<close> and tested with \<open>&\<close> as if they were bits; the tests all succeed.\<close>

definition ancs_get_notification_attribute_cmd :: "ancs_host \<Rightarrow> ancs_app \<Rightarrow> ancs_app res" where
  "ancs_get_notification_attribute_cmd h s =
     (let features = 1 OR 2 OR 3 OR 4 OR 5 :: u16;
          v = 0 # uuid_data s @ [1, 0x14, 0]
            @ (if flag_set features 2 then [2, 0x14, 0] else [])
            @ (if flag_set features 3 then [3] else [])
            @ (if flag_set features 4 then [4] else [])
            @ [5] in
      rbind (mem_cpy (replicate (ANCS_MAX_NOTIF_ATT_LENGTH + 1) 0) 0 v (length v)) (\<lambda>req.
      let s = ancs_write_request h (take (length v) req) (s\<lparr>notif_attr_req := req\<rparr>) in
      Inr (s\<lparr>decoder := (decoder s)\<lparr>pending_cmd := 0\<rparr>\<rparr>)))"

text \<open>A notification of the peer, under one of the two subscriptions, or the end of the subscription.\<close>

definition ancs_notify_func :: "bool \<Rightarrow> bytes option \<Rightarrow> ancs_app \<Rightarrow> ancs_app res" where
  "ancs_notify_func ns data s = (case data of
     None \<Rightarrow> Inr (if ns then s\<lparr>ns_handle := 0\<rparr> else s\<lparr>nc_handle := 0\<rparr>)
   | Some p \<Rightarrow>
       let value_handle = (if ns then ns_handle s else nc_handle s) in
       if value_handle = get_ancs_notification_handle s then ancs_handle_notification_source_data p s
       else if value_handle = get_ancs_data_source_handle s then rbind (ancs_handle_data_source_data p (decoder s)) (\<lambda>d. Inr (s\<lparr>decoder := d\<rparr>))
       else Inr s)"

definition configure_ancs_notifications :: "ancs_app \<Rightarrow> ancs_app" where
  "configure_ancs_notifications s =
     do_call (Gatt_Subscribe (get_ancs_notification_ccd_handle s) (get_ancs_notification_handle s)) (s\<lparr>ns_handle := get_ancs_notification_handle s\<rparr>)"

definition configure_ancs_data_source_notification :: "ancs_app \<Rightarrow> ancs_app" where
  "configure_ancs_data_source_notification s =
     do_call (Gatt_Subscribe (get_ancs_data_source_ccd_handle s) (get_ancs_data_source_handle s)) (s\<lparr>nc_handle := get_ancs_data_source_handle s\<rparr>)"

definition does_handle_belongs_to_ancs_service :: "u16 \<Rightarrow> ancs_app \<Rightarrow> bool" where
  "does_handle_belongs_to_ancs_service handle s \<longleftrightarrow> svc_start (ancs_svc s) \<le> handle \<and> handle \<le> svc_end (ancs_svc s)"

definition ancs_handler_notif_ind :: "u16 \<Rightarrow> bytes \<Rightarrow> ancs_app \<Rightarrow> (bool \<times> ancs_app) res" where
  "ancs_handler_notif_ind handle p s =
     (if handle = get_ancs_notification_handle s then rbind (ancs_handle_notification_source_data p s) (\<lambda>s. Inr (True, s))
      else if handle = get_ancs_data_source_handle s
      then rbind (ancs_handle_data_source_data p (decoder s)) (\<lambda>d. Inr (False, s\<lparr>decoder := d\<rparr>))
      else Inr (False, s))"

section \<open>The application\<close>

definition app_ble_send_msg_to_app :: "ble_event \<Rightarrow> int \<Rightarrow> ancs_app \<Rightarrow> ancs_app" where
  "app_ble_send_msg_to_app e st s = post_msg (Ble_Event e st) s"

definition ancs_connected :: "u8 \<Rightarrow> ancs_app \<Rightarrow> ancs_app" where
  "ancs_connected err s = (if err \<noteq> 0 then s else app_ble_send_msg_to_app Conn_Open (uint err) (do_call Set_Security (s\<lparr>pconn := True\<rparr>)))"

definition ancs_disconnected :: "ancs_host \<Rightarrow> u8 \<Rightarrow> ancs_app \<Rightarrow> ancs_app" where
  "ancs_disconnected h reason s =
     (let s = app_ble_send_msg_to_app Conn_Close (uint reason) (s\<lparr>pconn := False\<rparr>) in if ota_reset h (calls s) then do_call Reboot s else s)"

definition security_changed :: "u8 \<Rightarrow> ancs_app \<Rightarrow> ancs_app" where
  "security_changed level s = app_ble_send_msg_to_app Conn_Sec_Open (uint level) s"

definition appConfigureNotifications :: "bool \<Rightarrow> ancs_app \<Rightarrow> ancs_app" where
  "appConfigureNotifications datasource s = (if \<not> datasource then configure_ancs_notifications s else configure_ancs_data_source_notification s)"

definition nv_read8 :: "ancs_host \<Rightarrow> string \<Rightarrow> bool \<Rightarrow> ancs_app \<Rightarrow> bool" where
  "nv_read8 h name old s = (case nv_load h (calls s) name of Some [b] \<Rightarrow> b \<noteq> 0 | _ \<Rightarrow> old)"

definition nv8 :: "string \<Rightarrow> bool \<Rightarrow> ancs_app \<Rightarrow> ancs_app" where
  "nv8 name v s = do_call (Nv_Set name [of_bool v]) s"

definition read_persistent_store :: "ancs_host \<Rightarrow> ancs_app \<Rightarrow> ancs_app" where
  "read_persistent_store h s =
     (if nv_read16 h ''sanity'' 0xffff s = 0xAB1B
      then let s = s\<lparr>bonded := nv_read8 h ''bond_flag'' (bonded s) s\<rparr>;
               s = (if bonded s then s\<lparr>bonded_bd_addr := (case nv_load h (calls s) ''bond_bd_addr'' of Some a \<Rightarrow> a | None \<Rightarrow> bonded_bd_addr s)\<rparr> else s\<lparr>bonded := False\<rparr>);
               s = s\<lparr>remote_gatt_handles_present := nv_read8 h ''disc_h_present'' (remote_gatt_handles_present s) s\<rparr> in
        read_discovered_gatt_database_from_nvm h (remote_gatt_handles_present s) s
      else let s = nv16 ''sanity'' 0xAB1B s; s = nv8 ''bond_flag'' False (s\<lparr>bonded := False\<rparr>);
               s = nv8 ''disc_h_present'' False (s\<lparr>remote_gatt_handles_present := False\<rparr>) in
        read_discovered_gatt_database_from_nvm h (remote_gatt_handles_present s) s)"

definition ancs_bt_ready :: "ancs_host \<Rightarrow> int \<Rightarrow> ancs_app \<Rightarrow> ancs_app" where
  "ancs_bt_ready h err s =
     (if err \<noteq> 0 then s
      else let s = (read_persistent_store h s)\<lparr>pconn := False\<rparr> in do_call Adv_Start (s\<lparr>bt_ready_flag := 1\<rparr>))"

definition app_ble_event_handle :: "ble_event \<Rightarrow> int \<Rightarrow> ancs_app \<Rightarrow> ancs_app res" where
  "app_ble_event_handle e status s = (case e of
     Conn_Open \<Rightarrow> Inr s
   | Conn_Sec_Open \<Rightarrow> if pconn s then start_gatt_database_discovery True s else Inr s
   | Conn_Close \<Rightarrow> Inr (do_call Adv_Start (s\<lparr>notif_configuring := False, decoder := ancs_service_data_init (decoder s)\<rparr>))
   | Disc_Prim_Serv \<Rightarrow> if pconn s then handle_service_discovery_primary_service_by_uuid_cfm True status s else Inr s
   | Disc_Service_Char \<Rightarrow> if pconn s then handle_gatt_discover_service_characteristic_cfm True status s else Inr s
   | Disc_Service_Char_Desc \<Rightarrow> if pconn s then handle_gatt_characteristic_descriptor_cfm True status s else Inr s
   | Discovery_Complete \<Rightarrow>
       if pconn s
       then let s = nv8 ''disc_h_present'' True (s\<lparr>remote_gatt_handles_present := True\<rparr>) in
         Inr (if get_ancs_notification_ccd_handle s \<noteq> INVALID_ATT_HANDLE \<and> \<not> notif_configuring s
              then appConfigureNotifications False (appConfigureNotifications True (s\<lparr>notif_configuring := True\<rparr>)) else s)
       else Inr s)"

text \<open>One message of the main loop.\<close>

definition ancs_main :: "ancs_host \<Rightarrow> ancs_app \<Rightarrow> ancs_app res" where
  "ancs_main h s = (case msgs s of
     [] \<Rightarrow> Inr s
   | Ble_Event e status # ms \<Rightarrow> app_ble_event_handle e status (s\<lparr>msgs := ms\<rparr>)
   | Ancs_Service # ms \<Rightarrow> let s = s\<lparr>msgs := ms\<rparr> in if pconn s then ancs_get_notification_attribute_cmd h s else Inr s)"

section \<open>Discovery finds the handles\<close>

text \<open>The events of a discovery: the link is secure, the main loop takes a message, the host reports an attribute or the end of the search.\<close>

datatype ancs_event = Ev_Secure u8 | Ev_Loop | Ev_Attr "disc_attr option"

definition ancs_event :: "ancs_host \<Rightarrow> ancs_event \<Rightarrow> ancs_app \<Rightarrow> ancs_app res" where
  "ancs_event h e s = (case e of Ev_Secure l \<Rightarrow> Inr (security_changed l s) | Ev_Loop \<Rightarrow> ancs_main h s | Ev_Attr a \<Rightarrow> discover_func a s)"

fun ancs_events :: "ancs_host \<Rightarrow> ancs_event list \<Rightarrow> ancs_app \<Rightarrow> ancs_app res" where
  "ancs_events h [] s = Inr s"
| "ancs_events h (e # es) s = rbind (ancs_event h e s) (ancs_events h es)"

lemma ancs_events_append: "ancs_events h (es @ fs) s = rbind (ancs_events h es s) (ancs_events h fs)"
  by (induction es arbitrary: s) (auto simp: rbind_def split: sum.splits)

text \<open>The table of the service as the code initialises it: only handles change.\<close>

definition svc_shape :: "gatt_service \<Rightarrow> bool" where
  "svc_shape v \<longleftrightarrow> num_chars v = 3 \<and> map chr_uuid (char_data v) = [ANCS_NS_UUID, ANCS_CP_UUID, ANCS_DS_UUID] \<and> map has_ccd (char_data v) = [True, False, True]"

definition index_of :: "bytes \<Rightarrow> nat option" where
  "index_of u = (if u = ANCS_NS_UUID then Some 0 else if u = ANCS_CP_UUID then Some 1 else if u = ANCS_DS_UUID then Some 2 else None)"

lemma uuids_distinct [simp]: "ANCS_NS_UUID \<noteq> ANCS_CP_UUID" "ANCS_NS_UUID \<noteq> ANCS_DS_UUID" "ANCS_CP_UUID \<noteq> ANCS_DS_UUID"
  "ANCS_CP_UUID \<noteq> ANCS_NS_UUID" "ANCS_DS_UUID \<noteq> ANCS_NS_UUID" "ANCS_DS_UUID \<noteq> ANCS_CP_UUID"
  by (auto simp: ANCS_NS_UUID_def ANCS_CP_UUID_def ANCS_DS_UUID_def)

lemma svc_shape_cases:
  assumes "svc_shape v"
  obtains c0 c1 c2 where "char_data v = [c0, c1, c2]" "chr_uuid c0 = ANCS_NS_UUID" "chr_uuid c1 = ANCS_CP_UUID" "chr_uuid c2 = ANCS_DS_UUID"
    "has_ccd c0" "\<not> has_ccd c1" "has_ccd c2" "num_chars v = 3"
  using assms by (auto simp: svc_shape_def map_eq_Cons_conv)

lemma upt3: "[0..<3] = [0, 1, 2 :: nat]" "[Suc 0..<3] = [1, 2 :: nat]" "[3..<3] = ([] :: nat list)"
  by (simp_all add: upt_rec)

text \<open>What a report of a characteristic does to the table.\<close>

definition note_chrc :: "bytes \<Rightarrow> u16 \<Rightarrow> gatt_service \<Rightarrow> gatt_service" where
  "note_chrc u x v = (case index_of u of None \<Rightarrow> v
   | Some i \<Rightarrow> let cs = (char_data v)[i := (char_data v ! i)\<lparr>start_handle := x, end_handle := svc_end v\<rparr>] in
       v\<lparr>char_data := (if char_index v \<noteq> 0xFFFF then let j = unat (char_index v) in cs[j := (cs ! j)\<lparr>end_handle := x - 2\<rparr>] else cs), char_index := of_nat i\<rparr>)"

definition index_ok :: "gatt_service \<Rightarrow> bool" where
  "index_ok v \<longleftrightarrow> char_index v = 0xFFFF \<or> unat (char_index v) < 3"

lemma chrc_ind:
  assumes "svc_shape (ancs_svc s)" "index_ok (ancs_svc s)" "service_data s"
  shows "handle_gatt_service_characteristic_declaration_info_ind u x s = Inr (s\<lparr>ancs_svc := note_chrc u x (ancs_svc s)\<rparr>)"
  using assms
  by (auto elim!: svc_shape_cases simp: handle_gatt_service_characteristic_declaration_info_ind_def note_chrc_def index_of_def upt3 upd_chr_def chr_at_def
      arr_get_def arr_set_def index_ok_def Let_def)

lemma note_chrc_keeps:
  assumes "svc_shape v" "index_ok v"
  shows "svc_shape (note_chrc u x v)" "index_ok (note_chrc u x v)" "svc_start (note_chrc u x v) = svc_start v" "svc_end (note_chrc u x v) = svc_end v"
    "map ccd_handle (char_data (note_chrc u x v)) = map ccd_handle (char_data v)"
  using assms by (auto elim!: svc_shape_cases simp: note_chrc_def index_of_def index_ok_def svc_shape_def Let_def nth_Cons' list_update_code split: nat.splits)

lemma note_chrc_start:
  assumes "svc_shape v" "index_ok v"
  shows "map start_handle (char_data (note_chrc u x v)) =
    (case index_of u of None \<Rightarrow> map start_handle (char_data v) | Some i \<Rightarrow> (map start_handle (char_data v))[i := x])"
  using assms by (auto elim!: svc_shape_cases simp: note_chrc_def index_of_def index_ok_def svc_shape_def Let_def nth_Cons' list_update_code split: nat.splits)

text \<open>The handle of the last report of each of the three characteristics.\<close>

definition last_handle :: "(bytes \<times> u16) list \<Rightarrow> bytes \<Rightarrow> u16 \<Rightarrow> u16" where
  "last_handle cs u old = (case map_of (rev cs) u of Some x \<Rightarrow> x | None \<Rightarrow> old)"

definition chrc_events :: "(bytes \<times> u16) list \<Rightarrow> ancs_event list" where
  "chrc_events cs = map (\<lambda>(u, x). Ev_Attr (Some (Attr_Chrc u x))) cs"

lemma start_handles_step:
  assumes "svc_shape v" "index_ok v"
  shows "map start_handle (char_data (note_chrc u x v)) =
    map (\<lambda>(w, old). if w = u then x else old) (zip [ANCS_NS_UUID, ANCS_CP_UUID, ANCS_DS_UUID] (map start_handle (char_data v)))"
  using assms by (auto elim!: svc_shape_cases simp: note_chrc_start index_of_def)

lemma last_handle_step: "last_handle ((u, x) # cs) w old = last_handle cs w (if w = u then x else old)"
  by (simp add: last_handle_def map_add_def split: option.splits)

lemma chrcs_found:
  assumes "svc_shape (ancs_svc s)" "index_ok (ancs_svc s)" "service_data s" "disc_params s = Discover_Characteristic"
  shows "\<exists>v f. ancs_events h (chrc_events cs) s = Inr (s\<lparr>ancs_svc := v, chrc_is_found := f\<rparr>) \<and> (cs \<noteq> [] \<longrightarrow> f) \<and> svc_shape v \<and>
    svc_start v = svc_start (ancs_svc s) \<and> svc_end v = svc_end (ancs_svc s) \<and>
    map start_handle (char_data v) =
      map (\<lambda>(w, old). last_handle cs w old) (zip [ANCS_NS_UUID, ANCS_CP_UUID, ANCS_DS_UUID] (map start_handle (char_data (ancs_svc s))))"
  using assms
proof (induction cs arbitrary: s)
  case Nil
  then show ?case
    by (intro exI [of _ "ancs_svc s"] exI [of _ "chrc_is_found s"]) (auto elim!: svc_shape_cases simp: chrc_events_def last_handle_def)
next
  case (Cons c cs)
  obtain u x where c: "c = (u, x)" by (cases c)
  let ?t = "s\<lparr>ancs_svc := note_chrc u x (ancs_svc s), chrc_is_found := True\<rparr>"
  note kept = note_chrc_keeps [OF Cons.prems(1,2), of u x]
  have e: "ancs_event h (Ev_Attr (Some (Attr_Chrc u x))) s = Inr ?t"
    using chrc_ind [of "s\<lparr>chrc_is_found := True\<rparr>" u x] Cons.prems by (simp add: ancs_event_def discover_func_def)
  obtain v f where v: "ancs_events h (chrc_events cs) ?t = Inr (?t\<lparr>ancs_svc := v, chrc_is_found := f\<rparr>)" "cs \<noteq> [] \<longrightarrow> f" "svc_shape v"
    "svc_start v = svc_start (ancs_svc s)" "svc_end v = svc_end (ancs_svc s)"
    "map start_handle (char_data v) = map (\<lambda>(w, old). last_handle cs w old)
       (zip [ANCS_NS_UUID, ANCS_CP_UUID, ANCS_DS_UUID] (map start_handle (char_data (note_chrc u x (ancs_svc s)))))"
    using Cons.IH [of ?t] kept Cons.prems(3,4) by auto
  have f: "f" if "cs = []" using v(1) that by (simp add: chrc_events_def) (metis ancs_app.select_convs(7) ancs_app.update_convs(7) ancs_app.surjective)
  show ?case
    using v f e c start_handles_step [OF Cons.prems(1,2), of u x] Cons.prems(1)
    by (intro exI [of _ v] exI [of _ f]) (auto elim!: svc_shape_cases simp: chrc_events_def last_handle_step)
qed

lemmas ancs_ev = ancs_event_def security_changed_def app_ble_send_msg_to_app_def post_msg_def ancs_main_def app_ble_event_handle_def discover_func_def
  app_disc_send_msg_to_app_def do_call_def

lemma ev_start:
  assumes "msgs s = []" "pconn s"
  shows "ancs_events h [Ev_Secure l, Ev_Loop] s = Inr (s\<lparr>service_index := 0, is_discovering := True, discovery_result := True, service_data := True,
    disc_params := Discover_Primary, calls := calls s @ [Gatt_Discover Discover_Primary 1 0xffff]\<rparr>)"
  using assms by (simp add: ancs_ev start_gatt_database_discovery_def discover_a_primary_service_def GattDiscoverPrimaryServiceByUuid_def)

lemma ev_service:
  assumes "msgs s = []" "pconn s" "service_data s" "disc_params s = Discover_Primary" "st \<noteq> 0" "en \<noteq> 0"
  shows "ancs_events h [Ev_Attr (Some (Attr_Service st en)), Ev_Attr None, Ev_Loop] s = Inr (s\<lparr>ancs_svc := (ancs_svc s)\<lparr>svc_start := st, svc_end := en, char_index := 0xFFFF\<rparr>,
    service_is_found := False, disc_params := Discover_Characteristic, calls := calls s @ [Gatt_Discover Discover_Characteristic st en]\<rparr>)"
  using assms
  by (simp add: ancs_ev handle_discover_primary_service_ind_def handle_service_discovery_primary_service_by_uuid_cfm_def GattDiscoverServiceChar_def)

lemma ev_chrcs_end:
  assumes "msgs s = []" "pconn s" "service_data s" "disc_params s = Discover_Characteristic" "chrc_is_found s" "svc_shape (ancs_svc s)"
    "start_handle (char_data (ancs_svc s) ! 0) = x0" "x0 \<noteq> 0"
  shows "ancs_events h [Ev_Attr None, Ev_Loop] s = Inr (s\<lparr>ancs_svc := (ancs_svc s)\<lparr>char_index := 0\<rparr>,
    chrc_is_found := False, disc_params := Discover_Descriptor, calls := calls s @ [Gatt_Discover Discover_Descriptor (x0 + 2) (x0 + 2)]\<rparr>)"
  using assms
  by (auto elim!: svc_shape_cases simp: ancs_ev handle_gatt_discover_service_characteristic_cfm_def GattDiscoverAllCharDescriptors_def next_ccd_def upt3
      chr_at_def arr_get_def Let_def)

lemma ev_desc_next:
  assumes "msgs s = []" "pconn s" "service_data s" "disc_params s = Discover_Descriptor" "svc_shape (ancs_svc s)" "char_index (ancs_svc s) = 0"
  shows "ancs_events h [Ev_Attr (Some (Attr_Desc (Some 0x2902) d)), Ev_Attr None, Ev_Loop] s = Inr (let v = ancs_svc s; x2 = start_handle (char_data v ! 2) in
    s\<lparr>ancs_svc := v\<lparr>char_index := 2, char_data := (char_data v)[0 := (char_data v ! 0)\<lparr>ccd_handle := d\<rparr>]\<rparr>,
    chrc_dec_is_found := False, disc_params := Discover_Descriptor, calls := calls s @ [Gatt_Discover Discover_Descriptor (x2 + 2) (x2 + 2)]\<rparr>)"
  using assms
  by (auto elim!: svc_shape_cases simp: ancs_ev handle_gatt_characteristic_descriptor_info_ind_def handle_gatt_characteristic_descriptor_cfm_def upd_chr_def
      GattDiscoverAllCharDescriptors_def next_ccd_def upt3 chr_at_def arr_get_def arr_set_def Let_def)

text \<open>What is stored of the table.\<close>

definition stored_handles :: "gatt_service \<Rightarrow> (string \<times> u16) list" where
  "stored_handles v = (''ancs_srv_s_h'', svc_start v) # (''ancs_srv_e_h'', svc_end v) #
     concat (map (\<lambda>(i, c). [(chr_name ''ancs_ch_h_'' i, start_handle c), (chr_name ''ancs_ch_ccd_h_'' i, ccd_handle c)]) (zip [0..<3] (char_data v)))"

lemma write_disc_shape:
  assumes "svc_shape (ancs_svc s)"
  shows "write_disc_ancs_service_handles_to_nvm s = s\<lparr>calls := calls s @ map (\<lambda>(n, x). Nv_Set n (u16_encode x)) (stored_handles (ancs_svc s))\<rparr>"
  using assms by (auto elim!: svc_shape_cases simp: write_disc_ancs_service_handles_to_nvm_def stored_handles_def upt3 nv16_def do_call_def Let_def)

text \<open>The writes of the table, and the calls at the end of a discovery.\<close>

definition store_calls :: "gatt_service \<Rightarrow> ancs_call list" where
  "store_calls v = map (\<lambda>(n, x). Nv_Set n (u16_encode x)) (stored_handles v) @ [Nv_Set ''disc_h_present'' [1]]"

lemma ev_desc_last:
  assumes "msgs s = []" "pconn s" "service_data s" "disc_params s = Discover_Descriptor" "svc_shape (ancs_svc s)" "char_index (ancs_svc s) = 2" "service_index s = 0"
    "discovery_result s" "\<not> notif_configuring s" "ccd_handle (char_data (ancs_svc s) ! 0) \<noteq> 0"
  shows "\<exists>s'. ancs_events h [Ev_Attr (Some (Attr_Desc (Some 0x2902) d)), Ev_Attr None, Ev_Loop, Ev_Loop] s = Inr s' \<and>
    ancs_svc s' = (ancs_svc s)\<lparr>char_data := (char_data (ancs_svc s))[2 := (char_data (ancs_svc s) ! 2)\<lparr>ccd_handle := d\<rparr>]\<rparr> \<and> msgs s' = [] \<and> notif_configuring s' \<and>
    \<not> is_discovering s' \<and> remote_gatt_handles_present s' \<and> 
    calls s' = calls s @ store_calls (ancs_svc s') @ [Gatt_Subscribe d (start_handle (char_data (ancs_svc s) ! 2) + 1),
      Gatt_Subscribe (ccd_handle (char_data (ancs_svc s) ! 0)) (start_handle (char_data (ancs_svc s) ! 0) + 1)]"
proof -
  let ?v = "(ancs_svc s)\<lparr>char_data := (char_data (ancs_svc s))[2 := (char_data (ancs_svc s) ! 2)\<lparr>ccd_handle := d\<rparr>]\<rparr>"
  have sh: "svc_shape ?v" "num_chars ?v = 3" using assms(5) by (auto elim!: svc_shape_cases simp: svc_shape_def)
  let ?t = "s\<lparr>ancs_svc := ?v, chrc_dec_is_found := True\<rparr>"
  let ?w = "calls s @ map (\<lambda>(n, x). Nv_Set n (u16_encode x)) (stored_handles ?v)"
  let ?u = "?t\<lparr>chrc_dec_is_found := False, disc_params := Discover_Primary, service_index := 1, is_discovering := False, calls := ?w, msgs := [Ble_Event Discovery_Complete 1]\<rparr>"
  have 1: "ancs_event h (Ev_Attr (Some (Attr_Desc (Some 0x2902) d))) s = Inr ?t"
    using assms by (auto elim!: svc_shape_cases simp: ancs_ev handle_gatt_characteristic_descriptor_info_ind_def upd_chr_def chr_at_def arr_get_def arr_set_def)
  have 2: "ancs_events h [Ev_Attr None, Ev_Loop] ?t = Inr ?u"
    using assms sh
    by (simp add: write_disc_shape ancs_ev handle_gatt_characteristic_descriptor_cfm_def next_ccd_def upt3 next_service_def stop_gatt_database_discovery_def
      write_discovered_gatt_database_to_nvm_def Let_def)
  have 3: "\<exists>s'. ancs_events h [Ev_Loop] ?u = Inr s' \<and> ancs_svc s' = ?v \<and> msgs s' = [] \<and> notif_configuring s' \<and> \<not> is_discovering s' \<and> remote_gatt_handles_present s' \<and>
    calls s' = calls s @ store_calls (ancs_svc s') @ [Gatt_Subscribe d (start_handle (char_data (ancs_svc s) ! 2) + 1),
      Gatt_Subscribe (ccd_handle (char_data (ancs_svc s) ! 0)) (start_handle (char_data (ancs_svc s) ! 0) + 1)]"
    using assms(1,2,5,9,10)
    by (auto elim!: svc_shape_cases simp: ancs_ev nv8_def appConfigureNotifications_def configure_ancs_notifications_def configure_ancs_data_source_notification_def
      get_ancs_notification_ccd_handle_def get_ancs_notification_handle_def get_ancs_data_source_ccd_handle_def get_ancs_data_source_handle_def store_calls_def Let_def)
  have "ancs_events h ([Ev_Attr (Some (Attr_Desc (Some 0x2902) d))] @ [Ev_Attr None, Ev_Loop] @ [Ev_Loop]) s = ancs_events h [Ev_Loop] ?u"
    using 1 2 by (simp only: ancs_events_append ancs_events.simps rbind_Inr)
  then show ?thesis using 3 by simp
qed


text \<open>The search for the service and its characteristics.\<close>

lemma ev_search:
  assumes "msgs s = []" "pconn s" "svc_shape (ancs_svc s)" "\<not> notif_configuring s" "st \<noteq> 0" "en \<noteq> 0"
    "map_of (rev cs) ANCS_NS_UUID = Some x0" "map_of (rev cs) ANCS_CP_UUID = Some x1" "map_of (rev cs) ANCS_DS_UUID = Some x2"
  shows "\<exists>s'. ancs_events h ([Ev_Secure l, Ev_Loop] @ [Ev_Attr (Some (Attr_Service st en)), Ev_Attr None, Ev_Loop] @ chrc_events cs) s = Inr s' \<and>
    msgs s' = [] \<and> pconn s' \<and> svc_shape (ancs_svc s') \<and> \<not> notif_configuring s' \<and> service_data s' \<and> service_index s' = 0 \<and> discovery_result s' \<and>
    disc_params s' = Discover_Characteristic \<and> chrc_is_found s' \<and> svc_start (ancs_svc s') = st \<and> svc_end (ancs_svc s') = en \<and>
    map start_handle (char_data (ancs_svc s')) = [x0, x1, x2] \<and>
    calls s' = calls s @ [Gatt_Discover Discover_Primary 1 0xffff, Gatt_Discover Discover_Characteristic st en]"
proof -
  obtain s1 where 1: "ancs_events h [Ev_Secure l, Ev_Loop] s = Inr s1" "msgs s1 = []" "pconn s1" "svc_shape (ancs_svc s1)" "\<not> notif_configuring s1" "service_data s1"
    "service_index s1 = 0" "discovery_result s1" "disc_params s1 = Discover_Primary" "calls s1 = calls s @ [Gatt_Discover Discover_Primary 1 0xffff]"
    using ev_start [OF assms(1,2), of h l] assms by simp
  obtain s2 where 2: "ancs_events h [Ev_Attr (Some (Attr_Service st en)), Ev_Attr None, Ev_Loop] s1 = Inr s2" "msgs s2 = []" "pconn s2" "svc_shape (ancs_svc s2)"
    "\<not> notif_configuring s2" "service_data s2" "index_ok (ancs_svc s2)"
    "service_index s2 = 0" "discovery_result s2" "disc_params s2 = Discover_Characteristic" "svc_start (ancs_svc s2) = st" "svc_end (ancs_svc s2) = en"
    "calls s2 = calls s1 @ [Gatt_Discover Discover_Characteristic st en]"
    using ev_service [OF 1(2,3,6,9) assms(5,6), of h] 1 by (simp add: svc_shape_def index_ok_def)
  obtain v f where v: "ancs_events h (chrc_events cs) s2 = Inr (s2\<lparr>ancs_svc := v, chrc_is_found := f\<rparr>)" "cs \<noteq> [] \<longrightarrow> f" "svc_shape v"
    "svc_start v = st" "svc_end v = en" "map start_handle (char_data v) =
      map (\<lambda>(w, old). last_handle cs w old) (zip [ANCS_NS_UUID, ANCS_CP_UUID, ANCS_DS_UUID] (map start_handle (char_data (ancs_svc s2))))"
    using chrcs_found [OF 2(4,7,6,10), of h cs] 2(11,12) by blast
  have "cs \<noteq> []" using assms(7) by auto
  then have f: "f" using v(2) by simp
  have "map start_handle (char_data v) = [x0, x1, x2]" using v(6) 2(4) assms(7-9) by (auto elim!: svc_shape_cases simp: last_handle_def)
  moreover have "ancs_events h ([Ev_Secure l, Ev_Loop] @ [Ev_Attr (Some (Attr_Service st en)), Ev_Attr None, Ev_Loop] @ chrc_events cs) s =
      Inr (s2\<lparr>ancs_svc := v, chrc_is_found := f\<rparr>)"
    using 1(1) 2(1) v(1) by (simp only: ancs_events_append rbind_Inr)
  ultimately show ?thesis using 1(10) 2 v f by simp
qed

text \<open>The search for the descriptors, and the subscriptions.\<close>

lemma ev_descriptors:
  assumes "msgs s = []" "pconn s" "svc_shape (ancs_svc s)" "\<not> notif_configuring s" "service_data s" "service_index s = 0" "discovery_result s"
    "disc_params s = Discover_Characteristic" "chrc_is_found s" "map start_handle (char_data (ancs_svc s)) = [x0, x1, x2]" "x0 \<noteq> 0" "d0 \<noteq> 0"
  shows "\<exists>s'. ancs_events h ([Ev_Attr None, Ev_Loop] @ [Ev_Attr (Some (Attr_Desc (Some 0x2902) d0)), Ev_Attr None, Ev_Loop] @
      [Ev_Attr (Some (Attr_Desc (Some 0x2902) d2)), Ev_Attr None, Ev_Loop, Ev_Loop]) s = Inr s' \<and>
    svc_start (ancs_svc s') = svc_start (ancs_svc s) \<and> svc_end (ancs_svc s') = svc_end (ancs_svc s) \<and> map start_handle (char_data (ancs_svc s')) = [x0, x1, x2] \<and>
    get_ancs_notification_ccd_handle s' = d0 \<and> get_ancs_data_source_ccd_handle s' = d2 \<and> notif_configuring s' \<and> \<not> is_discovering s' \<and>
    calls s' = calls s @ [Gatt_Discover Discover_Descriptor (x0 + 2) (x0 + 2), Gatt_Discover Discover_Descriptor (x2 + 2) (x2 + 2)] @
      store_calls (ancs_svc s') @ [Gatt_Subscribe d2 (x2 + 1), Gatt_Subscribe d0 (x0 + 1)]"
proof -
  let ?v = "ancs_svc s"
  have x: "start_handle (char_data ?v ! 0) = x0" "start_handle (char_data ?v ! 2) = x2" using assms(10) by (auto simp: map_eq_Cons_conv)
  obtain s4 where 4: "ancs_events h [Ev_Attr None, Ev_Loop] s = Inr s4" "msgs s4 = []" "pconn s4" "ancs_svc s4 = ?v\<lparr>char_index := 0\<rparr>" "\<not> notif_configuring s4"
    "service_data s4" "service_index s4 = 0" "discovery_result s4" "disc_params s4 = Discover_Descriptor"
    "calls s4 = calls s @ [Gatt_Discover Discover_Descriptor (x0 + 2) (x0 + 2)]"
    using ev_chrcs_end [OF assms(1,2,5,8,9,3) x(1) assms(11), of h] assms by simp
  obtain s5 where 5: "ancs_events h [Ev_Attr (Some (Attr_Desc (Some 0x2902) d0)), Ev_Attr None, Ev_Loop] s4 = Inr s5" "msgs s5 = []" "pconn s5"
    "\<not> notif_configuring s5" "service_data s5" "ancs_svc s5 = ?v\<lparr>char_index := 2, char_data := (char_data ?v)[0 := (char_data ?v ! 0)\<lparr>ccd_handle := d0\<rparr>]\<rparr>"
    "service_index s5 = 0" "discovery_result s5" "disc_params s5 = Discover_Descriptor" "calls s5 = calls s4 @ [Gatt_Discover Discover_Descriptor (x2 + 2) (x2 + 2)]"
    using ev_desc_next [of s4 h d0] 4 assms(3) x(2) by (simp add: Let_def svc_shape_def)
  have sh: "svc_shape (ancs_svc s5)" using 5(6) assms(3) by (auto elim!: svc_shape_cases simp: svc_shape_def)
  have hs: "ccd_handle (char_data (ancs_svc s5) ! 0) = d0" "map start_handle (char_data (ancs_svc s5)) = [x0, x1, x2]"
    "start_handle (char_data (ancs_svc s5) ! 0) = x0" "start_handle (char_data (ancs_svc s5) ! 2) = x2"
    using 5(6) assms(10) by (auto simp: map_eq_Cons_conv)
  obtain s' where s': "ancs_events h [Ev_Attr (Some (Attr_Desc (Some 0x2902) d2)), Ev_Attr None, Ev_Loop, Ev_Loop] s5 = Inr s'"
    "ancs_svc s' = (ancs_svc s5)\<lparr>char_data := (char_data (ancs_svc s5))[2 := (char_data (ancs_svc s5) ! 2)\<lparr>ccd_handle := d2\<rparr>]\<rparr>" "notif_configuring s'" "\<not> is_discovering s'"
    "calls s' = calls s5 @ store_calls (ancs_svc s') @ [Gatt_Subscribe d2 (x2 + 1), Gatt_Subscribe d0 (x0 + 1)]"
    using ev_desc_last [OF 5(2,3,5,9) sh _ 5(7,8,4), of h d2] 5(6) hs(1,3,4) assms(12) by auto
  have "get_ancs_notification_ccd_handle s' = d0" "get_ancs_data_source_ccd_handle s' = d2" "map start_handle (char_data (ancs_svc s')) = [x0, x1, x2]"
    using s'(2) hs(1,2) by (auto simp: get_ancs_notification_ccd_handle_def get_ancs_data_source_ccd_handle_def map_eq_Cons_conv)
  then show ?thesis using 4(1,10) 5(1,6,10) s' by (simp only: ancs_events_append rbind_Inr) simp
qed

text \<open>
  C28 (functional). The discovery of the notification service finds the handles: from any state of a connection with no waiting message and
  no configuration under way, the secure link starts a search for the service, and with the service at \<open>st\<close> to \<open>en\<close>, the
  three characteristics among those reported (others are ignored, in any order) and a client configuration for the two that notify, the client
  records all handles, asks for a descriptor exactly two after the notification source and the data source,
  writes the handles of the service, of its characteristics and of their client configurations and the mark that they are present
  to the memory, and subscribes to both, first to the data source. These are all the calls it makes.
\<close>

theorem ancs_discovery_finds:
  assumes "msgs s = []" "pconn s" "svc_shape (ancs_svc s)" "\<not> notif_configuring s" "st \<noteq> 0" "en \<noteq> 0" "d0 \<noteq> 0" "x0 \<noteq> 0"
    "map_of (rev cs) ANCS_NS_UUID = Some x0" "map_of (rev cs) ANCS_CP_UUID = Some x1" "map_of (rev cs) ANCS_DS_UUID = Some x2"
  shows "\<exists>s'. ancs_events h ([Ev_Secure l, Ev_Loop, Ev_Attr (Some (Attr_Service st en)), Ev_Attr None, Ev_Loop] @ chrc_events cs @
      [Ev_Attr None, Ev_Loop, Ev_Attr (Some (Attr_Desc (Some 0x2902) d0)), Ev_Attr None, Ev_Loop,
       Ev_Attr (Some (Attr_Desc (Some 0x2902) d2)), Ev_Attr None, Ev_Loop, Ev_Loop]) s = Inr s' \<and>
    svc_start (ancs_svc s') = st \<and> svc_end (ancs_svc s') = en \<and> map start_handle (char_data (ancs_svc s')) = [x0, x1, x2] \<and>
    get_ancs_notification_ccd_handle s' = d0 \<and> get_ancs_data_source_ccd_handle s' = d2 \<and> notif_configuring s' \<and> \<not> is_discovering s' \<and>
    calls s' = calls s @ [Gatt_Discover Discover_Primary 1 0xffff, Gatt_Discover Discover_Characteristic st en,
      Gatt_Discover Discover_Descriptor (x0 + 2) (x0 + 2), Gatt_Discover Discover_Descriptor (x2 + 2) (x2 + 2)] @
      store_calls (ancs_svc s') @ [Gatt_Subscribe d2 (x2 + 1), Gatt_Subscribe d0 (x0 + 1)]"
proof -
  obtain s1 where s1: "ancs_events h ([Ev_Secure l, Ev_Loop] @ [Ev_Attr (Some (Attr_Service st en)), Ev_Attr None, Ev_Loop] @ chrc_events cs) s = Inr s1"
    "msgs s1 = []" "pconn s1" "svc_shape (ancs_svc s1)" "\<not> notif_configuring s1" "service_data s1" "service_index s1 = 0" "discovery_result s1"
    "disc_params s1 = Discover_Characteristic" "chrc_is_found s1" "svc_start (ancs_svc s1) = st" "svc_end (ancs_svc s1) = en"
    "map start_handle (char_data (ancs_svc s1)) = [x0, x1, x2]"
    "calls s1 = calls s @ [Gatt_Discover Discover_Primary 1 0xffff, Gatt_Discover Discover_Characteristic st en]"
    using ev_search [OF assms(1-6,9-11), of h l] by (elim exE conjE) (rule that; assumption)
  obtain s' where s': "ancs_events h ([Ev_Attr None, Ev_Loop] @ [Ev_Attr (Some (Attr_Desc (Some 0x2902) d0)), Ev_Attr None, Ev_Loop] @
      [Ev_Attr (Some (Attr_Desc (Some 0x2902) d2)), Ev_Attr None, Ev_Loop, Ev_Loop]) s1 = Inr s'"
    "svc_start (ancs_svc s') = st" "svc_end (ancs_svc s') = en" "map start_handle (char_data (ancs_svc s')) = [x0, x1, x2]"
    "get_ancs_notification_ccd_handle s' = d0" "get_ancs_data_source_ccd_handle s' = d2" "notif_configuring s'" "\<not> is_discovering s'"
    "calls s' = calls s1 @ [Gatt_Discover Discover_Descriptor (x0 + 2) (x0 + 2), Gatt_Discover Discover_Descriptor (x2 + 2) (x2 + 2)] @
      store_calls (ancs_svc s') @ [Gatt_Subscribe d2 (x2 + 1), Gatt_Subscribe d0 (x0 + 1)]"
    using ev_descriptors [OF s1(2-10,13) assms(8,7), of h d2, unfolded s1(11,12)] by (elim exE conjE) (rule that; assumption)
  have "ancs_events h (([Ev_Secure l, Ev_Loop] @ [Ev_Attr (Some (Attr_Service st en)), Ev_Attr None, Ev_Loop] @ chrc_events cs) @
    [Ev_Attr None, Ev_Loop] @ [Ev_Attr (Some (Attr_Desc (Some 0x2902) d0)), Ev_Attr None, Ev_Loop] @
      [Ev_Attr (Some (Attr_Desc (Some 0x2902) d2)), Ev_Attr None, Ev_Loop, Ev_Loop]) s = Inr s'"
    by (subst ancs_events_append) (simp only: s1(1) s'(1) rbind_Inr)
  then show ?thesis by (intro exI [of _ s'] conjI) (simp_all only: append.simps append_assoc s'(2-) s1(14) simp_thms)
qed

text \<open>The variables as they are initialised, once a peer is connected.\<close>

definition ancs_linked :: ancs_app where
  "ancs_linked = \<lparr>is_discovering = False, service_index = 0, discovery_result = False, service_data = False, ancs_svc = g_disc_ancs_service,
     service_is_found = False, chrc_is_found = False, chrc_dec_is_found = False, disc_params = Discover_Primary, decoder = ancs_fresh,
     uuid_data = replicate 4 0, notif_attr_req = replicate 21 0, g_last_received_notification = 0, pending_flag = 0, ns_handle = 0, nc_handle = 0,
     pconn = True, remote_gatt_handles_present = False, notif_configuring = False, bonded = False, bonded_bd_addr = replicate 7 0, bt_ready_flag = 1,
     msgs = [], calls = []\<rparr>"

text \<open>A memory that returns what was stored last.\<close>

fun last_set :: "ancs_call list \<Rightarrow> string \<Rightarrow> bytes option" where
  "last_set [] n = None"
| "last_set (c # cs) n = (case last_set cs n of Some b \<Rightarrow> Some b | None \<Rightarrow> (case c of Nv_Set m b \<Rightarrow> if m = n then Some b else None | _ \<Rightarrow> None))"

definition ancs_memory :: ancs_host where
  "ancs_memory = \<lparr>nv_load = last_set, write_result = \<lambda>_. 0, ota_reset = \<lambda>_. False\<rparr>"

lemma linked_shape: "svc_shape (ancs_svc ancs_linked)"
  by (simp add: ancs_linked_def g_disc_ancs_service_def g_disc_ancs_char_def svc_shape_def)

theorem ancs_discovery_finds_witness:
  "\<exists>s'. ancs_events ancs_memory ([Ev_Secure 2, Ev_Loop, Ev_Attr (Some (Attr_Service 10 30)), Ev_Attr None, Ev_Loop] @
      chrc_events [(ANCS_CP_UUID, 11), ([1, 2], 14), (ANCS_DS_UUID, 16), (ANCS_NS_UUID, 20)] @
      [Ev_Attr None, Ev_Loop, Ev_Attr (Some (Attr_Desc (Some 0x2902) 22)), Ev_Attr None, Ev_Loop,
       Ev_Attr (Some (Attr_Desc (Some 0x2902) 18)), Ev_Attr None, Ev_Loop, Ev_Loop]) ancs_linked = Inr s' \<and>
    svc_start (ancs_svc s') = 10 \<and> svc_end (ancs_svc s') = 30 \<and> map start_handle (char_data (ancs_svc s')) = [20, 11, 16] \<and>
    get_ancs_notification_ccd_handle s' = 22 \<and> get_ancs_data_source_ccd_handle s' = 18 \<and> notif_configuring s' \<and> \<not> is_discovering s' \<and>
    calls s' = calls ancs_linked @ [Gatt_Discover Discover_Primary 1 0xffff, Gatt_Discover Discover_Characteristic 10 30,
      Gatt_Discover Discover_Descriptor (20 + 2) (20 + 2), Gatt_Discover Discover_Descriptor (16 + 2) (16 + 2)] @
      store_calls (ancs_svc s') @ [Gatt_Subscribe 18 (16 + 1), Gatt_Subscribe 22 (20 + 1)]"
  by (rule ancs_discovery_finds [OF _ _ linked_shape]) (auto simp: ancs_linked_def ANCS_NS_UUID_def ANCS_CP_UUID_def ANCS_DS_UUID_def)

section \<open>Stored handles\<close>

lemma last_set_append: "last_set (cs @ ds) n = (case last_set ds n of Some b \<Rightarrow> Some b | None \<Rightarrow> last_set cs n)"
  by (induction cs) (auto split: option.splits)

lemma last_set_writes: "last_set (map (\<lambda>(n, x). Nv_Set n (g x)) xs) n = map_option g (map_of (rev xs) n)"
  by (induction xs) (auto simp: map_add_def split: option.splits)

lemma stored_names_distinct: "svc_shape v \<Longrightarrow> distinct (map fst (stored_handles v))"
  by (auto elim!: svc_shape_cases simp: stored_handles_def upt3 chr_name_def)

lemma stored_read:
  assumes "\<And>cs n. nv_load h cs n = last_set cs n" "svc_shape v" "calls t = cs @ map (\<lambda>(n, x). Nv_Set n (u16_encode x)) (stored_handles v)" "(n, x) \<in> set (stored_handles v)"
  shows "nv_read16 h n old t = x"
proof -
  have "map_of (rev (stored_handles v)) n = Some x" using stored_names_distinct [OF assms(2)] assms(4) by (simp flip: rev_map)
  then have "nv_load h (calls t) n = Some (u16_encode x)" using assms(1,3) by (simp add: last_set_append last_set_writes)
  moreover obtain lo hi where e: "u16_encode x = [lo, hi]" by (simp add: u16_encode_def)
  moreover have "ucast lo OR push_bit 8 (ucast hi) = x" using u16_encode_high [OF e] by (simp add: or.commute)
  ultimately show ?thesis by (simp add: nv_read16_def)
qed


text \<open>
  The handles survive a restart: with a memory that returns what was stored last, reading the stored table into any table of the same
  characteristics restores the handles of the service, of its characteristics and of their client configurations.
\<close>

theorem ancs_handles_persist:
  assumes "\<And>cs n. nv_load h cs n = last_set cs n" "svc_shape (ancs_svc s)" "svc_shape (ancs_svc t)" "calls t = calls (write_disc_ancs_service_handles_to_nvm s)"
  shows "let v = ancs_svc (read_disc_ancs_service_handles_from_nvm h True t) in svc_start v = svc_start (ancs_svc s) \<and> svc_end v = svc_end (ancs_svc s) \<and>
    map start_handle (char_data v) = map start_handle (char_data (ancs_svc s)) \<and> map ccd_handle (char_data v) = map ccd_handle (char_data (ancs_svc s))"
proof -
  have c: "calls t = calls s @ map (\<lambda>(n, x). Nv_Set n (u16_encode x)) (stored_handles (ancs_svc s))" using assms(4) by (simp add: write_disc_shape [OF assms(2)])
  note r = stored_read [OF assms(1,2) c]
  obtain a0 a1 a2 where a: "char_data (ancs_svc s) = [a0, a1, a2]" using svc_shape_cases [OF assms(2)] by metis
  obtain b0 b1 b2 where b: "char_data (ancs_svc t) = [b0, b1, b2]" "num_chars (ancs_svc t) = 3" using svc_shape_cases [OF assms(3)] by metis
  have m: "(''ancs_srv_s_h'', svc_start (ancs_svc s)) \<in> set (stored_handles (ancs_svc s))" "(''ancs_srv_e_h'', svc_end (ancs_svc s)) \<in> set (stored_handles (ancs_svc s))"
    "(chr_name ''ancs_ch_h_'' 0, start_handle a0) \<in> set (stored_handles (ancs_svc s))" "(chr_name ''ancs_ch_ccd_h_'' 0, ccd_handle a0) \<in> set (stored_handles (ancs_svc s))"
    "(chr_name ''ancs_ch_h_'' 1, start_handle a1) \<in> set (stored_handles (ancs_svc s))" "(chr_name ''ancs_ch_ccd_h_'' 1, ccd_handle a1) \<in> set (stored_handles (ancs_svc s))"
    "(chr_name ''ancs_ch_h_'' 2, start_handle a2) \<in> set (stored_handles (ancs_svc s))" "(chr_name ''ancs_ch_ccd_h_'' 2, ccd_handle a2) \<in> set (stored_handles (ancs_svc s))"
    by (simp_all add: stored_handles_def a upt3)
  show ?thesis by (simp add: read_disc_ancs_service_handles_from_nvm_def a b upt3 m [THEN r] Let_def del: One_nat_def)
qed


theorem ancs_handles_persist_witness:
  "let s = ancs_linked\<lparr>ancs_svc := g_disc_ancs_service\<lparr>svc_start := 10, svc_end := 30, char_data := map (\<lambda>c. c\<lparr>start_handle := 500\<rparr>) g_disc_ancs_char\<rparr>\<rparr>;
       v = ancs_svc (read_disc_ancs_service_handles_from_nvm ancs_memory True (ancs_linked\<lparr>calls := calls (write_disc_ancs_service_handles_to_nvm s)\<rparr>)) in
   svc_start v = 10 \<and> svc_end v = 30 \<and> map start_handle (char_data v) = [500, 500, 500]"
proof -
  let ?s = "ancs_linked\<lparr>ancs_svc := g_disc_ancs_service\<lparr>svc_start := 10, svc_end := 30, char_data := map (\<lambda>c. c\<lparr>start_handle := 500\<rparr>) g_disc_ancs_char\<rparr>\<rparr>"
  have "svc_shape (ancs_svc ?s)" by (simp add: g_disc_ancs_service_def g_disc_ancs_char_def svc_shape_def)
  then show ?thesis
    using ancs_handles_persist [of ancs_memory ?s "ancs_linked\<lparr>calls := calls (write_disc_ancs_service_handles_to_nvm ?s)\<rparr>"] linked_shape
    by (simp add: ancs_memory_def g_disc_ancs_char_def Let_def)
qed

section \<open>Requests for attributes\<close>

text \<open>
  A notification that is not a removal is answered with a request for its attributes: the identifier of the notification, the title and the subtitle of at
  most twenty bytes, and the message, its size and the date, without a length for the message.
\<close>

lemma ancs_attributes_requested:
  assumes "length p = 8" "p ! 0 \<noteq> 2" "msgs s = []" "pconn s" "pending_flag s = 0" "write_result h (calls s) = 0" "ns_handle s = get_ancs_notification_handle s"
  shows "\<exists>s'. rbind (ancs_notify_func True (Some p) s) (ancs_main h) = Inr s' \<and> msgs s' = [] \<and> pending_flag s' = 1 \<and>
    calls s' = calls s @ [Gatt_Write (get_ancs_control_point_handle s) (0 # drop 4 p @ [1, 20, 0, 2, 20, 0, 3, 4, 5])]"
proof -
  obtain a b c d u0 u1 u2 u3 where p: "p = [a, b, c, d, u0, u1, u2, u3]" using assms(1) by (auto simp: length_Suc_conv numeral_eq_Suc)
  show ?thesis
    using assms(2-)
    by (simp add: p ancs_notify_func_def ancs_handle_notification_source_data_def arr_get_def mem_cpy_def post_msg_def ancs_main_def Let_def
        ancs_get_notification_attribute_cmd_def ancs_write_request_def do_call_def get_ancs_control_point_handle_def flag_set_def)
qed

text \<open>The identifier is kept in one variable: with a second notification before the main loop runs, only the second is asked for.\<close>

lemma ancs_first_uuid_lost:
  assumes "length p = 8" "length q = 8" "p ! 0 \<noteq> 2" "q ! 0 \<noteq> 2" "msgs s = []" "pconn s" "pending_flag s = 0" "write_result h (calls s) = 0"
    "ns_handle s = get_ancs_notification_handle s"
  shows "\<exists>s'. rbind (rbind (rbind (ancs_notify_func True (Some p) s) (ancs_notify_func True (Some q))) (ancs_main h)) (ancs_main h) = Inr s' \<and>
    calls s' = calls s @ [Gatt_Write (get_ancs_control_point_handle s) (0 # drop 4 q @ [1, 20, 0, 2, 20, 0, 3, 4, 5])]"
proof -
  obtain a b c d u0 u1 u2 u3 where p: "p = [a, b, c, d, u0, u1, u2, u3]" using assms(1) by (auto simp: length_Suc_conv numeral_eq_Suc)
  obtain a' b' c' d' v0 v1 v2 v3 where q: "q = [a', b', c', d', v0, v1, v2, v3]" using assms(2) by (auto simp: length_Suc_conv numeral_eq_Suc)
  show ?thesis
    using assms(3-)
    by (simp add: p q ancs_notify_func_def ancs_handle_notification_source_data_def arr_get_def mem_cpy_def post_msg_def ancs_main_def Let_def
        ancs_get_notification_attribute_cmd_def ancs_write_request_def do_call_def get_ancs_control_point_handle_def get_ancs_notification_handle_def flag_set_def)
qed

end
