(* ===== verification/Misc.thy ===== *)
theory Misc
  imports Prelude "HOL-Library.Multiset" "HOL-Library.Signed_Division" "HOL-Library.Char_ord"
begin

text \<open>
  Helper functions of the serial module (\<^verbatim>\<open>misc.c\<close>): sorting and averaging of signal strengths,
  tests of argument strings, and the two text forms of a device address.
\<close>

section \<open>Sorting\<close>

text \<open>\<open>bubble_sort\<close>: the two loops on the array; the elements are only compared.\<close>

function bubble_inner :: "int list \<Rightarrow> nat \<Rightarrow> nat \<Rightarrow> int list res" where
  "bubble_inner A i lim =
     (if i < lim
      then rbind (arr_get A i) (\<lambda>x. rbind (arr_get A (i + 1)) (\<lambda>y.
             bubble_inner (if x < y then A[i := y, i + 1 := x] else A) (i + 1) lim))
      else Inr A)"
  by auto

termination
  by (relation "measure (\<lambda>(A, i, lim). lim - i)") auto

function bubble_outer :: "int list \<Rightarrow> nat \<Rightarrow> nat \<Rightarrow> int list res" where
  "bubble_outer A j n =
     (if j < n - 1 then rbind (bubble_inner A 0 (n - 1 - j)) (\<lambda>A. bubble_outer A (j + 1) n) else Inr A)"
  by auto

termination
  by (relation "measure (\<lambda>(A, j, n). n - j)") auto

declare bubble_inner.simps [simp del] bubble_outer.simps [simp del]

definition bubble_sort :: "int list \<Rightarrow> nat \<Rightarrow> int list res" where
  "bubble_sort A n = bubble_outer A 0 n"

section \<open>Averages\<close>

text \<open>\<open>average\<close>: a sum of signed bytes in an \<open>int\<close>, divided with truncation; \<open>num\<close> is an unsigned char on the target.\<close>

function sum_loop :: "s8 list \<Rightarrow> nat \<Rightarrow> nat \<Rightarrow> int \<Rightarrow> int res" where
  "sum_loop A i num s = (if i < num then rbind (arr_get A i) (\<lambda>x. sum_loop A (i + 1) num (s + sint x)) else Inr s)"
  by auto

termination
  by (relation "measure (\<lambda>(A, i, num, s). num - i)") auto

declare sum_loop.simps [simp del]

definition average :: "s8 list \<Rightarrow> u8 \<Rightarrow> int res" where
  "average A num = rbind (sum_loop A 0 (unat num) 0) (\<lambda>s. if num = 0 then Inl Div_Zero else Inr (s sdiv uint num))"

section \<open>Strings\<close>

text \<open>A string is the list of its characters before the terminating zero.\<close>

definition is_digit :: "char \<Rightarrow> bool" where
  "is_digit c \<longleftrightarrow> CHR ''0'' \<le> c \<and> c \<le> CHR ''9''"

definition is_hex_digit :: "char \<Rightarrow> bool" where
  "is_hex_digit c \<longleftrightarrow> is_digit c \<or> CHR ''a'' \<le> c \<and> c \<le> CHR ''f'' \<or> CHR ''A'' \<le> c \<and> c \<le> CHR ''F''"

definition is_hex_string :: "string \<Rightarrow> bool" where
  "is_hex_string str \<longleftrightarrow> str \<noteq> [] \<and> (\<forall>c\<in>set str. is_hex_digit c)"

definition is_decimal_string :: "string \<Rightarrow> bool" where
  "is_decimal_string str \<longleftrightarrow> str \<noteq> [] \<and> (\<forall>c\<in>set str. is_digit c)"


record bt_addr_le =
  addr_type :: u8
  addr_val :: bytes

abbreviation (input) "BT_ADDR_LE_PUBLIC \<equiv> 0 :: u8"

definition BT_ADDR_LE_ANY :: bt_addr_le where
  "BT_ADDR_LE_ANY = \<lparr>addr_type = 0, addr_val = [0, 0, 0, 0, 0, 0]\<rparr>"

text \<open>\<open>%02X\<close> of a byte.\<close>

definition hex_digit :: "u8 \<Rightarrow> char" where
  "hex_digit d = char_of (if d < 10 then unat d + 48 else unat d + 55)"

definition hex_byte :: "u8 \<Rightarrow> string" where
  "hex_byte b = [hex_digit (drop_bit 4 b), hex_digit (b AND 0x0F)]"

text \<open>
  The address texts, most significant byte first; the buffers of all callers have room for the 12 or 17 characters.
  \<open>at_str_to_le_addr\<close> inserts colons and calls \<open>str2bt_addr\<close>, which is in ROM and a parameter of the model.
\<close>

definition at_addr_le_to_str :: "bt_addr_le \<Rightarrow> string" where
  "at_addr_le_to_str a = concat (map hex_byte (rev (addr_val a)))"

fun with_colons :: "string list \<Rightarrow> string" where
  "with_colons [] = []"
| "with_colons [x] = x"
| "with_colons (x # xs) = x @ CHR '':'' # with_colons xs"

definition at_addr_le_to_str2 :: "bt_addr_le \<Rightarrow> string" where
  "at_addr_le_to_str2 a = with_colons (map hex_byte (rev (addr_val a)))"

definition colon_form :: "string \<Rightarrow> string" where
  "colon_form str = with_colons (map (\<lambda>i. [str ! (2 * i), str ! (2 * i + 1)]) [0..<6])"

definition at_str_to_le_addr :: "(string \<Rightarrow> bytes) \<Rightarrow> string \<Rightarrow> string \<times> bt_addr_le" where
  "at_str_to_le_addr str2bt_addr str =
     (let bt_addr_str = colon_form str in
      (bt_addr_str, \<lparr>addr_type = BT_ADDR_LE_PUBLIC, addr_val = str2bt_addr bt_addr_str\<rparr>))"

section \<open>Facts about sorting\<close>

fun bubble :: "int list \<Rightarrow> int list" where
  "bubble (x # y # xs) = (if x < y then y # bubble (x # xs) else x # bubble (y # xs))"
| "bubble xs = xs"

lemma length_bubble [simp]: "length (bubble xs) = length xs"
  by (induction xs rule: bubble.induct) simp_all

lemma mset_bubble [simp]: "mset (bubble xs) = mset xs"
  by (induction xs rule: bubble.induct) (simp_all add: add_mset_commute)

lemma last_bubble_le: "y \<in> set xs \<Longrightarrow> last (bubble xs) \<le> y"
proof (induction xs arbitrary: y rule: bubble.induct)
  case (1 x z xs)
  have ne: "bubble (w # xs) \<noteq> []" for w using length_bubble [of "w # xs"] by (cases "bubble (w # xs)") simp_all
  show ?case
  proof (cases "x < z")
    case True
    with 1(1) [OF True, of x] 1(1) [OF True, of y] 1(3) ne show ?thesis by auto
  next
    case False
    with 1(2) [OF False, of z] 1(2) [OF False, of y] 1(3) ne show ?thesis by auto
  qed
qed simp_all

lemma bubble_inner_eq:
  "bubble_inner (pre @ x # xs @ post) (length pre) (length pre + length xs) = Inr (pre @ bubble (x # xs) @ post)"
proof (induction xs arbitrary: pre x)
  case Nil
  show ?case by (subst bubble_inner.simps) simp
next
  case (Cons y xs)
  show ?case
    using Cons [of "pre @ [max x y]" "min x y"]
    by (subst bubble_inner.simps) (auto simp: arr_get_def nth_append list_update_append min_def max_def split: if_splits)
qed


lemma bubble_outer_eq:
  assumes "length P + length S = n" "sorted_wrt (\<ge>) S" "\<forall>p\<in>set P. \<forall>s\<in>set S. s \<le> p"
  shows "\<exists>B. bubble_outer (P @ S @ R) (length S) n = Inr (B @ R) \<and> mset B = mset (P @ S) \<and> sorted_wrt (\<ge>) B"
  using assms
proof (induction "length P" arbitrary: P S)
  case 0
  then show ?case by (subst bubble_outer.simps) auto
next
  case (Suc k)
  then obtain x xs where P: "P = x # xs" by (cases P) simp_all
  show ?case
  proof (cases "xs = []")
    case True
    with Suc.prems P show ?thesis by (subst bubble_outer.simps) (auto intro!: exI [of _ "x # S"])
  next
    case False
    let ?Q = "butlast (bubble P)" and ?m = "last (bubble P)"
    have ne: "bubble P \<noteq> []" using length_bubble [of P] P by (metis length_0_conv list.distinct(1))
    then have Q: "?Q @ [?m] = bubble P" by simp
    have ms: "mset (?Q @ [?m]) = mset P" unfolding Q by simp
    then have set: "set (?Q @ [?m]) = set P" by (rule mset_eq_setD)
    then have mem: "?m \<in> set P" "set ?Q \<subseteq> set P" by auto
    have step: "bubble_outer (P @ S @ R) (length S) n = bubble_outer (?Q @ (?m # S) @ R) (length (?m # S)) n"
    proof -
      have "bubble_inner (P @ S @ R) 0 (n - 1 - length S) = Inr (bubble P @ S @ R)"
      proof -
        have "n - 1 - length S = length xs" using Suc.prems(1) P by auto
        then show ?thesis using bubble_inner_eq [of "[]" x xs "S @ R"] by (simp add: P)
      qed
      moreover have "bubble P @ S @ R = ?Q @ (?m # S) @ R" using Q by (metis append_Cons append_assoc append_Nil)
      moreover have "length S < n - 1" using Suc.prems(1) False P by (cases xs) simp_all
      ultimately show ?thesis by (subst bubble_outer.simps) simp
    qed
    have "length ?Q = k" using Suc.hyps(2) by simp
    moreover have "length ?Q + length (?m # S) = n" using Suc.hyps(2) Suc.prems(1) by simp
    moreover have "sorted_wrt (\<ge>) (?m # S)" using Suc.prems(2,3) mem(1) by simp
    moreover have "\<forall>p\<in>set ?Q. \<forall>s\<in>set (?m # S). s \<le> p"
      using Suc.prems(3) mem last_bubble_le [of _ P] by auto
    ultimately obtain B where "bubble_outer (?Q @ (?m # S) @ R) (length (?m # S)) n = Inr (B @ R)"
      "mset B = mset (?Q @ ?m # S)" "sorted_wrt (\<ge>) B"
      using Suc.hyps(1) [of ?Q "?m # S"] by metis
    moreover have "mset (?Q @ ?m # S) = mset (P @ S)" using ms by simp
    ultimately show ?thesis using step by metis
  qed
qed

text \<open>
  \<open>bubble_sort\<close> sorts the first \<open>n\<close> elements of an array in descending order, keeps the rest, and stays in bounds when the array
  has that many.
\<close>

lemma bubble_sort_ok:
  assumes "n \<le> length A"
  shows "\<exists>B. bubble_sort A n = Inr (B @ drop n A) \<and> mset B = mset (take n A) \<and> sorted_wrt (\<ge>) B"
proof -
  have "length (take n A) + length ([] :: int list) = n" using assms by simp
  from bubble_outer_eq [OF this, of "drop n A"] show ?thesis by (simp add: bubble_sort_def)
qed

lemma sum_loop_eq:
  "i \<le> n \<Longrightarrow> n \<le> length A \<Longrightarrow> sum_loop A i n s = Inr (s + (\<Sum>x\<leftarrow>take (n - i) (drop i A). sint x))"
proof (induction "n - i" arbitrary: i s)
  case 0
  then show ?case by (subst sum_loop.simps) simp
next
  case (Suc k)
  then have "i < n" "drop i A = A ! i # drop (Suc i) A" "n - i = Suc (n - Suc i)" by (simp_all add: Cons_nth_drop_Suc)
  with Suc show ?case by (subst sum_loop.simps) (simp add: arr_get_def)
qed

lemma sum_list_bounds:
  "(\<forall>x\<in>set xs. lo \<le> f x \<and> f x \<le> hi) \<Longrightarrow> lo * int (length xs) \<le> sum_list (map f xs) \<and> sum_list (map f xs) \<le> hi * int (length xs)"
  by (induction xs) (auto simp: algebra_simps)

lemma sdiv_bounds:
  fixes l :: int
  assumes "0 < l" "lo * l \<le> s" "s \<le> hi * l"
  shows "lo \<le> s sdiv l \<and> s sdiv l \<le> hi"
proof (cases "0 \<le> s")
  case True
  then have "s sdiv l = s div l" using assms(1) by (auto simp: signed_divide_int_def sgn_if)
  then show ?thesis using zdiv_mono1 [OF assms(2,1)] zdiv_mono1 [OF assms(3,1)] assms(1) by simp
next
  case False
  then have "s sdiv l = - ((- s) div l)" using assms(1) by (simp add: signed_divide_int_def sgn_if)
  moreover have "- hi * l \<le> - s" "- s \<le> - lo * l" using assms(2,3) by simp_all
  moreover have "(- hi * l) div l = - hi" "(- lo * l) div l = - lo" using assms(1) by (simp_all only: nonzero_mult_div_cancel_right)
  ultimately show ?thesis using zdiv_mono1 [of "- hi * l" "- s" l] zdiv_mono1 [of "- s" "- lo * l" l] assms(1) by simp
qed

text \<open>The average of a non-empty array lies between any bounds of its elements, truncation included.\<close>

lemma average_bounds:
  assumes "0 < num" "unat num \<le> length A" "\<forall>x\<in>set (take (unat num) A). lo \<le> sint x \<and> sint x \<le> hi"
  shows "\<exists>v. average A num = Inr v \<and> lo \<le> v \<and> v \<le> hi"
proof -
  let ?s = "\<Sum>x\<leftarrow>take (unat num) A. sint x"
  have n: "length (take (unat num) A) = unat num" "0 < uint num" "int (unat num) = uint num"
    using assms(1,2) by (simp_all add: word_less_def)
  then have b: "lo * uint num \<le> ?s" "?s \<le> hi * uint num"
    using sum_list_bounds [OF assms(3)] by simp_all
  have "average A num = Inr (?s sdiv uint num)"
    using assms(1) sum_loop_eq [of 0 "unat num" A 0] assms(2) by (auto simp: average_def)
  moreover have "lo \<le> ?s sdiv uint num" "?s sdiv uint num \<le> hi"
    using sdiv_bounds [OF n(2) b] by simp_all
  ultimately show ?thesis by blast
qed

section \<open>Facts about address texts\<close>

lemma is_hex_digit_char_of: "n < 256 \<Longrightarrow> is_hex_digit (char_of n) \<longleftrightarrow> 48 \<le> n \<and> n \<le> 57 \<or> 97 \<le> n \<and> n \<le> 102 \<or> 65 \<le> n \<and> n \<le> 70"
  for n :: nat
  by (auto simp: is_hex_digit_def is_digit_def less_eq_char_def)

lemma hex_digit_ok: "d < 16 \<Longrightarrow> is_hex_digit (hex_digit d)"
  by (auto simp: hex_digit_def is_hex_digit_char_of word_less_nat_alt)

lemma hex_byte_ok: "set (hex_byte b) \<subseteq> {c. is_hex_digit c}" "length (hex_byte b) = 2"
proof -
  have "drop_bit 4 b < 16" "b AND 15 < 16" for b :: u8
  proof -
    have "unat (drop_bit 4 b) = unat b div 16" by (simp add: drop_bit_eq_div unat_div)
    then show "drop_bit 4 b < 16" using unat_bound [of b] by (simp add: word_less_nat_alt)
    have "b AND 15 = take_bit 4 b" by (simp add: take_bit_eq_mask mask_eq_exp_minus_1)
    then show "b AND 15 < 16" using take_bit_nat_less_exp [of 4 "unat b"] by (simp add: word_less_nat_alt unsigned_take_bit_eq)
  qed
  then show "set (hex_byte b) \<subseteq> {c. is_hex_digit c}" "length (hex_byte b) = 2" by (simp_all add: hex_byte_def hex_digit_ok)
qed

lemma addr_str_hex:
  assumes "length (addr_val a) = 6"
  shows "length (at_addr_le_to_str a) = 12" "is_hex_string (at_addr_le_to_str a)" "colon_form (at_addr_le_to_str a) = at_addr_le_to_str2 a"
proof -
  obtain b0 b1 b2 b3 b4 b5 where v: "addr_val a = [b0, b1, b2, b3, b4, b5]"
    using assms by (auto simp: numeral_eq_Suc length_Suc_conv)
  show l: "length (at_addr_le_to_str a) = 12" by (simp add: at_addr_le_to_str_def v hex_byte_ok(2))
  have "set (at_addr_le_to_str a) \<subseteq> {c. is_hex_digit c}" using hex_byte_ok(1) by (fastforce simp: at_addr_le_to_str_def)
  then show "is_hex_string (at_addr_le_to_str a)" using l by (auto simp: is_hex_string_def)
  show "colon_form (at_addr_le_to_str a) = at_addr_le_to_str2 a"
    by (simp add: colon_form_def at_addr_le_to_str_def at_addr_le_to_str2_def v hex_byte_def upt_rec)
qed

end
