(* ===== verification/Ble_Module.thy ===== *)
theory Ble_Module
  imports Misc
begin

text \<open>
  The serial Bluetooth module (\<^verbatim>\<open>samples/ble_module\<close>): the parameters of \<open>ble_param\<close> and \<open>app_cb\<close>, the
  connection, advertising and scan functions of \<^verbatim>\<open>app_ble.c\<close> and the message loop of \<^verbatim>\<open>main.c\<close>, in
  the configuration of \<^verbatim>\<open>autoconf_rmc.h\<close>: QPPS profile, quick connect, no automatic reconnection, device name
  prefix \<open>ZRS\<close>.
\<close>

section \<open>State\<close>

datatype ble_state = INITIALIZED | READY | PAIRABLE | PAIRED | INQUIRING | ADVERTISING | CONNECTING | CONNECTED | RECONNTING | UNKNOWN

datatype conn_state = BT_CONN_DISCONNECTED | BT_CONN_CONNECT_SCAN | BT_CONN_CONNECT | BT_CONN_CONNECTED | BT_CONN_DISCONNECT

datatype msg_type = MSG_NULL | MSG_LOW_POWER | MSG_OTA_EVENT | MSG_SCAN_TIME_OUT | MSG_CREATE_LE_TIME_OUT | MSG_CONNECTED | MSG_DISCOVER_COMPLETE
| MSG_RECONNECTING | MSG_DISCONNECT | MSG_DISCONNECTED

text \<open>
  What the module does to its surroundings, in order: calls of the host, of the kernel timers, of the non-volatile memory and
  of the LEDs, messages to the main thread, and characters sent on the UART.
\<close>

datatype module_event =
  Adv_Stop | Adv_Start string | Scan_Start | Scan_Stop | Scan_Enable bool | Le_Scan
| Conn_Create bt_addr_le | Conn_Add bt_addr_le | Conn_Unref | Conn_Param | Conn_To_Scan | Disconnect_Tmp | Disconnect_Conn
| Storage_Clear | Nvram_Set string bytes | Scan_Timer nat | Scan_Timer_Stop | Create_Timer
| Uart string | Send_Msg msg_type | Reboot | Led nat bool nat | Cmd_Mode | Data_Mode
| Gatt_Write u16 bytes | Gatt_Notify bytes | Subscribe u16 u16 | Device_Busy bool

record ble_dev =
  dev_address :: bt_addr_le
  rssi_cur_index :: s8
  rssi :: "s8 list"
  rssi_av :: s8
  rssi_cnt :: u8
  dev_name :: string

text \<open>The name in the advertising data \<open>ad[1]\<close>: the compiled-in name or a pointer to \<open>ble_param.adv_name\<close> with a length.\<close>

datatype ad_ref = Config_Name | Param_Name u8

text \<open>
  \<open>role\<close> is true for \<open>BLE_ROLE_MASTER\<close>; \<open>pconn\<close> and \<open>conn_tmp\<close> say whether the pointers are set; \<open>value_handle\<close>,
  \<open>ccc_handle\<close> are the subscription \<open>module_ccc[0]\<close>. \<open>dev_name\<close> and \<open>adv_name\<close> are character arrays with their zeros.
\<close>

record module =
  role :: bool
  auto_conn :: bool
  ble_st :: ble_state
  dev_list :: "ble_dev list"
  dev_cnt :: u8
  targed_addr :: bt_addr_le
  adv_name :: string
  dev_addr :: bt_addr_le
  pconn :: bool
  work_state :: u8
  conn_tmp :: bool
  ad_name :: ad_ref
  module_handle :: "u16 list"
  ccc_handle :: u16
  value_handle :: u16
  qpps_rx_ccc :: bool
  ota_reset :: bool
  outs :: "module_event list"

text \<open>
  The host and the non-volatile memory, which are not part of the sources, are a parameter: the results of the calls, which
  may depend on everything that was done before, the connection table and scan flags of the host, and \<open>str2bt_addr\<close>.
\<close>

record host_conn =
  hc_ref :: bool
  hc_le :: bool
  hc_match :: "bt_addr_le \<Rightarrow> bool"
  hc_state :: conn_state

record host =
  h_result :: "module_event list \<Rightarrow> module_event \<Rightarrow> s32"
  h_conns :: "module_event list \<Rightarrow> host_conn list"
  h_conn_lookup :: "module_event list \<Rightarrow> bt_addr_le \<Rightarrow> conn_state option"
  h_tmp_state :: "module_event list \<Rightarrow> conn_state"
  h_explicit_scan :: "module_event list \<Rightarrow> bool"
  h_scanning :: "module_event list \<Rightarrow> bool"
  h_connect_scan :: "module_event list \<Rightarrow> bool"
  h_nvram_get :: "module_event list \<Rightarrow> string \<Rightarrow> bytes option"
  str2bt_addr :: "string \<Rightarrow> bytes"

definition emit :: "module_event \<Rightarrow> module \<Rightarrow> module" where
  "emit e s = s\<lparr>outs := outs s @ [e]\<rparr>"

definition call :: "host \<Rightarrow> module_event \<Rightarrow> module \<Rightarrow> s32 \<times> module" where
  "call h e s = (h_result h (outs s) e, emit e s)"

abbreviation (input) "BLE_NAME_MAX_LEN \<equiv> 18 :: nat"
abbreviation (input) "DEV_TOTAL \<equiv> 5 :: nat"
abbreviation (input) "RSSI_NUM \<equiv> 5 :: nat"

definition c_str :: "string \<Rightarrow> string" where
  "c_str a = takeWhile (\<lambda>c. c \<noteq> CHR 0x00) a"

definition byte_char :: "u8 \<Rightarrow> char" where
  "byte_char b = char_of (unat b)"

definition str_bytes :: "string \<Rightarrow> bytes" where
  "str_bytes str = map of_char str"

abbreviation (input) "CRLF \<equiv> [CHR 0x0D, CHR 0x0A]"

definition at_cmd_response :: "string \<Rightarrow> module \<Rightarrow> module" where
  "at_cmd_response str = emit (Uart str)"

definition at_cmd_response_ok :: "module \<Rightarrow> module" where
  "at_cmd_response_ok = emit (Uart (''OK'' @ CRLF))"

definition at_cmd_response_error :: "module \<Rightarrow> module" where
  "at_cmd_response_error = emit (Uart (''ERROR'' @ CRLF))"

definition send_async_msg :: "msg_type \<Rightarrow> module \<Rightarrow> module" where
  "send_async_msg m = emit (Send_Msg m)"

definition ble_state_update :: "ble_state \<Rightarrow> module \<Rightarrow> module" where
  "ble_state_update st s = s\<lparr>ble_st := st\<rparr>"

section \<open>Advertising, scanning and connections\<close>

text \<open>\<open>ad_data_set\<close> with the type \<open>BT_DATA_NAME_SHORTENED\<close>, which the second element of \<open>ad\<close> has.\<close>

definition ad_data_set :: "u8 \<Rightarrow> module \<Rightarrow> module" where
  "ad_data_set data_len s = s\<lparr>ad_name := Param_Name data_len\<rparr>"

definition ad_name_data :: "module \<Rightarrow> string" where
  "ad_name_data s = (case ad_name s of Config_Name \<Rightarrow> ''ZRS1020810'' | Param_Name n \<Rightarrow> take (unat n) (adv_name s))"

definition start_adv :: "host \<Rightarrow> module \<Rightarrow> module" where
  "start_adv h s =
     (let (err, s) = call h (Adv_Start (ad_name_data s)) (emit Adv_Stop s) in
      if err \<noteq> 0 then s else ble_state_update ADVERTISING s)"

definition stop_scan :: "module \<Rightarrow> module" where
  "stop_scan s = ble_state_update READY (emit Scan_Stop s)"

definition disconnect :: "module \<Rightarrow> module" where
  "disconnect s =
     (if pconn s then emit Disconnect_Conn s
      else send_async_msg MSG_DISCONNECTED
        (if conn_tmp s then send_async_msg MSG_CREATE_LE_TIME_OUT (emit Disconnect_Tmp s)
         else at_cmd_response (''+DISCONNECTED'' @ CRLF) s))"

definition create_le_timeout :: "module \<Rightarrow> module" where
  "create_le_timeout = emit (Scan_Enable False)"

text \<open>\<open>bt_le_scan_update_new(true)\<close>; its result is not used.\<close>

definition bt_le_scan_update_new :: "host \<Rightarrow> module \<Rightarrow> module" where
  "bt_le_scan_update_new h s =
     (if h_explicit_scan h (outs s) then s
      else let (err, s) = (if h_scanning h (outs s) then call h (Scan_Enable False) s else (0, s)) in
        if err \<noteq> 0 then s
        else if h_connect_scan h (outs s) then emit Le_Scan (emit Conn_Unref s) else s)"

text \<open>\<open>bt_conn_create_le_new\<close> with the constant connection parameters, which are valid; true for a connection.\<close>

definition bt_conn_create_le_new :: "host \<Rightarrow> bt_addr_le \<Rightarrow> module \<Rightarrow> bool \<times> module" where
  "bt_conn_create_le_new h peer s =
     (if h_explicit_scan h (outs s) then (False, s)
      else case h_conn_lookup h (outs s) peer of
        Some BT_CONN_CONNECT_SCAN \<Rightarrow>
          (True, emit Conn_Param (emit Create_Timer (if h_scanning h (outs s) then s else bt_le_scan_update_new h s)))
      | Some BT_CONN_CONNECT \<Rightarrow> (True, s)
      | Some BT_CONN_CONNECTED \<Rightarrow> (True, s)
      | Some _ \<Rightarrow> (False, emit Conn_Unref s)
      | None \<Rightarrow> let (c, s) = call h (Conn_Add peer) s in
          if c = 0 then (False, s)
          else (True, emit Create_Timer (bt_le_scan_update_new h (emit Conn_To_Scan (emit Conn_Param s)))))"

definition bt_le_conn_lookup_addr :: "host \<Rightarrow> bt_addr_le \<Rightarrow> module \<Rightarrow> conn_state option" where
  "bt_le_conn_lookup_addr h peer s =
     map_option hc_state (find (\<lambda>c. hc_ref c \<and> hc_le c \<and> hc_match c peer) (h_conns h (outs s)))"

text \<open>The common part of \<open>at_conn_create\<close> and \<open>at_cona_create\<close>: give up a pending connection attempt first.\<close>

definition prepare_conn :: "host \<Rightarrow> bt_addr_le \<Rightarrow> module \<Rightarrow> s32 option \<times> module" where
  "prepare_conn h addr s =
     (case bt_le_conn_lookup_addr h addr s of
        Some st \<Rightarrow> (if st = BT_CONN_CONNECT \<or> st = BT_CONN_CONNECTED then Some 0 else None, s)
      | None \<Rightarrow> if conn_tmp s
          then if h_tmp_state h (outs s) = BT_CONN_CONNECT_SCAN then (None, emit Conn_Unref s)
               else (Some (- 1), emit Disconnect_Tmp s)
          else (None, s))"

definition finish_conn :: "bool \<Rightarrow> module \<Rightarrow> s32 \<times> module" where
  "finish_conn c s =
     (if c then (0, ble_state_update CONNECTING (emit Conn_Unref (s\<lparr>conn_tmp := True\<rparr>)))
      else (- 1, at_cmd_response_error (s\<lparr>conn_tmp := False\<rparr>)))"

definition at_conn_create :: "host \<Rightarrow> bt_addr_le \<Rightarrow> module \<Rightarrow> s32 \<times> module" where
  "at_conn_create h addr s = (case prepare_conn h addr s of
     (Some r, s) \<Rightarrow> (r, s)
   | (None, s) \<Rightarrow> let (c, s) = call h (Conn_Create addr) s in finish_conn (c \<noteq> 0) s)"

definition at_cona_create :: "host \<Rightarrow> bt_addr_le \<Rightarrow> module \<Rightarrow> s32 \<times> module" where
  "at_cona_create h addr s = (case prepare_conn h addr s of
     (Some r, s) \<Rightarrow> (r, s)
   | (None, s) \<Rightarrow> let (c, s) = bt_conn_create_le_new h addr s in finish_conn c s)"


section \<open>The list of scanned devices\<close>

definition get_dev_index :: "bt_addr_le \<Rightarrow> module \<Rightarrow> nat option" where
  "get_dev_index addr s = find (\<lambda>i. dev_address (dev_list s ! i) = addr) [0..<unat (dev_cnt s)]"

text \<open>
  The average of every device is stored in \<open>rssi_av\<close>, a signed byte, the averages are sorted and the first device with the
  largest one is taken.
\<close>

fun average_rssis :: "ble_dev list \<Rightarrow> nat \<Rightarrow> ble_dev list res" where
  "average_rssis ds 0 = Inr ds"
| "average_rssis [] (Suc n) = Inl Out_Of_Bounds"
| "average_rssis (d # ds) (Suc n) = rbind (average (rssi d) (rssi_cnt d)) (\<lambda>v.
     rbind (average_rssis ds n) (\<lambda>ds. Inr (d\<lparr>rssi_av := word_of_int v\<rparr> # ds)))"

definition get_max_riss_dev_index :: "module \<Rightarrow> (nat option \<times> module) res" where
  "get_max_riss_dev_index s = rbind (average_rssis (dev_list s) (unat (dev_cnt s))) (\<lambda>ds.
     let n = unat (dev_cnt s); s = s\<lparr>dev_list := ds\<rparr>;
         rssis = map (\<lambda>i. if i < n then sint (rssi_av (ds ! i)) else 0) [0..<DEV_TOTAL] in
     rbind (bubble_sort rssis n) (\<lambda>rssis.
     Inr (find (\<lambda>i. rssis ! 0 = sint (rssi_av (ds ! i))) [0..<n], s)))"

text \<open>
  A new device is appended while the count is below \<open>DEV_TOTAL - 1\<close>; a known one gets the signal strength in its ring of
  five and, once, a name. The name argument is an array of 18 characters. True when the device got its name now.
\<close>

definition set_name :: "string \<Rightarrow> ble_dev \<Rightarrow> ble_dev" where
  "set_name name d = d\<lparr>dev_name := take (BLE_NAME_MAX_LEN - 1) name @ [CHR 0x00]\<rparr>"

definition new_dev :: "bt_addr_le \<Rightarrow> s8 \<Rightarrow> string \<Rightarrow> u8 \<Rightarrow> ble_dev \<Rightarrow> ble_dev res" where
  "new_dev addr r name name_len d = rbind (arr_set (rssi d) (unat (rssi_cnt d)) r) (\<lambda>rs.
     let d = d\<lparr>dev_address := addr, rssi := rs, rssi_cur_index := 0, rssi_cnt := rssi_cnt d + 1\<rparr> in
     Inr (if name_len \<noteq> 0 then set_name name d else d))"

definition update_dev :: "s8 \<Rightarrow> string \<Rightarrow> u8 \<Rightarrow> ble_dev \<Rightarrow> (bool \<times> ble_dev) res" where
  "update_dev r name name_len d =
     (let i = rssi_cur_index d + 1; i = (if sint i = int RSSI_NUM then 0 else i) in
      rbind (if 0 \<le> sint i then arr_set (rssi d) (unat i) r else Inl Out_Of_Bounds) (\<lambda>rs.
      let d = d\<lparr>rssi_cur_index := i, rssi := rs, rssi_cnt := (if unat (rssi_cnt d) < RSSI_NUM then rssi_cnt d + 1 else rssi_cnt d)\<rparr> in
      Inr (if name_len \<noteq> 0 \<and> c_str (dev_name d) = [] then (True, set_name name d) else (False, d))))"

definition add_scan_dev_list :: "bt_addr_le \<Rightarrow> s8 \<Rightarrow> string \<Rightarrow> u8 \<Rightarrow> module \<Rightarrow> (bool \<times> module) res" where
  "add_scan_dev_list addr r name name_len s =
     (case get_dev_index addr s of
        None \<Rightarrow> if unat (dev_cnt s) < DEV_TOTAL - 1
          then let n = unat (dev_cnt s) in
            rbind (arr_get (dev_list s) n) (\<lambda>d. rbind (new_dev addr r name name_len d) (\<lambda>d.
            Inr (name_len \<noteq> 0, s\<lparr>dev_list := (dev_list s)[n := d], dev_cnt := dev_cnt s + 1\<rparr>)))
          else Inr (False, s)
      | Some i \<Rightarrow> rbind (arr_get (dev_list s) i) (\<lambda>d. rbind (update_dev r name name_len d) (\<lambda>(b, d).
          Inr (b, s\<lparr>dev_list := (dev_list s)[i := d]\<rparr>))))"

text \<open>
  \<open>ad_parse\<close> walks over the elements of the advertising data. \<open>strstr\<close> is called on data without a terminating zero: a
  search that meets neither the prefix nor a zero byte leaves the buffer.
\<close>

fun occurs_at :: "string \<Rightarrow> string \<Rightarrow> bool" where
  "occurs_at pat str \<longleftrightarrow> take (length pat) str = pat"

fun strstr :: "string \<Rightarrow> string \<Rightarrow> string option" where
  "strstr [] pat = (if pat = [] then Some [] else None)"
| "strstr (c # cs) pat = (if occurs_at pat (c # cs) then Some (c # cs) else strstr cs pat)"

definition strstr_raw :: "bytes \<Rightarrow> string \<Rightarrow> bool res" where
  "strstr_raw data pat =
     (let str = map byte_char data in
      if strstr (c_str str) pat \<noteq> None then Inr True
      else if CHR 0x00 \<in> set str then Inr False else Inl Out_Of_Bounds)"

function ad_parse :: "bytes \<Rightarrow> string option res" where
  "ad_parse [] = Inr None"
| "ad_parse [len] = Inr None"
| "ad_parse (len # ty # data) =
     (if len = 0 \<or> Suc (length data) < unat len then Inr None
      else if ty = 0x08 \<or> ty = 0x09
      then rbind (strstr_raw data ''ZRS'') (\<lambda>found.
        if found then Inr (Some (map byte_char (take (min (unat len - 1) (BLE_NAME_MAX_LEN - 1)) data)))
        else ad_parse (drop (unat len - 1) data))
      else ad_parse (drop (unat len - 1) data))"
  by pat_completeness auto

termination
  by (relation "measure length") auto

section \<open>Facts about the device list\<close>

text \<open>
  The invariant of the list: the array sizes, at most four devices, distinct addresses, one to five strengths for a listed
  device and none in the free entries.
\<close>

definition dev_ok :: "ble_dev \<Rightarrow> bool" where
  "dev_ok d \<longleftrightarrow> length (rssi d) = RSSI_NUM \<and> length (dev_name d) = BLE_NAME_MAX_LEN \<and>
     0 \<le> sint (rssi_cur_index d) \<and> sint (rssi_cur_index d) < int RSSI_NUM"

definition scan_list_ok :: "module \<Rightarrow> bool" where
  "scan_list_ok s \<longleftrightarrow> length (dev_list s) = DEV_TOTAL \<and> unat (dev_cnt s) < DEV_TOTAL \<and> (\<forall>d\<in>set (dev_list s). dev_ok d) \<and>
     (\<forall>i<unat (dev_cnt s). 0 < rssi_cnt (dev_list s ! i) \<and> unat (rssi_cnt (dev_list s ! i)) \<le> RSSI_NUM) \<and>
     (\<forall>i. unat (dev_cnt s) \<le> i \<and> i < DEV_TOTAL \<longrightarrow> rssi_cnt (dev_list s ! i) = 0) \<and>
     distinct (map dev_address (take (unat (dev_cnt s)) (dev_list s)))"

lemma get_dev_index_Some: "get_dev_index addr s = Some i \<Longrightarrow> i < unat (dev_cnt s) \<and> dev_address (dev_list s ! i) = addr"
  by (auto simp: get_dev_index_def find_Some_iff)

lemma get_dev_index_None: "get_dev_index addr s = None \<Longrightarrow> i < unat (dev_cnt s) \<Longrightarrow> dev_address (dev_list s ! i) \<noteq> addr"
  by (auto simp: get_dev_index_def find_None_iff)

lemma new_dev_ok:
  assumes "dev_ok d" "rssi_cnt d = 0" "length name = BLE_NAME_MAX_LEN"
  shows "\<exists>d'. new_dev addr r name nl d = Inr d' \<and> dev_ok d' \<and> rssi_cnt d' = 1 \<and> dev_address d' = addr"
  using assms by (auto simp: new_dev_def dev_ok_def arr_set_def set_name_def Let_def)

lemma update_dev_ok:
  assumes "dev_ok d" "length name = BLE_NAME_MAX_LEN" "0 < rssi_cnt d" "unat (rssi_cnt d) \<le> RSSI_NUM"
  shows "\<exists>b d'. update_dev r name nl d = Inr (b, d') \<and> dev_ok d' \<and> 0 < rssi_cnt d' \<and> unat (rssi_cnt d') \<le> RSSI_NUM \<and>
    dev_address d' = dev_address d"
proof -
  let ?c = "rssi_cur_index d"
  define i where "i = (if sint (?c + 1) = int RSSI_NUM then 0 else ?c + 1)"
  have c: "sint ?c \<in> {0..4}" using assms(1) by (auto simp: dev_ok_def)
  have "sint (?c + 1) = sint ?c + 1" using c by (simp add: sint_word_ariths signed_take_bit_int_eq_self)
  then have i: "0 \<le> sint i" "sint i < 5" using c by (auto simp: i_def)
  have "uint i = sint i" using i by (simp add: uint_sint take_bit_int_eq_self)
  then have u: "unat i < 5" using i by (simp add: nat_uint_eq [symmetric] del: nat_uint_eq)
  define n where "n = (if unat (rssi_cnt d) < RSSI_NUM then rssi_cnt d + 1 else rssi_cnt d)"
  have n: "0 < n" "unat n \<le> RSSI_NUM" using assms(3,4) by (auto simp: n_def word_less_nat_alt unat_word_ariths)
  have "update_dev r name nl d = rbind (if 0 \<le> sint i then arr_set (rssi d) (unat i) r else Inl Out_Of_Bounds) (\<lambda>rs.
      let d = d\<lparr>rssi_cur_index := i, rssi := rs, rssi_cnt := n\<rparr> in
      Inr (if nl \<noteq> 0 \<and> c_str (dev_name d) = [] then (True, set_name name d) else (False, d)))"
    unfolding update_dev_def Let_def i_def n_def by simp
  then show ?thesis
    using assms(1,2) i u n by (auto simp: Let_def dev_ok_def arr_set_def set_name_def)
qed

lemma add_scan_keeps:
  assumes ok: "scan_list_ok s" and name: "length name = BLE_NAME_MAX_LEN"
  shows "\<exists>b t. add_scan_dev_list addr r name nl s = Inr (b, t) \<and> scan_list_ok t"
proof (cases "get_dev_index addr s")
  case None
  let ?n = "unat (dev_cnt s)"
  show ?thesis
  proof (cases "?n < DEV_TOTAL - 1")
    case True
    have d: "?n < length (dev_list s)" "dev_ok (dev_list s ! ?n)" "rssi_cnt (dev_list s ! ?n) = 0"
      using ok True by (auto simp: scan_list_ok_def)
    obtain d' where d': "new_dev addr r name nl (dev_list s ! ?n) = Inr d'" "dev_ok d'" "rssi_cnt d' = 1" "dev_address d' = addr"
      using new_dev_ok [OF d(2,3) name] by blast
    have n1: "unat (dev_cnt s + 1) = Suc ?n" using True by (simp add: unat_word_ariths)
    let ?ds = "(dev_list s)[?n := d']"
    have "map dev_address (take (Suc ?n) ?ds) = map dev_address (take ?n (dev_list s)) @ [addr]"
      using d(1) d'(4) by (simp add: take_Suc_conv_app_nth)
    moreover have "addr \<notin> set (map dev_address (take ?n (dev_list s)))"
      using get_dev_index_None [OF None] d(1) by (fastforce simp: in_set_conv_nth)
    ultimately have "distinct (map dev_address (take (Suc ?n) ?ds))" using ok by (simp add: scan_list_ok_def)
    then have "scan_list_ok (s\<lparr>dev_list := ?ds, dev_cnt := dev_cnt s + 1\<rparr>)"
      using ok d' True n1 by (auto simp: scan_list_ok_def nth_list_update less_Suc_eq dest: set_update_subset_insert [THEN subsetD])
    then show ?thesis using None True d(1) d'(1) by (simp add: add_scan_dev_list_def arr_get_def)
  qed (use ok None in \<open>auto simp: add_scan_dev_list_def\<close>)
next
  case (Some i)
  have i: "i < unat (dev_cnt s)" "i < length (dev_list s)" "dev_ok (dev_list s ! i)" "0 < rssi_cnt (dev_list s ! i)"
    "unat (rssi_cnt (dev_list s ! i)) \<le> RSSI_NUM"
    using get_dev_index_Some [OF Some] ok by (auto simp: scan_list_ok_def)
  obtain b d' where d': "update_dev r name nl (dev_list s ! i) = Inr (b, d')" "dev_ok d'" "0 < rssi_cnt d'"
    "unat (rssi_cnt d') \<le> RSSI_NUM" "dev_address d' = dev_address (dev_list s ! i)"
    using update_dev_ok [OF i(3) name i(4,5)] by blast
  have "map dev_address ((dev_list s)[i := d']) = map dev_address (dev_list s)"
    using i(2) d'(5) by (simp add: map_update list_update_same_conv)
  then have "map dev_address (take k ((dev_list s)[i := d'])) = map dev_address (take k (dev_list s))" for k
    by (metis take_map)
  then have "scan_list_ok (s\<lparr>dev_list := (dev_list s)[i := d']\<rparr>)"
    using ok i d' by (auto simp: scan_list_ok_def nth_list_update dest: set_update_subset_insert [THEN subsetD])
  then show ?thesis using Some i(2) d'(1) by (simp add: add_scan_dev_list_def arr_get_def)
qed


lemma average_s8:
  assumes "length A = RSSI_NUM" "0 < n" "unat n \<le> RSSI_NUM"
  shows "\<exists>v. average A n = Inr v \<and> sint (word_of_int v :: s8) = v"
proof -
  have "\<forall>x\<in>set (take (unat n) A). - 128 \<le> sint x \<and> sint x \<le> 127"
  proof
    fix x :: s8
    show "- 128 \<le> sint x \<and> sint x \<le> 127" using sint_greater_eq [of x] sint_less [of x] by simp
  qed
  then obtain v where "average A n = Inr v" "- 128 \<le> v" "v \<le> 127"
    using average_bounds [of n A "- 128" 127] assms by auto
  then show ?thesis by (simp add: signed_take_bit_int_eq_self signed_of_int)
qed

lemma average_rssis_ok:
  assumes "n \<le> length ds" "\<forall>i<n. length (rssi (ds ! i)) = RSSI_NUM \<and> 0 < rssi_cnt (ds ! i) \<and> unat (rssi_cnt (ds ! i)) \<le> RSSI_NUM"
  shows "\<exists>es. average_rssis ds n = Inr es \<and> length es = length ds \<and> (\<forall>i<n. \<exists>v. average (rssi (ds ! i)) (rssi_cnt (ds ! i)) = Inr v \<and>
      sint (rssi_av (es ! i)) = v \<and> es ! i = (ds ! i)\<lparr>rssi_av := word_of_int v\<rparr>) \<and> (\<forall>i. n \<le> i \<and> i < length ds \<longrightarrow> es ! i = ds ! i)"
  using assms
proof (induction ds n rule: average_rssis.induct)
  case (3 d ds n)
  have "length (rssi d) = RSSI_NUM" "0 < rssi_cnt d" "unat (rssi_cnt d) \<le> RSSI_NUM" using 3(3) by (auto dest!: spec [of _ 0])
  then obtain v where v: "average (rssi d) (rssi_cnt d) = Inr v" "sint (word_of_int v :: s8) = v" using average_s8 by blast
  have "\<forall>i<n. length (rssi (ds ! i)) = RSSI_NUM \<and> 0 < rssi_cnt (ds ! i) \<and> unat (rssi_cnt (ds ! i)) \<le> RSSI_NUM"
    using 3(3) by (metis Suc_less_eq nth_Cons_Suc)
  then obtain es where es: "average_rssis ds n = Inr es" "length es = length ds"
    "\<forall>i<n. \<exists>v. average (rssi (ds ! i)) (rssi_cnt (ds ! i)) = Inr v \<and> sint (rssi_av (es ! i)) = v \<and> es ! i = (ds ! i)\<lparr>rssi_av := word_of_int v\<rparr>"
    "\<forall>i. n \<le> i \<and> i < length ds \<longrightarrow> es ! i = ds ! i"
    using 3(1) [of v] 3(2) v(1) by auto
  show ?case
    using v es by (auto simp: nth_Cons split: nat.splits)
qed auto

text \<open>
  When at least one device is listed, the device chosen after a scan is one whose average signal strength is the largest,
  and the choice keeps the invariant of the list.
\<close>

lemma strongest:
  assumes ok: "scan_list_ok s" and pos: "0 < dev_cnt s"
  shows "\<exists>i t. get_max_riss_dev_index s = Inr (Some i, t) \<and> i < unat (dev_cnt s) \<and> scan_list_ok t \<and>
    (\<forall>j<unat (dev_cnt s). \<exists>v w. average (rssi (dev_list s ! j)) (rssi_cnt (dev_list s ! j)) = Inr v \<and>
      average (rssi (dev_list s ! i)) (rssi_cnt (dev_list s ! i)) = Inr w \<and> v \<le> w)"
proof -
  let ?n = "unat (dev_cnt s)"
  have n: "?n \<le> length (dev_list s)" "0 < ?n" "?n < 5" using ok pos by (auto simp: scan_list_ok_def word_less_nat_alt)
  have "\<forall>i<?n. length (rssi (dev_list s ! i)) = RSSI_NUM \<and> 0 < rssi_cnt (dev_list s ! i) \<and> unat (rssi_cnt (dev_list s ! i)) \<le> RSSI_NUM"
    using ok by (auto simp: scan_list_ok_def dev_ok_def)
  from average_rssis_ok [OF n(1) this] obtain es where es: "average_rssis (dev_list s) ?n = Inr es" "length es = length (dev_list s)"
    "\<And>i. i < ?n \<Longrightarrow> \<exists>v. average (rssi (dev_list s ! i)) (rssi_cnt (dev_list s ! i)) = Inr v \<and> sint (rssi_av (es ! i)) = v \<and>
      es ! i = (dev_list s ! i)\<lparr>rssi_av := word_of_int v\<rparr>" "\<And>i. ?n \<le> i \<Longrightarrow> i < length (dev_list s) \<Longrightarrow> es ! i = dev_list s ! i"
    by blast
  let ?r = "map (\<lambda>i. if i < ?n then sint (rssi_av (es ! i)) else 0) [0..<5]"
  have "?n \<le> length ?r" using n(3) by simp
  then obtain B where B: "bubble_sort ?r ?n = Inr (B @ drop ?n ?r)" "mset B = mset (take ?n ?r)" "sorted_wrt (\<ge>) B"
    using bubble_sort_ok by blast
  have tk: "take ?n ?r = map (\<lambda>i. sint (rssi_av (es ! i))) [0..<?n]" using n(3) by (auto simp: take_map intro!: nth_equalityI)
  then have setB: "set B = (\<lambda>i. sint (rssi_av (es ! i))) ` {0..<?n}" using mset_eq_setD [OF B(2)] by simp
  then obtain b bs where Bc: "B = b # bs" using n(2) by (cases B) auto
  have max: "sint (rssi_av (es ! j)) \<le> b" if "j < ?n" for j
    using setB B(3) that unfolding Bc by fastforce
  have "\<exists>i. find (\<lambda>i. b = sint (rssi_av (es ! i))) [0..<?n] = Some i"
    using setB Bc find_None_iff [of "\<lambda>i. b = sint (rssi_av (es ! i))" "[0..<?n]"] by fastforce
  then obtain i where f: "find (\<lambda>i. b = sint (rssi_av (es ! i))) [0..<?n] = Some i" by blast
  then have i: "i < ?n" "b = sint (rssi_av (es ! i))" by (auto simp: find_Some_iff)
  have same: "\<exists>av. es ! j = (dev_list s ! j)\<lparr>rssi_av := av\<rparr>" if "j < 5" for j
  proof (cases "j < ?n")
    case False
    then show ?thesis using es(4) [of j] that ok by (intro exI [of _ "rssi_av (dev_list s ! j)"]) (simp add: scan_list_ok_def)
  qed (use es(3) in blast)
  have fields: "rssi (es ! j) = rssi (dev_list s ! j)" "rssi_cnt (es ! j) = rssi_cnt (dev_list s ! j)"
    "dev_ok (es ! j) = dev_ok (dev_list s ! j)" "dev_address (es ! j) = dev_address (dev_list s ! j)" if "j < 5" for j
    using same [OF that] by (auto simp: dev_ok_def)
  have len: "length es = 5" "length (dev_list s) = 5" using es(2) ok by (simp_all add: scan_list_ok_def)
  have "map dev_address (take ?n es) = map dev_address (take ?n (dev_list s))"
    using len n(3) fields(4) by (auto intro!: nth_equalityI)
  moreover have "dev_ok (dev_list s ! j)" if "j < 5" for j using ok that by (simp add: scan_list_ok_def)
  ultimately have "scan_list_ok (s\<lparr>dev_list := es\<rparr>)"
    using ok len fields n(3) by (auto simp: scan_list_ok_def in_set_conv_nth)
  moreover have "get_max_riss_dev_index s = Inr (Some i, s\<lparr>dev_list := es\<rparr>)"
    using f B(1) by (simp add: get_max_riss_dev_index_def es(1) Let_def Bc)
  ultimately show ?thesis using i es(3) max by (metis (no_types, lifting))
qed

end
