(* ===== verification/At_Cmd.thy ===== *)
theory At_Cmd
  imports Ble_Module
begin

text \<open>
  The AT command interpreter of the serial module (\<^verbatim>\<open>at_cmd.c\<close>): the command handlers, the parser without
  equal signs, the dispatcher, and the receive interrupt with its queue of line buffers.
\<close>

section \<open>Numbers\<close>

definition is_space :: "char \<Rightarrow> bool" where
  "is_space c \<longleftrightarrow> c \<in> set [CHR '' '', CHR 0x09, CHR 0x0A, CHR 0x0B, CHR 0x0C, CHR 0x0D]"

fun dec_val :: "int \<Rightarrow> string \<Rightarrow> int" where
  "dec_val n [] = n"
| "dec_val n (c # cs) = (if is_digit c then dec_val (10 * n + (of_char c - 48)) cs else n)"

definition atoi :: "string \<Rightarrow> int" where
  "atoi str = (let str = dropWhile is_space str in case str of
     c # cs \<Rightarrow> if c = CHR ''-'' then - dec_val 0 cs else if c = CHR ''+'' then dec_val 0 cs else dec_val 0 str
   | [] \<Rightarrow> 0)"

text \<open>A value of type \<open>int\<close>, of 32 bits: a result that does not fit, of \<open>atoi\<close> or of signed arithmetic, is undefined.\<close>

definition int_fits :: "int \<Rightarrow> bool" where
  "int_fits v \<longleftrightarrow> - (2 ^ 31) \<le> v \<and> v < 2 ^ 31"

definition c_int :: "int \<Rightarrow> int res" where
  "c_int v = (if int_fits v then Inr v else Inl Num_Overflow)"

fun nat_str :: "nat \<Rightarrow> string" where
  "nat_str n = (if n < 10 then [char_of (48 + n)] else nat_str (n div 10) @ [char_of (48 + n mod 10)])"

section \<open>Command handlers\<close>

abbreviation (input) "BLE_ROLE_SLAVE \<equiv> False"
abbreviation (input) "BLE_ROLE_MASTER \<equiv> True"
abbreviation (input) "EALREADY \<equiv> 69 :: s32"

definition echo_ok :: "string \<Rightarrow> string \<Rightarrow> module \<Rightarrow> module" where
  "echo_ok tag p s = at_cmd_response (CRLF @ ''OK'' @ CRLF) (at_cmd_response p (at_cmd_response tag s))"

definition switch_role :: "host \<Rightarrow> bool \<Rightarrow> module \<Rightarrow> module" where
  "switch_role h new_role s =
     (let s = (if new_role = BLE_ROLE_SLAVE then start_adv h (if ble_st s = INQUIRING then stop_scan s else s)
               else if ble_st s = ADVERTISING then emit Adv_Stop s else s);
          s = (if ble_st s = CONNECTING then disconnect s else s)
      in s\<lparr>role := new_role\<rparr>)"

definition at_cmd_role_set :: "host \<Rightarrow> string \<Rightarrow> module \<Rightarrow> module res" where
  "at_cmd_role_set h p s = rbind (c_int (atoi p)) (\<lambda>v. let r = (word_of_int v :: u8) in Inr (
      if \<not> is_decimal_string p \<or> r \<noteq> 0 \<and> r \<noteq> 1 then at_cmd_response_error s
      else let s = (if (r = 1) \<noteq> role s then ble_state_update READY (switch_role h (r = 1) s) else s) in
        emit (Nvram_Set ''BT_ROLE'' [r]) (echo_ok ''+ROLE='' p s)))"

definition at_cmd_role_get :: "module \<Rightarrow> module" where
  "at_cmd_role_get s = at_cmd_response (''+ROLE='' @ nat_str (of_bool (role s)) @ CRLF) s"

definition zero_dev :: ble_dev where
  "zero_dev = \<lparr>dev_address = BT_ADDR_LE_ANY, rssi_cur_index = 0, rssi = replicate 5 0, rssi_av = 0, rssi_cnt = 0,
     dev_name = replicate 18 (CHR 0x00)\<rparr>"

definition at_cmd_start_scan :: "host \<Rightarrow> nat \<Rightarrow> module \<Rightarrow> module" where
  "at_cmd_start_scan h time_out s =
     (let (err, s) = call h Scan_Start s in
      if err \<noteq> 0 \<and> err \<noteq> - EALREADY then at_cmd_response_error s
      else let s = ble_state_update INQUIRING s in if time_out \<noteq> 0 then emit (Scan_Timer (1000 * time_out)) s else s)"

definition at_cmd_inq :: "host \<Rightarrow> module \<Rightarrow> module" where
  "at_cmd_inq h s =
     (if role s \<noteq> BLE_ROLE_MASTER then at_cmd_response_error s
      else at_cmd_start_scan h 1 ((at_cmd_response_ok s)\<lparr>dev_list := replicate 5 zero_dev, dev_cnt := 0\<rparr>))"

definition stop_inquiry :: "module \<Rightarrow> module" where
  "stop_inquiry s = (if ble_st s = INQUIRING then stop_scan (emit Scan_Timer_Stop s) else s)"

definition or_error :: "s32 \<times> module \<Rightarrow> module" where
  "or_error = (\<lambda>(r, s). if r \<noteq> 0 then at_cmd_response_error s else s)"

text \<open>\<open>atoi(p_para) - 1\<close>, computed as an \<open>int\<close>.\<close>

definition atoi_minus_1 :: "string \<Rightarrow> int res" where
  "atoi_minus_1 p = rbind (c_int (atoi p)) (\<lambda>v. c_int (v - 1))"

definition at_cmd_conn_set :: "host \<Rightarrow> string \<Rightarrow> module \<Rightarrow> module res" where
  "at_cmd_conn_set h p s = rbind (atoi_minus_1 p) (\<lambda>v.
      let dev_index = (word_of_int v :: u8) in
      if role s \<noteq> BLE_ROLE_MASTER \<or> dev_cnt s = 0 \<or> dev_cnt s < dev_index then Inr (at_cmd_response_error s)
      else rbind (arr_get (dev_list s) (unat dev_index)) (\<lambda>d.
        Inr (or_error (at_conn_create h (dev_address d) (stop_inquiry s)))))"

text \<open>The parameter has the form \<open>0x\<close> and twelve hexadecimal digits.\<close>

definition is_addr_param :: "string \<Rightarrow> bool" where
  "is_addr_param p \<longleftrightarrow> (take 2 p = ''0x'' \<or> take 2 p = ''0X'') \<and> length (drop 2 p) = 12 \<and> is_hex_string (drop 2 p)"

text \<open>\<open>at_cmd_cona_set\<close> computes an index it does not use, before it looks at the form of the parameter.\<close>

definition at_cmd_cona_set :: "host \<Rightarrow> string \<Rightarrow> module \<Rightarrow> module res" where
  "at_cmd_cona_set h p s = rbind (atoi_minus_1 p) (\<lambda>dev_index. Inr (
      if role s \<noteq> BLE_ROLE_MASTER \<or> \<not> is_addr_param p then at_cmd_response_error s
      else let (_, addr) = at_str_to_le_addr (str2bt_addr h) (drop 2 p) in
        if addr = BT_ADDR_LE_ANY then at_cmd_response_error s
        else or_error (at_cona_create h addr (stop_inquiry s))))"

definition at_cmd_auto_conn_set :: "string \<Rightarrow> module \<Rightarrow> module res" where
  "at_cmd_auto_conn_set p s = rbind (c_int (atoi p)) (\<lambda>v. let a = (word_of_int v :: u8) in Inr (
      if role s \<noteq> BLE_ROLE_MASTER \<or> \<not> is_decimal_string p then at_cmd_response_error s
      else if a = 0 \<or> a = 1
      then emit (Nvram_Set ''BT_AUTOCONN'' [a]) (echo_ok ''+AUTOCONN='' p (s\<lparr>auto_conn := (a = 1)\<rparr>))
      else at_cmd_response_error s))"

definition at_cmd_auto_conn_get :: "module \<Rightarrow> module" where
  "at_cmd_auto_conn_get s =
     (if role s \<noteq> BLE_ROLE_MASTER then at_cmd_response_error s
      else at_cmd_response (''+AUTOCONN='' @ nat_str (of_bool (auto_conn s)) @ CRLF) s)"

abbreviation (input) "BLE_TARGET_ADDR_DFLT \<equiv> ''00:00:00:00:00:00''"
abbreviation (input) "BLE_DEVICE_ADDR_DFLT \<equiv> ''11:22:33:44:55:66''"
abbreviation (input) "BLE_ADV_NAME_DFLT \<equiv> ''ZRS1000001''"

definition at_cmd_clear :: "module \<Rightarrow> module" where
  "at_cmd_clear s =
     emit (Nvram_Set ''BT_TGT_ADDR'' (str_bytes BLE_TARGET_ADDR_DFLT))
       ((emit Storage_Clear (at_cmd_response_ok s))\<lparr>targed_addr := BT_ADDR_LE_ANY\<rparr>)"

definition at_cmd_reset :: "module \<Rightarrow> module" where
  "at_cmd_reset s = emit Reboot (at_cmd_response_ok s)"

definition at_cmd_default :: "module \<Rightarrow> module" where
  "at_cmd_default s =
     (let s = emit (Nvram_Set ''BT_ADDR'' (str_bytes BLE_DEVICE_ADDR_DFLT)) s;
          s = emit (Nvram_Set ''BT_ROLE'' [0]) s;
          s = emit (Nvram_Set ''BT_AUTOCONN'' [0]) s;
          s = emit (Nvram_Set ''BT_NAME'' (str_bytes BLE_ADV_NAME_DFLT)) s;
          s = emit (Nvram_Set ''BT_TGT_ADDR'' (str_bytes BLE_TARGET_ADDR_DFLT)) s;
          s = emit Storage_Clear s
      in at_cmd_response_ok (s\<lparr>targed_addr := BT_ADDR_LE_ANY\<rparr>))"

definition name_array :: "string \<Rightarrow> string" where
  "name_array p = (let p = take (BLE_NAME_MAX_LEN - 1) p in p @ replicate (BLE_NAME_MAX_LEN - length p) (CHR 0x00))"

definition at_cmd_adv_name_set :: "host \<Rightarrow> string \<Rightarrow> module \<Rightarrow> module" where
  "at_cmd_adv_name_set h p s =
     (if p = [] \<or> take 3 p \<noteq> ''ZRS'' then at_cmd_response_error s
      else let cp_len = min (length p) (BLE_NAME_MAX_LEN - 1);
          s = ad_data_set (of_nat cp_len) (s\<lparr>adv_name := name_array p\<rparr>);
          s = echo_ok ''+NAME='' (c_str (adv_name s)) s;
          s = (if role s = BLE_ROLE_SLAVE then start_adv h s else s)
        in emit (Nvram_Set ''BT_NAME'' (str_bytes (take cp_len p))) s)"

definition at_cmd_adv_name_get :: "module \<Rightarrow> module" where
  "at_cmd_adv_name_get s = at_cmd_response (''+NAME='' @ c_str (adv_name s) @ CRLF) s"

definition at_cmd_laddr_set :: "host \<Rightarrow> string \<Rightarrow> module \<Rightarrow> module" where
  "at_cmd_laddr_set h p s =
     (if \<not> is_addr_param p then at_cmd_response_error s
      else let (bt_addr_str, addr) = at_str_to_le_addr (str2bt_addr h) (drop 2 p) in
        echo_ok ''+LADDR='' p ((emit (Nvram_Set ''BT_ADDR'' (str_bytes bt_addr_str)) s)\<lparr>dev_addr := addr\<rparr>))"

definition at_cmd_laddr_get :: "module \<Rightarrow> module" where
  "at_cmd_laddr_get s = at_cmd_response (''+LADDR=0x'' @ at_addr_le_to_str (dev_addr s) @ CRLF) s"

definition at_cmd_disconnect :: "module \<Rightarrow> module" where
  "at_cmd_disconnect s = at_cmd_response_ok (send_async_msg MSG_DISCONNECT s)"

definition at_cmd_ota :: "module \<Rightarrow> module" where
  "at_cmd_ota s = at_cmd_response_ok (send_async_msg MSG_DISCONNECT (s\<lparr>role := BLE_ROLE_SLAVE\<rparr>))"

section \<open>Parser and dispatcher\<close>

text \<open>The table \<open>at_cmds_hj\<close> without its first line: the text, the command, and whether it takes a parameter.\<close>

record at_entry =
  at_name :: string
  at_cmd_str :: string
  at_cmd_len :: nat
  at_param_len :: nat

definition at_cmds_hj :: "at_entry list" where
  "at_cmds_hj = map (\<lambda>(n, c, k, p). \<lparr>at_name = n, at_cmd_str = c, at_cmd_len = k, at_param_len = p\<rparr>)
     [(''AT+ROLE'', ''ROLE'', 7, 1), (''AT+INQ'', ''INQ'', 6, 0), (''AT+CONN'', ''CONN'', 7, 1), (''AT+CONA'', ''CONA'', 7, 14),
      (''AT+AUTOCONN'', ''AUTOCONN'', 11, 1), (''AT+CLEAR'', ''CLEAR'', 8, 0), (''AT+RESET'', ''RESET'', 8, 0),
      (''AT+DEFAULT'', ''DEFAULT'', 10, 0), (''AT+NAME'', ''NAME'', 7, 255), (''AT+LADDR'', ''LADDR'', 8, 14),
      (''AT+DISCONNECT'', ''DISCONNECT'', 13, 0), (''AT+OTA'', ''OTA'', 5, 0)]"

text \<open>\<open>line2argv\<close>: nothing to do, an error, or the argument vector.\<close>

datatype argv = No_Line | Bad_Line | Argv "string list"

fun find_entry :: "at_entry list \<Rightarrow> string \<Rightarrow> (at_entry \<times> string) option" where
  "find_entry [] str = None"
| "find_entry (e # es) str = (case strstr str (at_name e) of Some str_cmd \<Rightarrow> Some (e, str_cmd) | None \<Rightarrow> find_entry es str)"

definition line2argv :: "string \<Rightarrow> argv" where
  "line2argv str =
     (let str = dropWhile (\<lambda>c. c = CHR '' '') str in
      if str = [] then No_Line
      else if str = ''AT'' then Argv [''AT'']
      else case find_entry at_cmds_hj str of
        None \<Rightarrow> Bad_Line
      | Some (e, str_cmd) \<Rightarrow>
          if at_param_len e \<noteq> 0
          then Argv ([''AT'', at_cmd_str e] @ (if at_cmd_len e < length str_cmd then [drop (at_cmd_len e) str_cmd] else []))
          else if str_cmd = at_name e then Argv [''AT'', at_cmd_str e] else Bad_Line)"

text \<open>The table \<open>at_cmd_commands\<close>.\<close>

definition lift_cmd :: "(module \<Rightarrow> module) \<Rightarrow> module \<Rightarrow> module res" where
  "lift_cmd f s = Inr (f s)"

definition set_cb :: "host \<Rightarrow> string \<Rightarrow> (string \<Rightarrow> module \<Rightarrow> module res) option" where
  "set_cb h = map_of [(''ROLE'', at_cmd_role_set h), (''CONN'', at_cmd_conn_set h), (''CONA'', at_cmd_cona_set h), (''AUTOCONN'', at_cmd_auto_conn_set),
     (''NAME'', \<lambda>p. lift_cmd (at_cmd_adv_name_set h p)), (''LADDR'', \<lambda>p. lift_cmd (at_cmd_laddr_set h p))]"

definition exec_cb_of :: "host \<Rightarrow> string \<Rightarrow> (module \<Rightarrow> module) option" where
  "exec_cb_of h = map_of [(''ROLE'', at_cmd_role_get), (''INQ'', at_cmd_inq h), (''AUTOCONN'', at_cmd_auto_conn_get),
     (''CLEAR'', at_cmd_clear), (''RESET'', at_cmd_reset), (''DEFAULT'', at_cmd_default), (''NAME'', at_cmd_adv_name_get),
     (''LADDR'', at_cmd_laddr_get), (''DISCONNECT'', at_cmd_disconnect), (''OTA'', at_cmd_ota)]"

definition at_cmd_commands :: "string list" where
  "at_cmd_commands = [''ROLE'', ''INQ'', ''CONN'', ''CONA'', ''AUTOCONN'', ''CLEAR'', ''RESET'', ''DEFAULT'', ''NAME'', ''LADDR'',
     ''DISCONNECT'', ''OTA'']"

definition exec_cb :: "host \<Rightarrow> string list \<Rightarrow> module \<Rightarrow> module res" where
  "exec_cb h av s = (case av of
     [] \<Rightarrow> Inr (at_cmd_response_error s)
   | a # cs \<Rightarrow> if a \<noteq> ''AT'' then Inr (at_cmd_response_error s)
       else (case cs of
         [] \<Rightarrow> Inr (at_cmd_response_ok s)
       | c # ps \<Rightarrow> if c \<notin> set at_cmd_commands then Inr (at_cmd_response_error s)
           else (case ps of
             [] \<Rightarrow> (case exec_cb_of h c of Some f \<Rightarrow> Inr (f s) | None \<Rightarrow> Inr (at_cmd_response_error s))
           | [p] \<Rightarrow> (case set_cb h c of Some f \<Rightarrow> f p s | None \<Rightarrow> Inr (at_cmd_response_error s))
           | _ \<Rightarrow> Inr s)))"

definition at_cmd_exec :: "host \<Rightarrow> string \<Rightarrow> module \<Rightarrow> (int \<times> module) res" where
  "at_cmd_exec h line s = (case line2argv line of
     No_Line \<Rightarrow> Inr (0, s) | Bad_Line \<Rightarrow> Inr (- 22, s)
   | Argv av \<Rightarrow> rbind (exec_cb h av s) (\<lambda>s. Inr (int (length av), s)))"


section \<open>Receiving lines\<close>

text \<open>
  The three line buffers move between the queue of free buffers, the receive interrupt (\<open>input_cmd\<close> with the characters stored in it so far;
  their number is \<open>input_cur\<close>) and the queue of commands. The interrupt declares the buffer as \<open>struct console_input\<close>, so it stores at most
  127 characters of a line although the buffers have room for 255.
\<close>

record at_rx =
  avail_queue :: "nat list"
  cmds_queue :: "(nat \<times> string) list"
  input_cmd :: "(nat \<times> string) option"
  cmd_queue_ref :: int

definition is_print :: "char \<Rightarrow> bool" where
  "is_print c \<longleftrightarrow> CHR '' '' \<le> c \<and> c \<le> CHR ''~''"

definition end_line :: "string \<Rightarrow> string" where
  "end_line l = (if l \<noteq> [] \<and> last l = CHR 0x0D then butlast l else l)"

definition rx_store :: "nat \<Rightarrow> string \<Rightarrow> char \<Rightarrow> at_rx \<Rightarrow> at_rx" where
  "rx_store b l c r =
     (if \<not> is_print c
      then if c = CHR 0x0A
        then r\<lparr>cmds_queue := cmds_queue r @ [(b, end_line l)], cmd_queue_ref := cmd_queue_ref r - 1, input_cmd := None\<rparr>
        else r
      else if length l < 127 then r\<lparr>input_cmd := Some (b, l @ [c])\<rparr> else r)"

definition at_cmd_rx_isr :: "char \<Rightarrow> at_rx \<Rightarrow> at_rx" where
  "at_cmd_rx_isr c r = (case input_cmd r of
     Some (b, l) \<Rightarrow> rx_store b l c r
   | None \<Rightarrow> (case avail_queue r of
       [] \<Rightarrow> r
     | b # bs \<Rightarrow> rx_store b [] c (r\<lparr>avail_queue := bs, input_cmd := Some (b, []), cmd_queue_ref := cmd_queue_ref r + 1\<rparr>)))"

definition at_cmd_handler :: "host \<Rightarrow> at_rx \<times> module \<Rightarrow> (at_rx \<times> module) res" where
  "at_cmd_handler h = (\<lambda>(r, s). case cmds_queue r of
     [] \<Rightarrow> Inr (r, s)
   | (b, line) # cs \<Rightarrow>
       rbind (if pconn s then Inr s
              else rbind (at_cmd_exec h line s) (\<lambda>(err, s). Inr (if err < 0 then at_cmd_response_error s else s))) (\<lambda>s.
       Inr (r\<lparr>cmds_queue := cs, avail_queue := avail_queue r @ [b]\<rparr>, s)))"

definition enter_into_at_cmd_mode :: "at_rx \<times> module \<Rightarrow> at_rx \<times> module" where
  "enter_into_at_cmd_mode = (\<lambda>(r, s).
     (let r' = r\<lparr>cmd_queue_ref := 0, input_cmd := None\<rparr> in
      (case input_cmd r of
         Some (b, _) \<Rightarrow> if cmd_queue_ref r \<noteq> 0 then r'\<lparr>cmds_queue := cmds_queue r @ [(b, [])]\<rparr> else r'
       | None \<Rightarrow> r'), emit Cmd_Mode s))"

definition at_cmd_init :: at_rx where
  "at_cmd_init = \<lparr>avail_queue = [0, 1, 2], cmds_queue = [], input_cmd = None, cmd_queue_ref = 0\<rparr>"

section \<open>Facts about receiving\<close>

text \<open>
  No line buffer is ever lost or queued twice, the reference count says whether a line is being received, and stored lines
  are printable and at most 127 characters long.
\<close>

definition line_ok :: "string \<Rightarrow> bool" where
  "line_ok l \<longleftrightarrow> length l \<le> 127 \<and> (\<forall>c\<in>set l. is_print c)"

definition rx_ok :: "at_rx \<Rightarrow> bool" where
  "rx_ok r \<longleftrightarrow>
     mset (avail_queue r) + mset (map fst (cmds_queue r)) + (case input_cmd r of Some (b, _) \<Rightarrow> {#b#} | None \<Rightarrow> {#}) = {#0, 1, 2#} \<and>
     cmd_queue_ref r = (if input_cmd r = None then 0 else 1) \<and>
     (\<forall>e\<in>set (cmds_queue r). line_ok (snd e)) \<and> (\<forall>e\<in>set_option (input_cmd r). line_ok (snd e))"

lemma end_line_print: "\<forall>c\<in>set l. is_print c \<Longrightarrow> end_line l = l"
proof -
  assume l: "\<forall>c\<in>set l. is_print c"
  have "\<not> is_print (CHR 0x0D)" by (simp add: is_print_def less_eq_char_def)
  then show ?thesis using l last_in_set [of l] by (metis end_line_def)
qed

lemma rx_store_ok: "rx_ok r \<Longrightarrow> input_cmd r = Some (b, l) \<Longrightarrow> rx_ok (rx_store b l c r)"
  by (auto simp: rx_ok_def rx_store_def end_line_print line_ok_def)

lemma at_cmd_rx_isr_ok: "rx_ok r \<Longrightarrow> rx_ok (at_cmd_rx_isr c r)"
proof (cases "input_cmd r")
  case None
  assume ok: "rx_ok r"
  show ?thesis
  proof (cases "avail_queue r")
    case (Cons b bs)
    then have "rx_ok (r\<lparr>avail_queue := bs, input_cmd := Some (b, []), cmd_queue_ref := cmd_queue_ref r + 1\<rparr>)"
      using ok None by (simp add: rx_ok_def line_ok_def)
    then show ?thesis using None Cons rx_store_ok by (simp add: at_cmd_rx_isr_def)
  qed (use ok None in \<open>simp add: at_cmd_rx_isr_def\<close>)
qed (auto simp: at_cmd_rx_isr_def rx_store_ok)

lemma at_cmd_handler_ok: "rx_ok r \<Longrightarrow> at_cmd_handler h (r, s) = Inr (r', s') \<Longrightarrow> rx_ok r'"
proof (cases "cmds_queue r")
  case (Cons e es)
  assume "rx_ok r" "at_cmd_handler h (r, s) = Inr (r', s')"
  moreover have "rx_ok r \<Longrightarrow> rx_ok (r\<lparr>cmds_queue := es, avail_queue := avail_queue r @ [fst e]\<rparr>)"
    using Cons by (cases "input_cmd r") (auto simp: rx_ok_def add_mset_commute)
  ultimately show ?thesis using Cons by (auto simp: at_cmd_handler_def rbind_eq_Inr split: prod.splits)
qed (simp add: at_cmd_handler_def)

lemma enter_mode_ok: "rx_ok r \<Longrightarrow> rx_ok (fst (enter_into_at_cmd_mode (r, s)))"
  by (auto simp: enter_into_at_cmd_mode_def rx_ok_def line_ok_def split: option.splits)

lemma at_cmd_init_ok: "rx_ok at_cmd_init"
  by (simp add: rx_ok_def at_cmd_init_def)

lemma fold_rx_line:
  "input_cmd r = Some (b, l) \<Longrightarrow> \<forall>c\<in>set line. is_print c \<Longrightarrow> length l \<le> 127 \<Longrightarrow>
   fold at_cmd_rx_isr line r = r\<lparr>input_cmd := Some (b, l @ take (127 - length l) line)\<rparr>"
proof (induction line arbitrary: r l)
  case (Cons c line)
  show ?case
  proof (cases "length l < 127")
    case True
    let ?r = "r\<lparr>input_cmd := Some (b, l @ [c])\<rparr>"
    have "at_cmd_rx_isr c r = ?r" using Cons.prems True by (simp add: at_cmd_rx_isr_def rx_store_def)
    moreover have "fold at_cmd_rx_isr line ?r = ?r\<lparr>input_cmd := Some (b, (l @ [c]) @ take (127 - length (l @ [c])) line)\<rparr>"
      using Cons.prems True by (intro Cons.IH) simp_all
    ultimately show ?thesis using True by (simp add: take_Cons')
  next
    case False
    then have "at_cmd_rx_isr c r = r" using Cons.prems by (simp add: at_cmd_rx_isr_def rx_store_def)
    then show ?thesis using Cons.IH [OF Cons.prems(1) _ Cons.prems(3)] Cons.prems(2) False by simp
  qed
qed simp

lemma rx_first:
  "input_cmd r = None \<Longrightarrow> avail_queue r = b # bs \<Longrightarrow>
   at_cmd_rx_isr c r = at_cmd_rx_isr c (r\<lparr>avail_queue := bs, input_cmd := Some (b, []), cmd_queue_ref := cmd_queue_ref r + 1\<rparr>)"
  by (simp add: at_cmd_rx_isr_def)

lemma not_print [simp]: "\<not> is_print (CHR 0x0D)" "\<not> is_print (CHR 0x0A)"
  by (simp_all add: is_print_def less_eq_char_def)

lemma line_queued:
  assumes "rx_ok r" "input_cmd r = None" "avail_queue r = b # bs" "\<forall>c\<in>set line. is_print c" "eol = [CHR 0x0A] \<or> eol = [CHR 0x0D, CHR 0x0A]"
  shows "fold at_cmd_rx_isr (line @ eol) r = r\<lparr>avail_queue := bs, cmds_queue := cmds_queue r @ [(b, take 127 line)]\<rparr>"
proof -
  let ?r = "r\<lparr>avail_queue := bs, input_cmd := Some (b, []), cmd_queue_ref := cmd_queue_ref r + 1\<rparr>"
  have "fold at_cmd_rx_isr (line @ eol) r = fold at_cmd_rx_isr (line @ eol) ?r"
    using assms(5) rx_first [OF assms(2,3)] by (cases line) auto
  also have "\<dots> = fold at_cmd_rx_isr eol (?r\<lparr>input_cmd := Some (b, take 127 line)\<rparr>)"
    using fold_rx_line [of ?r b "[]" line] assms(4) by simp
  also have "\<dots> = r\<lparr>avail_queue := bs, cmds_queue := cmds_queue r @ [(b, take 127 line)]\<rparr>"
  proof -
    have "end_line (take 127 line) = take 127 line" using assms(4) by (intro end_line_print) (auto dest: in_set_takeD)
    then show ?thesis using assms(2,5) by (auto simp: at_cmd_rx_isr_def rx_store_def)
  qed
  finally show ?thesis .
qed

subsection \<open>Parsing\<close>

lemma strstr_plus:
  assumes "CHR ''+'' \<notin> set p" "CHR ''+'' \<in> set pat"
  shows "strstr p pat = None"
  using assms(1)
proof (induction p)
  case (Cons c p)
  have "take (length pat) (c # p) \<noteq> pat" using Cons.prems assms(2) by (metis in_set_takeD)
  then show ?case using Cons by simp
qed (use assms(2) in auto)

lemma strstr_at: "CHR ''+'' \<notin> set p \<Longrightarrow>
  strstr (CHR ''A'' # CHR ''T'' # CHR ''+'' # p) (CHR ''A'' # CHR ''T'' # CHR ''+'' # q) =
   (if take (length q) p = q then Some (CHR ''A'' # CHR ''T'' # CHR ''+'' # p) else None)"
  by (simp add: strstr_plus)

text \<open>The argument vector of an entry of the table and the text after its name.\<close>

definition argv_of :: "at_entry \<Rightarrow> string \<Rightarrow> argv" where
  "argv_of e p = (if at_param_len e = 0 \<and> p \<noteq> [] then Bad_Line else Argv ([''AT'', at_cmd_str e] @ (if p = [] then [] else [p])))"

lemma parse_exact:
  assumes "e \<in> set at_cmds_hj" "CHR ''+'' \<notin> set p"
  shows "line2argv (replicate k (CHR '' '') @ at_name e @ p) = argv_of e p"
proof -
  have sp: "dropWhile (\<lambda>c. c = CHR '' '') (replicate k (CHR '' '') @ at_name e @ p) = at_name e @ p"
    using assms(1) by (induction k) (auto simp: at_cmds_hj_def)
  have "find_entry at_cmds_hj (at_name e @ p) = Some (e, at_name e @ p)"
    using assms by (auto simp: at_cmds_hj_def strstr_at simp del: strstr.simps)
  moreover have "at_name e @ p \<noteq> ''AT''" "at_name e \<noteq> []" "at_param_len e \<noteq> 0 \<Longrightarrow> at_cmd_len e = length (at_name e)"
    using assms by (auto simp: at_cmds_hj_def)
  ultimately show ?thesis by (auto simp: line2argv_def sp argv_of_def Let_def)
qed


section \<open>Serving a line\<close>

text \<open>A line with its end arrives and the command thread handles it.\<close>

definition at_serve :: "host \<Rightarrow> string \<Rightarrow> at_rx \<times> module \<Rightarrow> (at_rx \<times> module) res" where
  "at_serve h line = (\<lambda>(r, s). at_cmd_handler h (fold at_cmd_rx_isr (line @ CRLF) r, s))"

definition rx_idle :: "at_rx \<Rightarrow> bool" where
  "rx_idle r \<longleftrightarrow> rx_ok r \<and> input_cmd r = None \<and> cmds_queue r = []"

lemma serve_exec:
  assumes "rx_idle r" "\<not> pconn s" "\<forall>c\<in>set line. is_print c" "length line \<le> 127"
  shows "\<exists>r'. rx_idle r' \<and> at_serve h line (r, s) = rbind (at_cmd_exec h line s) (\<lambda>(err, s).
    Inr (r', if err < 0 then at_cmd_response_error s else s))"
proof -
  obtain b bs where av: "avail_queue r = b # bs"
    using assms(1) by (cases "avail_queue r") (auto simp: rx_idle_def rx_ok_def)
  let ?r = "r\<lparr>avail_queue := bs @ [b]\<rparr>"
  have idle: "rx_ok r" "input_cmd r = None" "cmds_queue r = []" using assms(1) by (simp_all add: rx_idle_def)
  have "rx_idle ?r" using idle av by (auto simp: rx_idle_def rx_ok_def)
  moreover have "fold at_cmd_rx_isr (line @ CRLF) r = r\<lparr>avail_queue := bs, cmds_queue := [(b, line)]\<rparr>"
    using line_queued [OF idle(1,2) av assms(3), of CRLF] idle(3) assms(4) by simp
  ultimately show ?thesis
    using idle(3) assms(2) by (intro exI [of _ ?r]) (cases "at_cmd_exec h line s"; auto simp: at_serve_def at_cmd_handler_def)
qed

lemma is_print_hex: "is_hex_digit c \<Longrightarrow> is_print c"
  by (auto simp: is_hex_digit_def is_digit_def is_print_def less_eq_char_def)

lemma exec_entry:
  assumes "e \<in> set at_cmds_hj" "CHR ''+'' \<notin> set p" "line = at_name e @ p"
  shows "at_cmd_exec h line s = (case argv_of e p of No_Line \<Rightarrow> Inr (0, s) | Bad_Line \<Rightarrow> Inr (- 22, s)
    | Argv av \<Rightarrow> rbind (exec_cb h av s) (\<lambda>s. Inr (int (length av), s)))"
  using parse_exact [OF assms(1,2), of 0] by (simp add: at_cmd_exec_def assms(3))

lemma addr_param: "length (addr_val a) = 6 \<Longrightarrow> is_addr_param (''0x'' @ at_addr_le_to_str a)"
  using addr_str_hex(1,2) [of a] by (simp add: is_addr_param_def)

lemma addr_plus: "length (addr_val a) = 6 \<Longrightarrow> CHR ''+'' \<notin> set (at_addr_le_to_str a)"
proof
  assume "length (addr_val a) = 6" "CHR ''+'' \<in> set (at_addr_le_to_str a)"
  then have "is_hex_digit (CHR ''+'')" using addr_str_hex(2) [of a] by (auto simp: is_hex_string_def)
  then show False by (simp add: is_hex_digit_def is_digit_def less_eq_char_def)
qed

lemma exec_laddr_get: "at_cmd_exec h ''AT+LADDR'' s = Inr (2, at_cmd_laddr_get s)"
  by (simp add: exec_entry [where e = "\<lparr>at_name = ''AT+LADDR'', at_cmd_str = ''LADDR'', at_cmd_len = 8, at_param_len = 14\<rparr>" and p = "[]"]
    at_cmds_hj_def argv_of_def exec_cb_def at_cmd_commands_def exec_cb_of_def)

lemma exec_laddr_set: "CHR ''+'' \<notin> set p \<Longrightarrow> p \<noteq> [] \<Longrightarrow> at_cmd_exec h (''AT+LADDR'' @ p) s = Inr (3, at_cmd_laddr_set h p s)"
  using exec_entry [where e = "\<lparr>at_name = ''AT+LADDR'', at_cmd_str = ''LADDR'', at_cmd_len = 8, at_param_len = 14\<rparr>" and p = p and line = "''AT+LADDR'' @ p" and h = h and s = s]
  by (simp add: at_cmds_hj_def argv_of_def exec_cb_def at_cmd_commands_def set_cb_def lift_cmd_def)

lemma laddr_set_get:
  assumes "length (addr_val a) = 6" "addr_type a = BT_ADDR_LE_PUBLIC" "str2bt_addr h (at_addr_le_to_str2 a) = addr_val a"
  shows "at_cmd_laddr_get (at_cmd_laddr_set h (''0x'' @ at_addr_le_to_str a) s) = s\<lparr>dev_addr := a, outs := outs s @
    [Nvram_Set ''BT_ADDR'' (str_bytes (at_addr_le_to_str2 a)), Uart ''+LADDR='', Uart (''0x'' @ at_addr_le_to_str a), Uart (CRLF @ ''OK'' @ CRLF),
     Uart (''+LADDR=0x'' @ at_addr_le_to_str a @ CRLF)]\<rparr>"
proof -
  have "\<lparr>addr_type = BT_ADDR_LE_PUBLIC, addr_val = addr_val a\<rparr> = a" using assms(2) by simp
  then show ?thesis
    using addr_param [OF assms(1)] addr_str_hex(3) [OF assms(1)] assms(3)
    by (simp add: at_cmd_laddr_set_def at_cmd_laddr_get_def at_str_to_le_addr_def echo_ok_def at_cmd_response_def emit_def Let_def)
qed

text \<open>
  C31 (roundtrip). The local address set with \<open>AT+LADDR0x...\<close>, received character by character, is stored in the non-volatile memory in the
  form with colons and is what \<open>AT+LADDR\<close> then answers, provided that \<open>str2bt_addr\<close>, which is in ROM, reads back the form that
  \<open>at_addr_le_to_str2\<close> prints. Between the commands and after them the receiver is idle again.
\<close>

theorem at_laddr_roundtrip:
  assumes "rx_idle r" "\<not> pconn s" "length (addr_val a) = 6" "addr_type a = BT_ADDR_LE_PUBLIC"
    "str2bt_addr h (at_addr_le_to_str2 a) = addr_val a"
  shows "\<exists>r' s' r''. at_serve h (''AT+LADDR0x'' @ at_addr_le_to_str a) (r, s) = Inr (r', s') \<and> rx_idle r'' \<and>
    at_serve h ''AT+LADDR'' (r', s') = Inr (r'', s\<lparr>dev_addr := a, outs := outs s @
      [Nvram_Set ''BT_ADDR'' (str_bytes (at_addr_le_to_str2 a)), Uart ''+LADDR='', Uart (''0x'' @ at_addr_le_to_str a),
       Uart (CRLF @ ''OK'' @ CRLF), Uart (''+LADDR=0x'' @ at_addr_le_to_str a @ CRLF)]\<rparr>)"
proof -
  let ?p = "''0x'' @ at_addr_le_to_str a" and ?s = "at_cmd_laddr_set h (''0x'' @ at_addr_le_to_str a) s"
  have p: "\<forall>c\<in>set (at_addr_le_to_str a). is_print c" "length (''AT+LADDR'' @ ?p) \<le> 127"
    using addr_str_hex(1,2) [OF assms(3)] is_print_hex by (auto simp: is_hex_string_def)
  have l: "\<forall>c\<in>set ''AT+LADDR0x''. is_print c" by (simp add: is_print_def less_eq_char_def)
  have "at_cmd_exec h (''AT+LADDR'' @ ?p) s = Inr (3, ?s)" using addr_plus [OF assms(3)] by (intro exec_laddr_set) simp_all
  then obtain r' where r': "rx_idle r'" "at_serve h (''AT+LADDR'' @ ?p) (r, s) = Inr (r', ?s)"
    using serve_exec [OF assms(1,2) _ p(2), of h] p(1) l by auto
  have "\<not> pconn ?s" using assms(2)
    by (simp add: at_cmd_laddr_set_def at_str_to_le_addr_def echo_ok_def at_cmd_response_def emit_def at_cmd_response_error_def Let_def)
  then obtain r'' where "rx_idle r''" "at_serve h ''AT+LADDR'' (r', ?s) = Inr (r'', at_cmd_laddr_get ?s)"
    using serve_exec [OF r'(1), of ?s "''AT+LADDR''" h] l exec_laddr_get by auto
  then show ?thesis using r'(2) laddr_set_get [OF assms(3-5)] by auto
qed


text \<open>A host on which every call succeeds and no connection exists, with a reader of addresses.\<close>

definition hex_val :: "char \<Rightarrow> u8" where
  "hex_val c = (if is_digit c then of_char c - 48 else (of_char c AND 0xDF) - 55)"

fun read_addr :: "string \<Rightarrow> bytes" where
  "read_addr (a # b # c # str) = read_addr str @ [16 * hex_val a + hex_val b]"
| "read_addr [a, b] = [16 * hex_val a + hex_val b]"
| "read_addr _ = []"

definition quiet_host :: host where
  "quiet_host = \<lparr>h_result = \<lambda>_ _. 0, h_conns = \<lambda>_. [], h_conn_lookup = \<lambda>_ _. None, h_tmp_state = \<lambda>_. BT_CONN_CONNECT_SCAN,
     h_explicit_scan = \<lambda>_. False, h_scanning = \<lambda>_. False, h_connect_scan = \<lambda>_. False, h_nvram_get = \<lambda>_ _. None, str2bt_addr = read_addr\<rparr>"

definition idle_module :: module where
  "idle_module = \<lparr>role = True, auto_conn = False, ble_st = INITIALIZED, dev_list = replicate DEV_TOTAL zero_dev, dev_cnt = 0,
     targed_addr = BT_ADDR_LE_ANY, adv_name = name_array BLE_ADV_NAME_DFLT, dev_addr = BT_ADDR_LE_ANY, pconn = False, work_state = 0,
     conn_tmp = False, ad_name = Config_Name, module_handle = replicate 7 0, ccc_handle = 0, value_handle = 0, qpps_rx_ccc = False,
     ota_reset = False, outs = []\<rparr>"

lemma rx_idle_init: "rx_idle at_cmd_init"
  using at_cmd_init_ok by (simp add: rx_idle_def at_cmd_init_def)

theorem at_laddr_roundtrip_witness:
  "\<exists>r' s' r''. at_serve quiet_host ''AT+LADDR0x0A1B2C3D4EFF'' (at_cmd_init, idle_module) = Inr (r', s') \<and> rx_idle r'' \<and>
    at_serve quiet_host ''AT+LADDR'' (r', s') = Inr (r'', idle_module\<lparr>dev_addr := \<lparr>addr_type = 0, addr_val = [0xFF, 0x4E, 0x3D, 0x2C, 0x1B, 0x0A]\<rparr>,
      outs := [Nvram_Set ''BT_ADDR'' (str_bytes ''0A:1B:2C:3D:4E:FF''), Uart ''+LADDR='', Uart ''0x0A1B2C3D4EFF'',
        Uart (CRLF @ ''OK'' @ CRLF), Uart (''+LADDR=0x0A1B2C3D4EFF'' @ CRLF)]\<rparr>)"
proof -
  let ?a = "\<lparr>addr_type = 0, addr_val = [0xFF, 0x4E, 0x3D, 0x2C, 0x1B, 0x0A]\<rparr>"
  have s: "at_addr_le_to_str ?a = ''0A1B2C3D4EFF''" "at_addr_le_to_str2 ?a = ''0A:1B:2C:3D:4E:FF''" by code_simp+
  have r: "str2bt_addr quiet_host ''0A:1B:2C:3D:4E:FF'' = [0xFF, 0x4E, 0x3D, 0x2C, 0x1B, 0x0A]"
    unfolding quiet_host_def by code_simp
  have o: "outs idle_module = []" "\<not> pconn idle_module" by (simp_all add: idle_module_def)
  from at_laddr_roundtrip [OF rx_idle_init, of idle_module ?a quiet_host] show ?thesis unfolding s o by (simp add: r o)
qed

section \<open>The state of the module\<close>

text \<open>
  The invariant of the parameters: the list of devices is well formed, the name is terminated within its array and the advertising
  data does not reach beyond it, and the work state says whether there is a connection.
\<close>

definition module_ok :: "module \<Rightarrow> bool" where
  "module_ok s \<longleftrightarrow> scan_list_ok s \<and> length (adv_name s) = BLE_NAME_MAX_LEN \<and> adv_name s ! (BLE_NAME_MAX_LEN - 1) = CHR 0x00 \<and>
     (case ad_name s of Config_Name \<Rightarrow> True | Param_Name n \<Rightarrow> unat n < BLE_NAME_MAX_LEN) \<and>
     length (module_handle s) = 7 \<and> work_state s = of_bool (pconn s)"

lemma module_ok_frame [simp]:
  "module_ok (s\<lparr>outs := x1\<rparr>) = module_ok s" "module_ok (s\<lparr>role := x2\<rparr>) = module_ok s" "module_ok (s\<lparr>ble_st := x3\<rparr>) = module_ok s"
  "module_ok (s\<lparr>auto_conn := x4\<rparr>) = module_ok s" "module_ok (s\<lparr>targed_addr := x5\<rparr>) = module_ok s"
  "module_ok (s\<lparr>dev_addr := x6\<rparr>) = module_ok s" "module_ok (s\<lparr>conn_tmp := x7\<rparr>) = module_ok s"
  "module_ok (s\<lparr>value_handle := x8\<rparr>) = module_ok s" "module_ok (s\<lparr>ccc_handle := x9\<rparr>) = module_ok s"
  "module_ok (s\<lparr>qpps_rx_ccc := x10\<rparr>) = module_ok s" "module_ok (s\<lparr>ota_reset := x11\<rparr>) = module_ok s"
  by (simp_all add: module_ok_def scan_list_ok_def)

named_theorems module_ops

lemmas [module_ops] = emit_def call_def at_cmd_response_def at_cmd_response_ok_def at_cmd_response_error_def send_async_msg_def ble_state_update_def
  start_adv_def stop_scan_def disconnect_def create_le_timeout_def echo_ok_def stop_inquiry_def switch_role_def

lemma emit_ok [simp]: "module_ok (emit e s) = module_ok s"
  by (simp add: emit_def)

lemma or_error_ok: "module_ok (snd x) \<Longrightarrow> module_ok (or_error x)"
  by (auto simp: or_error_def at_cmd_response_error_def split: prod.splits)

lemma scan_update_ok [simp]: "module_ok (bt_le_scan_update_new h s) = module_ok s"
  by (auto simp: bt_le_scan_update_new_def call_def Let_def)

lemma create_new_ok [simp]: "module_ok (snd (bt_conn_create_le_new h a s)) = module_ok s"
  by (auto simp: bt_conn_create_le_new_def call_def Let_def split: option.splits conn_state.splits)

lemma prepare_ok [simp]: "module_ok (snd (prepare_conn h a s)) = module_ok s"
  by (auto simp: prepare_conn_def split: option.splits)

lemma finish_ok [simp]: "module_ok (snd (finish_conn c s)) = module_ok s"
  by (auto simp: finish_conn_def module_ops)

lemma conn_create_ok [simp]: "module_ok (snd (at_conn_create h a s)) = module_ok s"
proof (cases "prepare_conn h a s")
  case (Pair o' t)
  then have "module_ok t = module_ok s" using prepare_ok [of h a s] by simp
  then show ?thesis using Pair by (simp add: at_conn_create_def call_def split: option.split)
qed

lemma cona_create_ok [simp]: "module_ok (snd (at_cona_create h a s)) = module_ok s"
proof (cases "prepare_conn h a s")
  case (Pair o' t)
  then have "module_ok t = module_ok s" using prepare_ok [of h a s] by simp
  moreover have "module_ok (snd (finish_conn (fst x) (snd x))) = module_ok t" if "x = bt_conn_create_le_new h a t" for x
    using that by simp
  ultimately show ?thesis using Pair by (simp add: at_cona_create_def split_beta split: option.split)
qed

lemma name_array_ok: "length (name_array p) = BLE_NAME_MAX_LEN" "name_array p ! (BLE_NAME_MAX_LEN - 1) = CHR 0x00"
  by (auto simp: name_array_def Let_def nth_append)

lemma zero_list_ok: "module_ok s \<Longrightarrow> module_ok (s\<lparr>dev_list := replicate 5 zero_dev, dev_cnt := 0\<rparr>)"
  by (simp add: module_ok_def scan_list_ok_def dev_ok_def zero_dev_def)

lemma start_adv_ok [simp]: "module_ok (start_adv h s) = module_ok s"
  by (simp add: module_ops Let_def)

lemma handlers_ok:
  assumes "module_ok s"
  shows "module_ok (at_cmd_role_get s)" "module_ok (at_cmd_inq h s)" "module_ok (at_cmd_auto_conn_get s)" "module_ok (at_cmd_clear s)"
    "module_ok (at_cmd_reset s)" "module_ok (at_cmd_default s)" "module_ok (at_cmd_adv_name_get s)" "module_ok (at_cmd_laddr_get s)"
    "module_ok (at_cmd_disconnect s)" "module_ok (at_cmd_ota s)" "module_ok (at_cmd_laddr_set h p s)"
proof -
  show "module_ok (at_cmd_role_get s)" "module_ok (at_cmd_auto_conn_get s)" "module_ok (at_cmd_clear s)" "module_ok (at_cmd_reset s)"
    "module_ok (at_cmd_default s)" "module_ok (at_cmd_adv_name_get s)" "module_ok (at_cmd_laddr_get s)" "module_ok (at_cmd_disconnect s)"
    "module_ok (at_cmd_ota s)"
    using assms by (simp_all add: at_cmd_role_get_def at_cmd_auto_conn_get_def at_cmd_clear_def at_cmd_reset_def at_cmd_default_def
      at_cmd_adv_name_get_def at_cmd_laddr_get_def at_cmd_disconnect_def at_cmd_ota_def module_ops)
  show "module_ok (at_cmd_inq h s)"
    using zero_list_ok [OF assms] assms by (simp add: at_cmd_inq_def at_cmd_start_scan_def module_ops Let_def)
  show "module_ok (at_cmd_laddr_set h p s)" using assms by (simp add: at_cmd_laddr_set_def at_str_to_le_addr_def module_ops Let_def)
qed

text \<open>A parameter that \<open>atoi\<close> cannot read into an \<open>int\<close>, or one from which one cannot be subtracted.\<close>

definition bad_param :: "string \<Rightarrow> string \<Rightarrow> bool" where
  "bad_param c p \<longleftrightarrow> c \<in> set [''ROLE'', ''AUTOCONN'', ''CONN'', ''CONA''] \<and> \<not> int_fits (atoi p) \<or>
     c \<in> set [''CONN'', ''CONA''] \<and> \<not> int_fits (atoi p - 1)"

lemma atoi_minus_1_eq: "atoi_minus_1 p = (if int_fits (atoi p) \<and> int_fits (atoi p - 1) then Inr (atoi p - 1) else Inl Num_Overflow)"
  by (simp add: atoi_minus_1_def c_int_def)

lemma role_set_ok: "module_ok s \<Longrightarrow>
  if bad_param ''ROLE'' p then at_cmd_role_set h p s = Inl Num_Overflow else \<exists>t. at_cmd_role_set h p s = Inr t \<and> module_ok t"
  by (simp add: bad_param_def at_cmd_role_set_def c_int_def module_ops Let_def)

lemma auto_conn_set_ok: "module_ok s \<Longrightarrow>
  if bad_param ''AUTOCONN'' p then at_cmd_auto_conn_set p s = Inl Num_Overflow else \<exists>t. at_cmd_auto_conn_set p s = Inr t \<and> module_ok t"
  by (simp add: bad_param_def at_cmd_auto_conn_set_def c_int_def module_ops Let_def)

lemma cona_set_ok: "module_ok s \<Longrightarrow>
  if bad_param ''CONA'' p then at_cmd_cona_set h p s = Inl Num_Overflow else \<exists>t. at_cmd_cona_set h p s = Inr t \<and> module_ok t"
  by (auto simp: bad_param_def at_cmd_cona_set_def atoi_minus_1_eq at_str_to_le_addr_def Let_def or_error_ok stop_inquiry_def stop_scan_def
    ble_state_update_def at_cmd_response_error_def)

lemma adv_name_set_ok: "module_ok s \<Longrightarrow> module_ok (at_cmd_adv_name_set h p s)"
proof -
  assume ok: "module_ok s"
  let ?n = "min (length p) 17"
  have "unat (of_nat ?n :: u8) = ?n" by (simp add: unat_of_nat take_bit_nat_eq_self)
  then have "module_ok (s\<lparr>adv_name := name_array p, ad_name := Param_Name (of_nat ?n)\<rparr>)"
    using ok name_array_ok [of p] by (simp add: module_ok_def scan_list_ok_def)
  then show ?thesis by (simp add: at_cmd_adv_name_set_def ok ad_data_set_def echo_ok_def at_cmd_response_def at_cmd_response_error_def Let_def)
qed

lemma conn_set_ok: "module_ok s \<Longrightarrow>
  if bad_param ''CONN'' p then at_cmd_conn_set h p s = Inl Num_Overflow else \<exists>t. at_cmd_conn_set h p s = Inr t \<and> module_ok t"
proof -
  assume ok: "module_ok s"
  let ?i = "word_of_int (atoi p - 1) :: u8"
  have b: "bad_param ''CONN'' p \<longleftrightarrow> \<not> (int_fits (atoi p) \<and> int_fits (atoi p - 1))" by (auto simp: bad_param_def)
  show ?thesis
  proof (cases "\<not> role s \<or> dev_cnt s = 0 \<or> dev_cnt s < ?i")
    case False
    then have "unat ?i < length (dev_list s)" using ok by (auto simp: module_ok_def scan_list_ok_def word_less_nat_alt not_less)
    then show ?thesis using False ok
      by (auto simp: b at_cmd_conn_set_def atoi_minus_1_eq arr_get_def or_error_ok stop_inquiry_def stop_scan_def ble_state_update_def Let_def)
  qed (use ok in \<open>auto simp: b at_cmd_conn_set_def atoi_minus_1_eq at_cmd_response_error_def Let_def\<close>)
qed

definition bad_argv :: "string list \<Rightarrow> bool" where
  "bad_argv av = (case av of [a, c, p] \<Rightarrow> a = ''AT'' \<and> bad_param c p | _ \<Rightarrow> False)"

definition bad_line :: "string \<Rightarrow> bool" where
  "bad_line line = (case line2argv line of Argv av \<Rightarrow> bad_argv av | _ \<Rightarrow> False)"

lemma set_cb_ok:
  assumes "module_ok s" "set_cb h c = Some f"
  shows "if bad_param c p then f p s = Inl Num_Overflow else \<exists>t. f p s = Inr t \<and> module_ok t"
proof -
  have "\<not> bad_param ''NAME'' p" "\<not> bad_param ''LADDR'' p" by (simp_all add: bad_param_def)
  then show ?thesis
    using assms(2) handlers_ok(11) [OF assms(1)] adv_name_set_ok [OF assms(1)] conn_set_ok [OF assms(1), of p h] role_set_ok [OF assms(1), of p h]
      auto_conn_set_ok [OF assms(1), of p] cona_set_ok [OF assms(1), of p h]
    by (auto simp: set_cb_def lift_cmd_def split: if_splits)
qed

lemma bad_param_cb: "bad_param c p \<Longrightarrow> c \<in> set at_cmd_commands \<and> set_cb h c \<noteq> None"
  by (auto simp: bad_param_def at_cmd_commands_def set_cb_def)

lemma exec_cb_ok: "module_ok s \<Longrightarrow> if bad_argv av then exec_cb h av s = Inl Num_Overflow else \<exists>t. exec_cb h av s = Inr t \<and> module_ok t"
proof -
  assume ok: "module_ok s"
  have err: "module_ok (at_cmd_response_error s)" "module_ok (at_cmd_response_ok s)" using ok by (simp_all add: module_ops)
  have ex: "module_ok (f s)" if "exec_cb_of h c = Some f" for c f
    using that handlers_ok(1-10) [OF ok] by (auto simp: exec_cb_of_def split: if_splits)
  have st: "f p s = Inl Num_Overflow" if "set_cb h c = Some f" "bad_param c p" for c f p using set_cb_ok [OF ok that(1), of p] that(2) by simp
  have sf: "\<exists>t. f p s = Inr t \<and> module_ok t" if "set_cb h c = Some f" "\<not> bad_param c p" for c f p using set_cb_ok [OF ok that(1), of p] that(2) by simp
  show ?thesis
  proof (cases "bad_argv av")
    case True
    then obtain c p where av: "av = [''AT'', c, p]" "bad_param c p" by (auto simp: bad_argv_def split: list.splits)
    then show ?thesis using True st bad_param_cb [of c p h] by (auto simp: exec_cb_def)
  next
    case False
    then show ?thesis using ok err ex sf by (auto simp: exec_cb_def bad_argv_def split: list.splits option.split)
  qed
qed

lemma exec_ok:
  assumes "module_ok s"
  shows "if bad_line line then at_cmd_exec h line s = Inl Num_Overflow else \<exists>n t. at_cmd_exec h line s = Inr (n, t) \<and> module_ok t"
proof (cases "line2argv line")
  case (Argv av)
  then show ?thesis using exec_cb_ok [OF assms, of av h] by (auto simp: at_cmd_exec_def bad_line_def)
qed (use assms in \<open>simp_all add: at_cmd_exec_def bad_line_def\<close>)

text \<open>The next command of the queue is one with such a parameter; it is executed only while there is no connection.\<close>

definition bad_command :: "at_rx \<Rightarrow> module \<Rightarrow> bool" where
  "bad_command r s = (case cmds_queue r of [] \<Rightarrow> False | (b, line) # cs \<Rightarrow> \<not> pconn s \<and> bad_line line)"

lemma handler_ok:
  assumes "rx_ok r" "module_ok s"
  shows "if bad_command r s then at_cmd_handler h (r, s) = Inl Num_Overflow
    else \<exists>r' s'. at_cmd_handler h (r, s) = Inr (r', s') \<and> rx_ok r' \<and> module_ok s'"
proof -
  have "if bad_command r s then at_cmd_handler h (r, s) = Inl Num_Overflow
    else \<exists>r' s'. at_cmd_handler h (r, s) = Inr (r', s') \<and> module_ok s'"
  proof (cases "cmds_queue r")
    case (Cons e es)
    then show ?thesis using exec_ok [OF assms(2), of "snd e" h] assms(2)
      by (cases e) (auto simp: at_cmd_handler_def bad_command_def at_cmd_response_error_def)
  qed (use assms in \<open>simp add: at_cmd_handler_def bad_command_def\<close>)
  then show ?thesis using at_cmd_handler_ok [OF assms(1)] by (metis (full_types))
qed

lemma idle_module_ok: "module_ok idle_module"
  by (simp add: module_ok_def idle_module_def scan_list_ok_def dev_ok_def zero_dev_def name_array_ok [simplified])

text \<open>
  Unless the line has a number that does not fit an \<open>int\<close>, the command thread handles the next one without undefined behaviour and keeps the
  invariants of the receiver and of the module; the index of \<open>AT+CONN\<close> stays in the array although its test admits one device too many.
\<close>

theorem at_handler_safe:
  assumes "rx_ok r" "module_ok s"
  shows "if bad_command r s then at_cmd_handler h (r, s) = Inl Num_Overflow
    else \<exists>r' s'. at_cmd_handler h (r, s) = Inr (r', s') \<and> rx_ok r' \<and> module_ok s'"
  using handler_ok [OF assms] .

theorem at_handler_safe_witness:
  "\<exists>r' s'. at_cmd_handler quiet_host (at_cmd_init\<lparr>avail_queue := [1, 2], cmds_queue := [(0, ''AT+CONN7'')]\<rparr>, idle_module) = Inr (r', s') \<and>
    rx_ok r' \<and> module_ok s'"
proof -
  have "rx_ok (at_cmd_init\<lparr>avail_queue := [1, 2], cmds_queue := [(0, ''AT+CONN7'')]\<rparr>)"
    by (simp add: rx_ok_def at_cmd_init_def line_ok_def is_print_def less_eq_char_def)
  moreover have "\<not> bad_line ''AT+CONN7''" by code_simp
  ultimately show ?thesis using at_handler_safe [OF _ idle_module_ok, of _ quiet_host] by (simp add: bad_command_def)
qed

text \<open>
  A line of printable characters, ended by a line feed with or without a carriage return, that arrives while no line is being
  received and a buffer is free, becomes the last command of the queue, cut after 127 characters; nothing else changes but that its
  buffer is no longer free.
\<close>

theorem at_line_received:
  assumes "rx_ok r" "input_cmd r = None" "avail_queue r = b # bs" "\<forall>c\<in>set line. is_print c" "eol = [CHR 0x0A] \<or> eol = [CHR 0x0D, CHR 0x0A]"
  shows "fold at_cmd_rx_isr (line @ eol) r = r\<lparr>avail_queue := bs, cmds_queue := cmds_queue r @ [(b, take 127 line)]\<rparr>"
  using line_queued [OF assms] .

theorem at_line_received_witness:
  "fold at_cmd_rx_isr (''AT+INQ'' @ [CHR 0x0D, CHR 0x0A]) at_cmd_init =
     at_cmd_init\<lparr>avail_queue := [1, 2], cmds_queue := [(0, take 127 ''AT+INQ'')]\<rparr>"
  using at_line_received [of at_cmd_init 0 "[1, 2]" "''AT+INQ''" "[CHR 0x0D, CHR 0x0A]"] at_cmd_init_ok
  by (simp add: at_cmd_init_def is_print_def less_eq_char_def)

text \<open>
  A line that starts, after spaces, with the name of a command followed by text without a plus sign is read as that command with
  the text as its parameter, or rejected when the command takes none; no other entry of the table can match.
\<close>

theorem at_parse_exact:
  assumes "e \<in> set at_cmds_hj" "CHR ''+'' \<notin> set p"
  shows "line2argv (replicate k (CHR '' '') @ at_name e @ p) =
    (if at_param_len e = 0 \<and> p \<noteq> [] then Bad_Line else Argv ([''AT'', at_cmd_str e] @ (if p = [] then [] else [p])))"
  using parse_exact [OF assms] by (simp add: argv_of_def)

theorem at_parse_exact_witness: "line2argv ''  AT+CONN2'' = Argv [''AT'', ''CONN'', ''2'']"
  using at_parse_exact [of "\<lparr>at_name = ''AT+CONN'', at_cmd_str = ''CONN'', at_cmd_len = 7, at_param_len = 1\<rparr>" "''2''" 2]
  by (simp add: at_cmds_hj_def numeral_eq_Suc)

subsection \<open>Changing the role\<close>

lemma serve_role:
  assumes "rx_idle r" "\<not> pconn s" "p = ''0'' \<or> p = ''1''"
  shows "\<exists>r'. rx_idle r' \<and> at_serve h (''AT+ROLE'' @ p) (r, s) = rbind (at_cmd_role_set h p s) (\<lambda>t. Inr (r', t))"
proof -
  have "\<forall>c\<in>set (''AT+ROLE'' @ p). is_print c" "length (''AT+ROLE'' @ p) \<le> 127"
    using assms(3) by (auto simp: is_print_def less_eq_char_def)
  moreover have "at_cmd_exec h (''AT+ROLE'' @ p) s = rbind (at_cmd_role_set h p s) (\<lambda>t. Inr (3, t))"
    using exec_entry [where e = "\<lparr>at_name = ''AT+ROLE'', at_cmd_str = ''ROLE'', at_cmd_len = 7, at_param_len = 1\<rparr>" and p = p
      and line = "''AT+ROLE'' @ p" and h = h and s = s] assms(3)
    by (auto simp: at_cmds_hj_def argv_of_def exec_cb_def at_cmd_commands_def set_cb_def lift_cmd_def)
  ultimately show ?thesis using serve_exec [OF assms(1,2), of "''AT+ROLE'' @ p" h] by (cases "at_cmd_role_set h p s") auto
qed

lemma role_values: "atoi ''0'' = 0" "atoi ''1'' = 1" "is_decimal_string ''0''" "is_decimal_string ''1''"
  by code_simp+

lemma role_set_01: "at_cmd_role_set h ''0'' s = Inr (emit (Nvram_Set ''BT_ROLE'' [0]) (echo_ok ''+ROLE='' ''0''
    (if role s then ble_state_update READY (switch_role h False s) else s)))"
  "at_cmd_role_set h ''1'' s = Inr (emit (Nvram_Set ''BT_ROLE'' [1]) (echo_ok ''+ROLE='' ''1''
    (if role s then s else ble_state_update READY (switch_role h True s))))"
  by (simp_all add: at_cmd_role_set_def role_values c_int_def int_fits_def)

text \<open>
  \<open>at_cmd_role_set\<close> overwrites the state that \<open>start_adv\<close> has set. A master that becomes a slave with \<open>AT+ROLE0\<close> advertises but is in
  the state \<open>READY\<close>, so \<open>AT+ROLE1\<close> does not stop the advertising: the module is a master again and can still be connected to.
  A connection attempt that was pending is not cancelled either.
\<close>

theorem at_role_keeps_advertising:
  assumes "rx_idle r" "\<not> pconn s" "role s" "\<And>es n. h_result h es (Adv_Start n) = 0"
  shows "\<exists>r' s' r'' s''. at_serve h ''AT+ROLE0'' (r, s) = Inr (r', s') \<and> at_serve h ''AT+ROLE1'' (r', s') = Inr (r'', s'') \<and>
    role s'' \<and> ble_st s'' = READY \<and> outs s'' = outs s @ (if ble_st s = INQUIRING then [Scan_Stop] else []) @
      [Adv_Stop, Adv_Start (ad_name_data s), Uart ''+ROLE='', Uart ''0'', Uart (CRLF @ ''OK'' @ CRLF), Nvram_Set ''BT_ROLE'' [0],
       Uart ''+ROLE='', Uart ''1'', Uart (CRLF @ ''OK'' @ CRLF), Nvram_Set ''BT_ROLE'' [1]]"
proof -
  let ?s = "emit (Nvram_Set ''BT_ROLE'' [0]) (echo_ok ''+ROLE='' ''0'' (ble_state_update READY (switch_role h False s)))"
  have 0: "at_cmd_role_set h ''0'' s = Inr ?s" using assms(3) by (simp add: role_set_01)
  obtain r' where r': "rx_idle r'" "at_serve h (''AT+ROLE'' @ ''0'') (r, s) = Inr (r', ?s)"
    using serve_role [OF assms(1,2), of "''0''" h] 0 by auto
  have s: "\<not> pconn ?s" using assms(2) by (simp add: module_ops Let_def)
  obtain r'' where "at_serve h (''AT+ROLE'' @ ''1'') (r', ?s) = rbind (at_cmd_role_set h ''1'' ?s) (\<lambda>t. Inr (r'', t))"
    using serve_role [OF r'(1) s, of "''1''" h] by blast
  then show ?thesis using r'(2) assms(3,4) by (auto simp: role_set_01 module_ops ad_name_data_def split: ad_ref.split)
qed

theorem at_role_keeps_advertising_witness:
  "\<exists>r' s' r'' s''. at_serve quiet_host ''AT+ROLE0'' (at_cmd_init, idle_module) = Inr (r', s') \<and>
    at_serve quiet_host ''AT+ROLE1'' (r', s') = Inr (r'', s'') \<and> role s'' \<and> ble_st s'' = READY \<and> outs s'' =
      [Adv_Stop, Adv_Start ''ZRS1020810'', Uart ''+ROLE='', Uart ''0'', Uart (CRLF @ ''OK'' @ CRLF), Nvram_Set ''BT_ROLE'' [0],
       Uart ''+ROLE='', Uart ''1'', Uart (CRLF @ ''OK'' @ CRLF), Nvram_Set ''BT_ROLE'' [1]]"
  using at_role_keeps_advertising [OF rx_idle_init, of idle_module quiet_host]
  by (simp add: idle_module_def quiet_host_def ad_name_data_def)

section \<open>The strongest device\<close>

text \<open>
  When at least one device is listed, the device chosen after a scan is one whose average signal strength is the largest,
  and the choice keeps the invariant of the list.
\<close>

theorem strongest_device:
  assumes "scan_list_ok s" "0 < dev_cnt s"
  shows "\<exists>i t. get_max_riss_dev_index s = Inr (Some i, t) \<and> i < unat (dev_cnt s) \<and> scan_list_ok t \<and>
    (\<forall>j<unat (dev_cnt s). \<exists>v w. average (rssi (dev_list s ! j)) (rssi_cnt (dev_list s ! j)) = Inr v \<and>
      average (rssi (dev_list s ! i)) (rssi_cnt (dev_list s ! i)) = Inr w \<and> v \<le> w)"
  using strongest [OF assms] .

definition listed :: "u8 \<Rightarrow> s8 \<Rightarrow> module \<Rightarrow> module" where
  "listed a r s = (case add_scan_dev_list \<lparr>addr_type = 0, addr_val = [a, 0, 0, 0, 0, 0]\<rparr> r (name_array ''ZRS1'') 4 s of
     Inr (_, t) \<Rightarrow> t | Inl _ \<Rightarrow> s)"

definition two_devices :: module where
  "two_devices = listed 1 (- 70) (listed 2 (- 50) (listed 1 (- 60) idle_module))"

lemma listed_ok: "scan_list_ok s \<Longrightarrow> scan_list_ok (listed a r s)"
  using add_scan_keeps [of s "name_array ''ZRS1''" "\<lparr>addr_type = 0, addr_val = [a, 0, 0, 0, 0, 0]\<rparr>" r 4, OF _ name_array_ok(1)]
  by (auto simp: listed_def)

lemma two_devices_ok: "scan_list_ok two_devices"
  using idle_module_ok by (simp add: two_devices_def listed_ok module_ok_def)

theorem strongest_device_witness:
  "\<exists>i t. get_max_riss_dev_index two_devices = Inr (Some i, t) \<and> i < 2 \<and> scan_list_ok t \<and>
    (\<forall>j<2. \<exists>v w. average (rssi (dev_list two_devices ! j)) (rssi_cnt (dev_list two_devices ! j)) = Inr v \<and>
      average (rssi (dev_list two_devices ! i)) (rssi_cnt (dev_list two_devices ! i)) = Inr w \<and> v \<le> w)"
proof -
  have "dev_cnt two_devices = 2" by code_simp
  then show ?thesis using strongest_device [OF two_devices_ok] by simp
qed

end
