(* ===== verification/Act_Data.thy ===== *)
theory Act_Data
  imports At_Cmd "HOL-Library.Sublist"
begin

text \<open>
  Data mode of the serial module: the receive interrupt and its packet buffers, the commands recognised inside the data, and the
  thread that forwards packets to the peer (\<^verbatim>\<open>at/act_data.c\<close>), with \<open>module_write\<close> and \<open>ble_send_data\<close> of
  \<^verbatim>\<open>app_ble.c\<close> and the server profile \<^verbatim>\<open>profile/qpps.c\<close>.
\<close>

section \<open>Sending to the peer\<close>

abbreviation (input) "EIO \<equiv> 5 :: s32"
abbreviation (input) "QPPS_TX_HDL \<equiv> 2 :: nat"

definition act_data_send_data :: "bytes \<Rightarrow> module \<Rightarrow> module" where
  "act_data_send_data data = emit (Uart (map byte_char data))"

definition qpps_rx_ccc_cfg_changed :: "u16 \<Rightarrow> module \<Rightarrow> module" where
  "qpps_rx_ccc_cfg_changed value s = s\<lparr>qpps_rx_ccc := (value = 1)\<rparr>"

text \<open>A write of the peer: its bytes go to the UART. The result is the length or the error code \<open>BT_ATT_ERR_INVALID_OFFSET\<close>.\<close>

definition write_qpps_tx :: "bytes \<Rightarrow> u16 \<Rightarrow> module \<Rightarrow> int \<times> module" where
  "write_qpps_tx buf offset s =
     (if 23 < unat offset + length buf then (- 7, s) else (int (length buf), act_data_send_data buf s))"

definition qpps_send_input_report :: "host \<Rightarrow> bytes \<Rightarrow> module \<Rightarrow> s32 \<times> module" where
  "qpps_send_input_report h data s = (if \<not> qpps_rx_ccc s then (- EIO, s) else call h (Gatt_Notify data) s)"

definition module_write :: "host \<Rightarrow> bytes \<Rightarrow> module \<Rightarrow> (s32 \<times> module) res" where
  "module_write h data s =
     (if \<not> pconn s then Inr (- 1, s)
      else rbind (arr_get (module_handle s) QPPS_TX_HDL) (\<lambda>hdl. Inr (call h (Gatt_Write hdl data) s)))"

text \<open>\<open>ble_send_data\<close>: pieces of at most twenty bytes until all are sent or one fails.\<close>

function send_pieces :: "host \<Rightarrow> bytes \<Rightarrow> module \<Rightarrow> (s32 \<times> module) res" where
  "send_pieces h data s =
     (if data = [] then Inr (0, s)
      else rbind (if role s = BLE_ROLE_MASTER then module_write h (take 20 data) s else Inr (qpps_send_input_report h (take 20 data) s))
        (\<lambda>(err, s). if err \<noteq> 0 then Inr (err, s) else send_pieces h (drop 20 data) s))"
  by auto

termination
  by (relation "measure (\<lambda>(h, data, s). length data)") auto

declare send_pieces.simps [simp del]

definition ble_send_data :: "host \<Rightarrow> bytes \<Rightarrow> module \<Rightarrow> (s32 \<times> module) res" where
  "ble_send_data h data s = (if pconn s then send_pieces h data s else Inr (0, s))"

section \<open>Receiving packets\<close>

abbreviation (input) "ACT_DATA_MTU \<equiv> 20 :: nat"
abbreviation (input) "DATA_QUEUED \<equiv> 60 :: nat"

text \<open>
  A buffer is a number; \<open>recv_data\<close> holds the first \<open>recv_off\<close> bytes of the buffer \<open>recv_buf\<close>. \<open>timer_on\<close> says whether \<open>send_partial_timer\<close> is
  running. \<open>at_name_buf\<close> is the array \<open>ad_name\<close>.
\<close>

record act_data =
  act_avail :: "nat list"
  datas_queue :: "(nat \<times> bytes) list"
  recv_buf :: nat
  recv_data :: bytes
  timer_on :: bool
  send_partial_timer_started :: bool
  rx_abort :: bool
  at_disconn_match_cnt :: u8
  at_name_buf :: string
  at_name_getting :: bool
  at_name_get_r :: bool

definition recv_cb :: "act_data \<Rightarrow> act_data" where
  "recv_cb a =
     (let a = (if recv_data a \<noteq> [] \<and> \<not> send_partial_timer_started a
               then a\<lparr>send_partial_timer_started := True, timer_on := True\<rparr> else a) in
      if length (recv_data a) < ACT_DATA_MTU \<and> \<not> rx_abort a then a
      else let a = (if send_partial_timer_started a \<and> \<not> rx_abort a then a\<lparr>timer_on := False\<rparr> else a);
               a = a\<lparr>send_partial_timer_started := False, rx_abort := False\<rparr> in
        case act_avail a of
          [] \<Rightarrow> a\<lparr>recv_data := []\<rparr>
        | b # bs \<Rightarrow> a\<lparr>act_avail := bs, datas_queue := datas_queue a @ [(recv_buf a, recv_data a)], recv_buf := b, recv_data := []\<rparr>)"

text \<open>
  The interrupt reads until nothing is left. The driver decides how many of the bytes in the hardware queue one read returns, at most
  as many as asked for.
\<close>

definition act_data_rx :: "bytes \<Rightarrow> act_data \<Rightarrow> act_data" where
  "act_data_rx got a = recv_cb (a\<lparr>recv_data := recv_data a @ got\<rparr>)"

function act_data_rx_isr :: "(nat \<Rightarrow> bytes \<Rightarrow> nat) \<Rightarrow> bytes \<Rightarrow> act_data \<Rightarrow> bytes \<times> act_data" where
  "act_data_rx_isr uart_fifo_read fifo a =
     (let avail = ACT_DATA_MTU - length (recv_data a); got = min (uart_fifo_read avail fifo) (min avail (length fifo)) in
      if got = 0 then (fifo, a) else act_data_rx_isr uart_fifo_read (drop got fifo) (act_data_rx (take got fifo) a))"
  by auto

termination
  by (relation "measure (\<lambda>(rd, fifo, a). length fifo)") auto

declare act_data_rx_isr.simps [simp del]

definition send_partial_handler :: "act_data \<Rightarrow> act_data" where
  "send_partial_handler a = recv_cb (a\<lparr>timer_on := False, rx_abort := True\<rparr>)"

definition enter_into_data_mode :: "act_data \<times> module \<Rightarrow> act_data \<times> module" where
  "enter_into_data_mode = (\<lambda>(a, s). (a\<lparr>recv_data := []\<rparr>, emit Data_Mode s))"

definition act_data_init :: act_data where
  "act_data_init = \<lparr>act_avail = [1..<DATA_QUEUED], datas_queue = [], recv_buf = 0, recv_data = [], timer_on = False,
     send_partial_timer_started = False, rx_abort = False, at_disconn_match_cnt = 0, at_name_buf = replicate 31 (CHR 0x00),
     at_name_getting = False, at_name_get_r = False\<rparr>"

section \<open>Commands inside the data\<close>

text \<open>
  \<open>at_disconn_match\<close>: the position in the command is kept from packet to packet. The result is the number of bytes that are not forwarded.
\<close>

definition at_disconn_cmd :: bytes where
  "at_disconn_cmd = str_bytes (''AT+DISCONNECT'' @ CRLF)"

fun disconn_loop :: "bytes \<Rightarrow> nat \<Rightarrow> nat \<Rightarrow> act_data \<times> module \<Rightarrow> (nat \<times> act_data \<times> module) res" where
  "disconn_loop [] len index (a, s) = Inr (len, a, s)"
| "disconn_loop (d # ds) len index (a, s) = rbind (arr_get (at_disconn_cmd @ [0]) index) (\<lambda>c.
     if d = c
     then let a = a\<lparr>at_disconn_match_cnt := at_disconn_match_cnt a + 1\<rparr> in
       if unat (at_disconn_match_cnt a) = length at_disconn_cmd
       then Inr (len, a\<lparr>at_disconn_match_cnt := 0\<rparr>, send_async_msg MSG_DISCONNECT s)
       else disconn_loop ds len (index + 1) (a, s)
     else if length ''AT+DISCON'' \<le> unat (at_disconn_match_cnt a)
     then Inr (len, a\<lparr>at_disconn_match_cnt := 0\<rparr>, send_async_msg MSG_DISCONNECT s)
     else Inr (0, a\<lparr>at_disconn_match_cnt := 0\<rparr>, s))"

definition at_disconn_match :: "bytes \<Rightarrow> act_data \<times> module \<Rightarrow> (nat \<times> act_data \<times> module) res" where
  "at_disconn_match data x = disconn_loop data (length data) (unat (at_disconn_match_cnt (fst x))) x"

text \<open>\<open>at_ota_match\<close> increments \<open>match_len\<close>, which has no initial value.\<close>

definition at_ota_cmd :: bytes where
  "at_ota_cmd = str_bytes (''AT+OTA'' @ CRLF)"

fun ota_loop :: "bytes \<Rightarrow> nat \<Rightarrow> nat \<Rightarrow> u8 option \<Rightarrow> module \<Rightarrow> (nat \<times> module) res" where
  "ota_loop [] i len match_len s = Inr (0, s)"
| "ota_loop (d # ds) i len match_len s = rbind (arr_get (at_ota_cmd @ [0]) i) (\<lambda>c.
     if d = c
     then case match_len of None \<Rightarrow> Inl Uninit_Read
       | Some m \<Rightarrow> if unat (m + 1) = length at_ota_cmd then Inr (len, at_cmd_ota s) else ota_loop ds (i + 1) len (Some (m + 1)) s
     else Inr (0, s))"

definition at_ota_match :: "bytes \<Rightarrow> module \<Rightarrow> (nat \<times> module) res" where
  "at_ota_match data s = (if length data < 7 then Inr (0, s) else ota_loop data 0 (length data) None s)"

definition at_name_cmd :: bytes where
  "at_name_cmd = str_bytes ''AT+NAME''"

fun at_name_match :: "bytes \<Rightarrow> bytes \<Rightarrow> bool" where
  "at_name_match (d # ds) (c # cs) = (if d = c then cs = [] \<or> at_name_match ds cs else False)"
| "at_name_match _ _ = False"

definition at_name_set :: "string \<Rightarrow> module \<Rightarrow> module" where
  "at_name_set name s =
     (let name_len = length (c_str name); cp_len = min name_len (BLE_NAME_MAX_LEN - 1); s = s\<lparr>adv_name := name_array (c_str name)\<rparr> in
      emit (Nvram_Set ''BT_NAME'' (str_bytes (take cp_len (adv_name s)))) s)"

text \<open>
  \<open>at_name_get\<close> copies the bytes up to the end of the line to the first zero of \<open>ad_name\<close>, as far as they fit, and returns how many bytes it consumed.
\<close>

definition copy_name :: "bytes \<Rightarrow> nat \<Rightarrow> act_data \<Rightarrow> (nat \<times> act_data) res" where
  "copy_name data i a =
     (let name_len = length (c_str (at_name_buf a)); cp_len = min (31 - name_len - 1) i in
      rbind (mem_cpy (at_name_buf a) name_len (map byte_char data) cp_len) (\<lambda>buf.
      rbind (arr_set buf 30 (CHR 0x00)) (\<lambda>buf. Inr (cp_len, a\<lparr>at_name_buf := buf\<rparr>))))"

definition name_done :: "act_data \<times> module \<Rightarrow> act_data \<times> module" where
  "name_done = (\<lambda>(a, s). (a\<lparr>at_name_getting := False\<rparr>, at_name_set (at_name_buf a) s))"

definition line_end :: "bool \<Rightarrow> u8 \<Rightarrow> bool" where
  "line_end r d \<longleftrightarrow> d = 0x0A \<or> \<not> r \<and> d = 0x0D"

definition at_name_get :: "bytes \<Rightarrow> act_data \<times> module \<Rightarrow> (nat \<times> act_data \<times> module) res" where
  "at_name_get data = (\<lambda>(a, s).
     let i = length (takeWhile (\<lambda>d. \<not> line_end (at_name_get_r a) d) data) in
     if i = length data
     then if at_name_get_r a then Inr (0, name_done (a, s))
       else rbind (copy_name data i a) (\<lambda>(cp_len, a). Inr (i, if cp_len = 0 then name_done (a, s) else (a, s)))
     else rbind (copy_name data i a) (\<lambda>(_, a).
       if data ! i = 0x0D
       then let a = a\<lparr>at_name_get_r := True\<rparr> in
         if i < length data - 1 then Inr (if data ! (i + 1) = 0x0A then i + 2 else i + 1, name_done (a, s)) else Inr (i + 1, a, s)
       else Inr (i + 1, name_done (a, s))))"

section \<open>The data thread\<close>

definition data_start :: "bytes \<Rightarrow> act_data \<times> module \<Rightarrow> (nat \<times> act_data \<times> module) res" where
  "data_start data = (\<lambda>(a, s).
     if role s = BLE_ROLE_SLAVE
     then if \<not> at_name_getting a
       then if 7 \<le> length data \<and> at_name_match data at_name_cmd
         then rbind (at_name_get (drop 7 data) (a\<lparr>at_name_getting := True, at_name_get_r := False, at_name_buf := replicate 31 (CHR 0x00)\<rparr>, s))
           (\<lambda>(n, x). Inr (n + 7, x))
         else Inr (0, a, s)
       else at_name_get data (a, s)
     else rbind (at_ota_match data s) (\<lambda>(n, s). if n = 0 then at_disconn_match data (a, s) else Inr (n, a, s)))"

definition data_handler :: "host \<Rightarrow> act_data \<times> module \<Rightarrow> (act_data \<times> module) res" where
  "data_handler h = (\<lambda>(a, s). case datas_queue a of
     [] \<Rightarrow> Inr (a, s)
   | (b, data) # ds \<Rightarrow>
       rbind (if pconn s
              then rbind (data_start data (a\<lparr>datas_queue := ds\<rparr>, s)) (\<lambda>(n, a, s).
                if n < length data then rbind (ble_send_data h (drop n data) s) (\<lambda>(_, s). Inr (a, s)) else Inr (a, s))
              else Inr (a\<lparr>datas_queue := ds\<rparr>, s)) (\<lambda>(a, s).
       Inr (a\<lparr>act_avail := act_avail a @ [b]\<rparr>, s)))"

section \<open>Facts about packets\<close>

definition act_ok :: "act_data \<Rightarrow> bool" where
  "act_ok a \<longleftrightarrow> mset (act_avail a) + mset (map fst (datas_queue a)) + {#recv_buf a#} = mset [0..<DATA_QUEUED] \<and>
     length (recv_data a) < ACT_DATA_MTU \<and> (\<forall>e\<in>set (datas_queue a). length (snd e) \<le> ACT_DATA_MTU) \<and>
     \<not> rx_abort a \<and> timer_on a = send_partial_timer_started a \<and> (recv_data a \<noteq> [] \<longrightarrow> timer_on a) \<and>
     unat (at_disconn_match_cnt a) < length at_disconn_cmd \<and> length (at_name_buf a) = 31 \<and> at_name_buf a ! 30 = CHR 0x00"

lemma length_cmds [simp]: "length at_disconn_cmd = 15" "length at_ota_cmd = 8" "length at_name_cmd = 7"
  by (simp_all add: at_disconn_cmd_def at_ota_cmd_def at_name_cmd_def str_bytes_def)

lemma act_data_rx_ok:
  assumes "act_ok a" "length (recv_data a) + length got \<le> ACT_DATA_MTU"
  shows "act_ok (act_data_rx got a)"
  using assms by (auto simp: act_ok_def act_data_rx_def recv_cb_def add_mset_commute Let_def split: list.splits)

lemma send_partial_ok:
  assumes "act_ok a" "timer_on a"
  shows "act_ok (send_partial_handler a)"
  using assms by (auto simp: act_ok_def send_partial_handler_def recv_cb_def add_mset_commute Let_def split: list.splits)

lemma act_data_init_ok: "act_ok act_data_init"
  by (simp add: act_ok_def act_data_init_def upt_rec nth_Cons' )

lemma data_mode_ok: "act_ok a \<Longrightarrow> act_ok (fst (enter_into_data_mode (a, s)))"
  by (simp add: act_ok_def enter_into_data_mode_def)


text \<open>
  The bytes received and not yet handled, in order. A read adds its bytes at the end; the timer and the thread only move packets. When
  no buffer is free a full or timed-out packet is lost.
\<close>

definition stream :: "act_data \<Rightarrow> bytes" where
  "stream a = concat (map snd (datas_queue a)) @ recv_data a"

lemma stream_rx:
  assumes "act_ok a" "act_avail a \<noteq> []"
  shows "stream (act_data_rx got a) = stream a @ got"
  using assms by (auto simp: stream_def act_ok_def act_data_rx_def recv_cb_def Let_def split: list.splits)

lemma stream_partial:
  assumes "act_ok a" "timer_on a" "act_avail a \<noteq> []"
  shows "stream (send_partial_handler a) = stream a"
  using assms by (auto simp: stream_def act_ok_def send_partial_handler_def recv_cb_def Let_def split: list.splits)

lemma isr_empties:
  assumes "act_ok a" "\<And>n fs. 0 < n \<Longrightarrow> fs \<noteq> [] \<Longrightarrow> 0 < rd n fs"
  shows "fst (act_data_rx_isr rd fifo a) = [] \<and> act_ok (snd (act_data_rx_isr rd fifo a))"
  using assms(1)
proof (induction "length fifo" arbitrary: fifo a rule: less_induct)
  case less
  let ?av = "20 - length (recv_data a)"
  let ?got = "min (rd ?av fifo) (min ?av (length fifo))"
  show ?case
  proof (cases "fifo = []")
    case True
    then show ?thesis using less.prems by (subst (1 2) act_data_rx_isr.simps) simp
  next
    case False
    have av: "0 < ?av" using less.prems by (simp add: act_ok_def)
    then have g: "0 < ?got" using assms(2) [of ?av fifo] False by simp
    have "act_ok (act_data_rx (take ?got fifo) a)" using less.prems av by (intro act_data_rx_ok) auto
    then have "fst (act_data_rx_isr rd (drop ?got fifo) (act_data_rx (take ?got fifo) a)) = [] \<and>
        act_ok (snd (act_data_rx_isr rd (drop ?got fifo) (act_data_rx (take ?got fifo) a)))"
      using g False by (intro less.hyps) auto
    then show ?thesis using g by (subst (1 2) act_data_rx_isr.simps) (simp add: Let_def)
  qed
qed

section \<open>Facts about the data thread\<close>

text \<open>What the thread leaves alone.\<close>

definition same_rx :: "act_data \<Rightarrow> act_data \<Rightarrow> bool" where
  "same_rx a a' \<longleftrightarrow> act_avail a' = act_avail a \<and> datas_queue a' = datas_queue a \<and> recv_buf a' = recv_buf a \<and> recv_data a' = recv_data a \<and>
     timer_on a' = timer_on a \<and> send_partial_timer_started a' = send_partial_timer_started a \<and> rx_abort a' = rx_abort a"

definition cmd_ok :: "act_data \<Rightarrow> bool" where
  "cmd_ok a \<longleftrightarrow> unat (at_disconn_match_cnt a) < length at_disconn_cmd \<and> length (at_name_buf a) = 31 \<and> at_name_buf a ! 30 = CHR 0x00"

lemma c_str_bound: "length xs = 31 \<Longrightarrow> xs ! 30 = CHR 0x00 \<Longrightarrow> length (c_str xs) \<le> 30"
proof -
  assume l: "length xs = 31" "xs ! 30 = CHR 0x00"
  then have "\<exists>c\<in>set xs. \<not> c \<noteq> CHR 0x00" using nth_mem [of 30 xs] by auto
  then have "c_str xs \<noteq> xs" by (auto simp: c_str_def takeWhile_eq_all_conv)
  then have "length (c_str xs) \<noteq> length xs" unfolding c_str_def by (metis order_refl take_all takeWhile_eq_take)
  then show ?thesis using length_takeWhile_le [of "\<lambda>c. c \<noteq> CHR 0x00" xs] l(1) by (simp add: c_str_def)
qed

lemma copy_name_ok:
  assumes "cmd_ok a" "i \<le> length data"
  shows "\<exists>n a'. copy_name data i a = Inr (n, a') \<and> n \<le> i \<and> same_rx a a' \<and> cmd_ok a'"
proof -
  have "length (c_str (at_name_buf a)) \<le> 30" using assms(1) c_str_bound by (simp add: cmd_ok_def)
  then show ?thesis using assms by (auto simp: copy_name_def res_simps cmd_ok_def same_rx_def Let_def)
qed

lemma name_done_ok:
  assumes "cmd_ok a" "module_ok s"
  shows "same_rx a (fst (name_done (a, s)))" "cmd_ok (fst (name_done (a, s)))" "module_ok (snd (name_done (a, s)))"
    "pconn (snd (name_done (a, s))) = pconn s"
  using assms name_array_ok [of "c_str (at_name_buf a)"]
  by (simp_all add: name_done_def same_rx_def cmd_ok_def at_name_set_def module_ok_def scan_list_ok_def emit_def Let_def)


lemma same_rx_trans: "same_rx a b \<Longrightarrow> same_rx b c \<Longrightarrow> same_rx a c"
  by (simp add: same_rx_def)

lemma name_get_r_ok: "cmd_ok a \<Longrightarrow> cmd_ok (a\<lparr>at_name_get_r := b\<rparr>)" "same_rx a a' \<Longrightarrow> same_rx a (a'\<lparr>at_name_get_r := b\<rparr>)"
  by (simp_all add: cmd_ok_def same_rx_def)

definition kept :: "act_data \<times> module \<Rightarrow> act_data \<times> module \<Rightarrow> bool" where
  "kept x y \<longleftrightarrow> same_rx (fst x) (fst y) \<and> cmd_ok (fst y) \<and> module_ok (snd y) \<and> pconn (snd y) = pconn (snd x)"

lemma name_done_kept: "same_rx a b \<Longrightarrow> cmd_ok b \<Longrightarrow> module_ok s \<Longrightarrow> kept (a, s) (name_done (b, s))"
  using name_done_ok [of b s] same_rx_trans by (auto simp: kept_def)

lemma at_name_get_ok:
  assumes "cmd_ok a" "module_ok s"
  shows "\<exists>n y. at_name_get data (a, s) = Inr (n, y) \<and> n \<le> length data \<and> kept (a, s) y"
proof -
  let ?i = "length (takeWhile (\<lambda>d. \<not> line_end (at_name_get_r a) d) data)"
  have i: "?i \<le> length data" by (rule length_takeWhile_le)
  obtain n b where b: "copy_name data ?i a = Inr (n, b)" "n \<le> ?i" "same_rx a b" "cmd_ok b" using copy_name_ok [OF assms(1) i] by blast
  have k: "kept (a, s) (b, s)" "kept (a, s) (name_done (b, s))" "kept (a, s) (name_done (a, s))"
    "kept (a, s) (b\<lparr>at_name_get_r := True\<rparr>, s)" "kept (a, s) (name_done (b\<lparr>at_name_get_r := True\<rparr>, s))"
    using b assms name_done_kept [OF _ _ assms(2)] name_get_r_ok by (simp_all add: kept_def same_rx_def)
  show ?thesis
  proof (cases "?i = length data")
    case True
    then show ?thesis using b(1) k by (auto simp: at_name_get_def Let_def simp del: split_paired_Ex)
  next
    case False
    then have "?i < length data" using i by simp
    then show ?thesis using b(1) k by (auto simp: at_name_get_def Let_def simp del: split_paired_Ex)
  qed
qed

lemma disconn_loop_ok:
  assumes "cmd_ok a" "module_ok s" "index = unat (at_disconn_match_cnt a)"
  shows "\<exists>n y. disconn_loop data len index (a, s) = Inr (n, y) \<and> n \<le> len \<and> kept (a, s) y"
  using assms
proof (induction data arbitrary: a index)
  case Nil
  then show ?case by (simp add: kept_def same_rx_def)
next
  case (Cons d ds)
  let ?a = "a\<lparr>at_disconn_match_cnt := at_disconn_match_cnt a + 1\<rparr>"
  have c: "unat (at_disconn_match_cnt a) < 15" using Cons.prems(1) by (simp add: cmd_ok_def)
  then have u: "unat (at_disconn_match_cnt a + 1) = Suc index" using Cons.prems(3) by (simp add: unat_word_ariths)
  have z: "kept (a, s) (a\<lparr>at_disconn_match_cnt := 0\<rparr>, send_async_msg MSG_DISCONNECT s)" "kept (a, s) (a\<lparr>at_disconn_match_cnt := 0\<rparr>, s)"
    "kept (a, s) (?a\<lparr>at_disconn_match_cnt := 0\<rparr>, send_async_msg MSG_DISCONNECT s)"
    using Cons.prems(1,2) by (simp_all add: kept_def same_rx_def cmd_ok_def send_async_msg_def emit_def)
  have g: "index < length (at_disconn_cmd @ [0])" using c Cons.prems(3) by simp
  show ?case
  proof (cases "d = (at_disconn_cmd @ [0]) ! index \<and> Suc index \<noteq> 15")
    case True
    then have "cmd_ok ?a" using Cons.prems(1,3) c u by (simp add: cmd_ok_def)
    then obtain n y where "disconn_loop ds len (Suc index) (?a, s) = Inr (n, y)" "n \<le> len" "kept (?a, s) y"
      using Cons.IH [of ?a "Suc index"] u Cons.prems(2) by auto
    moreover have "kept (?a, s) y \<Longrightarrow> kept (a, s) y" by (simp add: kept_def same_rx_def)
    ultimately show ?thesis using True g u c Cons.prems(3) by (simp add: arr_get_ok)
  next
    case False
    then show ?thesis using g u z Cons.prems(3) by (auto simp: arr_get_ok Let_def)
  qed
qed

lemma ota_match_A: "at_ota_match data s =
  (if 7 \<le> length data \<and> hd data = 0x41 then Inl Uninit_Read else Inr (0, s))"
proof (cases data)
  case (Cons d ds)
  have "(at_ota_cmd @ [0]) ! 0 = 0x41" by (simp add: at_ota_cmd_def str_bytes_def)
  then show ?thesis using Cons by (auto simp: at_ota_match_def res_simps)
qed (simp add: at_ota_match_def)

lemma data_start_ok:
  assumes "cmd_ok a" "module_ok s"
  shows "data_start data (a, s) = Inl Uninit_Read \<and> role s \<and> 7 \<le> length data \<and> hd data = 0x41 \<or>
    \<not> (role s \<and> 7 \<le> length data \<and> hd data = 0x41) \<and> (\<exists>n y. data_start data (a, s) = Inr (n, y) \<and> n \<le> length data \<and> kept (a, s) y)"
proof (cases "role s")
  case True
  have "\<exists>n y. at_disconn_match data (a, s) = Inr (n, y) \<and> n \<le> length data \<and> kept (a, s) y"
    using disconn_loop_ok [OF assms refl] by (simp add: at_disconn_match_def)
  then show ?thesis using True by (auto simp: data_start_def ota_match_A simp del: split_paired_Ex)
next
  case False
  let ?a = "a\<lparr>at_name_getting := True, at_name_get_r := False, at_name_buf := replicate 31 (CHR 0x00)\<rparr>"
  have "cmd_ok ?a" using assms(1) by (simp add: cmd_ok_def)
  then obtain n y where n: "at_name_get (drop 7 data) (?a, s) = Inr (n, y)" "n \<le> length data - 7" "kept (?a, s) y"
    using at_name_get_ok [OF _ assms(2), of ?a "drop 7 data"] by auto
  have "kept (?a, s) y \<Longrightarrow> kept (a, s) y" by (simp add: kept_def same_rx_def)
  moreover have "kept (a, s) (a, s)" using assms by (simp add: kept_def same_rx_def)
  ultimately show ?thesis using False n at_name_get_ok [OF assms, of data]
    by (auto simp: data_start_def simp del: split_paired_Ex)
qed

lemma send_pieces_frame:
  assumes "module_ok s" "pconn s"
  shows "\<exists>err t. send_pieces h data s = Inr (err, t) \<and> module_ok t \<and> pconn t"
  using assms
proof (induction "length data" arbitrary: data s rule: less_induct)
  case less
  have h: "2 < length (module_handle s)" using less.prems(1) by (simp add: module_ok_def)
  let ?t = "emit (if role s then Gatt_Write (module_handle s ! 2) (take 20 data) else Gatt_Notify (take 20 data)) s"
  have "module_ok ?t" "pconn ?t" using less.prems by (simp_all add: emit_def)
  then have "data \<noteq> [] \<Longrightarrow> \<exists>err t. send_pieces h (drop 20 data) ?t = Inr (err, t) \<and> module_ok t \<and> pconn t"
    by (intro less.hyps) simp_all
  then show ?case using less.prems h \<open>module_ok ?t\<close>
    by (subst send_pieces.simps)
      (auto simp: module_write_def qpps_send_input_report_def arr_get_ok call_def emit_def split: if_splits)
qed

lemma act_ok_split: "act_ok a \<longleftrightarrow> mset (act_avail a) + mset (map fst (datas_queue a)) + {#recv_buf a#} = mset [0..<DATA_QUEUED] \<and>
     length (recv_data a) < ACT_DATA_MTU \<and> (\<forall>e\<in>set (datas_queue a). length (snd e) \<le> ACT_DATA_MTU) \<and>
     \<not> rx_abort a \<and> timer_on a = send_partial_timer_started a \<and> (recv_data a \<noteq> [] \<longrightarrow> timer_on a) \<and> cmd_ok a"
  by (auto simp: act_ok_def cmd_ok_def)

lemma recycle_ok:
  assumes "act_ok a" "datas_queue a = (b, data) # ds" "same_rx (a\<lparr>datas_queue := ds\<rparr>) a'" "cmd_ok a'"
  shows "act_ok (a'\<lparr>act_avail := act_avail a' @ [b]\<rparr>)"
  using assms by (auto simp: act_ok_split same_rx_def cmd_ok_def)

lemma data_handler_ok:
  assumes "act_ok a" "module_ok s" "\<And>b data ds. datas_queue a = (b, data) # ds \<Longrightarrow> pconn s \<Longrightarrow> \<not> (role s \<and> 7 \<le> length data \<and> hd data = 0x41)"
  shows "\<exists>a' s'. data_handler h (a, s) = Inr (a', s') \<and> act_ok a' \<and> module_ok s'"
proof (cases "datas_queue a")
  case (Cons e ds)
  obtain b data where e: "e = (b, data)" by (cases e)
  let ?a = "a\<lparr>datas_queue := ds\<rparr>"
  have c: "cmd_ok ?a" using assms(1) by (simp add: act_ok_split cmd_ok_def)
  show ?thesis
  proof (cases "pconn s")
    case True
    then obtain n a' s' where y: "data_start data (?a, s) = Inr (n, a', s')" "kept (?a, s) (a', s')"
      using data_start_ok [OF c assms(2), of data] assms(3) [of b data ds] Cons e by auto
    then have k: "same_rx ?a a'" "cmd_ok a'" "module_ok s'" "pconn s'" using True by (simp_all add: kept_def)
    obtain err t where t: "send_pieces h (drop n data) s' = Inr (err, t)" "module_ok t" using send_pieces_frame [OF k(3,4)] by blast
    show ?thesis using Cons e True y(1) k t recycle_ok [OF assms(1) Cons [unfolded e] k(1,2)]
      by (auto simp: data_handler_def ble_send_data_def)
  next
    case False
    have "same_rx ?a ?a" by (simp add: same_rx_def)
    then show ?thesis using Cons e False assms(2) recycle_ok [OF assms(1) Cons [unfolded e] _ c] by (simp add: data_handler_def)
  qed
qed (use assms in \<open>simp add: data_handler_def\<close>)

section \<open>The transparent link\<close>

text \<open>
  What a user of data mode relies on is a pipe: bytes are accepted at one end and delivered in order at the other.
\<close>

inductive pipe_step :: "bytes \<times> bytes \<Rightarrow> bytes \<Rightarrow> bytes \<times> bytes \<Rightarrow> bool" where
  accept: "pipe_step (q, d) bs (q @ bs, d)"
| deliver: "pipe_step (p @ q, d) [] (q, d @ p)"

lemma pipe_run: "lrun pipe_step x ls y \<Longrightarrow> snd y @ fst y = snd x @ fst x @ concat ls"
  by (induction rule: lrun.induct) (auto elim!: pipe_step.cases)

text \<open>The module's side: reads of the interrupt and the timer while a buffer is free, and the thread on a packet that holds no command.\<close>

definition plain_packet :: "module \<Rightarrow> bytes \<Rightarrow> bool" where
  "plain_packet s data \<longleftrightarrow> (if role s then data = [] \<or> hd data \<noteq> 0x41 else \<not> prefix at_name_cmd data)"

inductive relay_step :: "host \<Rightarrow> act_data \<times> module \<Rightarrow> bytes \<Rightarrow> act_data \<times> module \<Rightarrow> bool" for h where
  read: "length (recv_data a) + length got \<le> ACT_DATA_MTU \<Longrightarrow> act_avail a \<noteq> [] \<Longrightarrow> relay_step h (a, s) got (act_data_rx got a, s)"
| partial: "timer_on a \<Longrightarrow> act_avail a \<noteq> [] \<Longrightarrow> relay_step h (a, s) [] (send_partial_handler a, s)"
| forward: "datas_queue a = e # ds \<Longrightarrow> plain_packet s (snd e) \<Longrightarrow> data_handler h (a, s) = Inr y \<Longrightarrow> relay_step h (a, s) [] y"

definition payload :: "module_event \<Rightarrow> bytes" where
  "payload e = (case e of Gatt_Write _ d \<Rightarrow> d | Gatt_Notify d \<Rightarrow> d | _ \<Rightarrow> [])"

definition delivered :: "module \<Rightarrow> bytes" where
  "delivered s = concat (map payload (outs s))"

definition link_up :: "act_data \<times> module \<Rightarrow> bool" where
  "link_up x \<longleftrightarrow> act_ok (fst x) \<and> module_ok (snd x) \<and> pconn (snd x) \<and> \<not> at_name_getting (fst x) \<and> at_disconn_match_cnt (fst x) = 0 \<and>
     (role (snd x) \<or> qpps_rx_ccc (snd x))"

definition gatt_works :: "host \<Rightarrow> bool" where
  "gatt_works h \<longleftrightarrow> (\<forall>es hdl d. h_result h es (Gatt_Write hdl d) = 0 \<and> h_result h es (Gatt_Notify d) = 0)"

lemma send_pieces_delivers:
  assumes "gatt_works h" "module_ok s" "pconn s" "role s \<or> qpps_rx_ccc s"
  shows "\<exists>es. send_pieces h data s = Inr (0, s\<lparr>outs := outs s @ es\<rparr>) \<and> concat (map payload es) = data \<and>
    (\<forall>e\<in>set es. length (payload e) \<le> 20)"
  using assms(2-4)
proof (induction "length data" arbitrary: data s rule: less_induct)
  case less
  let ?e = "if role s then Gatt_Write (module_handle s ! 2) (take 20 data) else Gatt_Notify (take 20 data)"
  let ?t = "s\<lparr>outs := outs s @ [?e]\<rparr>"
  have step: "send_pieces h data s = (if data = [] then Inr (0, s) else send_pieces h (drop 20 data) ?t)"
    using less.prems assms(1)
    by (subst send_pieces.simps) (auto simp: module_write_def qpps_send_input_report_def res_simps call_def emit_def gatt_works_def module_ok_def)
  show ?case
  proof (cases "data = []")
    case False
    then obtain es where es: "send_pieces h (drop 20 data) ?t = Inr (0, ?t\<lparr>outs := outs ?t @ es\<rparr>)" "concat (map payload es) = drop 20 data"
      "\<forall>e\<in>set es. length (payload e) \<le> 20"
      using less.hyps [of "drop 20 data" ?t] less.prems by auto
    show ?thesis
    proof (intro exI conjI)
      show "send_pieces h data s = Inr (0, s\<lparr>outs := outs s @ (?e # es)\<rparr>)" using step False es(1) by simp
      show "concat (map payload (?e # es)) = data" using es(2) by (simp add: payload_def)
      show "\<forall>e\<in>set (?e # es). length (payload e) \<le> 20" using es(3) by (simp add: payload_def)
    qed
  qed (use step in \<open>auto intro: exI [of _ "[]"]\<close>)
qed

lemma name_match_prefix: "at_name_match data cs \<longleftrightarrow> cs \<noteq> [] \<and> prefix cs data"
  by (induction data cs rule: at_name_match.induct) auto

lemma data_start_plain:
  assumes "plain_packet s data" "\<not> at_name_getting a" "at_disconn_match_cnt a = 0"
  shows "data_start data (a, s) = Inr (0, a, s)"
proof (cases "role s")
  case True
  have "(at_disconn_cmd @ [0]) ! 0 = 0x41" by (simp add: at_disconn_cmd_def str_bytes_def)
  moreover have "a\<lparr>at_disconn_match_cnt := 0\<rparr> = a" using assms(3) by simp
  ultimately show ?thesis using True assms
    by (cases data) (auto simp: data_start_def plain_packet_def ota_match_A at_disconn_match_def res_simps)
next
  case False
  then show ?thesis using assms by (auto simp: data_start_def plain_packet_def name_match_prefix)
qed

lemma forward_plain:
  assumes "gatt_works h" "link_up (a, s)" "datas_queue a = (b, data) # ds" "plain_packet s data"
  shows "\<exists>es. data_handler h (a, s) = Inr (a\<lparr>datas_queue := ds, act_avail := act_avail a @ [b]\<rparr>, s\<lparr>outs := outs s @ es\<rparr>) \<and>
    concat (map payload es) = data"
proof -
  have "data_start data (a\<lparr>datas_queue := ds\<rparr>, s) = Inr (0, a\<lparr>datas_queue := ds\<rparr>, s)"
    using assms(2,4) by (intro data_start_plain) (simp_all add: link_up_def)
  moreover obtain es where "send_pieces h data s = Inr (0, s\<lparr>outs := outs s @ es\<rparr>)" "concat (map payload es) = data"
    using send_pieces_delivers [OF assms(1), of s data] assms(2) by (auto simp: link_up_def)
  ultimately show ?thesis using assms(2,3)
    by (cases "data = []") (auto simp: data_handler_def ble_send_data_def link_up_def intro: exI [of _ "[]"])
qed

lemma recycle_link:
  assumes "act_ok a" "datas_queue a = (b, data) # ds"
  shows "act_ok (a\<lparr>datas_queue := ds, act_avail := act_avail a @ [b]\<rparr>)"
  using assms recycle_ok [OF assms, of "a\<lparr>datas_queue := ds\<rparr>"] by (simp add: same_rx_def act_ok_split cmd_ok_def)

definition link_abs :: "act_data \<times> module \<Rightarrow> bytes \<times> bytes" where
  "link_abs x = (stream (fst x), delivered (snd x))"

lemma rx_fields:
  "at_name_getting (act_data_rx got a) = at_name_getting a" "at_disconn_match_cnt (act_data_rx got a) = at_disconn_match_cnt a"
  "at_name_getting (send_partial_handler a) = at_name_getting a" "at_disconn_match_cnt (send_partial_handler a) = at_disconn_match_cnt a"
  by (auto simp: act_data_rx_def send_partial_handler_def recv_cb_def Let_def split: list.splits)

lemma relay_link_up:
  assumes "gatt_works h" "relay_step h x l y" "link_up x"
  shows "link_up y \<and> pipe_step (link_abs x) l (link_abs y)"
  using assms(2)
proof cases
  case (read a s)
  then show ?thesis using assms(3) act_data_rx_ok [of a l] stream_rx [of a l] accept [of "stream a" _ l]
    by (simp add: link_up_def link_abs_def rx_fields)
next
  case (partial a s)
  then show ?thesis using assms(3) send_partial_ok [of a] stream_partial [of a] accept [of "stream a" _ "[]"]
    by (simp add: link_up_def link_abs_def rx_fields)
next
  case (forward a e ds s)
  obtain b data where e: "e = (b, data)" by (cases e)
  obtain es where es: "y = (a\<lparr>datas_queue := ds, act_avail := act_avail a @ [b]\<rparr>, s\<lparr>outs := outs s @ es\<rparr>)" "concat (map payload es) = data"
    using forward_plain [OF assms(1) assms(3) [unfolded forward] forward(3) [unfolded e]] forward(4,5) e by auto
  have "stream a = data @ stream (a\<lparr>datas_queue := ds, act_avail := act_avail a @ [b]\<rparr>)" using forward(3) e by (simp add: stream_def)
  then have "pipe_step (link_abs x) [] (link_abs y)"
    using deliver [of data "stream (fst y)" "delivered s"] forward(1) es by (simp add: link_abs_def delivered_def)
  then show ?thesis using recycle_link [of a b data ds] forward(1-3) e es assms(3) by (simp add: link_up_def)
qed

interpretation link: simulation "relay_step h" "\<lambda>x. gatt_works h \<and> link_up x" pipe_step link_abs
  by unfold_locales (use relay_link_up in blast)+


definition slave_link :: module where
  "slave_link = idle_module\<lparr>role := False, pconn := True, work_state := 1, qpps_rx_ccc := True\<rparr>"

lemma slave_link_ok: "gatt_works quiet_host" "link_up (act_data_init, slave_link)"
  using act_data_init_ok idle_module_ok
  by (simp_all add: gatt_works_def quiet_host_def link_up_def slave_link_def act_data_init_def idle_module_def module_ok_def scan_list_ok_def)


section \<open>Commands inside the data\<close>

text \<open>
  The data thread of a connected module runs into undefined behaviour exactly when the module is a master and the packet has at least
  seven bytes and starts with the letter A: \<open>at_ota_match\<close> then increments a variable without a value. Otherwise it handles the packet,
  whatever its bytes are, and keeps the invariants.
\<close>

theorem data_thread_undefined:
  assumes "act_ok a" "module_ok s" "pconn s" "datas_queue a = (b, data) # ds"
  shows "if role s \<and> 7 \<le> length data \<and> hd data = 0x41 then data_handler h (a, s) = Inl Uninit_Read
    else \<exists>a' s'. data_handler h (a, s) = Inr (a', s') \<and> act_ok a' \<and> module_ok s' \<and> act_avail a' = act_avail a @ [b]"
proof (cases "role s \<and> 7 \<le> length data \<and> hd data = 0x41")
  case True
  then show ?thesis using assms(3,4) by (simp add: data_handler_def data_start_def ota_match_A)
next
  case False
  then obtain a' s' where 1: "data_handler h (a, s) = Inr (a', s')" "act_ok a'" "module_ok s'"
    using data_handler_ok [OF assms(1,2), of h] assms(4) by auto
  have c: "cmd_ok (a\<lparr>datas_queue := ds\<rparr>)" using assms(1) by (simp add: act_ok_split cmd_ok_def)
  obtain n y where "data_start data (a\<lparr>datas_queue := ds\<rparr>, s) = Inr (n, y)" "kept (a\<lparr>datas_queue := ds\<rparr>, s) y"
    using data_start_ok [OF c assms(2), of data] False by blast
  then have "act_avail a' = act_avail a @ [b]"
    using 1(1) assms(3,4) by (cases y) (auto simp: data_handler_def kept_def same_rx_def rbind_eq_Inr split: if_splits)
  then show ?thesis using 1 False by simp
qed

definition master_link :: module where
  "master_link = slave_link\<lparr>role := True\<rparr>"

lemma master_link_ok: "link_up (act_data_init, master_link)" "module_ok master_link"
  using slave_link_ok(2) by (simp_all add: link_up_def master_link_def)

definition queued :: "bytes list \<Rightarrow> act_data" where
  "queued ps = act_data_init\<lparr>datas_queue := zip [1..<60] ps, act_avail := drop (length ps) [1..<60]\<rparr>"

lemma queued_ok:
  assumes "length ps \<le> 59" "\<forall>p\<in>set ps. length p \<le> 20"
  shows "act_ok (queued ps)"
proof -
  have "map fst (zip [1..<60] ps) = take (length ps) [1..<60]" using assms(1) by (simp add: map_fst_zip_take)
  then have "mset (map fst (zip [1..<60] ps)) + mset (drop (length ps) [1..<60]) = mset [1..<60]"
    by (metis append_take_drop_id mset_append)
  moreover have "mset [0..<60] = add_mset 0 (mset [1..<60])" by (simp add: upt_conv_Cons)
  moreover have "\<forall>e\<in>set (zip [1..<60] ps). length (snd e) \<le> 20" using assms(2) by (auto dest: set_zip_rightD)
  ultimately show ?thesis using act_data_init_ok by (simp add: queued_def act_ok_def act_data_init_def add.commute)
qed

theorem data_thread_undefined_witness:
  "data_handler quiet_host (queued [str_bytes ''A quick brown fox''], master_link) = Inl Uninit_Read"
proof -
  have "act_ok (queued [str_bytes ''A quick brown fox''])" by (intro queued_ok) (simp_all add: str_bytes_def)
  from data_thread_undefined [OF this master_link_ok(2), of 1 "str_bytes ''A quick brown fox''" "[]" quiet_host] show ?thesis
    by (simp add: master_link_def slave_link_def queued_def str_bytes_def upt_rec)
qed


lemma disconn_prefix:
  assumes "unat (at_disconn_match_cnt a) = k" "k + length p < 15" "p = take (length p) (drop k at_disconn_cmd)"
  shows "disconn_loop p len k (a, s) = Inr (len, a\<lparr>at_disconn_match_cnt := at_disconn_match_cnt a + of_nat (length p)\<rparr>, s)"
  using assms
proof (induction p arbitrary: a k)
  case (Cons d p)
  let ?a = "a\<lparr>at_disconn_match_cnt := at_disconn_match_cnt a + 1\<rparr>"
  have k: "k < 15" using Cons.prems(2) by simp
  then have dr: "drop k at_disconn_cmd = at_disconn_cmd ! k # drop (Suc k) at_disconn_cmd" by (simp add: Cons_nth_drop_Suc)
  then have d: "d = at_disconn_cmd ! k" "p = take (length p) (drop (Suc k) at_disconn_cmd)" using Cons.prems(3) by simp_all
  have u: "unat (at_disconn_match_cnt a + 1) = Suc k" using Cons.prems(1) k by (simp add: unat_word_ariths)
  have "disconn_loop p len (Suc k) (?a, s) = Inr (len, ?a\<lparr>at_disconn_match_cnt := at_disconn_match_cnt ?a + of_nat (length p)\<rparr>, s)"
    using Cons.prems(2) d(2) u by (intro Cons.IH) simp_all
  then show ?case using k u d(1) Cons.prems(2) by (simp add: arr_get_def nth_append algebra_simps)
qed simp

text \<open>
  A master loses data that looks like the beginning of \<open>AT+DISCONNECT\<close>: a packet that is a beginning of the command, shorter than seven
  bytes, is held back as a possible command, and when the next packet does not continue it only the next packet is sent.
\<close>

theorem data_prefix_lost:
  assumes "gatt_works h" "link_up (a, s)" "role s" "datas_queue a = (b, p) # (c, q) # ds"
    "p \<noteq> []" "length p < 7" "prefix p at_disconn_cmd" "q \<noteq> []" "hd q \<noteq> at_disconn_cmd ! length p" "hd q \<noteq> 0x41"
  shows "\<exists>x y. data_handler h (a, s) = Inr x \<and> data_handler h x = Inr y \<and> link_up y \<and>
    delivered (snd x) = delivered s \<and> delivered (snd y) = delivered s @ q"
proof -
  let ?n = "of_nat (length p) :: u8"
  let ?a1 = "a\<lparr>datas_queue := (c, q) # ds, at_disconn_match_cnt := ?n\<rparr>"
  let ?x = "?a1\<lparr>act_avail := act_avail a @ [b]\<rparr>"
  have up: "act_ok a" "module_ok s" "pconn s" "\<not> at_name_getting a" "at_disconn_match_cnt a = 0" using assms(2) by (simp_all add: link_up_def)
  have n: "unat ?n = length p" using assms(6) by (simp add: unat_of_nat take_bit_nat_eq_self)
  have take: "p = take (length p) (drop 0 at_disconn_cmd)" using assms(7) by (metis append_eq_conv_conj drop0 prefix_def)
  have 1: "data_handler h (a, s) = Inr (?x, s)"
    using disconn_prefix [OF _ _ take, of "a\<lparr>datas_queue := (c, q) # ds\<rparr>" "length p" s] up assms(3-6)
    by (simp add: data_handler_def data_start_def ota_match_A at_disconn_match_def)
  have ok: "act_ok ?x"
    using recycle_ok [OF up(1) assms(4), of ?a1] up(1) n assms(6) by (simp add: same_rx_def act_ok_split cmd_ok_def)
  let ?y = "?x\<lparr>datas_queue := ds, at_disconn_match_cnt := 0, act_avail := act_avail ?x @ [c]\<rparr>"
  obtain es where es: "send_pieces h q s = Inr (0, s\<lparr>outs := outs s @ es\<rparr>)" "concat (map payload es) = q"
    using send_pieces_delivers [OF assms(1) up(2,3), of q] assms(3) by blast
  have st: "data_start q (?x\<lparr>datas_queue := ds\<rparr>, s) = Inr (0, ?x\<lparr>datas_queue := ds, at_disconn_match_cnt := 0\<rparr>, s)"
    using assms(3,6,8-10) n
    by (cases q) (auto simp: data_start_def ota_match_A at_disconn_match_def arr_get_def nth_append)
  have 2: "data_handler h (?x, s) = Inr (?y, s\<lparr>outs := outs s @ es\<rparr>)"
    using st up(3) assms(8) es(1) by (simp add: data_handler_def ble_send_data_def)
  have "act_ok ?y" using recycle_ok [OF ok, of c q ds "?x\<lparr>datas_queue := ds, at_disconn_match_cnt := 0\<rparr>"] ok
    by (simp add: same_rx_def act_ok_split cmd_ok_def)
  then have "link_up (?y, s\<lparr>outs := outs s @ es\<rparr>)" using up assms(3) by (simp add: link_up_def)
  then show ?thesis using 1 2 es(2) by (auto simp: delivered_def)
qed

theorem data_prefix_lost_witness:
  "\<exists>x y. data_handler quiet_host (queued [[0x41], [0x42, 0x43]], master_link) = Inr x \<and> data_handler quiet_host x = Inr y \<and> link_up y \<and>
    delivered (snd x) = [] \<and> delivered (snd y) = [0x42, 0x43]"
proof -
  let ?a = "queued [[0x41], [0x42, 0x43]]"
  have "act_ok ?a" by (intro queued_ok) simp_all
  then have up: "link_up (?a, master_link)" using master_link_ok by (simp add: link_up_def queued_def act_data_init_def)
  have q: "datas_queue ?a = [(1, [0x41]), (2, [0x42, 0x43])]" by (simp add: queued_def upt_rec)
  have d: "delivered master_link = []" by (simp add: delivered_def master_link_def slave_link_def idle_module_def)
  have r: "role master_link" by (simp add: master_link_def)
  show ?thesis
    using data_prefix_lost [OF slave_link_ok(1) up _ q] r unfolding d by (simp add: at_disconn_cmd_def str_bytes_def)
qed

lemma byte_char_of_char [simp]: "byte_char (of_char c) = c"
proof -
  have "unat (of_char c :: u8) = unat (of_nat (of_char c) :: u8)" by (simp only: of_nat_of_char)
  also have "\<dots> = of_char c mod 256" by (simp add: unat_of_nat take_bit_eq_mod)
  also have "\<dots> = of_char c" using of_char_of [of "of_char c :: nat"] by simp
  finally show ?thesis by (simp add: byte_char_def)
qed

lemma c_str_pad: "CHR 0x00 \<notin> set name \<Longrightarrow> c_str (name @ replicate (Suc k) (CHR 0x00)) = name"
  unfolding c_str_def by (induction name) auto

lemma copy_name_fresh:
  assumes "at_name_buf a = replicate 31 (CHR 0x00)" "length name \<le> 29"
  shows "copy_name (str_bytes name @ rest) (length name) a =
    Inr (length name, a\<lparr>at_name_buf := name @ replicate (31 - length name) (CHR 0x00)\<rparr>)"
proof -
  have c: "c_str (replicate 31 (CHR 0x00)) = []" by (simp add: c_str_def numeral_eq_Suc)
  have l: "length (str_bytes name) = length name" by (simp add: str_bytes_def)
  have m: "map byte_char (str_bytes name) = name" by (simp add: str_bytes_def comp_def)
  have "(name @ replicate (31 - length name) (CHR 0x00))[30 := CHR 0x00] = name @ replicate (31 - length name) (CHR 0x00)"
    using assms(2) by (auto simp: list_update_append list_update_same_conv)
  then show ?thesis using assms l m by (simp add: copy_name_def c res_simps Let_def)
qed

lemma find_end:
  assumes "\<forall>c\<in>set name. c \<noteq> CHR 0x0A \<and> c \<noteq> CHR 0x0D"
  shows "takeWhile (\<lambda>d. \<not> line_end False d) (str_bytes name @ [0x0D, 0x0A] @ rest) = str_bytes name"
proof -
  have "\<not> line_end False (of_char c :: u8)" if "c \<in> set name" for c
  proof
    assume "line_end False (of_char c :: u8)"
    then have "byte_char (of_char c) = byte_char 0x0A \<or> byte_char (of_char c) = byte_char 0x0D" unfolding line_end_def by metis
    moreover have "byte_char 0x0A = CHR 0x0A" "byte_char 0x0D = CHR 0x0D" by code_simp+
    ultimately show False using assms that by auto
  qed
  then have "\<forall>d\<in>set (str_bytes name). \<not> line_end False d" by (auto simp: str_bytes_def)
  then show ?thesis using takeWhile_append2 [of "str_bytes name" "\<lambda>d. \<not> line_end False d"] by (simp add: line_end_def)
qed

text \<open>
  A connected slave that receives \<open>AT+NAME\<close>, a name and the end of the line in one packet takes the name over and stores it in the
  non-volatile memory, and forwards the rest of the packet and nothing else. The length in the advertising data is not updated: the data
  keeps the length of the name set before.
\<close>

theorem data_name_command:
  assumes "gatt_works h" "link_up (a, s)" "\<not> role s" "datas_queue a = (b, at_name_cmd @ str_bytes name @ [0x0D, 0x0A] @ rest) # ds"
    "\<forall>c\<in>set name. c \<noteq> CHR 0x00 \<and> c \<noteq> CHR 0x0A \<and> c \<noteq> CHR 0x0D"
  shows "\<exists>a' es. data_handler h (a, s) = Inr (a', s\<lparr>adv_name := name_array name,
      outs := outs s @ Nvram_Set ''BT_NAME'' (str_bytes (take 17 name)) # es\<rparr>) \<and> link_up (a', s\<lparr>adv_name := name_array name,
      outs := outs s @ Nvram_Set ''BT_NAME'' (str_bytes (take 17 name)) # es\<rparr>) \<and> concat (map payload es) = rest"
proof -
  let ?d = "at_name_cmd @ str_bytes name @ [0x0D, 0x0A] @ rest"
  let ?a = "a\<lparr>datas_queue := ds, at_name_getting := True, at_name_get_r := False, at_name_buf := replicate 31 (CHR 0x00)\<rparr>"
  let ?b = "?a\<lparr>at_name_buf := name @ replicate (31 - length name) (CHR 0x00), at_name_get_r := True, at_name_getting := False\<rparr>"
  let ?s = "s\<lparr>adv_name := name_array name, outs := outs s @ [Nvram_Set ''BT_NAME'' (str_bytes (take 17 name))]\<rparr>"
  have up: "act_ok a" "module_ok s" "pconn s" "\<not> at_name_getting a" "at_disconn_match_cnt a = 0" "qpps_rx_ccc s" using assms(2,3) by (simp_all add: link_up_def)
  have "length ?d \<le> 20" using up(1) assms(4) by (simp add: act_ok_def)
  then have len: "length name \<le> 11" by (simp add: str_bytes_def)
  have cs: "c_str (name @ replicate (31 - length name) (CHR 0x00)) = name"
    using c_str_pad [of name "30 - length name"] assms(5) len Suc_diff_le [of "length name" 30] by force
  have nd: "name_done (?a\<lparr>at_name_buf := name @ replicate (31 - length name) (CHR 0x00), at_name_get_r := True\<rparr>, s) = (?b, ?s)"
    using len by (simp add: name_done_def at_name_set_def cs emit_def Let_def name_array_def)
  have get: "at_name_get (str_bytes name @ [0x0D, 0x0A] @ rest) (?a, s) = Inr (length name + 2, ?b, ?s)"
    using copy_name_fresh [of ?a name "[0x0D, 0x0A] @ rest"] find_end [of name rest] assms(5) len nd
    by (simp add: at_name_get_def nth_append Let_def str_bytes_def)
  have "at_name_match ?d at_name_cmd" by (auto simp: name_match_prefix at_name_cmd_def str_bytes_def)
  moreover have "drop 7 ?d = str_bytes name @ [0x0D, 0x0A] @ rest" by simp
  ultimately have st: "data_start ?d (a\<lparr>datas_queue := ds\<rparr>, s) = Inr (length name + 9, ?b, ?s)"
    using assms(3) up(4) get by (simp add: data_start_def)
  have mok: "module_ok ?s" using up(2) name_array_ok [of name] by (simp add: module_ok_def scan_list_ok_def)
  obtain es where es: "send_pieces h rest ?s = Inr (0, ?s\<lparr>outs := outs ?s @ es\<rparr>)" "concat (map payload es) = rest"
    using send_pieces_delivers [OF assms(1) mok, of rest] up(3,6) by auto
  have dr: "drop (length name + 9) ?d = rest" by (simp add: str_bytes_def)
  let ?t = "if rest = [] then ?s else ?s\<lparr>outs := outs ?s @ es\<rparr>"
  have h: "data_handler h (a, s) = Inr (?b\<lparr>act_avail := act_avail a @ [b]\<rparr>, ?t)"
    using st es(1) dr up(3) assms(4) by (cases rest) (simp_all add: data_handler_def ble_send_data_def str_bytes_def)
  have aok: "act_ok (?b\<lparr>act_avail := act_avail a @ [b]\<rparr>)"
    using recycle_ok [OF up(1) assms(4), of ?b] up(1) len by (simp add: same_rx_def act_ok_split cmd_ok_def nth_append)
  show ?thesis
    using h es(2) aok mok up(3,5,6) by (cases "rest = []") (auto simp: link_up_def intro: exI [of _ "[]"] exI [of _ es])
qed


theorem data_name_command_witness:
  "\<exists>a' es. data_handler quiet_host (queued [at_name_cmd @ str_bytes ''ZRS7'' @ [0x0D, 0x0A] @ [9]], slave_link) = Inr (a', slave_link\<lparr>adv_name := name_array ''ZRS7'',
      outs := Nvram_Set ''BT_NAME'' (str_bytes ''ZRS7'') # es\<rparr>) \<and> concat (map payload es) = [9]"
proof -
  let ?a = "queued [at_name_cmd @ str_bytes ''ZRS7'' @ [0x0D, 0x0A] @ [9]]"
  have "act_ok ?a" by (intro queued_ok) (simp_all add: str_bytes_def)
  then have up: "link_up (?a, slave_link)" using slave_link_ok(2) by (simp add: link_up_def queued_def act_data_init_def)
  have q: "datas_queue ?a = [(1, at_name_cmd @ str_bytes ''ZRS7'' @ [0x0D, 0x0A] @ [9])]" by (simp add: queued_def upt_rec)
  have o: "outs slave_link = []" "\<not> role slave_link" by (simp_all add: slave_link_def idle_module_def)
  show ?thesis using data_name_command [OF slave_link_ok(1) up o(2) q] o(1) by simp blast
qed

end
