(* ===== verification/Module_Main.thy ===== *)
theory Module_Main
  imports Act_Data
begin

text \<open>
  The serial module as a whole: the callbacks and the configuration of \<^verbatim>\<open>app_ble.c\<close>, the input pins of
  \<^verbatim>\<open>app_input.c\<close> and the message loop of \<^verbatim>\<open>main.c\<close>, composed with the command and data threads into one system.
\<close>

section \<open>Scanning\<close>

definition int_str :: "int \<Rightarrow> string" where
  "int_str n = (if n < 0 then CHR ''-'' # nat_str (nat (- n)) else nat_str (nat n))"

text \<open>A character array as a string: without a zero the reader leaves it.\<close>

definition c_string :: "string \<Rightarrow> string res" where
  "c_string mem = (if CHR 0x00 \<in> set mem then Inr (c_str mem) else Inl Out_Of_Bounds)"

abbreviation (input) "BT_LE_ADV_IND \<equiv> 0x00 :: u8"
abbreviation (input) "BT_LE_ADV_SCAN_RSP \<equiv> 0x04 :: u8"

definition inq_line :: "module \<Rightarrow> bt_addr_le \<Rightarrow> string \<Rightarrow> s8 \<Rightarrow> string" where
  "inq_line s addr name r =
     take 49 (''+INQ:'' @ nat_str (unat (dev_cnt s)) @ '' 0x'' @ at_addr_le_to_str addr @ '' '' @ c_str name @ '' '' @ int_str (sint r) @ CRLF)"

definition name_buffer :: "string \<Rightarrow> string" where
  "name_buffer n = n @ replicate (BLE_NAME_MAX_LEN - length n) (CHR 0x00)"

definition device_found :: "host \<Rightarrow> bt_addr_le \<Rightarrow> s8 \<Rightarrow> u8 \<Rightarrow> bytes \<Rightarrow> module \<Rightarrow> module res" where
  "device_found h addr r evtype ad s =
     (if addr_type addr \<noteq> BT_ADDR_LE_PUBLIC \<or> evtype \<noteq> BT_LE_ADV_IND \<and> evtype \<noteq> BT_LE_ADV_SCAN_RSP then Inr s
      else rbind (ad_parse ad) (\<lambda>parsed. case parsed of
        None \<Rightarrow> Inr s
      | Some n \<Rightarrow> let name = name_buffer n in
          rbind (add_scan_dev_list addr r name (of_nat (length (c_str name))) s) (\<lambda>(get_name, s).
          let s = (if get_name then at_cmd_response (inq_line s addr name r) s else s) in
          if auto_conn s
          then if unat (dev_cnt s) = DEV_TOTAL
            then rbind (get_max_riss_dev_index s) (\<lambda>(index, s). case index of
                   Some i \<Rightarrow> rbind (c_string [char_of (48 + i)]) (\<lambda>index_str. at_cmd_conn_set h index_str s)
                 | None \<Rightarrow> Inr s)
            else Inr s
          else Inr (if unat (dev_cnt s) = DEV_TOTAL then emit (Scan_Timer 10) s else s))))"

section \<open>Connections\<close>

abbreviation (input) "LED_STATE_IND_PIN \<equiv> 6 :: nat"
abbreviation (input) "CONN_STATE_IND_PIN \<equiv> 7 :: nat"
abbreviation (input) "CONN_INT_PIN \<equiv> 8 :: nat"
abbreviation (input) "POWM_MODE_PIN \<equiv> 18 :: nat"

text \<open>
  The state of the program: the command receiver, the data path, the parameters, and which of the two interrupt handlers the UART calls.
\<close>

record sys =
  rx :: at_rx
  act :: act_data
  md :: module
  data_mode :: bool

definition upd_md :: "(module \<Rightarrow> module) \<Rightarrow> sys \<Rightarrow> sys" where
  "upd_md f x = x\<lparr>md := f (md x)\<rparr>"

definition cmd_mode :: "sys \<Rightarrow> sys" where
  "cmd_mode x = (let (r, s) = enter_into_at_cmd_mode (rx x, md x) in x\<lparr>rx := r, md := s, data_mode := False\<rparr>)"

definition dat_mode :: "sys \<Rightarrow> sys" where
  "dat_mode x = (let (a, s) = enter_into_data_mode (act x, md x) in x\<lparr>act := a, md := s, data_mode := True\<rparr>)"

definition report_connected :: "bt_addr_le \<Rightarrow> module \<Rightarrow> module" where
  "report_connected peer s =
     (let s = (if role s = BLE_ROLE_SLAVE then at_cmd_response (take 29 (''+CONNECTED>>0x'' @ at_addr_le_to_str peer @ CRLF)) s
               else at_cmd_response (''+CONNECTED'' @ CRLF) s);
          s = (if role s = BLE_ROLE_MASTER
               then send_async_msg MSG_CONNECTED (emit (Nvram_Set ''BT_TGT_ADDR'' (str_bytes (at_addr_le_to_str2 peer))) (s\<lparr>targed_addr := peer\<rparr>))
               else s)
      in emit (Led CONN_STATE_IND_PIN True 0) (emit (Led LED_STATE_IND_PIN True 0) (emit (Led LED_STATE_IND_PIN False 300) s)))"

definition connected :: "bt_addr_le \<Rightarrow> u8 \<Rightarrow> sys \<Rightarrow> sys" where
  "connected peer err x =
     (let x = upd_md (\<lambda>s. s\<lparr>conn_tmp := False\<rparr>) x in
      if err \<noteq> 0 then upd_md at_cmd_response_error x
      else upd_md (report_connected peer) (upd_md (ble_state_update CONNECTED)
        (dat_mode (upd_md (\<lambda>s. s\<lparr>pconn := True, work_state := 1\<rparr>) x))))"

definition reset_subscribe_params :: "module \<Rightarrow> module" where
  "reset_subscribe_params s = s\<lparr>value_handle := 0\<rparr>"

text \<open>The reboot does not return.\<close>

definition report_disconnected :: "module \<Rightarrow> module" where
  "report_disconnected s =
     (let s = ble_state_update READY (at_cmd_response (''+DISCONNECTED'' @ CRLF) s);
          s = (if role s = BLE_ROLE_MASTER then reset_subscribe_params s else s);
          s = emit (Led CONN_STATE_IND_PIN False 0) (emit (Led LED_STATE_IND_PIN True 300) (emit (Led LED_STATE_IND_PIN False 0) s))
      in if ota_reset s then emit Reboot s else send_async_msg MSG_DISCONNECTED s)"

definition disconnected :: "sys \<Rightarrow> sys" where
  "disconnected x = upd_md report_disconnected (cmd_mode (upd_md (\<lambda>s. s\<lparr>pconn := False, work_state := 0, conn_tmp := False\<rparr>) x))"

definition notify_func :: "bytes option \<Rightarrow> module \<Rightarrow> bool \<times> module" where
  "notify_func data s = (case data of
     None \<Rightarrow> (False, s\<lparr>value_handle := 0\<rparr>)
   | Some d \<Rightarrow> (True, if d = str_bytes ''AT+OTA'' then send_async_msg MSG_DISCONNECT (s\<lparr>role := BLE_ROLE_SLAVE\<rparr>)
       else if d = [] then s else act_data_send_data d s))"

abbreviation (input) "MOUDULE_SVC_HANDLE_START \<equiv> 16 :: u16"
abbreviation (input) "QPPS_RX_CH_CCC_HDL \<equiv> 6 :: nat"

definition module_ccc_init :: "module \<Rightarrow> module" where
  "module_ccc_init s = s\<lparr>ccc_handle := 0, value_handle := 0\<rparr>"

definition quick_set_handles :: "module \<Rightarrow> module" where
  "quick_set_handles s = s\<lparr>module_handle := map (\<lambda>i. MOUDULE_SVC_HANDLE_START + of_nat i) [0..<7]\<rparr>"

text \<open>
  \<open>nofity_enable\<close>: the subscription is volatile, so its parameters are always set anew, and the lookup by handle finds it again.
\<close>

definition nofity_enable :: "host \<Rightarrow> module \<Rightarrow> module res" where
  "nofity_enable h s =
     (if \<not> pconn s then Inr s
      else rbind (arr_get (module_handle s) QPPS_RX_CH_CCC_HDL) (\<lambda>ccc.
        let s = s\<lparr>ccc_handle := ccc, value_handle := ccc - 1\<rparr>; (err, s) = call h (Subscribe ccc (ccc - 1)) s in
        Inr (if err \<noteq> 0 then send_async_msg MSG_DISCONNECT s else s)))"

text \<open>\<open>input_handler\<close>, with the level read from the power pin.\<close>

definition input_handler :: "u32 \<Rightarrow> bool \<Rightarrow> module \<Rightarrow> module" where
  "input_handler pins high s =
     (if bit pins CONN_INT_PIN \<and> bit pins POWM_MODE_PIN then s
      else case find (bit pins) [0..<32] of
        Some pin \<Rightarrow>
          if pin = CONN_INT_PIN then send_async_msg MSG_DISCONNECT s
          else if pin = POWM_MODE_PIN
          then if high then emit (Device_Busy True) s else send_async_msg MSG_DISCONNECT (emit (Device_Busy False) s)
          else s
      | None \<Rightarrow> s)"

section \<open>Configuration\<close>

text \<open>Reading a value: the stored bytes, at most as many as fit, replace the beginning of the buffer.\<close>

definition overlay :: "string \<Rightarrow> bytes \<Rightarrow> string" where
  "overlay buf bs = (let new = map byte_char (take (length buf) bs) in new @ drop (length new) buf)"

definition nv_byte :: "host \<Rightarrow> string \<Rightarrow> module \<Rightarrow> u8 option res" where
  "nv_byte h key s = (case h_nvram_get h (outs s) key of
     None \<Rightarrow> Inr None | Some [] \<Rightarrow> Inl Uninit_Read | Some (b # _) \<Rightarrow> Inr (Some b))"

definition load_adv_name :: "host \<Rightarrow> module \<Rightarrow> module" where
  "load_adv_name h s = (case h_nvram_get h (outs s) ''BT_NAME'' of
     None \<Rightarrow> s
   | Some bs \<Rightarrow> let name = (overlay (replicate BLE_NAME_MAX_LEN (CHR 0x00)) bs)[BLE_NAME_MAX_LEN - 1 := CHR 0x00] in
       ad_data_set (of_nat (length (c_str name))) (s\<lparr>adv_name := name\<rparr>))"

definition load_addr :: "host \<Rightarrow> module \<Rightarrow> module" where
  "load_addr h s =
     (let (str, s) = (case h_nvram_get h (outs s) ''BT_ADDR'' of
        None \<Rightarrow> (BLE_DEVICE_ADDR_DFLT, emit (Nvram_Set ''BT_ADDR'' (str_bytes BLE_DEVICE_ADDR_DFLT)) s)
      | Some bs \<Rightarrow> (overlay BLE_DEVICE_ADDR_DFLT bs, s))
      in s\<lparr>dev_addr := \<lparr>addr_type = BT_ADDR_LE_PUBLIC, addr_val = str2bt_addr h str\<rparr>\<rparr>)"

definition load_target :: "host \<Rightarrow> module \<Rightarrow> module" where
  "load_target h s =
     (let str = (case h_nvram_get h (outs s) ''BT_TGT_ADDR'' of None \<Rightarrow> BLE_TARGET_ADDR_DFLT | Some bs \<Rightarrow> overlay BLE_TARGET_ADDR_DFLT bs)
      in s\<lparr>targed_addr := \<lparr>addr_type = BT_ADDR_LE_PUBLIC, addr_val = str2bt_addr h str\<rparr>\<rparr>)"

definition default_params :: "module \<Rightarrow> module" where
  "default_params s = (let dflt = BLE_ADV_NAME_DFLT @ [CHR 0x00] in s\<lparr>role := False, adv_name := dflt @ drop (length dflt) (adv_name s)\<rparr>)"

definition load_flags :: "u8 option \<Rightarrow> u8 option \<Rightarrow> module \<Rightarrow> module" where
  "load_flags r ac s =
     (let s = (case r of Some b \<Rightarrow> if b = 0 \<or> b = 1 then s\<lparr>role := (b = 1)\<rparr> else s | None \<Rightarrow> s)
      in case ac of Some b \<Rightarrow> if b = 0 \<or> b = 1 then s\<lparr>auto_conn := (b = 1)\<rparr> else s | None \<Rightarrow> s)"

definition load_ble_cfg_from_nv :: "host \<Rightarrow> module \<Rightarrow> module res" where
  "load_ble_cfg_from_nv h s =
     (let s = default_params s in
      rbind (nv_byte h ''BT_ROLE'' s) (\<lambda>r. rbind (nv_byte h ''BT_AUTOCONN'' s) (\<lambda>ac.
      Inr (load_target h (load_addr h (load_adv_name h (load_flags r ac s)))))))"

text \<open>\<open>bt_ready\<close> in the configuration \<open>CONFIG_BLE_ROLE_MASTER\<close>. Registering the services is left to the host.\<close>

definition bt_ready :: "host \<Rightarrow> int \<Rightarrow> sys \<Rightarrow> sys res" where
  "bt_ready h err x =
     (if err \<noteq> 0 then Inr x
      else let x = upd_md (\<lambda>s. s\<lparr>pconn := False, work_state := 0\<rparr>) x in
        rbind (load_ble_cfg_from_nv h (md x)) (\<lambda>s.
        let x = upd_md (ble_state_update INITIALIZED) (cmd_mode (x\<lparr>md := s\<rparr>));
            x = upd_md (\<lambda>s. s\<lparr>role := BLE_ROLE_MASTER\<rparr>) x
        in Inr (if role (md x) = BLE_ROLE_SLAVE then upd_md (start_adv h) x else x)))"

section \<open>The message loop\<close>

definition scan_time_out :: "host \<Rightarrow> module \<Rightarrow> module res" where
  "scan_time_out h s =
     (let s = at_cmd_response_ok (stop_scan s) in
      if auto_conn s
      then rbind (get_max_riss_dev_index s) (\<lambda>(index, s). case index of
             Some i \<Rightarrow> rbind (c_string [char_of (49 + i)]) (\<lambda>index_str. at_cmd_conn_set h index_str s)
           | None \<Rightarrow> Inr s)
      else Inr s)"

text \<open>
  \<open>MSG_OTA_EVENT\<close> is passed on to \<open>ota_event_handle\<close> of the update profile (theory \<open>Ota\<close>), which has a state of its own; the remaining types are only
  reported.
\<close>

definition app_main :: "host \<Rightarrow> msg_type \<Rightarrow> module \<Rightarrow> module res" where
  "app_main h m s = (case m of
     MSG_CONNECTED \<Rightarrow> Inr (send_async_msg MSG_DISCOVER_COMPLETE (quick_set_handles s))
   | MSG_DISCOVER_COMPLETE \<Rightarrow> nofity_enable h s
   | MSG_SCAN_TIME_OUT \<Rightarrow> scan_time_out h s
   | MSG_CREATE_LE_TIME_OUT \<Rightarrow> Inr (create_le_timeout s)
   | MSG_DISCONNECT \<Rightarrow> Inr (disconnect s)
   | MSG_DISCONNECTED \<Rightarrow> Inr (if role s = BLE_ROLE_SLAVE then start_adv h s else s)
   | _ \<Rightarrow> Inr s)"

section \<open>The system\<close>

text \<open>
  What can happen next: a character in command mode, a read in data mode, one round of the command or data thread, the timers, a message in the
  main thread, the callbacks of the host, and the update profile asking for a reset after the next disconnection (\<open>ota_need_reset\<close>).
\<close>

datatype sys_event = Uart_Char char | Uart_Read bytes | At_Thread | Data_Thread | Partial_Timer | Message msg_type
| On_Connected bt_addr_le u8 | On_Disconnected | On_Device_Found bt_addr_le s8 u8 bytes | On_Notify "bytes option" | On_Ccc u16
| On_Write bytes u16 | On_Pins u32 bool | At_Scan_Timer | Create_Le_Timer | On_Ota_Reset

definition lift_md :: "sys \<Rightarrow> module res \<Rightarrow> sys res" where
  "lift_md x r = rbind r (\<lambda>s. Inr (x\<lparr>md := s\<rparr>))"

fun sys_exec :: "host \<Rightarrow> sys_event \<Rightarrow> sys \<Rightarrow> sys res" where
  "sys_exec h (Uart_Char c) x = Inr (if data_mode x then x else x\<lparr>rx := at_cmd_rx_isr c (rx x)\<rparr>)"
| "sys_exec h (Uart_Read got) x = Inr (if data_mode x \<and> length (recv_data (act x)) + length got \<le> ACT_DATA_MTU
     then x\<lparr>act := act_data_rx got (act x)\<rparr> else x)"
| "sys_exec h At_Thread x = rbind (at_cmd_handler h (rx x, md x)) (\<lambda>(r, s). Inr (x\<lparr>rx := r, md := s\<rparr>))"
| "sys_exec h Data_Thread x = rbind (data_handler h (act x, md x)) (\<lambda>(a, s). Inr (x\<lparr>act := a, md := s\<rparr>))"
| "sys_exec h Partial_Timer x = Inr (if timer_on (act x) then x\<lparr>act := send_partial_handler (act x)\<rparr> else x)"
| "sys_exec h (Message m) x = lift_md x (app_main h m (md x))"
| "sys_exec h (On_Connected peer err) x = Inr (connected peer err x)"
| "sys_exec h On_Disconnected x = Inr (disconnected x)"
| "sys_exec h (On_Device_Found addr r evtype ad) x = lift_md x (device_found h addr r evtype ad (md x))"
| "sys_exec h (On_Notify data) x = Inr (upd_md (\<lambda>s. snd (notify_func data s)) x)"
| "sys_exec h (On_Ccc v) x = Inr (upd_md (qpps_rx_ccc_cfg_changed v) x)"
| "sys_exec h (On_Write buf offset) x = Inr (upd_md (\<lambda>s. snd (write_qpps_tx buf offset s)) x)"
| "sys_exec h (On_Pins pins high) x = Inr (upd_md (input_handler pins high) x)"
| "sys_exec h At_Scan_Timer x = Inr (upd_md (send_async_msg MSG_SCAN_TIME_OUT) x)"
| "sys_exec h On_Ota_Reset x = Inr (upd_md (\<lambda>s. s\<lparr>ota_reset := True\<rparr>) x)"
| "sys_exec h Create_Le_Timer x = Inr (upd_md (send_async_msg MSG_CREATE_LE_TIME_OUT) x)"

section \<open>The invariant of the system\<close>

text \<open>
  Only the connection callbacks change whether there is a connection.
\<close>

lemma conn_basic [simp]:
  "pconn (emit e s) = pconn s" "pconn (ble_state_update st s) = pconn s" "pconn (at_cmd_response str s) = pconn s"
  "pconn (at_cmd_response_ok s) = pconn s" "pconn (at_cmd_response_error s) = pconn s" "pconn (send_async_msg m s) = pconn s"
  "pconn (stop_scan s) = pconn s" "pconn (echo_ok t p s) = pconn s" "pconn (stop_inquiry s) = pconn s"
  "pconn (start_adv h s) = pconn s" "pconn (disconnect s) = pconn s" "pconn (create_le_timeout s) = pconn s"
  by (simp_all add: module_ops Let_def)

lemma conn_switch [simp]: "pconn (switch_role h b s) = pconn s"
  by (simp add: switch_role_def Let_def)

lemma conn_scan_update [simp]: "pconn (bt_le_scan_update_new h s) = pconn s"
  by (auto simp: bt_le_scan_update_new_def call_def Let_def)

lemma conn_create_new [simp]: "pconn (snd (bt_conn_create_le_new h a s)) = pconn s"
  by (auto simp: bt_conn_create_le_new_def call_def Let_def split: option.splits conn_state.splits)

lemma conn_prepare [simp]: "pconn (snd (prepare_conn h a s)) = pconn s"
  by (auto simp: prepare_conn_def split: option.splits)

lemma conn_finish [simp]: "pconn (snd (finish_conn c s)) = pconn s"
  by (auto simp: finish_conn_def module_ops)

lemma conn_create [simp]: "pconn (snd (at_conn_create h a s)) = pconn s"
proof (cases "prepare_conn h a s")
  case (Pair o' t)
  then have "pconn t = pconn s" using conn_prepare [of h a s] by simp
  then show ?thesis using Pair by (simp add: at_conn_create_def call_def split: option.split)
qed

lemma conn_cona [simp]: "pconn (snd (at_cona_create h a s)) = pconn s"
proof (cases "prepare_conn h a s")
  case (Pair o' t)
  then have "pconn t = pconn s" using conn_prepare [of h a s] by simp
  moreover have "pconn (snd (finish_conn (fst x) (snd x))) = pconn t" if "x = bt_conn_create_le_new h a t" for x using that by simp
  ultimately show ?thesis using Pair by (simp add: at_cona_create_def split_beta split: option.split)
qed

lemma conn_or_error [simp]: "pconn (or_error x) = pconn (snd x)"
  by (simp add: or_error_def split_beta)

lemma conn_handlers:
  "pconn (at_cmd_role_get s) = pconn s" "pconn (at_cmd_inq h s) = pconn s" "pconn (at_cmd_auto_conn_get s) = pconn s"
  "pconn (at_cmd_clear s) = pconn s" "pconn (at_cmd_reset s) = pconn s" "pconn (at_cmd_default s) = pconn s"
  "pconn (at_cmd_adv_name_get s) = pconn s" "pconn (at_cmd_laddr_get s) = pconn s" "pconn (at_cmd_disconnect s) = pconn s"
  "pconn (at_cmd_ota s) = pconn s" "pconn (at_cmd_laddr_set h p s) = pconn s" "pconn (at_cmd_adv_name_set h p s) = pconn s"
  by (simp_all add: at_cmd_role_get_def at_cmd_inq_def at_cmd_start_scan_def call_def at_cmd_auto_conn_get_def at_cmd_clear_def at_cmd_reset_def
    at_cmd_default_def at_cmd_adv_name_get_def at_cmd_laddr_get_def at_cmd_disconnect_def at_cmd_ota_def
    at_cmd_laddr_set_def at_cmd_adv_name_set_def at_str_to_le_addr_def ad_data_set_def Let_def)

lemma conn_number_set:
  "at_cmd_conn_set h p s = Inr t \<Longrightarrow> pconn t = pconn s" "at_cmd_role_set h p s = Inr t \<Longrightarrow> pconn t = pconn s"
  "at_cmd_cona_set h p s = Inr t \<Longrightarrow> pconn t = pconn s" "at_cmd_auto_conn_set p s = Inr t \<Longrightarrow> pconn t = pconn s"
  by (auto simp: at_cmd_conn_set_def at_cmd_role_set_def at_cmd_cona_set_def at_cmd_auto_conn_set_def at_str_to_le_addr_def rbind_eq_Inr Let_def
    split: if_splits)

lemma conn_exec_cb: "exec_cb h av s = Inr t \<Longrightarrow> pconn t = pconn s"
  by (auto simp: exec_cb_def exec_cb_of_def set_cb_def lift_cmd_def conn_handlers conn_number_set split: list.splits option.splits if_splits)

lemma conn_at_handler: "at_cmd_handler h (r, s) = Inr (r', s') \<Longrightarrow> pconn s' = pconn s"
  by (auto simp: at_cmd_handler_def at_cmd_exec_def rbind_eq_Inr conn_exec_cb split: list.splits if_splits argv.splits)

lemma conn_data_handler: "act_ok a \<Longrightarrow> module_ok s \<Longrightarrow> data_handler h (a, s) = Inr (a', s') \<Longrightarrow> pconn s' = pconn s"
proof (cases "datas_queue a")
  case (Cons e ds)
  assume ok: "act_ok a" "module_ok s" and h: "data_handler h (a, s) = Inr (a', s')"
  obtain b data where e: "e = (b, data)" by (cases e)
  have c: "cmd_ok (a\<lparr>datas_queue := ds\<rparr>)" using ok(1) by (simp add: act_ok_split cmd_ok_def)
  show ?thesis
  proof (cases "pconn s")
    case True
    obtain n a1 s1 where 1: "data_start data (a\<lparr>datas_queue := ds\<rparr>, s) = Inr (n, a1, s1)"
      using h Cons e True by (auto simp: data_handler_def rbind_eq_Inr)
    then have "kept (a\<lparr>datas_queue := ds\<rparr>, s) (a1, s1)" using data_start_ok [OF c ok(2), of data] by auto
    then have "module_ok s1" "pconn s1" using True by (simp_all add: kept_def)
    then obtain err t where "send_pieces h (drop n data) s1 = Inr (err, t)" "pconn t" using send_pieces_frame by blast
    then show ?thesis using h Cons e True 1 \<open>pconn s1\<close> by (auto simp: data_handler_def ble_send_data_def split: if_splits)
  qed (use h Cons e in \<open>auto simp: data_handler_def\<close>)
qed (simp add: data_handler_def)

lemma ad_parse_length: "ad_parse ad = Inr (Some n) \<Longrightarrow> length n \<le> 17"
  by (induction ad arbitrary: n rule: ad_parse.induct) (auto simp: rbind_eq_Inr split: if_splits)

lemma add_scan_frame:
  "add_scan_dev_list addr r name nl s = Inr (b, t) \<Longrightarrow> t = s\<lparr>dev_list := dev_list t, dev_cnt := dev_cnt t\<rparr>"
  by (auto simp: add_scan_dev_list_def rbind_eq_Inr Let_def split: option.splits if_splits)

lemma add_scan_ok:
  assumes "module_ok s" "length name = 18"
  shows "\<exists>b t. add_scan_dev_list addr r name nl s = Inr (b, t) \<and> module_ok t \<and> pconn t = pconn s \<and> unat (dev_cnt t) < 5"
proof -
  obtain b t where t: "add_scan_dev_list addr r name nl s = Inr (b, t)" "scan_list_ok t"
    using add_scan_keeps [of s name addr r nl] assms by (auto simp: module_ok_def)
  moreover have "module_ok (s\<lparr>dev_list := dev_list t, dev_cnt := dev_cnt t\<rparr>)"
    using t(2) assms(1) by (simp add: module_ok_def scan_list_ok_def)
  moreover have "unat (dev_cnt t) < 5" using t(2) by (simp add: scan_list_ok_def)
  ultimately show ?thesis using add_scan_frame [OF t(1)] by (metis (no_types, lifting) module.select_convs(9) module.surjective module.update_convs(4,5))
qed

text \<open>
  The bytes on which the search for a name leaves the advertising data. An element is its length, its type and its data; the elements are read up to
  a length of zero or one that reaches past the end. The search for the prefix ZRS starts at the data of a name element and is not
  limited to it: it ends at the prefix or at a zero byte, wherever in the rest of the advertising data that is.
\<close>

function name_rests :: "bytes \<Rightarrow> bytes list" where
  "name_rests (len # ty # rest) =
     (if len = 0 \<or> Suc (length rest) < unat len then []
      else (if ty = 0x08 \<or> ty = 0x09 then [rest] else []) @ name_rests (drop (unat len - 1) rest))"
| "name_rests [] = []"
| "name_rests [len] = []"
  by pat_completeness auto

termination
  by (relation "measure length") auto

fun has_prefix :: "bytes \<Rightarrow> bool" where
  "has_prefix [] = False"
| "has_prefix (b # bs) \<longleftrightarrow> take 3 (b # bs) = [0x5A, 0x52, 0x53] \<or> b \<noteq> 0 \<and> has_prefix bs"

fun search_leaves :: "bytes list \<Rightarrow> bool" where
  "search_leaves [] = False"
| "search_leaves (rest # rests) \<longleftrightarrow> \<not> has_prefix rest \<and> (0 \<notin> set rest \<or> search_leaves rests)"

definition bad_name :: "bt_addr_le \<Rightarrow> u8 \<Rightarrow> bytes \<Rightarrow> bool" where
  "bad_name addr evtype ad \<longleftrightarrow> addr_type addr = BT_ADDR_LE_PUBLIC \<and> (evtype = BT_LE_ADV_IND \<or> evtype = BT_LE_ADV_SCAN_RSP) \<and>
     search_leaves (name_rests ad)"

lemma byte_char_iff: "byte_char b = c \<longleftrightarrow> b = of_char c"
proof
  have "unat b < 256" using unsigned_less [of b] by simp
  then have u: "of_char (byte_char b) = unat b" by (simp add: byte_char_def)
  assume "byte_char b = c"
  then have "of_nat (of_char c) = (of_nat (unat b) :: u8)" using u by simp
  then show "b = of_char c" by (simp add: of_nat_of_char)
next
  assume "b = of_char c"
  then have "b = of_nat (of_char c)" by (simp add: of_nat_of_char)
  then have "unat b = of_char c" by (simp add: unat_of_nat take_bit_nat_eq_self)
  then show "byte_char b = c" by (simp add: byte_char_def)
qed

lemma has_prefix_strstr: "strstr (c_str (map byte_char data)) ''ZRS'' \<noteq> None \<longleftrightarrow> has_prefix data"
proof (induction data)
  case (Cons b data)
  have "take (Suc (Suc 0)) (c_str (map byte_char data)) = ''RS'' \<longleftrightarrow> take (Suc (Suc 0)) data = [0x52, 0x53]"
    by (cases data; cases "tl data") (auto simp: c_str_def byte_char_iff)
  then show ?case using Cons by (auto simp: c_str_def byte_char_iff numeral_3_eq_3)
qed (simp add: c_str_def)

lemma strstr_raw_eq: "strstr_raw data ''ZRS'' = (if has_prefix data then Inr True else if 0 \<in> set data then Inr False else Inl Out_Of_Bounds)"
  using has_prefix_strstr [of data] byte_char_iff [of _ "CHR 0x00"] by (auto simp: strstr_raw_def Let_def image_iff) metis+

lemma ad_parse_bad: "if search_leaves (name_rests ad) then ad_parse ad = Inl Out_Of_Bounds else \<exists>n. ad_parse ad = Inr n"
  by (induction ad rule: ad_parse.induct) (auto simp: strstr_raw_eq)

lemma device_found_ok:
  assumes "module_ok s"
  shows "if bad_name addr evtype ad then device_found h addr r evtype ad s = Inl Out_Of_Bounds
    else \<exists>t. device_found h addr r evtype ad s = Inr t \<and> module_ok t \<and> pconn t = pconn s"
proof (cases "ad_parse ad")
  case (Inl e)
  then show ?thesis using ad_parse_bad [of ad] assms by (auto simp: device_found_def bad_name_def split: if_splits)
next
  case (Inr p)
  then have b: "\<not> bad_name addr evtype ad" using ad_parse_bad [of ad] by (auto simp: bad_name_def split: if_splits)
  show ?thesis
  proof (cases p)
    case (Some n)
    have "length (name_buffer n) = 18" using ad_parse_length [of ad n] Inr Some by (simp add: name_buffer_def)
    then obtain b t where t: "add_scan_dev_list addr r (name_buffer n) (of_nat (length (c_str (name_buffer n)))) s = Inr (b, t)"
      "module_ok t" "pconn t = pconn s" "unat (dev_cnt t) < 5"
      using add_scan_ok [OF assms] by blast
    have r: "module_ok (at_cmd_response str t)" "pconn (at_cmd_response str t) = pconn s" "dev_cnt (at_cmd_response str t) = dev_cnt t" for str
      using t by (simp_all add: module_ops)
    show ?thesis using b Inr Some t assms r by (auto simp: device_found_def Let_def)
  qed (use b Inr assms in \<open>auto simp: device_found_def\<close>)
qed

lemma no_devices: "dev_cnt s = 0 \<Longrightarrow> get_max_riss_dev_index s = Inr (None, s)"
  using bubble_sort_ok [of 0 "map (\<lambda>i. 0) [0..<5]"] by (auto simp: get_max_riss_dev_index_def Let_def)

lemma index_str_bad: "i < 5 \<Longrightarrow> c_string [char_of (49 + i)] = Inl Out_Of_Bounds" for i :: nat
proof -
  assume "i < 5"
  then have "of_char (char_of (49 + i)) \<noteq> (of_char (CHR 0x00) :: nat)" by simp
  then have "char_of (49 + i) \<noteq> CHR 0x00" by metis
  then show ?thesis by (simp add: c_string_def)
qed

lemma scan_time_out_ok:
  assumes "module_ok s"
  shows "if auto_conn s \<and> dev_cnt s \<noteq> 0 then scan_time_out h s = Inl Out_Of_Bounds
    else \<exists>t. scan_time_out h s = Inr t \<and> module_ok t \<and> pconn t = pconn s"
proof -
  let ?s = "at_cmd_response_ok (stop_scan s)"
  have s: "module_ok ?s" "dev_cnt ?s = dev_cnt s" "auto_conn ?s = auto_conn s" "pconn ?s = pconn s" using assms by (simp_all add: module_ops)
  show ?thesis
  proof (cases "dev_cnt s = 0")
    case True
    then show ?thesis using s no_devices [of ?s] by (simp add: scan_time_out_def Let_def)
  next
    case False
    then have "scan_list_ok ?s" "0 < dev_cnt ?s" using s by (simp_all add: module_ok_def word_neq_0_conv)
    then obtain i t where i: "get_max_riss_dev_index ?s = Inr (Some i, t)" "i < unat (dev_cnt ?s)" using strongest by blast
    moreover have "unat (dev_cnt ?s) < 5" using s(1) by (simp add: module_ok_def scan_list_ok_def)
    ultimately show ?thesis using s index_str_bad [of i] False by (auto simp: scan_time_out_def Let_def)
  qed
qed

lemma handles_ok: "module_ok s \<Longrightarrow> module_ok (quick_set_handles s)" "pconn (quick_set_handles s) = pconn s"
  by (simp_all add: quick_set_handles_def module_ok_def scan_list_ok_def)

lemma nofity_ok: "module_ok s \<Longrightarrow> \<exists>t. nofity_enable h s = Inr t \<and> module_ok t \<and> pconn t = pconn s"
  by (auto simp: nofity_enable_def arr_get_def call_def Let_def send_async_msg_def) (simp_all add: module_ok_def)

lemma disconnect_ok: "module_ok (disconnect s) = module_ok s" "module_ok (create_le_timeout s) = module_ok s"
  by (simp_all add: module_ops)

lemma app_main_ok:
  assumes "module_ok s"
  shows "if m = MSG_SCAN_TIME_OUT \<and> auto_conn s \<and> dev_cnt s \<noteq> 0 then app_main h m s = Inl Out_Of_Bounds
    else \<exists>t. app_main h m s = Inr t \<and> module_ok t \<and> pconn t = pconn s"
  using scan_time_out_ok [OF assms, of h] nofity_ok [OF assms, of h] handles_ok assms
  by (cases m) (auto simp: app_main_def disconnect_ok send_async_msg_def)

text \<open>The invariant: every part is well formed, and the UART is in data mode exactly while there is a connection.\<close>

definition sys_ok :: "sys \<Rightarrow> bool" where
  "sys_ok x \<longleftrightarrow> rx_ok (rx x) \<and> act_ok (act x) \<and> module_ok (md x) \<and> data_mode x = pconn (md x)"

text \<open>The four inputs on which the code is undefined.\<close>

definition hazard :: "sys_event \<Rightarrow> sys \<Rightarrow> bool" where
  "hazard e x = (case e of
     At_Thread \<Rightarrow> bad_command (rx x) (md x)
   | Data_Thread \<Rightarrow> (case datas_queue (act x) of [] \<Rightarrow> False
       | (_, d) # _ \<Rightarrow> pconn (md x) \<and> role (md x) \<and> 7 \<le> length d \<and> hd d = 0x41)
   | Message MSG_SCAN_TIME_OUT \<Rightarrow> auto_conn (md x) \<and> dev_cnt (md x) \<noteq> 0
   | On_Device_Found addr _ evtype ad \<Rightarrow> bad_name addr evtype ad
   | _ \<Rightarrow> False)"

lemma sys_ok_upd: "sys_ok x \<Longrightarrow> module_ok (f (md x)) \<Longrightarrow> pconn (f (md x)) = pconn (md x) \<Longrightarrow> sys_ok (upd_md f x)"
  by (simp add: sys_ok_def upd_md_def)

lemma sys_ok_lift: "sys_ok x \<Longrightarrow> module_ok s \<Longrightarrow> pconn s = pconn (md x) \<Longrightarrow> sys_ok (x\<lparr>md := s\<rparr>)"
  by (simp add: sys_ok_def)

lemma report_ok [simp]: "module_ok (report_connected p s) = module_ok s" "pconn (report_connected p s) = pconn s"
  "module_ok (report_disconnected s) = module_ok s" "pconn (report_disconnected s) = pconn s"
  by (simp_all add: report_connected_def report_disconnected_def reset_subscribe_params_def module_ops Let_def)

lemma connected_ok: "sys_ok x \<Longrightarrow> sys_ok (connected p e x)"
proof -
  assume ok: "sys_ok x"
  have "module_ok ((md x)\<lparr>conn_tmp := False, pconn := True, work_state := 1, outs := es\<rparr>)" for es
    using ok by (simp add: sys_ok_def module_ok_def scan_list_ok_def)
  then show ?thesis using ok data_mode_ok [of "act x"]
    by (auto simp: connected_def sys_ok_def upd_md_def dat_mode_def enter_into_data_mode_def emit_def ble_state_update_def
      at_cmd_response_error_def Let_def)
qed

lemma disconnected_ok: "sys_ok x \<Longrightarrow> sys_ok (disconnected x)"
proof -
  assume ok: "sys_ok x"
  have "module_ok ((md x)\<lparr>pconn := False, work_state := 0, conn_tmp := False, outs := es\<rparr>)" for es
    using ok by (simp add: sys_ok_def module_ok_def scan_list_ok_def)
  moreover have "rx_ok (fst (enter_into_at_cmd_mode (rx x, s)))" for s using ok enter_mode_ok by (simp add: sys_ok_def)
  moreover have "snd (enter_into_at_cmd_mode (r, s)) = emit Cmd_Mode s" for r s by (simp add: enter_into_at_cmd_mode_def Let_def)
  ultimately show ?thesis using ok by (simp add: disconnected_def sys_ok_def upd_md_def cmd_mode_def split_beta emit_def)
qed

lemma small_ok:
  assumes "module_ok s"
  shows "module_ok (snd (notify_func d s))" "pconn (snd (notify_func d s)) = pconn s"
    "module_ok (qpps_rx_ccc_cfg_changed v s)" "pconn (qpps_rx_ccc_cfg_changed v s) = pconn s"
    "module_ok (snd (write_qpps_tx buf off s))" "pconn (snd (write_qpps_tx buf off s)) = pconn s"
    "module_ok (input_handler pins high s)" "pconn (input_handler pins high s) = pconn s"
  using assms by (auto simp: notify_func_def qpps_rx_ccc_cfg_changed_def write_qpps_tx_def act_data_send_data_def input_handler_def send_async_msg_def
    emit_def split: option.split)

lemma sys_exec_ok:
  assumes "sys_ok x"
  shows "if hazard e x then \<exists>err. sys_exec h e x = Inl err else \<exists>y. sys_exec h e x = Inr y \<and> sys_ok y"
proof -
  have ok: "rx_ok (rx x)" "act_ok (act x)" "module_ok (md x)" "data_mode x = pconn (md x)" using assms by (simp_all add: sys_ok_def)
  show ?thesis
  proof (cases e)
    case (Uart_Char c)
    then show ?thesis using ok at_cmd_rx_isr_ok by (simp add: hazard_def sys_ok_def)
  next
    case (Uart_Read got)
    then show ?thesis using ok act_data_rx_ok [OF ok(2)] by (simp add: hazard_def sys_ok_def)
  next
    case At_Thread
    then show ?thesis using ok handler_ok [OF ok(1,3), of h] conn_at_handler by (fastforce simp: hazard_def sys_ok_def split: if_splits)
  next
    case Data_Thread
    show ?thesis
    proof (cases "hazard e x")
      case True
      then obtain b d ds where q: "datas_queue (act x) = (b, d) # ds" "pconn (md x)" "role (md x)" "7 \<le> length d" "hd d = 0x41"
        using Data_Thread by (auto simp: hazard_def split: list.splits)
      then have "data_handler h (act x, md x) = Inl Uninit_Read" by (simp add: data_handler_def data_start_def ota_match_A)
      then show ?thesis using True Data_Thread by simp
    next
      case False
      then obtain a s where "data_handler h (act x, md x) = Inr (a, s)" "act_ok a" "module_ok s"
        using data_handler_ok [OF ok(2,3), of h] Data_Thread by (fastforce simp: hazard_def)
      then show ?thesis using False Data_Thread ok conn_data_handler [OF ok(2,3)] by (auto simp: sys_ok_def)
    qed
  next
    case Partial_Timer
    then show ?thesis using ok send_partial_ok by (simp add: hazard_def sys_ok_def)
  next
    case (Message m)
    then show ?thesis using app_main_ok [OF ok(3), of m h] sys_ok_lift [OF assms]
      by (cases m) (auto simp: hazard_def lift_md_def split: if_splits)
  next
    case (On_Device_Found addr r evtype ad)
    then show ?thesis using device_found_ok [OF ok(3), of addr evtype ad h r] sys_ok_lift [OF assms]
      by (auto simp: hazard_def lift_md_def split: if_splits)
  qed (use assms ok connected_ok disconnected_ok sys_ok_upd small_ok in \<open>auto simp: hazard_def send_async_msg_def\<close>)
qed

section \<open>Starting\<close>

text \<open>The static variables after a reset; the events go on.\<close>

definition zero_module :: "module_event list \<Rightarrow> module" where
  "zero_module es = \<lparr>role = False, auto_conn = False, ble_st = INITIALIZED, dev_list = replicate DEV_TOTAL zero_dev, dev_cnt = 0,
     targed_addr = BT_ADDR_LE_ANY, adv_name = replicate BLE_NAME_MAX_LEN (CHR 0x00), dev_addr = BT_ADDR_LE_ANY, pconn = False, work_state = 0,
     conn_tmp = False, ad_name = Config_Name, module_handle = replicate 7 0, ccc_handle = 0, value_handle = 0, qpps_rx_ccc = False,
     ota_reset = False, outs = es\<rparr>"

definition leds_status_reset :: "module \<Rightarrow> module" where
  "leds_status_reset s = emit (Led CONN_STATE_IND_PIN False 0) (emit (Led LED_STATE_IND_PIN True 300) s)"

definition system_app_init :: "module_event list \<Rightarrow> sys" where
  "system_app_init es = \<lparr>rx = at_cmd_init, act = act_data_init, md = leds_status_reset (module_ccc_init (zero_module es)), data_mode = False\<rparr>"

lemma system_app_init_ok: "sys_ok (system_app_init es)"
  using at_cmd_init_ok act_data_init_ok
  by (simp add: sys_ok_def system_app_init_def leds_status_reset_def module_ccc_init_def zero_module_def module_ok_def scan_list_ok_def dev_ok_def
    zero_dev_def emit_def)

lemma overlay_length [simp]: "length (overlay buf bs) = length buf"
  by (simp add: overlay_def Let_def)

lemma c_str_end:
  assumes "i < length xs" "xs ! i = CHR 0x00"
  shows "length (c_str xs) \<le> i"
proof (rule ccontr)
  assume "\<not> length (c_str xs) \<le> i"
  then have "i < length (c_str xs)" by simp
  then have "c_str xs ! i \<noteq> CHR 0x00" "c_str xs ! i = xs ! i"
    using nth_mem [of i "c_str xs"] by (auto simp: c_str_def takeWhile_nth dest: set_takeWhileD)
  then show False using assms(2) by simp
qed

lemma load_adv_name_ok: "module_ok s \<Longrightarrow> module_ok (load_adv_name h s)" "pconn (load_adv_name h s) = pconn s"
proof -
  assume ok: "module_ok s"
  have "unat (of_nat (length (c_str n)) :: u8) < 18" if "length n = 18" "n ! 17 = CHR 0x00" for n
    using c_str_end [of 17 n] that by (simp add: unat_of_nat take_bit_nat_eq_self)
  then show "module_ok (load_adv_name h s)"
    using ok by (auto simp: load_adv_name_def ad_data_set_def module_ok_def scan_list_ok_def Let_def split: option.split)
qed (simp add: load_adv_name_def ad_data_set_def Let_def split: option.split)

lemma load_addr_ok: "module_ok (load_addr h s) = module_ok s" "pconn (load_addr h s) = pconn s"
  "module_ok (load_target h s) = module_ok s" "pconn (load_target h s) = pconn s"
  by (simp_all add: load_addr_def load_target_def Let_def split: option.split)

lemma load_flags_ok: "module_ok (load_flags r ac s) = module_ok s" "pconn (load_flags r ac s) = pconn s"
  by (simp_all add: load_flags_def Let_def split: option.split)

lemma default_params_ok: "module_ok s \<Longrightarrow> module_ok (default_params s)" "pconn (default_params s) = pconn s"
  by (simp_all add: default_params_def module_ok_def scan_list_ok_def nth_append Let_def)

lemma load_cfg_ok: "module_ok s \<Longrightarrow> load_ble_cfg_from_nv h s = Inr t \<Longrightarrow> module_ok t \<and> pconn t = pconn s"
  by (auto simp: load_ble_cfg_from_nv_def rbind_eq_Inr load_addr_ok load_adv_name_ok load_flags_ok default_params_ok Let_def)

lemma bt_ready_ok: "sys_ok x \<Longrightarrow> bt_ready h err x = Inr y \<Longrightarrow> sys_ok y"
proof -
  assume ok: "sys_ok x" and y: "bt_ready h err x = Inr y"
  have e: "snd (enter_into_at_cmd_mode (r, s)) = emit Cmd_Mode s" for r s by (simp add: enter_into_at_cmd_mode_def Let_def)
  have m: "module_ok ((md x)\<lparr>pconn := False, work_state := 0\<rparr>)" using ok by (simp add: sys_ok_def module_ok_def scan_list_ok_def)
  have r: "rx_ok (fst (enter_into_at_cmd_mode (rx x, s)))" for s using ok enter_mode_ok by (simp add: sys_ok_def)
  show ?thesis using y ok load_cfg_ok [OF m] r
    by (auto simp: bt_ready_def upd_md_def cmd_mode_def split_beta e sys_ok_def rbind_eq_Inr ble_state_update_def Let_def split: if_splits)
qed

definition sys_step :: "host \<Rightarrow> sys \<Rightarrow> sys_event \<Rightarrow> sys \<Rightarrow> bool" where
  "sys_step h x e y \<longleftrightarrow> sys_exec h e x = Inr y"

interpretation module: step_invariant "sys_step h" sys_ok
proof
  fix x e y
  assume "sys_step h x e y" "sys_ok x"
  then show "sys_ok y" using sys_exec_ok [of x e h] by (auto simp: sys_step_def split: if_splits)
qed

text \<open>
  C3 (invariant). Whatever happens after a successful start, in whatever order the interrupts, the threads, the timers and the host's callbacks run, no
  buffer of the two receivers is lost or used twice, the lines and packets fit their buffers, the list of devices is well formed, the name
  ends within its array, and the UART is in data mode exactly while there is a connection.
\<close>

theorem module_invariant:
  assumes "bt_ready h 0 (system_app_init es) = Inr x" "lrun (sys_step h) x evs y"
  shows "rx_ok (rx y) \<and> act_ok (act y) \<and> module_ok (md y) \<and> data_mode y = pconn (md y)"
  using module.inv_run [OF assms(2) bt_ready_ok [OF system_app_init_ok assms(1)]] by (simp add: sys_ok_def)

definition ready_sys :: sys where
  "ready_sys = (case bt_ready quiet_host 0 (system_app_init []) of Inr x \<Rightarrow> x | Inl _ \<Rightarrow> system_app_init [])"

lemma ready_sys_ready: "bt_ready quiet_host 0 (system_app_init []) = Inr ready_sys"
proof -
  have "h_nvram_get quiet_host es k = None" for es k by (simp add: quiet_host_def)
  then have "\<exists>x. bt_ready quiet_host 0 (system_app_init []) = Inr x"
    by (simp add: bt_ready_def load_ble_cfg_from_nv_def nv_byte_def Let_def)
  then show ?thesis by (auto simp: ready_sys_def)
qed

theorem module_invariant_witness:
  "\<exists>y. lrun (sys_step quiet_host) ready_sys [Uart_Char (CHR ''A''), On_Connected BT_ADDR_LE_ANY 0, Uart_Read [1, 2]] y \<and>
    rx_ok (rx y) \<and> act_ok (act y) \<and> module_ok (md y) \<and> data_mode y = pconn (md y)"
proof -
  let ?h = quiet_host
  have "sys_ok ready_sys" using bt_ready_ok [OF system_app_init_ok ready_sys_ready] .
  then obtain x1 where 1: "sys_exec ?h (Uart_Char (CHR ''A'')) ready_sys = Inr x1" by simp
  obtain x2 where 2: "sys_exec ?h (On_Connected BT_ADDR_LE_ANY 0) x1 = Inr x2" by simp
  obtain x3 where 3: "sys_exec ?h (Uart_Read [1, 2]) x2 = Inr x3" by simp
  have run: "lrun (sys_step ?h) ready_sys [Uart_Char (CHR ''A''), On_Connected BT_ADDR_LE_ANY 0, Uart_Read [1, 2]] x3"
    using 1 2 3 unfolding lrun_simps sys_step_def by blast
  show ?thesis using module_invariant [OF ready_sys_ready run] run by blast
qed



section \<open>The stored configuration\<close>

text \<open>What is assumed of the non-volatile memory: a read gives the value that was last set.\<close>

fun set_val :: "string \<Rightarrow> module_event \<Rightarrow> bytes option \<Rightarrow> bytes option" where
  "set_val key (Nvram_Set k v) old = (if k = key then Some v else old)"
| "set_val key _ old = old"

definition nv_lookup :: "module_event list \<Rightarrow> string \<Rightarrow> bytes option" where
  "nv_lookup es key = fold (set_val key) es None"

definition nvram_keeps :: "host \<Rightarrow> bool" where
  "nvram_keeps h \<longleftrightarrow> (\<forall>es key. h_nvram_get h es key = nv_lookup es key)"

definition nv :: "module \<Rightarrow> string \<Rightarrow> bytes option" where
  "nv s = nv_lookup (outs s)"

lemma nv_emit [simp]: "nv (emit e s) key = set_val key e (nv s key)"
  by (simp add: nv_def nv_lookup_def emit_def)

lemma nv_upd [simp]: "nv (s\<lparr>role := x1\<rparr>) = nv s" "nv (s\<lparr>auto_conn := x2\<rparr>) = nv s" "nv (s\<lparr>ble_st := x3\<rparr>) = nv s"
  "nv (s\<lparr>adv_name := x4\<rparr>) = nv s" "nv (s\<lparr>ad_name := x5\<rparr>) = nv s" "nv (s\<lparr>dev_addr := x6\<rparr>) = nv s" "nv (s\<lparr>targed_addr := x7\<rparr>) = nv s"
  by (simp_all add: nv_def)

lemma nv_ops [simp]: "nv (at_cmd_response t s) = nv s" "nv (at_cmd_response_ok s) = nv s" "nv (send_async_msg m s) = nv s"
  "nv (echo_ok t p s) = nv s" "nv (ble_state_update st s) = nv s" "nv (start_adv h s) = nv s" "nv (stop_scan s) = nv s" "nv (disconnect s) = nv s"
  by (rule ext, simp add: echo_ok_def at_cmd_response_def at_cmd_response_ok_def send_async_msg_def ble_state_update_def start_adv_def call_def stop_scan_def
    disconnect_def Let_def)+

lemma nv_switch [simp]: "nv (switch_role h b s) = nv s"
  by (rule ext) (simp add: switch_role_def Let_def)

lemma nv_role_set: "\<exists>t. at_cmd_role_set h ''0'' s = Inr t \<and> nv t = (nv s)(''BT_ROLE'' \<mapsto> [0])"
  by (rule exI, rule conjI, rule role_set_01(1)) (rule ext, simp)

lemma nv_auto_set: "role s \<Longrightarrow> \<exists>t. at_cmd_auto_conn_set ''1'' s = Inr t \<and> nv t = (nv s)(''BT_AUTOCONN'' \<mapsto> [1])"
proof -
  assume "role s"
  then have "at_cmd_auto_conn_set ''1'' s = Inr (emit (Nvram_Set ''BT_AUTOCONN'' [1]) (echo_ok ''+AUTOCONN='' ''1'' (s\<lparr>auto_conn := True\<rparr>)))"
    by (simp add: at_cmd_auto_conn_set_def role_values c_int_def int_fits_def Let_def)
  moreover have "nv (emit (Nvram_Set ''BT_AUTOCONN'' [1]) (echo_ok ''+AUTOCONN='' ''1'' (s\<lparr>auto_conn := True\<rparr>))) = (nv s)(''BT_AUTOCONN'' \<mapsto> [1])"
    by (rule ext) simp
  ultimately show ?thesis by blast
qed

lemma nv_name_set: "take 3 p = ''ZRS'' \<Longrightarrow> nv (at_cmd_adv_name_set h p s) = (nv s)(''BT_NAME'' \<mapsto> str_bytes (take 17 p))"
  by (rule ext) (auto simp: at_cmd_adv_name_set_def ad_data_set_def min_def Let_def)

lemma nv_laddr_set:
  assumes "length (addr_val a) = 6"
  shows "nv (at_cmd_laddr_set h (''0x'' @ at_addr_le_to_str a) s) = (nv s)(''BT_ADDR'' \<mapsto> str_bytes (at_addr_le_to_str2 a))"
  using addr_param [OF assms] addr_str_hex(3) [OF assms] by (intro ext) (simp add: at_cmd_laddr_set_def at_str_to_le_addr_def Let_def)

lemma overlay_full: "length str = length buf \<Longrightarrow> overlay buf (str_bytes str) = str"
  by (simp add: overlay_def str_bytes_def comp_def Let_def)

lemma overlay_name:
  "(overlay (replicate 18 (CHR 0x00)) (str_bytes (take 17 p)))[17 := CHR 0x00] = name_array p"
proof -
  have "overlay (replicate 18 (CHR 0x00)) (str_bytes (take 17 p)) = name_array p"
    by (simp add: overlay_def str_bytes_def comp_def name_array_def Let_def)
  then show ?thesis using name_array_ok(2) [of p] by (simp add: list_update_same_conv name_array_ok [simplified])
qed

lemma str2_length: "length (addr_val a) = 6 \<Longrightarrow> length (at_addr_le_to_str2 a) = 17"
proof -
  assume "length (addr_val a) = 6"
  then obtain b0 b1 b2 b3 b4 b5 where "addr_val a = [b0, b1, b2, b3, b4, b5]" by (auto simp: numeral_eq_Suc length_Suc_conv)
  then show ?thesis by (simp add: at_addr_le_to_str2_def hex_byte_ok(2))
qed

definition configured :: "host \<Rightarrow> string \<Rightarrow> bt_addr_le \<Rightarrow> module \<Rightarrow> module res" where
  "configured h p a s = rbind (at_cmd_auto_conn_set ''1'' (at_cmd_laddr_set h (''0x'' @ at_addr_le_to_str a) (at_cmd_adv_name_set h p s)))
     (at_cmd_role_set h ''0'')"

lemma nv_configured:
  assumes "role s" "take 3 p = ''ZRS''" "length (addr_val a) = 6"
  shows "\<exists>t. configured h p a s = Inr t \<and> nv t = (nv s)(''BT_NAME'' \<mapsto> str_bytes (take 17 p), ''BT_ADDR'' \<mapsto> str_bytes (at_addr_le_to_str2 a),
    ''BT_AUTOCONN'' \<mapsto> [1], ''BT_ROLE'' \<mapsto> [0])"
proof -
  have r1: "role (at_cmd_adv_name_set h p s) = role s" by (simp add: at_cmd_adv_name_set_def module_ops ad_data_set_def Let_def)
  have "role (at_cmd_laddr_set h q t) = role t" for q t by (simp add: at_cmd_laddr_set_def at_str_to_le_addr_def module_ops Let_def)
  then have "role (at_cmd_laddr_set h (''0x'' @ at_addr_le_to_str a) (at_cmd_adv_name_set h p s))" using r1 assms(1) by simp
  then obtain t where t: "at_cmd_auto_conn_set ''1'' (at_cmd_laddr_set h (''0x'' @ at_addr_le_to_str a) (at_cmd_adv_name_set h p s)) = Inr t"
    "nv t = (nv (at_cmd_laddr_set h (''0x'' @ at_addr_le_to_str a) (at_cmd_adv_name_set h p s)))(''BT_AUTOCONN'' \<mapsto> [1])"
    using nv_auto_set by blast
  obtain u where "at_cmd_role_set h ''0'' t = Inr u" "nv u = (nv t)(''BT_ROLE'' \<mapsto> [0])" using nv_role_set by blast
  then show ?thesis using t by (simp add: configured_def nv_laddr_set [OF assms(3), simplified] nv_name_set [OF assms(2)])
qed

text \<open>
  C16 (roundtrip). What \<open>AT+NAME\<close>, \<open>AT+LADDR\<close> and \<open>AT+AUTOCONN\<close> set survives a reset: after the restart the module has the same
  name, advertises it, and has the same address and connects automatically. The role is the exception: \<open>AT+ROLE0\<close> stores the role of a slave, but
  \<open>bt_ready\<close> overwrites what it has read, and the module is a master.
\<close>

theorem config_survives_reset:
  assumes "nvram_keeps h" "role s" "take 3 p = ''ZRS''" "CHR 0x00 \<notin> set p" "length (addr_val a) = 6" "addr_type a = BT_ADDR_LE_PUBLIC"
    "str2bt_addr h (at_addr_le_to_str2 a) = addr_val a"
  shows "\<exists>t x. configured h p a s = Inr t \<and> bt_ready h 0 (system_app_init (outs t)) = Inr x \<and> adv_name (md x) = name_array p \<and>
    ad_name_data (md x) = take 17 p \<and> dev_addr (md x) = a \<and> auto_conn (md x) \<and> role (md x)"
proof -
  obtain t where conf: "configured h p a s = Inr t" "nv t = (nv s)(''BT_NAME'' \<mapsto> str_bytes (take 17 p),
    ''BT_ADDR'' \<mapsto> str_bytes (at_addr_le_to_str2 a), ''BT_AUTOCONN'' \<mapsto> [1], ''BT_ROLE'' \<mapsto> [0])"
    using nv_configured [OF assms(2,3,5)] by blast
  let ?o = "outs t"
  let ?m = "(md (system_app_init ?o))\<lparr>pconn := False, work_state := 0\<rparr>"
  have "nv ?m = nv t"
    by (rule ext) (simp add: nv_def system_app_init_def leds_status_reset_def module_ccc_init_def zero_module_def emit_def nv_lookup_def)
  then have v: "h_nvram_get h (outs ?m) ''BT_NAME'' = Some (str_bytes (take 17 p))" "h_nvram_get h (outs ?m) ''BT_ROLE'' = Some [0]"
    "h_nvram_get h (outs ?m) ''BT_ADDR'' = Some (str_bytes (at_addr_le_to_str2 a))" "h_nvram_get h (outs ?m) ''BT_AUTOCONN'' = Some [1]"
    using assms(1) conf(2) by (simp_all add: nvram_keeps_def nv_def)
  have n: "c_str (name_array p) = take 17 p"
  proof -
    have "CHR 0x00 \<notin> set (take 17 p)" using assms(4) by (auto dest: in_set_takeD)
    moreover have "18 - length (take 17 p) = Suc (17 - length (take 17 p))" by simp
    ultimately show ?thesis using c_str_pad [of "take 17 p" "17 - length (take 17 p)"] by (simp only: name_array_def Let_def diff_Suc_1 add_diff_cancel) simp
  qed
  let ?l = "load_adv_name h (load_flags (Some 0) (Some 1) (default_params ?m))"
  have l: "?l = ?m\<lparr>role := False, auto_conn := True, adv_name := name_array p, ad_name := Param_Name (of_nat (length (take 17 p)))\<rparr>"
    using v overlay_name [of p] n by (simp add: load_adv_name_def load_flags_def default_params_def ad_data_set_def Let_def)
  have a: "\<lparr>addr_type = BT_ADDR_LE_PUBLIC, addr_val = addr_val a\<rparr> = a" using assms(6) by simp
  have s: "load_addr h ?l = ?l\<lparr>dev_addr := a\<rparr>"
    using v(3) assms(7) a overlay_full [of "at_addr_le_to_str2 a" BLE_DEVICE_ADDR_DFLT] str2_length [OF assms(5)]
    by (simp add: load_addr_def l)
  have ready: "load_ble_cfg_from_nv h ?m = Inr (load_target h (?l\<lparr>dev_addr := a\<rparr>))"
    using v s by (simp add: load_ble_cfg_from_nv_def nv_byte_def default_params_def Let_def)
  have e: "snd (enter_into_at_cmd_mode (r, t)) = emit Cmd_Mode t" for r t by (simp add: enter_into_at_cmd_mode_def Let_def)
  have u: "unat (of_nat (length (take 17 p)) :: u8) = length (take 17 p)" by (simp add: unat_of_nat take_bit_nat_eq_self)
  have t: "take (length (take 17 p)) (name_array p) = take 17 p" by (simp add: name_array_def Let_def min_def)
  show ?thesis
    using conf(1) ready u t by (simp add: bt_ready_def upd_md_def cmd_mode_def split_beta e l load_target_def emit_def ble_state_update_def ad_name_data_def Let_def)
qed


definition nvram_host :: host where
  "nvram_host = quiet_host\<lparr>h_nvram_get := nv_lookup\<rparr>"

theorem config_survives_reset_witness:
  "\<exists>t x. configured nvram_host ''ZRS42'' \<lparr>addr_type = 0, addr_val = [1, 2, 3, 4, 5, 6]\<rparr> idle_module = Inr t \<and>
    bt_ready nvram_host 0 (system_app_init (outs t)) = Inr x \<and>
    adv_name (md x) = name_array ''ZRS42'' \<and> ad_name_data (md x) = ''ZRS42'' \<and> dev_addr (md x) = \<lparr>addr_type = 0, addr_val = [1, 2, 3, 4, 5, 6]\<rparr> \<and>
    auto_conn (md x) \<and> role (md x)"
proof -
  let ?a = "\<lparr>addr_type = 0, addr_val = [1, 2, 3, 4, 5, 6]\<rparr>"
  have "nvram_keeps nvram_host" by (simp add: nvram_keeps_def nvram_host_def)
  moreover have "at_addr_le_to_str2 ?a = ''06:05:04:03:02:01''" by code_simp
  moreover have "str2bt_addr nvram_host ''06:05:04:03:02:01'' = [1, 2, 3, 4, 5, 6]" unfolding nvram_host_def quiet_host_def by code_simp
  moreover have "role idle_module" by (simp add: idle_module_def)
  ultimately show ?thesis using config_survives_reset [of nvram_host idle_module "''ZRS42''" ?a] by simp
qed

end
