(* ===== verification/Per_Cfg.thy ===== *)
theory Per_Cfg
  imports At_Cmd Types_Encode
begin

unbundle bit_operations_syntax

text \<open>
  The peripheral variant of the serial module (\<^verbatim>\<open>samples/ble_module_per/src/ble_module\<close>): its configuration in the non-volatile memory and the AT
  commands that read and change it (\<^verbatim>\<open>app_cfg.c\<close>), the parser and the dispatcher (\<^verbatim>\<open>at/at_cmd.c\<close>), and advertising (\<^verbatim>\<open>app_ble.c\<close>).
  The definitions whose names the other module uses as well have the prefix \<open>per_\<close>.
\<close>

section \<open>State\<close>

text \<open>What the module does to its surroundings, in order.\<close>

datatype per_call =
  Per_Adv_Stop | Per_Adv_Start bool u16 bytes bytes | Per_Nv_Set string bytes | Per_Uart string | Per_Baud u32 | Per_Reboot
| Per_Disconnect | Per_Pin nat bool | Per_Busy bool | Per_Notify nat bytes | Per_Pwm nat u32 u32 | Per_Partial_Timer bool

datatype per_msg = Per_Conn_Closed | Per_Gpio bool | Per_Adc u8 | Per_Exit_Rssi

text \<open>
  The surroundings: the memory, which may depend on everything done before, the address in the factory region, the signal strength, the text of the
  version, the results of notifications and conversions, and whether the bytes from address zero contain a plus sign before their first zero.
\<close>

record per_host =
  nv_get8 :: "per_call list \<Rightarrow> string \<Rightarrow> u8 option"
  nv_get16 :: "per_call list \<Rightarrow> string \<Rightarrow> u16 option"
  nv_get :: "per_call list \<Rightarrow> string \<Rightarrow> nat \<Rightarrow> bytes option"
  factory_addr :: "string option"
  read_rssi :: "per_call list \<Rightarrow> s8"
  sys_version :: string
  notify_result :: "per_call list \<Rightarrow> s32"
  adc_value :: "per_call list \<Rightarrow> u8 \<Rightarrow> u16"
  null_has_plus :: bool

text \<open>
  The variables of \<^verbatim>\<open>app_ble.c\<close>, \<^verbatim>\<open>app_cfg.c\<close>, \<^verbatim>\<open>app_gpio.c\<close> and \<^verbatim>\<open>wp.c\<close>. The minimal and the maximal intervals are always equal; of a UUID
  only the bytes 13 and 12 change. The thread identifiers are set or not.
\<close>

record per_state =
  p_conn :: bool
  rssi_mode :: u8
  adv_state :: u8
  force_sleep :: bool
  adv_connectable :: bool
  adv_interval :: u16
  adv_name_data :: bytes
  adv_name_len :: u8
  adv_user_data :: bytes
  conn_interval :: u16
  baud_index :: u8
  tx_power_level_index :: u8
  data_srv_uuid :: u16
  tx_char_uuid :: u16
  rx_char_uuid :: u16
  drv_srv_uuid :: u16
  adc_char_uuid :: u16
  pwm_char_uuid :: u16
  app_bt_addr_str :: string
  rts_func_enable :: u8
  gpio_dev :: bool
  pwm_dev :: bool
  rx_ntf_enable :: bool
  drv_adc_ntf_enable :: bool
  at_cmd_thread_id :: bool
  data_thread_id :: bool
  p_msgs :: "per_msg list"
  p_calls :: "per_call list"

definition per_do :: "per_call \<Rightarrow> per_state \<Rightarrow> per_state" where
  "per_do c s = s\<lparr>p_calls := p_calls s @ [c]\<rparr>"

text \<open>A message is dropped when the eight buffers are in use.\<close>

definition per_post :: "per_msg \<Rightarrow> per_state \<Rightarrow> per_state" where
  "per_post m s = (if length (p_msgs s) < 8 then s\<lparr>p_msgs := p_msgs s @ [m]\<rparr> else s)"

abbreviation (input) "BLE_ADV_NAME_DATA_MAX \<equiv> 20 :: nat"
abbreviation (input) "BLE_ADV_USER_DATA_LEN \<equiv> 6 :: nat"
abbreviation (input) "MODULE_CTS_PIN \<equiv> 0 :: nat"
abbreviation (input) "MODULE_NTF_PIN \<equiv> 7 :: nat"
abbreviation (input) "MODULE_FLOW_PIN \<equiv> 9 :: nat"

section \<open>Output\<close>

definition gpio_output_wakeup_host :: "bool \<Rightarrow> per_state \<Rightarrow> per_state" where
  "gpio_output_wakeup_host enable s = (if gpio_dev s then per_do (Per_Pin MODULE_CTS_PIN enable) s else s)"

definition at_cmd_port_print :: "string \<Rightarrow> per_state \<Rightarrow> per_state" where
  "at_cmd_port_print str s = gpio_output_wakeup_host False (per_do (Per_Uart str) (gpio_output_wakeup_host True s))"

definition per_response_ok :: "per_state \<Rightarrow> per_state" where
  "per_response_ok s = at_cmd_port_print (''OK'' @ CRLF) s"

definition per_response_error :: "per_state \<Rightarrow> per_state" where
  "per_response_error s = at_cmd_port_print (''ERROR'' @ CRLF) s"

definition per_response :: "string \<Rightarrow> per_state \<Rightarrow> per_state" where
  "per_response str s = at_cmd_port_print str s"

text \<open>The answer in three pieces that repeats the parameter.\<close>

definition per_echo :: "string \<Rightarrow> string \<Rightarrow> per_state \<Rightarrow> per_state" where
  "per_echo tag p s = per_response CRLF (per_response p (per_response tag s))"

section \<open>Advertising\<close>

abbreviation (input) "ADV_STOP \<equiv> 0 :: u8"
abbreviation (input) "CONN_ADV_START \<equiv> 1 :: u8"
abbreviation (input) "NON_CONN_ADV_START \<equiv> 2 :: u8"

text \<open>The result of starting is only printed.\<close>

definition ble_exec_adv_op :: "u8 \<Rightarrow> per_state \<Rightarrow> per_state" where
  "ble_exec_adv_op st s =
     (let s = per_do Per_Adv_Stop s in
      if st = ADV_STOP then s
      else let s = (if st = CONN_ADV_START then s\<lparr>adv_connectable := True\<rparr> else if st = NON_CONN_ADV_START then s\<lparr>adv_connectable := False\<rparr> else s) in
        per_do (Per_Adv_Start (adv_connectable s) (adv_interval s) (adv_user_data s) (take (unat (adv_name_len s)) (adv_name_data s))) s)"

section \<open>Configuration\<close>

definition adv_interval_array :: "u16 list" where
  "adv_interval_array = [20, 50, 100, 200, 300, 500, 1000, 2000]"

definition conn_interval_array :: "u16 list" where
  "conn_interval_array = [20, 30, 50, 100, 200, 300, 500, 1000, 2000]"

definition uart_baudrate :: "u32 list" where
  "uart_baudrate = [9600, 19200, 38400, 57600, 115200]"

definition uart_baudrate_set :: "u32 \<Rightarrow> per_state \<Rightarrow> per_state" where
  "uart_baudrate_set baudrate s = (let d = 16000000 div baudrate in per_do (Per_Baud (push_bit 16 d OR d)) s)"

definition load_uuid_cfg_from_nv :: "per_host \<Rightarrow> string \<Rightarrow> u16 \<Rightarrow> per_state \<Rightarrow> u16" where
  "load_uuid_cfg_from_nv h name uuid s = (case nv_get16 h (p_calls s) name of Some v \<Rightarrow> v | None \<Rightarrow> uuid)"

definition load8 :: "per_host \<Rightarrow> string \<Rightarrow> u8 \<Rightarrow> per_state \<Rightarrow> u8" where
  "load8 h name old s = (case nv_get8 h (p_calls s) name of Some v \<Rightarrow> v | None \<Rightarrow> old)"

definition load16 :: "per_host \<Rightarrow> string \<Rightarrow> u16 \<Rightarrow> per_state \<Rightarrow> u16" where
  "load16 h name old s = (case nv_get16 h (p_calls s) name of Some v \<Rightarrow> v | None \<Rightarrow> old)"

definition load_name :: "per_host \<Rightarrow> per_state \<Rightarrow> per_state res" where
  "load_name h s = (case nv_get h (p_calls s) ''ADV_NAME'' (BLE_ADV_NAME_DATA_MAX + 1) of
     None \<Rightarrow> Inr s
   | Some param \<Rightarrow>
       rbind (arr_get param BLE_ADV_NAME_DATA_MAX) (\<lambda>n.
       let n = (if n > of_nat BLE_ADV_NAME_DATA_MAX then of_nat BLE_ADV_NAME_DATA_MAX else n) in
       rbind (arr_set (adv_name_data s) BLE_ADV_NAME_DATA_MAX n) (\<lambda>d.
       rbind (mem_cpy d 0 param (unat n)) (\<lambda>d.
       Inr (s\<lparr>adv_name_data := d, adv_name_len := n\<rparr>)))))"

definition load_app_cfg_from_nv :: "per_host \<Rightarrow> per_state \<Rightarrow> per_state res" where
  "load_app_cfg_from_nv h s =
     (let s = s\<lparr>app_bt_addr_str := (case factory_addr h of Some a \<Rightarrow> a | None \<Rightarrow> app_bt_addr_str s)\<rparr>;
          s = s\<lparr>adv_state := load8 h ''ADV_STATE'' (adv_state s) s\<rparr>;
          s = s\<lparr>adv_interval := load16 h ''ADV_INTERVAL'' (adv_interval s) s\<rparr> in
      rbind (load_name h s) (\<lambda>s.
      let s = s\<lparr>baud_index := load8 h ''UART_BAUDRATE'' (baud_index s) s\<rparr> in
      rbind (arr_get uart_baudrate (unat (baud_index s))) (\<lambda>b.
      let s = uart_baudrate_set b s;
          s = s\<lparr>conn_interval := load16 h ''CONN_INTERVAL'' (conn_interval s) s\<rparr> in
      rbind (case nv_get h (p_calls s) ''ADV_USER_DATA'' BLE_ADV_USER_DATA_LEN of
               None \<Rightarrow> Inr s
             | Some param \<Rightarrow> rbind (mem_cpy (adv_user_data s) 0 param BLE_ADV_USER_DATA_LEN) (\<lambda>d. Inr (s\<lparr>adv_user_data := d\<rparr>))) (\<lambda>s.
      let s = s\<lparr>data_srv_uuid := load_uuid_cfg_from_nv h ''DATA_SRV_UUID'' (data_srv_uuid s) s\<rparr>;
          s = s\<lparr>tx_char_uuid := load_uuid_cfg_from_nv h ''TX_UUID'' (tx_char_uuid s) s\<rparr>;
          s = s\<lparr>rx_char_uuid := load_uuid_cfg_from_nv h ''RX_UUID'' (rx_char_uuid s) s\<rparr>;
          s = s\<lparr>drv_srv_uuid := load_uuid_cfg_from_nv h ''DRV_SRV_UUID'' (drv_srv_uuid s) s\<rparr>;
          s = s\<lparr>adc_char_uuid := load_uuid_cfg_from_nv h ''ADC_UUID'' (adc_char_uuid s) s\<rparr>;
          s = s\<lparr>pwm_char_uuid := load_uuid_cfg_from_nv h ''PWM_UUID'' (pwm_char_uuid s) s\<rparr>;
          s = s\<lparr>rssi_mode := load8 h ''RSSI_MODE'' (rssi_mode s) s\<rparr> in
      Inr (s\<lparr>rts_func_enable := load8 h ''RTS'' (rts_func_enable s) s\<rparr>)))))"

text \<open>The transmission power, which the radio driver loads before the application starts (\<^verbatim>\<open>drivers/llcc.c\<close>).\<close>

definition load_tx_power :: "per_host \<Rightarrow> per_state \<Rightarrow> per_state" where
  "load_tx_power h s = s\<lparr>tx_power_level_index := load8 h ''TX_POWER'' (tx_power_level_index s) s\<rparr>"

definition nv_set8 :: "string \<Rightarrow> u8 \<Rightarrow> per_state \<Rightarrow> per_state" where
  "nv_set8 name v s = per_do (Per_Nv_Set name [v]) s"

definition nv_set16 :: "string \<Rightarrow> u16 \<Rightarrow> per_state \<Rightarrow> per_state" where
  "nv_set16 name v s = per_do (Per_Nv_Set name (u16_encode v)) s"

definition BLE_ADV_NAME_DATA_DEF :: bytes where
  "BLE_ADV_NAME_DATA_DEF = str_bytes ''CMBLE-1103'' @ replicate 11 0"

definition BLE_ADV_USER_DATA_DEF :: bytes where
  "BLE_ADV_USER_DATA_DEF = [0x11, 0x22, 0x33, 0x44, 0x55, 0x66]"

definition set_app_cfg_to_default :: "per_state \<Rightarrow> per_state" where
  "set_app_cfg_to_default s =
     (let s = nv_set8 ''ADV_STATE'' 1 s;
          s = nv_set16 ''ADV_INTERVAL'' 0x0140 s;
          s = per_do (Per_Nv_Set ''ADV_NAME'' (BLE_ADV_NAME_DATA_DEF[BLE_ADV_NAME_DATA_MAX := 10])) s;
          s = nv_set8 ''UART_BAUDRATE'' 0 s;
          s = nv_set16 ''CONN_INTERVAL'' 0x10 s;
          s = nv_set8 ''TX_POWER'' 1 s;
          s = per_do (Per_Nv_Set ''ADV_USER_DATA'' BLE_ADV_USER_DATA_DEF) s;
          s = nv_set16 ''DATA_SRV_UUID'' 1 s;
          s = nv_set16 ''TX_UUID'' 2 s;
          s = nv_set16 ''RX_UUID'' 3 s;
          s = nv_set16 ''DRV_SRV_UUID'' 4 s;
          s = nv_set16 ''ADC_UUID'' 5 s;
          s = nv_set16 ''PWM_UUID'' 6 s;
          s = nv_set8 ''RSSI_MODE'' 0 s
      in nv_set8 ''RTS'' 1 s)"

section \<open>Commands\<close>

text \<open>\<open>atoi\<close> into a byte: a number that does not fit an \<open>int\<close> is undefined.\<close>

definition atoi_u8 :: "string \<Rightarrow> u8 res" where
  "atoi_u8 p = (let v = atoi p in if - (2 ^ 31) \<le> v \<and> v < 2 ^ 31 then Inr (word_of_int v) else Inl Num_Overflow)"

text \<open>\<open>strtoul\<close> with base 16 of a string of hexadecimal digits, truncated to 16 bits; it saturates.\<close>

definition hex_value :: "char \<Rightarrow> nat" where
  "hex_value c = (let n = of_char c in if n \<le> 57 then n - 48 else if n \<le> 70 then n - 55 else n - 87)"

definition strtoul_u16 :: "string \<Rightarrow> u16" where
  "strtoul_u16 p = of_nat (min (foldl (\<lambda>v c. 16 * v + hex_value c) 0 p) (2 ^ 32 - 1))"

text \<open>\<open>%02x\<close>.\<close>

definition hex_low :: "u8 \<Rightarrow> char" where
  "hex_low d = char_of (if d < 10 then unat d + 48 else unat d + 87)"

definition hex_byte_low :: "u8 \<Rightarrow> string" where
  "hex_byte_low b = [hex_low (drop_bit 4 b), hex_low (b AND 0x0F)]"

definition hex_u16 :: "u16 \<Rightarrow> string" where
  "hex_u16 v = hex_byte_low (ucast (drop_bit 8 v)) @ hex_byte_low (ucast v)"

text \<open>\<open>%d\<close>.\<close>

definition int_str :: "int \<Rightarrow> string" where
  "int_str n = (if n < 0 then CHR ''-'' # nat_str (nat (- n)) else nat_str (nat n))"

definition per_reset :: "per_state \<Rightarrow> per_state" where
  "per_reset s = per_do Per_Reboot (per_response (''OK+STRS'' @ CRLF) (set_app_cfg_to_default s))"

definition per_adv_set :: "string \<Rightarrow> per_state \<Rightarrow> per_state res" where
  "per_adv_set p s = rbind (atoi_u8 p) (\<lambda>st. Inr (
     if \<not> is_decimal_string p then per_response_error s
     else if st = ADV_STOP \<or> st = CONN_ADV_START \<or> st = NON_CONN_ADV_START
     then per_echo ''OK+ADST-'' p (nv_set8 ''ADV_STATE'' st ((ble_exec_adv_op st s)\<lparr>adv_state := st\<rparr>))
     else per_response_error s))"

definition per_adv_get :: "per_state \<Rightarrow> per_state" where
  "per_adv_get s = per_response (''OK+ADST-'' @ nat_str (unat (adv_state s)) @ CRLF) s"

definition per_adv_interval_set :: "string \<Rightarrow> per_state \<Rightarrow> per_state res" where
  "per_adv_interval_set p s = rbind (atoi_u8 p) (\<lambda>i.
     if \<not> is_decimal_string p \<or> i > 7 then Inr (per_response_error s)
     else rbind (arr_get adv_interval_array (unat i)) (\<lambda>ms.
       let interval = of_nat (unat ms * 1000 div 625);
           s = nv_set16 ''ADV_INTERVAL'' interval (s\<lparr>adv_interval := interval\<rparr>) in
       Inr (per_echo ''OK+ADIT-'' p (ble_exec_adv_op (adv_state s) s))))"

text \<open>The position of a value, or the length of the table.\<close>

definition table_index :: "u16 list \<Rightarrow> u16 \<Rightarrow> nat" where
  "table_index tab v = length (takeWhile (\<lambda>x. x \<noteq> v) tab)"

definition per_adv_interval_get :: "per_state \<Rightarrow> per_state" where
  "per_adv_interval_get s =
     (let interval = of_nat (unat (adv_interval s) * 625 div 1000) in
      per_response (''OK+ADIT-'' @ nat_str (table_index adv_interval_array interval) @ CRLF) s)"

definition per_adv_name_set :: "string \<Rightarrow> per_state \<Rightarrow> per_state res" where
  "per_adv_name_set p s =
     (let cp_len = min (length p) BLE_ADV_NAME_DATA_MAX in
      rbind (mem_cpy (adv_name_data s) 0 (str_bytes p) cp_len) (\<lambda>d.
      rbind (arr_set d BLE_ADV_NAME_DATA_MAX (of_nat cp_len)) (\<lambda>d.
      let s = per_do (Per_Nv_Set ''ADV_NAME'' d) (s\<lparr>adv_name_data := d, adv_name_len := of_nat cp_len\<rparr>) in
      Inr (per_response (''OK+NAME'' @ CRLF) (ble_exec_adv_op (adv_state s) s)))))"

definition per_baudrate_set :: "string \<Rightarrow> per_state \<Rightarrow> per_state res" where
  "per_baudrate_set p s = rbind (atoi_u8 p) (\<lambda>i.
     if \<not> is_decimal_string p \<or> i > 4 then Inr (per_response_error s)
     else rbind (arr_get uart_baudrate (unat i)) (\<lambda>b.
       Inr (uart_baudrate_set b (per_echo ''OK+BAUD-'' p (nv_set8 ''UART_BAUDRATE'' i (s\<lparr>baud_index := i\<rparr>))))))"

definition per_baudrate_get :: "per_state \<Rightarrow> per_state" where
  "per_baudrate_get s = per_response (''OK+BAUD-'' @ nat_str (unat (baud_index s)) @ CRLF) s"

definition per_conn_interval_set :: "string \<Rightarrow> per_state \<Rightarrow> per_state res" where
  "per_conn_interval_set p s = rbind (atoi_u8 p) (\<lambda>i.
     if \<not> is_decimal_string p \<or> i > 8 then Inr (per_response_error s)
     else rbind (arr_get conn_interval_array (unat i)) (\<lambda>ms.
       let interval = of_nat (unat ms * 100 div 125) in
       Inr (per_echo ''OK+CNIT-'' p (nv_set16 ''CONN_INTERVAL'' interval (s\<lparr>conn_interval := interval\<rparr>)))))"

definition per_conn_interval_get :: "per_state \<Rightarrow> per_state" where
  "per_conn_interval_get s =
     (let interval = of_nat (unat (conn_interval s) * 125 div 100) in
      per_response (''OK+CNIT-'' @ nat_str (table_index conn_interval_array interval) @ CRLF) s)"

definition per_tx_power_set :: "string \<Rightarrow> per_state \<Rightarrow> per_state res" where
  "per_tx_power_set p s = rbind (atoi_u8 p) (\<lambda>i. Inr (
     if \<not> is_decimal_string p \<or> i > 7 then per_response_error s
     else per_do Per_Reboot (per_echo ''OK+TXPW-'' p (nv_set8 ''TX_POWER'' i (s\<lparr>tx_power_level_index := i\<rparr>)))))"

definition per_tx_power_get :: "per_state \<Rightarrow> per_state" where
  "per_tx_power_get s = per_response (''OK+TXPW-'' @ nat_str (unat (tx_power_level_index s)) @ CRLF) s"

definition per_bt_addr :: "per_state \<Rightarrow> per_state" where
  "per_bt_addr s = per_response CRLF (per_response (app_bt_addr_str s) s)"

text \<open>\<open>char2hex\<close> leaves its result as it is for another character; the result is then used uninitialised.\<close>

definition char2hex :: "char \<Rightarrow> u8 res" where
  "char2hex c = (if is_hex_digit c then Inr (of_nat (hex_value c)) else Inl Uninit_Read)"

fun user_data_loop :: "string \<Rightarrow> nat \<Rightarrow> bytes \<Rightarrow> bytes res" where
  "user_data_loop (a # b # p) j d = rbind (char2hex a) (\<lambda>x. rbind (char2hex b) (\<lambda>y. rbind (arr_set d j (push_bit 4 x + y)) (user_data_loop p (j + 1))))"
| "user_data_loop p j d = Inr d"

definition per_adv_data_set :: "string \<Rightarrow> per_state \<Rightarrow> per_state res" where
  "per_adv_data_set p s =
     rbind (user_data_loop (take (2 * BLE_ADV_USER_DATA_LEN) p) 0 (replicate BLE_ADV_USER_DATA_LEN 0)) (\<lambda>d.
     let s = per_do (Per_Nv_Set ''ADV_USER_DATA'' d) (s\<lparr>adv_user_data := d\<rparr>) in
     Inr (per_response (''OK+MAFD'' @ CRLF) (ble_exec_adv_op (adv_state s) s)))"

definition per_adv_data_get :: "per_state \<Rightarrow> per_state" where
  "per_adv_data_get s = per_response (concat (map (\<lambda>i. hex_byte_low (adv_user_data s ! i)) [5, 4, 3, 2, 1, 0]) @ CRLF) s"

definition at_cmd_data_srv_uuid_set :: "string \<Rightarrow> per_state \<Rightarrow> per_state" where
  "at_cmd_data_srv_uuid_set p s =
     (if \<not> is_hex_string p then per_response_error s
      else let v = strtoul_u16 p in per_response (''OK+SERN'' @ CRLF) (nv_set16 ''DATA_SRV_UUID'' v (s\<lparr>data_srv_uuid := v\<rparr>)))"

definition at_cmd_data_srv_uuid_get :: "per_state \<Rightarrow> per_state" where
  "at_cmd_data_srv_uuid_get s = per_response (''OK+SERN-'' @ hex_u16 (data_srv_uuid s) @ CRLF) s"

definition at_cmd_drv_srv_uuid_set :: "string \<Rightarrow> per_state \<Rightarrow> per_state" where
  "at_cmd_drv_srv_uuid_set p s =
     (if \<not> is_hex_string p then per_response_error s
      else let v = strtoul_u16 p in per_response (''OK+SERD'' @ CRLF) (nv_set16 ''DRV_SRV_UUID'' v (s\<lparr>drv_srv_uuid := v\<rparr>)))"

definition at_cmd_drv_srv_uuid_get :: "per_state \<Rightarrow> per_state" where
  "at_cmd_drv_srv_uuid_get s = per_response (''OK+SERD-'' @ hex_u16 (drv_srv_uuid s) @ CRLF) s"

definition at_cmd_data_tx_char_uuid_set :: "string \<Rightarrow> per_state \<Rightarrow> per_state" where
  "at_cmd_data_tx_char_uuid_set p s =
     (if \<not> is_hex_string p then per_response_error s
      else let v = strtoul_u16 p in per_response (''OK+CHAT'' @ CRLF) (nv_set16 ''TX_UUID'' v (s\<lparr>tx_char_uuid := v\<rparr>)))"

definition at_cmd_data_tx_char_uuid_get :: "per_state \<Rightarrow> per_state" where
  "at_cmd_data_tx_char_uuid_get s = per_response (''OK+CHAT-'' @ hex_u16 (tx_char_uuid s) @ CRLF) s"

definition at_cmd_data_rx_char_uuid_set :: "string \<Rightarrow> per_state \<Rightarrow> per_state" where
  "at_cmd_data_rx_char_uuid_set p s =
     (if \<not> is_hex_string p then per_response_error s
      else let v = strtoul_u16 p in per_response (''OK+CHAR'' @ CRLF) (nv_set16 ''RX_UUID'' v (s\<lparr>rx_char_uuid := v\<rparr>)))"

definition at_cmd_data_rx_char_uuid_get :: "per_state \<Rightarrow> per_state" where
  "at_cmd_data_rx_char_uuid_get s = per_response (''OK+CHAR-'' @ hex_u16 (rx_char_uuid s) @ CRLF) s"

text \<open>The UUID of the analog characteristic is also stored as that of the service, but only in the variable.\<close>

definition at_cmd_drv_adc_char_uuid_set :: "string \<Rightarrow> per_state \<Rightarrow> per_state" where
  "at_cmd_drv_adc_char_uuid_set p s =
     (if \<not> is_hex_string p then per_response_error s
      else let v = strtoul_u16 p in per_response (''OK+CHAD'' @ CRLF) (nv_set16 ''ADC_UUID'' v (s\<lparr>adc_char_uuid := v, drv_srv_uuid := v\<rparr>)))"

definition at_cmd_drv_adc_char_uuid_get :: "per_state \<Rightarrow> per_state" where
  "at_cmd_drv_adc_char_uuid_get s = per_response (''OK+CHAD-'' @ hex_u16 (adc_char_uuid s) @ CRLF) s"

definition at_cmd_drv_pwm_char_uuid_set :: "string \<Rightarrow> per_state \<Rightarrow> per_state" where
  "at_cmd_drv_pwm_char_uuid_set p s =
     (if \<not> is_hex_string p then per_response_error s
      else let v = strtoul_u16 p in per_response (''OK+CHAP'' @ CRLF) (nv_set16 ''PWM_UUID'' v (s\<lparr>pwm_char_uuid := v\<rparr>)))"

definition at_cmd_drv_pwm_char_uuid_get :: "per_state \<Rightarrow> per_state" where
  "at_cmd_drv_pwm_char_uuid_get s = per_response (''OK+CHAP-'' @ hex_u16 (pwm_char_uuid s) @ CRLF) s"

definition per_ver_info :: "per_host \<Rightarrow> per_state \<Rightarrow> per_state" where
  "per_ver_info h s = per_response CRLF (per_response (sys_version h) (per_response ''OK+CODV-'' s))"

text \<open>The signal strength of the connection, or zero without one.\<close>

definition rssi_now :: "per_host \<Rightarrow> per_state \<Rightarrow> s8" where
  "rssi_now h s = (if p_conn s then read_rssi h (p_calls s) else 0)"

definition rssi_answer :: "s8 \<Rightarrow> per_state \<Rightarrow> per_state" where
  "rssi_answer r s = per_response (''OK+RSSI-'' @ int_str (sint r) @ CRLF) s"

definition per_rssi_set :: "per_host \<Rightarrow> string \<Rightarrow> per_state \<Rightarrow> per_state res" where
  "per_rssi_set h p s = rbind (atoi_u8 p) (\<lambda>param. Inr (
     if \<not> is_decimal_string p then per_response_error s
     else if param = 0 then rssi_answer 0 (per_post Per_Exit_Rssi (nv_set8 ''RSSI_MODE'' 0 (s\<lparr>rssi_mode := 0\<rparr>)))
     else if param = 1 then rssi_answer 1 (nv_set8 ''RSSI_MODE'' 1 (s\<lparr>rssi_mode := 1\<rparr>))
     else if param = 2 then rssi_answer (rssi_now h s) s
     else per_response_error s))"

definition per_rssi_get :: "per_host \<Rightarrow> per_state \<Rightarrow> per_state" where
  "per_rssi_get h s = rssi_answer (rssi_now h s) s"

definition per_rts_func_set :: "string \<Rightarrow> per_state \<Rightarrow> per_state res" where
  "per_rts_func_set p s = rbind (atoi_u8 p) (\<lambda>enable. Inr (
     if \<not> is_decimal_string p then per_response_error s
     else let v = of_bool (enable \<noteq> 0) in per_echo ''OK+CRTS-'' p (nv_set8 ''RTS'' v (s\<lparr>rts_func_enable := v\<rparr>))))"

definition per_rts_func_get :: "per_state \<Rightarrow> per_state" where
  "per_rts_func_get s = per_response (''OK+CRTS-'' @ nat_str (unat (rts_func_enable s)) @ CRLF) s"

section \<open>Parser and dispatcher\<close>

definition skip_spaces :: "string \<Rightarrow> string" where
  "skip_spaces str = dropWhile (\<lambda>c. c = CHR '' '') str"

text \<open>\<open>strchr\<close>: what is before the character, and what follows it.\<close>

fun cut_at :: "char \<Rightarrow> string \<Rightarrow> (string \<times> string) option" where
  "cut_at x [] = None"
| "cut_at x (c # cs) = (if c = x then Some ([], cs) else map_option (\<lambda>(a, b). (c # a, b)) (cut_at x cs))"

text \<open>
  The inner loop, from an argument on: the arguments, and whether the pointer is null afterwards. The second case of the loop's end is the
  \<open>break\<close> at the end of the line.
\<close>

function args_dash :: "string \<Rightarrow> string list \<times> bool" where
  "args_dash str = (case cut_at (CHR ''-'') str of
     None \<Rightarrow> ([str], True)
   | Some (a, r) \<Rightarrow> (let r = skip_spaces r in if r = [] then ([a], False) else case args_dash r of (as, null) \<Rightarrow> (a # as, null)))"
  by pat_completeness auto
termination
proof (relation "measure length")
  fix str a r and x :: "string \<times> string" and ra :: string
  assume "cut_at (CHR ''-'') str = Some x" "(a, r) = x" "ra = skip_spaces r"
  moreover have "cut_at c str = Some (a, r) \<Longrightarrow> length r < length str" for c a r
    by (induction str arbitrary: a r) (fastforce split: if_splits)+
  moreover have "length (skip_spaces r) \<le> length r" by (simp add: skip_spaces_def length_dropWhile_le)
  ultimately show "(ra, str) \<in> measure length" by fastforce
qed simp

declare args_dash.simps [simp del]

abbreviation (input) "ARGC_MAX \<equiv> 10 :: nat"

text \<open>
  After the inner loop the outer one searches a plus sign from the pointer it left. With a null pointer that reads the memory from address zero; a plus sign found
  there would be overwritten. At the end of the line there is none.
\<close>

definition per_line2argv :: "per_host \<Rightarrow> string \<Rightarrow> string list res" where
  "per_line2argv h str =
     (let str = skip_spaces str in
      if str = [] then Inr []
      else case cut_at (CHR ''+'') str of
        None \<Rightarrow> Inr [str]
      | Some (a, r) \<Rightarrow>
          (let r = skip_spaces r in
           if r = [] then Inr [a]
           else case args_dash r of (as, null) \<Rightarrow>
             if ARGC_MAX \<le> length as then Inr []
             else if null \<and> null_has_plus h then Inl Null_Deref else Inr (a # as)))"

record at_cmd_entry =
  set_fun :: "(string \<Rightarrow> per_state \<Rightarrow> per_state res) option"
  get_fun :: "(per_state \<Rightarrow> per_state) option"
  exec_fun :: "(per_state \<Rightarrow> per_state) option"

definition set_get :: "(string \<Rightarrow> per_state \<Rightarrow> per_state res) \<Rightarrow> (per_state \<Rightarrow> per_state) \<Rightarrow> at_cmd_entry" where
  "set_get f g = \<lparr>set_fun = Some f, get_fun = Some g, exec_fun = None\<rparr>"

definition exec_only :: "(per_state \<Rightarrow> per_state) \<Rightarrow> at_cmd_entry" where
  "exec_only f = \<lparr>set_fun = None, get_fun = None, exec_fun = Some f\<rparr>"

definition total :: "(string \<Rightarrow> per_state \<Rightarrow> per_state) \<Rightarrow> string \<Rightarrow> per_state \<Rightarrow> per_state res" where
  "total f p s = Inr (f p s)"

definition per_commands :: "per_host \<Rightarrow> (string \<times> at_cmd_entry) list" where
  "per_commands h =
     [(''STRS'', exec_only per_reset), (''ADST'', set_get per_adv_set per_adv_get), (''ADIT'', set_get per_adv_interval_set per_adv_interval_get),
      (''NAME'', \<lparr>set_fun = Some per_adv_name_set, get_fun = None, exec_fun = None\<rparr>), (''BAUD'', set_get per_baudrate_set per_baudrate_get),
      (''CNIT'', set_get per_conn_interval_set per_conn_interval_get), (''TXPW'', set_get per_tx_power_set per_tx_power_get),
      (''GMAC'', exec_only per_bt_addr), (''MAFD'', set_get per_adv_data_set per_adv_data_get),
      (''SERN'', set_get (total at_cmd_data_srv_uuid_set) at_cmd_data_srv_uuid_get), (''SERD'', set_get (total at_cmd_drv_srv_uuid_set) at_cmd_drv_srv_uuid_get),
      (''CHAT'', set_get (total at_cmd_data_tx_char_uuid_set) at_cmd_data_tx_char_uuid_get),
      (''CHAR'', set_get (total at_cmd_data_rx_char_uuid_set) at_cmd_data_rx_char_uuid_get),
      (''CHAD'', set_get (total at_cmd_drv_adc_char_uuid_set) at_cmd_drv_adc_char_uuid_get),
      (''CHAP'', set_get (total at_cmd_drv_pwm_char_uuid_set) at_cmd_drv_pwm_char_uuid_get),
      (''CODV'', exec_only (per_ver_info h)), (''RSSI'', set_get (per_rssi_set h) (per_rssi_get h)), (''CRTS'', set_get per_rts_func_set per_rts_func_get)]"

definition or_err :: "('a \<Rightarrow> per_state \<Rightarrow> per_state res) \<Rightarrow> 'a option \<Rightarrow> per_state \<Rightarrow> per_state res" where
  "or_err f x s = (case x of Some y \<Rightarrow> f y s | None \<Rightarrow> Inr (per_response_error s))"

text \<open>With more than one parameter the command does nothing and answers nothing.\<close>

definition per_exec_cb :: "per_host \<Rightarrow> string list \<Rightarrow> per_state \<Rightarrow> per_state res" where
  "per_exec_cb h av s = (case av of
     [] \<Rightarrow> Inr (per_response_error s)
   | first # rest \<Rightarrow>
       if first \<noteq> ''AT'' then Inr (per_response_error s)
       else (case rest of
         [] \<Rightarrow> Inr (per_response_ok s)
       | command # ps \<Rightarrow> (case map_of (per_commands h) command of
           None \<Rightarrow> Inr (per_response_error s)
         | Some e \<Rightarrow> (case ps of
             [] \<Rightarrow> or_err (\<lambda>f s. Inr (f s)) (exec_fun e) s
           | [param] \<Rightarrow> if take 1 param = ''?'' then or_err (\<lambda>f s. Inr (f s)) (get_fun e) s else or_err (\<lambda>f s. f param s) (set_fun e) s
           | _ \<Rightarrow> Inr s))))"

definition per_cmd_exec :: "per_host \<Rightarrow> string \<Rightarrow> per_state \<Rightarrow> per_state res" where
  "per_cmd_exec h line s = rbind (per_line2argv h line) (\<lambda>av. if av = [] then Inr s else per_exec_cb h av s)"

section \<open>The stored configuration\<close>

text \<open>What the memory holds after a list of calls, and a memory that returns it.\<close>

definition nv_step :: "per_call \<Rightarrow> (string \<Rightarrow> bytes option) \<Rightarrow> string \<Rightarrow> bytes option" where
  "nv_step c m = (case c of Per_Nv_Set k b \<Rightarrow> m(k \<mapsto> b) | _ \<Rightarrow> m)"

definition nv_calls :: "per_call list \<Rightarrow> string \<Rightarrow> bytes option" where
  "nv_calls cs = fold nv_step cs (\<lambda>_. None)"

lemma nv_calls_append [simp]: "nv_calls (cs @ ds) = fold nv_step ds (nv_calls cs)"
  by (simp add: nv_calls_def)

lemma nv_step_simps [simp]: "nv_step (Per_Nv_Set k b) m = m(k \<mapsto> b)" "nv_step Per_Adv_Stop m = m" "nv_step (Per_Adv_Start x1 x2 x3 x4) m = m"
  "nv_step (Per_Uart x5) m = m" "nv_step (Per_Baud x6) m = m" "nv_step Per_Reboot m = m" "nv_step Per_Disconnect m = m" "nv_step (Per_Pin x7 x8) m = m"
  "nv_step (Per_Busy x9) m = m" "nv_step (Per_Notify y1 y2) m = m" "nv_step (Per_Pwm y3 y4 y5) m = m" "nv_step (Per_Partial_Timer y6) m = m"
  by (simp_all add: nv_step_def)

fun byte_of :: "bytes option \<Rightarrow> u8 option" where
  "byte_of (Some [b]) = Some b"
| "byte_of _ = None"

fun word_of :: "bytes option \<Rightarrow> u16 option" where
  "word_of (Some [lo, hi]) = Some (ucast lo OR push_bit 8 (ucast hi))"
| "word_of _ = None"

definition nv_keeps :: "per_host \<Rightarrow> bool" where
  "nv_keeps h \<longleftrightarrow> (\<forall>cs k n. nv_get8 h cs k = byte_of (nv_calls cs k) \<and> nv_get16 h cs k = word_of (nv_calls cs k) \<and>
     nv_get h cs k n = (case nv_calls cs k of Some b \<Rightarrow> if length b = n then Some b else None | None \<Rightarrow> None))"

lemma word_of_encode [simp]: "word_of (Some (u16_encode v)) = Some v"
proof -
  obtain lo hi where e: "u16_encode v = [lo, hi]" by (simp add: u16_encode_def)
  have "ucast lo OR push_bit 8 (ucast hi) = v" using u16_encode_inj [of v "ucast lo OR push_bit 8 (ucast hi)"] e by simp
  then show ?thesis using e by simp
qed

text \<open>The variables before anything is loaded. The names of the two data characteristics are exchanged in their initial values.\<close>

definition per_fresh :: "per_call list \<Rightarrow> per_state" where
  "per_fresh cs = \<lparr>p_conn = False, rssi_mode = 0, adv_state = 1, force_sleep = False, adv_connectable = True, adv_interval = 0x0140,
     adv_name_data = BLE_ADV_NAME_DATA_DEF, adv_name_len = 10, adv_user_data = BLE_ADV_USER_DATA_DEF, conn_interval = 0x10, baud_index = 0,
     tx_power_level_index = 1, data_srv_uuid = 1, tx_char_uuid = 3, rx_char_uuid = 2, drv_srv_uuid = 4, adc_char_uuid = 5, pwm_char_uuid = 6,
     app_bt_addr_str = ''11:22:33:44:55:66'', rts_func_enable = 1, gpio_dev = True, pwm_dev = True, rx_ntf_enable = False, drv_adc_ntf_enable = False,
     at_cmd_thread_id = False, data_thread_id = False, p_msgs = [], p_calls = cs\<rparr>"

text \<open>A value of the memory, or the default if there is none.\<close>

definition nv_or :: "per_state \<Rightarrow> string \<Rightarrow> bytes \<Rightarrow> bytes" where
  "nv_or s k d = (case nv_calls (p_calls s) k of Some b \<Rightarrow> b | None \<Rightarrow> d)"

definition name_saved :: "per_state \<Rightarrow> bool" where
  "name_saved s \<longleftrightarrow> (nv_calls (p_calls s) ''ADV_NAME'' = None \<longrightarrow> adv_name_len s = 10 \<and> take 10 (adv_name_data s) = take 10 BLE_ADV_NAME_DATA_DEF) \<and>
     (\<forall>b. nv_calls (p_calls s) ''ADV_NAME'' = Some b \<longrightarrow>
        length b = 21 \<and> b ! 20 = adv_name_len s \<and> take (unat (adv_name_len s)) b = take (unat (adv_name_len s)) (adv_name_data s))"

text \<open>
  The other parameters: the key, the initial value and the value. The memory agrees with the variables if it holds the value of each parameter, or nothing
  when the value is the initial one; the UUID of the driver service is apart.
\<close>

definition cfg_of :: "per_state \<Rightarrow> (string \<times> bytes \<times> bytes) list" where
  "cfg_of s = [(''ADV_STATE'', [1], [adv_state s]), (''ADV_INTERVAL'', u16_encode 0x0140, u16_encode (adv_interval s)), (''UART_BAUDRATE'', [0], [baud_index s]),
     (''CONN_INTERVAL'', u16_encode 0x10, u16_encode (conn_interval s)), (''TX_POWER'', [1], [tx_power_level_index s]),
     (''ADV_USER_DATA'', BLE_ADV_USER_DATA_DEF, adv_user_data s), (''DATA_SRV_UUID'', u16_encode 1, u16_encode (data_srv_uuid s)),
     (''TX_UUID'', u16_encode 3, u16_encode (tx_char_uuid s)), (''RX_UUID'', u16_encode 2, u16_encode (rx_char_uuid s)),
     (''ADC_UUID'', u16_encode 5, u16_encode (adc_char_uuid s)), (''PWM_UUID'', u16_encode 6, u16_encode (pwm_char_uuid s)),
     (''RSSI_MODE'', [0], [rssi_mode s]), (''RTS'', [1], [rts_func_enable s])]"

definition cfg_saved :: "per_state \<Rightarrow> bool" where
  "cfg_saved s \<longleftrightarrow> (\<forall>(k, d, b)\<in>set (cfg_of s). nv_or s k d = b) \<and> name_saved s"

definition drv_saved :: "per_state \<Rightarrow> bool" where
  "drv_saved s \<longleftrightarrow> nv_or s ''DRV_SRV_UUID'' (u16_encode 4) = u16_encode (drv_srv_uuid s)"

definition per_ok :: "per_state \<Rightarrow> bool" where
  "per_ok s \<longleftrightarrow> length (adv_name_data s) = 21 \<and> adv_name_len s \<le> 20 \<and> length (adv_user_data s) = 6 \<and> unat (baud_index s) < 5"

lemmas saved_defs = cfg_saved_def drv_saved_def name_saved_def nv_or_def

text \<open>Output and advertising change nothing that is stored.\<close>

lemma kept_cong:
  assumes "nv_calls (p_calls t) = nv_calls (p_calls s)" "cfg_of t = cfg_of s" "adv_name_len t = adv_name_len s" "adv_name_data t = adv_name_data s" "drv_srv_uuid t = drv_srv_uuid s"
  shows "cfg_saved t = cfg_saved s" "drv_saved t = drv_saved s"
  using assms by (simp_all add: saved_defs)

lemma kept_frame [simp]:
  "cfg_saved (s\<lparr>adv_connectable := x\<rparr>) = cfg_saved s" "drv_saved (s\<lparr>adv_connectable := x\<rparr>) = drv_saved s"
  "cfg_saved (s\<lparr>p_msgs := y\<rparr>) = cfg_saved s" "drv_saved (s\<lparr>p_msgs := y\<rparr>) = drv_saved s"
  by (rule kept_cong; simp add: cfg_of_def)+

lemma ok_frame [simp]: "per_ok (s\<lparr>adv_connectable := x\<rparr>) = per_ok s" "per_ok (s\<lparr>p_msgs := y\<rparr>) = per_ok s" "per_ok (per_do c s) = per_ok s"
  by (simp_all add: per_ok_def per_do_def)

lemma kept_do [simp]:
  assumes "\<And>k b. c \<noteq> Per_Nv_Set k b"
  shows "cfg_saved (per_do c s) = cfg_saved s" "drv_saved (per_do c s) = drv_saved s"
proof -
  have "nv_calls (p_calls (per_do c s)) = nv_calls (p_calls s)" using assms by (cases c) (auto simp: per_do_def)
  then show "cfg_saved (per_do c s) = cfg_saved s" "drv_saved (per_do c s) = drv_saved s" by (rule kept_cong; simp add: per_do_def cfg_of_def)+
qed

lemma kept_post [simp]: "cfg_saved (per_post m s) = cfg_saved s" "drv_saved (per_post m s) = drv_saved s" "per_ok (per_post m s) = per_ok s"
  by (simp_all add: per_post_def)

lemma kept_out [simp]:
  "cfg_saved (at_cmd_port_print x s) = cfg_saved s" "drv_saved (at_cmd_port_print x s) = drv_saved s" "per_ok (at_cmd_port_print x s) = per_ok s"
  by (simp_all add: at_cmd_port_print_def gpio_output_wakeup_host_def)

lemmas response_defs = per_response_ok_def per_response_error_def per_response_def per_echo_def rssi_answer_def

lemma kept_adv [simp]:
  "cfg_saved (ble_exec_adv_op st s) = cfg_saved s" "drv_saved (ble_exec_adv_op st s) = drv_saved s" "per_ok (ble_exec_adv_op st s) = per_ok s"
  by (simp_all add: ble_exec_adv_op_def Let_def)


lemma kept_store:
  assumes "cfg_saved s"
  shows "cfg_saved (nv_set8 ''ADV_STATE'' v (s\<lparr>adv_state := v\<rparr>))" "cfg_saved (nv_set16 ''ADV_INTERVAL'' w (s\<lparr>adv_interval := w\<rparr>))"
    "cfg_saved (nv_set8 ''UART_BAUDRATE'' v (s\<lparr>baud_index := v\<rparr>))" "cfg_saved (nv_set16 ''CONN_INTERVAL'' w (s\<lparr>conn_interval := w\<rparr>))"
    "cfg_saved (nv_set8 ''TX_POWER'' v (s\<lparr>tx_power_level_index := v\<rparr>))"
    "cfg_saved (per_do (Per_Nv_Set ''ADV_USER_DATA'' d) (s\<lparr>adv_user_data := d\<rparr>))" "cfg_saved (nv_set16 ''DATA_SRV_UUID'' w (s\<lparr>data_srv_uuid := w\<rparr>))"
    "cfg_saved (nv_set16 ''TX_UUID'' w (s\<lparr>tx_char_uuid := w\<rparr>))" "cfg_saved (nv_set16 ''RX_UUID'' w (s\<lparr>rx_char_uuid := w\<rparr>))"
    "cfg_saved (nv_set16 ''DRV_SRV_UUID'' w (s\<lparr>drv_srv_uuid := w\<rparr>))" "cfg_saved (nv_set16 ''ADC_UUID'' w (s\<lparr>adc_char_uuid := w, drv_srv_uuid := w\<rparr>))"
    "cfg_saved (nv_set16 ''PWM_UUID'' w (s\<lparr>pwm_char_uuid := w\<rparr>))" "cfg_saved (nv_set8 ''RSSI_MODE'' v (s\<lparr>rssi_mode := v\<rparr>))"
    "cfg_saved (nv_set8 ''RTS'' v (s\<lparr>rts_func_enable := v\<rparr>))"
  using assms by (simp_all add: nv_set8_def nv_set16_def per_do_def saved_defs cfg_of_def)

definition saved_inv :: "per_state \<Rightarrow> bool" where
  "saved_inv s \<longleftrightarrow> cfg_saved s \<and> per_ok s"

lemma kept_store_drv:
  assumes "drv_saved s"
  shows "drv_saved (nv_set8 ''ADV_STATE'' v (s\<lparr>adv_state := v\<rparr>))" "drv_saved (nv_set16 ''ADV_INTERVAL'' w (s\<lparr>adv_interval := w\<rparr>))"
    "drv_saved (nv_set8 ''UART_BAUDRATE'' v (s\<lparr>baud_index := v\<rparr>))" "drv_saved (nv_set16 ''CONN_INTERVAL'' w (s\<lparr>conn_interval := w\<rparr>))"
    "drv_saved (nv_set8 ''TX_POWER'' v (s\<lparr>tx_power_level_index := v\<rparr>))"
    "drv_saved (per_do (Per_Nv_Set ''ADV_USER_DATA'' d) (s\<lparr>adv_user_data := d\<rparr>))" "drv_saved (nv_set16 ''DATA_SRV_UUID'' w (s\<lparr>data_srv_uuid := w\<rparr>))"
    "drv_saved (nv_set16 ''TX_UUID'' w (s\<lparr>tx_char_uuid := w\<rparr>))" "drv_saved (nv_set16 ''RX_UUID'' w (s\<lparr>rx_char_uuid := w\<rparr>))"
    "drv_saved (nv_set16 ''DRV_SRV_UUID'' w (s\<lparr>drv_srv_uuid := w\<rparr>))"
    "drv_saved (nv_set16 ''PWM_UUID'' w (s\<lparr>pwm_char_uuid := w\<rparr>))" "drv_saved (nv_set8 ''RSSI_MODE'' v (s\<lparr>rssi_mode := v\<rparr>))"
    "drv_saved (nv_set8 ''RTS'' v (s\<lparr>rts_func_enable := v\<rparr>))"
  using assms by (simp_all add: nv_set8_def nv_set16_def per_do_def saved_defs)

lemma ok_set [simp]: "per_ok (nv_set8 k v s) = per_ok s" "per_ok (nv_set16 k w s) = per_ok s" "per_ok (uart_baudrate_set b s) = per_ok s"
  by (simp_all add: nv_set8_def nv_set16_def uart_baudrate_set_def Let_def)

lemma ok_fields [simp]: "per_ok (s\<lparr>adv_state := a\<rparr>) = per_ok s" "per_ok (s\<lparr>adv_interval := w\<rparr>) = per_ok s" "per_ok (s\<lparr>conn_interval := w\<rparr>) = per_ok s"
  "per_ok (s\<lparr>tx_power_level_index := a\<rparr>) = per_ok s" "per_ok (s\<lparr>data_srv_uuid := w\<rparr>) = per_ok s" "per_ok (s\<lparr>tx_char_uuid := w\<rparr>) = per_ok s"
  "per_ok (s\<lparr>rx_char_uuid := w\<rparr>) = per_ok s" "per_ok (s\<lparr>drv_srv_uuid := w\<rparr>) = per_ok s" "per_ok (s\<lparr>adc_char_uuid := w\<rparr>) = per_ok s"
  "per_ok (s\<lparr>pwm_char_uuid := w\<rparr>) = per_ok s" "per_ok (s\<lparr>rssi_mode := a\<rparr>) = per_ok s" "per_ok (s\<lparr>rts_func_enable := a\<rparr>) = per_ok s"
  by (simp_all add: per_ok_def)

lemma kept_baud [simp]: "cfg_saved (uart_baudrate_set b s) = cfg_saved s" "drv_saved (uart_baudrate_set b s) = drv_saved s"
  by (simp_all add: uart_baudrate_set_def Let_def)

lemma ok_baud: "per_ok s \<Longrightarrow> unat i < 5 \<Longrightarrow> per_ok (s\<lparr>baud_index := i\<rparr>)"
  by (simp add: per_ok_def)

lemma ok_user_data: "per_ok s \<Longrightarrow> length d = 6 \<Longrightarrow> per_ok (s\<lparr>adv_user_data := d\<rparr>)"
  by (simp add: per_ok_def)

lemma user_data_length: "user_data_loop p j d = Inr d' \<Longrightarrow> length d' = length d"
  by (induction p j d arbitrary: d' rule: user_data_loop.induct) (fastforce simp: rbind_eq_Inr arr_set_def split: if_splits)+

lemma name_set_saved:
  assumes "saved_inv s" "per_adv_name_set p s = Inr t"
  shows "saved_inv t \<and> (drv_saved s \<longrightarrow> drv_saved t)"
proof -
  let ?n = "min (length p) 20" and ?d = "(take (min (length p) 20) (str_bytes p) @ drop (min (length p) 20) (adv_name_data s))[20 := of_nat (min (length p) 20)]"
  have l: "length (adv_name_data s) = 21" using assms(1) by (simp add: saved_inv_def per_ok_def)
  let ?u = "s\<lparr>adv_name_data := ?d, adv_name_len := of_nat ?n\<rparr>"
  have t: "t = per_response (''OK+NAME'' @ CRLF) (ble_exec_adv_op (adv_state s) (per_do (Per_Nv_Set ''ADV_NAME'' ?d) ?u))"
  proof -
    have "mem_cpy (adv_name_data s) 0 (str_bytes p) ?n = Inr (take ?n (str_bytes p) @ drop ?n (adv_name_data s))" using l by (simp add: mem_cpy_def str_bytes_def)
    moreover have "arr_set (take ?n (str_bytes p) @ drop ?n (adv_name_data s)) 20 (of_nat ?n) = Inr ?d" using l by (simp add: arr_set_def str_bytes_def)
    ultimately show ?thesis using assms(2) by (simp add: per_adv_name_set_def per_do_def Let_def)
  qed
  have n: "unat (of_nat ?n :: u8) = ?n" "(of_nat ?n :: u8) \<le> 20" by (simp_all add: unat_of_nat take_bit_nat_eq_self word_le_nat_alt)
  have len: "length ?d = 21" "?d ! 20 = of_nat ?n" using l by (simp_all add: str_bytes_def)
  have "cfg_saved (per_do (Per_Nv_Set ''ADV_NAME'' ?d) ?u)"
    using assms(1) len by (simp add: saved_inv_def saved_defs cfg_of_def per_do_def)
  moreover have "drv_saved (per_do (Per_Nv_Set ''ADV_NAME'' ?d) ?u) = drv_saved s" by (simp add: saved_defs per_do_def)
  moreover have "per_ok ?u" using assms(1) len n(2) by (simp add: saved_inv_def per_ok_def)
  ultimately show ?thesis unfolding t by (simp add: saved_inv_def response_defs)
qed

lemma sets_saved:
  assumes "saved_inv s" "(k, e) \<in> set (per_commands h)" "set_fun e = Some f" "f p s = Inr t"
  shows "saved_inv t \<and> (drv_saved s \<and> k \<noteq> ''CHAD'' \<longrightarrow> drv_saved t)"
  using assms
  apply (simp add: per_commands_def set_get_def exec_only_def)
  apply (elim disjE conjE; (simp; fail)?)
  subgoal by (auto simp: per_adv_set_def rbind_eq_Inr saved_inv_def response_defs kept_store kept_store_drv split: if_splits)
  subgoal by (auto simp: per_adv_interval_set_def rbind_eq_Inr saved_inv_def response_defs kept_store kept_store_drv Let_def split: if_splits)
  subgoal using name_set_saved by auto
  subgoal by (auto simp: per_baudrate_set_def rbind_eq_Inr saved_inv_def response_defs kept_store kept_store_drv uart_baudrate_def Let_def arr_get_def ok_baud split: if_splits)
  subgoal by (auto simp: per_conn_interval_set_def rbind_eq_Inr saved_inv_def response_defs kept_store kept_store_drv Let_def split: if_splits)
  subgoal by (auto simp: per_tx_power_set_def rbind_eq_Inr saved_inv_def response_defs kept_store kept_store_drv Let_def split: if_splits)
  subgoal by (auto simp: per_adv_data_set_def rbind_eq_Inr saved_inv_def response_defs kept_store kept_store_drv Let_def dest!: user_data_length intro!: ok_user_data split: if_splits)
  subgoal by (auto simp: total_def at_cmd_data_srv_uuid_set_def saved_inv_def response_defs kept_store kept_store_drv Let_def)
  subgoal by (auto simp: total_def at_cmd_drv_srv_uuid_set_def saved_inv_def response_defs kept_store kept_store_drv Let_def)
  subgoal by (auto simp: total_def at_cmd_data_tx_char_uuid_set_def saved_inv_def response_defs kept_store kept_store_drv Let_def)
  subgoal by (auto simp: total_def at_cmd_data_rx_char_uuid_set_def saved_inv_def response_defs kept_store kept_store_drv Let_def)
  subgoal by (auto simp: total_def at_cmd_drv_adc_char_uuid_set_def saved_inv_def response_defs kept_store Let_def)
  subgoal by (auto simp: total_def at_cmd_drv_pwm_char_uuid_set_def saved_inv_def response_defs kept_store kept_store_drv Let_def)
  subgoal by (auto simp: per_rssi_set_def rbind_eq_Inr saved_inv_def response_defs kept_store kept_store_drv split: if_splits)
  subgoal by (auto simp: per_rts_func_set_def rbind_eq_Inr saved_inv_def response_defs kept_store kept_store_drv Let_def split: if_splits)
  done

lemmas get_defs = per_adv_get_def per_adv_interval_get_def per_baudrate_get_def per_conn_interval_get_def per_tx_power_get_def per_adv_data_get_def
  at_cmd_data_srv_uuid_get_def at_cmd_drv_srv_uuid_get_def at_cmd_data_tx_char_uuid_get_def at_cmd_data_rx_char_uuid_get_def at_cmd_drv_adc_char_uuid_get_def
  at_cmd_drv_pwm_char_uuid_get_def per_rssi_get_def per_rts_func_get_def

lemma kept_response [simp]: "saved_inv (per_response x s) = saved_inv s" "drv_saved (per_response x s) = drv_saved s"
  by (simp_all add: saved_inv_def per_response_def)

lemma gets_saved:
  assumes "(k, e) \<in> set (per_commands h)" "get_fun e = Some g"
  shows "saved_inv (g s) = saved_inv s \<and> drv_saved (g s) = drv_saved s"
proof -
  have "list_all (\<lambda>(k, e). case get_fun e of None \<Rightarrow> True | Some g \<Rightarrow> saved_inv (g s) = saved_inv s \<and> drv_saved (g s) = drv_saved s) (per_commands h)"
    by (simp add: per_commands_def set_get_def exec_only_def get_defs rssi_answer_def Let_def)
  then show ?thesis using assms by (fastforce simp: list_all_iff)
qed

lemma execs_saved:
  assumes "(k, e) \<in> set (per_commands h)" "exec_fun e = Some g" "k \<noteq> ''STRS''"
  shows "saved_inv (g s) = saved_inv s \<and> drv_saved (g s) = drv_saved s"
proof -
  have "list_all (\<lambda>(k, e). case exec_fun e of None \<Rightarrow> True | Some g \<Rightarrow> k \<noteq> ''STRS'' \<longrightarrow> saved_inv (g s) = saved_inv s \<and> drv_saved (g s) = drv_saved s) (per_commands h)"
    by (simp add: per_commands_def set_get_def exec_only_def per_bt_addr_def per_ver_info_def)
  then show ?thesis using assms by (fastforce simp: list_all_iff)
qed

text \<open>What a line does: nothing, an answer alone, or one of the functions of a command.\<close>

lemma per_exec_cases:
  assumes "per_cmd_exec h line s = Inr t"
  obtains "t = s" | "t = per_response_error s" | "t = per_response_ok s"
  | k e g where "(k, e) \<in> set (per_commands h)" "exec_fun e = Some g" "t = g s" "per_line2argv h line = Inr [''AT'', k]"
  | k e g p where "(k, e) \<in> set (per_commands h)" "get_fun e = Some g" "t = g s" "per_line2argv h line = Inr [''AT'', k, p]"
  | k e f p where "(k, e) \<in> set (per_commands h)" "set_fun e = Some f" "f p s = Inr t" "per_line2argv h line = Inr [''AT'', k, p]"
proof -
  obtain av where av: "per_line2argv h line = Inr av" "(if av = [] then Inr s else per_exec_cb h av s) = Inr t"
    using assms by (auto simp: per_cmd_exec_def rbind_eq_Inr)
  show ?thesis
    using av that
    by (auto simp: per_exec_cb_def or_err_def split: if_splits list.splits option.splits dest!: map_of_SomeD)
qed

definition chad_free :: "per_host \<Rightarrow> string \<Rightarrow> bool" where
  "chad_free h line \<longleftrightarrow> (\<forall>p. per_line2argv h line \<noteq> Inr [''AT'', ''CHAD'', p])"

lemma exec_saved:
  assumes "saved_inv s" "per_cmd_exec h line s = Inr t" "per_line2argv h line \<noteq> Inr [''AT'', ''STRS'']"
  shows "saved_inv t \<and> (drv_saved s \<and> chad_free h line \<longrightarrow> drv_saved t)"
  using assms(2)
proof (cases rule: per_exec_cases)
  case (4 k e g)
  then show ?thesis using execs_saved [OF 4(1,2), of s] assms(1,3) by auto
next
  case (5 k e g p)
  then show ?thesis using gets_saved [OF 5(1,2), of s] assms(1) by auto
next
  case (6 k e f p)
  then show ?thesis using sets_saved [OF assms(1) 6(1-3)] by (auto simp: chad_free_def)
qed (use assms(1) in \<open>auto simp: saved_inv_def response_defs\<close>)

fun per_lines :: "per_host \<Rightarrow> string list \<Rightarrow> per_state \<Rightarrow> per_state res" where
  "per_lines h [] s = Inr s"
| "per_lines h (l # ls) s = rbind (per_cmd_exec h l s) (per_lines h ls)"

lemma lines_saved:
  assumes "saved_inv s" "per_lines h ls s = Inr t" "\<forall>l\<in>set ls. per_line2argv h l \<noteq> Inr [''AT'', ''STRS'']"
  shows "saved_inv t \<and> (drv_saved s \<and> list_all (chad_free h) ls \<longrightarrow> drv_saved t)"
  using assms
proof (induction ls arbitrary: s)
  case (Cons l ls)
  obtain u where u: "per_cmd_exec h l s = Inr u" "per_lines h ls u = Inr t" using Cons.prems(2) by (auto simp: rbind_eq_Inr)
  show ?case using exec_saved [OF Cons.prems(1) u(1)] Cons.IH [of u] u(2) Cons.prems(3) by auto
qed simp

text \<open>Loading gives back what was saved.\<close>

lemma load8_saved:
  "nv_keeps h \<Longrightarrow> nv_calls (p_calls s) = nv_calls (p_calls t) \<Longrightarrow> nv_or t k [d] = [v] \<Longrightarrow> load8 h k d s = v"
  by (auto simp: load8_def nv_keeps_def nv_or_def split: option.splits)

lemma load16_saved:
  "nv_keeps h \<Longrightarrow> nv_calls (p_calls s) = nv_calls (p_calls t) \<Longrightarrow> nv_or t k (u16_encode d) = u16_encode v \<Longrightarrow> load16 h k d s = v"
  "nv_keeps h \<Longrightarrow> nv_calls (p_calls s) = nv_calls (p_calls t) \<Longrightarrow> nv_or t k (u16_encode d) = u16_encode v \<Longrightarrow> load_uuid_cfg_from_nv h k d s = v"
  by (auto simp: load16_def load_uuid_cfg_from_nv_def nv_keeps_def nv_or_def u16_encode_inj split: option.splits)

lemma load_name_saved:
  assumes "nv_keeps h" "nv_calls (p_calls s) = nv_calls (p_calls t)" "name_saved t" "adv_name_len t \<le> 20" "length (adv_name_data t) = 21"
    "adv_name_data s = BLE_ADV_NAME_DATA_DEF" "adv_name_len s = 10"
  shows "\<exists>d. load_name h s = Inr (s\<lparr>adv_name_data := d, adv_name_len := adv_name_len t\<rparr>) \<and> length d = 21 \<and>
    take (unat (adv_name_len t)) d = take (unat (adv_name_len t)) (adv_name_data t)"
proof (cases "nv_calls (p_calls t) ''ADV_NAME''")
  case None
  then have "load_name h s = Inr (s\<lparr>adv_name_data := BLE_ADV_NAME_DATA_DEF, adv_name_len := adv_name_len t\<rparr>)"
    using assms(1-3,6,7) by (simp add: load_name_def nv_keeps_def name_saved_def)
  then show ?thesis using None assms(3) by (fastforce simp: name_saved_def BLE_ADV_NAME_DATA_DEF_def str_bytes_def)
next
  case (Some b)
  let ?n = "unat (adv_name_len t)"
  have b: "length b = 21" "b ! 20 = adv_name_len t" "take ?n b = take ?n (adv_name_data t)" using assms(3) Some by (simp_all add: name_saved_def)
  have n: "?n \<le> 20" using assms(4) by (simp add: word_le_nat_alt)
  have l: "length (BLE_ADV_NAME_DATA_DEF[20 := adv_name_len t]) = 21" by (simp add: BLE_ADV_NAME_DATA_DEF_def str_bytes_def)
  have "load_name h s = Inr (s\<lparr>adv_name_data := take ?n b @ drop ?n (BLE_ADV_NAME_DATA_DEF[20 := adv_name_len t]), adv_name_len := adv_name_len t\<rparr>)"
    using assms(1,2,4,6) Some b(1,2) n l
    by (simp add: load_name_def nv_keeps_def arr_get_def arr_set_def mem_cpy_def not_less Let_def)
  moreover have "length (take ?n b @ drop ?n (BLE_ADV_NAME_DATA_DEF[20 := adv_name_len t])) = 21"
    "take ?n (take ?n b @ drop ?n (BLE_ADV_NAME_DATA_DEF[20 := adv_name_len t])) = take ?n (adv_name_data t)" using b(1,3) n l assms(5) by simp_all
  ultimately show ?thesis by blast
qed

lemma load_restores:
  assumes "nv_keeps h" "saved_inv t"
  shows "\<exists>u. load_app_cfg_from_nv h (load_tx_power h (per_fresh (p_calls t))) = Inr u \<and> cfg_of u = cfg_of t \<and> adv_name_len u = adv_name_len t \<and>
    take (unat (adv_name_len t)) (adv_name_data u) = take (unat (adv_name_len t)) (adv_name_data t) \<and> (drv_saved t \<longrightarrow> drv_srv_uuid u = drv_srv_uuid t) \<and>
    nv_calls (p_calls u) = nv_calls (p_calls t) \<and> length (adv_name_data u) = 21"
proof -
  have cfg: "\<And>k d b. (k, d, b) \<in> set (cfg_of t) \<Longrightarrow> nv_or t k d = b" and ok: "per_ok t" and nm: "name_saved t"
    using assms(2) by (auto simp: saved_inv_def cfg_saved_def)
  have l8: "load8 h ''ADV_STATE'' 1 s = adv_state t" "load8 h ''UART_BAUDRATE'' 0 s = baud_index t" "load8 h ''TX_POWER'' 1 s = tx_power_level_index t"
    "load8 h ''RSSI_MODE'' 0 s = rssi_mode t" "load8 h ''RTS'' 1 s = rts_func_enable t"
    if "nv_calls (p_calls s) = nv_calls (p_calls t)" for s
    by (rule load8_saved [OF assms(1) that cfg]; simp add: cfg_of_def)+
  have l16: "load16 h ''ADV_INTERVAL'' 0x140 s = adv_interval t" "load16 h ''CONN_INTERVAL'' 0x10 s = conn_interval t"
    "load_uuid_cfg_from_nv h ''DATA_SRV_UUID'' 1 s = data_srv_uuid t" "load_uuid_cfg_from_nv h ''TX_UUID'' 3 s = tx_char_uuid t"
    "load_uuid_cfg_from_nv h ''RX_UUID'' 2 s = rx_char_uuid t" "load_uuid_cfg_from_nv h ''ADC_UUID'' 5 s = adc_char_uuid t"
    "load_uuid_cfg_from_nv h ''PWM_UUID'' 6 s = pwm_char_uuid t"
    if "nv_calls (p_calls s) = nv_calls (p_calls t)" for s
    by (rule load16_saved [OF assms(1) that cfg]; simp add: cfg_of_def)+
  have drv: "load_uuid_cfg_from_nv h ''DRV_SRV_UUID'' 4 s = drv_srv_uuid t" if "nv_calls (p_calls s) = nv_calls (p_calls t)" "drv_saved t" for s
    by (rule load16_saved(2) [OF assms(1) that(1)]) (use that(2) in \<open>simp add: drv_saved_def\<close>)
  have ud: "nv_or t ''ADV_USER_DATA'' BLE_ADV_USER_DATA_DEF = adv_user_data t" by (rule cfg) (simp add: cfg_of_def)
  define f where "f = load_tx_power h (per_fresh (p_calls t))"
  have f: "p_calls f = p_calls t" "adv_state f = 1" "adv_interval f = 0x140" "adv_name_data f = BLE_ADV_NAME_DATA_DEF" "adv_name_len f = 10"
    "adv_user_data f = BLE_ADV_USER_DATA_DEF" "conn_interval f = 0x10" "baud_index f = 0" "tx_power_level_index f = tx_power_level_index t" "data_srv_uuid f = 1"
    "tx_char_uuid f = 3" "rx_char_uuid f = 2" "drv_srv_uuid f = 4" "adc_char_uuid f = 5" "pwm_char_uuid f = 6" "rssi_mode f = 0" "rts_func_enable f = 1"
    using l8(3) [of "per_fresh (p_calls t)"] by (simp_all add: f_def load_tx_power_def per_fresh_def)
  let ?s = "f\<lparr>app_bt_addr_str := (case factory_addr h of Some a \<Rightarrow> a | None \<Rightarrow> app_bt_addr_str f), adv_state := adv_state t, adv_interval := adv_interval t\<rparr>"
  obtain d where d: "load_name h ?s = Inr (?s\<lparr>adv_name_data := d, adv_name_len := adv_name_len t\<rparr>)"
    "take (unat (adv_name_len t)) d = take (unat (adv_name_len t)) (adv_name_data t)" "length d = 21"
    using load_name_saved [OF assms(1) _ nm, of ?s] ok f by (auto simp: per_ok_def)
  have b: "arr_get uart_baudrate (unat (baud_index t)) = Inr (uart_baudrate ! unat (baud_index t))" using ok by (simp add: per_ok_def arr_get_def uart_baudrate_def)
  have u: "(case nv_get h cs ''ADV_USER_DATA'' 6 of None \<Rightarrow> Inr s
      | Some param \<Rightarrow> rbind (mem_cpy (adv_user_data s) 0 param 6) (\<lambda>d. Inr (s\<lparr>adv_user_data := d\<rparr>))) = Inr (s\<lparr>adv_user_data := adv_user_data t\<rparr>)"
    if "nv_calls cs = nv_calls (p_calls t)" "adv_user_data s = BLE_ADV_USER_DATA_DEF" for cs s
    using ud ok assms(1) that by (auto simp: nv_keeps_def nv_or_def per_ok_def mem_cpy_def BLE_ADV_USER_DATA_DEF_def split: option.splits)
  show ?thesis
    unfolding f_def [symmetric] using d(2,3) drv
    by (auto simp: load_app_cfg_from_nv_def Let_def f l8 l16 d(1) b u uart_baudrate_set_def per_do_def cfg_of_def)
qed


definition per_boot :: "per_host \<Rightarrow> per_call list \<Rightarrow> per_state res" where
  "per_boot h cs = load_app_cfg_from_nv h (load_tx_power h (per_fresh cs))"

definition same_config :: "per_state \<Rightarrow> per_state \<Rightarrow> bool" where
  "same_config s t \<longleftrightarrow> cfg_of s = cfg_of t \<and> adv_name_len s = adv_name_len t \<and>
     take (unat (adv_name_len s)) (adv_name_data s) = take (unat (adv_name_len s)) (adv_name_data t)"

lemma boot_saved:
  assumes "nv_keeps h" "saved_inv t"
  shows "\<exists>u. per_boot h (p_calls t) = Inr u \<and> same_config u t \<and> saved_inv u \<and> (drv_saved t \<longrightarrow> drv_srv_uuid u = drv_srv_uuid t)"
proof -
  obtain u where u: "per_boot h (p_calls t) = Inr u" "cfg_of u = cfg_of t" "adv_name_len u = adv_name_len t"
    "take (unat (adv_name_len t)) (adv_name_data u) = take (unat (adv_name_len t)) (adv_name_data t)" "drv_saved t \<longrightarrow> drv_srv_uuid u = drv_srv_uuid t"
    "nv_calls (p_calls u) = nv_calls (p_calls t)" "length (adv_name_data u) = 21"
    using load_restores [OF assms] by (auto simp: per_boot_def)
  have nm: "unat (adv_name_len t) = 10 \<Longrightarrow> take 10 (adv_name_data u) = take 10 (adv_name_data t)" using u(4) by simp
  have "cfg_saved u" using assms(2) u(2-4,6) nm by (auto simp: saved_inv_def saved_defs)
  moreover have "per_ok u" using assms(2) u(2,3,7) by (simp add: saved_inv_def per_ok_def cfg_of_def)
  ultimately show ?thesis using u by (auto simp: saved_inv_def same_config_def)
qed

definition after_reset :: "per_call list \<Rightarrow> per_state" where
  "after_reset cs = (per_fresh cs)\<lparr>tx_char_uuid := 2, rx_char_uuid := 3\<rparr>"

lemma reset_saved: "saved_inv (after_reset (p_calls (per_reset s))) \<and> drv_saved (after_reset (p_calls (per_reset s)))"
  by (simp add: saved_inv_def saved_defs cfg_of_def per_ok_def after_reset_def per_fresh_def per_reset_def set_app_cfg_to_default_def per_response_def at_cmd_port_print_def
      gpio_output_wakeup_host_def nv_set8_def nv_set16_def per_do_def BLE_ADV_NAME_DATA_DEF_def BLE_ADV_USER_DATA_DEF_def str_bytes_def Let_def)

lemma fresh_saved: "saved_inv (per_fresh []) \<and> drv_saved (per_fresh [])"
  by (simp add: saved_inv_def saved_defs cfg_of_def per_ok_def per_fresh_def nv_calls_def BLE_ADV_NAME_DATA_DEF_def BLE_ADV_USER_DATA_DEF_def str_bytes_def)

text \<open>
  The states the module can reach: it starts with an empty memory, executes command lines, is switched off and on, and restarts after \<open>AT+STRS\<close>,
  which does not return.
\<close>

inductive per_reach :: "per_host \<Rightarrow> per_state \<Rightarrow> bool" for h where
  reach_boot: "per_boot h [] = Inr s \<Longrightarrow> per_reach h s"
| reach_line: "per_reach h s \<Longrightarrow> per_cmd_exec h line s = Inr t \<Longrightarrow> per_line2argv h line \<noteq> Inr [''AT'', ''STRS''] \<Longrightarrow> per_reach h t"
| reach_restart: "per_reach h s \<Longrightarrow> per_boot h (p_calls s) = Inr t \<Longrightarrow> per_reach h t"
| reach_reset: "per_reach h s \<Longrightarrow> per_boot h (p_calls (per_reset s)) = Inr t \<Longrightarrow> per_reach h t"

lemma reach_saved:
  assumes "nv_keeps h" "per_reach h s"
  shows "saved_inv s"
  using assms(2)
proof induction
  case (reach_boot s)
  then show ?case using boot_saved [OF assms(1), of "per_fresh []"] fresh_saved by (simp add: per_fresh_def)
next
  case (reach_line s line t)
  then show ?case using exec_saved by blast
next
  case (reach_restart s t)
  then show ?case using boot_saved [OF assms(1)] by fastforce
next
  case (reach_reset s t)
  then show ?case using boot_saved [OF assms(1), of "after_reset (p_calls (per_reset s))"] reset_saved [of s] by (simp add: after_reset_def per_fresh_def)
qed

section \<open>Parsing\<close>

lemma cut_at_none: "x \<notin> set str \<Longrightarrow> cut_at x str = None"
  by (induction str) auto

lemma cut_at_first: "x \<notin> set a \<Longrightarrow> cut_at x (a @ x # b) = Some (a, b)"
  by (induction a) auto

lemma skip_none: "hd p \<noteq> CHR '' '' \<Longrightarrow> skip_spaces p = p"
  by (cases p) (auto simp: skip_spaces_def)

lemma parse_set:
  assumes "\<not> null_has_plus h" "k \<noteq> []" "hd k \<noteq> CHR '' ''" "CHR ''-'' \<notin> set k" "p \<noteq> []" "hd p \<noteq> CHR '' ''" "CHR ''-'' \<notin> set p"
  shows "per_line2argv h (''AT+'' @ k @ ''-'' @ p) = Inr [''AT'', k, p]"
proof -
  have c: "cut_at (CHR ''+'') (''AT+'' @ k @ ''-'' @ p) = Some (''AT'', k @ ''-'' @ p)" by simp
  have s: "skip_spaces (k @ CHR ''-'' # p) = k @ CHR ''-'' # p" using assms(2,3) by (intro skip_none) simp
  have "args_dash p = ([p], True)" using assms(7) by (simp add: args_dash.simps [of p] cut_at_none)
  then have "args_dash (k @ CHR ''-'' # p) = ([k, p], True)"
    using assms(4-6) by (simp add: args_dash.simps [of "k @ CHR ''-'' # p"] cut_at_first skip_none Let_def)
  then show ?thesis using c s assms(1) by (simp add: per_line2argv_def skip_spaces_def Let_def)
qed

lemma digit_str: "n < 10 \<Longrightarrow> nat_str n = [char_of (48 + n)]"
  by simp

lemma digit_facts:
  assumes "n < 10"
  shows "atoi_u8 (nat_str n) = Inr (of_nat n)" "is_decimal_string (nat_str n)" "CHR ''-'' \<notin> set (nat_str n)" "hd (nat_str n) \<noteq> CHR '' ''" "nat_str n \<noteq> []"
    "take 1 (nat_str n) \<noteq> ''?''"
proof -
  define c where "c = (char_of (48 + n) :: char)"
  have o: "(of_char c :: nat) = 48 + n" using assms by (simp add: c_def)
  have oi: "(of_char c :: int) = 48 + int n" using o by (metis of_nat_add of_nat_numeral of_nat_of_char)
  have s: "nat_str n = [c]" using assms by (simp add: c_def)
  have d: "is_digit c" using assms o by (simp add: is_digit_def less_eq_char_def)
  have "c \<noteq> CHR ''-''" "c \<noteq> CHR ''+''" "c \<noteq> CHR '' ''" "c \<noteq> CHR ''?''" "\<not> is_space c" using o assms by (auto simp: is_space_def)
  then show "atoi_u8 (nat_str n) = Inr (of_nat n)" "is_decimal_string (nat_str n)" "CHR ''-'' \<notin> set (nat_str n)" "hd (nat_str n) \<noteq> CHR '' ''" "nat_str n \<noteq> []"
    "take 1 (nat_str n) \<noteq> ''?''"
    unfolding s using assms d oi by (auto simp: atoi_u8_def atoi_def is_decimal_string_def)
qed

section \<open>Hexadecimal numbers\<close>

lemma hex_low_value: "d < 16 \<Longrightarrow> hex_value (hex_low d) = unat d \<and> is_hex_digit (hex_low d)"
proof -
  assume "d < 16"
  then have "unat d < 16" by (simp add: word_less_nat_alt)
  then show ?thesis by (auto simp: hex_value_def hex_low_def is_hex_digit_char_of word_less_nat_alt Let_def)
qed

lemma nibbles: "drop_bit 4 b < 16" "b AND 15 < 16" "unat (drop_bit 4 b) = unat b div 16" "unat (b AND 15) = unat b mod 16" for b :: u8
proof -
  show d: "unat (drop_bit 4 b) = unat b div 16" by (simp add: drop_bit_eq_div unat_div)
  have "b AND 15 = take_bit 4 b" by (simp add: take_bit_eq_mask mask_eq_exp_minus_1)
  then have "b AND 15 = b mod 16" by (simp add: take_bit_eq_mod)
  then show m: "unat (b AND 15) = unat b mod 16" by (simp add: unat_mod)
  show "drop_bit 4 b < 16" using d unat_bound [of b] by (simp add: word_less_nat_alt)
  show "b AND 15 < 16" using m by (simp add: word_less_nat_alt)
qed

lemma strtoul_hex: "strtoul_u16 (hex_u16 v) = v"
proof -
  let ?hi = "ucast (drop_bit 8 v) :: u8" and ?lo = "ucast v :: u8"
  have hi: "unat ?hi = unat v div 256" 
    using unat_bound [of v] by (simp add: unsigned_ucast_eq take_bit_eq_mod drop_bit_eq_div unat_div)
  have lo: "unat ?lo = unat v mod 256" by (simp add: unsigned_ucast_eq take_bit_eq_mod)
  have "foldl (\<lambda>v c. 16 * v + hex_value c) 0 (hex_u16 v) = 256 * unat ?hi + unat ?lo"
    by (simp add: hex_u16_def hex_byte_low_def hex_low_value nibbles)
  also have "\<dots> = unat v" using hi lo by simp
  finally have "foldl (\<lambda>v c. 16 * v + hex_value c) 0 (hex_u16 v) = unat v" .
  moreover have "unat v \<le> 2 ^ 32 - 1" using unat_bound [of v] by simp
  ultimately show ?thesis by (simp add: strtoul_u16_def)
qed

lemma hex_u16_facts: "is_hex_string (hex_u16 v)" "CHR ''-'' \<notin> set (hex_u16 v)" "hd (hex_u16 v) \<noteq> CHR '' ''" "hex_u16 v \<noteq> []" "take 1 (hex_u16 v) \<noteq> ''?''"
proof -
  show h: "is_hex_string (hex_u16 v)" by (simp add: is_hex_string_def hex_u16_def hex_byte_low_def hex_low_value nibbles)
  show n: "hex_u16 v \<noteq> []" by (simp add: hex_u16_def hex_byte_low_def)
  have "\<not> is_hex_digit (CHR ''-'')" "\<not> is_hex_digit (CHR '' '')" "\<not> is_hex_digit (CHR ''?'')" by (simp_all add: is_hex_digit_def is_digit_def less_eq_char_def)
  then show "CHR ''-'' \<notin> set (hex_u16 v)" "hd (hex_u16 v) \<noteq> CHR '' ''" "take 1 (hex_u16 v) \<noteq> ''?''"
    using h n by (cases "hex_u16 v"; auto simp: is_hex_string_def)+
qed


section \<open>Setting and reading a parameter\<close>

text \<open>What was sent on the UART.\<close>

definition said :: "per_state \<Rightarrow> string" where
  "said s = concat (map (\<lambda>c. case c of Per_Uart x \<Rightarrow> x | _ \<Rightarrow> []) (p_calls s))"

lemma said_do [simp]: "said (per_do c s) = said s @ (case c of Per_Uart x \<Rightarrow> x | _ \<Rightarrow> [])"
  by (simp add: said_def per_do_def)

lemma said_print [simp]: "said (at_cmd_port_print x s) = said s @ x"
  by (simp add: at_cmd_port_print_def gpio_output_wakeup_host_def)

lemma said_ops [simp]: "said (nv_set8 k v s) = said s" "said (nv_set16 k w s) = said s" "said (uart_baudrate_set b s) = said s" "said (per_post m s) = said s"
  "said (per_response x s) = said s @ x" "said (per_echo tag p s) = said s @ tag @ p @ CRLF" "said (rssi_answer r s) = said s @ ''OK+RSSI-'' @ int_str (sint r) @ CRLF"
  by (simp_all add: nv_set8_def nv_set16_def uart_baudrate_set_def per_post_def response_defs Let_def) (simp_all add: said_def)

lemma said_adv [simp]: "said (ble_exec_adv_op st s) = said s"
  by (simp add: ble_exec_adv_op_def Let_def said_def per_do_def)

lemma said_fields [simp]: "said (s\<lparr>adv_state := a\<rparr>) = said s" "said (s\<lparr>adv_interval := w\<rparr>) = said s" "said (s\<lparr>conn_interval := w\<rparr>) = said s"
  "said (s\<lparr>baud_index := a\<rparr>) = said s" "said (s\<lparr>data_srv_uuid := w\<rparr>) = said s" "said (s\<lparr>tx_char_uuid := w\<rparr>) = said s"
  "said (s\<lparr>rx_char_uuid := w\<rparr>) = said s" "said (s\<lparr>drv_srv_uuid := w\<rparr>) = said s" "said (s\<lparr>adc_char_uuid := w\<rparr>) = said s"
  "said (s\<lparr>pwm_char_uuid := w\<rparr>) = said s" "said (s\<lparr>rts_func_enable := a\<rparr>) = said s"
  by (simp_all add: said_def)

lemma per_fields [simp]:
  "adv_state (per_echo x p s) = adv_state s" "adv_interval (per_echo x p s) = adv_interval s" "conn_interval (per_echo x p s) = conn_interval s"
  "baud_index (per_echo x p s) = baud_index s" "rts_func_enable (per_echo x p s) = rts_func_enable s"
  "adv_interval (ble_exec_adv_op st s) = adv_interval s" "baud_index (uart_baudrate_set b s) = baud_index s"
  by (simp_all add: response_defs at_cmd_port_print_def gpio_output_wakeup_host_def ble_exec_adv_op_def uart_baudrate_set_def per_do_def Let_def)

definition digit_params :: "(string \<times> nat) list" where
  "digit_params = [(''ADST'', 3), (''ADIT'', 8), (''BAUD'', 5), (''CNIT'', 9), (''CRTS'', 2)]"

definition uuid_params :: "string list" where
  "uuid_params = [''SERN'', ''SERD'', ''CHAT'', ''CHAR'', ''CHAD'', ''CHAP'']"

lemma exec_set:
  assumes "\<not> null_has_plus h" "k \<in> set (map fst digit_params) \<union> set uuid_params" "p \<noteq> []" "hd p \<noteq> CHR '' ''" "CHR ''-'' \<notin> set p"
  shows "per_cmd_exec h (''AT+'' @ k @ ''-'' @ p) s = per_exec_cb h [''AT'', k, p] s"
proof -
  have "per_line2argv h (''AT+'' @ k @ ''-'' @ p) = Inr [''AT'', k, p]"
    using assms by (intro parse_set) (auto simp: digit_params_def uuid_params_def)
  then show ?thesis by (simp add: per_cmd_exec_def)
qed

lemmas uuid_defs = at_cmd_data_srv_uuid_set_def at_cmd_drv_srv_uuid_set_def at_cmd_data_tx_char_uuid_set_def at_cmd_data_rx_char_uuid_set_def
  at_cmd_drv_adc_char_uuid_set_def at_cmd_drv_pwm_char_uuid_set_def at_cmd_data_srv_uuid_get_def at_cmd_drv_srv_uuid_get_def at_cmd_data_tx_char_uuid_get_def
  at_cmd_data_rx_char_uuid_get_def at_cmd_drv_adc_char_uuid_get_def at_cmd_drv_pwm_char_uuid_get_def

lemma uuid_fields [simp]:
  "data_srv_uuid (per_response x s) = data_srv_uuid s" "drv_srv_uuid (per_response x s) = drv_srv_uuid s" "tx_char_uuid (per_response x s) = tx_char_uuid s"
  "rx_char_uuid (per_response x s) = rx_char_uuid s" "adc_char_uuid (per_response x s) = adc_char_uuid s" "pwm_char_uuid (per_response x s) = pwm_char_uuid s"
  by (simp_all add: per_response_def at_cmd_port_print_def gpio_output_wakeup_host_def per_do_def)

lemma uuid_set_get:
  assumes "k \<in> set uuid_params"
  shows "\<exists>t. per_exec_cb h [''AT'', k, hex_u16 v] s = Inr t \<and> said t = said s @ ''OK+'' @ k @ CRLF \<and>
    (\<exists>u. per_exec_cb h [''AT'', k, ''?''] t = Inr u \<and> said u = said t @ ''OK+'' @ k @ ''-'' @ hex_u16 v @ CRLF)"
proof -
  have q: "take 1 (hex_u16 v) \<noteq> ''?''" "is_hex_string (hex_u16 v)" "strtoul_u16 (hex_u16 v) = v" by (simp_all only: hex_u16_facts strtoul_hex not_False_eq_True)
  have "k = ''SERN'' \<or> k = ''SERD'' \<or> k = ''CHAT'' \<or> k = ''CHAR'' \<or> k = ''CHAD'' \<or> k = ''CHAP''" using assms by (auto simp: uuid_params_def)
  then show ?thesis
    using q
    by (elim disjE; simp add: per_exec_cb_def per_commands_def set_get_def exec_only_def or_err_def total_def uuid_defs nv_set16_def Let_def; simp add: per_do_def)
qed


text \<open>The tables of intervals: the conversion to units and back gives the index.\<close>

lemma adv_table: "i < 8 \<Longrightarrow> table_index adv_interval_array (of_nat (unat (of_nat (unat (adv_interval_array ! i) * 1000 div 625) :: u16) * 625 div 1000)) = i"
proof -
  assume "i < 8"
  then have "i \<in> {0, 1, 2, 3, 4, 5, 6, 7}" by auto
  then show ?thesis by (auto simp: adv_interval_array_def table_index_def)
qed

lemma conn_table: "i < 9 \<Longrightarrow> table_index conn_interval_array (of_nat (unat (of_nat (unat (conn_interval_array ! i) * 100 div 125) :: u16) * 125 div 100)) = i"
proof -
  assume "i < 9"
  then have "i \<in> {0, 1, 2, 3, 4, 5, 6, 7, 8}" by auto
  then show ?thesis by (auto simp: conn_interval_array_def table_index_def)
qed

lemma digit_set_get:
  assumes "(k, n) \<in> set digit_params" "i < n"
  shows "\<exists>t. per_exec_cb h [''AT'', k, nat_str i] s = Inr t \<and> said t = said s @ ''OK+'' @ k @ ''-'' @ nat_str i @ CRLF \<and>
    (\<exists>u. per_exec_cb h [''AT'', k, ''?''] t = Inr u \<and> said u = said t @ ''OK+'' @ k @ ''-'' @ nat_str i @ CRLF)"
proof -
  have i: "i < 10" using assms by (auto simp: digit_params_def)
  have q: "take 1 (nat_str i) \<noteq> ''?''" "is_decimal_string (nat_str i)" "atoi_u8 (nat_str i) = Inr (of_nat i)" by (rule digit_facts [OF i])+
  have b: "unat (of_nat i :: u8) = i" using i by (simp add: unat_of_nat take_bit_nat_eq_self)
  note e = per_exec_cb_def per_commands_def set_get_def exec_only_def or_err_def
  consider "k = ''ADST''" "i < 3" | "k = ''ADIT''" "i < 8" | "k = ''BAUD''" "i < 5" | "k = ''CNIT''" "i < 9" | "k = ''CRTS''" "i < 2"
    using assms by (auto simp: digit_params_def)
  then show ?thesis
  proof cases
    case 1
    then have "(of_nat i :: u8) = 0 \<or> (of_nat i :: u8) = 1 \<or> (of_nat i :: u8) = 2" by (auto simp: less_Suc_eq numeral_3_eq_3)
    then show ?thesis using 1 q b
      by (simp add: e per_adv_set_def per_adv_get_def del: nat_str.simps) (simp add: nv_set8_def per_do_def)
  next
    case 2
    then have "\<not> (of_nat i :: u8) > 7" using b by (simp add: word_less_nat_alt)
    then show ?thesis using 2 q b adv_table [OF 2(2)]
      by (simp add: e per_adv_interval_set_def per_adv_interval_get_def arr_get_def adv_interval_array_def Let_def del: nat_str.simps) (simp add: nv_set16_def per_do_def)
  next
    case 3
    then have "\<not> (of_nat i :: u8) > 4" using b by (simp add: word_less_nat_alt)
    then show ?thesis using 3 q b
      by (simp add: e per_baudrate_set_def per_baudrate_get_def arr_get_def uart_baudrate_def Let_def del: nat_str.simps) (simp add: nv_set8_def per_do_def)
  next
    case 4
    then have "\<not> (of_nat i :: u8) > 8" using b by (simp add: word_less_nat_alt)
    moreover have "length conn_interval_array = 9" by (simp add: conn_interval_array_def)
    ultimately show ?thesis using 4 q b conn_table [OF 4(2)]
      by (simp add: e per_conn_interval_set_def per_conn_interval_get_def arr_get_def Let_def del: nat_str.simps) (simp add: nv_set16_def per_do_def)
  next
    case 5
    have "(of_nat i :: u8) = 0 \<longleftrightarrow> i = 0" "i = 0 \<or> i = Suc 0" using 5 b by (auto simp: unat_eq_zero [symmetric])
    then show ?thesis using 5 q b
      by (simp add: e per_rts_func_set_def per_rts_func_get_def Let_def del: nat_str.simps) (simp add: nv_set8_def per_do_def)
  qed
qed


text \<open>
  C20 (functional). What an AT command sets, the query returns: for the state and the interval of advertising, the rate of the UART, the interval of
  connections and the flow control, each index in range is acknowledged and then reported by the query (the intervals are converted to units of the radio and
  back); and a 16-bit UUID written as four hexadecimal digits is reported with the same digits. Reading address zero finds no plus sign.
\<close>

theorem per_set_get:
  assumes "\<not> null_has_plus h"
  shows "((k, n) \<in> set digit_params \<and> i < n \<longrightarrow>
      (\<exists>t u. per_cmd_exec h (''AT+'' @ k @ ''-'' @ nat_str i) s = Inr t \<and> per_cmd_exec h (''AT+'' @ k @ ''-?'') t = Inr u \<and>
        said t = said s @ ''OK+'' @ k @ ''-'' @ nat_str i @ CRLF \<and> said u = said t @ ''OK+'' @ k @ ''-'' @ nat_str i @ CRLF)) \<and>
    (k \<in> set uuid_params \<longrightarrow>
      (\<exists>t u. per_cmd_exec h (''AT+'' @ k @ ''-'' @ hex_u16 v) s = Inr t \<and> per_cmd_exec h (''AT+'' @ k @ ''-?'') t = Inr u \<and>
        said t = said s @ ''OK+'' @ k @ CRLF \<and> said u = said t @ ''OK+'' @ k @ ''-'' @ hex_u16 v @ CRLF))"
proof -
  have q: "per_cmd_exec h (''AT+'' @ k @ ''-?'') t = per_exec_cb h [''AT'', k, ''?''] t" if "k \<in> set (map fst digit_params) \<union> set uuid_params" for t
    using exec_set [OF assms that, of "''?''" t] by simp
  have "\<exists>t u. per_cmd_exec h (''AT+'' @ k @ ''-'' @ nat_str i) s = Inr t \<and> per_cmd_exec h (''AT+'' @ k @ ''-?'') t = Inr u \<and>
        said t = said s @ ''OK+'' @ k @ ''-'' @ nat_str i @ CRLF \<and> said u = said t @ ''OK+'' @ k @ ''-'' @ nat_str i @ CRLF"
    if "(k, n) \<in> set digit_params" "i < n"
  proof -
    have i: "i < 10" and k: "k \<in> set (map fst digit_params) \<union> set uuid_params" using that by (force simp: digit_params_def)+
    show ?thesis using digit_set_get [OF that, of h s] unfolding exec_set [OF assms k digit_facts(5,4,3) [OF i]] q [OF k] by blast
  qed
  moreover have "\<exists>t u. per_cmd_exec h (''AT+'' @ k @ ''-'' @ hex_u16 v) s = Inr t \<and> per_cmd_exec h (''AT+'' @ k @ ''-?'') t = Inr u \<and>
        said t = said s @ ''OK+'' @ k @ CRLF \<and> said u = said t @ ''OK+'' @ k @ ''-'' @ hex_u16 v @ CRLF"
    if "k \<in> set uuid_params"
  proof -
    have k: "k \<in> set (map fst digit_params) \<union> set uuid_params" using that by simp
    show ?thesis using uuid_set_get [OF that, of h v s] unfolding exec_set [OF assms k hex_u16_facts(4,3,2)] q [OF k] by blast
  qed
  ultimately show ?thesis by blast
qed

definition per_memory :: per_host where
  "per_memory = \<lparr>nv_get8 = \<lambda>cs k. byte_of (nv_calls cs k), nv_get16 = \<lambda>cs k. word_of (nv_calls cs k),
     nv_get = \<lambda>cs k n. case nv_calls cs k of Some b \<Rightarrow> if length b = n then Some b else None | None \<Rightarrow> None,
     factory_addr = None, read_rssi = \<lambda>_. 0, sys_version = ''1.0'', notify_result = \<lambda>_. 0, adc_value = \<lambda>_ _. 0, null_has_plus = False\<rparr>"

lemma per_memory_keeps: "nv_keeps per_memory" "\<not> null_has_plus per_memory"
  by (simp_all add: nv_keeps_def per_memory_def)

theorem per_set_get_witness:
  "\<exists>t u. per_cmd_exec per_memory ''AT+CNIT-8'' (per_fresh []) = Inr t \<and> per_cmd_exec per_memory ''AT+CNIT-?'' t = Inr u \<and>
    said u = said t @ ''OK+CNIT-8'' @ CRLF"
proof -
  have "nat_str 8 = ''8''" by code_simp
  then show ?thesis using per_set_get [OF per_memory_keeps(2), of "''CNIT''" 9 8 "per_fresh []"] by (auto simp: digit_params_def simp del: nat_str.simps) metis
qed

section \<open>The properties of the configuration\<close>

text \<open>
  C12 (roundtrip). The configuration survives switching the module off and on: with a memory that returns what was stored last, in every state the
  module reaches by command lines, restarts and resets, the restart loads the configuration it had: advertising state, interval, name and
  data, the rate of the UART, connection interval, transmission power, the UUIDs of the data service and of the characteristics, signal strength mode and flow control.
  After \<open>AT+STRS\<close> it has the initial configuration, except that the UUIDs of the two data characteristics are exchanged. The UUID of the driver service is not part of the claim.
\<close>

theorem per_config_persists:
  assumes "nv_keeps h" "per_reach h s"
  shows "(\<exists>u. per_boot h (p_calls s) = Inr u \<and> same_config u s) \<and>
    (\<exists>u. per_boot h (p_calls (per_reset s)) = Inr u \<and> same_config u ((per_fresh [])\<lparr>tx_char_uuid := rx_char_uuid (per_fresh []), rx_char_uuid := tx_char_uuid (per_fresh [])\<rparr>))"
proof
  show "\<exists>u. per_boot h (p_calls s) = Inr u \<and> same_config u s" using boot_saved [OF assms(1) reach_saved [OF assms]] by blast
  have "\<exists>u. per_boot h (p_calls (per_reset s)) = Inr u \<and> same_config u (after_reset (p_calls (per_reset s)))"
    using boot_saved [OF assms(1), of "after_reset (p_calls (per_reset s))"] reset_saved [of s] by (auto simp: after_reset_def per_fresh_def)
  then show "\<exists>u. per_boot h (p_calls (per_reset s)) = Inr u \<and>
      same_config u ((per_fresh [])\<lparr>tx_char_uuid := rx_char_uuid (per_fresh []), rx_char_uuid := tx_char_uuid (per_fresh [])\<rparr>)"
    by (simp add: same_config_def after_reset_def per_fresh_def cfg_of_def)
qed

theorem per_config_persists_witness:
  "\<exists>s t u. per_boot per_memory [] = Inr s \<and> per_cmd_exec per_memory ''AT+BAUD-3'' s = Inr t \<and> per_boot per_memory (p_calls t) = Inr u \<and> baud_index u = baud_index t"
proof -
  obtain s where s: "per_boot per_memory [] = Inr s" using boot_saved [OF per_memory_keeps(1), of "per_fresh []"] fresh_saved by (auto simp: per_fresh_def)
  have n: "nat_str 3 = ''3''" by code_simp
  obtain t where t: "per_cmd_exec per_memory ''AT+BAUD-3'' s = Inr t"
    using per_set_get [OF per_memory_keeps(2), of "''BAUD''" 5 3 s] by (auto simp: digit_params_def n simp del: nat_str.simps)
  have "per_line2argv per_memory ''AT+BAUD-3'' = Inr [''AT'', ''BAUD'', ''3'']"
    using parse_set [OF per_memory_keeps(2), of "''BAUD''" "''3''"] by simp
  then have "per_reach per_memory t" using s t by (auto intro: reach_boot reach_line)
  then show ?thesis using per_config_persists [OF per_memory_keeps(1), of t] s t by (auto simp: same_config_def cfg_of_def)
qed

text \<open>The exception: the UUID of the analog characteristic is taken for the driver service until the next restart.\<close>

lemma chad_forgotten:
  assumes "nv_keeps h" "saved_inv s" "drv_saved s" "drv_srv_uuid s \<noteq> v"
  shows "\<exists>t u. at_cmd_drv_adc_char_uuid_set (hex_u16 v) s = t \<and> drv_srv_uuid t = v \<and> per_boot h (p_calls t) = Inr u \<and> drv_srv_uuid u = drv_srv_uuid s"
proof -
  let ?t = "at_cmd_drv_adc_char_uuid_set (hex_u16 v) s" and ?t' = "(at_cmd_drv_adc_char_uuid_set (hex_u16 v) s)\<lparr>drv_srv_uuid := drv_srv_uuid s\<rparr>"
  have t: "?t = per_response (''OK+CHAD'' @ CRLF) (nv_set16 ''ADC_UUID'' v (s\<lparr>adc_char_uuid := v, drv_srv_uuid := v\<rparr>))"
    by (simp add: at_cmd_drv_adc_char_uuid_set_def hex_u16_facts strtoul_hex Let_def)
  have "saved_inv ?t" using assms(2) unfolding t by (simp add: saved_inv_def per_response_def kept_store)
  then have "saved_inv ?t'" by (simp add: saved_inv_def saved_defs cfg_of_def per_ok_def)
  moreover have "drv_saved ?t'" using assms(3) unfolding t
    by (simp add: drv_saved_def nv_or_def per_response_def at_cmd_port_print_def gpio_output_wakeup_host_def nv_set16_def per_do_def)
  ultimately obtain u where "per_boot h (p_calls ?t') = Inr u" "drv_srv_uuid u = drv_srv_uuid ?t'" using boot_saved [OF assms(1), of ?t'] by auto
  moreover have "drv_srv_uuid ?t = v" unfolding t by (simp add: nv_set16_def per_do_def)
  ultimately show ?thesis by simp
qed

text \<open>Which parameters have no defined effect.\<close>

definition numeric_commands :: "string list" where
  "numeric_commands = [''ADST'', ''ADIT'', ''BAUD'', ''CNIT'', ''TXPW'', ''RSSI'', ''CRTS'']"

definition undefined_param :: "string \<Rightarrow> string \<Rightarrow> bool" where
  "undefined_param k p \<longleftrightarrow> k \<in> set numeric_commands \<and> \<not> (- (2 ^ 31) \<le> atoi p \<and> atoi p < 2 ^ 31) \<or>
     k = ''MAFD'' \<and> \<not> list_all is_hex_digit (take (2 * (min (length p) 12 div 2)) p)"

lemma user_data_total:
  "length p \<le> 2 * (length d - j) \<Longrightarrow> (\<exists>d'. user_data_loop p j d = Inr d') \<longleftrightarrow> list_all is_hex_digit (take (2 * (length p div 2)) p)"
proof (induction p j d rule: user_data_loop.induct)
  case (1 a b p j d)
  then have "j < length d" by simp
  then show ?case using 1 by (auto simp: char2hex_def arr_set_def)
qed auto

lemma set_total:
  assumes "per_ok s" "(k, e) \<in> set (per_commands h)" "set_fun e = Some f"
  shows "(\<exists>t. f p s = Inr t) \<longleftrightarrow> \<not> undefined_param k p"
proof -
  have a: "(\<exists>t. rbind (atoi_u8 p) g = Inr t) \<longleftrightarrow> - (2 ^ 31) \<le> atoi p \<and> atoi p < 2 ^ 31" if "\<And>x. \<exists>t. g x = Inr t" for g :: "u8 \<Rightarrow> per_state res"
    using that by (auto simp: atoi_u8_def Let_def)
  have l: "length adv_interval_array = 8" "length conn_interval_array = 9" "length uart_baudrate = 5" by (simp_all add: adv_interval_array_def conn_interval_array_def uart_baudrate_def)
  have b: "\<not> 7 < i \<Longrightarrow> unat i < 8" "\<not> 8 < i \<Longrightarrow> unat i < 9" "\<not> 4 < i \<Longrightarrow> unat i < 5" for i :: u8 by (simp_all add: word_less_nat_alt)
  have num: "(\<exists>t. per_adv_set p s = Inr t) \<longleftrightarrow> - (2 ^ 31) \<le> atoi p \<and> atoi p < 2 ^ 31" "(\<exists>t. per_tx_power_set p s = Inr t) \<longleftrightarrow> - (2 ^ 31) \<le> atoi p \<and> atoi p < 2 ^ 31"
    "(\<exists>t. per_rssi_set h p s = Inr t) \<longleftrightarrow> - (2 ^ 31) \<le> atoi p \<and> atoi p < 2 ^ 31" "(\<exists>t. per_rts_func_set p s = Inr t) \<longleftrightarrow> - (2 ^ 31) \<le> atoi p \<and> atoi p < 2 ^ 31"
    unfolding per_adv_set_def per_tx_power_set_def per_rssi_set_def per_rts_func_set_def by (rule a, simp)+
  have "(\<exists>t. per_adv_interval_set p s = Inr t) \<longleftrightarrow> - (2 ^ 31) \<le> atoi p \<and> atoi p < 2 ^ 31" "(\<exists>t. per_conn_interval_set p s = Inr t) \<longleftrightarrow> - (2 ^ 31) \<le> atoi p \<and> atoi p < 2 ^ 31"
    "(\<exists>t. per_baudrate_set p s = Inr t) \<longleftrightarrow> - (2 ^ 31) \<le> atoi p \<and> atoi p < 2 ^ 31"
    unfolding per_adv_interval_set_def per_conn_interval_set_def per_baudrate_set_def by (rule a; use b in \<open>auto simp: arr_get_def l Let_def\<close>)+
  moreover have "\<exists>t. per_adv_name_set p s = Inr t" using assms(1) by (simp add: per_adv_name_set_def per_ok_def mem_cpy_def arr_set_def str_bytes_def Let_def)
  moreover have "(\<exists>t. per_adv_data_set p s = Inr t) \<longleftrightarrow> list_all is_hex_digit (take (2 * (min (length p) 12 div 2)) p)"
  proof -
    have "(\<exists>t. per_adv_data_set p s = Inr t) \<longleftrightarrow> (\<exists>d. user_data_loop (take 12 p) 0 (replicate 6 0) = Inr d)"
      by (auto simp: per_adv_data_set_def rbind_eq_Inr Let_def)
    also have "\<dots> \<longleftrightarrow> list_all is_hex_digit (take (2 * (min (length p) 12 div 2)) (take 12 p))" using user_data_total [of "take 12 p" "replicate 6 0" 0] by simp
    also have "take (2 * (min (length p) 12 div 2)) (take 12 p) = take (2 * (min (length p) 12 div 2)) p" by (auto simp: min_def)
    finally show ?thesis .
  qed
  ultimately have "list_all (\<lambda>(k, e). case set_fun e of None \<Rightarrow> True | Some f \<Rightarrow> (\<exists>t. f p s = Inr t) \<longleftrightarrow> \<not> undefined_param k p) (per_commands h)"
    using num by (simp add: per_commands_def set_get_def exec_only_def undefined_param_def numeric_commands_def total_def)
  then show ?thesis using assms(2,3) by (fastforce simp: list_all_iff)
qed



text \<open>The data of an advertisement is reported in the opposite order of that in which it was set, and a name with a dash has no effect and no answer.\<close>

lemma user_data_reversed:
  assumes "adv_user_data s = [a, b, c, d, e, f]"
  shows "said (per_adv_data_get s) = said s @ concat (map hex_byte_low [f, e, d, c, b, a]) @ CRLF"
  using assms by (simp add: per_adv_data_get_def)

lemma dash_in_name_ignored: "\<not> null_has_plus h \<Longrightarrow> per_cmd_exec h ''AT+NAME-A-B'' s = Inr s"
  by (simp add: per_cmd_exec_def per_line2argv_def skip_spaces_def args_dash.simps per_exec_cb_def per_commands_def)

end
