(* ===== verification/Per_Data.thy ===== *)
theory Per_Data
  imports Per_Cfg Act_Data
begin

text \<open>
  The data mode of the peripheral module (\<^verbatim>\<open>at/act_data.c\<close>, with the buffer of \<^verbatim>\<open>at/uart_pipe.c\<close>): packets from the UART go through a queue
  of sixty buffers to a thread that sends them as notifications (\<open>ble_send_data\<close> of \<^verbatim>\<open>app_ble.c\<close>, \<open>wp_send_input_report\<close> of \<^verbatim>\<open>profile/wp.c\<close>), and a pin stops the
  sender while few buffers are free. The interrupt may come between any two accesses of the thread to the shared variables.
\<close>

section \<open>State\<close>

text \<open>
  Where the thread is: waiting for a packet, before returning the buffer, before counting it, before releasing the flow control.
\<close>

datatype pd_pc = Pd_Wait | Pd_Send nat bytes | Pd_Return nat | Pd_Count | Pd_Release

record per_data =
  pd_avail :: "nat list"
  pd_datas :: "(nat \<times> bytes) list"
  pd_buf :: nat
  pd_recv :: bytes
  pd_timer :: bool
  pd_timer_started :: bool
  pd_abort :: bool
  avail_buf_count :: u16
  rx_flow_ctr_flag :: bool
  pd_pc :: pd_pc

abbreviation (input) "PER_QUEUED \<equiv> 60 :: nat"
abbreviation (input) "DATA_QUEUE_HIGH_LEVEL \<equiv> 50 :: u16"
abbreviation (input) "DATA_QUEUE_LOW_LEVEL \<equiv> 10 :: u16"

section \<open>Operations\<close>

definition gpio_output_flow_ctrl :: "bool \<Rightarrow> per_state \<Rightarrow> per_state" where
  "gpio_output_flow_ctrl enable s = (if gpio_dev s then per_do (Per_Pin MODULE_FLOW_PIN enable) s else s)"

definition wp_send_input_report :: "per_host \<Rightarrow> u8 \<Rightarrow> bytes \<Rightarrow> per_state \<Rightarrow> s32 \<times> per_state" where
  "wp_send_input_report h reportId data s =
     (if reportId = 1 then if \<not> drv_adc_ntf_enable s then (- EIO, s) else (notify_result h (p_calls s), per_do (Per_Notify 2 data) s)
      else if reportId = 2 then if \<not> rx_ntf_enable s then (- EIO, s) else (notify_result h (p_calls s), per_do (Per_Notify 4 data) s)
      else (- EIO, s))"

function send_chunks :: "per_host \<Rightarrow> bytes \<Rightarrow> per_state \<Rightarrow> s32 \<times> per_state" where
  "send_chunks h data s =
     (if data = [] then (0, s)
      else let send_len = min 20 (length data); (err, s) = wp_send_input_report h 2 (take send_len data) s in
        if err \<noteq> 0 then (err, s) else send_chunks h (drop send_len data) s)"
  by pat_completeness auto
termination
  by (relation "measure (\<lambda>(h, data, s). length data)") auto

declare send_chunks.simps [simp del]

definition per_send_data :: "per_host \<Rightarrow> bytes \<Rightarrow> per_state \<Rightarrow> s32 \<times> per_state" where
  "per_send_data h data s = (if p_conn s then send_chunks h data s else (0, s))"

text \<open>The results of the notifications of the driver service are ignored.\<close>

function ble_send_drv_data :: "per_host \<Rightarrow> bytes \<Rightarrow> per_state \<Rightarrow> per_state" where
  "ble_send_drv_data h data s =
     (if p_conn s \<and> data \<noteq> []
      then let send_len = min 20 (length data); (_, t) = wp_send_input_report h 1 (take send_len data) s in ble_send_drv_data h (drop send_len data) t
      else s)"
  by pat_completeness auto
termination
  by (relation "measure (\<lambda>(h, data, s). length data)") auto

declare ble_send_drv_data.simps [simp del]

text \<open>The callback of the receive interrupt, on the bytes in the current buffer.\<close>

definition per_recv_cb :: "per_data \<times> per_state \<Rightarrow> per_data \<times> per_state" where
  "per_recv_cb = (\<lambda>(a, s).
     let a = (if pd_recv a \<noteq> [] \<and> \<not> pd_timer_started a then a\<lparr>pd_timer_started := True, pd_timer := True\<rparr> else a) in
     if length (pd_recv a) < ACT_DATA_MTU \<and> \<not> pd_abort a then (a, s)
     else let a = (if pd_timer_started a \<and> \<not> pd_abort a then a\<lparr>pd_timer := False\<rparr> else a);
              a = a\<lparr>pd_timer_started := False, pd_abort := False\<rparr> in
       case pd_avail a of
         [] \<Rightarrow> (a\<lparr>pd_recv := []\<rparr>, s)
       | b # bs \<Rightarrow>
           let a = a\<lparr>pd_avail := bs, avail_buf_count := avail_buf_count a - 1\<rparr>;
               (a, s) = (if avail_buf_count a < DATA_QUEUE_LOW_LEVEL \<and> \<not> rx_flow_ctr_flag a
                 then (a\<lparr>rx_flow_ctr_flag := True\<rparr>, gpio_output_flow_ctrl True s) else (a, s)) in
           (a\<lparr>pd_datas := pd_datas a @ [(pd_buf a, pd_recv a)], pd_buf := b, pd_recv := []\<rparr>, s))"

text \<open>One read of the interrupt: the driver returns at most as many bytes as fit the buffer.\<close>

definition uart_pipe_rx :: "bytes \<Rightarrow> per_data \<times> per_state \<Rightarrow> per_data \<times> per_state" where
  "uart_pipe_rx got = (\<lambda>(a, s). per_recv_cb (a\<lparr>pd_recv := pd_recv a @ got\<rparr>, s))"

text \<open>The timer, which runs once.\<close>

definition per_partial_handler :: "per_data \<times> per_state \<Rightarrow> per_data \<times> per_state" where
  "per_partial_handler = (\<lambda>(a, s). per_recv_cb (a\<lparr>pd_timer := False, pd_abort := True\<rparr>, s))"

text \<open>The thread, up to its next access to a shared variable.\<close>

definition per_data_handler :: "per_host \<Rightarrow> per_data \<times> per_state \<Rightarrow> per_data \<times> per_state" where
  "per_data_handler h = (\<lambda>(a, s). case pd_pc a of
     Pd_Wait \<Rightarrow> (case pd_datas a of [] \<Rightarrow> (a, s) | (b, data) # ds \<Rightarrow> (a\<lparr>pd_datas := ds, pd_pc := Pd_Send b data\<rparr>, s))
   | Pd_Send b data \<Rightarrow> (a\<lparr>pd_pc := Pd_Return b\<rparr>, snd (per_send_data h data s))
   | Pd_Return b \<Rightarrow> (a\<lparr>pd_avail := pd_avail a @ [b], pd_pc := Pd_Count\<rparr>, s)
   | Pd_Count \<Rightarrow> (a\<lparr>avail_buf_count := avail_buf_count a + 1, pd_pc := Pd_Release\<rparr>, s)
   | Pd_Release \<Rightarrow>
       if rx_flow_ctr_flag a \<and> avail_buf_count a > DATA_QUEUE_HIGH_LEVEL
       then (a\<lparr>rx_flow_ctr_flag := False, pd_pc := Pd_Wait\<rparr>, gpio_output_flow_ctrl False s) else (a\<lparr>pd_pc := Pd_Wait\<rparr>, s))"

text \<open>Entering the mode: all buffers are free but the one the interrupt fills. The variables of the timer keep their values.\<close>

definition per_enter_data :: "per_data \<Rightarrow> per_data" where
  "per_enter_data a = a\<lparr>pd_avail := [1..<PER_QUEUED], pd_datas := [], pd_buf := 0, pd_recv := [], avail_buf_count := of_nat PER_QUEUED,
     rx_flow_ctr_flag := False, pd_pc := Pd_Wait\<rparr>"

definition act_data_send_data :: "bytes \<Rightarrow> per_state \<Rightarrow> per_state" where
  "act_data_send_data data s = gpio_output_wakeup_host False (per_do (Per_Uart (map byte_char data)) (gpio_output_wakeup_host True s))"

section \<open>Flow control\<close>

text \<open>The buffers a thread holds.\<close>

fun held :: "pd_pc \<Rightarrow> nat list" where
  "held (Pd_Send b data) = [b]"
| "held (Pd_Return b) = [b]"
| "held _ = []"

definition pd_ok :: "per_data \<Rightarrow> bool" where
  "pd_ok a \<longleftrightarrow> mset (pd_avail a) + mset (map fst (pd_datas a)) + {#pd_buf a#} + mset (held (pd_pc a)) = mset [0..<PER_QUEUED] \<and>
     unat (avail_buf_count a) + (if pd_pc a = Pd_Count then 1 else 0) = length (pd_avail a) + 1 \<and> (\<not> rx_flow_ctr_flag a \<longrightarrow> DATA_QUEUE_LOW_LEVEL \<le> avail_buf_count a) \<and>
     length (pd_recv a) < ACT_DATA_MTU \<and> \<not> pd_abort a \<and> (pd_recv a \<noteq> [] \<longrightarrow> pd_timer_started a) \<and> pd_timer a = pd_timer_started a \<and>
     (\<forall>e\<in>set (pd_datas a). length (snd e) \<le> ACT_DATA_MTU)"


lemma count_bound:
  assumes "pd_ok a"
  shows "length (pd_avail a) < 60 \<and> unat (avail_buf_count a) \<le> 60"
proof -
  have "mset (pd_avail a) + mset (map fst (pd_datas a)) + {#pd_buf a#} + mset (held (pd_pc a)) = mset [0..<60]" using assms by (simp add: pd_ok_def)
  then have "size (mset (pd_avail a) + mset (map fst (pd_datas a)) + {#pd_buf a#} + mset (held (pd_pc a))) = size (mset [0..<60])" by (rule arg_cong)
  then have "length (pd_avail a) < 60" by simp
  then show ?thesis using assms by (auto simp: pd_ok_def split: if_splits)
qed

text \<open>When a packet is complete: it is queued and the next buffer taken, or it is dropped for want of a buffer.\<close>

definition pd_take :: "per_data \<Rightarrow> per_data" where
  "pd_take a = (case pd_avail a of [] \<Rightarrow> a\<lparr>pd_recv := [], pd_timer := False, pd_timer_started := False, pd_abort := False\<rparr>
   | b # bs \<Rightarrow> a\<lparr>pd_avail := bs, avail_buf_count := avail_buf_count a - 1, rx_flow_ctr_flag := rx_flow_ctr_flag a \<or> avail_buf_count a - 1 < DATA_QUEUE_LOW_LEVEL,
       pd_datas := pd_datas a @ [(pd_buf a, pd_recv a)], pd_buf := b, pd_recv := [], pd_timer := False, pd_timer_started := False, pd_abort := False\<rparr>)"

definition flow_raised :: "per_data \<Rightarrow> per_state \<Rightarrow> per_state" where
  "flow_raised a s = (if pd_avail a \<noteq> [] \<and> avail_buf_count a - 1 < DATA_QUEUE_LOW_LEVEL \<and> \<not> rx_flow_ctr_flag a then gpio_output_flow_ctrl True s else s)"

lemma recv_cb_complete:
  assumes "length (pd_recv a) = ACT_DATA_MTU" "\<not> pd_abort a"
  shows "per_recv_cb (a, s) = (pd_take a, flow_raised a s)"
proof -
  have "pd_recv a \<noteq> []" using assms(1) by auto
  then show ?thesis using assms by (cases a; cases "pd_avail a"; cases "pd_timer_started a") (auto simp: per_recv_cb_def pd_take_def flow_raised_def Let_def)
qed

lemma recv_cb_abort:
  assumes "pd_abort a" "\<not> pd_timer a" "pd_recv a = [] \<or> pd_timer_started a"
  shows "per_recv_cb (a, s) = (pd_take a, flow_raised a s)"
proof -
  have "\<not> (pd_recv a \<noteq> [] \<and> \<not> pd_timer_started a)" using assms(3) by auto
  then show ?thesis using assms(1,2) by (cases a; cases "pd_avail a") (auto simp: per_recv_cb_def pd_take_def flow_raised_def Let_def)
qed

lemma recv_cb_partial:
  assumes "length (pd_recv a) < ACT_DATA_MTU" "\<not> pd_abort a" "pd_recv a \<noteq> []" "pd_timer a = pd_timer_started a"
  shows "per_recv_cb (a, s) = (a\<lparr>pd_timer_started := True, pd_timer := True\<rparr>, s)"
  using assms by (auto simp: per_recv_cb_def Let_def)


text \<open>What is on the way: the packet the thread is sending, the queue and the current buffer.\<close>

fun sending :: "pd_pc \<Rightarrow> bytes" where
  "sending (Pd_Send b data) = data"
| "sending _ = []"

definition on_way :: "per_data \<Rightarrow> bytes" where
  "on_way a = sending (pd_pc a) @ concat (map snd (pd_datas a)) @ pd_recv a"

lemma pd_take_ok:
  assumes "pd_ok (a\<lparr>pd_recv := r, pd_timer := tm, pd_timer_started := ts, pd_abort := False\<rparr>)" "length (pd_recv a) \<le> ACT_DATA_MTU"
  shows "pd_ok (pd_take a)" "pd_avail a \<noteq> [] \<Longrightarrow> on_way (pd_take a) = on_way a"
proof -
  let ?b = "a\<lparr>pd_recv := r, pd_timer := tm, pd_timer_started := ts, pd_abort := False\<rparr>"
  show "pd_avail a \<noteq> [] \<Longrightarrow> on_way (pd_take a) = on_way a" by (cases "pd_avail a") (auto simp: pd_take_def on_way_def)
  show "pd_ok (pd_take a)"
  proof (cases "pd_avail a")
    case Nil
    then show ?thesis using assms(1) by (auto simp: pd_take_def pd_ok_def)
  next
    case (Cons b bs)
    have "1 \<le> avail_buf_count a" using assms(1) Cons by (auto simp: pd_ok_def word_le_nat_alt split: if_splits)
    then have c: "unat (avail_buf_count a - 1) = unat (avail_buf_count a) - 1" by (simp add: unat_sub)
    show ?thesis
      using assms Cons c by (auto simp: pd_take_def pd_ok_def not_less add_mset_commute ac_simps split: if_splits)
  qed
qed


section \<open>The data mode is a pipe\<close>

text \<open>The bytes in notifications of the data service.\<close>

definition notified :: "per_state \<Rightarrow> bytes" where
  "notified s = concat (map (\<lambda>c. case c of Per_Notify n d \<Rightarrow> if n = 4 then d else [] | _ \<Rightarrow> []) (p_calls s))"

lemma notified_do [simp]: "notified (per_do c s) = notified s @ (case c of Per_Notify n d \<Rightarrow> if n = 4 then d else [] | _ \<Rightarrow> [])"
  by (simp add: notified_def per_do_def)

text \<open>The peer is connected and has enabled notifications.\<close>

definition link_on :: "per_state \<Rightarrow> bool" where
  "link_on s \<longleftrightarrow> p_conn s \<and> rx_ntf_enable s \<and> gpio_dev s"

lemma link_on_do [simp]: "link_on (per_do c s) = link_on s"
  by (simp add: link_on_def per_do_def)

text \<open>The pin of the flow control, as it was written last.\<close>

definition flow_pin :: "per_state \<Rightarrow> bool" where
  "flow_pin s = fold (\<lambda>c x. case c of Per_Pin n b \<Rightarrow> if n = MODULE_FLOW_PIN then b else x | _ \<Rightarrow> x) (p_calls s) False"

lemma flow_pin_do [simp]: "flow_pin (per_do c s) = (case c of Per_Pin n b \<Rightarrow> if n = MODULE_FLOW_PIN then b else flow_pin s | _ \<Rightarrow> flow_pin s)"
  by (cases c) (simp_all add: flow_pin_def per_do_def)

lemma send_packet:
  assumes "link_on s" "\<And>cs. notify_result h cs = 0" "length data \<le> 20"
  shows "link_on (snd (per_send_data h data s)) \<and> notified (snd (per_send_data h data s)) = notified s @ data \<and> flow_pin (snd (per_send_data h data s)) = flow_pin s"
proof (cases "data = []")
  case True
  then show ?thesis using assms by (simp add: per_send_data_def send_chunks.simps)
next
  case False
  then have "send_chunks h data s = (0, per_do (Per_Notify 4 data) s)"
    using assms by (simp add: send_chunks.simps [of h data] send_chunks.simps [of h "[]"] wp_send_input_report_def link_on_def Let_def)
  then show ?thesis using assms(1) by (simp add: per_send_data_def link_on_def per_do_def) (simp add: notified_def flow_pin_def)
qed

text \<open>
  Reads of the interrupt, the timer and the steps of the thread. A sender that obeys the flow control sends nothing while the pin is set, so that the
  interrupt reads nothing then.
\<close>

inductive pd_step :: "per_host \<Rightarrow> per_data \<times> per_state \<Rightarrow> bytes \<Rightarrow> per_data \<times> per_state \<Rightarrow> bool" for h where
  pd_read: "got \<noteq> [] \<Longrightarrow> length (pd_recv a) + length got \<le> ACT_DATA_MTU \<Longrightarrow> \<not> flow_pin s \<Longrightarrow> pd_step h (a, s) got (uart_pipe_rx got (a, s))"
| pd_partial: "pd_timer a \<Longrightarrow> pd_step h (a, s) [] (per_partial_handler (a, s))"
| pd_thread: "pd_step h (a, s) [] (per_data_handler h (a, s))"

inductive_cases pd_stepE: "pd_step h x l y"

definition pd_inv :: "per_data \<times> per_state \<Rightarrow> bool" where
  "pd_inv = (\<lambda>(a, s). pd_ok a \<and> link_on s \<and> flow_pin s = rx_flow_ctr_flag a \<and> (rx_flow_ctr_flag a \<longrightarrow> \<not> pd_timer a) \<and> length (sending (pd_pc a)) \<le> ACT_DATA_MTU)"

lemma flow_raised_ok: "gpio_dev s \<Longrightarrow> link_on (flow_raised a s) = link_on s \<and> notified (flow_raised a s) = notified s \<and>
    (flow_pin s = rx_flow_ctr_flag a \<longrightarrow> flow_pin (flow_raised a s) = rx_flow_ctr_flag (pd_take a))"
  by (cases "pd_avail a") (auto simp: flow_raised_def gpio_output_flow_ctrl_def pd_take_def)

lemma pd_take_pc [simp]: "pd_pc (pd_take a) = pd_pc a"
  by (simp add: pd_take_def split: list.splits)


lemma free_buffer: "pd_ok a \<Longrightarrow> \<not> rx_flow_ctr_flag a \<Longrightarrow> pd_avail a \<noteq> []"
  by (auto simp: pd_ok_def word_le_nat_alt split: if_splits)

lemma take_inv:
  assumes "pd_inv (a, s)" "\<not> rx_flow_ctr_flag a" "length r \<le> ACT_DATA_MTU"
  shows "pd_inv (pd_take (a\<lparr>pd_recv := r, pd_timer := tm, pd_timer_started := ts, pd_abort := ab\<rparr>),
      flow_raised (a\<lparr>pd_recv := r, pd_timer := tm, pd_timer_started := ts, pd_abort := ab\<rparr>) s)"
    "on_way (pd_take (a\<lparr>pd_recv := r, pd_timer := tm, pd_timer_started := ts, pd_abort := ab\<rparr>)) = on_way (a\<lparr>pd_recv := r\<rparr>)"
    "notified (flow_raised (a\<lparr>pd_recv := r, pd_timer := tm, pd_timer_started := ts, pd_abort := ab\<rparr>) s) = notified s"
proof -
  let ?a = "a\<lparr>pd_recv := r, pd_timer := tm, pd_timer_started := ts, pd_abort := ab\<rparr>"
  have i: "pd_ok a" "link_on s" "gpio_dev s" "flow_pin s = rx_flow_ctr_flag ?a" using assms(1) by (auto simp: pd_inv_def link_on_def)
  have "pd_ok (?a\<lparr>pd_recv := pd_recv a, pd_timer := pd_timer a, pd_timer_started := pd_timer_started a, pd_abort := False\<rparr>)" using i(1) by (simp add: pd_ok_def)
  note t = pd_take_ok [OF this] and f = flow_raised_ok [OF i(3), of ?a]
  have "\<not> pd_timer (pd_take ?a)" by (simp add: pd_take_def split: list.splits)
  then show "pd_inv (pd_take ?a, flow_raised ?a s)" using t(1) f i(2,4) assms(1,3) by (simp add: pd_inv_def)
  show "notified (flow_raised ?a s) = notified s" using f by simp
  show "on_way (pd_take ?a) = on_way (a\<lparr>pd_recv := r\<rparr>)" using t(2) assms(3) free_buffer [OF i(1) assms(2)] by (simp add: on_way_def)
qed

lemma rx_inv:
  assumes "pd_inv (a, s)" "\<not> flow_pin s" "got \<noteq> []" "length (pd_recv a) + length got \<le> ACT_DATA_MTU"
  shows "pd_inv (uart_pipe_rx got (a, s))" "on_way (fst (uart_pipe_rx got (a, s))) = on_way a @ got" "notified (snd (uart_pipe_rx got (a, s))) = notified s"
proof -
  let ?r = "pd_recv a @ got"
  have i: "pd_ok a" "\<not> rx_flow_ctr_flag a" using assms(1,2) by (auto simp: pd_inv_def)
  have e: "a\<lparr>pd_recv := ?r\<rparr> = a\<lparr>pd_recv := ?r, pd_timer := pd_timer a, pd_timer_started := pd_timer_started a, pd_abort := pd_abort a\<rparr>" by simp
  have "pd_inv (uart_pipe_rx got (a, s)) \<and> on_way (fst (uart_pipe_rx got (a, s))) = on_way a @ got \<and> notified (snd (uart_pipe_rx got (a, s))) = notified s"
  proof (cases "length ?r = 20")
    case True
    then have "uart_pipe_rx got (a, s) = (pd_take (a\<lparr>pd_recv := ?r\<rparr>), flow_raised (a\<lparr>pd_recv := ?r\<rparr>) s)"
      using recv_cb_complete [of "a\<lparr>pd_recv := ?r\<rparr>" s] i(1) by (simp add: uart_pipe_rx_def pd_ok_def)
    moreover have "pd_inv (pd_take (a\<lparr>pd_recv := ?r\<rparr>), flow_raised (a\<lparr>pd_recv := ?r\<rparr>) s)" "on_way (pd_take (a\<lparr>pd_recv := ?r\<rparr>)) = on_way (a\<lparr>pd_recv := ?r\<rparr>)"
      "notified (flow_raised (a\<lparr>pd_recv := ?r\<rparr>) s) = notified s"
      using take_inv [OF assms(1) i(2), where r = ?r and tm = "pd_timer a" and ts = "pd_timer_started a" and ab = "pd_abort a"] assms(4) unfolding e [symmetric] by simp_all
    ultimately show ?thesis by (simp add: on_way_def)
  next
    case False
    then have "uart_pipe_rx got (a, s) = (a\<lparr>pd_recv := ?r, pd_timer_started := True, pd_timer := True\<rparr>, s)"
      using recv_cb_partial [of "a\<lparr>pd_recv := ?r\<rparr>" s] i(1) assms(3,4) by (simp add: uart_pipe_rx_def pd_ok_def)
    then show ?thesis using assms i False by (simp add: pd_inv_def pd_ok_def on_way_def)
  qed
  then show "pd_inv (uart_pipe_rx got (a, s))" "on_way (fst (uart_pipe_rx got (a, s))) = on_way a @ got" "notified (snd (uart_pipe_rx got (a, s))) = notified s" by blast+
qed

lemma partial_inv:
  assumes "pd_inv (a, s)" "pd_timer a"
  shows "pd_inv (per_partial_handler (a, s)) \<and> on_way (fst (per_partial_handler (a, s))) = on_way a \<and> notified (snd (per_partial_handler (a, s))) = notified s"
proof -
  let ?a = "a\<lparr>pd_recv := pd_recv a, pd_timer := False, pd_timer_started := pd_timer_started a, pd_abort := True\<rparr>"
  have i: "pd_ok a" "\<not> rx_flow_ctr_flag a" using assms by (auto simp: pd_inv_def)
  have "pd_recv a = [] \<or> pd_timer_started a" using i(1) by (auto simp: pd_ok_def)
  then have "per_partial_handler (a, s) = (pd_take ?a, flow_raised ?a s)" using recv_cb_abort [of ?a s] by (simp add: per_partial_handler_def)
  then show ?thesis using take_inv [OF assms(1) i(2), where r = "pd_recv a" and tm = False and ts = "pd_timer_started a" and ab = True] i(1) by (simp add: pd_ok_def)
qed

lemma thread_inv:
  assumes "pd_inv (a, s)" "\<And>cs. notify_result h cs = 0"
  shows "pd_inv (per_data_handler h (a, s)) \<and>
    notified (snd (per_data_handler h (a, s))) @ on_way (fst (per_data_handler h (a, s))) = notified s @ on_way a \<and>
    (\<exists>p. notified (snd (per_data_handler h (a, s))) = notified s @ p)"
proof -
  have i: "pd_ok a" "link_on s" "gpio_dev s" "flow_pin s = rx_flow_ctr_flag a" "rx_flow_ctr_flag a \<longrightarrow> \<not> pd_timer a" "length (sending (pd_pc a)) \<le> 20"
    using assms(1) by (auto simp: pd_inv_def link_on_def)
  show ?thesis
  proof (cases "pd_pc a")
    case Pd_Wait
    then show ?thesis using i by (cases "pd_datas a") (auto simp: per_data_handler_def pd_inv_def pd_ok_def on_way_def add_mset_commute ac_simps)
  next
    case (Pd_Send b data)
    then show ?thesis using send_packet [OF i(2) assms(2), of data] i by (auto simp: per_data_handler_def pd_inv_def pd_ok_def on_way_def add_mset_commute)
  next
    case (Pd_Return b)
    then show ?thesis using i by (auto simp: per_data_handler_def pd_inv_def pd_ok_def on_way_def add_mset_commute ac_simps)
  next
    case Pd_Count
    have "unat (avail_buf_count a + 1) = unat (avail_buf_count a) + 1"
      using count_bound [OF i(1)] by (simp add: unat_word_ariths)
    then show ?thesis using i Pd_Count by (auto simp: per_data_handler_def pd_inv_def pd_ok_def on_way_def word_le_nat_alt)
  next
    case Pd_Release
    then show ?thesis using i by (auto simp: per_data_handler_def gpio_output_flow_ctrl_def pd_inv_def pd_ok_def on_way_def word_le_nat_alt word_less_nat_alt)
  qed
qed


text \<open>A host that accepts every notification.\<close>

definition accepting :: "per_host \<Rightarrow> per_host" where
  "accepting h = h\<lparr>notify_result := \<lambda>_. 0\<rparr>"

definition pd_abs :: "per_data \<times> per_state \<Rightarrow> bytes \<times> bytes" where
  "pd_abs x = (on_way (fst x), notified (snd x))"

lemma pd_step_inv: "pd_step (accepting h) x l y \<Longrightarrow> pd_inv x \<Longrightarrow> pd_inv y"
  by (erule pd_stepE) (use rx_inv(1) partial_inv thread_inv [of _ _ "accepting h"] in \<open>auto simp: accepting_def\<close>)

lemma pd_step_pipe:
  assumes "pd_step (accepting h) x l y" "pd_inv x"
  shows "pipe_step (pd_abs x) l (pd_abs y)"
  using assms(1)
proof cases
  case (pd_read a s)
  then show ?thesis using rx_inv [of a s l] assms(2) accept [of "on_way a" "notified s" l] by (auto simp: pd_abs_def)
next
  case (pd_partial a s)
  then show ?thesis using partial_inv [of a s] assms(2) accept [of "on_way a" "notified s" "[]"] by (auto simp: pd_abs_def)
next
  case (pd_thread a s)
  have "notified (snd y) @ on_way (fst y) = notified s @ on_way a \<and> (\<exists>p. notified (snd y) = notified s @ p)"
    using thread_inv [of a s "accepting h"] assms(2) pd_thread by (simp add: accepting_def)
  then obtain p where "notified (snd y) = notified s @ p" "p @ on_way (fst y) = on_way a" by auto
  then show ?thesis using deliver [of p "on_way (fst y)" "notified s"] pd_thread by (simp add: pd_abs_def)
qed

interpretation pd: simulation "pd_step (accepting h)" pd_inv pipe_step pd_abs
  by unfold_locales (fact pd_step_inv, fact pd_step_pipe)

lemma enter_inv:
  assumes "link_on s" "\<not> flow_pin s" "\<not> pd_abort a" "pd_timer a = pd_timer_started a"
  shows "pd_inv (per_enter_data a, s)" "on_way (per_enter_data a) = []"
proof -
  have "{0..<60 :: nat} = insert 0 {1..<60}" by auto
  then show "pd_inv (per_enter_data a, s)" using assms by (simp add: pd_inv_def pd_ok_def per_enter_data_def)
  show "on_way (per_enter_data a) = []" by (simp add: on_way_def per_enter_data_def)
qed

text \<open>
  C23 (refinement). The data mode is a pipe that loses nothing: from the moment it is entered, with a peer that has enabled notifications and whose host accepts
  them, and a sender that stops while the flow control pin is set, every interleaving of the receive interrupt, the timer and the thread implements a queue of bytes. The bytes notified
  and those on their way are together exactly those received, in order, and a buffer is free for the interrupt whenever the pin is clear.
\<close>

theorem per_data_pipe:
  assumes "link_on s" "\<not> flow_pin s" "\<not> pd_abort a" "pd_timer a = pd_timer_started a" "lrun (pd_step (accepting h)) (per_enter_data a, s) ls (b, t)"
  shows "lrun pipe_step ([], notified s) ls (on_way b, notified t) \<and> notified t @ on_way b = notified s @ concat ls \<and> (\<not> flow_pin t \<longrightarrow> pd_avail b \<noteq> [])"
proof -
  note e = enter_inv [OF assms(1-4)]
  have r: "lrun pipe_step ([], notified s) ls (on_way b, notified t)" using pd.run_simulates [OF assms(5) e(1)] e(2) by (simp add: pd_abs_def)
  have "pd_inv (b, t)" using pd.inv_run [OF assms(5) e(1)] .
  then have "\<not> flow_pin t \<longrightarrow> pd_avail b \<noteq> []" using free_buffer by (simp add: pd_inv_def)
  then show ?thesis using r pipe_run [OF r] by simp
qed

definition pd_zero :: per_data where
  "pd_zero = \<lparr>pd_avail = [], pd_datas = [], pd_buf = 0, pd_recv = [], pd_timer = False, pd_timer_started = False, pd_abort = False, avail_buf_count = 0,
     rx_flow_ctr_flag = False, pd_pc = Pd_Wait\<rparr>"

definition per_linked :: per_state where
  "per_linked = (per_fresh [])\<lparr>p_conn := True, rx_ntf_enable := True\<rparr>"

theorem per_data_pipe_witness:
  "\<exists>x. lrun (pd_step (accepting per_memory)) (per_enter_data pd_zero, per_linked) [[72, 105], []] x \<and> notified (snd x) @ on_way (fst x) = [72, 105]"
proof -
  let ?x = "(per_enter_data pd_zero, per_linked)"
  have c: "link_on per_linked" "\<not> flow_pin per_linked" "notified per_linked = []" "\<not> pd_abort pd_zero" "pd_timer pd_zero = pd_timer_started pd_zero" "pd_recv (per_enter_data pd_zero) = []"
    by (simp_all add: link_on_def flow_pin_def notified_def per_linked_def per_fresh_def pd_zero_def per_enter_data_def)
  have "pd_step (accepting per_memory) ?x [72, 105] (uart_pipe_rx [72, 105] ?x)" using c by (intro pd_read) simp_all
  moreover obtain a s where y: "uart_pipe_rx [72, 105] ?x = (a, s)" by fastforce
  moreover obtain b t where z: "per_data_handler (accepting per_memory) (a, s) = (b, t)" by fastforce
  moreover have "pd_step (accepting per_memory) (a, s) [] (per_data_handler (accepting per_memory) (a, s))" by (rule pd_thread)
  ultimately have r: "lrun (pd_step (accepting per_memory)) ?x [[72, 105], []] (b, t)" by (metis lrun_Cons lrun_Nil)
  have "notified t @ on_way b = notified per_linked @ concat [[72, 105], []]" using per_data_pipe [OF c(1,2,4,5) r] by blast
  then show ?thesis using r c(3) by (intro exI [of _ "(b, t)"]) simp
qed

end
