(* ===== verification/Per_Main.thy ===== *)
theory Per_Main
  imports Per_Data
begin

text \<open>
  The peripheral module as a whole: command and data mode (\<^verbatim>\<open>at/at_cmd.c\<close>, \<^verbatim>\<open>at/uart_at.c\<close>, \<^verbatim>\<open>at/act_data.c\<close>), the callbacks of \<^verbatim>\<open>app_ble.c\<close> and
  \<^verbatim>\<open>profile/wp.c\<close>, the pins (\<^verbatim>\<open>app_gpio.c\<close>), the analog input (\<^verbatim>\<open>app_adc.c\<close>), the battery (\<^verbatim>\<open>app_batt.c\<close>), pulse width modulation (\<^verbatim>\<open>app_pwm.c\<close>) and the
  message loop (\<^verbatim>\<open>main.c\<close>).
\<close>

section \<open>Receiving command lines\<close>

text \<open>
  The three line buffers, as in the other module: the interrupt stores at most 127 characters, since it takes the buffer for a \<open>struct console_input\<close>, and a line
  ends with a carriage return.
\<close>

record per_rx =
  rx_avail :: "nat list"
  rx_lines :: "(nat \<times> string) list"
  rx_cmd :: "(nat \<times> string) option"

definition per_rx_store :: "nat \<Rightarrow> string \<Rightarrow> char \<Rightarrow> per_rx \<Rightarrow> per_rx" where
  "per_rx_store b l c r =
     (if \<not> is_print c then if c = CHR 0x0D then r\<lparr>rx_lines := rx_lines r @ [(b, l)], rx_cmd := None\<rparr> else r\<lparr>rx_cmd := Some (b, l)\<rparr>
      else r\<lparr>rx_cmd := Some (b, if length l < 127 then l @ [c] else l)\<rparr>)"

definition uart_at_isr :: "char \<Rightarrow> per_rx \<Rightarrow> per_rx" where
  "uart_at_isr c r = (case rx_cmd r of
     Some (b, l) \<Rightarrow> per_rx_store b l c r
   | None \<Rightarrow> (case rx_avail r of [] \<Rightarrow> r | b # bs \<Rightarrow> per_rx_store b [] c (r\<lparr>rx_avail := bs\<rparr>)))"

section \<open>Modes\<close>

datatype uart_sink = No_Sink | At_Sink | Pipe_Sink

record per_sys =
  ps :: per_state
  pd :: per_data
  rx :: per_rx
  sink :: uart_sink

definition on_ps :: "(per_state \<Rightarrow> per_state) \<Rightarrow> per_sys \<Rightarrow> per_sys" where
  "on_ps f x = x\<lparr>ps := f (ps x)\<rparr>"

definition per_enter_at_cmd_mode :: "per_sys \<Rightarrow> per_sys res" where
  "per_enter_at_cmd_mode x =
     (let x = on_ps (gpio_output_flow_ctrl False) x in
      if at_cmd_thread_id (ps x) then Inl Bad_Thread
      else Inr (x\<lparr>ps := (ps x)\<lparr>at_cmd_thread_id := True\<rparr>, rx := \<lparr>rx_avail = [0, 1, 2], rx_lines = [], rx_cmd = None\<rparr>, sink := At_Sink\<rparr>))"

definition per_exit_at_cmd_mode :: "per_sys \<Rightarrow> per_sys" where
  "per_exit_at_cmd_mode x = x\<lparr>ps := (ps x)\<lparr>at_cmd_thread_id := False\<rparr>, sink := No_Sink\<rparr>"

definition per_enter_data_mode :: "per_sys \<Rightarrow> per_sys res" where
  "per_enter_data_mode x =
     (let x = on_ps (gpio_output_flow_ctrl False) x in
      if data_thread_id (ps x) then Inl Bad_Thread
      else Inr (x\<lparr>ps := (ps x)\<lparr>data_thread_id := True\<rparr>, pd := per_enter_data (pd x), sink := Pipe_Sink\<rparr>))"

definition per_exit_data_mode :: "per_sys \<Rightarrow> per_sys" where
  "per_exit_data_mode x = x\<lparr>ps := (ps x)\<lparr>data_thread_id := False\<rparr>, sink := No_Sink\<rparr>"

definition gpio_output_notify_state :: "bool \<Rightarrow> per_state \<Rightarrow> per_state" where
  "gpio_output_notify_state enable s = (if gpio_dev s then per_do (Per_Pin MODULE_NTF_PIN enable) s else s)"

definition per_connected :: "u8 \<Rightarrow> per_sys \<Rightarrow> per_sys res" where
  "per_connected err x =
     (if err \<noteq> 0 then Inr x
      else let x = on_ps (\<lambda>s. s\<lparr>p_conn := True\<rparr>) x in
        rbind (if rssi_mode (ps x) = 0 then per_enter_data_mode (per_exit_at_cmd_mode x) else Inr x) (\<lambda>x. Inr (on_ps (gpio_output_notify_state True) x)))"

text \<open>The restart after an update is left out: it ends the run.\<close>

definition per_disconnected :: "per_sys \<Rightarrow> per_sys res" where
  "per_disconnected x =
     rbind (per_enter_at_cmd_mode (per_exit_data_mode (on_ps (\<lambda>s. s\<lparr>p_conn := False\<rparr>) x))) (\<lambda>x.
     Inr (on_ps (per_post Per_Conn_Closed) (on_ps (gpio_output_notify_state False) x)))"

definition per_bt_ready :: "per_host \<Rightarrow> int \<Rightarrow> per_sys \<Rightarrow> per_sys res" where
  "per_bt_ready h err x =
     (if err \<noteq> 0 then Inr x
      else rbind (load_app_cfg_from_nv h (ps x)) (\<lambda>s.
        rbind (per_enter_at_cmd_mode (x\<lparr>ps := s\<rparr>)) (\<lambda>x. Inr (on_ps (\<lambda>s. ble_exec_adv_op (adv_state s) s) x))))"

definition app_cfg_event_handle :: "per_sys \<Rightarrow> per_sys res" where
  "app_cfg_event_handle x = (if rssi_mode (ps x) = 0 \<and> p_conn (ps x) then per_enter_data_mode (per_exit_at_cmd_mode x) else Inr x)"

definition clear_ble_state_before_suspend :: "per_state \<Rightarrow> per_state" where
  "clear_ble_state_before_suspend s =
     (if p_conn s then per_do Per_Disconnect s else if adv_state s \<noteq> ADV_STOP then per_do Per_Adv_Stop s else s)\<lparr>force_sleep := True\<rparr>"

definition set_ble_state_after_resume :: "per_state \<Rightarrow> per_state" where
  "set_ble_state_after_resume s =
     (let s = s\<lparr>force_sleep := False\<rparr> in if \<not> p_conn s \<and> adv_state s \<noteq> ADV_STOP then ble_exec_adv_op (adv_state s) s else s)"

definition gpio_event_handle :: "bool \<Rightarrow> per_state \<Rightarrow> per_state" where
  "gpio_event_handle exit_low_power s = (if exit_low_power then set_ble_state_after_resume s else clear_ble_state_before_suspend s)"

definition per_event_handle :: "per_state \<Rightarrow> per_state" where
  "per_event_handle s = (if \<not> force_sleep s then ble_exec_adv_op (adv_state s) s else s)"

section \<open>Pins, analog input and pulse width modulation\<close>

abbreviation (input) "MODULE_EN_PIN \<equiv> 18 :: nat"
abbreviation (input) "MODULE_RTS_PIN \<equiv> 1 :: nat"
abbreviation (input) "MODULE_RESET_PIN \<equiv> 8 :: nat"

text \<open>The interrupt of a pin with its level.\<close>

definition app_gpio_callback_handler :: "nat \<Rightarrow> bool \<Rightarrow> per_state \<Rightarrow> per_state" where
  "app_gpio_callback_handler pin val s =
     (let s = (if pin = MODULE_EN_PIN then if \<not> val then per_post (Per_Gpio True) (per_do (Per_Busy True) s)
                 else per_do (Per_Busy False) (per_post (Per_Gpio False) s) else s);
          s = (if rts_func_enable s \<noteq> 0 \<and> pin = MODULE_RTS_PIN then per_do (Per_Busy (\<not> val)) s else s) in
      if pin = MODULE_RESET_PIN then per_do Per_Reboot (set_app_cfg_to_default s) else s)"

abbreviation (input) "ADC_ID_BATV \<equiv> 0 :: u8"
abbreviation (input) "ADC_ID_CH0 \<equiv> 2 :: u8"
abbreviation (input) "MODULE_ADC0_PIN \<equiv> 5 :: u8"

definition adc_get :: "per_host \<Rightarrow> u8 \<Rightarrow> per_state \<Rightarrow> u32" where
  "adc_get h channel_id s =
     (let raw = adc_value h (p_calls s) channel_id in
      ucast (if channel_id = ADC_ID_BATV then of_nat (unat raw * 3600 div 1024) else raw :: u16))"

definition adc_bytes :: "u32 \<Rightarrow> bytes" where
  "adc_bytes val = [ucast (val div 1000), ucast ((val - val div 1000 * 1000) div 10)]"

definition adc_event_handle :: "per_host \<Rightarrow> u8 \<Rightarrow> per_state \<Rightarrow> per_state" where
  "adc_event_handle h event s =
     (if event = 1 then ble_send_drv_data h (adc_bytes (adc_get h ADC_ID_BATV s)) s
      else if event = 2 then ble_send_drv_data h (adc_bytes (adc_get h (ADC_ID_CH0 + MODULE_ADC0_PIN) s)) s else s)"

text \<open>The battery: the level for a conversion, and whether the handler for a very low battery runs.\<close>

definition update_battry_value :: "u16 \<Rightarrow> u8 \<times> bool" where
  "update_battry_value raw =
     (let batt_val = of_nat (unat raw * 3600 div 1024) :: u16; low = batt_val \<le> 1800;
          batt_val = (if batt_val \<le> 1800 then 1800 else if batt_val \<ge> 3250 then 3250 else batt_val) in
      (of_nat ((unat batt_val - 1800) * 100 div (3250 - 1800)), low))"

definition pwm_duty_max_tbl :: "u32 list" where
  "pwm_duty_max_tbl = [20000, 10000, 5000, 2500, 2000, 1250, 1000, 500, 250, 200, 125, 100, 50, 40, 25, 20, 10, 8, 5, 4]"

text \<open>A local variable that may be uninitialised. The settings of polarity and pins, always the same, are left out.\<close>

definition the_var :: "'a option \<Rightarrow> 'a res" where
  "the_var v = (case v of Some x \<Rightarrow> Inr x | None \<Rightarrow> Inl Uninit_Read)"

definition duty_of :: "u32 option \<Rightarrow> u8 \<Rightarrow> u32 option res" where
  "duty_of duty_max p = (if p \<noteq> 0 then rbind (the_var duty_max) (\<lambda>m. Inr (Some (m * ucast p div 100))) else Inr None)"

definition set_pwm :: "nat \<Rightarrow> u32 option \<Rightarrow> u32 option \<Rightarrow> per_state \<Rightarrow> per_state res" where
  "set_pwm chan period pulse s = rbind (the_var period) (\<lambda>m. rbind (the_var pulse) (\<lambda>d. Inr (per_do (Per_Pwm chan m d) s)))"

definition pwm_cmd_handle :: "bytes \<Rightarrow> per_state \<Rightarrow> per_state res" where
  "pwm_cmd_handle cmd s =
     (if \<not> pwm_dev s \<or> cmd ! 0 \<noteq> 0x97 \<or> cmd ! 1 > 3 \<or> cmd ! 2 > 20 \<or> cmd ! 3 > 100 \<or> cmd ! 4 > 20 \<or> cmd ! 5 > 100 then Inr s
      else
        let max0 = (if cmd ! 2 \<noteq> 0 then Some (pwm_duty_max_tbl ! (unat (cmd ! 2) - 1)) else None);
            max1 = (if cmd ! 4 \<noteq> 0 then Some (pwm_duty_max_tbl ! (unat (cmd ! 4) - 1)) else None) in
        rbind (duty_of max0 (cmd ! 3)) (\<lambda>d0. rbind (duty_of max1 (cmd ! 5)) (\<lambda>d1.
        if cmd ! 1 = 0 then rbind (set_pwm 1 max0 d0 s) (set_pwm 3 max1 d1)
        else if cmd ! 1 = 1 then rbind (set_pwm 1 max0 (Some 0) s) (set_pwm 3 max1 (Some 0))
        else if cmd ! 1 = 2 then set_pwm 1 max0 d0 s
        else set_pwm 3 max1 d1 s)))"

section \<open>Characteristics\<close>

text \<open>The result is the length of the write, or nothing for an error.\<close>

definition rx_write_cb :: "bytes \<Rightarrow> u16 \<Rightarrow> per_state \<Rightarrow> nat option \<times> per_state" where
  "rx_write_cb buf offset s = (if unat offset + length buf > 256 then (None, s) else (Some (length buf), act_data_send_data buf s))"

definition adc_write_cb :: "bytes \<Rightarrow> u16 \<Rightarrow> per_state \<Rightarrow> nat option \<times> per_state" where
  "adc_write_cb buf offset s =
     (if unat offset + length buf > 256 then (None, s)
      else (Some (length buf), if length buf = 2 \<and> buf ! 0 = 0xAD then per_post (Per_Adc (buf ! 1)) s else s))"

definition pwm_write_cb :: "bytes \<Rightarrow> u16 \<Rightarrow> per_state \<Rightarrow> (nat option \<times> per_state) res" where
  "pwm_write_cb buf offset s =
     (if unat offset + length buf > 256 then Inr (None, s)
      else rbind (if length buf = 6 \<and> buf ! 0 = 0x97 then pwm_cmd_handle buf s else Inr s) (\<lambda>s. Inr (Some (length buf), s)))"

definition data_ccc_cfg_changed :: "u16 \<Rightarrow> per_state \<Rightarrow> per_state" where
  "data_ccc_cfg_changed value s = s\<lparr>rx_ntf_enable := (value = 1)\<rparr>"

definition drv_ccc_cfg_changed :: "u16 \<Rightarrow> per_state \<Rightarrow> per_state" where
  "drv_ccc_cfg_changed value s = s\<lparr>drv_adc_ntf_enable := (value = 1)\<rparr>"

section \<open>The main loop and the command thread\<close>

definition per_main :: "per_host \<Rightarrow> per_sys \<Rightarrow> per_sys res" where
  "per_main h x = (case p_msgs (ps x) of
     [] \<Rightarrow> Inr x
   | m # ms \<Rightarrow> let x = on_ps (\<lambda>s. s\<lparr>p_msgs := ms\<rparr>) x in (case m of
       Per_Conn_Closed \<Rightarrow> Inr (on_ps per_event_handle x)
     | Per_Gpio b \<Rightarrow> Inr (on_ps (gpio_event_handle b) x)
     | Per_Adc e \<Rightarrow> Inr (on_ps (adc_event_handle h e) x)
     | Per_Exit_Rssi \<Rightarrow> app_cfg_event_handle x))"

definition per_cmd_handler :: "per_host \<Rightarrow> per_sys \<Rightarrow> per_sys res" where
  "per_cmd_handler h x = (case rx_lines (rx x) of
     [] \<Rightarrow> Inr x
   | (b, line) # ls \<Rightarrow>
       rbind (per_cmd_exec h line (ps x)) (\<lambda>s. Inr (x\<lparr>ps := s, rx := (rx x)\<lparr>rx_lines := ls, rx_avail := rx_avail (rx x) @ [b]\<rparr>\<rparr>)))"

section \<open>One mode at a time\<close>

text \<open>What can happen, and when.\<close>

datatype per_event = Sys_Connected u8 | Sys_Disconnected | Sys_Main | Sys_Char char | Sys_Line | Sys_Read bytes | Sys_Timer | Sys_Thread | Sys_Pin nat bool
| Sys_Write_Rx bytes u16 | Sys_Write_Adc bytes u16 | Sys_Write_Pwm bytes u16 | Sys_Ccc bool u16

definition per_enabled :: "per_event \<Rightarrow> per_sys \<Rightarrow> bool" where
  "per_enabled e x \<longleftrightarrow> (case e of
     Sys_Connected _ \<Rightarrow> \<not> p_conn (ps x) | Sys_Disconnected \<Rightarrow> p_conn (ps x) | Sys_Char _ \<Rightarrow> sink x = At_Sink | Sys_Line \<Rightarrow> at_cmd_thread_id (ps x)
   | Sys_Read _ \<Rightarrow> sink x = Pipe_Sink | Sys_Timer \<Rightarrow> pd_timer (pd x) | Sys_Thread \<Rightarrow> data_thread_id (ps x) | _ \<Rightarrow> True)"

definition on_data :: "(per_data \<times> per_state \<Rightarrow> per_data \<times> per_state) \<Rightarrow> per_sys \<Rightarrow> per_sys" where
  "on_data f x = (let (a, s) = f (pd x, ps x) in x\<lparr>pd := a, ps := s\<rparr>)"

definition per_sys_do :: "per_host \<Rightarrow> per_event \<Rightarrow> per_sys \<Rightarrow> per_sys res" where
  "per_sys_do h e x = (case e of
     Sys_Connected err \<Rightarrow> per_connected err x
   | Sys_Disconnected \<Rightarrow> per_disconnected x
   | Sys_Main \<Rightarrow> per_main h x
   | Sys_Char c \<Rightarrow> Inr (x\<lparr>rx := uart_at_isr c (rx x)\<rparr>)
   | Sys_Line \<Rightarrow> per_cmd_handler h x
   | Sys_Read got \<Rightarrow> Inr (on_data (uart_pipe_rx got) x)
   | Sys_Timer \<Rightarrow> Inr (on_data per_partial_handler x)
   | Sys_Thread \<Rightarrow> Inr (on_data (per_data_handler h) x)
   | Sys_Pin pin val \<Rightarrow> Inr (on_ps (app_gpio_callback_handler pin val) x)
   | Sys_Write_Rx buf off \<Rightarrow> Inr (on_ps (\<lambda>s. snd (rx_write_cb buf off s)) x)
   | Sys_Write_Adc buf off \<Rightarrow> Inr (on_ps (\<lambda>s. snd (adc_write_cb buf off s)) x)
   | Sys_Write_Pwm buf off \<Rightarrow> rbind (pwm_write_cb buf off (ps x)) (\<lambda>(_, s). Inr (x\<lparr>ps := s\<rparr>))
   | Sys_Ccc data value \<Rightarrow> Inr (on_ps (if data then data_ccc_cfg_changed value else drv_ccc_cfg_changed value) x))"

definition per_sys_step :: "per_host \<Rightarrow> per_sys \<Rightarrow> per_event \<Rightarrow> per_sys \<Rightarrow> bool" where
  "per_sys_step h x e y \<longleftrightarrow> per_enabled e x \<and> per_sys_do h e x = Inr y"

text \<open>The connection and the threads, which only the mode switches change.\<close>

definition threads :: "per_state \<Rightarrow> bool \<times> bool \<times> bool" where
  "threads s = (p_conn s, at_cmd_thread_id s, data_thread_id s)"

definition mode_ok :: "per_sys \<Rightarrow> bool" where
  "mode_ok x \<longleftrightarrow> at_cmd_thread_id (ps x) = (\<not> data_thread_id (ps x)) \<and> (data_thread_id (ps x) \<longrightarrow> p_conn (ps x)) \<and>
     sink x = (if at_cmd_thread_id (ps x) then At_Sink else Pipe_Sink)"

lemma threads_do [simp]: "threads (per_do c s) = threads s"
  by (simp add: threads_def per_do_def)

lemma threads_ops [simp]: "threads (at_cmd_port_print t s) = threads s" "threads (ble_exec_adv_op st s) = threads s" "threads (per_post m s) = threads s"
  "threads (nv_set8 k v s) = threads s" "threads (nv_set16 k w s) = threads s" "threads (uart_baudrate_set b s) = threads s" "threads (gpio_output_flow_ctrl e s) = threads s"
  "threads (gpio_output_notify_state e s) = threads s" "threads (set_app_cfg_to_default s) = threads s"
  by (simp_all add: threads_def at_cmd_port_print_def gpio_output_wakeup_host_def ble_exec_adv_op_def per_post_def nv_set8_def nv_set16_def uart_baudrate_set_def
      gpio_output_flow_ctrl_def gpio_output_notify_state_def set_app_cfg_to_default_def per_do_def Let_def)

lemma threads_resp [simp]: "threads (per_response t s) = threads s" "threads (per_response_error s) = threads s" "threads (per_response_ok s) = threads s"
  "threads (per_echo t p s) = threads s" "threads (rssi_answer r s) = threads s"
  by (simp_all add: response_defs)

lemma threads_upd [simp]: "threads (s\<lparr>adv_state := a\<rparr>) = threads s" "threads (s\<lparr>adv_interval := w\<rparr>) = threads s" "threads (s\<lparr>conn_interval := w\<rparr>) = threads s"
  "threads (s\<lparr>tx_power_level_index := a\<rparr>) = threads s" "threads (s\<lparr>data_srv_uuid := w\<rparr>) = threads s" "threads (s\<lparr>tx_char_uuid := w\<rparr>) = threads s"
  "threads (s\<lparr>rx_char_uuid := w\<rparr>) = threads s" "threads (s\<lparr>drv_srv_uuid := w\<rparr>) = threads s" "threads (s\<lparr>adc_char_uuid := w\<rparr>) = threads s"
  "threads (s\<lparr>pwm_char_uuid := w\<rparr>) = threads s" "threads (s\<lparr>rssi_mode := a\<rparr>) = threads s" "threads (s\<lparr>rts_func_enable := a\<rparr>) = threads s"
  "threads (s\<lparr>baud_index := a\<rparr>) = threads s" "threads (s\<lparr>adv_name_data := d\<rparr>) = threads s" "threads (s\<lparr>adv_name_len := a\<rparr>) = threads s"
  "threads (s\<lparr>adv_user_data := d\<rparr>) = threads s" "threads (s\<lparr>p_msgs := m\<rparr>) = threads s" "threads (s\<lparr>force_sleep := b\<rparr>) = threads s"
  "threads (s\<lparr>rx_ntf_enable := b\<rparr>) = threads s" "threads (s\<lparr>drv_adc_ntf_enable := b\<rparr>) = threads s"
  by (simp_all add: threads_def)

lemma set_threads:
  "per_adv_set p s = Inr t \<Longrightarrow> threads t = threads s" "per_adv_interval_set p s = Inr t \<Longrightarrow> threads t = threads s" "per_adv_name_set p s = Inr t \<Longrightarrow> threads t = threads s"
  "per_baudrate_set p s = Inr t \<Longrightarrow> threads t = threads s" "per_conn_interval_set p s = Inr t \<Longrightarrow> threads t = threads s" "per_tx_power_set p s = Inr t \<Longrightarrow> threads t = threads s"
  "per_adv_data_set p s = Inr t \<Longrightarrow> threads t = threads s" "per_rssi_set h p s = Inr t \<Longrightarrow> threads t = threads s" "per_rts_func_set p s = Inr t \<Longrightarrow> threads t = threads s"
  subgoal by (auto simp: per_adv_set_def rbind_eq_Inr split: if_splits)
  subgoal by (auto simp: per_adv_interval_set_def rbind_eq_Inr Let_def split: if_splits)
  subgoal by (auto simp: per_adv_name_set_def rbind_eq_Inr Let_def)
  subgoal by (auto simp: per_baudrate_set_def rbind_eq_Inr split: if_splits)
  subgoal by (auto simp: per_conn_interval_set_def rbind_eq_Inr Let_def split: if_splits)
  subgoal by (auto simp: per_tx_power_set_def rbind_eq_Inr split: if_splits)
  subgoal by (auto simp: per_adv_data_set_def rbind_eq_Inr Let_def)
  subgoal by (auto simp: per_rssi_set_def rbind_eq_Inr split: if_splits)
  subgoal by (auto simp: per_rts_func_set_def rbind_eq_Inr Let_def split: if_splits)
  done

lemma sets_threads:
  assumes "(k, e) \<in> set (per_commands h)" "set_fun e = Some f" "f p s = Inr t"
  shows "threads t = threads s"
proof -
  have "list_all (\<lambda>(k, e). case set_fun e of None \<Rightarrow> True | Some f \<Rightarrow> (\<forall>t. f p s = Inr t \<longrightarrow> threads t = threads s)) (per_commands h)"
    by (simp add: per_commands_def set_get_def exec_only_def total_def uuid_defs set_threads Let_def)
  then show ?thesis using assms by (fastforce simp: list_all_iff)
qed

lemma gets_threads:
  assumes "(k, e) \<in> set (per_commands h)" "get_fun e = Some g \<or> exec_fun e = Some g"
  shows "threads (g s) = threads s"
proof -
  have "list_all (\<lambda>(k, e). (case get_fun e of None \<Rightarrow> True | Some g \<Rightarrow> threads (g s) = threads s) \<and> (case exec_fun e of None \<Rightarrow> True | Some g \<Rightarrow> threads (g s) = threads s)) (per_commands h)"
    by (simp add: per_commands_def set_get_def exec_only_def get_defs per_bt_addr_def per_ver_info_def per_reset_def Let_def)
  then show ?thesis using assms by (fastforce simp: list_all_iff)
qed

lemma exec_threads: "per_cmd_exec h line s = Inr t \<Longrightarrow> threads t = threads s"
  by (erule per_exec_cases) (auto dest: gets_threads sets_threads)

lemma threads_upd2 [simp]: "threads (s\<lparr>app_bt_addr_str := q\<rparr>) = threads s"
  by (simp add: threads_def)

lemma load_threads: "load_app_cfg_from_nv h s = Inr t \<Longrightarrow> threads t = threads s"
proof -
  have n: "load_name h u = Inr v \<Longrightarrow> threads v = threads u" for u v
    by (auto simp: load_name_def rbind_eq_Inr Let_def split: option.splits)
  have d: "(case x of None \<Rightarrow> Inr u | Some b \<Rightarrow> rbind (mem_cpy (adv_user_data u) 0 b 6) (\<lambda>d. Inr (u\<lparr>adv_user_data := d\<rparr>))) = Inr v \<Longrightarrow> threads v = threads u" for x u v
    by (auto simp: rbind_eq_Inr split: option.splits)
  assume "load_app_cfg_from_nv h s = Inr t"
  then show ?thesis unfolding load_app_cfg_from_nv_def Let_def by (auto simp: rbind_eq_Inr dest!: n d)
qed

lemma report_threads [simp]: "threads (snd (wp_send_input_report h i d s)) = threads s"
  by (simp add: wp_send_input_report_def)

lemma chunks_threads [simp]: "threads (snd (send_chunks h data s)) = threads s"
proof (induction h data s rule: send_chunks.induct)
  case (1 h data s)
  obtain err t where r: "wp_send_input_report h 2 (take (min 20 (length data)) data) s = (err, t)" by fastforce
  then have "threads t = threads s" using report_threads [of h 2 "take (min 20 (length data)) data" s] by simp
  then show ?case using 1 r by (simp add: send_chunks.simps [of h data s] Let_def)
qed

lemma drv_threads [simp]: "threads (ble_send_drv_data h data s) = threads s"
proof (induction h data s rule: ble_send_drv_data.induct)
  case (1 h data s)
  obtain err t where r: "wp_send_input_report h 1 (take (min 20 (length data)) data) s = (err, t)" by fastforce
  then have "threads t = threads s" using report_threads [of h 1 "take (min 20 (length data)) data" s] by simp
  then show ?case using 1 r by (simp add: ble_send_drv_data.simps [of h data s] Let_def)
qed

lemma recv_threads [simp]: "threads (snd (per_recv_cb y)) = threads (snd y)"
  by (cases y) (simp add: per_recv_cb_def Let_def split: list.splits)

lemma on_data_eq: "on_data f x = x\<lparr>pd := fst (f (pd x, ps x)), ps := snd (f (pd x, ps x))\<rparr>"
  by (simp add: on_data_def split: prod.splits)

lemma data_threads [simp]: "threads (ps (on_data (uart_pipe_rx got) x)) = threads (ps x)" "threads (ps (on_data per_partial_handler x)) = threads (ps x)"
  "threads (ps (on_data (per_data_handler h) x)) = threads (ps x)" "sink (on_data f x) = sink x"
  subgoal by (simp add: on_data_eq uart_pipe_rx_def)
  subgoal by (simp add: on_data_eq per_partial_handler_def)
  subgoal by (simp add: on_data_eq per_data_handler_def per_send_data_def split: pd_pc.splits list.splits)
  subgoal by (simp add: on_data_eq)
  done

lemma handler_threads [simp]: "threads (clear_ble_state_before_suspend s) = threads s" "threads (set_ble_state_after_resume s) = threads s" "threads (per_event_handle s) = threads s"
  "threads (adc_event_handle h e s) = threads s" "threads (app_gpio_callback_handler pin val s) = threads s" "threads (snd (rx_write_cb buf off s)) = threads s"
  "threads (snd (adc_write_cb buf off s)) = threads s" "threads (data_ccc_cfg_changed v s) = threads s" "threads (drv_ccc_cfg_changed v s) = threads s"
  by (simp_all add: clear_ble_state_before_suspend_def set_ble_state_after_resume_def per_event_handle_def adc_event_handle_def app_gpio_callback_handler_def rx_write_cb_def
      adc_write_cb_def act_data_send_data_def gpio_output_wakeup_host_def data_ccc_cfg_changed_def drv_ccc_cfg_changed_def Let_def)

lemma pwm_threads: "pwm_write_cb buf off s = Inr (n, t) \<Longrightarrow> threads t = threads s"
  by (auto simp: pwm_write_cb_def pwm_cmd_handle_def set_pwm_def rbind_eq_Inr Let_def split: if_splits)

text \<open>The handlers that switch no mode.\<close>

lemma mode_cong: "threads (ps x) = threads (ps y) \<Longrightarrow> sink x = sink y \<Longrightarrow> mode_ok x = mode_ok y"
  by (simp add: mode_ok_def threads_def)

lemma on_ps_simps [simp]: "ps (on_ps f x) = f (ps x)" "sink (on_ps f x) = sink x" "pd (on_ps f x) = pd x" "rx (on_ps f x) = rx x"
  by (simp_all add: on_ps_def)

lemma mode_on_ps [simp]: "(\<And>s. threads (f s) = threads s) \<Longrightarrow> mode_ok (on_ps f x) = mode_ok x"
  by (rule mode_cong) simp_all

lemma line_mode: "per_cmd_handler h x = Inr y \<Longrightarrow> mode_ok x = mode_ok y"
  by (rule mode_cong) (auto simp: per_cmd_handler_def rbind_eq_Inr exec_threads split: list.splits)

lemma flow_fields [simp]: "at_cmd_thread_id (gpio_output_flow_ctrl e s) = at_cmd_thread_id s" "data_thread_id (gpio_output_flow_ctrl e s) = data_thread_id s"
  "p_conn (gpio_output_flow_ctrl e s) = p_conn s" "rssi_mode (gpio_output_flow_ctrl e s) = rssi_mode s"
  by (simp_all add: gpio_output_flow_ctrl_def per_do_def)

text \<open>Entering a mode.\<close>

lemma enter_data_eq:
  "\<not> data_thread_id (ps x) \<Longrightarrow> per_enter_data_mode x =
     Inr (x\<lparr>ps := (gpio_output_flow_ctrl False (ps x))\<lparr>data_thread_id := True\<rparr>, pd := per_enter_data (pd x), sink := Pipe_Sink\<rparr>)"
  by (simp add: per_enter_data_mode_def on_ps_def Let_def)

lemma enter_data_bad: "per_enter_data_mode x = Inl e \<longleftrightarrow> data_thread_id (ps x) \<and> e = Bad_Thread"
  by (auto simp: per_enter_data_mode_def Let_def)

lemma enter_at_bad: "per_enter_at_cmd_mode x = Inl e \<longleftrightarrow> at_cmd_thread_id (ps x) \<and> e = Bad_Thread"
  by (auto simp: per_enter_at_cmd_mode_def Let_def)

lemma enter_data_mode: "per_enter_data_mode (per_exit_at_cmd_mode x) = Inr y \<Longrightarrow> p_conn (ps x) \<Longrightarrow> mode_ok y"
  by (auto simp: per_enter_data_mode_def per_exit_at_cmd_mode_def mode_ok_def Let_def on_ps_def split: if_splits)

lemma enter_at_mode: "per_enter_at_cmd_mode x = Inr y \<Longrightarrow> \<not> data_thread_id (ps x) \<Longrightarrow> mode_ok y"
  by (auto simp: per_enter_at_cmd_mode_def mode_ok_def Let_def on_ps_def split: if_splits)

lemma conn_mode: "mode_ok x \<Longrightarrow> mode_ok (on_ps (\<lambda>s. s\<lparr>p_conn := True\<rparr>) x)"
  by (simp add: mode_ok_def)

lemma step_mode:
  assumes "per_sys_step h x e y" "mode_ok x"
  shows "mode_ok y"
proof (cases e)
  case (Sys_Connected err)
  then show ?thesis using assms conn_mode [of x] enter_data_mode [of "on_ps (\<lambda>s. s\<lparr>p_conn := True\<rparr>) x"]
    by (auto simp: per_sys_step_def per_sys_do_def per_connected_def rbind_eq_Inr Let_def split: if_splits)
next
  case Sys_Disconnected
  then show ?thesis using assms
    by (auto simp: per_sys_step_def per_sys_do_def per_disconnected_def rbind_eq_Inr per_exit_data_mode_def dest!: enter_at_mode)
next
  case Sys_Main
  have "mode_ok z" if "app_cfg_event_handle (on_ps (\<lambda>s. s\<lparr>p_msgs := ms\<rparr>) x) = Inr z" for ms z
    using that assms(2) enter_data_mode [of "on_ps (\<lambda>s. s\<lparr>p_msgs := ms\<rparr>) x" z] by (auto simp: app_cfg_event_handle_def split: if_splits)
  then show ?thesis using assms Sys_Main
    by (auto simp: per_sys_step_def per_sys_do_def per_main_def gpio_event_handle_def Let_def split: list.splits per_msg.splits)
next
  case Sys_Line
  then show ?thesis using assms line_mode by (auto simp: per_sys_step_def per_sys_do_def)
next
  case (Sys_Write_Pwm buf off)
  then show ?thesis using assms mode_cong [of y x] by (auto simp: per_sys_step_def per_sys_do_def rbind_eq_Inr dest!: pwm_threads)
qed (use assms mode_cong [of y x] in \<open>auto simp: per_sys_step_def per_sys_do_def\<close>)

interpretation per_modes: step_invariant "per_sys_step h" mode_ok for h
  by unfold_locales (rule step_mode)

text \<open>Only entering a mode creates a thread.\<close>

lemma rbind_Bad: "rbind m f = Inl e \<longleftrightarrow> m = Inl e \<or> (\<exists>x. m = Inr x \<and> f x = Inl e)"
  by (cases m) auto

lemma atoi_bad [simp]: "atoi_u8 p \<noteq> Inl Bad_Thread"
  by (simp add: atoi_u8_def Let_def)

lemma access_bad [simp]: "arr_get xs i \<noteq> Inl Bad_Thread" "arr_set ys j v \<noteq> Inl Bad_Thread" "mem_cpy d k src n \<noteq> Inl Bad_Thread"
  by (simp_all add: arr_get_def arr_set_def mem_cpy_def)

lemma user_data_bad [simp]: "user_data_loop p j d \<noteq> Inl Bad_Thread"
  by (induction p j d rule: user_data_loop.induct) (auto simp: rbind_Bad char2hex_def)

lemma set_bad:
  "per_adv_set p s \<noteq> Inl Bad_Thread" "per_adv_interval_set p s \<noteq> Inl Bad_Thread" "per_adv_name_set p s \<noteq> Inl Bad_Thread"
  "per_baudrate_set p s \<noteq> Inl Bad_Thread" "per_conn_interval_set p s \<noteq> Inl Bad_Thread" "per_tx_power_set p s \<noteq> Inl Bad_Thread"
  "per_adv_data_set p s \<noteq> Inl Bad_Thread" "per_rssi_set h p s \<noteq> Inl Bad_Thread" "per_rts_func_set p s \<noteq> Inl Bad_Thread"
  by (simp_all add: per_adv_set_def per_adv_interval_set_def per_adv_name_set_def per_baudrate_set_def per_conn_interval_set_def per_tx_power_set_def
      per_adv_data_set_def per_rssi_set_def per_rts_func_set_def rbind_Bad Let_def)

lemma sets_bad:
  assumes "(k, e) \<in> set (per_commands h)" "set_fun e = Some f"
  shows "f p s \<noteq> Inl Bad_Thread"
proof -
  have "list_all (\<lambda>(k, e). case set_fun e of None \<Rightarrow> True | Some f \<Rightarrow> f p s \<noteq> Inl Bad_Thread) (per_commands h)"
    by (simp add: per_commands_def set_get_def exec_only_def total_def set_bad)
  then show ?thesis using assms by (fastforce simp: list_all_iff)
qed

lemma exec_bad: "per_cmd_exec h line s \<noteq> Inl Bad_Thread"
  by (auto simp: per_cmd_exec_def per_line2argv_def per_exec_cb_def or_err_def rbind_Bad Let_def dest: sets_bad [OF map_of_SomeD]
      split: list.splits option.splits prod.splits if_splits)

lemma pwm_bad: "pwm_write_cb buf off s \<noteq> Inl Bad_Thread"
  by (auto simp: pwm_write_cb_def pwm_cmd_handle_def set_pwm_def duty_of_def the_var_def rbind_Bad Let_def split: if_splits option.splits)

text \<open>Which messages the main loop takes when the threads clash.\<close>

definition exit_rssi_first :: "per_sys \<Rightarrow> bool" where
  "exit_rssi_first x \<longleftrightarrow> (case p_msgs (ps x) of Per_Exit_Rssi # _ \<Rightarrow> True | _ \<Rightarrow> False)"

lemma main_bad: "per_main h x = Inl Bad_Thread \<longleftrightarrow> exit_rssi_first x \<and> rssi_mode (ps x) = 0 \<and> p_conn (ps x) \<and> data_thread_id (ps x)"
  by (auto simp: per_main_def app_cfg_event_handle_def enter_data_bad per_exit_at_cmd_mode_def exit_rssi_first_def Let_def split: list.splits per_msg.splits)

lemma event_bad:
  assumes "mode_ok x" "per_enabled e x"
  shows "per_sys_do h e x = Inl Bad_Thread \<longleftrightarrow>
     (e = Sys_Disconnected \<and> at_cmd_thread_id (ps x)) \<or> (e = Sys_Main \<and> exit_rssi_first x \<and> rssi_mode (ps x) = 0 \<and> data_thread_id (ps x))"
proof (cases e)
  case (Sys_Connected err)
  have "\<not> data_thread_id (ps x)" using assms Sys_Connected by (auto simp: mode_ok_def per_enabled_def)
  then show ?thesis using Sys_Connected by (auto simp: per_sys_do_def per_connected_def rbind_Bad enter_data_bad per_exit_at_cmd_mode_def Let_def split: if_splits)
next
  case Sys_Main
  then show ?thesis using assms(1) by (auto simp: per_sys_do_def main_bad mode_ok_def)
next
  case Sys_Line
  then show ?thesis using exec_bad by (auto simp: per_sys_do_def per_cmd_handler_def rbind_Bad split: list.splits)
qed (auto simp: per_sys_do_def per_disconnected_def rbind_Bad enter_at_bad per_exit_data_mode_def pwm_bad)

text \<open>
  C13 (safety). The mode switches. From the start on, in every order of events, exactly one of the command and the data thread exists, the data
  thread only during a connection, and the interrupt of the UART belongs to the one that exists. A thread is created over a running
  one in exactly two cases: a connection ends while the module is in command mode, as it is in the mode that reports the signal strength, and a second
  request to leave that mode is handled when data mode has begun.
\<close>

theorem per_modes_exact:
  assumes "per_bt_ready h 0 x0 = Inr x1" "\<not> data_thread_id (ps x0)" "lrun (per_sys_step h) x1 es x" "per_enabled e x"
  shows "(at_cmd_thread_id (ps x) \<longleftrightarrow> \<not> data_thread_id (ps x)) \<and> (data_thread_id (ps x) \<longrightarrow> p_conn (ps x)) \<and>
     sink x = (if at_cmd_thread_id (ps x) then At_Sink else Pipe_Sink) \<and>
     (per_sys_do h e x = Inl Bad_Thread \<longleftrightarrow>
        (e = Sys_Disconnected \<and> at_cmd_thread_id (ps x)) \<or> (e = Sys_Main \<and> exit_rssi_first x \<and> rssi_mode (ps x) = 0 \<and> data_thread_id (ps x)))"
proof -
  obtain s y where b: "load_app_cfg_from_nv h (ps x0) = Inr s" "per_enter_at_cmd_mode (x0\<lparr>ps := s\<rparr>) = Inr y" "x1 = on_ps (\<lambda>s. ble_exec_adv_op (adv_state s) s) y"
    using assms(1) unfolding per_bt_ready_def rbind_eq_Inr by (simp add: rbind_eq_Inr) blast
  have "\<not> data_thread_id s" using load_threads [OF b(1)] assms(2) by (simp add: threads_def)
  then have "mode_ok x1" using enter_at_mode [OF b(2)] b(3) by simp
  then have ok: "mode_ok x" using per_modes.inv_run [OF assms(3)] by blast
  then show ?thesis using event_bad [OF ok assms(4), of h] by (simp add: mode_ok_def)
qed

definition per_off :: per_sys where
  "per_off = \<lparr>ps = per_fresh [], pd = \<lparr>pd_avail = [], pd_datas = [], pd_buf = 0, pd_recv = [], pd_timer = False, pd_timer_started = False, pd_abort = False,
     avail_buf_count = 0, rx_flow_ctr_flag = False, pd_pc = Pd_Wait\<rparr>, rx = \<lparr>rx_avail = [], rx_lines = [], rx_cmd = None\<rparr>, sink = No_Sink\<rparr>"

lemma off_ready: "\<exists>x1. per_bt_ready per_memory 0 per_off = Inr x1 \<and> rssi_mode (ps x1) = 0 \<and> threads (ps x1) = (False, True, False)"
  by (simp add: per_bt_ready_def per_off_def per_fresh_def load_app_cfg_from_nv_def load_name_def load8_def load16_def load_uuid_cfg_from_nv_def per_memory_def nv_calls_def nv_step_def
      uart_baudrate_def arr_get_def uart_baudrate_set_def per_do_def per_enter_at_cmd_mode_def on_ps_def gpio_output_flow_ctrl_def ble_exec_adv_op_def threads_def)

theorem per_modes_exact_witness:
  "\<exists>x1 x. per_bt_ready per_memory 0 per_off = Inr x1 \<and> lrun (per_sys_step per_memory) x1 [Sys_Connected 0] x \<and> data_thread_id (ps x) \<and> sink x = Pipe_Sink \<and>
     per_sys_do per_memory Sys_Disconnected x \<noteq> Inl Bad_Thread"
proof -
  obtain x1 where b: "per_bt_ready per_memory 0 per_off = Inr x1" "rssi_mode (ps x1) = 0" "threads (ps x1) = (False, True, False)" using off_ready by blast
  obtain x where c: "per_connected 0 x1 = Inr x" "data_thread_id (ps x)" "p_conn (ps x)"
    using b(2,3) enter_data_eq [of "per_exit_at_cmd_mode (on_ps (\<lambda>s. s\<lparr>p_conn := True\<rparr>) x1)"]
    by (simp add: per_connected_def threads_def per_exit_at_cmd_mode_def on_ps_def gpio_output_notify_state_def per_do_def)
  then have r: "lrun (per_sys_step per_memory) x1 [Sys_Connected 0] x"
    using b(3) by (simp add: lrun_simps per_sys_step_def per_enabled_def per_sys_do_def threads_def)
  have o: "\<not> data_thread_id (ps per_off)" by (simp add: per_off_def per_fresh_def)
  have e: "per_enabled Sys_Disconnected x" using c(3) by (simp add: per_enabled_def)
  show ?thesis using per_modes_exact [OF b(1) o r e] b(1) c(2) r by auto
qed

section \<open>Pulse width modulation and the battery\<close>

text \<open>The commands that pass the checks, and those of them whose periods and duties are all initialised.\<close>

definition pwm_accepted :: "bytes \<Rightarrow> bool" where
  "pwm_accepted cmd \<longleftrightarrow> cmd ! 0 = 0x97 \<and> cmd ! 1 \<le> 3 \<and> cmd ! 2 \<le> 20 \<and> cmd ! 3 \<le> 100 \<and> cmd ! 4 \<le> 20 \<and> cmd ! 5 \<le> 100"

definition pwm_initialised :: "bytes \<Rightarrow> bool" where
  "pwm_initialised cmd \<longleftrightarrow> (cmd ! 3 \<noteq> 0 \<longrightarrow> cmd ! 2 \<noteq> 0) \<and> (cmd ! 5 \<noteq> 0 \<longrightarrow> cmd ! 4 \<noteq> 0) \<and>
     (cmd ! 1 = 0 \<longrightarrow> cmd ! 3 \<noteq> 0 \<and> cmd ! 5 \<noteq> 0) \<and> (cmd ! 1 = 1 \<longrightarrow> cmd ! 2 \<noteq> 0 \<and> cmd ! 4 \<noteq> 0) \<and>
     (cmd ! 1 = 2 \<longrightarrow> cmd ! 3 \<noteq> 0) \<and> (cmd ! 1 = 3 \<longrightarrow> cmd ! 5 \<noteq> 0)"

definition pwm_call_ok :: "per_call \<Rightarrow> bool" where
  "pwm_call_ok c \<longleftrightarrow> (case c of Per_Pwm chan period pulse \<Rightarrow> (chan = 1 \<or> chan = 3) \<and> period \<in> set pwm_duty_max_tbl \<and> pulse \<le> period | _ \<Rightarrow> False)"

lemma tbl_entry:
  fixes b :: u8
  assumes "b \<noteq> 0" "b \<le> 20"
  shows "pwm_duty_max_tbl ! (unat b - 1) \<in> set pwm_duty_max_tbl"
proof (rule nth_mem)
  have "0 < unat b" using assms(1) by (simp add: unat_gt_0)
  moreover have "unat b \<le> 20" using assms(2) by (simp add: word_le_nat_alt)
  ultimately show "unat b - 1 < length pwm_duty_max_tbl" by (simp add: pwm_duty_max_tbl_def)
qed

lemma duty_le:
  assumes "m \<in> set pwm_duty_max_tbl" "p \<le> 100"
  shows "m * ucast (p :: u8) div 100 \<le> m"
proof -
  have m: "unat m \<le> 20000" using assms(1) by (auto simp: pwm_duty_max_tbl_def)
  have "unat (ucast p :: u32) = unat p mod 2 ^ 32" by transfer (simp add: take_bit_eq_mod)
  then have p: "unat (ucast p :: u32) = unat p" "unat p \<le> 100" using assms(2) unat_bound [of p] by (simp_all add: word_le_nat_alt)
  have "unat m * unat p \<le> unat m * 100" by (rule mult_le_mono2) (rule p(2))
  also have "\<dots> < 2 ^ 32" using m by simp
  finally have "unat (m * ucast p) = unat m * unat p" using p(1) by (simp add: unat_word_ariths)
  then have "unat (m * ucast p div 100) = unat m * unat p div 100" by (simp add: unat_div)
  also have "\<dots> \<le> unat m" using div_le_mono [OF \<open>unat m * unat p \<le> unat m * 100\<close>, of 100] by simp
  finally show ?thesis by (simp add: word_le_nat_alt)
qed

definition pwm_max :: "u8 \<Rightarrow> u32 option" where
  "pwm_max b = (if b \<noteq> 0 then Some (pwm_duty_max_tbl ! (unat b - 1)) else None)"

lemma pwm_max_set: "b \<le> 20 \<Longrightarrow> pwm_max b = Some m \<Longrightarrow> m \<in> set pwm_duty_max_tbl"
  using tbl_entry [of b] by (auto simp: pwm_max_def split: if_splits)

lemma duty_defined: "(\<exists>d. duty_of (pwm_max b) p = Inr d) \<longleftrightarrow> (p \<noteq> 0 \<longrightarrow> b \<noteq> 0)" "duty_of (pwm_max b) p = Inr d \<Longrightarrow> d = None \<longleftrightarrow> p = 0"
  by (auto simp: duty_of_def the_var_def pwm_max_def split: if_splits)

lemma duty_bound: "b \<le> 20 \<Longrightarrow> p \<le> 100 \<Longrightarrow> pwm_max b = Some m \<Longrightarrow> duty_of (pwm_max b) p = Inr (Some d) \<Longrightarrow> d \<le> m"
  using duty_le [of m p] pwm_max_set [of b m] by (auto simp: duty_of_def the_var_def split: if_splits)

lemma set_pwm_eq: "set_pwm chan period pulse s = Inr t \<longleftrightarrow> (\<exists>m d. period = Some m \<and> pulse = Some d \<and> t = per_do (Per_Pwm chan m d) s)"
  by (auto simp: set_pwm_def the_var_def rbind_eq_Inr split: option.splits)

lemma mode_cases: "m \<le> 3 \<Longrightarrow> m = 0 \<or> m = 1 \<or> m = 2 \<or> m = (3 :: u8)"
proof -
  assume "m \<le> 3"
  then have "unat m \<le> 3" by (simp add: word_le_nat_alt)
  then have "unat m = unat (0 :: u8) \<or> unat m = unat (1 :: u8) \<or> unat m = unat (2 :: u8) \<or> unat m = unat (3 :: u8)" by auto
  then show ?thesis unfolding word_unat_eq_iff .
qed

lemma pwm_handle_eq:
  assumes "pwm_dev s" "pwm_accepted cmd"
  shows "pwm_cmd_handle cmd s =
     rbind (duty_of (pwm_max (cmd ! 2)) (cmd ! 3)) (\<lambda>d0. rbind (duty_of (pwm_max (cmd ! 4)) (cmd ! 5)) (\<lambda>d1.
        if cmd ! 1 = 0 then rbind (set_pwm 1 (pwm_max (cmd ! 2)) d0 s) (set_pwm 3 (pwm_max (cmd ! 4)) d1)
        else if cmd ! 1 = 1 then rbind (set_pwm 1 (pwm_max (cmd ! 2)) (Some 0) s) (set_pwm 3 (pwm_max (cmd ! 4)) (Some 0))
        else if cmd ! 1 = 2 then set_pwm 1 (pwm_max (cmd ! 2)) d0 s
        else set_pwm 3 (pwm_max (cmd ! 4)) d1 s))"
proof -
  have "\<not> (\<not> pwm_dev s \<or> cmd ! 0 \<noteq> 0x97 \<or> cmd ! 1 > 3 \<or> cmd ! 2 > 20 \<or> cmd ! 3 > 100 \<or> cmd ! 4 > 20 \<or> cmd ! 5 > 100)"
    using assms by (simp add: pwm_accepted_def not_less)
  then show ?thesis unfolding pwm_cmd_handle_def pwm_max_def Let_def by (simp only: if_False)
qed

text \<open>What a mode does with the periods and the duties.\<close>

definition pwm_mode :: "u8 \<Rightarrow> u32 option \<Rightarrow> u32 option \<Rightarrow> u32 option \<Rightarrow> u32 option \<Rightarrow> per_state \<Rightarrow> per_state res" where
  "pwm_mode mode m0 d0 m1 d1 s =
     (if mode = 0 then rbind (set_pwm 1 m0 d0 s) (set_pwm 3 m1 d1)
      else if mode = 1 then rbind (set_pwm 1 m0 (Some 0) s) (set_pwm 3 m1 (Some 0))
      else if mode = 2 then set_pwm 1 m0 d0 s else set_pwm 3 m1 d1 s)"

lemma pwm_mode_eq: "mode \<le> 3 \<Longrightarrow> pwm_mode mode m0 d0 m1 d1 s = Inr t \<longleftrightarrow>
  (mode = 0 \<longrightarrow> (\<exists>a b c d. m0 = Some a \<and> d0 = Some b \<and> m1 = Some c \<and> d1 = Some d \<and> t = per_do (Per_Pwm 3 c d) (per_do (Per_Pwm 1 a b) s))) \<and>
  (mode = 1 \<longrightarrow> (\<exists>a c. m0 = Some a \<and> m1 = Some c \<and> t = per_do (Per_Pwm 3 c 0) (per_do (Per_Pwm 1 a 0) s))) \<and>
  (mode = 2 \<longrightarrow> (\<exists>a b. m0 = Some a \<and> d0 = Some b \<and> t = per_do (Per_Pwm 1 a b) s)) \<and>
  (mode = 3 \<longrightarrow> (\<exists>c d. m1 = Some c \<and> d1 = Some d \<and> t = per_do (Per_Pwm 3 c d) s))"
  using mode_cases [of mode] by (auto simp: pwm_mode_def rbind_eq_Inr set_pwm_eq)

lemma max_some: "(\<exists>m. pwm_max b = Some m) \<longleftrightarrow> b \<noteq> 0"
  by (simp add: pwm_max_def)

lemma pwm_handle_mode:
  assumes "pwm_dev s" "pwm_accepted cmd"
  shows "pwm_cmd_handle cmd s = Inr t \<longleftrightarrow> (\<exists>d0 d1. duty_of (pwm_max (cmd ! 2)) (cmd ! 3) = Inr d0 \<and> duty_of (pwm_max (cmd ! 4)) (cmd ! 5) = Inr d1 \<and>
     pwm_mode (cmd ! 1) (pwm_max (cmd ! 2)) d0 (pwm_max (cmd ! 4)) d1 s = Inr t)"
  unfolding pwm_handle_eq [OF assms] rbind_eq_Inr pwm_mode_def by blast

lemma mode_defined:
  assumes "mode \<le> 3" "(\<exists>x. d0 = Some x) \<longleftrightarrow> p0 \<noteq> 0" "(\<exists>x. d1 = Some x) \<longleftrightarrow> p1 \<noteq> 0" "p0 \<noteq> 0 \<longrightarrow> b0 \<noteq> 0" "p1 \<noteq> 0 \<longrightarrow> b1 \<noteq> 0"
  shows "(\<exists>t. pwm_mode mode (pwm_max b0) d0 (pwm_max b1) d1 s = Inr t) \<longleftrightarrow>
     (mode = 0 \<longrightarrow> p0 \<noteq> 0 \<and> p1 \<noteq> 0) \<and> (mode = 1 \<longrightarrow> b0 \<noteq> 0 \<and> b1 \<noteq> 0) \<and> (mode = 2 \<longrightarrow> p0 \<noteq> 0) \<and> (mode = 3 \<longrightarrow> p1 \<noteq> 0)"
  using assms(2-5) max_some [of b0] max_some [of b1] mode_cases [OF assms(1)] unfolding pwm_mode_eq [OF assms(1)] by (elim disjE) auto

lemma pwm_defined:
  assumes "pwm_dev s" "pwm_accepted cmd"
  shows "(\<exists>t. pwm_cmd_handle cmd s = Inr t) \<longleftrightarrow> pwm_initialised cmd"
proof (cases "(cmd ! 3 \<noteq> 0 \<longrightarrow> cmd ! 2 \<noteq> 0) \<and> (cmd ! 5 \<noteq> 0 \<longrightarrow> cmd ! 4 \<noteq> 0)")
  case True
  then obtain d0 d1 where d: "duty_of (pwm_max (cmd ! 2)) (cmd ! 3) = Inr d0" "duty_of (pwm_max (cmd ! 4)) (cmd ! 5) = Inr d1" using duty_defined(1) by metis
  have n: "(\<exists>x. d0 = Some x) \<longleftrightarrow> cmd ! 3 \<noteq> 0" "(\<exists>x. d1 = Some x) \<longleftrightarrow> cmd ! 5 \<noteq> 0"
    using duty_defined(2) [OF d(1)] duty_defined(2) [OF d(2)] by auto
  have "(\<exists>t. pwm_cmd_handle cmd s = Inr t) \<longleftrightarrow> (\<exists>t. pwm_mode (cmd ! 1) (pwm_max (cmd ! 2)) d0 (pwm_max (cmd ! 4)) d1 s = Inr t)"
    using d by (simp add: pwm_handle_mode [OF assms])
  also have "\<dots> \<longleftrightarrow> pwm_initialised cmd"
    using mode_defined [of "cmd ! 1" d0 "cmd ! 3" d1 "cmd ! 5" "cmd ! 2" "cmd ! 4" s] n True assms(2) unfolding pwm_initialised_def pwm_accepted_def by blast
  finally show ?thesis .
next
  case False
  then have "\<not> (\<exists>t. pwm_cmd_handle cmd s = Inr t)" using duty_defined(1) unfolding pwm_handle_mode [OF assms] by metis
  then show ?thesis using False unfolding pwm_initialised_def by blast
qed

lemma mode_calls:
  assumes "pwm_mode mode m0 d0 m1 d1 s = Inr t" "mode \<le> 3" "\<And>m. m0 = Some m \<Longrightarrow> m \<in> set pwm_duty_max_tbl" "\<And>m. m1 = Some m \<Longrightarrow> m \<in> set pwm_duty_max_tbl"
    "\<And>m d. m0 = Some m \<Longrightarrow> d0 = Some d \<Longrightarrow> d \<le> m" "\<And>m d. m1 = Some m \<Longrightarrow> d1 = Some d \<Longrightarrow> d \<le> m"
  shows "\<exists>cs. p_calls t = p_calls s @ cs \<and> list_all pwm_call_ok cs"
  using assms(1,3-6) mode_cases [OF assms(2)] unfolding pwm_mode_eq [OF assms(2)] by (elim disjE) (auto simp: per_do_def pwm_call_ok_def)

lemma pwm_calls:
  assumes "pwm_cmd_handle cmd s = Inr t"
  shows "\<exists>cs. p_calls t = p_calls s @ cs \<and> list_all pwm_call_ok cs"
proof (cases "pwm_dev s \<and> pwm_accepted cmd")
  case True
  then have r: "cmd ! 1 \<le> 3" "cmd ! 2 \<le> 20" "cmd ! 3 \<le> 100" "cmd ! 4 \<le> 20" "cmd ! 5 \<le> 100" by (simp_all add: pwm_accepted_def)
  obtain d0 d1 where d: "duty_of (pwm_max (cmd ! 2)) (cmd ! 3) = Inr d0" "duty_of (pwm_max (cmd ! 4)) (cmd ! 5) = Inr d1"
    "pwm_mode (cmd ! 1) (pwm_max (cmd ! 2)) d0 (pwm_max (cmd ! 4)) d1 s = Inr t"
    using assms True pwm_handle_mode by blast
  show ?thesis
    by (rule mode_calls [OF d(3) r(1)]) (use pwm_max_set r d duty_bound in blast)+
next
  case False
  then have "t = s" using assms by (auto simp: pwm_cmd_handle_def pwm_accepted_def not_less split: if_splits)
  then show ?thesis by auto
qed

text \<open>
  The command to the pulse width modulator. A command that passes the checks is executed without reading an uninitialised variable
  exactly if no duty comes without a period and the selected mode has all it uses, and then every pulse is at most its period, which is an entry
  of the table. The checks accept other commands: one that asks for a duty of zero, or for none of the frequencies, uses what is on the stack.
\<close>

theorem pwm_exact:
  assumes "pwm_dev s" "length cmd = 6" "pwm_accepted cmd" "unat offset + length cmd \<le> 256"
  shows "((\<exists>r. pwm_write_cb cmd offset s = Inr r) \<longleftrightarrow> pwm_initialised cmd) \<and>
     (\<forall>n t. pwm_write_cb cmd offset s = Inr (n, t) \<longrightarrow> n = Some 6 \<and> (\<exists>cs. p_calls t = p_calls s @ cs \<and> list_all pwm_call_ok cs))"
proof -
  have "pwm_write_cb cmd offset s = rbind (pwm_cmd_handle cmd s) (\<lambda>s. Inr (Some 6, s))"
    using assms by (simp add: pwm_write_cb_def pwm_accepted_def)
  then show ?thesis using pwm_defined [OF assms(1,3)] pwm_calls [of cmd s] by (auto simp: rbind_eq_Inr)
qed

theorem pwm_exact_witness:
  "\<not> (\<exists>r. pwm_write_cb [0x97, 0, 3, 50, 3, 0] 0 (per_fresh []) = Inr r) \<and> (\<exists>r. pwm_write_cb [0x97, 0, 3, 50, 3, 10] 0 (per_fresh []) = Inr r)"
  using pwm_exact [of "per_fresh []" "[0x97, 0, 3, 50, 3, 0]" 0] pwm_exact [of "per_fresh []" "[0x97, 0, 3, 50, 3, 10]" 0]
  by (simp add: per_fresh_def pwm_accepted_def pwm_initialised_def)

text \<open>The battery level is a percentage, for every conversion.\<close>

lemma battery_percent: "fst (update_battry_value raw) \<le> 100"
proof -
  define v where "v = (let b = of_nat (unat raw * 3600 div 1024) :: u16 in if b \<le> 1800 then 1800 else if b \<ge> 3250 then 3250 else b)"
  have "unat v \<le> 3250" by (auto simp: v_def Let_def word_le_nat_alt)
  then have n: "(unat v - 1800) * 100 div 1450 \<le> 100" by simp
  have "fst (update_battry_value raw) = of_nat ((unat v - 1800) * 100 div 1450)" by (simp add: update_battry_value_def v_def Let_def)
  then show ?thesis using n by (simp add: word_le_nat_alt unat_of_nat)
qed

end
