(* ===== verification/Key_Storage.thy ===== *)
theory Key_Storage
  imports Prelude
begin

text \<open>
  The storage callbacks that keep the pairing keys for the host (\<^verbatim>\<open>subsys/bluetooth/host/storage.c\<close>), in both configurations: one
  entry in the non-volatile memory, or a pool of two entries in RAM. An entry is the 144 bytes of \<open>struct bt_keys\<close> (\<^verbatim>\<open>keys.h\<close>) in
  the layout of the 32-bit ARM ABI. An address is its seven bytes, the type first. \<open>bt_rpa_irk_matches\<close>, which resolves a private address, and the
  non-volatile memory are parameters.
\<close>

section \<open>Entries\<close>

datatype storage_key = ID_ADDR | LOCAL_IRK | ADDRESSES | SLAVE_LTK | LTK | IRK | LOCAL_CSRK | REMOTE_CSRK | LTK_P256 | BT_KEYS

datatype storage_access = STORAGE_READ | STORAGE_WRITE

abbreviation (input) "SIZEOF_BT_KEYS \<equiv> 144 :: nat"
abbreviation (input) "OFF_ADDR \<equiv> 0 :: nat"
abbreviation (input) "OFF_KEYS \<equiv> 12 :: nat"
abbreviation (input) "OFF_LTK \<equiv> 16 :: nat"
abbreviation (input) "OFF_IRK_VAL \<equiv> 48 :: nat"
abbreviation (input) "OFF_IRK_RPA \<equiv> 64 :: nat"
abbreviation (input) "OFF_LOCAL_CSRK \<equiv> 72 :: nat"
abbreviation (input) "OFF_REMOTE_CSRK \<equiv> 92 :: nat"
abbreviation (input) "OFF_SLAVE_LTK \<equiv> 112 :: nat"

definition ADDR_ANY :: bytes where
  "ADDR_ANY = replicate 7 0"

definition field :: "nat \<Rightarrow> nat \<Rightarrow> bytes \<Rightarrow> bytes" where
  "field off n e = take n (drop off e)"

definition put :: "nat \<Rightarrow> bytes \<Rightarrow> bytes \<Rightarrow> bytes" where
  "put off bs e = take off e @ bs @ drop (off + length bs) e"

definition is_rpa :: "bytes \<Rightarrow> bool" where
  "is_rpa addr \<longleftrightarrow> addr ! 0 = 1 \<and> (addr ! 6 AND 0xC0) = 0x40"

section \<open>The pool\<close>

text \<open>The count of evictions stays far below the range of \<open>int\<close>.\<close>

record key_store =
  storage_key_pool :: "bytes list"
  storage_local_bt_addr :: bytes
  storage_local_irk :: bytes
  removeCnt :: nat

type_synonym irk_matches = "bytes \<Rightarrow> bytes \<Rightarrow> bool"

definition find_identity :: "bytes \<Rightarrow> key_store \<Rightarrow> nat option" where
  "find_identity addr st = find (\<lambda>i. field OFF_ADDR 7 (storage_key_pool st ! i) = addr) [0, 1]"

fun find_rpa :: "irk_matches \<Rightarrow> bytes \<Rightarrow> nat list \<Rightarrow> key_store \<Rightarrow> nat option \<times> key_store" where
  "find_rpa m a [] st = (None, st)"
| "find_rpa m a (i # is) st =
     (let e = storage_key_pool st ! i in
      if \<not> bit (e ! OFF_KEYS) 1 then find_rpa m a is st
      else if field OFF_IRK_RPA 6 e = a then (Some i, st)
      else if m (field OFF_IRK_VAL 16 e) a then (Some i, st\<lparr>storage_key_pool := (storage_key_pool st)[i := put OFF_IRK_RPA a e]\<rparr>)
      else find_rpa m a is st)"

definition claim :: "nat \<Rightarrow> bytes \<Rightarrow> key_store \<Rightarrow> key_store" where
  "claim i addr st = st\<lparr>storage_key_pool := (storage_key_pool st)[i := put OFF_ADDR addr (storage_key_pool st ! i)]\<rparr>"

definition find_bt_keys :: "irk_matches \<Rightarrow> bytes \<Rightarrow> storage_access \<Rightarrow> key_store \<Rightarrow> nat option \<times> key_store" where
  "find_bt_keys m addr acc st =
     (let (found, st) = (if \<not> is_rpa addr then (find_identity addr st, st) else find_rpa m (drop 1 addr) [0, 1] st) in
      case found of Some i \<Rightarrow> (Some i, st)
      | None \<Rightarrow>
          if acc = STORAGE_WRITE
          then case find_identity ADDR_ANY st of
                 Some i \<Rightarrow> (Some i, claim i addr st)
               | None \<Rightarrow> let i = removeCnt st mod 2 in (Some i, claim i addr (st\<lparr>removeCnt := removeCnt st + 1\<rparr>))
          else (None, st))"

definition find_opt :: "irk_matches \<Rightarrow> bytes option \<Rightarrow> storage_access \<Rightarrow> key_store \<Rightarrow> nat option \<times> key_store" where
  "find_opt m addr acc st = (case addr of None \<Rightarrow> (None, st) | Some a \<Rightarrow> find_bt_keys m a acc st)"

text \<open>Copying \<open>src\<close> to the buffer of the caller, whose length the code does not look at; without an entry nothing happens.\<close>

definition copy_out :: "bytes option \<Rightarrow> int \<times> bytes \<Rightarrow> (int \<times> bytes) res" where
  "copy_out src = (\<lambda>(ret, buf). case src of
     None \<Rightarrow> Inr (ret, buf)
   | Some s \<Rightarrow> rbind (mem_cpy buf 0 s (length s)) (\<lambda>buf. Inr (int (length s), buf)))"

definition storage_read :: "irk_matches \<Rightarrow> bytes option \<Rightarrow> storage_key \<Rightarrow> bytes \<Rightarrow> key_store \<Rightarrow> (int \<times> bytes \<times> key_store) res" where
  "storage_read m addr key buf st =
     (let (found, st) = find_opt m addr STORAGE_READ st;
          fld = (\<lambda>off n. map_option (\<lambda>i. field off n (storage_key_pool st ! i)) found) in
      rbind (case key of
          ID_ADDR \<Rightarrow> copy_out (Some (storage_local_bt_addr st)) (0, buf)
        | LOCAL_IRK \<Rightarrow> rbind (copy_out (Some (storage_local_irk st)) (0, buf)) (copy_out (fld OFF_SLAVE_LTK 32))
        | SLAVE_LTK \<Rightarrow> copy_out (fld OFF_SLAVE_LTK 32) (0, buf)
        | LTK \<Rightarrow> copy_out (fld OFF_LTK 32) (0, buf)
        | LOCAL_CSRK \<Rightarrow> copy_out (fld OFF_LOCAL_CSRK 20) (0, buf)
        | REMOTE_CSRK \<Rightarrow> rbind (copy_out (fld OFF_REMOTE_CSRK 20) (0, buf)) (copy_out (fld OFF_LTK 32))
        | LTK_P256 \<Rightarrow> copy_out (fld OFF_LTK 32) (0, buf)
        | BT_KEYS \<Rightarrow> copy_out (fld OFF_ADDR SIZEOF_BT_KEYS) (0, buf)
        | _ \<Rightarrow> Inr (0, buf)) (\<lambda>(ret, buf). Inr (ret, buf, st)))"

text \<open>Copying the data, all of it, to a field of the entry.\<close>

definition copy_in :: "nat option \<Rightarrow> nat \<Rightarrow> bytes \<Rightarrow> int \<times> key_store \<Rightarrow> (int \<times> key_store) res" where
  "copy_in found off data = (\<lambda>(ret, st). case found of
     None \<Rightarrow> Inr (ret, st)
   | Some i \<Rightarrow> rbind (arr_get (storage_key_pool st) i) (\<lambda>e. rbind (mem_cpy e off data (length data)) (\<lambda>e.
       Inr (int (length data), st\<lparr>storage_key_pool := (storage_key_pool st)[i := e]\<rparr>))))"

definition storage_write :: "irk_matches \<Rightarrow> bytes option \<Rightarrow> storage_key \<Rightarrow> bytes \<Rightarrow> key_store \<Rightarrow> (int \<times> key_store) res" where
  "storage_write m addr key data st =
     (let (found, st) = find_opt m addr STORAGE_WRITE st in
      case key of
        ID_ADDR \<Rightarrow> rbind (mem_cpy (storage_local_bt_addr st) 0 data 7) (\<lambda>a. Inr (7, st\<lparr>storage_local_bt_addr := a\<rparr>))
      | LOCAL_IRK \<Rightarrow> rbind (mem_cpy (storage_local_irk st) 0 data (length data)) (\<lambda>k.
          copy_in found OFF_SLAVE_LTK data (int (length data), st\<lparr>storage_local_irk := k\<rparr>))
      | SLAVE_LTK \<Rightarrow> copy_in found OFF_SLAVE_LTK data (0, st)
      | LTK \<Rightarrow> copy_in found OFF_LTK data (0, st)
      | LOCAL_CSRK \<Rightarrow> copy_in found OFF_LOCAL_CSRK data (0, st)
      | REMOTE_CSRK \<Rightarrow> rbind (copy_in found OFF_REMOTE_CSRK data (0, st)) (copy_in found OFF_LTK data)
      | LTK_P256 \<Rightarrow> copy_in found OFF_LTK data (0, st)
      | BT_KEYS \<Rightarrow> copy_in found OFF_ADDR data (0, st)
      | _ \<Rightarrow> Inr (0, st))"

definition storage_clear :: "irk_matches \<Rightarrow> bytes option \<Rightarrow> key_store \<Rightarrow> key_store" where
  "storage_clear m addr st = (case find_opt m addr STORAGE_READ st of
     (Some i, st) \<Rightarrow> st\<lparr>storage_key_pool := (storage_key_pool st)[i := replicate SIZEOF_BT_KEYS 0]\<rparr>
   | (None, st) \<Rightarrow> st)"

definition storage_init :: key_store where
  "storage_init = \<lparr>storage_key_pool = replicate 2 (replicate SIZEOF_BT_KEYS 0),
     storage_local_bt_addr = [1, 0xAA, 0xBB, 0xCC, 0xDD, 0xEE, 0xFF], storage_local_irk = map of_nat [0..<16], removeCnt = 0\<rparr>"

section \<open>The non-volatile memory\<close>

text \<open>
  The configuration with a single connection. \<open>nv_get\<close> gives a negative result or the bytes it has read, at most as many as asked for.
\<close>

record 'n nvram =
  nv_get :: "string \<Rightarrow> nat \<Rightarrow> 'n \<Rightarrow> int \<times> bytes"
  nv_set :: "string \<Rightarrow> bytes \<Rightarrow> 'n \<Rightarrow> int \<times> 'n"

definition nv_name :: "storage_key \<Rightarrow> string option" where
  "nv_name key = (case key of ID_ADDR \<Rightarrow> Some ''BT_ADDR'' | LOCAL_IRK \<Rightarrow> Some ''LOCAL_IRK'' | BT_KEYS \<Rightarrow> Some ''BT_KEYS'' | _ \<Rightarrow> None)"

definition addr_match_bt_keys :: "irk_matches \<Rightarrow> bytes \<Rightarrow> bytes \<Rightarrow> (bool \<times> bytes) res" where
  "addr_match_bt_keys m addr keys =
     (if length keys < SIZEOF_BT_KEYS then Inl Out_Of_Bounds
      else Inr (if \<not> is_rpa addr then (field OFF_ADDR 7 keys = addr, keys)
        else if m (field OFF_IRK_VAL 16 keys) (drop 1 addr) then (True, put OFF_IRK_RPA (drop 1 addr) keys)
        else (field OFF_IRK_RPA 6 keys = drop 1 addr, keys)))"

definition nv_storage_read :: "irk_matches \<Rightarrow> 'n nvram \<Rightarrow> bytes option \<Rightarrow> storage_key \<Rightarrow> bytes \<Rightarrow> 'n \<Rightarrow> (int \<times> bytes) res" where
  "nv_storage_read m nv addr key buf s =
     (let (ret, buf) = (case nv_name key of
        None \<Rightarrow> (0, buf)
      | Some name \<Rightarrow> let (ret, got) = nv_get nv name (length buf) s in (ret, got @ drop (length got) buf)) in
      if ret < 0 then Inr (ret, buf)
      else case addr of
        None \<Rightarrow> Inr (ret, buf)
      | Some a \<Rightarrow> rbind (addr_match_bt_keys m a buf) (\<lambda>(ok, buf). Inr (if ok then ret else 0, buf)))"

text \<open>The case for the local key falls through to that for the pairing keys: it takes their name and is compared with them.\<close>

definition nv_storage_write :: "'n nvram \<Rightarrow> storage_key \<Rightarrow> bytes \<Rightarrow> 'n \<Rightarrow> (int \<times> 'n) res" where
  "nv_storage_write nv key data s =
     (if key = LOCAL_IRK \<or> key = BT_KEYS
      then let (ret, old) = nv_get nv ''BT_KEYS'' SIZEOF_BT_KEYS s in
        if ret \<ge> 0
        then if length old < SIZEOF_BT_KEYS then Inl Uninit_Read
          else if length data < SIZEOF_BT_KEYS then Inl Out_Of_Bounds
          else if old = take SIZEOF_BT_KEYS data then Inr (ret, s) else Inr (nv_set nv ''BT_KEYS'' data s)
        else Inr (nv_set nv ''BT_KEYS'' data s)
      else if key = ID_ADDR then Inr (nv_set nv ''BT_ADDR'' data s) else Inr (0, s))"

definition nv_storage_clear :: "'n nvram \<Rightarrow> 'n \<Rightarrow> int \<times> 'n" where
  "nv_storage_clear nv s = nv_set nv ''BT_KEYS'' (replicate SIZEOF_BT_KEYS 0) s"

section \<open>The interface of a key store\<close>

text \<open>
  A store of at most \<open>cap\<close> keys: what is set is found, and setting another key does not disturb it while there is room.
\<close>

locale keyed_store =
  fixes ok :: "'s \<Rightarrow> bool" and get :: "'s \<Rightarrow> 'k \<Rightarrow> 'v option" and set_key :: "'k \<Rightarrow> 'v \<Rightarrow> 's \<Rightarrow> 's"
    and valid :: "'k \<Rightarrow> 'v \<Rightarrow> bool" and keys_of :: "'s \<Rightarrow> 'k set" and cap :: nat
  assumes set_ok: "ok s \<Longrightarrow> valid k v \<Longrightarrow> ok (set_key k v s)"
    and get_set: "ok s \<Longrightarrow> valid k v \<Longrightarrow> get (set_key k v s) k = Some v"
    and get_other: "ok s \<Longrightarrow> valid k v \<Longrightarrow> valid k' v' \<Longrightarrow> k' \<noteq> k \<Longrightarrow> card (insert k (keys_of s)) \<le> cap \<Longrightarrow> get (set_key k v s) k' = get s k'"
    and keys_set: "ok s \<Longrightarrow> valid k v \<Longrightarrow> card (insert k (keys_of s)) \<le> cap \<Longrightarrow> keys_of (set_key k v s) = insert k (keys_of s)"
    and keys_finite: "ok s \<Longrightarrow> finite (keys_of s)"
begin

lemma sets_ok: "ok s \<Longrightarrow> list_all (\<lambda>(k, v). valid k v) kvs \<Longrightarrow> ok (fold (\<lambda>(k, v). set_key k v) kvs s)"
  by (induction kvs arbitrary: s) (auto simp: set_ok)

lemma get_sets:
  assumes "ok s" "list_all (\<lambda>(k, v). valid k v) kvs" "card (fst ` set kvs \<union> keys_of s) \<le> cap" "valid k v"
  shows "get (fold (\<lambda>(k, v). set_key k v) kvs s) k = (case map_of (rev kvs) k of Some v \<Rightarrow> Some v | None \<Rightarrow> get s k)"
  using assms(1-3)
proof (induction kvs arbitrary: s)
  case (Cons kv kvs)
  obtain k1 v1 where kv: "kv = (k1, v1)" by (cases kv)
  have v: "valid k1 v1" "list_all (\<lambda>(k, v). valid k v) kvs" using Cons.prems(2) kv by auto
  have fin: "finite (insert k1 (fst ` set kvs \<union> keys_of s))" using keys_finite [OF Cons.prems(1)] by simp
  have "card (insert k1 (keys_of s)) \<le> card (insert k1 (fst ` set kvs \<union> keys_of s))" using fin by (intro card_mono) auto
  also have "insert k1 (fst ` set kvs \<union> keys_of s) = fst ` set (kv # kvs) \<union> keys_of s" using kv by auto
  finally have room: "card (insert k1 (keys_of s)) \<le> cap" using Cons.prems(3) by simp
  have keys: "keys_of (set_key k1 v1 s) = insert k1 (keys_of s)" using keys_set [OF Cons.prems(1) v(1) room] .
  have "fst ` set kvs \<union> insert k1 (keys_of s) = fst ` set (kv # kvs) \<union> keys_of s" using kv by auto
  then have "card (fst ` set kvs \<union> keys_of (set_key k1 v1 s)) \<le> cap" using keys Cons.prems(3) by simp
  then have "get (fold (\<lambda>(k, v). set_key k v) kvs (set_key k1 v1 s)) k =
      (case map_of (rev kvs) k of Some v \<Rightarrow> Some v | None \<Rightarrow> get (set_key k1 v1 s) k)"
    using Cons.IH set_ok [OF Cons.prems(1) v(1)] v(2) by blast
  moreover have "get (set_key k1 v1 s) k = (if k = k1 then Some v1 else get s k)"
    using get_set [OF Cons.prems(1) v(1)] get_other [OF Cons.prems(1) v(1) assms(4) _ room] by auto
  ultimately show ?case using kv by (auto simp: map_add_def split: option.splits)
qed simp

end

section \<open>The pool as a key store\<close>

definition entry_addr :: "bytes \<Rightarrow> bytes" where
  "entry_addr e = field OFF_ADDR 7 e"

definition store_ok :: "key_store \<Rightarrow> bool" where
  "store_ok st \<longleftrightarrow> (\<exists>e0 e1. storage_key_pool st = [e0, e1] \<and> length e0 = SIZEOF_BT_KEYS \<and> length e1 = SIZEOF_BT_KEYS \<and>
     (entry_addr e0 \<noteq> entry_addr e1 \<or> entry_addr e0 = ADDR_ANY))"

definition identity :: "bytes \<Rightarrow> bool" where
  "identity addr \<longleftrightarrow> length addr = 7 \<and> \<not> is_rpa addr \<and> addr \<noteq> ADDR_ANY"

definition keys_valid :: "bytes \<Rightarrow> bytes \<Rightarrow> bool" where
  "keys_valid addr data \<longleftrightarrow> identity addr \<and> length data = SIZEOF_BT_KEYS \<and> entry_addr data = addr"

definition get_keys :: "irk_matches \<Rightarrow> key_store \<Rightarrow> bytes \<Rightarrow> bytes option" where
  "get_keys m st addr = (case storage_read m (Some addr) BT_KEYS (replicate SIZEOF_BT_KEYS 0) st of
     Inr (ret, buf, _) \<Rightarrow> if ret = int SIZEOF_BT_KEYS then Some buf else None | Inl _ \<Rightarrow> None)"

definition set_keys :: "irk_matches \<Rightarrow> bytes \<Rightarrow> bytes \<Rightarrow> key_store \<Rightarrow> key_store" where
  "set_keys m addr data st = (case storage_write m (Some addr) BT_KEYS data st of Inr (_, st') \<Rightarrow> st' | Inl _ \<Rightarrow> st)"

definition pool_keys :: "key_store \<Rightarrow> bytes set" where
  "pool_keys st = entry_addr ` set (storage_key_pool st) - {ADDR_ANY}"

lemma find_identity_two: "storage_key_pool st = [e0, e1] \<Longrightarrow>
  find_identity a st = (if entry_addr e0 = a then Some 0 else if entry_addr e1 = a then Some 1 else None)"
  by (simp add: find_identity_def entry_addr_def)

lemma get_keys_two:
  assumes "storage_key_pool st = [e0, e1]" "length e0 = 144" "length e1 = 144" "identity a"
  shows "get_keys m st a = (if entry_addr e0 = a then Some e0 else if entry_addr e1 = a then Some e1 else None)"
  using assms by (auto simp: get_keys_def storage_read_def find_opt_def find_bt_keys_def find_identity_two identity_def copy_out_def
    mem_cpy_def field_def)

text \<open>Where \<open>find_bt_keys\<close> puts an address.\<close>

definition slot :: "bytes \<Rightarrow> key_store \<Rightarrow> nat" where
  "slot a st = (case find_identity a st of Some i \<Rightarrow> i | None \<Rightarrow> (case find_identity ADDR_ANY st of Some i \<Rightarrow> i | None \<Rightarrow> removeCnt st mod 2))"

lemma set_keys_slot:
  assumes "storage_key_pool st = [e0, e1]" "length e0 = 144" "length e1 = 144" "keys_valid a v"
  shows "storage_key_pool (set_keys m a v st) = [e0, e1][slot a st := v]"
    "\<exists>st'. storage_write m (Some a) BT_KEYS v st = Inr (144, st')"
proof -
  have "length (put OFF_ADDR a e0) = 144" "length (put OFF_ADDR a e1) = 144" using assms by (simp_all add: put_def keys_valid_def identity_def)
  moreover have "removeCnt st mod 2 = 0 \<or> removeCnt st mod 2 = 1" by auto
  ultimately show "storage_key_pool (set_keys m a v st) = [e0, e1][slot a st := v]" "\<exists>st'. storage_write m (Some a) BT_KEYS v st = Inr (144, st')"
    using assms by (auto simp: set_keys_def storage_write_def find_opt_def find_bt_keys_def find_identity_two keys_valid_def identity_def slot_def copy_in_def
      claim_def mem_cpy_def arr_get_def Let_def)
qed

lemma slot_two: "storage_key_pool st = [e0, e1] \<Longrightarrow> slot a st < 2"
  by (auto simp: slot_def find_identity_two)

lemma store_okE:
  assumes "store_ok st"
  obtains e0 e1 where "storage_key_pool st = [e0, e1]" "length e0 = 144" "length e1 = 144" "entry_addr e0 \<noteq> entry_addr e1 \<or> entry_addr e0 = ADDR_ANY"
  using assms by (auto simp: store_ok_def)

lemma slot_cases:
  assumes "storage_key_pool st = [e0, e1]"
  shows "slot a st = 0 \<and> (entry_addr e1 = a \<longrightarrow> entry_addr e0 = a) \<or> slot a st = 1 \<and> entry_addr e0 \<noteq> a"
proof -
  have "removeCnt st mod 2 = 0 \<or> removeCnt st mod 2 = 1" by auto
  then show ?thesis by (auto simp: slot_def find_identity_two [OF assms])
qed

lemma set_keys_ok:
  assumes "store_ok st" "keys_valid a v"
  shows "store_ok (set_keys m a v st)"
proof -
  obtain e0 e1 where e: "storage_key_pool st = [e0, e1]" "length e0 = 144" "length e1 = 144" "entry_addr e0 \<noteq> entry_addr e1 \<or> entry_addr e0 = ADDR_ANY"
    using store_okE [OF assms(1)] .
  have v: "length v = 144" "entry_addr v = a" "a \<noteq> ADDR_ANY" using assms(2) by (simp_all add: keys_valid_def identity_def)
  show ?thesis
    using slot_cases [OF e(1), of a] set_keys_slot(1) [OF e(1-3) assms(2), of m] e v by (auto simp: store_ok_def)
qed

text \<open>While there is room an address goes to its own entry or to a free one.\<close>

lemma slot_room:
  assumes "storage_key_pool st = [e0, e1]" "entry_addr e0 \<noteq> entry_addr e1 \<or> entry_addr e0 = ADDR_ANY" "a \<noteq> ADDR_ANY"
    "card (insert a (pool_keys st)) \<le> 2"
  shows "slot a st = 0 \<and> (entry_addr e0 = a \<or> entry_addr e0 = ADDR_ANY \<and> entry_addr e1 \<noteq> a) \<or>
    slot a st = 1 \<and> entry_addr e0 \<noteq> a \<and> (entry_addr e1 = a \<or> entry_addr e1 = ADDR_ANY \<and> entry_addr e0 \<noteq> ADDR_ANY)"
proof -
  have "\<not> (entry_addr e0 \<noteq> a \<and> entry_addr e1 \<noteq> a \<and> entry_addr e0 \<noteq> ADDR_ANY \<and> entry_addr e1 \<noteq> ADDR_ANY)"
  proof
    assume n: "entry_addr e0 \<noteq> a \<and> entry_addr e1 \<noteq> a \<and> entry_addr e0 \<noteq> ADDR_ANY \<and> entry_addr e1 \<noteq> ADDR_ANY"
    then have "insert a (pool_keys st) = {a, entry_addr e0, entry_addr e1}" using assms(1) by (auto simp: pool_keys_def)
    moreover have "card {a, entry_addr e0, entry_addr e1} = 3" using n assms(2) by auto
    ultimately show False using assms(4) by simp
  qed
  then show ?thesis using assms(1,3) by (auto simp: slot_def find_identity_two)
qed

lemma get_set_keys:
  assumes "store_ok st" "keys_valid k v"
  shows "get_keys m (set_keys m k v st) k = Some v"
proof -
  obtain e0 e1 where e: "storage_key_pool st = [e0, e1]" "length e0 = 144" "length e1 = 144" "entry_addr e0 \<noteq> entry_addr e1 \<or> entry_addr e0 = ADDR_ANY"
    using store_okE [OF assms(1)] .
  have l: "length v = 144" "entry_addr v = k" "identity k" using assms(2) by (simp_all add: keys_valid_def)
  show ?thesis
    using slot_cases [OF e(1), of k] set_keys_slot(1) [OF e(1-3) assms(2), of m] get_keys_two [OF _ l(1) e(3) l(3)]
      get_keys_two [OF _ e(2) l(1) l(3)] l(2) by auto
qed

lemma set_keys_room:
  assumes "store_ok st" "keys_valid k v" "card (insert k (pool_keys st)) \<le> 2"
  shows "pool_keys (set_keys m k v st) = insert k (pool_keys st)"
    and "keys_valid k' v' \<Longrightarrow> k' \<noteq> k \<Longrightarrow> get_keys m (set_keys m k v st) k' = get_keys m st k'"
proof -
  obtain e0 e1 where e: "storage_key_pool st = [e0, e1]" "length e0 = 144" "length e1 = 144" "entry_addr e0 \<noteq> entry_addr e1 \<or> entry_addr e0 = ADDR_ANY"
    using store_okE [OF assms(1)] .
  have l: "length v = 144" "entry_addr v = k" "identity k" "k \<noteq> ADDR_ANY" using assms(2) by (simp_all add: keys_valid_def identity_def)
  note s = slot_room [OF e(1,4) l(4) assms(3)]
  note p = set_keys_slot(1) [OF e(1-3) assms(2), of m]
  show "pool_keys (set_keys m k v st) = insert k (pool_keys st)" using s p e(1) l by (auto simp: pool_keys_def)
  assume v': "keys_valid k' v'" and ne: "k' \<noteq> k"
  have i: "identity k'" "k' \<noteq> ADDR_ANY" using v' by (simp_all add: keys_valid_def identity_def)
  show "get_keys m (set_keys m k v st) k' = get_keys m st k'"
    using s p ne i l get_keys_two [OF e(1-3) i(1)] get_keys_two [OF _ l(1) e(3) i(1)] get_keys_two [OF _ e(2) l(1) i(1)] by auto
qed

lemma pool_keys_finite: "finite (pool_keys st)"
  by (simp add: pool_keys_def)

interpretation pool: keyed_store store_ok "get_keys m" "set_keys m" keys_valid pool_keys 2
  by unfold_locales (simp_all add: set_keys_ok get_set_keys set_keys_room pool_keys_finite)

text \<open>
  C19 (roundtrip). The pool of two entries is a store of pairing keys: after any sequence of writes for at most two devices, counting those already
  stored, reading a device's keys gives what was written for it last, or what was stored before. Devices are identified by addresses that are not
  resolvable private ones, and a record carries the address it is written for.
\<close>

theorem keys_last_write:
  assumes "store_ok st" "list_all (\<lambda>(k, v). keys_valid k v) kvs" "card (fst ` set kvs \<union> pool_keys st) \<le> 2" "keys_valid a v"
  shows "get_keys m (fold (\<lambda>(k, v). set_keys m k v) kvs st) a = (case map_of (rev kvs) a of Some v \<Rightarrow> Some v | None \<Rightarrow> get_keys m st a)"
  using pool.get_sets [OF assms] .

definition keys_for :: "u8 \<Rightarrow> u8 \<Rightarrow> bytes" where
  "keys_for a x = [0, a, 0, 0, 0, 0, 0] @ replicate 137 x"

lemma keys_for_valid: "a \<noteq> 0 \<Longrightarrow> keys_valid [0, a, 0, 0, 0, 0, 0] (keys_for a x)"
  by (simp add: keys_valid_def identity_def keys_for_def entry_addr_def field_def is_rpa_def ADDR_ANY_def numeral_eq_Suc)

lemma storage_init_ok: "store_ok storage_init" "pool_keys storage_init = {}"
  by (auto simp: store_ok_def storage_init_def entry_addr_def field_def ADDR_ANY_def pool_keys_def numeral_2_eq_2)

theorem keys_last_write_witness:
  "get_keys (\<lambda>_ _. False) (fold (\<lambda>(k, v). set_keys (\<lambda>_ _. False) k v)
     [([0, 1, 0, 0, 0, 0, 0], keys_for 1 7), ([0, 2, 0, 0, 0, 0, 0], keys_for 2 8), ([0, 1, 0, 0, 0, 0, 0], keys_for 1 9)] storage_init)
     [0, 1, 0, 0, 0, 0, 0] = Some (keys_for 1 9)"
proof -
  have "card {[0, 1, 0, 0, 0, 0, 0 :: u8], [0, 2, 0, 0, 0, 0, 0], [0, 1, 0, 0, 0, 0, 0]} \<le> 2" by (simp add: card_insert_if)
  then show ?thesis
    using keys_last_write [OF storage_init_ok(1), of "[([0, 1, 0, 0, 0, 0, 0], keys_for 1 7), ([0, 2, 0, 0, 0, 0, 0], keys_for 2 8),
      ([0, 1, 0, 0, 0, 0, 0], keys_for 1 9)]" "[0, 1, 0, 0, 0, 0, 0]" "keys_for 1 9" "\<lambda>_ _. False"]
    by (simp add: keys_for_valid storage_init_ok(2))
qed

lemma put_length: "off + length bs \<le> length e \<Longrightarrow> length (put off bs e) = length e"
  by (simp add: put_def)

lemma find_write:
  assumes "storage_key_pool st = [e0, e1]" "length e0 = 144" "length e1 = 144" "identity a"
  shows "\<exists>st'. find_opt m (Some a) STORAGE_WRITE st = (Some (slot a st), st') \<and>
    storage_key_pool st' = [e0, e1][slot a st := put OFF_ADDR a ([e0, e1] ! slot a st)]"
proof -
  have "put OFF_ADDR a e = e" if "entry_addr e = a" "length e = 144" for e
    using that by (auto simp: put_def entry_addr_def field_def)
  moreover have "removeCnt st mod 2 = 0 \<or> removeCnt st mod 2 = 1" by auto
  ultimately show ?thesis
    using assms by (auto simp: find_opt_def find_bt_keys_def find_identity_two identity_def slot_def claim_def)
qed

text \<open>
  The case for the remote signature key lacks a \<open>break\<close> in both functions. Writing that key also overwrites the first twenty bytes of the
  long term key of the same device, and reading it into a buffer of its own size copies the long term key and overflows the buffer.
\<close>

theorem keys_csrk_overwrites_ltk:
  assumes "store_ok st" "identity a" "length csrk = 20" "length buf = 20"
  shows "\<exists>st'. storage_write m (Some a) REMOTE_CSRK csrk st = Inr (20, st') \<and>
    (\<exists>ltk. storage_read m (Some a) LTK (replicate 32 0) st' = Inr (32, ltk, st') \<and> take 20 ltk = csrk) \<and>
    storage_read m (Some a) REMOTE_CSRK buf st' = Inl Out_Of_Bounds"
proof -
  obtain e0 e1 where e: "storage_key_pool st = [e0, e1]" "length e0 = 144" "length e1 = 144" using store_okE [OF assms(1)] .
  define ps where "ps = [e0, e1]"
  let ?i = "slot a st"
  let ?e = "put OFF_ADDR a (ps ! ?i)"
  let ?w = "put OFF_LTK csrk (put OFF_REMOTE_CSRK csrk ?e)"
  have i: "?i < 2" using slot_two [OF e(1)] .
  have ps: "length ps = 2" "length (ps ! ?i) = 144" using e(2,3) i by (auto simp: ps_def less_2_cases_iff)
  have a: "length a = 7" "\<not> is_rpa a" using assms(2) by (simp_all add: identity_def)
  obtain st1 where st1: "find_opt m (Some a) STORAGE_WRITE st = (Some ?i, st1)" "storage_key_pool st1 = ps[?i := ?e]"
    using find_write [OF e assms(2)] ps_def by blast
  have le: "length ?e = 144" "length (put OFF_REMOTE_CSRK csrk ?e) = 144" using ps(2) a assms(3) by (simp_all add: put_def)
  have c: "mem_cpy ?e OFF_REMOTE_CSRK csrk 20 = Inr (put OFF_REMOTE_CSRK csrk ?e)"
    "mem_cpy (put OFF_REMOTE_CSRK csrk ?e) OFF_LTK csrk 20 = Inr ?w"
    using le assms(3) by (simp_all add: mem_cpy_def put_def [of _ csrk])
  let ?st = "st1\<lparr>storage_key_pool := ps[?i := ?w]\<rparr>"
  have w: "storage_write m (Some a) REMOTE_CSRK csrk st = Inr (20, ?st)"
    using st1 c assms(3) i ps(1) by (simp add: storage_write_def copy_in_def arr_get_def)
  have lw: "entry_addr ?w = a" "take 20 (field OFF_LTK 32 ?w) = csrk" "length (field OFF_LTK 32 ?w) = 32"
    using le ps(2) a assms(3) by (simp_all add: put_def entry_addr_def field_def)
  have "find_identity a ?st = Some ?i"
    using slot_cases [OF e(1), of a] lw(1) by (auto simp: find_identity_def ps_def entry_addr_def)
  then have f: "find_opt m (Some a) STORAGE_READ ?st = (Some ?i, ?st)" using a(2) by (simp add: find_opt_def find_bt_keys_def)
  have nth: "storage_key_pool ?st ! ?i = ?w" using i ps(1) by simp
  have "storage_read m (Some a) LTK (replicate 32 0) ?st = Inr (32, field OFF_LTK 32 ?w, ?st)"
    using f nth lw(3) by (simp add: storage_read_def copy_out_def mem_cpy_def)
  moreover have "storage_read m (Some a) REMOTE_CSRK buf ?st = Inl Out_Of_Bounds"
  proof -
    have c: "length (field OFF_REMOTE_CSRK 20 ?w) = 20"
      using put_length [of OFF_LTK csrk "put OFF_REMOTE_CSRK csrk ?e"] le(2) assms(3) by (simp add: field_def)
    have "copy_out (Some (field OFF_REMOTE_CSRK 20 ?w)) (0, buf) = Inr (20, field OFF_REMOTE_CSRK 20 ?w)"
      unfolding copy_out_def using assms(4) c by (simp add: mem_cpy_def)
    moreover have "copy_out (Some (field OFF_LTK 32 ?w)) (20, field OFF_REMOTE_CSRK 20 ?w) = Inl Out_Of_Bounds"
      unfolding copy_out_def using c lw(3) by (simp add: mem_cpy_def)
    ultimately show ?thesis unfolding storage_read_def f by (simp add: nth [simplified])
  qed
  ultimately show ?thesis using w lw(2) by blast
qed

theorem keys_csrk_overwrites_ltk_witness:
  "\<exists>st'. storage_write (\<lambda>_ _. False) (Some [0, 1, 0, 0, 0, 0, 0]) REMOTE_CSRK (replicate 20 5) storage_init = Inr (20, st') \<and>
    (\<exists>ltk. storage_read (\<lambda>_ _. False) (Some [0, 1, 0, 0, 0, 0, 0]) LTK (replicate 32 0) st' = Inr (32, ltk, st') \<and> take 20 ltk = replicate 20 5) \<and>
    storage_read (\<lambda>_ _. False) (Some [0, 1, 0, 0, 0, 0, 0]) REMOTE_CSRK (replicate 20 0) st' = Inl Out_Of_Bounds"
proof -
  have "identity [0, 1, 0, 0, 0, 0, 0]" using keys_for_valid [of 1 0] by (simp add: keys_valid_def)
  from keys_csrk_overwrites_ltk [OF storage_init_ok(1) this, of "replicate 20 5" "replicate 20 0" "\<lambda>_ _. False"] show ?thesis by simp
qed


section \<open>The single entry\<close>

text \<open>
  With a memory that reads back what was set, keys written to the single entry are found under their address.
\<close>

lemma nv_keys_roundtrip:
  assumes "\<And>v s ret s'. nv_set nv ''BT_KEYS'' v s = (ret, s') \<Longrightarrow> 0 \<le> ret \<Longrightarrow> nv_get nv ''BT_KEYS'' (length v) s' = (int (length v), v)"
    "keys_valid a v" "nv_storage_write nv BT_KEYS v s = Inr (ret, s')" "0 \<le> ret" "length buf = SIZEOF_BT_KEYS"
    "nv_get nv ''BT_KEYS'' SIZEOF_BT_KEYS s = (int (length old), old)"
  shows "nv_storage_read m nv (Some a) BT_KEYS buf s' = Inr (int SIZEOF_BT_KEYS, v)"
proof -
  have v: "length v = 144" "entry_addr v = a" "\<not> is_rpa a" using assms(2) by (simp_all add: keys_valid_def identity_def)
  have "nv_get nv ''BT_KEYS'' 144 s' = (144, v)"
  proof (cases "old = v")
    case True
    then show ?thesis using assms(3,6) v(1) by (simp add: nv_storage_write_def)
  next
    case False
    then have "nv_set nv ''BT_KEYS'' v s = (ret, s')" using assms(3,6) v(1) by (auto simp: nv_storage_write_def split: if_splits)
    then show ?thesis using assms(1) [of v s ret s'] assms(4) v(1) by simp
  qed
  then show ?thesis using v assms(5) by (simp add: nv_storage_read_def nv_name_def addr_match_bt_keys_def entry_addr_def)
qed

end
