(* ===== verification/Key_Input.thy ===== *)
theory Key_Input
  imports Prelude
begin

unbundle bit_operations_syntax

text \<open>
  Keys: the drivers of the analog key board (\<^verbatim>\<open>samples/voice_rcu/src/peripheral_rmc/drivers/adckey_acts.c\<close>) and of the key matrix
  (\<^verbatim>\<open>drivers/input/mxkeypad_acts.c\<close>), and the input manager (\<^verbatim>\<open>ext/lib/actions/framework/input_manager.c\<close>) that turns their reports into messages for the
  application.
\<close>

section \<open>Single precision\<close>

text \<open>
  The margin of a key is computed in single precision. A positive number is \<open>m / 2^k\<close>, with the significand \<open>m\<close> of 24 bits; the results are rounded to the nearest,
  to the even one of two that are equally near.
\<close>

function f32_exp :: "nat \<Rightarrow> nat \<Rightarrow> nat \<Rightarrow> nat" where
  "f32_exp num den k = (if 2 ^ 23 * den \<le> num * 2 ^ k \<or> 149 \<le> k then k else f32_exp num den (k + 1))"
  by pat_completeness auto
termination
  by (relation "measure (\<lambda>(num, den, k). 149 - k)") auto

declare f32_exp.simps [simp del]

definition round_even :: "nat \<Rightarrow> nat \<Rightarrow> nat" where
  "round_even num den = (let q = num div den; r = num mod den in if 2 * r < den \<or> 2 * r = den \<and> even q then q else q + 1)"

definition f32_of :: "nat \<Rightarrow> nat \<Rightarrow> nat \<times> nat" where
  "f32_of num den = (let k = f32_exp num den 0 in (round_even (num * 2 ^ k) den, k))"

definition f32_trunc :: "nat \<times> nat \<Rightarrow> nat" where
  "f32_trunc = (\<lambda>(m, k). m div 2 ^ k)"

section \<open>Analog keys\<close>

text \<open>An entry of the map: the conversion result for a battery of one volt, that for the current battery, and the key.\<close>

record adckey_map =
  adc_div :: u16
  adc_val :: u16
  map_key :: u16

definition adckey_0_acts_keymaps :: "adckey_map list" where
  "adckey_0_acts_keymaps = map (\<lambda>(d, v, k). \<lparr>adc_div = d, adc_val = v, map_key = k\<rparr>)
     [(28, 0, 6), (60, 123, 7), (95, 240, 8), (126, 372, 9), (156, 507, 10), (192, 633, 11), (220, 763, 12)]"

definition CONFIG_ADCKEY_VAL_MARGIN :: "u16 \<Rightarrow> u16" where
  "CONFIG_ADCKEY_VAL_MARGIN bat = (let (m, k) = f32_of (unat bat) 3600 in of_nat (f32_trunc (f32_of (m * 60) (2 ^ k))))"

definition update_adckey_map :: "u16 \<Rightarrow> adckey_map list \<Rightarrow> adckey_map list" where
  "update_adckey_map bat_val = map (\<lambda>e. e\<lparr>adc_val := of_nat (unat (adc_div e) * unat bat_val div 1000)\<rparr>)"

text \<open>The key of a conversion result; zero stands for no key in this driver.\<close>

fun first_below :: "nat \<Rightarrow> nat \<Rightarrow> adckey_map list \<Rightarrow> u16" where
  "first_below v margin [] = 0"
| "first_below v margin (e # es) = (if v < unat (adc_val e) + margin then map_key e else first_below v margin es)"

definition adckey_acts_get_keycode_new :: "u16 \<Rightarrow> u16 \<Rightarrow> adckey_map list \<Rightarrow> u16 \<times> adckey_map list" where
  "adckey_acts_get_keycode_new bat_val adcval maps =
     (let maps = update_adckey_map bat_val maps in (first_below (unat adcval) (unat (CONFIG_ADCKEY_VAL_MARGIN bat_val)) maps, maps))"

text \<open>
  The state of a key board, and the two entries of the driver, of which the application uses one. A poll returns the keys it reports, with one for down and zero for
  up, and whether it declares the boards idle: \<open>None\<close> is the null pointer of the unused entry.
\<close>

record adckey_data =
  scan_count :: nat
  prev_keycode :: u16
  prev_stable_keycode :: u16
  key_maps :: "adckey_map list"

record adckey_dev =
  adckey_board :: "adckey_data option"
  avalible :: bool

record adckey_drv =
  adckey_devs :: "adckey_dev list"
  no_key_cnt :: u8
  busy_cleared :: "nat option list"

abbreviation (input) "CONFIG_ADCKEY_SAMPLE_FILTER_DEP \<equiv> 2 :: nat"
abbreviation (input) "CONFIG_ADCKEY_POLL_NO_KEY_CNT \<equiv> 8 :: u8"

type_synonym key_report = "u16 \<times> u32"

definition adckey_scan :: "u16 \<Rightarrow> adckey_data \<Rightarrow> adckey_data \<times> key_report list" where
  "adckey_scan keycode d =
     (if keycode = prev_keycode d
      then let d = d\<lparr>scan_count := scan_count d + 1\<rparr> in
        if scan_count d = CONFIG_ADCKEY_SAMPLE_FILTER_DEP
        then (d\<lparr>prev_stable_keycode := keycode, scan_count := 0\<rparr>,
              (if prev_stable_keycode d \<noteq> 0 \<and> keycode \<noteq> prev_stable_keycode d then [(prev_stable_keycode d, 0)] else []) @
              (if keycode \<noteq> 0 then [(keycode, 1)] else []))
        else (d, [])
      else (d\<lparr>prev_keycode := keycode, scan_count := 1\<rparr>, []))"

definition busy_ids :: "adckey_dev list \<Rightarrow> nat option list" where
  "busy_ids ds = map (\<lambda>(i, d). if adckey_board d = None then None else Some i) (List.enumerate 0 ds)"

text \<open>One entry, for the conversion result and the battery voltage.\<close>

definition adckey_poll_dev :: "u16 \<Rightarrow> u16 \<Rightarrow> nat \<Rightarrow> adckey_drv \<Rightarrow> adckey_drv \<times> key_report list" where
  "adckey_poll_dev bat_val adcval i a =
     (case adckey_board (adckey_devs a ! i) of None \<Rightarrow> (a, []) | Some d \<Rightarrow>
        let (keycode, maps) = adckey_acts_get_keycode_new bat_val adcval (key_maps d);
            d = d\<lparr>key_maps := maps\<rparr>;
            a = (if keycode \<noteq> 0 then a\<lparr>no_key_cnt := 0\<rparr> else a) in
        if keycode = 0 \<and> prev_stable_keycode d = 0
        then let a = a\<lparr>adckey_devs := (adckey_devs a)[i := (adckey_devs a ! i)\<lparr>adckey_board := Some d\<rparr>], no_key_cnt := no_key_cnt a + 1\<rparr> in
          (if no_key_cnt a \<ge> CONFIG_ADCKEY_POLL_NO_KEY_CNT then a\<lparr>no_key_cnt := 0, busy_cleared := busy_cleared a @ busy_ids (adckey_devs a)\<rparr> else a, [])
        else let (d, es) = adckey_scan keycode d in
          (a\<lparr>adckey_devs := (adckey_devs a)[i := (adckey_devs a ! i)\<lparr>adckey_board := Some d\<rparr>]\<rparr>, es))"

fun adckey_poll_from :: "nat list \<Rightarrow> u16 \<Rightarrow> (nat \<Rightarrow> u16) \<Rightarrow> adckey_drv \<Rightarrow> adckey_drv \<times> key_report list" where
  "adckey_poll_from [] bat_val adc a = (a, [])"
| "adckey_poll_from (i # is) bat_val adc a =
     (if avalible (adckey_devs a ! i)
      then let (a, es) = adckey_poll_dev bat_val (adc i) i a; (a, fs) = adckey_poll_from is bat_val adc a in (a, es @ fs)
      else adckey_poll_from is bat_val adc a)"

definition adckey_acts_poll_new :: "u16 \<Rightarrow> (nat \<Rightarrow> u16) \<Rightarrow> adckey_drv \<Rightarrow> adckey_drv \<times> key_report list" where
  "adckey_acts_poll_new bat_val adc a = adckey_poll_from [0..<length (adckey_devs a)] bat_val adc a"

text \<open>Adding and removing a board; the unused entries are zero.\<close>

definition add_adckey :: "adckey_data \<Rightarrow> adckey_drv \<Rightarrow> adckey_drv" where
  "add_adckey d a = (case List.extract (\<lambda>e. \<not> avalible e) (adckey_devs a) of
     None \<Rightarrow> a
   | Some (xs, e, ys) \<Rightarrow> a\<lparr>adckey_devs := xs @ \<lparr>adckey_board = Some d, avalible = True\<rparr> # ys\<rparr>)"

definition adckey_start :: adckey_drv where
  "adckey_start = add_adckey \<lparr>scan_count = 0, prev_keycode = 0, prev_stable_keycode = 0, key_maps = adckey_0_acts_keymaps\<rparr>
     \<lparr>adckey_devs = replicate 2 \<lparr>adckey_board = None, avalible = False\<rparr>, no_key_cnt = 0, busy_cleared = []\<rparr>"

section \<open>The key matrix\<close>

text \<open>The keys of the matrix on the board with analog keys, by the values of the three registers.\<close>

definition acts_mxkeypad_maps :: "(u32 list \<times> u16) list" where
  "acts_mxkeypad_maps = [([0, 0, 0x80], 2), ([0, 0, 0x04], 3), ([0, 0, 0x400], 4), ([0, 0, 0x8000], 5), ([0, 0, 0x8004], 13), ([0, 0, 0x8400], 14)]"

text \<open>The matrix registers; \<open>get\<close> is \<open>mxkeypad_acts_get_keycode\<close> of the ROM.\<close>

record mxkeypad_data =
  last_key_down :: "u32 list"
  mx_stable_keycode :: u16
  save_scan_key :: "u32 list"
  mx_timer :: bool

definition mxkeypad_acts_scan_key_new :: "(u32 list \<Rightarrow> u16) \<Rightarrow> mxkeypad_data \<Rightarrow> mxkeypad_data \<times> key_report list" where
  "mxkeypad_acts_scan_key_new get s =
     (let key_down = save_scan_key s; keycode = get key_down;
          es = (if mx_stable_keycode s \<noteq> 0 \<and> last_key_down s \<noteq> key_down then [(mx_stable_keycode s, 0)] else []) @ (if keycode \<noteq> 0 then [(keycode, 1)] else []) in
      (s\<lparr>save_scan_key := replicate 3 0, mx_stable_keycode := keycode, last_key_down := key_down, mx_timer := mx_timer s \<or> (\<exists>w\<in>set key_down. w \<noteq> 0)\<rparr>, es))"

text \<open>The timer runs once; the interrupt reads the three registers of the matrix.\<close>

definition mxkeypad_acts_poll_new :: "(u32 list \<Rightarrow> u16) \<Rightarrow> mxkeypad_data \<Rightarrow> mxkeypad_data \<times> key_report list" where
  "mxkeypad_acts_poll_new get s = mxkeypad_acts_scan_key_new get (s\<lparr>mx_timer := False\<rparr>)"

definition mxkeypad_acts_isr_new :: "(u32 list \<Rightarrow> u16) \<Rightarrow> u32 list \<Rightarrow> mxkeypad_data \<Rightarrow> mxkeypad_data \<times> key_report list" where
  "mxkeypad_acts_isr_new get info s = mxkeypad_acts_scan_key_new get (s\<lparr>save_scan_key := info\<rparr>)"

section \<open>The input manager\<close>

abbreviation (input) "KEY_TYPE_DOWN \<equiv> 0x20000000 :: u32"
abbreviation (input) "KEY_TYPE_UP \<equiv> 0x10000000 :: u32"

record input_manager_info =
  press_type :: u32
  press_code :: u32
  report_key_value :: u32
  input_event_locked :: bool

text \<open>
  A report of a driver: the new state, and the value for the callback of the application and, unless the manager is locked, for the message. \<open>hold\<close> is the test whether
  a repeated report of a key is passed on.
\<close>

definition key_event_handle :: "(u32 \<Rightarrow> bool) \<Rightarrow> key_report \<Rightarrow> input_manager_info \<Rightarrow> input_manager_info \<times> u32 option \<times> u32 option" where
  "key_event_handle hold = (\<lambda>(code, val) m.
     let (m, need_report) =
       (if val = 0 then (m\<lparr>press_code := ucast code, press_type := KEY_TYPE_UP\<rparr>, True)
        else if val = 1 then if ucast code \<noteq> press_code m \<or> press_type m \<noteq> KEY_TYPE_DOWN then (m\<lparr>press_code := ucast code, press_type := KEY_TYPE_DOWN\<rparr>, True)
          else (m, hold (press_code m))
        else (m, False)) in
     if need_report
     then let m = m\<lparr>report_key_value := press_type m OR press_code m\<rparr> in
       (m, Some (report_key_value m), if input_event_locked m then None else Some (report_key_value m))
     else (m, None, None))"

definition input_event_lock :: "input_manager_info \<Rightarrow> input_manager_info" where
  "input_event_lock m = m\<lparr>input_event_locked := True\<rparr>"

definition input_event_unlock :: "input_manager_info \<Rightarrow> input_manager_info" where
  "input_event_unlock m = m\<lparr>input_event_locked := False\<rparr>"

section \<open>Which key a voltage is\<close>

lemma f32_exp_eq:
  assumes "k \<le> 149" "\<And>j. j < k \<Longrightarrow> num * 2 ^ j < 2 ^ 23 * den" "2 ^ 23 * den \<le> num * 2 ^ k" "i \<le> k"
  shows "f32_exp num den i = k"
  using assms(4)
proof (induction "k - i" arbitrary: i)
  case 0
  then show ?case using assms(3) by (simp add: f32_exp.simps)
next
  case (Suc n)
  then have "i < k" by linarith
  then have "num * 2 ^ i < 2 ^ 23 * den" by (rule assms(2))
  then show ?case using Suc assms(1) \<open>i < k\<close> by (subst f32_exp.simps) simp
qed

lemma f32_exp_less:
  assumes "0 < k" "k \<le> 149" "num * 2 ^ (k - 1) < 2 ^ 23 * den" "2 ^ 23 * den \<le> num * 2 ^ k"
  shows "f32_exp num den 0 = k"
proof (rule f32_exp_eq [OF assms(2) _ assms(4)])
  fix j assume "j < k"
  then have "num * 2 ^ j \<le> num * 2 ^ (k - 1)" by (intro mult_le_mono2 power_increasing) auto
  then show "num * 2 ^ j < 2 ^ 23 * den" using assms(3) by linarith
qed simp

lemma round_even_near:
  assumes "0 < den"
  shows "2 * round_even num den * den \<le> 2 * num + den" "2 * num \<le> 2 * round_even num den * den + den"
proof -
  define p r where "p = num div den * den" and "r = num mod den"
  have d: "p + r = num" by (simp add: p_def r_def)
  have r: "r < den" using assms by (simp add: r_def)
  have "round_even num den * den = (if 2 * r < den \<or> 2 * r = den \<and> even (num div den) then p else p + den)"
    by (simp add: round_even_def Let_def p_def r_def)
  then show "2 * round_even num den * den \<le> 2 * num + den" "2 * num \<le> 2 * round_even num den * den + den"
    using d r by (auto simp: mult.assoc split: if_splits)
qed

text \<open>For the voltages of the battery the margin is that of exact arithmetic.\<close>

lemma margin_nat:
  assumes "1800 \<le> b" "b \<le> 3250"
  shows "f32_trunc (f32_of (fst (f32_of b 3600) * 60) (2 ^ snd (f32_of b 3600))) = b div 60"
proof -
  define m where "m = round_even (b * 2 ^ 24) 3600"
  define q where "q = b div 60"
  define n where "n k = round_even (m * 60 * 2 ^ k) (2 ^ 24)" for k
  have e1: "f32_exp b 3600 0 = 24" by (rule f32_exp_less) (use assms in auto)
  have f1: "f32_of b 3600 = (m, 24)" by (simp add: f32_of_def e1 m_def)
  have r: "f32_trunc (f32_of (fst (f32_of b 3600) * 60) (2 ^ snd (f32_of b 3600))) = n k div 2 ^ k" if "f32_exp (m * 60) (2 ^ 24) 0 = k" for k
    unfolding f1 fst_conv snd_conv unfolding f32_of_def that n_def Let_def f32_trunc_def prod.case ..
  have m: "7200 * m \<le> 2 * (b * 2 ^ 24) + 3600" "2 * (b * 2 ^ 24) \<le> 7200 * m + 3600" using round_even_near [of 3600 "b * 2 ^ 24"] by (simp_all add: m_def)
  have q: "60 * q \<le> b" "b < 60 * q + 60" by (simp_all add: q_def)
  have n: "2 * n k * 2 ^ 24 \<le> 2 * (m * 60 * 2 ^ k) + 2 ^ 24" "2 * (m * 60 * 2 ^ k) \<le> 2 * n k * 2 ^ 24 + 2 ^ 24" for k
    using round_even_near [of "2 ^ 24" "m * 60 * 2 ^ k"] by (simp_all add: n_def)
  have near: "n k div 2 ^ k = b div 60" if "q * 2 ^ k \<le> n k" "n k < (q + 1) * 2 ^ k" for k
    unfolding q_def [symmetric] using that by (intro div_nat_eqI) (auto simp: algebra_simps)
  consider "1921 \<le> b" | "b = 1920" | "b < 1920" "60 * q < b" | "b = 1800" | "b = 1860" using assms(1) q by fastforce
  then show ?thesis
  proof cases
    case 1
    have "f32_exp (m * 60) (2 ^ 24) 0 = 18" by (rule f32_exp_less) (use 1 m assms in auto)
    moreover have "q * 2 ^ 18 \<le> n 18" "n 18 < (q + 1) * 2 ^ 18" using n [of 18] m q by auto
    ultimately show ?thesis using r near by metis
  next
    case 2
    have "m = 8947849" by (simp add: m_def round_even_def 2)
    moreover have "f32_exp (8947849 * 60) (2 ^ 24) 0 = 18" by (rule f32_exp_less) auto
    ultimately show ?thesis using r [of 18] by (simp add: n_def round_even_def 2)
  next
    case 3
    have "f32_exp (m * 60) (2 ^ 24) 0 = 19" by (rule f32_exp_less) (use 3 m assms in auto)
    moreover have "q * 2 ^ 19 \<le> n 19" "n 19 < (q + 1) * 2 ^ 19" using n [of 19] m q 3 by auto
    ultimately show ?thesis using r near by metis
  next
    case 4
    have "m = 8388608" by (simp add: m_def round_even_def 4)
    moreover have "f32_exp (8388608 * 60) (2 ^ 24) 0 = 19" by (rule f32_exp_less) auto
    ultimately show ?thesis using r [of 19] by (simp add: n_def round_even_def 4)
  next
    case 5
    have "m = 8668228" by (simp add: m_def round_even_def 5)
    moreover have "f32_exp (8668228 * 60) (2 ^ 24) 0 = 19" by (rule f32_exp_less) auto
    ultimately show ?thesis using r [of 19] by (simp add: n_def round_even_def 5)
  qed
qed

lemma margin_exact:
  assumes "1800 \<le> bat" "bat \<le> 3250"
  shows "unat (CONFIG_ADCKEY_VAL_MARGIN bat) = unat bat div 60"
proof -
  have b: "1800 \<le> unat bat" "unat bat \<le> 3250" using assms by (simp_all add: word_le_nat_alt)
  then have "unat bat div 60 < 65536" by simp
  then show ?thesis using margin_nat [OF b]
    by (simp add: CONFIG_ADCKEY_VAL_MARGIN_def case_prod_beta unat_of_nat)
qed

definition nominal :: "u16 \<Rightarrow> nat \<Rightarrow> nat" where
  "nominal bat i = unat (adc_div (adckey_0_acts_keymaps ! i)) * unat bat div 1000"

lemma upd_idem: "update_adckey_map bat (update_adckey_map bat' maps) = update_adckey_map bat maps"
  by (simp add: update_adckey_map_def)

lemma first_below_map:
  assumes "i < length es" "\<And>j. j < i \<Longrightarrow> unat (adc_val (es ! j)) + m \<le> v" "v < unat (adc_val (es ! i)) + m"
  shows "first_below v m es = map_key (es ! i)"
  using assms
proof (induction es arbitrary: i)
  case (Cons e es)
  show ?case
  proof (cases i)
    case (Suc k)
    have "unat (adc_val e) + m \<le> v" using Cons.prems(2) [of 0] Suc by simp
    moreover have "first_below v m es = map_key (es ! k)" 
    proof (rule Cons.IH)
      show "k < length es" "v < unat (adc_val (es ! k)) + m" using Cons.prems(1,3) Suc by simp_all
      show "unat (adc_val (es ! j)) + m \<le> v" if "j < k" for j using Cons.prems(2) [of "Suc j"] that Suc by simp
    qed
    ultimately show ?thesis using Suc by simp
  qed (use Cons.prems in simp)
qed simp

lemma decodes_key:
  assumes "1800 \<le> bat" "bat \<le> 3250" "i < 7" "nominal bat i \<le> unat adc + unat bat div 100" "unat adc < nominal bat i + unat bat div 60"
  shows "fst (adckey_acts_get_keycode_new bat adc (update_adckey_map bat' adckey_0_acts_keymaps)) = [6, 7, 8, 9, 10, 11, 12] ! i"
proof -
  have b: "1800 \<le> unat bat" "unat bat \<le> 3250" using assms(1,2) by (simp_all add: word_le_nat_alt)
  define es where "es = update_adckey_map bat adckey_0_acts_keymaps"
  have l: "length es = 7" by (simp add: es_def update_adckey_map_def adckey_0_acts_keymaps_def)
  have seven: "j = 0 \<or> j = 1 \<or> j = 2 \<or> j = 3 \<or> j = 4 \<or> j = 5 \<or> j = 6" if "j < 7" for j :: nat using that by auto
  have nv: "nominal bat j = [28, 60, 95, 126, 156, 192, 220] ! j * unat bat div 1000" if "j < 7" for j
    using seven [OF that] by (elim disjE) (simp_all add: nominal_def adckey_0_acts_keymaps_def)
  have v: "unat (adc_val (es ! j)) = nominal bat j" if "j < 7" for j
  proof -
    have "nominal bat j < 65536" using seven [OF that] b unfolding nv [OF that] by (elim disjE) simp_all
    moreover have "length adckey_0_acts_keymaps = 7" by (simp add: adckey_0_acts_keymaps_def)
    ultimately show ?thesis using that by (simp add: es_def update_adckey_map_def nominal_def unat_of_nat)
  qed
  have k: "map_key (es ! j) = [6, 7, 8, 9, 10, 11, 12] ! j" if "j < 7" for j
  proof -
    have "map map_key es = [6, 7, 8, 9, 10, 11, 12]" by (simp add: es_def update_adckey_map_def adckey_0_acts_keymaps_def)
    then show ?thesis using that l by (metis nth_map)
  qed
  have step: "nominal bat j + unat bat div 60 + unat bat div 100 \<le> nominal bat (Suc j)" if "Suc j < 7" for j
    using seven [OF Suc_lessD [OF that]] that b unfolding nv [OF that] nv [OF Suc_lessD [OF that]] by (elim disjE) simp_all
  have mono: "nominal bat j + unat bat div 60 + unat bat div 100 \<le> nominal bat i" if "j < i" for j
    using that assms(3)
  proof (induction i)
    case (Suc n)
    then show ?case using step [of n] by (cases "j = n") auto
  qed simp
  have "first_below (unat adc) (unat bat div 60) es = map_key (es ! i)"
  proof (rule first_below_map)
    show "i < length es" using l assms(3) by simp
    fix j assume "j < i"
    then show "unat (adc_val (es ! j)) + unat bat div 60 \<le> unat adc" using mono [of j] v [of j] assms(3,4) by simp
  next
    show "unat adc < unat (adc_val (es ! i)) + unat bat div 60" using v assms(3,5) by simp
  qed
  then show ?thesis using k assms(3) by (simp add: adckey_acts_get_keycode_new_def Let_def upd_idem margin_exact [OF assms(1,2)] es_def)
qed

text \<open>
  C18 (bounds). Which voltage is which key: for every battery voltage the driver may measure, a conversion result less than a sixtieth of the battery above the
  value of a key, and at most a hundredth below it, is that key, whatever the margin in single precision.
\<close>

theorem adckey_decodes:
  assumes "1800 \<le> bat" "bat \<le> 3250" "i < 7" "nominal bat i \<le> unat adc + unat bat div 100" "unat adc < nominal bat i + unat bat div 60"
  shows "fst (adckey_acts_get_keycode_new bat adc (update_adckey_map bat' adckey_0_acts_keymaps)) = [6, 7, 8, 9, 10, 11, 12] ! i"
  using decodes_key [OF assms] .

theorem adckey_decodes_witness: "fst (adckey_acts_get_keycode_new 3000 180 (update_adckey_map 3000 adckey_0_acts_keymaps)) = 7"
  using adckey_decodes [of 3000 1 180 3000] by (simp add: nominal_def adckey_0_acts_keymaps_def)

section \<open>Reports and messages\<close>

text \<open>
  What a source of keys may report: with no key down, that one goes down; with a key down, that it is still down or goes up. The messages of the
  manager, read as reports, are of the same form; strictly alternating messages have no repetitions.
\<close>

fun key_step :: "u16 option \<Rightarrow> key_report \<Rightarrow> u16 option option" where
  "key_step p (k, v) = (if v = 1 \<and> (p = None \<or> p = Some k) then Some (Some k) else if v = 0 \<and> p = Some k then Some None else None)"

fun key_trace :: "u16 option \<Rightarrow> key_report list \<Rightarrow> u16 option option" where
  "key_trace p [] = Some p"
| "key_trace p (e # es) = (case key_step p e of None \<Rightarrow> None | Some q \<Rightarrow> key_trace q es)"

definition msg_step :: "u16 option \<Rightarrow> u32 \<Rightarrow> u16 option option" where
  "msg_step p v = (case p of
     None \<Rightarrow> if v = KEY_TYPE_DOWN OR ucast (ucast v :: u16) then Some (Some (ucast v)) else None
   | Some k \<Rightarrow> if v = KEY_TYPE_UP OR ucast k then Some None else None)"

fun msg_trace :: "u16 option \<Rightarrow> u32 list \<Rightarrow> u16 option option" where
  "msg_trace p [] = Some p"
| "msg_trace p (v # vs) = (case msg_step p v of None \<Rightarrow> None | Some q \<Rightarrow> msg_trace q vs)"

fun run_scans :: "('i \<Rightarrow> 's \<Rightarrow> 's \<times> key_report list) \<Rightarrow> 'i list \<Rightarrow> 's \<Rightarrow> 's \<times> key_report list" where
  "run_scans scan [] s = (s, [])"
| "run_scans scan (i # is) s = (let (s, es) = scan i s; (s, fs) = run_scans scan is s in (s, es @ fs))"

fun run_manager :: "(u32 \<Rightarrow> bool) \<Rightarrow> key_report list \<Rightarrow> input_manager_info \<Rightarrow> input_manager_info \<times> u32 list" where
  "run_manager hold [] m = (m, [])"
| "run_manager hold (e # es) m = (let (m, cb, msg) = key_event_handle hold e m; (m, vs) = run_manager hold es m in (m, (case msg of None \<Rightarrow> [] | Some v \<Rightarrow> [v]) @ vs))"

definition msg_report :: "u32 \<Rightarrow> key_report" where
  "msg_report v = (ucast v, if v = KEY_TYPE_DOWN OR ucast (ucast v :: u16) then 1 else if v = KEY_TYPE_UP OR ucast (ucast v :: u16) then 0 else 2)"

definition key_messages :: "(u32 \<Rightarrow> bool) \<Rightarrow> key_report list \<Rightarrow> input_manager_info \<Rightarrow> key_report list" where
  "key_messages hold es m = map msg_report (snd (run_manager hold es m))"

definition of_source :: "u16 set \<Rightarrow> key_report list \<Rightarrow> key_report list" where
  "of_source codes = filter (\<lambda>e. fst e \<in> codes)"

definition manager_at :: "u16 option \<Rightarrow> input_manager_info \<Rightarrow> bool" where
  "manager_at p m \<longleftrightarrow> \<not> input_event_locked m \<and> (case p of None \<Rightarrow> press_type m \<noteq> KEY_TYPE_DOWN | Some k \<Rightarrow> press_type m = KEY_TYPE_DOWN \<and> press_code m = ucast k)"

lemma key_trace_append: "key_trace p (es @ fs) = (case key_trace p es of None \<Rightarrow> None | Some q \<Rightarrow> key_trace q fs)"
  by (induction es arbitrary: p) (auto split: option.splits)

lemma ucast_code [simp]: "ucast (ucast k :: u32) = (k :: u16)"
  by (rule bit_word_eqI) (auto simp: bit_simps)

lemma down_key: "ucast (KEY_TYPE_DOWN OR ucast k) = (k :: u16)"
proof -
  have "unat (ucast KEY_TYPE_DOWN :: u16) = 0" by simp
  then have z: "(ucast KEY_TYPE_DOWN :: u16) = 0" by (simp only: unat_eq_zero)
  have "(ucast (KEY_TYPE_DOWN OR ucast k) :: u16) = ucast KEY_TYPE_DOWN OR k" by (simp only: unsigned_or_eq ucast_code)
  then show ?thesis unfolding z by simp
qed

lemma code_eq: "(ucast k :: u32) = ucast j \<longleftrightarrow> k = (j :: u16)"
  using ucast_code by metis

lemma manage_step:
  assumes "key_step p (k, v) = Some q" "manager_at p m"
  shows "manager_at q (fst (key_event_handle (\<lambda>_. False) (k, v) m)) \<and>
    msg_trace p (case snd (snd (key_event_handle (\<lambda>_. False) (k, v) m)) of None \<Rightarrow> [] | Some w \<Rightarrow> [w]) = Some q"
  using assms by (cases p) (auto simp: key_event_handle_def manager_at_def msg_step_def down_key code_eq Let_def split: if_splits)

lemma msg_trace_append: "msg_trace p (es @ fs) = (case msg_trace p es of None \<Rightarrow> None | Some q \<Rightarrow> msg_trace q fs)"
  by (induction es arbitrary: p) (auto split: option.splits)

lemma manage_trace:
  assumes "key_trace p es = Some q" "manager_at p m"
  shows "manager_at q (fst (run_manager (\<lambda>_. False) es m)) \<and> msg_trace p (snd (run_manager (\<lambda>_. False) es m)) = Some q"
  using assms
proof (induction es arbitrary: p m)
  case (Cons e es)
  obtain k v where e: "e = (k, v)" by (cases e)
  obtain p' where p': "key_step p (k, v) = Some p'" "key_trace p' es = Some q" using Cons.prems(1) e by (auto split: option.splits)
  show ?case using manage_step [OF p'(1) Cons.prems(2)] Cons.IH [OF p'(2)] e by (auto simp: case_prod_beta msg_trace_append)
qed simp

text \<open>Two sources share the manager: what it holds as the key that is down is a key that one of them considers pressed.\<close>

definition manager_in :: "u16 option \<Rightarrow> u16 option \<Rightarrow> input_manager_info \<Rightarrow> bool" where
  "manager_in p q m \<longleftrightarrow> \<not> input_event_locked m \<and> (press_type m = KEY_TYPE_DOWN \<longrightarrow> (\<exists>k. press_code m = ucast k \<and> (p = Some k \<or> q = Some k)))"

lemma manager_in_sym: "manager_in p q m = manager_in q p m"
  by (auto simp: manager_in_def)

lemma type_key: "ucast (KEY_TYPE_UP OR ucast k) = (k :: u16)"
proof -
  have "unat (ucast KEY_TYPE_UP :: u16) = 0" by simp
  then have z: "(ucast KEY_TYPE_UP :: u16) = 0" by (simp only: unat_eq_zero)
  have "(ucast (KEY_TYPE_UP OR ucast k) :: u16) = ucast KEY_TYPE_UP OR k" by (simp only: unsigned_or_eq ucast_code)
  then show ?thesis unfolding z by simp
qed

lemma up_down: "KEY_TYPE_UP OR ucast (k :: u16) \<noteq> KEY_TYPE_DOWN OR ucast k"
proof -
  have "\<not> bit k 28" using bit_imp_le_length [of k 28] by auto
  then have "bit (KEY_TYPE_UP OR ucast k) 28" "\<not> bit (KEY_TYPE_DOWN OR ucast k :: u32) 28" by (simp_all add: bit_simps)
  then show ?thesis by metis
qed

lemma msg_report_key: "msg_report (KEY_TYPE_DOWN OR ucast k) = (k, 1)" "msg_report (KEY_TYPE_UP OR ucast k) = (k, 0)"
  by (simp_all add: msg_report_def down_key type_key up_down)

lemma share_step:
  assumes "key_step p (k, v) = Some p'" "manager_in p q m" "q \<noteq> Some k"
  shows "manager_in p' q (fst (key_event_handle hold (k, v) m))"
    "case snd (snd (key_event_handle hold (k, v) m)) of None \<Rightarrow> p' = p | Some w \<Rightarrow> msg_report w = (k, v)"
proof -
  show "manager_in p' q (fst (key_event_handle hold (k, v) m))"
    using assms by (auto simp: key_event_handle_def manager_in_def code_eq Let_def split: if_splits)
  show "case snd (snd (key_event_handle hold (k, v) m)) of None \<Rightarrow> p' = p | Some w \<Rightarrow> msg_report w = (k, v)"
    using assms by (cases "press_code m = ucast k") (auto simp: key_event_handle_def manager_in_def code_eq msg_report_key Let_def split: if_splits)
qed

lemma share_trace:
  assumes "key_trace p (of_source A es) = Some p'" "key_trace q (of_source B es) = Some q'" "manager_in p q m"
    "fst ` set es \<subseteq> A \<union> B" "A \<inter> B = {}" "set_option p \<subseteq> A" "set_option q \<subseteq> B"
  shows "key_trace p (of_source A (key_messages hold es m)) = Some p' \<and> key_trace q (of_source B (key_messages hold es m)) = Some q'"
  using assms(1-4,6-7)
proof (induction es arbitrary: p q m)
  case (Cons e es)
  obtain k v where e: "e = (k, v)" by (cases e)
  let ?h = "key_event_handle hold (k, v) m"
  have run: "key_messages hold (e # es) m = map msg_report (case snd (snd ?h) of None \<Rightarrow> [] | Some w \<Rightarrow> [w]) @ key_messages hold es (fst ?h)"
    by (simp add: key_messages_def e case_prod_beta)
  consider "k \<in> A" "k \<notin> B" | "k \<in> B" "k \<notin> A" using Cons.prems(4) assms(5) e by auto
  then show ?case
  proof cases
    case 1
    then obtain p1 where p1: "key_step p (k, v) = Some p1" "key_trace p1 (of_source A es) = Some p'"
      using Cons.prems(1) e by (auto simp: of_source_def split: option.splits)
    have q: "q \<noteq> Some k" using 1(2) Cons.prems(6) by auto
    note st = share_step [OF p1(1) Cons.prems(3) q, of hold]
    have "set_option p1 \<subseteq> A" using p1(1) 1(1) by (auto split: if_splits)
    then have "key_trace p1 (of_source A (key_messages hold es (fst ?h))) = Some p' \<and> key_trace q (of_source B (key_messages hold es (fst ?h))) = Some q'"
      using Cons.prems e 1 by (intro Cons.IH [OF p1(2) _ st(1)]) (auto simp: of_source_def)
    then show ?thesis using st(2) p1(1) 1 by (auto simp: run of_source_def split: option.splits)
  next
    case 2
    then obtain q1 where q1: "key_step q (k, v) = Some q1" "key_trace q1 (of_source B es) = Some q'"
      using Cons.prems(2) e by (auto simp: of_source_def split: option.splits)
    have p: "p \<noteq> Some k" using 2(2) Cons.prems(5) by auto
    note st = share_step [OF q1(1) _ p, of m hold]
    have m: "manager_in q p m" using Cons.prems(3) by (simp add: manager_in_sym)
    have "set_option q1 \<subseteq> B" using q1(1) 2(1) by (auto split: if_splits)
    then have "key_trace p (of_source A (key_messages hold es (fst ?h))) = Some p' \<and> key_trace q1 (of_source B (key_messages hold es (fst ?h))) = Some q'"
    proof (intro Cons.IH [OF _ q1(2)])
      show "key_trace p (of_source A es) = Some p'" using Cons.prems(1) e 2 by (simp add: of_source_def)
      show "manager_in p q1 (fst ?h)" using st(1) [OF m] by (simp add: manager_in_sym)
    qed (use Cons.prems in auto)
    then show ?thesis using st(2) [OF m] q1(1) 2 by (auto simp: run of_source_def split: option.splits)
  qed
qed (simp add: key_messages_def of_source_def)

locale key_source =
  fixes scan :: "'i \<Rightarrow> 's \<Rightarrow> 's \<times> key_report list"
    and pressed :: "'s \<Rightarrow> u16 option"
    and inv :: "'s \<Rightarrow> bool"
    and codes :: "u16 set"
  assumes inv_scan: "inv s \<Longrightarrow> inv (fst (scan i s))"
    and scan_trace: "inv s \<Longrightarrow> key_trace (pressed s) (snd (scan i s)) = Some (pressed (fst (scan i s)))"
    and scan_codes: "inv s \<Longrightarrow> fst ` set (snd (scan i s)) \<subseteq> codes"
    and pressed_codes: "inv s \<Longrightarrow> set_option (pressed s) \<subseteq> codes"
begin

lemma runs_trace: "inv s \<Longrightarrow> inv (fst (run_scans scan is s)) \<and> key_trace (pressed s) (snd (run_scans scan is s)) = Some (pressed (fst (run_scans scan is s)))"
proof (induction "is" arbitrary: s)
  case (Cons i "is")
  show ?case using Cons.IH [OF inv_scan [OF Cons.prems, of i]] scan_trace [OF Cons.prems, of i] by (simp add: case_prod_beta key_trace_append)
qed simp

lemma runs_codes: "inv s \<Longrightarrow> fst ` set (snd (run_scans scan is s)) \<subseteq> codes"
proof (induction "is" arbitrary: s)
  case (Cons i "is")
  show ?case using Cons.IH [OF inv_scan [OF Cons.prems, of i]] scan_codes [OF Cons.prems, of i] by (auto simp: case_prod_beta)
qed simp

lemma messages_alternate:
  assumes "inv s" "manager_at (pressed s) m"
  shows "msg_trace (pressed s) (snd (run_manager (\<lambda>_. False) (snd (run_scans scan is s)) m)) = Some (pressed (fst (run_scans scan is s)))"
  using runs_trace [OF assms(1), of "is"] manage_trace [OF _ assms(2)] by blast

end

text \<open>Two sources whose keys differ, with their reports in any order.\<close>

locale two_key_sources =
  one: key_source scan1 pressed1 inv1 codes1 + two: key_source scan2 pressed2 inv2 codes2
  for scan1 :: "'i \<Rightarrow> 's \<Rightarrow> 's \<times> key_report list" and pressed1 inv1 codes1
    and scan2 :: "'j \<Rightarrow> 't \<Rightarrow> 't \<times> key_report list" and pressed2 inv2 codes2 +
  assumes codes_differ: "codes1 \<inter> codes2 = {}"
begin

lemma of_source_shuffle:
  assumes "es \<in> shuffles xs ys" "fst ` set xs \<subseteq> codes1" "fst ` set ys \<subseteq> codes2"
  shows "of_source codes1 es = xs" "of_source codes2 es = ys" "fst ` set es \<subseteq> codes1 \<union> codes2"
proof -
  have f: "of_source c es \<in> shuffles (of_source c xs) (of_source c ys)" for c using assms(1) filter_shuffles [of _ xs ys] by (auto simp: of_source_def)
  have "of_source codes1 xs = xs" "of_source codes1 ys = []" "of_source codes2 xs = []" "of_source codes2 ys = ys"
    using assms(2,3) codes_differ by (auto simp: of_source_def filter_id_conv filter_empty_conv)
  then show "of_source codes1 es = xs" "of_source codes2 es = ys" using f [of codes1] f [of codes2] by simp_all
  show "fst ` set es \<subseteq> codes1 \<union> codes2" using set_shuffles [OF assms(1)] assms(2,3) by auto
qed

lemma shared_messages:
  assumes "inv1 s" "inv2 t" "manager_in (pressed1 s) (pressed2 t) m"
    "es \<in> shuffles (snd (run_scans scan1 is s)) (snd (run_scans scan2 js t))"
  shows "key_trace (pressed1 s) (of_source codes1 (key_messages hold es m)) = Some (pressed1 (fst (run_scans scan1 is s)))"
    "key_trace (pressed2 t) (of_source codes2 (key_messages hold es m)) = Some (pressed2 (fst (run_scans scan2 js t)))"
proof -
  note sh = of_source_shuffle [OF assms(4) one.runs_codes [OF assms(1)] two.runs_codes [OF assms(2)]]
  have "key_trace (pressed1 s) (of_source codes1 es) = Some (pressed1 (fst (run_scans scan1 is s)))"
    "key_trace (pressed2 t) (of_source codes2 es) = Some (pressed2 (fst (run_scans scan2 js t)))"
    using one.runs_trace [OF assms(1)] two.runs_trace [OF assms(2)] sh by simp_all
  from share_trace [OF this assms(3) sh(3) codes_differ one.pressed_codes [OF assms(1)] two.pressed_codes [OF assms(2)], of hold]
  show "key_trace (pressed1 s) (of_source codes1 (key_messages hold es m)) = Some (pressed1 (fst (run_scans scan1 is s)))"
    "key_trace (pressed2 t) (of_source codes2 (key_messages hold es m)) = Some (pressed2 (fst (run_scans scan2 js t)))" by simp_all
qed

end

text \<open>The analog board: the driver with its one board.\<close>

definition adckey_codes :: "u16 set" where
  "adckey_codes = set (map map_key adckey_0_acts_keymaps)"

definition no_key_or :: "u16 set \<Rightarrow> u16 \<Rightarrow> bool" where
  "no_key_or codes k \<longleftrightarrow> k = 0 \<or> k \<in> codes"

definition board :: "adckey_drv \<Rightarrow> adckey_data" where
  "board a = the (adckey_board (adckey_devs a ! 0))"

definition adckey_one :: "adckey_drv \<Rightarrow> bool" where
  "adckey_one a \<longleftrightarrow> length (adckey_devs a) = 2 \<and> avalible (adckey_devs a ! 0) \<and> adckey_board (adckey_devs a ! 0) \<noteq> None \<and> \<not> avalible (adckey_devs a ! 1) \<and>
     scan_count (board a) < 2 \<and> (scan_count (board a) = 0 \<longrightarrow> prev_keycode (board a) = prev_stable_keycode (board a)) \<and>
     (scan_count (board a) = 1 \<and> prev_keycode (board a) = 0 \<longrightarrow> prev_stable_keycode (board a) \<noteq> 0) \<and>
     update_adckey_map 0 (key_maps (board a)) = update_adckey_map 0 adckey_0_acts_keymaps"

definition adckey_ok :: "adckey_drv \<Rightarrow> bool" where
  "adckey_ok a \<longleftrightarrow> adckey_one a \<and> no_key_or adckey_codes (prev_stable_keycode (board a))"

definition key_opt :: "u16 \<Rightarrow> u16 option" where
  "key_opt k = (if k = 0 then None else Some k)"

definition adckey_pressed :: "adckey_drv \<Rightarrow> u16 option" where
  "adckey_pressed a = key_opt (prev_stable_keycode (board a))"

definition poll_input :: "u16 \<times> u16 \<Rightarrow> adckey_drv \<Rightarrow> adckey_drv \<times> key_report list" where
  "poll_input = (\<lambda>(bat, adc) a. adckey_acts_poll_new bat (\<lambda>_. adc) a)"

text \<open>The key of a sample, which does not depend on the values the map was left with.\<close>

definition sampled :: "u16 \<times> u16 \<Rightarrow> u16" where
  "sampled = (\<lambda>(bat, adc). fst (adckey_acts_get_keycode_new bat adc adckey_0_acts_keymaps))"

lemma sampled_code: "no_key_or adckey_codes (sampled x)"
proof -
  have "first_below v m es \<in> insert 0 (map_key ` set es)" for v m es by (induction es) auto
  moreover have "map_key ` set (update_adckey_map bat es) = map_key ` set es" for bat es by (simp add: update_adckey_map_def image_image)
  ultimately have "first_below v m (update_adckey_map bat adckey_0_acts_keymaps) \<in> insert 0 (map_key ` set adckey_0_acts_keymaps)" for v m bat by metis
  then show ?thesis by (cases x) (simp only: no_key_or_def sampled_def adckey_acts_get_keycode_new_def Let_def adckey_codes_def case_prod_conv fst_conv list.set_map insert_iff)
qed

lemma keycode_maps:
  assumes "update_adckey_map 0 maps = update_adckey_map 0 adckey_0_acts_keymaps"
  shows "adckey_acts_get_keycode_new bat adc maps = (sampled (bat, adc), update_adckey_map bat maps)"
proof -
  have "update_adckey_map bat maps = update_adckey_map bat (update_adckey_map 0 maps)" by (simp add: upd_idem)
  also have "\<dots> = update_adckey_map bat adckey_0_acts_keymaps" using assms by (simp add: upd_idem)
  finally show ?thesis by (simp add: adckey_acts_get_keycode_new_def sampled_def Let_def)
qed

text \<open>One poll of the driver is one scan of the board.\<close>

lemma poll_board:
  fixes bat adc :: u16
  assumes "adckey_one a"
  defines "d \<equiv> (board a)\<lparr>key_maps := update_adckey_map bat (key_maps (board a))\<rparr>"
  defines "k \<equiv> sampled (bat, adc)"
  shows "snd (poll_input (bat, adc) a) = (if k = 0 \<and> prev_stable_keycode d = 0 then [] else snd (adckey_scan k d))"
    "board (fst (poll_input (bat, adc) a)) = (if k = 0 \<and> prev_stable_keycode d = 0 then d else fst (adckey_scan k d))"
    "length (adckey_devs (fst (poll_input (bat, adc) a))) = 2 \<and> avalible (adckey_devs (fst (poll_input (bat, adc) a)) ! 0) \<and>
     adckey_board (adckey_devs (fst (poll_input (bat, adc) a)) ! 0) \<noteq> None \<and> \<not> avalible (adckey_devs (fst (poll_input (bat, adc) a)) ! 1)"
proof -
  have l: "length (adckey_devs a) = 2" "avalible (adckey_devs a ! 0)" "\<not> avalible (adckey_devs a ! 1)" "adckey_board (adckey_devs a ! 0) = Some (board a)"
    using assms(1) by (auto simp: adckey_one_def board_def)
  have kc: "adckey_acts_get_keycode_new bat adc (key_maps (board a)) = (k, update_adckey_map bat (key_maps (board a)))"
    unfolding k_def by (rule keycode_maps) (use assms(1) in \<open>simp add: adckey_one_def\<close>)
  obtain e0 e1 where ds: "adckey_devs a = [e0, e1]" using l(1) by (auto simp: length_Suc_conv numeral_2_eq_2)
  let ?r = "if k = 0 \<and> prev_stable_keycode d = 0 then (d, []) else adckey_scan k d"
  have dev: "adckey_devs (fst (adckey_poll_dev bat adc 0 a)) = [e0\<lparr>adckey_board := Some (fst ?r)\<rparr>, e1]" "snd (adckey_poll_dev bat adc 0 a) = snd ?r"
    using l ds kc by (auto simp: adckey_poll_dev_def d_def Let_def case_prod_beta)
  have "poll_input (bat, adc) a = adckey_poll_dev bat adc 0 a"
    using l ds dev(1) by (simp add: poll_input_def adckey_acts_poll_new_def upt_rec numeral_2_eq_2 case_prod_beta)
  then show "snd (poll_input (bat, adc) a) = (if k = 0 \<and> prev_stable_keycode d = 0 then [] else snd (adckey_scan k d))"
    "board (fst (poll_input (bat, adc) a)) = (if k = 0 \<and> prev_stable_keycode d = 0 then d else fst (adckey_scan k d))"
    "length (adckey_devs (fst (poll_input (bat, adc) a))) = 2 \<and> avalible (adckey_devs (fst (poll_input (bat, adc) a)) ! 0) \<and>
     adckey_board (adckey_devs (fst (poll_input (bat, adc) a)) ! 0) \<noteq> None \<and> \<not> avalible (adckey_devs (fst (poll_input (bat, adc) a)) ! 1)"
    using dev l ds by (simp_all add: board_def)
qed

lemma scan_cases:
  "adckey_scan k d = (if k \<noteq> prev_keycode d then (d\<lparr>prev_keycode := k, scan_count := 1\<rparr>, [])
     else if scan_count d + 1 \<noteq> 2 then (d\<lparr>scan_count := scan_count d + 1\<rparr>, [])
     else (d\<lparr>prev_stable_keycode := k, scan_count := 0\<rparr>,
       (if prev_stable_keycode d \<noteq> 0 \<and> k \<noteq> prev_stable_keycode d then [(prev_stable_keycode d, 0)] else []) @ (if k \<noteq> 0 then [(k, 1)] else [])))"
  by (simp add: adckey_scan_def Let_def)

lemma poll_one:
  assumes "adckey_one a"
  shows "adckey_one (fst (poll_input (bat, adc) a))"
    "key_trace (adckey_pressed a) (snd (poll_input (bat, adc) a)) = Some (adckey_pressed (fst (poll_input (bat, adc) a)))"
proof -
  have "update_adckey_map 0 (key_maps (board a)) = update_adckey_map 0 adckey_0_acts_keymaps" using assms by (simp add: adckey_one_def)
  then show "adckey_one (fst (poll_input (bat, adc) a))"
    using assms poll_board(2,3) [OF assms, of bat adc] unfolding adckey_one_def by (auto simp: scan_cases upd_idem split: if_splits)
  show "key_trace (adckey_pressed a) (snd (poll_input (bat, adc) a)) = Some (adckey_pressed (fst (poll_input (bat, adc) a)))"
    unfolding adckey_pressed_def poll_board(1,2) [OF assms] by (auto simp: scan_cases key_opt_def)
qed

lemma poll_codes:
  assumes "adckey_ok a"
  shows "fst ` set (snd (poll_input (bat, adc) a)) \<subseteq> adckey_codes" "no_key_or adckey_codes (prev_stable_keycode (board (fst (poll_input (bat, adc) a))))"
proof -
  have a: "adckey_one a" "no_key_or adckey_codes (prev_stable_keycode (board a))" using assms by (simp_all add: adckey_ok_def)
  show "fst ` set (snd (poll_input (bat, adc) a)) \<subseteq> adckey_codes"
    using a(2) sampled_code [of "(bat, adc)"] by (auto simp: poll_board(1) [OF a(1)] scan_cases no_key_or_def)
  show "no_key_or adckey_codes (prev_stable_keycode (board (fst (poll_input (bat, adc) a))))"
    using a(2) sampled_code [of "(bat, adc)"] by (auto simp: poll_board(2) [OF a(1)] scan_cases)
qed

interpretation adckeys: key_source poll_input adckey_pressed adckey_ok adckey_codes
proof
  fix a x
  assume a: "adckey_ok a"
  then have one: "adckey_one a" by (simp add: adckey_ok_def)
  show "adckey_ok (fst (poll_input x a))" "key_trace (adckey_pressed a) (snd (poll_input x a)) = Some (adckey_pressed (fst (poll_input x a)))"
    "fst ` set (snd (poll_input x a)) \<subseteq> adckey_codes" using poll_one [OF one] poll_codes [OF a] by (cases x; simp add: adckey_ok_def)+
  show "set_option (adckey_pressed a) \<subseteq> adckey_codes" using a by (auto simp: adckey_pressed_def key_opt_def adckey_ok_def no_key_or_def)
qed

text \<open>The key matrix. The function of the ROM gives a key of the map, or no key.\<close>

definition mx_codes :: "u16 set" where
  "mx_codes = set (map snd acts_mxkeypad_maps)"

definition reads_map :: "(u32 list \<Rightarrow> u16) \<Rightarrow> bool" where
  "reads_map get \<longleftrightarrow> get (replicate 3 0) = 0 \<and> (\<forall>w. no_key_or mx_codes (get w))"

datatype mx_input = Mx_Poll | Mx_Irq "u32 list"

definition mx_scan :: "(u32 list \<Rightarrow> u16) \<Rightarrow> mx_input \<Rightarrow> mxkeypad_data \<Rightarrow> mxkeypad_data \<times> key_report list" where
  "mx_scan get i s = (case i of Mx_Poll \<Rightarrow> mxkeypad_acts_poll_new get s | Mx_Irq info \<Rightarrow> mxkeypad_acts_isr_new get info s)"

definition mx_pressed :: "mxkeypad_data \<Rightarrow> u16 option" where
  "mx_pressed s = key_opt (mx_stable_keycode s)"

definition mx_ok :: "(u32 list \<Rightarrow> u16) \<Rightarrow> mxkeypad_data \<Rightarrow> bool" where
  "mx_ok get s \<longleftrightarrow> reads_map get \<and> mx_stable_keycode s = get (last_key_down s)"

lemma mx_scan_eq: "mx_scan get i s =
  (let s = (case i of Mx_Poll \<Rightarrow> s\<lparr>mx_timer := False\<rparr> | Mx_Irq info \<Rightarrow> s\<lparr>save_scan_key := info\<rparr>) in mxkeypad_acts_scan_key_new get s)"
  by (cases i) (simp_all add: mx_scan_def mxkeypad_acts_poll_new_def mxkeypad_acts_isr_new_def)

interpretation mxkeys: key_source "mx_scan get" mx_pressed "mx_ok get" mx_codes for get
proof
  fix s i
  assume s: "mx_ok get s"
  then have c: "get w \<noteq> 0 \<Longrightarrow> get w \<in> mx_codes" for w by (auto simp: mx_ok_def reads_map_def no_key_or_def)
  have st: "mx_stable_keycode s = get (last_key_down s)" using s by (simp add: mx_ok_def)
  show "mx_ok get (fst (mx_scan get i s))" using s by (simp add: mx_scan_eq mx_ok_def mxkeypad_acts_scan_key_new_def Let_def)
  show "key_trace (mx_pressed s) (snd (mx_scan get i s)) = Some (mx_pressed (fst (mx_scan get i s)))"
    by (cases i) (simp_all add: mx_scan_eq mx_pressed_def st key_opt_def mxkeypad_acts_scan_key_new_def Let_def)
  show "fst ` set (snd (mx_scan get i s)) \<subseteq> mx_codes"
    by (cases i) (auto simp: mx_scan_eq st c mxkeypad_acts_scan_key_new_def Let_def)
  show "set_option (mx_pressed s) \<subseteq> mx_codes" by (simp add: mx_pressed_def st c key_opt_def)
qed

interpretation keys: two_key_sources poll_input adckey_pressed adckey_ok adckey_codes "mx_scan get" mx_pressed "mx_ok get" mx_codes for get
  by unfold_locales (simp add: adckey_codes_def adckey_0_acts_keymaps_def mx_codes_def acts_mxkeypad_maps_def)

definition manager_start :: input_manager_info where
  "manager_start = \<lparr>press_type = 0, press_code = 0, report_key_value = 0, input_event_locked = False\<rparr>"

definition mx_start :: mxkeypad_data where
  "mx_start = \<lparr>last_key_down = replicate 3 0, mx_stable_keycode = 0, save_scan_key = replicate 3 0, mx_timer = False\<rparr>"

lemma adckey_start_one: "adckey_ok adckey_start" "adckey_pressed adckey_start = None"
  by (simp_all add: adckey_ok_def no_key_or_def adckey_start_def add_adckey_def numeral_2_eq_2 extract_Cons_code extract_Nil_code adckey_one_def board_def adckey_pressed_def key_opt_def)

lemma mx_start_ok: "reads_map get \<Longrightarrow> mx_ok get mx_start" "mx_pressed mx_start = None"
  by (simp_all add: mx_ok_def mx_start_def mx_pressed_def key_opt_def reads_map_def)


definition map_lookup :: "u32 list \<Rightarrow> u16" where
  "map_lookup w = (case map_of acts_mxkeypad_maps w of None \<Rightarrow> 0 | Some k \<Rightarrow> k)"

lemma map_lookup_reads: "reads_map map_lookup"
proof -
  have "map_lookup (replicate 3 0) = 0" by (simp add: map_lookup_def acts_mxkeypad_maps_def numeral_3_eq_3)
  moreover have "no_key_or mx_codes (map_lookup w)" for w
    by (force simp: no_key_or_def map_lookup_def mx_codes_def split: option.split dest!: map_of_SomeD)
  ultimately show ?thesis by (simp add: reads_map_def)
qed

text \<open>The polls of a board whose state is known, one after the other.\<close>

lemma poll_state:
  assumes "adckey_one a"
  shows "adckey_one (fst (poll_input z a))"
    "snd (poll_input z a) = (if sampled z = 0 \<and> prev_stable_keycode (board a) = 0 then [] else snd (adckey_scan (sampled z) (board a)))"
    "prev_stable_keycode (board (fst (poll_input z a))) = (if sampled z = 0 \<and> prev_stable_keycode (board a) = 0 then 0 else prev_stable_keycode (fst (adckey_scan (sampled z) (board a))))"
    "prev_keycode (board (fst (poll_input z a))) = (if sampled z = 0 \<and> prev_stable_keycode (board a) = 0 then prev_keycode (board a) else prev_keycode (fst (adckey_scan (sampled z) (board a))))"
    "scan_count (board (fst (poll_input z a))) = (if sampled z = 0 \<and> prev_stable_keycode (board a) = 0 then scan_count (board a) else scan_count (fst (adckey_scan (sampled z) (board a))))"
  by (cases z; simp add: poll_board(1,2) [OF assms] poll_one(1) [OF assms] scan_cases)+

lemma start_state: "adckey_one adckey_start" "prev_stable_keycode (board adckey_start) = 0" "prev_keycode (board adckey_start) = 0" "scan_count (board adckey_start) = 0"
proof -
  show "adckey_one adckey_start" using adckey_start_one(1) by (simp add: adckey_ok_def)
  show "prev_stable_keycode (board adckey_start) = 0" "prev_keycode (board adckey_start) = 0" "scan_count (board adckey_start) = 0"
    by (simp_all add: adckey_start_def add_adckey_def numeral_2_eq_2 extract_Cons_code extract_Nil_code board_def)
qed

lemmas poll_simps = case_prod_beta poll_state start_state scan_cases adckey_pressed_def key_opt_def


text \<open>
  C29 (liveness). Two equal samples in a row decide: in every state the driver of the analog board reaches, after two polls that sample the same key, or no key, the
  driver considers that key pressed.
\<close>

theorem adckey_settles:
  assumes "sampled x = k" "sampled y = k"
  shows "adckey_pressed (fst (run_scans poll_input (samples @ [x, y]) adckey_start)) = key_opt k"
proof -
  have app: "run_scans f (xs @ ys) s = (let (s, es) = run_scans f xs s; (s, fs) = run_scans f ys s in (s, es @ fs))" for f xs ys s
    by (induction xs arbitrary: s) (simp_all add: case_prod_beta)
  define a where "a = fst (run_scans poll_input samples adckey_start)"
  have a: "adckey_one a" using adckeys.runs_trace [OF adckey_start_one(1)] by (simp add: a_def adckey_ok_def)
  define b where "b = fst (poll_input x a)"
  have b: "adckey_one b" unfolding b_def by (cases x) (simp add: poll_one(1) [OF a])
  have kb: "prev_stable_keycode (board b) = k \<and> (prev_keycode (board b) = k \<or> k = 0) \<or> (prev_keycode (board b) = k \<and> scan_count (board b) = 1)"
    unfolding b_def using a assms(1) by (cases x) (auto simp: poll_board(2) [OF a] scan_cases adckey_one_def)
  have "prev_stable_keycode (board (fst (poll_input y b))) = k"
    using b assms(2) kb by (cases y) (auto simp: poll_board(2) [OF b] scan_cases adckey_one_def)
  then show ?thesis by (simp add: app case_prod_beta adckey_pressed_def flip: a_def b_def)
qed

theorem adckey_settles_witness: "adckey_pressed (fst (run_scans poll_input [(3000, 180), (3000, 180)] adckey_start)) = Some 7"
proof -
  have "sampled (3000, 180) = 7" using decodes_key [of 3000 1 180 3000] by (simp add: sampled_def nominal_def adckey_0_acts_keymaps_def adckey_acts_get_keycode_new_def Let_def upd_idem)
  then show ?thesis using adckey_settles [of "(3000, 180)" 7 "(3000, 180)" "[]"] by (simp add: key_opt_def)
qed

text \<open>
  A sample without a key, when none is pressed, does not count: two single samples of a key with pauses between them report it. With one board, the driver declares a null
  pointer idle.
\<close>

lemma adckey_filter_not_reset:
  assumes "sampled x = k" "sampled y = 0" "k \<noteq> 0"
  shows "snd (run_scans poll_input [x, y, y, y, x] adckey_start) = [(k, 1)]"
  using assms by (simp add: poll_simps)

end
