(* ===== verification/Hog.thy ===== *)
theory Hog
  imports Prelude
begin

unbundle bit_operations_syntax

text \<open>
  The HID service (\<^verbatim>\<open>samples/bluetooth/gatt/hid/hog.c\<close>) with the configuration of the remote control (\<^verbatim>\<open>samples/voice_rcu/src/peripheral_rmc/system_app_ble.c\<close>): the
  table of client configurations, the map from reports to attributes, sending a report, and the handlers of reads and writes.
\<close>

section \<open>Client configurations\<close>

text \<open>The attributes of the service are numbered as in the table of the code.\<close>

abbreviation (input) "HID_KEYBOARD_BOOT_IN_HDL \<equiv> 9 :: u16"
abbreviation (input) "HID_KEYBOARD_BOOT_OUT_HDL \<equiv> 12 :: u16"
abbreviation (input) "HID_MOUSE_BOOT_IN_HDL \<equiv> 14 :: u16"
abbreviation (input) "HID_INPUT_REPORT_1_HDL \<equiv> 17 :: u16"
abbreviation (input) "HID_INPUT_REPORT_2_HDL \<equiv> 21 :: u16"
abbreviation (input) "HID_INPUT_REPORT_3_HDL \<equiv> 25 :: u16"
abbreviation (input) "HID_OUTPUT_REPORT_HDL \<equiv> 29 :: u16"
abbreviation (input) "HID_FEATURE_REPORT_HDL \<equiv> 32 :: u16"

type_synonym hids_ccc = "(u16 \<times> u8) list"

definition hids_ccc_table :: hids_ccc where
  "hids_ccc_table = [(10, 0), (15, 0), (18, 0), (22, 0), (26, 0)]"

fun hid_set_ccc_table_value :: "u16 \<Rightarrow> u8 \<Rightarrow> hids_ccc \<Rightarrow> hids_ccc" where
  "hid_set_ccc_table_value h v [] = []"
| "hid_set_ccc_table_value h v ((k, x) # t) = (if k = h then (k, v) # t else (k, x) # hid_set_ccc_table_value h v t)"

definition hid_get_ccc_table_value :: "u16 \<Rightarrow> hids_ccc \<Rightarrow> u8" where
  "hid_get_ccc_table_value h t = (case map_of t h of Some v \<Rightarrow> v | None \<Rightarrow> 0)"

definition hid_ccc_is_enabled :: "u16 \<Rightarrow> hids_ccc \<Rightarrow> bool" where
  "hid_ccc_is_enabled h t \<longleftrightarrow> hid_get_ccc_table_value h t = 1"

definition all_hid_ccc_is_enabled :: "hids_ccc \<Rightarrow> bool" where
  "all_hid_ccc_is_enabled t \<longleftrightarrow> list_all (\<lambda>(_, v). v = 1) (drop 2 t)"

text \<open>The host's callback: the value is cut to a byte.\<close>

definition hid_ccc_changed :: "u16 \<Rightarrow> u16 \<Rightarrow> hids_ccc \<Rightarrow> hids_ccc" where
  "hid_ccc_changed attr value t = hid_set_ccc_table_value attr (ucast value) t"

section \<open>Reports\<close>

abbreviation (input) "HID_REPORT_TYPE_INPUT \<equiv> 1 :: u8"
abbreviation (input) "HID_REPORT_TYPE_OUTPUT \<equiv> 2 :: u8"
abbreviation (input) "HID_REPORT_TYPE_FEATURE \<equiv> 3 :: u8"
abbreviation (input) "HIDAPP_REMOTE_REPORT_ID \<equiv> 1 :: u8"
abbreviation (input) "HIDAPP_VOICE_REPORT_ID \<equiv> 5 :: u8"

text \<open>The configuration: the map, and which callbacks there are. Before initialisation there is none.\<close>

record hid_config =
  report_id_map :: "(u8 \<times> u8 \<times> u16) list"
  has_input_cback :: bool
  has_output_cback :: bool
  has_info_cback :: bool

definition hid_app_report_id_set :: "(u8 \<times> u8 \<times> u16) list" where
  "hid_app_report_id_set =
     [(HID_REPORT_TYPE_INPUT, HIDAPP_REMOTE_REPORT_ID, HID_INPUT_REPORT_1_HDL), (HID_REPORT_TYPE_INPUT, HIDAPP_VOICE_REPORT_ID, HID_INPUT_REPORT_2_HDL),
      (HID_REPORT_TYPE_OUTPUT, HIDAPP_VOICE_REPORT_ID, HID_OUTPUT_REPORT_HDL), (HID_REPORT_TYPE_FEATURE, HIDAPP_VOICE_REPORT_ID, HID_FEATURE_REPORT_HDL),
      (HID_REPORT_TYPE_INPUT, 3, HID_INPUT_REPORT_3_HDL), (HID_REPORT_TYPE_INPUT, 0xFF, HID_KEYBOARD_BOOT_IN_HDL),
      (HID_REPORT_TYPE_OUTPUT, 0xFF, HID_KEYBOARD_BOOT_OUT_HDL), (HID_REPORT_TYPE_INPUT, 0xFE, HID_MOUSE_BOOT_IN_HDL)]"

definition hid_app_hid_config :: hid_config where
  "hid_app_hid_config = \<lparr>report_id_map = hid_app_report_id_set, has_input_cback = False, has_output_cback = False, has_info_cback = False\<rparr>"

definition hid_get_report_handle :: "hid_config option \<Rightarrow> u8 \<Rightarrow> u8 \<Rightarrow> u16" where
  "hid_get_report_handle cfg ty rid = (case cfg of None \<Rightarrow> 0 | Some c \<Rightarrow>
     (case List.find (\<lambda>(t, i, _). t = ty \<and> i = rid) (report_id_map c) of Some (_, _, h) \<Rightarrow> h | None \<Rightarrow> 0))"

definition hid_get_report_id_map :: "hid_config option \<Rightarrow> u16 \<Rightarrow> (u8 \<times> u8 \<times> u16) option" where
  "hid_get_report_id_map cfg h = (case cfg of None \<Rightarrow> None | Some c \<Rightarrow> List.find (\<lambda>(_, _, k). k = h) (report_id_map c))"

text \<open>The attribute of a report that is notified, or nothing when the code answers with \<open>-EIO\<close>.\<close>

definition hid_send_input_report :: "hid_config option \<Rightarrow> hids_ccc \<Rightarrow> u8 \<Rightarrow> u16 option" where
  "hid_send_input_report cfg t report_id =
     (let handle = hid_get_report_handle cfg HID_REPORT_TYPE_INPUT report_id in
      if handle \<noteq> 0 \<and> hid_ccc_is_enabled (handle + 1) t then Some handle else None)"

section \<open>Reads and writes\<close>

text \<open>
  The result of a handler is the length it accepts, or nothing for an invalid offset, and what the application's callback gets: the report and the bytes, or the byte of
  the control point or of the protocol mode. A read leaves the buffer of the answer as it is.
\<close>

datatype hid_cb = Cb_Input u8 nat | Cb_Output u8 bytes | Cb_Info u8 u8

abbreviation (input) "HID_MAX_REPORT_LEN \<equiv> 32 :: nat"

definition read_report_value :: "hid_config option \<Rightarrow> u16 \<Rightarrow> nat \<Rightarrow> u16 \<Rightarrow> (nat option \<times> hid_cb option) res" where
  "read_report_value cfg attr len offset =
     (if HID_MAX_REPORT_LEN < unat offset then Inr (None, None)
      else case cfg of None \<Rightarrow> Inl Null_Deref | Some c \<Rightarrow>
        Inr (Some len, if has_input_cback c then map_option (\<lambda>(_, i, _). Cb_Input i len) (hid_get_report_id_map cfg attr) else None))"

definition write_report_value :: "hid_config option \<Rightarrow> u16 \<Rightarrow> bytes \<Rightarrow> u16 \<Rightarrow> (nat option \<times> hid_cb option) res" where
  "write_report_value cfg attr buf offset =
     (if HID_MAX_REPORT_LEN < unat offset + length buf then Inr (None, None)
      else case cfg of None \<Rightarrow> Inl Null_Deref | Some c \<Rightarrow>
        Inr (Some (length buf), if has_output_cback c then map_option (\<lambda>(_, i, _). Cb_Output i buf) (hid_get_report_id_map cfg attr) else None))"

definition write_info :: "u8 \<Rightarrow> hid_config option \<Rightarrow> bytes \<Rightarrow> u16 \<Rightarrow> (nat option \<times> hid_cb option) res" where
  "write_info kind cfg buf offset =
     (if 1 < unat offset + length buf then Inr (None, None)
      else case cfg of None \<Rightarrow> Inl Null_Deref | Some c \<Rightarrow>
        if has_info_cback c then rbind (arr_get buf 0) (\<lambda>b. Inr (Some (length buf), Some (Cb_Info kind b))) else Inr (Some (length buf), None))"

definition hid_write_ctrl_point :: "hid_config option \<Rightarrow> bytes \<Rightarrow> u16 \<Rightarrow> (nat option \<times> hid_cb option) res" where
  "hid_write_ctrl_point = write_info 0"

definition write_protocol_mode :: "hid_config option \<Rightarrow> bytes \<Rightarrow> u16 \<Rightarrow> (nat option \<times> hid_cb option) res" where
  "write_protocol_mode = write_info 1"

section \<open>Which reports are sent\<close>

fun ccc_writes :: "(u16 \<times> u16) list \<Rightarrow> hids_ccc \<Rightarrow> hids_ccc" where
  "ccc_writes [] t = t"
| "ccc_writes ((h, v) # ws) t = ccc_writes ws (hid_ccc_changed h v t)"

lemma ccc_set_get:
  "map_of (hid_set_ccc_table_value h v t) k = (if k = h \<and> h \<in> fst ` set t then Some v else map_of t k)"
  by (induction h v t rule: hid_set_ccc_table_value.induct) (auto simp: rev_image_eqI)

lemma ccc_set_keys: "map fst (hid_set_ccc_table_value h v t) = map fst t"
  by (induction h v t rule: hid_set_ccc_table_value.induct) auto

lemma writes_last:
  assumes "map_of t k = Some x"
  shows "map_of (ccc_writes ws t) k = Some (case map_of (rev ws) k of Some v \<Rightarrow> ucast v | None \<Rightarrow> x) \<and> map fst (ccc_writes ws t) = map fst t"
  using assms
proof (induction ws t arbitrary: x rule: ccc_writes.induct)
  case (2 h v ws t)
  have k: "k \<in> fst ` set t" using 2(2) by (force dest: map_of_SomeD)
  have "map_of (hid_ccc_changed h v t) k = Some (if k = h then ucast v else x)" using 2(2) k by (auto simp: hid_ccc_changed_def ccc_set_get)
  from 2(1) [OF this] show ?case by (auto simp: hid_ccc_changed_def ccc_set_keys map_add_def split: option.splits)
qed simp

text \<open>
  C25 (functional). Reports follow the client: after any sequence of writes to the client configurations, the report of a key, of the voice or of the mouse is
  notified, on its own attribute, exactly if the last value written to its configuration, cut to a byte, enables notifications.
\<close>

theorem hid_reports_follow_client:
  assumes "(r, h) \<in> {(HIDAPP_REMOTE_REPORT_ID, HID_INPUT_REPORT_1_HDL), (HIDAPP_VOICE_REPORT_ID, HID_INPUT_REPORT_2_HDL), (3, HID_INPUT_REPORT_3_HDL)}"
  shows "hid_send_input_report (Some hid_app_hid_config) (ccc_writes ws hids_ccc_table) r =
    (case map_of (rev ws) (h + 1) of Some v \<Rightarrow> if (ucast v :: u8) = 1 then Some h else None | None \<Rightarrow> None)"
proof -
  have hd: "hid_get_report_handle (Some hid_app_hid_config) HID_REPORT_TYPE_INPUT r = h" "h \<noteq> 0" "map_of hids_ccc_table (h + 1) = Some 0"
    using assms by (auto simp: hid_get_report_handle_def hid_app_hid_config_def hid_app_report_id_set_def hids_ccc_table_def)
  show ?thesis using writes_last [OF hd(3), of ws] hd(1,2)
    by (auto simp: hid_send_input_report_def hid_ccc_is_enabled_def hid_get_ccc_table_value_def split: option.splits)
qed

theorem hid_reports_follow_client_witness:
  "hid_send_input_report (Some hid_app_hid_config) (ccc_writes [(18, 1), (22, 1), (18, 0)] hids_ccc_table) HIDAPP_REMOTE_REPORT_ID = None \<and>
   hid_send_input_report (Some hid_app_hid_config) (ccc_writes [(18, 1), (22, 1), (18, 0)] hids_ccc_table) HIDAPP_VOICE_REPORT_ID = Some 21"
  using hid_reports_follow_client [of HIDAPP_REMOTE_REPORT_ID HID_INPUT_REPORT_1_HDL "[(18, 1), (22, 1), (18, 0)]"]
    hid_reports_follow_client [of HIDAPP_VOICE_REPORT_ID HID_INPUT_REPORT_2_HDL "[(18, 1), (22, 1), (18, 0)]"] by simp

end
