(* ===== verification/Rmc.thy ===== *)
theory Rmc
  imports Key_Input Hog Key_Storage "HOL-Library.Signed_Division"
begin

unbundle bit_operations_syntax

text \<open>
  The voice remote control (\<^verbatim>\<open>samples/voice_rcu/src/peripheral_rmc\<close>) in the configuration of \<^verbatim>\<open>rmc_atb1109_ft.h\<close>: its state machine
  (\<^verbatim>\<open>system_app_sm.c\<close>), connections (\<^verbatim>\<open>system_app_ble.c\<close>), timers (\<^verbatim>\<open>system_app_timer.c\<close>), keys (\<^verbatim>\<open>system_app_input.c\<close>), lights (\<^verbatim>\<open>system_app_led.c\<close>), battery
  (\<^verbatim>\<open>system_app_batt.c\<close>), voice (\<^verbatim>\<open>system_app_audio.c\<close>) and the message loop (\<^verbatim>\<open>main.c\<close>), with the queue of \<^verbatim>\<open>framework/msg_manager.c\<close>.
\<close>

section \<open>State\<close>

text \<open>What the application does to its surroundings, in order; \<open>Rc_Drop\<close> is the error message for a message that found no buffer.\<close>

datatype rc_call =
  Rc_Adv_Stop | Rc_Adv_Start string | Rc_Direct_Adv bytes | Rc_Disconnect | Rc_Notify u16 bytes | Rc_Battery u8 | Rc_Led bool nat | Rc_Ir u16 bool | Rc_Record bool
| Rc_Clear_Ccc | Rc_Clear_Keys | Rc_Reboot | Rc_Ota u32 | Rc_Encoder_Init u16 | Rc_Free nat | Rc_No_Flash | Rc_Drop

text \<open>
  The surroundings: the results of advertising, notifying and clearing the keys, the address in the stored keys if they can be read, conversions of the battery voltage,
  and the voice encoder with its frame length and, for a frame of a buffer, its output.
\<close>

record rc_host =
  adv_result :: "rc_call list \<Rightarrow> s32"
  direct_result :: "rc_call list \<Rightarrow> s32"
  hid_result :: "rc_call list \<Rightarrow> s32"
  clear_result :: "rc_call list \<Rightarrow> s32"
  stored_addr :: "rc_call list \<Rightarrow> bytes option"
  batt_adc :: "rc_call list \<Rightarrow> u16"
  encode_init :: "u16 \<Rightarrow> u16"
  encode :: "rc_call list \<Rightarrow> nat \<Rightarrow> nat \<Rightarrow> u16 list"

datatype rc_msg = Msg_Key u32 | Msg_Ble nat | Msg_Audio nat | Msg_Timer nat | Msg_Ota u32 | Msg_Low_Power

record rmc =
  rmc_status :: nat
  pconn :: bool
  direct_addr :: bytes
  reconn_times :: u8
  enter_pairing_mode :: bool
  term_conn_flag :: bool
  security_ready_flag :: bool
  ccc_table :: hids_ccc
  hid_cfg :: "hid_config option"
  bas_enabled :: bool
  ad_name :: string
  comb_key_code :: u16
  pair_comb_timer :: bool
  hci_comb_timer :: bool
  pending_key :: u32
  prev_ir_key :: u16
  irc_open :: bool
  ir_state :: u8
  ready_flag :: bool
  batt_level :: u8
  batt_val :: u16
  codec :: u16
  sample_len :: u16
  send_start_flag :: bool
  send_stop_flag :: bool
  drop_count :: u8
  encoder_init_flag :: bool
  encode_out :: bytes
  timers :: "nat \<Rightarrow> bool"
  led_timers :: "nat \<Rightarrow> bool"
  msgs :: "rc_msg list"
  calls :: "rc_call list"

definition rc_do :: "rc_call \<Rightarrow> rmc \<Rightarrow> rmc" where
  "rc_do c s = s\<lparr>calls := calls s @ [c]\<rparr>"

section \<open>Messages, timers and lights\<close>

text \<open>
  Keys and voice buffers use one pool of eight buffers and everything else another one. A sender that may wait for a buffer is here one that finds none at the end.
\<close>

fun async_msg :: "rc_msg \<Rightarrow> bool" where
  "async_msg (Msg_Key v) = True"
| "async_msg (Msg_Audio b) = True"
| "async_msg _ = False"

definition send_msg :: "rc_msg \<Rightarrow> rmc \<Rightarrow> bool \<times> rmc" where
  "send_msg m s = (if length (filter (\<lambda>n. async_msg n = async_msg m) (msgs s)) < 8 then (True, s\<lparr>msgs := msgs s @ [m]\<rparr>) else (False, rc_do Rc_Drop s))"

definition post :: "rc_msg \<Rightarrow> rmc \<Rightarrow> rmc" where
  "post m s = snd (send_msg m s)"

abbreviation (input) "ID_ADV_TIMEOUT \<equiv> 0 :: nat"
abbreviation (input) "ID_DIRECT_ADV_TIMEOUT \<equiv> 1 :: nat"
abbreviation (input) "ID_NO_ACT_TIMEOUT \<equiv> 2 :: nat"
abbreviation (input) "ID_ADC_BATTERY_TIMEOUT \<equiv> 3 :: nat"
abbreviation (input) "ID_PAIR_COMB_KEY_TIMEOUT \<equiv> 4 :: nat"
abbreviation (input) "ID_HCI_MODE_COMB_KEY_TIMEOUT \<equiv> 5 :: nat"
abbreviation (input) "ID_RMC_SEC_TIMEOUT \<equiv> 6 :: nat"

definition rmc_timer_start :: "nat \<Rightarrow> rmc \<Rightarrow> rmc" where
  "rmc_timer_start i s = s\<lparr>timers := (timers s)(i := True)\<rparr>"

definition rmc_timer_stop :: "nat \<Rightarrow> rmc \<Rightarrow> rmc" where
  "rmc_timer_stop i s = s\<lparr>timers := (timers s)(i := False)\<rparr>"

definition check_rmc_timer :: "nat \<Rightarrow> rmc \<Rightarrow> rmc" where
  "check_rmc_timer i s = post (Msg_Timer i) (s\<lparr>timers := (timers s)(i := False)\<rparr>)"

text \<open>The lights share one pin; the three timers that switch them off are those of a low battery, of pairing and of an infrared key.\<close>

definition low_power_led_indication :: "rmc \<Rightarrow> rmc" where
  "low_power_led_indication s = rc_do (Rc_Led True 100) (s\<lparr>led_timers := (led_timers s)(0 := True)\<rparr>)"

definition paired_indication :: "rmc \<Rightarrow> rmc" where
  "paired_indication s = rc_do (Rc_Led True 1000) ((rc_do (Rc_Led False 400) s)\<lparr>led_timers := (led_timers s)(1 := True)\<rparr>)"

definition ir_btn_led_indication :: "rmc \<Rightarrow> rmc" where
  "ir_btn_led_indication s = (rc_do (Rc_Led True 200) s)\<lparr>led_timers := (led_timers s)(2 := True)\<rparr>"

definition led_timeout_event :: "nat \<Rightarrow> rmc \<Rightarrow> rmc" where
  "led_timeout_event i s = rc_do (Rc_Led False (if i = 0 then 100 else if i = 1 then 1000 else 200)) (s\<lparr>led_timers := (led_timers s)(i := False)\<rparr>)"

definition btn_led_indication :: "bool \<Rightarrow> rmc \<Rightarrow> rmc" where
  "btn_led_indication on s = rc_do (Rc_Led on 0) s"

abbreviation (input) "BLE_PAIRING \<equiv> 0 :: nat"
abbreviation (input) "BLE_PAIRED \<equiv> 1 :: nat"
abbreviation (input) "BLE_PAIRING_TIMEOUT \<equiv> 2 :: nat"

definition pair_led_indication :: "nat \<Rightarrow> rmc \<Rightarrow> rmc" where
  "pair_led_indication st s =
     (if st = BLE_PAIRING then rc_do (Rc_Led True 400) s else if st = BLE_PAIRED then paired_indication s
      else if st = BLE_PAIRING_TIMEOUT then rc_do (Rc_Led False 400) s else s)"

section \<open>Battery\<close>

definition very_low_power_handler :: "rmc \<Rightarrow> rmc" where
  "very_low_power_handler s = post Msg_Low_Power (rc_do Rc_No_Flash s)"

definition rc_update_battry_value :: "rc_host \<Rightarrow> rmc \<Rightarrow> rmc" where
  "rc_update_battry_value h s =
     (let v = of_nat (unat (batt_adc h (calls s)) * 3600 div 1024) :: u16;
          s = (if v \<le> 2000 then low_power_led_indication s else s);
          s = (if v \<le> 1800 then very_low_power_handler s else s);
          v = (if v \<le> 1800 then 1800 else if v \<ge> 3250 then 3250 else v) in
      s\<lparr>batt_val := v, batt_level := of_nat ((unat v - 1800) * 100 div (3250 - 1800))\<rparr>)"

definition bas_notify :: "rmc \<Rightarrow> rmc" where
  "bas_notify s = (if bas_enabled s then rc_do (Rc_Battery (batt_level s)) s else s)"

section \<open>Reports to the peer\<close>

definition hid_notify :: "rc_host \<Rightarrow> u8 \<Rightarrow> bytes \<Rightarrow> rmc \<Rightarrow> s32 \<times> rmc" where
  "hid_notify h rid data s =
     (if pconn s \<and> security_ready_flag s
      then case hid_send_input_report (hid_cfg s) (ccc_table s) rid of None \<Rightarrow> (- 5, s) | Some handle \<Rightarrow> (hid_result h (calls s), rc_do (Rc_Notify handle data) s)
      else (- 5, s))"

definition hid_app_remote_report_event :: "rc_host \<Rightarrow> u16 \<Rightarrow> rmc \<Rightarrow> s32 \<times> rmc" where
  "hid_app_remote_report_event h button s = hid_notify h HIDAPP_REMOTE_REPORT_ID [ucast button, ucast (drop_bit 8 button), 0] s"

definition hid_app_voice_report_event :: "rc_host \<Rightarrow> bytes \<Rightarrow> rmc \<Rightarrow> s32 \<times> rmc" where
  "hid_app_voice_report_event h buffer s = hid_notify h HIDAPP_VOICE_REPORT_ID buffer s"

section \<open>Keys\<close>

abbreviation (input) "KEY_RESERVED \<equiv> 0xFF :: u16"
abbreviation (input) "REMOTE_KEY_VOICE_COMMAND \<equiv> 0x0221 :: u16"
abbreviation (input) "REMOTE_KEY_VOICE_COMMAND_END \<equiv> 0xCCCC :: u16"
abbreviation (input) "REMOTE_COMB_KEY_OK_BACK \<equiv> 0xCB00 :: u16"
abbreviation (input) "REMOTE_COMB_KEY_HCI_MODE \<equiv> 0xCB05 :: u16"

definition acts_key_maps :: "(u16 \<times> u16 \<times> u16) list" where
  "acts_key_maps =
     [(2, REMOTE_KEY_VOICE_COMMAND, 0x4E), (3, 0xE9, 0x14), (4, 0xEA, 0x10), (5, 0x30, 0x18), (6, 0x45, 0x15), (7, 0x43, 0x16), (8, 0x41, 0x55), (9, 0x44, 0x47),
      (10, 0x42, 0x46), (11, 0x224, 0x40), (12, 0x223, 0x4F), (13, REMOTE_COMB_KEY_OK_BACK, KEY_RESERVED), (14, REMOTE_COMB_KEY_HCI_MODE, KEY_RESERVED)]"

definition key_of :: "u32 \<Rightarrow> u16" where
  "key_of v = ucast (v AND 0xFFFF)"

definition acts_get_ble_keycode :: "u16 \<Rightarrow> u16" where
  "acts_get_ble_keycode k = (case map_of acts_key_maps k of Some (b, _) \<Rightarrow> b | None \<Rightarrow> KEY_RESERVED)"

definition acts_get_ir_keycode :: "u16 \<Rightarrow> u16" where
  "acts_get_ir_keycode k = (case map_of acts_key_maps k of Some (_, i) \<Rightarrow> i | None \<Rightarrow> KEY_RESERVED)"

abbreviation (input) "RMC_STATES_IDLE \<equiv> 0 :: nat"
abbreviation (input) "RMC_STATES_ADVERTISING \<equiv> 1 :: nat"
abbreviation (input) "RMC_STATES_CONNECTED \<equiv> 2 :: nat"

definition rmc_sm_state_is_activing :: "rmc \<Rightarrow> bool" where
  "rmc_sm_state_is_activing s \<longleftrightarrow> rmc_status s \<noteq> RMC_STATES_CONNECTED"

definition send_ble_keycode :: "rc_host \<Rightarrow> u32 \<Rightarrow> rmc \<Rightarrow> rmc" where
  "send_ble_keycode h key_value s =
     (if rmc_sm_state_is_activing s \<or> \<not> security_ready_flag s then s\<lparr>pending_key := key_value\<rparr>
      else let ble_key_code = acts_get_ble_keycode (key_of key_value) in
        if ble_key_code = KEY_RESERVED then s
        else snd (hid_app_remote_report_event h (if flag_set key_value KEY_TYPE_DOWN then ble_key_code else 0) (s\<lparr>pending_key := 0\<rparr>)))"

definition send_pending_keycode :: "rc_host \<Rightarrow> rmc \<Rightarrow> rmc" where
  "send_pending_keycode h s =
     (if flag_set (pending_key s) KEY_TYPE_DOWN then send_ble_keycode h (pending_key s) s
      else let ble_key_code = acts_get_ble_keycode (key_of (pending_key s)) in
        if ble_key_code = KEY_RESERVED then s
        else snd (hid_app_remote_report_event h 0 (snd (hid_app_remote_report_event h ble_key_code s))))"

definition irc_send :: "u16 \<Rightarrow> bool \<Rightarrow> rmc \<Rightarrow> rmc" where
  "irc_send code down s = (rc_do (Rc_Ir code down) s)\<lparr>ir_state := of_bool down\<rparr>"

definition send_ir_keycode :: "u32 \<Rightarrow> rmc \<Rightarrow> rmc" where
  "send_ir_keycode key_value s =
     (if irc_open s
      then let ir_key_code = acts_get_ir_keycode (key_of key_value) in
        if ir_key_code = KEY_RESERVED then s
        else if rmc_sm_state_is_activing s \<or> \<not> security_ready_flag s
        then if flag_set key_value KEY_TYPE_DOWN
          then (irc_send ir_key_code True (if prev_ir_key s \<noteq> ir_key_code then ir_btn_led_indication s else s))\<lparr>prev_ir_key := ir_key_code\<rparr>
          else (irc_send ir_key_code False s)\<lparr>prev_ir_key := KEY_RESERVED\<rparr>
        else if ir_state s \<noteq> 0 then (irc_send ir_key_code False s)\<lparr>prev_ir_key := KEY_RESERVED\<rparr>
        else s
      else s)"

section \<open>Connections\<close>

definition BT_ADDR_LE_ANY :: bytes where
  "BT_ADDR_LE_ANY = replicate 7 0"

definition is_paired :: "rc_host \<Rightarrow> rmc \<Rightarrow> bool \<times> rmc" where
  "is_paired h s =
     (if direct_addr s \<noteq> BT_ADDR_LE_ANY then (True, s)
      else case stored_addr h (calls s) of
        None \<Rightarrow> (False, s)
      | Some a \<Rightarrow> if a \<noteq> BT_ADDR_LE_ANY \<and> \<not> is_rpa a then (True, s\<lparr>direct_addr := a\<rparr>) else (False, s))"

definition set_sd_data :: "rmc \<Rightarrow> rmc" where
  "set_sd_data s = s\<lparr>
     ad_name := (if comb_key_code s = REMOTE_COMB_KEY_OK_BACK then ''CubieBLE1'' else if comb_key_code s = 0xCB01 then ''BLE_RMC_TEST_1''
       else if comb_key_code s = 0xCB02 then ''BLE_RMC_TEST_2'' else if comb_key_code s = 0xCB03 then ''BLE_RMC_TEST_3''
       else if comb_key_code s = 0xCB04 then ''BLE_RMC_TEST_4'' else ad_name s),
     comb_key_code := REMOTE_COMB_KEY_OK_BACK\<rparr>"

definition rmc_clear_pair_info :: "rc_host \<Rightarrow> rmc \<Rightarrow> rmc" where
  "rmc_clear_pair_info h s =
     (let s = rc_do Rc_Clear_Ccc (set_sd_data s); err = clear_result h (calls s); s = rc_do Rc_Clear_Keys s in
      if err \<noteq> 0 then s else s\<lparr>direct_addr := BT_ADDR_LE_ANY\<rparr>)"

abbreviation (input) "MAX_RECONN_TIMES \<equiv> 3 :: u8"

definition rmc_sm_act_start_adv :: "rc_host \<Rightarrow> rmc \<Rightarrow> rmc" where
  "rmc_sm_act_start_adv h s =
     (if pconn s then s
      else let s = rc_do Rc_Adv_Stop s; err = adv_result h (calls s); s = rc_do (Rc_Adv_Start (ad_name s)) s in
        if err \<noteq> 0 then s
        else rmc_timer_start ID_ADV_TIMEOUT (rmc_timer_stop ID_DIRECT_ADV_TIMEOUT ((pair_led_indication BLE_PAIRING s)\<lparr>enter_pairing_mode := True\<rparr>)))"

definition rmc_sm_act_connected :: "rmc \<Rightarrow> rmc" where
  "rmc_sm_act_connected s = (if enter_pairing_mode s then pair_led_indication BLE_PAIRED (s\<lparr>enter_pairing_mode := False\<rparr>) else s)"

definition rmc_sm_act_stop_adv :: "rmc \<Rightarrow> rmc" where
  "rmc_sm_act_stop_adv s =
     (let s = rc_do Rc_Adv_Stop s in if enter_pairing_mode s then pair_led_indication BLE_PAIRING_TIMEOUT (s\<lparr>enter_pairing_mode := False\<rparr>) else s)"

definition rmc_sm_act_disconnect_conn :: "rmc \<Rightarrow> rmc" where
  "rmc_sm_act_disconnect_conn s = (if pconn s then (rc_do Rc_Disconnect s)\<lparr>term_conn_flag := True\<rparr> else s)"

section \<open>The state machine\<close>

abbreviation (input) "RMC_MSG_INPUT_KEY \<equiv> 0 :: nat"
abbreviation (input) "RMC_MSG_BLE_CONNECTED \<equiv> 1 :: nat"
abbreviation (input) "RMC_MSG_BLE_SEC_CONNECTED \<equiv> 2 :: nat"
abbreviation (input) "RMC_MSG_BLE_INPUT_ENABLED \<equiv> 3 :: nat"
abbreviation (input) "RMC_MSG_BLE_USER_DISCONNECTED \<equiv> 4 :: nat"
abbreviation (input) "RMC_MSG_BLE_NON_USER_DISCONNECTED \<equiv> 5 :: nat"
abbreviation (input) "RMC_MSG_TIMER_ADV_TIMEOUT \<equiv> 6 :: nat"
abbreviation (input) "RMC_MSG_TIMER_DIRECT_ADV_TIMEOUT \<equiv> 7 :: nat"
abbreviation (input) "RMC_MSG_TIMER_NO_ACT_TIMEOUT \<equiv> 8 :: nat"
abbreviation (input) "RMC_MSG_TIMER_SEC_TIMEOUT \<equiv> 9 :: nat"
abbreviation (input) "RMC_MSG_RECONN_FAIL \<equiv> 10 :: nat"
abbreviation (input) "RMC_MSG_POWER_UP \<equiv> 11 :: nat"
abbreviation (input) "RMC_MSG_CLEAR_PIAR_KEY \<equiv> 12 :: nat"
abbreviation (input) "RMC_MSG_LOW_POWER \<equiv> 13 :: nat"

abbreviation (input) "RMC_SM_ACT_NONE \<equiv> 0 :: nat"
abbreviation (input) "RMC_SM_ACT_ADV \<equiv> 1 :: nat"
abbreviation (input) "RMC_SM_ACT_DIRECT_ADV \<equiv> 2 :: nat"
abbreviation (input) "RMC_SM_ACT_STOP_ADV \<equiv> 3 :: nat"
abbreviation (input) "RMC_SM_ACT_DISCONNECT_CONN \<equiv> 4 :: nat"
abbreviation (input) "RMC_SM_ACT_SENDKEY \<equiv> 5 :: nat"
abbreviation (input) "RMC_SM_ACT_CONNECTED \<equiv> 6 :: nat"

text \<open>The action of the second entry is the number of the event, not that of an action.\<close>

definition rmc_State_table :: "(nat \<times> nat) list list" where
  "rmc_State_table =
     [[(RMC_STATES_ADVERTISING, RMC_SM_ACT_DIRECT_ADV), (RMC_STATES_CONNECTED, RMC_MSG_BLE_CONNECTED), (RMC_STATES_CONNECTED, RMC_SM_ACT_SENDKEY),
       (RMC_STATES_CONNECTED, RMC_SM_ACT_NONE), (RMC_STATES_IDLE, RMC_SM_ACT_NONE), (RMC_STATES_IDLE, RMC_SM_ACT_DIRECT_ADV), (RMC_STATES_IDLE, RMC_SM_ACT_STOP_ADV),
       (RMC_STATES_ADVERTISING, RMC_SM_ACT_DIRECT_ADV), (RMC_STATES_IDLE, RMC_SM_ACT_NONE), (RMC_STATES_IDLE, RMC_SM_ACT_NONE), (RMC_STATES_IDLE, RMC_SM_ACT_NONE),
       (RMC_STATES_ADVERTISING, RMC_SM_ACT_DIRECT_ADV), (RMC_STATES_ADVERTISING, RMC_SM_ACT_ADV), (RMC_STATES_IDLE, RMC_SM_ACT_NONE)],
      [(RMC_STATES_ADVERTISING, RMC_SM_ACT_NONE), (RMC_STATES_CONNECTED, RMC_SM_ACT_CONNECTED), (RMC_STATES_CONNECTED, RMC_SM_ACT_SENDKEY),
       (RMC_STATES_CONNECTED, RMC_SM_ACT_NONE), (RMC_STATES_IDLE, RMC_SM_ACT_NONE), (RMC_STATES_IDLE, RMC_SM_ACT_NONE), (RMC_STATES_IDLE, RMC_SM_ACT_STOP_ADV),
       (RMC_STATES_ADVERTISING, RMC_SM_ACT_DIRECT_ADV), (RMC_STATES_IDLE, RMC_SM_ACT_STOP_ADV), (RMC_STATES_IDLE, RMC_SM_ACT_NONE), (RMC_STATES_IDLE, RMC_SM_ACT_NONE),
       (RMC_STATES_ADVERTISING, RMC_SM_ACT_DIRECT_ADV), (RMC_STATES_ADVERTISING, RMC_SM_ACT_ADV), (RMC_STATES_IDLE, RMC_SM_ACT_STOP_ADV)],
      [(RMC_STATES_CONNECTED, RMC_SM_ACT_NONE), (RMC_STATES_CONNECTED, RMC_SM_ACT_NONE), (RMC_STATES_CONNECTED, RMC_SM_ACT_SENDKEY),
       (RMC_STATES_CONNECTED, RMC_SM_ACT_NONE), (RMC_STATES_IDLE, RMC_SM_ACT_NONE), (RMC_STATES_ADVERTISING, RMC_SM_ACT_DIRECT_ADV), (RMC_STATES_CONNECTED, RMC_SM_ACT_STOP_ADV),
       (RMC_STATES_CONNECTED, RMC_SM_ACT_NONE), (RMC_STATES_IDLE, RMC_SM_ACT_DISCONNECT_CONN), (RMC_STATES_IDLE, RMC_SM_ACT_DISCONNECT_CONN), (RMC_STATES_IDLE, RMC_SM_ACT_NONE),
       (RMC_STATES_ADVERTISING, RMC_SM_ACT_DIRECT_ADV), (RMC_STATES_CONNECTED, RMC_SM_ACT_NONE), (RMC_STATES_IDLE, RMC_SM_ACT_DISCONNECT_CONN)]]"

datatype rmc_act = Act_None | Act_Start_Adv | Act_Start_Direct_Adv | Act_Stop_Adv | Act_Disconnect_Conn | Act_Send_Key | Act_Connected

definition rmc_act_set :: "rmc_act list" where
  "rmc_act_set = [Act_None, Act_Start_Adv, Act_Start_Direct_Adv, Act_Stop_Adv, Act_Disconnect_Conn, Act_Send_Key, Act_Connected]"

definition table_entry :: "nat \<Rightarrow> nat \<Rightarrow> (nat \<times> rmc_act) res" where
  "table_entry st evt = rbind (arr_get rmc_State_table st) (\<lambda>row. rbind (arr_get row evt) (\<lambda>(next, action). rbind (arr_get rmc_act_set action) (\<lambda>act. Inr (next, act))))"

lemma table_direct: "table_entry st evt = Inr (n, Act_Start_Direct_Adv) \<Longrightarrow> evt \<in> {0, 5, 7, 11}"
proof -
  assume t: "table_entry st evt = Inr (n, Act_Start_Direct_Adv)"
  then have "st = 0 \<or> st = 1 \<or> st = 2" "evt < 14"
    by (auto simp: table_entry_def rbind_eq_Inr arr_get_eq_Inr rmc_State_table_def nth_Cons' split: if_splits)
  moreover have "evt = 0 \<or> evt = 1 \<or> evt = 2 \<or> evt = 3 \<or> evt = 4 \<or> evt = 5 \<or> evt = 6 \<or> evt = 7 \<or> evt = 8 \<or> evt = 9 \<or> evt = 10 \<or> evt = 11 \<or> evt = 12 \<or> evt = 13"
    using \<open>evt < 14\<close> by presburger
  ultimately show ?thesis using t by (elim disjE) (simp_all add: table_entry_def rmc_State_table_def rmc_act_set_def arr_get_def)
qed

text \<open>
  The machine, with the action \<open>rmc_sm_act_start_direct_adv\<close>, which may run the machine again; it does so only for events whose actions do not.
\<close>

function rmc_sm_execute :: "rc_host \<Rightarrow> nat \<Rightarrow> rmc \<Rightarrow> rmc res" where
  "rmc_sm_execute h evt s = (case table_entry (rmc_status s) evt of
     Inl e \<Rightarrow> Inl e
   | Inr (next, act) \<Rightarrow> let s = s\<lparr>rmc_status := next\<rparr> in (case act of
       Act_None \<Rightarrow> Inr s
     | Act_Start_Adv \<Rightarrow> Inr (rmc_sm_act_start_adv h s)
     | Act_Start_Direct_Adv \<Rightarrow> (case is_paired h s of (paired, s) \<Rightarrow>
         if paired \<and> reconn_times s < MAX_RECONN_TIMES
         then let s = rc_do Rc_Adv_Stop s; err = direct_result h (calls s); s = rc_do (Rc_Direct_Adv (direct_addr s)) s in
           if err \<noteq> 0 then Inr s else Inr (rmc_timer_start ID_DIRECT_ADV_TIMEOUT (s\<lparr>reconn_times := reconn_times s + 1\<rparr>))
         else rmc_sm_execute h (if pair_comb_timer s then RMC_MSG_CLEAR_PIAR_KEY else RMC_MSG_RECONN_FAIL) (s\<lparr>reconn_times := 0\<rparr>))
     | Act_Stop_Adv \<Rightarrow> Inr (rmc_sm_act_stop_adv s)
     | Act_Disconnect_Conn \<Rightarrow> Inr (rmc_sm_act_disconnect_conn s)
     | Act_Send_Key \<Rightarrow> Inr (send_pending_keycode h s)
     | Act_Connected \<Rightarrow> Inr (rmc_sm_act_connected s)))"
  by pat_completeness auto
termination
  by (relation "measure (\<lambda>(h, evt, s). of_bool (evt \<noteq> RMC_MSG_CLEAR_PIAR_KEY \<and> evt \<noteq> RMC_MSG_RECONN_FAIL))") (auto dest: table_direct)

declare rmc_sm_execute.simps [simp del]

definition rmc_sm_init :: "rmc \<Rightarrow> rmc" where
  "rmc_sm_init s = s\<lparr>rmc_status := RMC_STATES_IDLE\<rparr>"

section \<open>Voice\<close>

text \<open>The buffers have 640 bytes; releasing one is a recorded call. The output buffer has 80 bytes.\<close>

abbreviation (input) "PCM_BUF_LEN \<equiv> 640 :: nat"

definition c_div :: "int \<Rightarrow> int \<Rightarrow> int res" where
  "c_div a b = (if b = 0 then Inl Div_Zero else Inr (a sdiv b))"

definition u16_bytes :: "u16 list \<Rightarrow> bytes" where
  "u16_bytes ws = concat (map (\<lambda>w. [ucast w, ucast (drop_bit 8 w)]) ws)"

text \<open>Encode the frames \<open>i, i + 1, \<dots>\<close> of a buffer to the position \<open>off\<close>; the result has the length of the last output.\<close>

fun encode_frames :: "rc_host \<Rightarrow> rc_call list \<Rightarrow> nat \<Rightarrow> nat \<Rightarrow> nat \<Rightarrow> nat \<Rightarrow> nat \<Rightarrow> bytes \<Rightarrow> (nat \<times> bytes) res" where
  "encode_frames h cs b 0 i off n out = Inr (n, out)"
| "encode_frames h cs b (Suc t) i off n out =
     (let ws = encode h cs b i in
      rbind (mem_cpy out off (u16_bytes ws) (2 * length ws)) (\<lambda>out. encode_frames h cs b t (i + 1) (off + 2 * length ws) (length ws) out))"

definition audio_encode :: "rc_host \<Rightarrow> nat \<Rightarrow> rmc \<Rightarrow> (nat \<times> rmc) res" where
  "audio_encode h b s =
     rbind (c_div (int PCM_BUF_LEN) (sint (sample_len s) * 2)) (\<lambda>q.
     let times = unat (word_of_int q :: u8) in
     rbind (encode_frames h (calls s) b times 0 0 0 (encode_out s)) (\<lambda>(n, out). Inr (unat (of_nat (n * times * 2) :: u16), s\<lparr>encode_out := out\<rparr>)))"

definition audio_send_start_flag :: "rc_host \<Rightarrow> rmc \<Rightarrow> rmc" where
  "audio_send_start_flag h s =
     (let s = (if encoder_init_flag s then (rc_do (Rc_Encoder_Init (codec s)) s)\<lparr>sample_len := encode_init h (codec s), encoder_init_flag := False\<rparr> else s) in
      if send_start_flag s
      then let (r, s) = hid_app_remote_report_event h REMOTE_KEY_VOICE_COMMAND s in
        if r = 0 then let (r, s) = hid_app_remote_report_event h 0 s in if r = 0 then s\<lparr>send_start_flag := False\<rparr> else s else s
      else s)"

definition audio_send_stop_flag :: "rc_host \<Rightarrow> rmc \<Rightarrow> rmc" where
  "audio_send_stop_flag h s =
     (if send_stop_flag s
      then let (r, s) = hid_app_remote_report_event h REMOTE_KEY_VOICE_COMMAND_END s in
        if r = 0 then let (r, s) = hid_app_remote_report_event h 0 s in if r = 0 then s\<lparr>send_stop_flag := False\<rparr> else s else s
      else s)"

fun send_voice :: "rc_host \<Rightarrow> nat list \<Rightarrow> rmc \<Rightarrow> rmc res" where
  "send_voice h [] s = Inr s"
| "send_voice h (i # is) s =
     (if i + 20 \<le> length (encode_out s) then send_voice h is (snd (hid_app_voice_report_event h (take 20 (drop i (encode_out s))) s)) else Inl Out_Of_Bounds)"

definition frame_starts :: "nat \<Rightarrow> nat list" where
  "frame_starts n = map (\<lambda>k. 20 * k) [0..<(n + 19) div 20]"

definition system_audio_event_handle :: "rc_host \<Rightarrow> nat \<Rightarrow> rmc \<Rightarrow> rmc res" where
  "system_audio_event_handle h b s =
     (if rmc_sm_state_is_activing s then Inr (rc_do (Rc_Free b) s)
      else let s = audio_send_start_flag h s in
        if drop_count s \<noteq> 0 then Inr (rc_do (Rc_Free b) (s\<lparr>drop_count := drop_count s - 1\<rparr>))
        else rbind (audio_encode h b s) (\<lambda>(n, s).
          rbind (send_voice h (frame_starts n) (rc_do (Rc_Free b) s)) (\<lambda>s. Inr (audio_send_stop_flag h s))))"

definition start_audio_capture :: "rmc \<Rightarrow> rmc" where
  "start_audio_capture s =
     (if \<not> ready_flag s then s
      else rc_do (Rc_Record True) (s\<lparr>encoder_init_flag := True, send_start_flag := True, send_stop_flag := False, drop_count := 4\<rparr>))"

definition stop_audio_capture :: "rmc \<Rightarrow> rmc" where
  "stop_audio_capture s = (if \<not> ready_flag s then s else rc_do (Rc_Record False) (s\<lparr>send_stop_flag := True, send_start_flag := False\<rparr>))"

section \<open>Events\<close>

text \<open>The callback of the input manager, in the interrupt.\<close>

definition system_key_event_cb :: "u32 \<Rightarrow> rmc \<Rightarrow> rmc" where
  "system_key_event_cb key_value s =
     (let voice = acts_get_ble_keycode (key_of key_value) = REMOTE_KEY_VOICE_COMMAND;
          s = (if flag_set key_value KEY_TYPE_DOWN then let s = btn_led_indication True s in if voice then start_audio_capture s else s
               else if flag_set key_value KEY_TYPE_UP then let s = btn_led_indication False s in if voice then stop_audio_capture s else s
               else s) in
      send_ir_keycode key_value s)"

definition is_need_deliver_to_app :: "rc_host \<Rightarrow> u32 \<Rightarrow> rmc \<Rightarrow> bool \<times> rmc" where
  "is_need_deliver_to_app h event s =
     (let app_key_code = acts_get_ble_keycode (key_of event) in
      if app_key_code = REMOTE_KEY_VOICE_COMMAND
      then (False, if rmc_sm_state_is_activing s \<or> \<not> security_ready_flag s then s
                   else if flag_set event KEY_TYPE_DOWN then audio_send_start_flag h s else audio_send_stop_flag h s)
      else if app_key_code \<in> {REMOTE_COMB_KEY_OK_BACK, 0xCB01, 0xCB02, 0xCB03, 0xCB04}
      then (False, if flag_set event KEY_TYPE_DOWN then (rmc_timer_start ID_PAIR_COMB_KEY_TIMEOUT s)\<lparr>comb_key_code := app_key_code, pair_comb_timer := True\<rparr>
                   else (rmc_timer_stop ID_PAIR_COMB_KEY_TIMEOUT s)\<lparr>pair_comb_timer := False\<rparr>)
      else if app_key_code = REMOTE_COMB_KEY_HCI_MODE
      then (False, if flag_set event KEY_TYPE_DOWN then (rmc_timer_start ID_HCI_MODE_COMB_KEY_TIMEOUT s)\<lparr>hci_comb_timer := True\<rparr>
                   else (rmc_timer_stop ID_HCI_MODE_COMB_KEY_TIMEOUT s)\<lparr>hci_comb_timer := False\<rparr>)
      else let s = (if pair_comb_timer s then (rmc_timer_stop ID_PAIR_COMB_KEY_TIMEOUT s)\<lparr>pair_comb_timer := False\<rparr> else s);
               s = (if hci_comb_timer s then (rmc_timer_stop ID_HCI_MODE_COMB_KEY_TIMEOUT s)\<lparr>hci_comb_timer := False\<rparr> else s) in (True, s))"

definition system_input_event_handle :: "rc_host \<Rightarrow> u32 \<Rightarrow> rmc \<Rightarrow> rmc res" where
  "system_input_event_handle h key_event s =
     rbind (rmc_sm_execute h RMC_MSG_INPUT_KEY s) (\<lambda>s. let (deliver, s) = is_need_deliver_to_app h key_event s in Inr (if deliver then send_ble_keycode h key_event s else s))"

definition system_ble_event_handle :: "rc_host \<Rightarrow> nat \<Rightarrow> rmc \<Rightarrow> rmc res" where
  "system_ble_event_handle h ble_event s = rmc_sm_execute h ble_event (s\<lparr>reconn_times := 0\<rparr>)"

text \<open>Entering the test mode restarts the chip, which ends the run.\<close>

definition system_app_timer_event_handle :: "rc_host \<Rightarrow> nat \<Rightarrow> rmc \<Rightarrow> rmc res" where
  "system_app_timer_event_handle h i s =
     (if i = ID_ADV_TIMEOUT then rmc_sm_execute h RMC_MSG_TIMER_ADV_TIMEOUT s
      else if i = ID_DIRECT_ADV_TIMEOUT then rmc_sm_execute h RMC_MSG_TIMER_DIRECT_ADV_TIMEOUT s
      else if i = ID_NO_ACT_TIMEOUT then rmc_sm_execute h RMC_MSG_TIMER_NO_ACT_TIMEOUT s
      else if i = ID_ADC_BATTERY_TIMEOUT
      then Inr (if rmc_sm_state_is_activing s then s else rmc_timer_start ID_ADC_BATTERY_TIMEOUT (bas_notify (rc_update_battry_value h s)))
      else if i = ID_PAIR_COMB_KEY_TIMEOUT then rmc_sm_execute h RMC_MSG_CLEAR_PIAR_KEY (rmc_clear_pair_info h s)
      else if i = ID_HCI_MODE_COMB_KEY_TIMEOUT then Inr (rc_do Rc_Reboot s)
      else if i = ID_RMC_SEC_TIMEOUT then rmc_sm_execute h RMC_MSG_TIMER_SEC_TIMEOUT s
      else Inr s)"

definition rc_connected :: "rc_host \<Rightarrow> u8 \<Rightarrow> rmc \<Rightarrow> rmc" where
  "rc_connected h err s =
     (if err \<noteq> 0 then s
      else let s = post (Msg_Ble RMC_MSG_BLE_CONNECTED) (s\<lparr>pconn := True\<rparr>) in
        rmc_timer_start ID_RMC_SEC_TIMEOUT (rmc_timer_start ID_ADC_BATTERY_TIMEOUT (rc_update_battry_value h (rmc_sm_act_connected s))))"

definition rc_disconnected :: "u8 \<Rightarrow> rmc \<Rightarrow> rmc" where
  "rc_disconnected reason s =
     (let user = term_conn_flag s \<or> reason = 0x13;
          value = (if user \<and> \<not> pair_comb_timer s then RMC_MSG_BLE_USER_DISCONNECTED else RMC_MSG_BLE_NON_USER_DISCONNECTED) in
      (rmc_timer_stop ID_ADC_BATTERY_TIMEOUT (post (Msg_Ble value) (s\<lparr>pconn := False, term_conn_flag := False\<rparr>)))\<lparr>security_ready_flag := False\<rparr>)"

definition rc_security_changed :: "rc_host \<Rightarrow> rmc \<Rightarrow> rmc res" where
  "rc_security_changed h s =
     (let (paired, s) = is_paired h s in
      if paired \<and> \<not> all_hid_ccc_is_enabled (ccc_table s) then rmc_sm_execute h RMC_MSG_CLEAR_PIAR_KEY (rmc_clear_pair_info h s)
      else Inr (post (Msg_Ble RMC_MSG_BLE_SEC_CONNECTED) ((rmc_timer_stop ID_RMC_SEC_TIMEOUT s)\<lparr>security_ready_flag := True\<rparr>)))"

definition hid_app_remote_report_channel_enable :: "rmc \<Rightarrow> rmc" where
  "hid_app_remote_report_channel_enable s = (if pconn s then post (Msg_Ble RMC_MSG_BLE_INPUT_ENABLED) s else s)"

definition hid_app_ready_update :: "rmc \<Rightarrow> bool" where
  "hid_app_ready_update s \<longleftrightarrow> all_hid_ccc_is_enabled (ccc_table s) \<and> security_ready_flag s"

definition rc_bt_ready :: "rc_host \<Rightarrow> int \<Rightarrow> rmc \<Rightarrow> rmc res" where
  "rc_bt_ready h err s =
     (if err \<noteq> 0 then Inr s
      else rbind (rmc_sm_execute h RMC_MSG_POWER_UP
             (s\<lparr>pconn := False, direct_addr := BT_ADDR_LE_ANY, reconn_times := 0, enter_pairing_mode := False, term_conn_flag := False, security_ready_flag := False,
               hid_cfg := Some hid_app_hid_config\<rparr>))
        (\<lambda>s. Inr (s\<lparr>ready_flag := True\<rparr>)))"

text \<open>One message of the loop.\<close>

definition rc_main :: "rc_host \<Rightarrow> rmc \<Rightarrow> rmc res" where
  "rc_main h s = (case msgs s of
     [] \<Rightarrow> Inr s
   | m # ms \<Rightarrow> let s = s\<lparr>msgs := ms\<rparr> in (case m of
       Msg_Key v \<Rightarrow> let s = rmc_timer_start ID_NO_ACT_TIMEOUT s in if ready_flag s then system_input_event_handle h v s else Inr s
     | Msg_Ble e \<Rightarrow> system_ble_event_handle h e s
     | Msg_Audio b \<Rightarrow> system_audio_event_handle h b (rmc_timer_start ID_NO_ACT_TIMEOUT s)
     | Msg_Timer i \<Rightarrow> system_app_timer_event_handle h i s
     | Msg_Ota v \<Rightarrow> Inr (rc_do (Rc_Ota v) (rmc_timer_start ID_NO_ACT_TIMEOUT s))
     | Msg_Low_Power \<Rightarrow> rmc_sm_execute h RMC_MSG_LOW_POWER s))"

text \<open>The application after its initialisation, before the stack is ready.\<close>

definition rc_system_app_init :: "rc_host \<Rightarrow> rmc \<Rightarrow> rmc" where
  "rc_system_app_init h s =
     rmc_timer_start ID_NO_ACT_TIMEOUT (rc_update_battry_value h (rmc_sm_init
       (s\<lparr>codec := 10, sample_len := 0, send_start_flag := False, send_stop_flag := False, drop_count := 0, encoder_init_flag := False\<rparr>)))"

end
