(* ===== verification/Rmc_Main.thy ===== *)
theory Rmc_Main
  imports Rmc
begin

unbundle bit_operations_syntax

text \<open>
  What the remote control guarantees: its state follows the connection, every event is handled without undefined behaviour, and how it reconnects and delivers keys.
\<close>

section \<open>Events\<close>

datatype rc_event = Rc_Ready int | Rc_Connected u8 | Rc_Disconnected u8 | Rc_Security | Rc_Ccc u16 u16 | Rc_Bas bool | Rc_Input_Enabled | Rc_Timeout nat | Rc_Led_Timeout nat
| Rc_Key u32 | Rc_Audio nat | Rc_Ota_Event u32 | Rc_Main

text \<open>The stack is ready once, has one connection at a time, and voice buffers come while recording is on.\<close>

definition rc_enabled :: "rc_event \<Rightarrow> rmc \<Rightarrow> bool" where
  "rc_enabled e s \<longleftrightarrow> (case e of
     Rc_Ready err \<Rightarrow> err = 0 \<and> \<not> ready_flag s | Rc_Connected _ \<Rightarrow> ready_flag s \<and> \<not> pconn s | Rc_Disconnected _ \<Rightarrow> pconn s | Rc_Security \<Rightarrow> pconn s
   | Rc_Timeout i \<Rightarrow> timers s i | Rc_Led_Timeout i \<Rightarrow> led_timers s i | Rc_Audio _ \<Rightarrow> Rc_Record True \<in> set (calls s) | _ \<Rightarrow> True)"

definition rc_step :: "rc_host \<Rightarrow> rc_event \<Rightarrow> rmc \<Rightarrow> rmc res" where
  "rc_step h e s = (case e of
     Rc_Ready err \<Rightarrow> rc_bt_ready h err s
   | Rc_Connected err \<Rightarrow> Inr (rc_connected h err s)
   | Rc_Disconnected reason \<Rightarrow> Inr (rc_disconnected reason s)
   | Rc_Security \<Rightarrow> rc_security_changed h s
   | Rc_Ccc attr v \<Rightarrow> Inr (s\<lparr>ccc_table := hid_ccc_changed attr v (ccc_table s)\<rparr>)
   | Rc_Bas b \<Rightarrow> Inr (s\<lparr>bas_enabled := b\<rparr>)
   | Rc_Input_Enabled \<Rightarrow> Inr (hid_app_remote_report_channel_enable s)
   | Rc_Timeout i \<Rightarrow> Inr (check_rmc_timer i s)
   | Rc_Led_Timeout i \<Rightarrow> Inr (led_timeout_event i s)
   | Rc_Key v \<Rightarrow> Inr (post (Msg_Key v) (system_key_event_cb v s))
   | Rc_Audio b \<Rightarrow> Inr (post (Msg_Audio b) s)
   | Rc_Ota_Event v \<Rightarrow> Inr (post (Msg_Ota v) s)
   | Rc_Main \<Rightarrow> rc_main h s)"

definition rc_trans :: "rc_host \<Rightarrow> rmc \<Rightarrow> rc_event \<Rightarrow> rmc \<Rightarrow> bool" where
  "rc_trans h s e t \<longleftrightarrow> rc_enabled e s \<and> rc_step h e s = Inr t"

section \<open>What changes the state of the connection\<close>

fun ble_of :: "rc_msg list \<Rightarrow> nat list" where
  "ble_of [] = []"
| "ble_of (Msg_Ble e # ms) = e # ble_of ms"
| "ble_of (m # ms) = ble_of ms"

lemma ble_append [simp]: "ble_of (ms @ ns) = ble_of ms @ ble_of ns"
  by (induction ms rule: ble_of.induct) auto

definition dropped :: "rmc \<Rightarrow> bool" where
  "dropped s \<longleftrightarrow> Rc_Drop \<in> set (calls s)"

definition core :: "rmc \<Rightarrow> bool \<times> bool \<times> nat \<times> bool \<times> rc_msg list" where
  "core s = (pconn s, term_conn_flag s, rmc_status s, ready_flag s, msgs s)"

text \<open>\<open>still s t\<close>: nothing of this has changed, and nothing was dropped.\<close>

definition still :: "rmc \<Rightarrow> rmc \<Rightarrow> bool" where
  "still s t \<longleftrightarrow> core t = core s \<and> dropped t = dropped s"

lemma still_refl [simp]: "still s s"
  by (simp add: still_def)

lemma still_trans: "still s t \<Longrightarrow> still t u \<Longrightarrow> still s u"
  by (simp add: still_def)

lemma still_do: "c \<noteq> Rc_Drop \<Longrightarrow> still s (rc_do c s)"
  by (simp add: still_def core_def dropped_def rc_do_def)

lemmas still_simps = still_def core_def dropped_def rc_do_def

lemma still_timer [simp]: "still s (rmc_timer_start i s)" "still s (rmc_timer_stop i s)"
  by (simp_all add: still_simps rmc_timer_start_def rmc_timer_stop_def)

lemma still_led [simp]: "still s (pair_led_indication st s)" "still s (low_power_led_indication s)" "still s (ir_btn_led_indication s)" "still s (btn_led_indication on s)"
  "still s (led_timeout_event i s)"
  by (simp_all add: still_simps pair_led_indication_def low_power_led_indication_def ir_btn_led_indication_def btn_led_indication_def led_timeout_event_def paired_indication_def)

lemma still_notify: "still s (snd (hid_notify h r d s))"
  by (simp add: still_simps hid_notify_def split: option.splits)

lemma still_report [simp]: "still s (snd (hid_app_remote_report_event h b s))" "still s (snd (hid_app_voice_report_event h x s))"
  by (simp_all add: hid_app_remote_report_event_def hid_app_voice_report_event_def still_notify)

lemma still_next: "still s t \<Longrightarrow> still s (snd (hid_app_remote_report_event h b t))" "still s t \<Longrightarrow> still s (snd (hid_app_voice_report_event h x t))"
  "still s t \<Longrightarrow> still s (rmc_timer_start i t)" "still s t \<Longrightarrow> still s (rmc_timer_stop i t)"
  by (rule still_trans, assumption, simp)+

lemma still_upd: "still s t \<Longrightarrow> still s (t\<lparr>pending_key := k\<rparr>)" "still s t \<Longrightarrow> still s (t\<lparr>send_start_flag := b\<rparr>)" "still s t \<Longrightarrow> still s (t\<lparr>send_stop_flag := b\<rparr>)"
  "still s t \<Longrightarrow> still s (t\<lparr>direct_addr := a\<rparr>)" "still s t \<Longrightarrow> still s (t\<lparr>pair_comb_timer := b\<rparr>)" "still s t \<Longrightarrow> still s (t\<lparr>hci_comb_timer := b\<rparr>)"
  "still s t \<Longrightarrow> still s (t\<lparr>comb_key_code := c, pair_comb_timer := b\<rparr>)"
  by (simp_all add: still_simps)

lemma still_ble [simp]: "still s (send_ble_keycode h v s)" "still s (send_pending_keycode h s)"
proof -
  have b: "still s (send_ble_keycode h v s)" for v s
    using still_report(1) [of "s\<lparr>pending_key := 0\<rparr>"] by (simp add: send_ble_keycode_def Let_def still_def core_def dropped_def)
  show "still s (send_ble_keycode h v s)" by (rule b)
  show "still s (send_pending_keycode h s)" unfolding send_pending_keycode_def Let_def
    using b by (auto intro: still_trans [OF still_report(1) still_report(1)])
qed

lemma still_ir [simp]: "still s (send_ir_keycode v s)"
  by (simp add: still_simps send_ir_keycode_def irc_send_def ir_btn_led_indication_def Let_def)

lemma still_audio [simp]: "still s (audio_send_start_flag h s)" "still s (audio_send_stop_flag h s)" "still s (start_audio_capture s)" "still s (stop_audio_capture s)"
proof -
  have r: "hid_app_remote_report_event h b s = (r, t) \<Longrightarrow> still s t" for b s r t using still_report(1) [of s h b] by simp
  have i: "still s ((rc_do (Rc_Encoder_Init (codec s)) s)\<lparr>sample_len := l, encoder_init_flag := False\<rparr>)" for l by (simp add: still_simps)
  have start: "still s (if send_start_flag t
      then let (r, u) = hid_app_remote_report_event h REMOTE_KEY_VOICE_COMMAND t in
        if r = 0 then let (r, v) = hid_app_remote_report_event h 0 u in if r = 0 then v\<lparr>send_start_flag := False\<rparr> else v else u
      else t)" if "still s t" for t
    using that by (auto simp: split_beta Let_def intro!: still_upd still_next)
  show "still s (audio_send_start_flag h s)" unfolding audio_send_start_flag_def Let_def by (rule start [unfolded Let_def]) (simp add: i)
  show "still s (audio_send_stop_flag h s)" unfolding audio_send_stop_flag_def
    by (auto simp: split_beta Let_def intro!: still_upd still_next)
  show "still s (start_audio_capture s)" "still s (stop_audio_capture s)" by (simp_all add: still_simps start_audio_capture_def stop_audio_capture_def)
qed

lemma still_paired: "is_paired h s = (b, t) \<Longrightarrow> still s t"
  by (auto simp: is_paired_def still_simps split: if_splits option.splits)

lemma still_clear [simp]: "still s (rmc_clear_pair_info h s)"
  by (simp add: still_simps rmc_clear_pair_info_def set_sd_data_def Let_def)

lemma still_act [simp]: "still s (rmc_sm_act_start_adv h s)" "still s (rmc_sm_act_connected s)" "still s (rmc_sm_act_stop_adv s)"
  by (simp_all add: still_simps rmc_sm_act_start_adv_def rmc_sm_act_connected_def rmc_sm_act_stop_adv_def pair_led_indication_def paired_indication_def rmc_timer_start_def
      rmc_timer_stop_def Let_def)

lemma still_bas [simp]: "still s (bas_notify s)"
  by (simp add: still_simps bas_notify_def)

lemma still_deliver: "is_need_deliver_to_app h v s = (b, t) \<Longrightarrow> still s t"
  unfolding is_need_deliver_to_app_def Let_def by (auto split: if_splits intro!: still_upd still_next)

section \<open>The machine\<close>

lemma table_defined: "st < 3 \<Longrightarrow> e < 14 \<Longrightarrow> \<exists>n a. table_entry st e = Inr (n, a) \<and> n < 3"
proof -
  have "list_all (\<lambda>st. list_all (\<lambda>e. case table_entry st e of Inr (n, a) \<Rightarrow> n < 3 | _ \<Rightarrow> False) [0..<14]) [0..<3]" by code_simp
  then have "\<forall>st<3. \<forall>e<14. case table_entry st e of Inr (n, a) \<Rightarrow> n < 3 | _ \<Rightarrow> False" by (simp only: list_all_iff) auto
  then show "st < 3 \<Longrightarrow> e < 14 \<Longrightarrow> ?thesis" by (fastforce split: sum.splits)
qed

text \<open>What an event does to the state of the machine.\<close>

definition table_ok :: "nat \<Rightarrow> nat \<Rightarrow> nat \<Rightarrow> rmc_act \<Rightarrow> bool" where
  "table_ok st e n a \<longleftrightarrow> (e \<in> {1, 2, 3} \<longrightarrow> n = 2 \<and> a \<noteq> Act_Start_Direct_Adv) \<and> (e \<in> {4, 5} \<longrightarrow> n \<noteq> 2) \<and> (e \<notin> {1, 2, 3} \<and> st \<noteq> 2 \<longrightarrow> n \<noteq> 2) \<and>
     (st = 2 \<and> e \<notin> {4, 5, 10, 11} \<longrightarrow> n = 2 \<or> a = Act_Disconnect_Conn) \<and> (a = Act_Start_Direct_Adv \<longrightarrow> n \<noteq> 2 \<and> (st = 2 \<longrightarrow> e \<in> {5, 11}))"

lemma table_moves: "st < 3 \<Longrightarrow> e < 14 \<Longrightarrow> table_entry st e = Inr (n, a) \<Longrightarrow> table_ok st e n a"
proof -
  have "list_all (\<lambda>st. list_all (\<lambda>e. case table_entry st e of Inr (n, a) \<Rightarrow> table_ok st e n a | _ \<Rightarrow> False) [0..<14]) [0..<3]" by code_simp
  then have "\<forall>st<3. \<forall>e<14. case table_entry st e of Inr (n, a) \<Rightarrow> table_ok st e n a | _ \<Rightarrow> False" by (simp only: list_all_iff) auto
  then show "st < 3 \<Longrightarrow> e < 14 \<Longrightarrow> table_entry st e = Inr (n, a) \<Longrightarrow> ?thesis" by fastforce
qed

definition moved :: "nat \<Rightarrow> rmc \<Rightarrow> rmc \<Rightarrow> bool" where
  "moved e s t \<longleftrightarrow> pconn t = pconn s \<and> ready_flag t = ready_flag s \<and> msgs t = msgs s \<and> dropped t = dropped s \<and> rmc_status t < 3 \<and> (term_conn_flag s \<longrightarrow> term_conn_flag t) \<and>
     (e \<in> {1, 2, 3} \<longrightarrow> rmc_status t = 2) \<and> (e \<in> {4, 5} \<longrightarrow> rmc_status t \<noteq> 2) \<and> (e \<notin> {1, 2, 3} \<and> rmc_status s \<noteq> 2 \<longrightarrow> rmc_status t \<noteq> 2) \<and>
     (rmc_status s = 2 \<and> e \<notin> {4, 5, 10, 11} \<longrightarrow> rmc_status t = 2 \<or> \<not> pconn s \<or> term_conn_flag t)"

lemma moved_still:
  assumes "still (s\<lparr>rmc_status := n\<rparr>) t" "table_ok (rmc_status s) e n a" "n < 3" "a \<noteq> Act_Disconnect_Conn"
  shows "moved e s t"
  using assms by (auto simp: moved_def still_def core_def dropped_def table_ok_def)

lemma exec_simple:
  assumes "table_entry (rmc_status s) e = Inr (n, a)" "a \<noteq> Act_Start_Direct_Adv" "table_ok (rmc_status s) e n a" "n < 3"
  shows "\<exists>t. rmc_sm_execute h e s = Inr t \<and> moved e s t"
proof (cases "a = Act_Disconnect_Conn")
  case True
  then have "rmc_sm_execute h e s = Inr (rmc_sm_act_disconnect_conn (s\<lparr>rmc_status := n\<rparr>))" using assms(1) by (simp add: rmc_sm_execute.simps [of h e] Let_def)
  moreover have "moved e s (rmc_sm_act_disconnect_conn (s\<lparr>rmc_status := n\<rparr>))"
    using assms(3,4) True unfolding moved_def table_ok_def by (simp add: rmc_sm_act_disconnect_conn_def rc_do_def dropped_def)
  ultimately show ?thesis by blast
next
  case False
  have "\<exists>t. rmc_sm_execute h e s = Inr t \<and> still (s\<lparr>rmc_status := n\<rparr>) t"
    using assms(1,2) False by (cases a) (auto simp: rmc_sm_execute.simps [of h e])
  then show ?thesis using moved_still [OF _ assms(3,4) False] by blast
qed

lemma direct_moved:
  assumes "still (s\<lparr>rmc_status := n\<rparr>) u" "moved e' u t" "e' \<in> {10, 12}" "table_ok (rmc_status s) e n Act_Start_Direct_Adv"
  shows "moved e s t"
proof -
  have u: "rmc_status u = n" "pconn u = pconn s" "ready_flag u = ready_flag s" "msgs u = msgs s" "dropped u = dropped s" "term_conn_flag u = term_conn_flag s"
    using assms(1) by (simp_all add: still_def core_def dropped_def)
  have n: "n \<noteq> 2" "e \<notin> {1, 2, 3}" "rmc_status s = 2 \<Longrightarrow> e \<in> {5, 11}" using assms(4) unfolding table_ok_def by blast+
  have "e' \<notin> {1, 2, 3}" using assms(3) by auto
  then have "rmc_status t \<noteq> 2" using assms(2) n(1) u(1) unfolding moved_def by metis
  moreover have "pconn t = pconn s" "ready_flag t = ready_flag s" "msgs t = msgs s" "dropped t = dropped s" "rmc_status t < 3" "term_conn_flag s \<longrightarrow> term_conn_flag t"
    using assms(2) unfolding moved_def u by simp_all
  ultimately show ?thesis using n(2,3) unfolding moved_def by fast
qed

lemma exec_moves:
  assumes "rmc_status s < 3" "e < 14"
  shows "\<exists>t. rmc_sm_execute h e s = Inr t \<and> moved e s t"
proof -
  obtain n a where t: "table_entry (rmc_status s) e = Inr (n, a)" "n < 3" using table_defined [OF assms] by blast
  have ok: "table_ok (rmc_status s) e n a" by (rule table_moves [OF assms t(1)])
  show ?thesis
  proof (cases "a = Act_Start_Direct_Adv")
    case False
    then show ?thesis using exec_simple [OF t(1) _ ok t(2)] by blast
  next
    case True
    obtain b u where p: "is_paired h (s\<lparr>rmc_status := n\<rparr>) = (b, u)" by fastforce
    have u: "still (s\<lparr>rmc_status := n\<rparr>) u" by (rule still_paired [OF p])
    show ?thesis
    proof (cases "b \<and> reconn_times u < MAX_RECONN_TIMES")
      case True
      let ?v = "rc_do (Rc_Direct_Adv (direct_addr u)) (rc_do Rc_Adv_Stop u)"
      have v: "still (s\<lparr>rmc_status := n\<rparr>) ?v" using u by (auto simp: still_def core_def dropped_def rc_do_def)
      then have w: "still (s\<lparr>rmc_status := n\<rparr>) (rmc_timer_start ID_DIRECT_ADV_TIMEOUT (?v\<lparr>reconn_times := k\<rparr>))" for k
        by (auto simp: still_def core_def dropped_def rmc_timer_start_def)
      have "\<exists>t. rmc_sm_execute h e s = Inr t \<and> still (s\<lparr>rmc_status := n\<rparr>) t"
        using True v w t(1) \<open>a = _\<close> p by (auto simp: rmc_sm_execute.simps [of h e] rc_do_def Let_def)
      then show ?thesis using moved_still [OF _ ok t(2)] \<open>a = _\<close> by blast
    next
      case False
      let ?e = "if pair_comb_timer u then RMC_MSG_CLEAR_PIAR_KEY else RMC_MSG_RECONN_FAIL" and ?v = "u\<lparr>reconn_times := 0\<rparr>"
      have v: "still (s\<lparr>rmc_status := n\<rparr>) ?v" using u by (simp add: still_def core_def dropped_def)
      then have n: "rmc_status ?v < 3" using t(2) by (simp add: still_def core_def)
      have e14: "?e < 14" by simp
      obtain n' a' where t': "table_entry (rmc_status ?v) ?e = Inr (n', a')" "n' < 3" using table_defined [OF n e14] by blast
      have "a' \<noteq> Act_Start_Direct_Adv" using table_direct [of "rmc_status ?v" ?e n'] t'(1) by (auto split: if_splits)
      then obtain x where x: "rmc_sm_execute h ?e ?v = Inr x" "moved ?e ?v x"
        using exec_simple [OF t'(1) _ table_moves [OF n e14 t'(1)] t'(2)] by blast
      have "rmc_sm_execute h e s = Inr x" using x(1) False t(1) \<open>a = _\<close> p by (auto simp: rmc_sm_execute.simps [of h e] Let_def)
      moreover have "moved e s x" by (rule direct_moved [OF v x(2)]) (use ok \<open>a = _\<close> in auto)
      ultimately show ?thesis by blast
    qed
  qed
qed

section \<open>The state follows the connection\<close>

text \<open>The link after the messages of the stack, when it is legal for them: the connection must be there for those that it is secure or enabled.\<close>

fun link_run :: "bool \<Rightarrow> nat list \<Rightarrow> bool option" where
  "link_run l [] = Some l"
| "link_run l (e # es) = (if e = 1 then link_run True es else if e = 4 \<or> e = 5 then link_run False es else if (e = 2 \<or> e = 3) \<and> l then link_run l es else None)"

lemma link_append: "link_run l (es @ fs) = (case link_run l es of None \<Rightarrow> None | Some k \<Rightarrow> link_run k fs)"
  by (induction es arbitrary: l) auto

definition link_ok :: "bool \<Rightarrow> rmc \<Rightarrow> bool" where
  "link_ok l s \<longleftrightarrow> link_run l (ble_of (msgs s)) = Some (pconn s) \<and> (l \<longrightarrow> rmc_status s = 2 \<or> term_conn_flag s \<or> 4 \<in> set (ble_of (msgs s)) \<or> 5 \<in> set (ble_of (msgs s))) \<and>
     (\<not> l \<longrightarrow> rmc_status s \<noteq> 2)"

definition rc_inv :: "rmc \<Rightarrow> bool" where
  "rc_inv s \<longleftrightarrow> rmc_status s < 3 \<and> set (ble_of (msgs s)) \<subseteq> {1, 2, 3, 4, 5} \<and>
     (\<not> ready_flag s \<longrightarrow> \<not> pconn s \<and> ble_of (msgs s) = [] \<and> rmc_status s \<noteq> 2) \<and> (dropped s \<or> (\<exists>l. link_ok l s))"

lemma no_disc: "link_run True es = Some False \<Longrightarrow> 4 \<in> set es \<or> 5 \<in> set es"
  by (induction es) (auto split: if_splits)

lemma link_legal: "link_run l es = Some k \<Longrightarrow> set es \<subseteq> {1, 2, 3, 4, 5}"
  by (induction es arbitrary: l) (auto split: if_splits)

text \<open>An event that is not one of the stack, and one that is.\<close>

lemma moved_other:
  assumes "moved e s t" "e \<notin> {1, 2, 3, 4, 5, 10, 11}" "link_ok l s"
  shows "link_ok l t"
  using assms no_disc [of "ble_of (msgs s)"] by (cases l) (auto simp: moved_def link_ok_def)

lemma moved_ble:
  assumes "moved e s t" "msgs s = ms" "link_ok l (s\<lparr>msgs := Msg_Ble e # ms\<rparr>)"
  shows "\<exists>l. link_ok l t"
proof -
  have r: "link_run l (e # ble_of ms) = Some (pconn s)" using assms(3) by (simp add: link_ok_def)
  then have e: "e \<in> {1, 2, 3, 4, 5}" using link_legal by fastforce
  consider "e = 1" | "e \<in> {2, 3}" "l" | "e \<in> {4, 5}" using e r by (auto split: if_splits)
  then show ?thesis
  proof cases
    case 1
    then have "link_ok True t" using assms(1,2) r by (simp add: moved_def link_ok_def)
    then show ?thesis ..
  next
    case 2
    then have "link_ok True t" using assms(1,2) r by (auto simp: moved_def link_ok_def)
    then show ?thesis ..
  next
    case 3
    then have "link_ok False t" using assms(1,2) r by (auto simp: moved_def link_ok_def)
    then show ?thesis ..
  qed
qed

text \<open>\<open>near s t\<close>: only messages that are not from the stack were added or dropped.\<close>

definition near :: "rmc \<Rightarrow> rmc \<Rightarrow> bool" where
  "near s t \<longleftrightarrow> pconn t = pconn s \<and> term_conn_flag t = term_conn_flag s \<and> rmc_status t = rmc_status s \<and> ready_flag t = ready_flag s \<and>
     ble_of (msgs t) = ble_of (msgs s) \<and> (dropped s \<longrightarrow> dropped t)"

lemma near_still: "still s t \<Longrightarrow> near s t"
  by (simp add: near_def still_def core_def)

lemma near_trans: "near s t \<Longrightarrow> near t u \<Longrightarrow> near s u"
  by (simp add: near_def)

lemma near_post: "ble_of [m] = [] \<Longrightarrow> near s (post m s)"
  by (simp add: near_def post_def send_msg_def rc_do_def dropped_def)

lemma near_upd: "near s (s\<lparr>ccc_table := c\<rparr>)" "near s (s\<lparr>bas_enabled := b\<rparr>)" "near s (s\<lparr>timers := f\<rparr>)" "near s (s\<lparr>reconn_times := k\<rparr>)"
  "near s (s\<lparr>drop_count := d\<rparr>)" "near s (s\<lparr>encode_out := x\<rparr>)" "near s (s\<lparr>batt_val := v, batt_level := l\<rparr>)"
  by (simp_all add: near_def dropped_def)

lemma near_inv:
  assumes "near s t" "rc_inv s"
  shows "rc_inv t"
proof -
  have "link_ok l s = link_ok l t" for l using assms(1) by (simp add: link_ok_def near_def)
  then show ?thesis using assms by (auto simp: rc_inv_def near_def)
qed

lemma near_battery: "near s (rc_update_battry_value h s)"
proof -
  have a: "near s (if b then low_power_led_indication s else s)" for b s using near_still [OF still_led(2)] near_still [OF still_refl] by simp
  have v: "near s (very_low_power_handler s)" for s
    unfolding very_low_power_handler_def by (rule near_trans [OF near_still [OF still_do] near_post]) simp_all
  have b: "near s (if b then very_low_power_handler s else s)" for b s using v near_still [OF still_refl] by simp
  show ?thesis unfolding rc_update_battry_value_def Let_def by (rule near_trans [OF near_trans [OF a b] near_upd(7)])
qed

lemma near_key_cb: "near s (system_key_event_cb v s)"
proof -
  have "still s (if b then let s = btn_led_indication x s in if c then start_audio_capture s else s else if d then let s = btn_led_indication y s in if c then stop_audio_capture s else s else s)"
    for b c d x y
    by (auto simp: Let_def intro: still_trans [OF still_led(4) still_audio(3)] still_trans [OF still_led(4) still_audio(4)])
  then show ?thesis unfolding system_key_event_cb_def Let_def by (intro near_still still_trans [OF _ still_ir]) simp
qed

lemma near_voice: "send_voice h is s = Inr t \<Longrightarrow> near s t"
proof (induction h "is" s rule: send_voice.induct)
  case (2 h i "is" s)
  then show ?case using near_trans [OF near_still [OF still_report(2)]] by (auto split: if_splits)
qed (simp add: near_def)

lemma near_audio: "system_audio_event_handle h b s = Inr t \<Longrightarrow> near s t"
proof -
  assume t: "system_audio_event_handle h b s = Inr t"
  let ?s = "audio_send_start_flag h s"
  have st: "near s ?s" by (rule near_still) simp
  show ?thesis
  proof (cases "rmc_sm_state_is_activing s \<or> drop_count ?s \<noteq> 0")
    case True
    then show ?thesis using t st near_trans [OF st near_trans [OF near_upd(5) near_still [OF still_do]]] near_still [OF still_do]
      by (auto simp: system_audio_event_handle_def Let_def split: if_splits)
  next
    case False
    then obtain n u x where u: "audio_encode h b ?s = Inr (n, u)" "send_voice h (frame_starts n) (rc_do (Rc_Free b) u) = Inr x" "t = audio_send_stop_flag h x"
      using t by (auto simp: system_audio_event_handle_def Let_def rbind_eq_Inr)
    have "near ?s u" using u(1) near_upd(6) by (auto simp: audio_encode_def rbind_eq_Inr Let_def)
    then have "near s x" using near_trans [OF near_trans [OF st] near_trans [OF near_still [OF still_do] near_voice [OF u(2)]]] by simp
    then show ?thesis unfolding u(3) by (rule near_trans) (rule near_still, simp)
  qed
qed

lemma exec_inv:
  assumes "rc_inv s" "e < 14" "e \<notin> {1, 2, 3, 4, 5, 10, 11}" "rmc_sm_execute h e s = Inr t"
  shows "rc_inv t"
proof -
  have m: "moved e s t" using exec_moves [of s e h] assms by (auto simp: rc_inv_def)
  then show ?thesis using assms(1,3) moved_other [OF m assms(3)] by (auto simp: rc_inv_def moved_def)
qed

lemma timer_handled:
  assumes "system_app_timer_event_handle h i s = Inr t"
  shows "(\<exists>e\<in>{6, 7, 8, 9}. rmc_sm_execute h e s = Inr t) \<or> rmc_sm_execute h 12 (rmc_clear_pair_info h s) = Inr t \<or>
    t \<in> {s, rc_do Rc_Reboot s, rmc_timer_start ID_ADC_BATTERY_TIMEOUT (bas_notify (rc_update_battry_value h s))}"
proof -
  consider "i = 0" | "i = 1" | "i = 2" | "i = 3" | "i = 4" | "i = 5" | "i = 6" | "i > 6" by linarith
  then show ?thesis by cases (use assms in \<open>simp_all add: system_app_timer_event_handle_def split: if_splits\<close>)
qed

lemma input_inv:
  assumes "rc_inv s" "system_input_event_handle h v s = Inr t"
  shows "rc_inv t"
proof -
  obtain u where u: "rmc_sm_execute h 0 s = Inr u" using exec_moves [of s 0 h] assms(1) by (auto simp: rc_inv_def)
  have "rc_inv u" by (rule exec_inv [OF assms(1) _ _ u]) auto
  obtain b w where w: "is_need_deliver_to_app h v u = (b, w)" by fastforce
  have "rc_inv w" using near_inv [OF near_still [OF still_deliver [OF w]]] \<open>rc_inv u\<close> by blast
  then have "rc_inv (send_ble_keycode h v w)" using near_inv [OF near_still [OF still_ble(1)]] by blast
  then show ?thesis using assms(2) u w \<open>rc_inv w\<close> by (auto simp: system_input_event_handle_def split: if_splits)
qed

lemma ble_inv:
  assumes "rc_inv s" "msgs s = Msg_Ble e # ms" "system_ble_event_handle h e (s\<lparr>msgs := ms\<rparr>) = Inr t"
  shows "rc_inv t"
proof -
  let ?u = "s\<lparr>msgs := ms, reconn_times := 0\<rparr>"
  have e: "e \<in> {1, 2, 3, 4, 5}" "rmc_status ?u < 3" using assms(1,2) by (auto simp: rc_inv_def)
  have x: "rmc_sm_execute h e ?u = Inr t" using assms(3) by (simp add: system_ble_event_handle_def)
  have mv: "moved e ?u t" using exec_moves [OF e(2), of e h] e(1) x by auto
  have "dropped s \<or> (\<exists>l. link_ok l (?u\<lparr>msgs := Msg_Ble e # ms\<rparr>))" using assms(1,2) by (auto simp: rc_inv_def link_ok_def)
  then have "dropped t \<or> (\<exists>l. link_ok l t)"
  proof
    assume "dropped s"
    then show ?thesis using mv by (simp add: moved_def dropped_def)
  next
    assume "\<exists>l. link_ok l (?u\<lparr>msgs := Msg_Ble e # ms\<rparr>)"
    then show ?thesis using moved_ble [OF mv, of ms] by auto
  qed
  moreover have "rmc_status t < 3" "msgs t = ms" "pconn t = pconn s" "ready_flag t = ready_flag s" using mv unfolding moved_def by simp_all
  moreover have "set (ble_of ms) \<subseteq> {1, 2, 3, 4, 5}" "ready_flag s" using assms(1,2) by (simp_all add: rc_inv_def)
  ultimately show ?thesis unfolding rc_inv_def by simp
qed

lemma timer_inv:
  assumes "rc_inv s" "system_app_timer_event_handle h i s = Inr t"
  shows "rc_inv t"
proof -
  have c: "rc_inv (rmc_clear_pair_info h s)" using near_inv [OF near_still [OF still_clear] assms(1)] .
  have b: "rc_inv (rmc_timer_start k (bas_notify (rc_update_battry_value h s)))" for k
    using near_inv [OF near_trans [OF near_battery near_trans [OF near_still [OF still_bas] near_still [OF still_timer(1)]]] assms(1)] .
  have d: "near s (rc_do Rc_Reboot s)" by (rule near_still [OF still_do]) simp
  consider e where "e \<in> {6, 7, 8, 9}" "rmc_sm_execute h e s = Inr t" | "rmc_sm_execute h 12 (rmc_clear_pair_info h s) = Inr t"
    | "t \<in> {s, rc_do Rc_Reboot s, rmc_timer_start ID_ADC_BATTERY_TIMEOUT (bas_notify (rc_update_battry_value h s))}"
    using timer_handled [OF assms(2)] by blast
  then show ?thesis
  proof cases
    case 1
    then show ?thesis using exec_inv [OF assms(1), of e h t] by fastforce
  next
    case 2
    then show ?thesis using exec_inv [OF c, of 12 h t] by simp
  next
    case 3
    then show ?thesis using assms(1) b near_inv [OF d assms(1)] by blast
  qed
qed

lemma main_inv:
  assumes "rc_inv s" "rc_main h s = Inr t"
  shows "rc_inv t"
proof (cases "msgs s")
  case Nil
  then show ?thesis using assms by (simp add: rc_main_def)
next
  case (Cons m ms)
  let ?s = "s\<lparr>msgs := ms\<rparr>"
  have r: "rc_inv ?s" if "ble_of [m] = []" using that assms(1) Cons near_inv [of s ?s] by (cases m) (auto simp: near_def dropped_def)
  have rt: "rc_inv (rmc_timer_start i ?s)" if "ble_of [m] = []" for i using near_inv [OF near_still r] that by simp
  show ?thesis
  proof (cases m)
    case (Msg_Key v)
    then show ?thesis using assms(2) Cons rt input_inv [OF rt] by (auto simp: rc_main_def Let_def split: if_splits)
  next
    case (Msg_Ble e)
    then show ?thesis using assms(2) Cons ble_inv [OF assms(1), of e ms h t] by (simp add: rc_main_def)
  next
    case (Msg_Audio b)
    then show ?thesis using assms(2) Cons near_inv [OF near_audio rt] by (simp add: rc_main_def)
  next
    case (Msg_Timer i)
    then show ?thesis using assms(2) Cons timer_inv [OF r] by (simp add: rc_main_def)
  next
    case (Msg_Ota v)
    then show ?thesis using assms(2) Cons near_inv [OF near_still [OF still_do] rt, of "Rc_Ota v"] by (auto simp: rc_main_def)
  next
    case Msg_Low_Power
    then show ?thesis using assms(2) Cons exec_inv [OF r, of 13 h t] by (simp add: rc_main_def)
  qed
qed

lemma post_ble:
  assumes "link_run l (ble_of (msgs s) @ [e]) = Some (pconn s)" "l \<longrightarrow> rmc_status s = 2 \<or> term_conn_flag s \<or> 4 \<in> set (ble_of (msgs s) @ [e]) \<or> 5 \<in> set (ble_of (msgs s) @ [e])"
    "\<not> l \<longrightarrow> rmc_status s \<noteq> 2"
  shows "dropped (post (Msg_Ble e) s) \<or> link_ok l (post (Msg_Ble e) s)"
  using assms by (auto simp: post_def send_msg_def link_ok_def dropped_def rc_do_def)

lemma post_fields [simp]: "rmc_status (post m s) = rmc_status s" "ready_flag (post m s) = ready_flag s" "pconn (post m s) = pconn s" "dropped s \<Longrightarrow> dropped (post m s)"
  "set (ble_of (msgs (post m s))) \<subseteq> set (ble_of (msgs s)) \<union> set (ble_of [m])"
  by (auto simp: post_def send_msg_def rc_do_def dropped_def)

lemma post_inv:
  assumes "rmc_status s < 3" "ready_flag s" "set (ble_of (msgs s)) \<subseteq> {1, 2, 3, 4, 5}" "e \<in> {1, 2, 3, 4, 5}"
    "dropped s \<or> (\<exists>l. link_run l (ble_of (msgs s) @ [e]) = Some (pconn s) \<and>
       (l \<longrightarrow> rmc_status s = 2 \<or> term_conn_flag s \<or> 4 \<in> set (ble_of (msgs s) @ [e]) \<or> 5 \<in> set (ble_of (msgs s) @ [e])) \<and> (\<not> l \<longrightarrow> rmc_status s \<noteq> 2))"
  shows "rc_inv (post (Msg_Ble e) s)"
proof -
  have "dropped (post (Msg_Ble e) s) \<or> (\<exists>l. link_ok l (post (Msg_Ble e) s))" using assms(5) post_ble by auto
  moreover have "set (ble_of (msgs (post (Msg_Ble e) s))) \<subseteq> {1, 2, 3, 4, 5}" using post_fields(5) [of "Msg_Ble e" s] assms(3,4) by auto
  ultimately show ?thesis using assms(1,2) by (simp add: rc_inv_def)
qed

text \<open>The stack may report what is legal for the connection it has.\<close>

lemma post_legal:
  assumes "rc_inv s" "ready_flag s" "link_run (pconn s) [e] = Some c"
    "pconn u = c" "term_conn_flag u = (term_conn_flag s \<and> e \<notin> {4, 5})" "rmc_status u = rmc_status s" "ready_flag u" "msgs u = msgs s" "dropped s \<longrightarrow> dropped u"
  shows "rc_inv (post (Msg_Ble e) u)"
proof (rule post_inv)
  show "rmc_status u < 3" "ready_flag u" "set (ble_of (msgs u)) \<subseteq> {1, 2, 3, 4, 5}" using assms by (auto simp: rc_inv_def)
  show "e \<in> {1, 2, 3, 4, 5}" using link_legal [OF assms(3)] by simp
  consider "dropped s" | l where "link_ok l s" using assms(1) unfolding rc_inv_def by blast
  then show "dropped u \<or> (\<exists>l. link_run l (ble_of (msgs u) @ [e]) = Some (pconn u) \<and>
       (l \<longrightarrow> rmc_status u = 2 \<or> term_conn_flag u \<or> 4 \<in> set (ble_of (msgs u) @ [e]) \<or> 5 \<in> set (ble_of (msgs u) @ [e])) \<and> (\<not> l \<longrightarrow> rmc_status u \<noteq> 2))"
  proof cases
    case 1
    then show ?thesis using assms(9) by simp
  next
    case (2 l)
    then show ?thesis using assms(3-8) by (intro disjI2 exI [of _ l]) (auto simp: link_ok_def link_append simp del: link_run.simps)
  qed
qed

lemma ready_inv:
  assumes "rc_inv s" "\<not> ready_flag s" "rc_bt_ready h 0 s = Inr t"
  shows "rc_inv t"
proof -
  let ?u = "s\<lparr>pconn := False, direct_addr := BT_ADDR_LE_ANY, reconn_times := 0, enter_pairing_mode := False, term_conn_flag := False, security_ready_flag := False,
             hid_cfg := Some hid_app_hid_config\<rparr>"
  obtain x where x: "rmc_sm_execute h 11 ?u = Inr x" "moved 11 ?u x" using exec_moves [of ?u 11 h] assms(1) by (auto simp: rc_inv_def)
  have "t = x\<lparr>ready_flag := True\<rparr>" using assms(3) x(1) by (simp add: rc_bt_ready_def)
  moreover have "link_ok False (x\<lparr>ready_flag := True\<rparr>)" using x(2) assms(1,2) by (auto simp: moved_def link_ok_def rc_inv_def)
  ultimately show ?thesis using x(2) assms(1,2) by (auto simp: moved_def rc_inv_def)
qed

lemma connected_inv:
  assumes "rc_inv s" "ready_flag s" "\<not> pconn s"
  shows "rc_inv (rc_connected h err s)"
proof (cases "err = 0")
  case True
  have "rc_inv (post (Msg_Ble 1) (s\<lparr>pconn := True\<rparr>))" by (rule post_legal [OF assms(1)]) (use assms in \<open>simp_all add: dropped_def\<close>)
  then show ?thesis unfolding rc_connected_def
    using True near_inv near_trans [OF near_still [OF still_act(2)] near_trans [OF near_battery near_trans [OF near_still [OF still_timer(1)] near_still [OF still_timer(1)]]]]
    by (simp add: Let_def) blast
qed (use assms in \<open>simp add: rc_connected_def\<close>)

lemma disconnected_inv:
  assumes "rc_inv s" "pconn s"
  shows "rc_inv (rc_disconnected reason s)"
proof -
  have "ready_flag s" using assms by (auto simp: rc_inv_def)
  then have "rc_inv (post (Msg_Ble v) (s\<lparr>pconn := False, term_conn_flag := False\<rparr>))" if "v \<in> {4, 5}" for v
    by (intro post_legal [OF assms(1), where c = False]) (use assms that in \<open>auto simp: dropped_def\<close>)
  then have "rc_inv (post (Msg_Ble (if c then 4 else 5)) (s\<lparr>pconn := False, term_conn_flag := False\<rparr>))" for c by simp
  moreover have "near u ((rmc_timer_stop i u)\<lparr>security_ready_flag := b\<rparr>)" for u i b by (simp add: near_def rmc_timer_stop_def dropped_def)
  ultimately show ?thesis unfolding rc_disconnected_def Let_def using near_inv by blast
qed

lemma security_inv:
  assumes "rc_inv s" "pconn s" "rc_security_changed h s = Inr t"
  shows "rc_inv t"
proof -
  obtain b u where p: "is_paired h s = (b, u)" by fastforce
  have u: "rc_inv u" "pconn u" using near_inv [OF near_still [OF still_paired [OF p]] assms(1)] still_paired [OF p] assms(2) by (auto simp: still_def core_def)
  let ?v = "(rmc_timer_stop ID_RMC_SEC_TIMEOUT u)\<lparr>security_ready_flag := True\<rparr>"
  have c: "rc_inv (rmc_clear_pair_info h u)" using near_inv [OF near_still [OF still_clear] u(1)] .
  have "rc_inv (post (Msg_Ble 2) ?v)" by (rule post_legal [OF u(1)]) (use u in \<open>auto simp: rc_inv_def dropped_def rmc_timer_stop_def\<close>)
  then show ?thesis using assms(3) p exec_inv [OF c, of 12 h t] by (auto simp: rc_security_changed_def split: if_splits)
qed

lemma trans_inv:
  assumes "rc_trans h s e t" "rc_inv s"
  shows "rc_inv t"
proof -
  have en: "rc_enabled e s" and st: "rc_step h e s = Inr t" using assms(1) by (simp_all add: rc_trans_def)
  have rdy: "pconn s \<Longrightarrow> ready_flag s" using assms(2) by (auto simp: rc_inv_def)
  show ?thesis
  proof (cases e)
    case Rc_Input_Enabled
    have "rc_inv (post (Msg_Ble 3) s)" if "pconn s"
      by (rule post_legal [OF assms(2)]) (use rdy that in simp_all)
    then show ?thesis using st Rc_Input_Enabled assms(2) by (auto simp: rc_step_def hid_app_remote_report_channel_enable_def split: if_splits)
  next
    case (Rc_Ready err)
    then show ?thesis using st en ready_inv [OF assms(2)] by (simp add: rc_step_def rc_enabled_def)
  next
    case (Rc_Connected err)
    then show ?thesis using st en connected_inv [OF assms(2)] by (auto simp: rc_step_def rc_enabled_def)
  next
    case (Rc_Disconnected reason)
    then show ?thesis using st en disconnected_inv [OF assms(2)] by (auto simp: rc_step_def rc_enabled_def)
  next
    case Rc_Security
    then show ?thesis using st en security_inv [OF assms(2)] by (simp add: rc_step_def rc_enabled_def)
  next
    case Rc_Main
    then show ?thesis using st main_inv [OF assms(2)] by (simp add: rc_step_def)
  qed (use st in \<open>auto simp: rc_step_def check_rmc_timer_def intro!: near_inv [OF _ assms(2)] intro: near_upd near_post near_trans [OF near_upd(3) near_post]
        near_still near_trans [OF near_key_cb near_post]\<close>)
qed

interpretation rcu: step_invariant "rc_trans h" rc_inv for h
  by unfold_locales (rule trans_inv)

text \<open>
  C4 (invariant). The state machine follows the connection. Whenever no message of the Bluetooth stack is waiting and no message was ever lost, the machine is not in
  the state for a connection unless there is one; and while there is one it is in that state, unless the remote control has asked to end the
  connection itself.
\<close>

theorem rmc_state_follows_connection:
  assumes "lrun (rc_trans h) s0 es s" "rmc_status s0 = RMC_STATES_IDLE" "\<not> pconn s0" "\<not> ready_flag s0" "msgs s0 = []" "Rc_Drop \<notin> set (calls s)" "ble_of (msgs s) = []"
  shows "(rmc_status s = RMC_STATES_CONNECTED \<longrightarrow> pconn s) \<and> (pconn s \<longrightarrow> rmc_status s = RMC_STATES_CONNECTED \<or> term_conn_flag s)"
proof -
  have "link_ok False s0" using assms(2-5) by (simp add: link_ok_def)
  then have "rc_inv s0" using assms(2-5) unfolding rc_inv_def by auto
  then have "rc_inv s" using rcu.inv_run [OF assms(1)] by blast
  then obtain l where "link_ok l s" using assms(6) by (auto simp: rc_inv_def dropped_def)
  then show ?thesis using assms(7) by (cases l) (auto simp: link_ok_def)
qed

text \<open>A remote control that has just started, surroundings in which everything succeeds, and an encoder that makes 40 bytes of a frame of 160 samples.\<close>

definition rc_quiet :: rc_host where
  "rc_quiet = \<lparr>adv_result = (\<lambda>_. 0), direct_result = (\<lambda>_. 0), hid_result = (\<lambda>_. 0), clear_result = (\<lambda>_. 0), stored_addr = (\<lambda>_. Some [0, 1, 2, 3, 4, 5, 6]),
     batt_adc = (\<lambda>_. 900), encode_init = (\<lambda>_. 160), encode = (\<lambda>_ b i. replicate 20 (of_nat b))\<rparr>"

definition rc_off :: rmc where
  "rc_off = \<lparr>rmc_status = RMC_STATES_IDLE, pconn = False, direct_addr = BT_ADDR_LE_ANY, reconn_times = 0, enter_pairing_mode = False, term_conn_flag = False,
     security_ready_flag = False, ccc_table = hids_ccc_table, hid_cfg = None, bas_enabled = False, ad_name = [], comb_key_code = REMOTE_COMB_KEY_OK_BACK,
     pair_comb_timer = False, hci_comb_timer = False, pending_key = 0, prev_ir_key = KEY_RESERVED, irc_open = True, ir_state = 0, ready_flag = False, batt_level = 0,
     batt_val = 0, codec = 10, sample_len = 0, send_start_flag = False, send_stop_flag = False, drop_count = 0, encoder_init_flag = False, encode_out = replicate 80 0,
     timers = (\<lambda>_. False), led_timers = (\<lambda>_. False), msgs = [], calls = []\<rparr>"

fun rc_exec :: "rc_host \<Rightarrow> rc_event list \<Rightarrow> rmc \<Rightarrow> rmc option" where
  "rc_exec h [] s = Some s"
| "rc_exec h (e # es) s = (if rc_enabled e s then case rc_step h e s of Inr t \<Rightarrow> rc_exec h es t | Inl _ \<Rightarrow> None else None)"

lemma rc_exec_run: "rc_exec h es s = Some t \<Longrightarrow> lrun (rc_trans h) s es t"
  by (induction h es s rule: rc_exec.induct) (auto simp: lrun_simps rc_trans_def split: if_splits sum.splits)

lemma any_addr: "BT_ADDR_LE_ANY = [0, 0, 0, 0, 0, 0, 0]"
  by (simp add: BT_ADDR_LE_ANY_def numeral_eq_Suc)

lemmas rc_concrete = rc_quiet_def rc_off_def any_addr table_entry_def rmc_State_table_def rmc_act_set_def arr_get_def rc_enabled_def rc_step_def rc_do_def
  rmc_timer_start_def rmc_timer_stop_def post_def send_msg_def Let_def

lemmas rc_link = rc_bt_ready_def rmc_sm_execute.simps [of _ 11] is_paired_def is_rpa_def rc_connected_def rc_main_def system_ble_event_handle_def
  rmc_sm_execute.simps [of _ "Suc 0"] rmc_sm_act_connected_def rc_update_battry_value_def

lemmas rc_press = system_key_event_cb_def key_of_def acts_get_ble_keycode_def acts_get_ir_keycode_def acts_key_maps_def flag_set_def btn_led_indication_def send_ir_keycode_def
  rmc_sm_state_is_activing_def irc_send_def ir_btn_led_indication_def start_audio_capture_def

theorem rmc_state_follows_connection_witness:
  "\<exists>s. lrun (rc_trans rc_quiet) rc_off [Rc_Ready 0, Rc_Connected 0, Rc_Main] s \<and> pconn s \<and> rmc_status s = RMC_STATES_CONNECTED"
proof -
  let ?es = "[Rc_Ready 0, Rc_Connected 0, Rc_Main]"
  obtain s where s: "rc_exec rc_quiet ?es rc_off = Some s" "Rc_Drop \<notin> set (calls s)" "msgs s = []" "pconn s" "\<not> term_conn_flag s"
    by (simp add: rc_concrete rc_link)
  have "rmc_status rc_off = RMC_STATES_IDLE" "\<not> pconn rc_off" "\<not> ready_flag rc_off" "msgs rc_off = []" by (simp_all add: rc_off_def)
  then show ?thesis using rmc_state_follows_connection [OF rc_exec_run [OF s(1)]] rc_exec_run [OF s(1)] s(2-5) by auto
qed

section \<open>Every event is defined\<close>

text \<open>What the voice encoder works with: its parameters, whether recording was ever started and whether a buffer key_waiting.\<close>

definition voice :: "rmc \<Rightarrow> u16 \<times> nat \<times> u16 \<times> bool \<times> bool \<times> bool" where
  "voice s = (codec s, length (encode_out s), sample_len s, encoder_init_flag s, Rc_Record True \<in> set (calls s), \<exists>b. Msg_Audio b \<in> set (msgs s))"

lemma voice_do [simp]: "c \<noteq> Rc_Record True \<Longrightarrow> voice (rc_do c s) = voice s"
  by (simp add: voice_def rc_do_def)

lemma voice_post [simp]: "(\<And>b. m \<noteq> Msg_Audio b) \<Longrightarrow> voice (post m s) = voice s"
  by (auto simp: voice_def post_def send_msg_def rc_do_def)

lemma voice_led [simp]: "voice (rmc_timer_start i s) = voice s" "voice (rmc_timer_stop i s) = voice s" "voice (pair_led_indication st s) = voice s"
  "voice (low_power_led_indication s) = voice s" "voice (ir_btn_led_indication s) = voice s" "voice (btn_led_indication on s) = voice s" "voice (led_timeout_event i s) = voice s"
  by (simp_all add: voice_def rc_do_def rmc_timer_start_def rmc_timer_stop_def pair_led_indication_def low_power_led_indication_def ir_btn_led_indication_def btn_led_indication_def
      led_timeout_event_def paired_indication_def)

lemma voice_upd [simp]: "voice (s\<lparr>pending_key := k\<rparr>) = voice s" "voice (s\<lparr>send_start_flag := b\<rparr>) = voice s" "voice (s\<lparr>send_stop_flag := b\<rparr>) = voice s"
  "voice (s\<lparr>direct_addr := a\<rparr>) = voice s" "voice (s\<lparr>pair_comb_timer := b\<rparr>) = voice s" "voice (s\<lparr>hci_comb_timer := b\<rparr>) = voice s" "voice (s\<lparr>comb_key_code := c\<rparr>) = voice s"
  "voice (s\<lparr>prev_ir_key := c\<rparr>) = voice s" "voice (s\<lparr>rmc_status := n\<rparr>) = voice s" "voice (s\<lparr>reconn_times := r\<rparr>) = voice s" "voice (s\<lparr>term_conn_flag := b\<rparr>) = voice s"
  "voice (s\<lparr>enter_pairing_mode := b\<rparr>) = voice s" "voice (s\<lparr>ready_flag := b\<rparr>) = voice s" "voice (s\<lparr>drop_count := d\<rparr>) = voice s" "voice (s\<lparr>pconn := b\<rparr>) = voice s"
  "voice (s\<lparr>security_ready_flag := b\<rparr>) = voice s" "voice (s\<lparr>hid_cfg := f\<rparr>) = voice s" "voice (s\<lparr>ccc_table := cc\<rparr>) = voice s" "voice (s\<lparr>bas_enabled := b\<rparr>) = voice s"
  "voice (s\<lparr>timers := tt\<rparr>) = voice s" "voice (s\<lparr>batt_val := bv, batt_level := bl\<rparr>) = voice s" "voice (s\<lparr>ir_state := i\<rparr>) = voice s"
  by (simp_all add: voice_def)

lemma voice_report [simp]: "voice (snd (hid_app_remote_report_event h k s)) = voice s" "voice (snd (hid_app_voice_report_event h x s)) = voice s"
  by (simp_all add: hid_app_remote_report_event_def hid_app_voice_report_event_def hid_notify_def split: option.splits)

lemma voice_keys [simp]: "voice (send_ble_keycode h v s) = voice s" "voice (send_pending_keycode h s) = voice s" "voice (send_ir_keycode v s) = voice s"
  "voice (audio_send_stop_flag h s) = voice s" "voice (stop_audio_capture s) = voice s"
proof -
  show b: "voice (send_ble_keycode h v s) = voice s" for v by (simp add: send_ble_keycode_def Let_def)
  show "voice (send_pending_keycode h s) = voice s" by (simp add: send_pending_keycode_def Let_def b)
  show "voice (send_ir_keycode v s) = voice s" by (simp add: send_ir_keycode_def irc_send_def Let_def)
  show "voice (audio_send_stop_flag h s) = voice s" by (simp add: audio_send_stop_flag_def Let_def split_beta)
  show "voice (stop_audio_capture s) = voice s" by (simp add: voice_def stop_audio_capture_def rc_do_def)
qed

lemma voice_actions [simp]: "voice (rmc_clear_pair_info h s) = voice s" "voice (rmc_sm_act_start_adv h s) = voice s" "voice (rmc_sm_act_connected s) = voice s"
  "voice (rmc_sm_act_stop_adv s) = voice s" "voice (rmc_sm_act_disconnect_conn s) = voice s" "voice (bas_notify s) = voice s" "voice (rc_update_battry_value h s) = voice s"
  by (simp_all add: rmc_clear_pair_info_def set_sd_data_def rmc_sm_act_start_adv_def rmc_sm_act_connected_def rmc_sm_act_stop_adv_def rmc_sm_act_disconnect_conn_def
      bas_notify_def rc_update_battry_value_def very_low_power_handler_def Let_def) (simp add: voice_def)

lemma voice_paired: "is_paired h s = (b, t) \<Longrightarrow> voice t = voice s"
  by (auto simp: is_paired_def split: if_splits option.splits)

lemma voice_exec: "rmc_sm_execute h e s = Inr t \<Longrightarrow> voice t = voice s"
proof (induction h e s rule: rmc_sm_execute.induct)
  case (1 h e s)
  obtain n a where a: "table_entry (rmc_status s) e = Inr (n, a)" using 1(2) by (auto simp: rmc_sm_execute.simps [of h e s] split: sum.splits)
  show ?case
  proof (cases "a = Act_Start_Direct_Adv")
    case False
    then show ?thesis using 1(2) a by (cases a) (auto simp: rmc_sm_execute.simps [of h e s])
  next
    case True
    obtain b u where p: "is_paired h (s\<lparr>rmc_status := n\<rparr>) = (b, u)" by fastforce
    have u: "voice u = voice s" using voice_paired [OF p] by simp
    show ?thesis
    proof (cases "b \<and> reconn_times u < MAX_RECONN_TIMES")
      case True
      then show ?thesis using 1(2) a \<open>a = _\<close> p u by (auto simp: rmc_sm_execute.simps [of h e s] Let_def split: if_splits)
    next
      case False
      then have "rmc_sm_execute h (if pair_comb_timer u then RMC_MSG_CLEAR_PIAR_KEY else RMC_MSG_RECONN_FAIL) (u\<lparr>reconn_times := 0\<rparr>) = Inr t"
        using 1(2) a \<open>a = _\<close> p by (auto simp: rmc_sm_execute.simps [of h e s] Let_def)
      then show ?thesis using 1(1) [OF a refl refl \<open>a = _\<close> p [symmetric] False] u by simp
    qed
  qed
qed

lemma voice_deliver: "\<lbrakk>is_need_deliver_to_app h v s = (b, t); voice s = (c, n, l, i, r, q)\<rbrakk> \<Longrightarrow> voice t = (c, n, l, i, r, q) \<or> voice t = voice (audio_send_start_flag h s)"
  unfolding is_need_deliver_to_app_def Let_def by (auto split: if_splits)

text \<open>The contract of the encoder: frames of a positive length, of constant output, that fill at most the output buffer.\<close>

definition frames_of :: "u16 \<Rightarrow> nat" where
  "frames_of l = unat (word_of_int (int PCM_BUF_LEN sdiv (sint l * 2)) :: u8)"

definition encoder_fits :: "rc_host \<Rightarrow> u16 \<Rightarrow> nat \<Rightarrow> bool" where
  "encoder_fits h c w \<longleftrightarrow> 0 < sint (encode_init h c) \<and> (\<forall>cs b i. length (encode h cs b i) = w) \<and> frames_of (encode_init h c) * w \<le> 40"

definition voice_ok :: "rc_host \<Rightarrow> rmc \<Rightarrow> bool" where
  "voice_ok h s \<longleftrightarrow> (case voice s of (c, n, l, i, r, q) \<Rightarrow> c = 10 \<and> n = 80 \<and> (r \<longrightarrow> i \<or> l = encode_init h 10) \<and> (q \<longrightarrow> r))"

lemma voice_ok_cong: "voice t = voice s \<Longrightarrow> voice_ok h t = voice_ok h s"
  by (simp add: voice_ok_def)

lemma start_flag_ok:
  assumes "voice_ok h s"
  shows "voice_ok h (audio_send_start_flag h s)" "Rc_Record True \<in> set (calls s) \<Longrightarrow> sample_len (audio_send_start_flag h s) = encode_init h 10"
proof -
  let ?s = "if encoder_init_flag s then (rc_do (Rc_Encoder_Init (codec s)) s)\<lparr>sample_len := encode_init h (codec s), encoder_init_flag := False\<rparr> else s"
  have "voice (audio_send_start_flag h s) = voice ?s" unfolding audio_send_start_flag_def Let_def by (simp add: split_beta)
  then show "voice_ok h (audio_send_start_flag h s)" "Rc_Record True \<in> set (calls s) \<Longrightarrow> sample_len (audio_send_start_flag h s) = encode_init h 10"
    using assms by (auto simp: voice_ok_def voice_def rc_do_def split: if_splits)
qed

lemma u16_bytes_length [simp]: "length (u16_bytes ws) = 2 * length ws"
  by (induction ws) (auto simp: u16_bytes_def)

lemma encode_frames_ok:
  assumes "\<forall>cs b i. length (encode h cs b i) = w"
  shows "off + 2 * w * t \<le> length out \<Longrightarrow> \<exists>out'. encode_frames h cs b t i off n out = Inr (if t = 0 then n else w, out') \<and> length out' = length out"
proof (induction t arbitrary: i off n out)
  case (Suc t)
  obtain o1 where o1: "mem_cpy out off (u16_bytes (encode h cs b i)) (2 * w) = Inr o1" "length o1 = length out"
    using Suc(2) assms mem_cpy_length by (fastforce simp: mem_cpy_def)
  then show ?case using Suc(1) [of "off + 2 * w" o1 "i + 1" w] Suc(2) assms by (auto simp: algebra_simps)
qed simp

lemma audio_encode_ok:
  assumes "encoder_fits h 10 w" "voice_ok h s" "sample_len s = encode_init h 10"
  shows "\<exists>n t. audio_encode h b s = Inr (n, t) \<and> n \<le> 80 \<and> voice t = voice s"
proof -
  let ?t = "frames_of (sample_len s)"
  have f: "?t * w \<le> 40" "\<forall>cs b i. length (encode h cs b i) = w" "sint (sample_len s) * 2 \<noteq> 0" "length (encode_out s) = 80"
    using assms by (auto simp: encoder_fits_def voice_ok_def voice_def)
  obtain o' where o': "encode_frames h (calls s) b ?t 0 0 0 (encode_out s) = Inr (if ?t = 0 then 0 else w, o')" "length o' = 80"
    using encode_frames_ok [OF f(2), of 0 ?t "encode_out s" "calls s" b 0 0] f(1,4) by (auto simp: mult.commute)
  have "(if ?t = 0 then 0 else w) * ?t * 2 \<le> 80" using f(1) by (auto simp: mult.commute)
  moreover have "unat (of_nat x :: u16) \<le> x" for x by (simp add: unsigned_of_nat)
  ultimately have "unat (of_nat ((if ?t = 0 then 0 else w) * ?t * 2) :: u16) \<le> 80" by (meson order_trans)
  moreover have "voice (s\<lparr>encode_out := o'\<rparr>) = voice s" using o'(2) f(4) by (simp add: voice_def)
  ultimately show ?thesis using f(3) o'(1) by (auto simp: audio_encode_def c_div_def frames_of_def Let_def)
qed

lemma send_voice_ok: "\<forall>i\<in>set is. i + 20 \<le> length (encode_out s) \<Longrightarrow> \<exists>t. send_voice h is s = Inr t \<and> voice t = voice s"
proof (induction h "is" s rule: send_voice.induct)
  case (2 h i "is" s)
  let ?u = "snd (hid_app_voice_report_event h (take 20 (drop i (encode_out s))) s)"
  have "voice ?u = voice s" by simp
  then have "length (encode_out ?u) = length (encode_out s)" by (simp add: voice_def)
  then show ?case using 2 by auto
qed simp

lemma audio_ok:
  assumes "encoder_fits h 10 w" "voice_ok h s" "Rc_Record True \<in> set (calls s)"
  shows "\<exists>t. system_audio_event_handle h b s = Inr t \<and> voice_ok h t"
proof -
  let ?s = "audio_send_start_flag h s"
  note st = start_flag_ok [OF assms(2)]
  obtain n t where t: "audio_encode h b ?s = Inr (n, t)" "n \<le> 80" "voice t = voice ?s" using audio_encode_ok [OF assms(1) st(1) st(2) [OF assms(3)]] by blast
  have "length (encode_out (rc_do (Rc_Free b) t)) = 80" using t(3) st(1) by (auto simp: voice_ok_def voice_def rc_do_def)
  moreover have "\<forall>i\<in>set (frame_starts n). i + 20 \<le> 80" using t(2) by (auto simp: frame_starts_def)
  ultimately obtain u where u: "send_voice h (frame_starts n) (rc_do (Rc_Free b) t) = Inr u" "voice u = voice (rc_do (Rc_Free b) t)" using send_voice_ok by metis
  have "voice_ok h (rc_do (Rc_Free b) s)" "voice_ok h (rc_do (Rc_Free b) (?s\<lparr>drop_count := d\<rparr>))" "voice_ok h (audio_send_stop_flag h u)" for d
    using assms(2) st(1) u(2) t(3) by (simp_all add: voice_ok_def)
  then show ?thesis using t(1) u(1) by (auto simp: system_audio_event_handle_def Let_def)
qed

lemma key_cb_ok: "voice_ok h s \<Longrightarrow> voice_ok h (system_key_event_cb v s)"
proof -
  assume s: "voice_ok h s"
  have start: "voice_ok h (start_audio_capture t)" if "voice_ok h t" for t
    using that by (auto simp: voice_ok_def voice_def start_audio_capture_def rc_do_def)
  have b: "voice_ok h (btn_led_indication on s)" for on using s by (simp add: voice_ok_def)
  then have "voice_ok h (stop_audio_capture (btn_led_indication on s))" for on by (simp add: voice_ok_def)
  then have "voice_ok h (if f then let s = btn_led_indication True s in if k then start_audio_capture s else s
      else if g then let s = btn_led_indication False s in if k then stop_audio_capture s else s else s)" for f g k
    using s b start [OF b] by (simp add: Let_def)
  then show ?thesis unfolding system_key_event_cb_def Let_def by (subst voice_ok_cong [OF voice_keys(3)])
qed

text \<open>What the safety needs of a state.\<close>

definition rc_ok :: "rc_host \<Rightarrow> rmc \<Rightarrow> bool" where
  "rc_ok h s \<longleftrightarrow> rc_inv s \<and> voice_ok h s"

lemma machine_ok: "\<lbrakk>rmc_status s < 3; e < 14; voice_ok h s\<rbrakk> \<Longrightarrow> \<exists>t. rmc_sm_execute h e s = Inr t \<and> voice_ok h t"
  using exec_moves [of s e h] voice_exec [of h e s] voice_ok_cong by metis

lemma voice_tail: "voice_ok h s \<Longrightarrow> msgs s = m # ms \<Longrightarrow> voice_ok h (s\<lparr>msgs := ms\<rparr>)"
  by (auto simp: voice_ok_def voice_def)

lemma timer_ok:
  assumes "rmc_status s < 3" "voice_ok h s"
  shows "\<exists>t. system_app_timer_event_handle h i s = Inr t \<and> voice_ok h t"
proof -
  have c: "rmc_status (rmc_clear_pair_info h s) < 3" "voice_ok h (rmc_clear_pair_info h s)"
    using assms still_clear [of s h] by (simp_all add: still_def core_def voice_ok_def)
  have x: "voice_ok h (rc_do Rc_Reboot s)" "voice_ok h (rmc_timer_start k (bas_notify (rc_update_battry_value h s)))" for k using assms(2) by (simp_all add: voice_ok_def)
  show ?thesis using machine_ok [OF assms(1) _ assms(2)] machine_ok [OF c(1) _ c(2)] assms(2) x by (simp add: system_app_timer_event_handle_def)
qed

lemma input_ok:
  assumes "rmc_status s < 3" "voice_ok h s"
  shows "\<exists>t. system_input_event_handle h v s = Inr t \<and> voice_ok h t"
proof -
  obtain u where u: "rmc_sm_execute h RMC_MSG_INPUT_KEY s = Inr u" "voice_ok h u" using machine_ok [OF assms(1) _ assms(2), of 0] by auto
  obtain b w where w: "is_need_deliver_to_app h v u = (b, w)" by fastforce
  have "voice w = voice u \<or> voice w = voice (audio_send_start_flag h u)" using voice_deliver [OF w] by (metis prod_cases6)
  then have "voice_ok h w" using voice_ok_cong start_flag_ok(1) [OF u(2)] u(2) by metis
  then show ?thesis using u(1) w voice_ok_cong [OF voice_keys(1)] by (simp add: system_input_event_handle_def)
qed

lemma main_ok:
  assumes "encoder_fits h 10 w" "rc_ok h s"
  shows "\<exists>t. rc_main h s = Inr t \<and> voice_ok h t"
proof (cases "msgs s")
  case Nil
  then show ?thesis using assms(2) by (simp add: rc_main_def rc_ok_def)
next
  case (Cons m ms)
  let ?s = "s\<lparr>msgs := ms\<rparr>"
  have s: "rmc_status ?s < 3" "voice_ok h ?s" using assms(2) Cons voice_tail by (auto simp: rc_ok_def rc_inv_def)
  let ?t = "rmc_timer_start ID_NO_ACT_TIMEOUT ?s"
  have t: "rmc_status ?t < 3" "voice_ok h ?t" using s by (simp_all add: voice_ok_def rmc_timer_start_def voice_def)
  show ?thesis
  proof (cases m)
    case (Msg_Key v)
    then show ?thesis using Cons input_ok [OF t, of v] t(2) by (simp add: rc_main_def Let_def)
  next
    case (Msg_Ble e)
    then have e: "e < 14" "rmc_status (?s\<lparr>reconn_times := 0\<rparr>) < 3" "voice_ok h (?s\<lparr>reconn_times := 0\<rparr>)"
      using assms(2) Cons s by (auto simp: rc_ok_def rc_inv_def voice_ok_def voice_def)
    show ?thesis using Cons Msg_Ble machine_ok [OF e(2,1,3)] by (simp add: rc_main_def system_ble_event_handle_def)
  next
    case (Msg_Audio b)
    then have "Rc_Record True \<in> set (calls s)" using assms(2) Cons by (auto simp: rc_ok_def voice_ok_def voice_def)
    then have "Rc_Record True \<in> set (calls ?t)" by (simp add: rmc_timer_start_def)
    then show ?thesis using Cons Msg_Audio audio_ok [OF assms(1) t(2)] by (simp add: rc_main_def)
  next
    case (Msg_Timer i)
    then show ?thesis using Cons timer_ok [OF s] by (simp add: rc_main_def)
  next
    case (Msg_Ota v)
    have "voice_ok h (rc_do (Rc_Ota v) ?t)" using t(2) voice_ok_cong [OF voice_do] by blast
    then show ?thesis using Cons Msg_Ota by (simp add: rc_main_def)
  next
    case Msg_Low_Power
    then show ?thesis using Cons machine_ok [OF s(1) _ s(2)] by (simp add: rc_main_def)
  qed
qed

lemma step_ok:
  assumes "encoder_fits h 10 w" "rc_ok h s" "rc_enabled e s"
  shows "\<exists>t. rc_step h e s = Inr t \<and> voice_ok h t"
proof -
  have s: "rmc_status s < 3" "voice_ok h s" using assms(2) by (auto simp: rc_ok_def rc_inv_def)
  show ?thesis
  proof (cases e)
    case (Rc_Ready err)
    let ?u = "s\<lparr>pconn := False, direct_addr := BT_ADDR_LE_ANY, reconn_times := 0, enter_pairing_mode := False, term_conn_flag := False, security_ready_flag := False,
               hid_cfg := Some hid_app_hid_config\<rparr>"
    have u: "rmc_status ?u < 3" "voice_ok h ?u" using s by (simp_all add: voice_ok_def voice_def)
    obtain x where x: "rmc_sm_execute h 11 ?u = Inr x" "voice_ok h x" using machine_ok [OF u(1) _ u(2), of 11] by auto
    then show ?thesis using Rc_Ready assms(3) by (simp add: rc_step_def rc_enabled_def rc_bt_ready_def voice_ok_def)
  next
    case (Rc_Connected err)
    then show ?thesis using s(2) by (simp add: rc_step_def rc_connected_def voice_ok_def Let_def)
  next
    case (Rc_Disconnected reason)
    then show ?thesis using s(2) by (simp add: rc_step_def rc_disconnected_def voice_ok_def Let_def)
  next
    case Rc_Security
    obtain b u where p: "is_paired h s = (b, u)" by fastforce
    have u: "voice u = voice s" "still s u" using voice_paired [OF p] still_paired [OF p] .
    have "rmc_status (rmc_clear_pair_info h u) < 3" "voice_ok h (rmc_clear_pair_info h u)"
      using still_clear [of u h] u s by (simp_all add: still_def core_def voice_ok_def)
    then show ?thesis using Rc_Security p machine_ok [of "rmc_clear_pair_info h u" 12 h] u(1) s(2) by (simp add: rc_step_def rc_security_changed_def voice_ok_def)
  next
    case (Rc_Audio b)
    then have "voice_ok h (post (Msg_Audio b) s)" using assms(3) s(2) by (auto simp: rc_enabled_def voice_ok_def voice_def post_def send_msg_def rc_do_def)
    then show ?thesis using Rc_Audio by (simp add: rc_step_def)
  next
    case Rc_Main
    then show ?thesis using main_ok [OF assms(1,2)] by (simp add: rc_step_def)
  qed (use s(2) key_cb_ok [OF s(2)] in \<open>simp_all add: rc_step_def check_rmc_timer_def hid_app_remote_report_channel_enable_def voice_ok_def\<close>)
qed

interpretation rcs: step_invariant "rc_trans h" "\<lambda>s. encoder_fits h 10 w \<longrightarrow> rc_ok h s" for h w
  by unfold_locales (use trans_inv step_ok in \<open>fastforce simp: rc_ok_def rc_trans_def\<close>)

text \<open>
  C8 (safety). With an encoder whose frames have a positive length and whose output for the frames of a buffer fits the output buffer, every event that can happen in a
  state the remote control reaches is handled without undefined behaviour: no entry outside the table of the machine or of the actions, no division by a frame length of
  zero, no byte written or sent beyond the output buffer.
\<close>

theorem rmc_steps_defined:
  assumes "encoder_fits h 10 w" "lrun (rc_trans h) s0 es s" "rc_enabled e s"
    "rmc_status s0 = RMC_STATES_IDLE" "\<not> pconn s0" "\<not> ready_flag s0" "msgs s0 = []" "codec s0 = 10" "length (encode_out s0) = 80" "Rc_Record True \<notin> set (calls s0)"
  shows "\<exists>t. rc_step h e s = Inr t"
proof -
  have "link_ok False s0" using assms(4-7) by (simp add: link_ok_def)
  then have "rc_ok h s0" using assms(4-10) by (auto simp: rc_ok_def rc_inv_def voice_ok_def voice_def)
  then have "rc_ok h s" using rcs.inv_run [OF assms(2)] assms(1) by blast
  then show ?thesis using step_ok [OF assms(1) _ assms(3)] by blast
qed

theorem rmc_steps_defined_witness:
  "\<exists>s t. lrun (rc_trans rc_quiet) rc_off [Rc_Ready 0, Rc_Connected 0, Rc_Main, Rc_Key 0x20000002, Rc_Audio 0] s \<and> rc_step rc_quiet Rc_Main s = Inr t"
proof -
  let ?es = "[Rc_Ready 0, Rc_Connected 0, Rc_Main, Rc_Key 0x20000002, Rc_Audio 0]"
  obtain s where s: "rc_exec rc_quiet ?es rc_off = Some s"
    by (simp add: rc_concrete rc_link rc_press)
  have "encoder_fits rc_quiet 10 20" by (simp add: encoder_fits_def rc_quiet_def frames_of_def)
  then show ?thesis using rmc_steps_defined [OF _ rc_exec_run [OF s], of 20 Rc_Main] rc_exec_run [OF s] by (force simp: rc_enabled_def rc_off_def)
qed

section \<open>Key events\<close>

text \<open>Running the remote control on a list of events, one part after the other.\<close>

lemma rc_exec_append: "rc_exec h (es @ fs) s = (case rc_exec h es s of None \<Rightarrow> None | Some t \<Rightarrow> rc_exec h fs t)"
  by (induction h es s rule: rc_exec.induct) (auto split: sum.split)

text \<open>The callback of the input manager switches lights, sends infrared codes and starts or stops recording; the rest stays.\<close>

definition link_part :: "rmc \<Rightarrow> nat \<times> bool \<times> bool \<times> bool \<times> rc_msg list \<times> bytes \<times> u8 \<times> bool \<times> (nat \<Rightarrow> bool) \<times> hid_config option \<times> hids_ccc" where
  "link_part s = (rmc_status s, pconn s, security_ready_flag s, ready_flag s, msgs s, direct_addr s, reconn_times s, pair_comb_timer s, timers s, hid_cfg s, ccc_table s)"

fun is_notify :: "rc_call \<Rightarrow> bool" where
  "is_notify (Rc_Notify _ _) = True"
| "is_notify _ = False"

definition rc_notified :: "rmc \<Rightarrow> rc_call list" where
  "rc_notified s = filter is_notify (calls s)"

lemma key_parts_link:
  "link_part (btn_led_indication on s) = link_part s" "rc_notified (btn_led_indication on s) = rc_notified s"
  "link_part (start_audio_capture s) = link_part s" "rc_notified (start_audio_capture s) = rc_notified s"
  "link_part (stop_audio_capture s) = link_part s" "rc_notified (stop_audio_capture s) = rc_notified s"
  "link_part (send_ir_keycode v s) = link_part s" "rc_notified (send_ir_keycode v s) = rc_notified s"
  by (simp_all add: link_part_def rc_notified_def btn_led_indication_def start_audio_capture_def stop_audio_capture_def send_ir_keycode_def irc_send_def
    ir_btn_led_indication_def rc_do_def Let_def)

lemma key_cb_link: "link_part (system_key_event_cb v s) = link_part s" "rc_notified (system_key_event_cb v s) = rc_notified s"
  by (simp_all add: system_key_event_cb_def key_parts_link Let_def)

lemma no_msgs: "msgs s = [] \<Longrightarrow> s\<lparr>msgs := []\<rparr> = s" "msgs s = [] \<Longrightarrow> s\<lparr>timers := f, msgs := []\<rparr> = s\<lparr>timers := f\<rparr>"
  by simp_all

lemma small_suc: "unat k < 255 \<Longrightarrow> unat (k + 1) = unat k + 1" for k :: u8
  by (simp add: unat_word_ariths(1))

section \<open>Reconnecting\<close>

text \<open>The address of the peer is known, or it is read from the stored keys.\<close>

definition paired_with :: "rc_host \<Rightarrow> bytes \<Rightarrow> rmc \<Rightarrow> bool" where
  "paired_with h a s \<longleftrightarrow> a \<noteq> BT_ADDR_LE_ANY \<and> (direct_addr s = a \<or> direct_addr s = BT_ADDR_LE_ANY \<and> \<not> is_rpa a \<and> (\<forall>cs. stored_addr h cs = Some a))"

definition comb_codes :: "u16 list" where
  "comb_codes = [REMOTE_COMB_KEY_OK_BACK, 0xCB01, 0xCB02, 0xCB03, 0xCB04]"

lemma paired_step: "paired_with h a s \<Longrightarrow> is_paired h s = (True, s\<lparr>direct_addr := a\<rparr>)"
  by (auto simp: paired_with_def is_paired_def)

lemma table_reconnect: "table_entry 0 0 = Inr (1, Act_Start_Direct_Adv)" "table_entry 1 7 = Inr (1, Act_Start_Direct_Adv)" "table_entry 1 10 = Inr (0, Act_None)"
  by (simp_all add: table_entry_def rmc_State_table_def rmc_act_set_def arr_get_def)

lemma direct_adv_step:
  assumes "\<forall>cs. direct_result h cs = 0" "table_entry (rmc_status s) e = Inr (1, Act_Start_Direct_Adv)" "paired_with h a s" "\<not> pair_comb_timer s"
  shows "rmc_sm_execute h e s = Inr (if reconn_times s < MAX_RECONN_TIMES
    then s\<lparr>rmc_status := 1, direct_addr := a, reconn_times := reconn_times s + 1, timers := (timers s)(ID_DIRECT_ADV_TIMEOUT := True),
      calls := calls s @ [Rc_Adv_Stop, Rc_Direct_Adv a]\<rparr>
    else s\<lparr>rmc_status := 0, direct_addr := a, reconn_times := 0\<rparr>)"
proof -
  have "is_paired h (s\<lparr>rmc_status := 1\<rparr>) = (True, s\<lparr>rmc_status := 1, direct_addr := a\<rparr>)" using paired_step [of h a "s\<lparr>rmc_status := 1\<rparr>"] assms(3) by (simp add: paired_with_def)
  then show ?thesis
    using assms(1,2,4) table_reconnect(3) by (simp add: rmc_sm_execute.simps [of h e s] rmc_sm_execute.simps [of h 10] rc_do_def rmc_timer_start_def Let_def)
qed

text \<open>Advertising to the peer for the \<open>k\<close>-th time, and idle after the last.\<close>

definition adv_at :: "bytes \<Rightarrow> u8 \<Rightarrow> rc_call list \<Rightarrow> rmc \<Rightarrow> bool" where
  "adv_at a k c s \<longleftrightarrow> calls s = c \<and> msgs s = [] \<and> direct_addr s = a \<and> \<not> pair_comb_timer s \<and> ready_flag s \<and>
     (if k \<le> MAX_RECONN_TIMES then rmc_status s = RMC_STATES_ADVERTISING \<and> reconn_times s = k \<and> timers s ID_DIRECT_ADV_TIMEOUT
      else rmc_status s = RMC_STATES_IDLE \<and> reconn_times s = 0)"

lemma adv_runs_out:
  assumes "\<forall>cs. direct_result h cs = 0" "adv_at a k c s" "k \<le> MAX_RECONN_TIMES" "a \<noteq> BT_ADDR_LE_ANY"
  shows "\<exists>t. rc_exec h [Rc_Timeout ID_DIRECT_ADV_TIMEOUT, Rc_Main] s = Some t \<and>
    adv_at a (k + 1) (c @ (if k < MAX_RECONN_TIMES then [Rc_Adv_Stop, Rc_Direct_Adv a] else [])) t"
proof -
  let ?s = "s\<lparr>timers := (timers s)(ID_DIRECT_ADV_TIMEOUT := False)\<rparr>"
  have s: "calls s = c" "msgs s = []" "direct_addr s = a" "\<not> pair_comb_timer s" "ready_flag s" "rmc_status s = RMC_STATES_ADVERTISING" "reconn_times s = k"
    "timers s ID_DIRECT_ADV_TIMEOUT" using assms(2,3) by (simp_all add: adv_at_def)
  have e: "rmc_sm_execute h 7 ?s = Inr (if k < MAX_RECONN_TIMES
    then ?s\<lparr>rmc_status := 1, direct_addr := a, reconn_times := k + 1, timers := (timers s)(ID_DIRECT_ADV_TIMEOUT := True), calls := c @ [Rc_Adv_Stop, Rc_Direct_Adv a]\<rparr>
    else ?s\<lparr>rmc_status := 0, direct_addr := a, reconn_times := 0\<rparr>)"
    using direct_adv_step [OF assms(1), of ?s 7 a] table_reconnect(2) s assms(4) by (simp add: paired_with_def)
  have r: "rc_exec h [Rc_Timeout ID_DIRECT_ADV_TIMEOUT, Rc_Main] s = (case rmc_sm_execute h 7 ?s of Inr t \<Rightarrow> Some t | Inl _ \<Rightarrow> None)"
    using s by (simp add: no_msgs rc_enabled_def rc_step_def check_rmc_timer_def post_def send_msg_def rc_main_def system_app_timer_event_handle_def split: sum.split)
  have k: "k + 1 \<le> MAX_RECONN_TIMES \<longleftrightarrow> k < MAX_RECONN_TIMES" using assms(3) small_suc [of k] by (auto simp: word_le_nat_alt word_less_nat_alt)
  show ?thesis using r e s k by (auto simp: adv_at_def)
qed

lemma key_starts:
  assumes "\<forall>cs. direct_result h cs = 0" "paired_with h a s" "rmc_status s = RMC_STATES_IDLE" "ready_flag s" "msgs s = []" "\<not> pair_comb_timer s"
    "acts_get_ble_keycode (key_of v) \<notin> set comb_codes" "reconn_times s \<le> MAX_RECONN_TIMES"
  shows "\<exists>t. rc_exec h [Rc_Key v, Rc_Main] s = Some t \<and>
    adv_at a (reconn_times s + 1) (calls (system_key_event_cb v s) @ (if reconn_times s < MAX_RECONN_TIMES then [Rc_Adv_Stop, Rc_Direct_Adv a] else [])) t"
proof -
  let ?c = "system_key_event_cb v s"
  let ?s = "?c\<lparr>timers := (timers s)(ID_NO_ACT_TIMEOUT := True)\<rparr>"
  have c: "rmc_status ?c = 0" "ready_flag ?c" "msgs ?c = []" "\<not> pair_comb_timer ?c" "reconn_times ?c = reconn_times s" "direct_addr ?c = direct_addr s" "timers ?c = timers s"
    using key_cb_link(1) [of v s] assms(3-6) by (simp_all add: link_part_def)
  define u where "u = (if reconn_times s < MAX_RECONN_TIMES
    then ?s\<lparr>rmc_status := 1, direct_addr := a, reconn_times := reconn_times s + 1, timers := (timers ?s)(ID_DIRECT_ADV_TIMEOUT := True), calls := calls ?c @ [Rc_Adv_Stop, Rc_Direct_Adv a]\<rparr>
    else ?s\<lparr>rmc_status := 0, direct_addr := a, reconn_times := 0\<rparr>)"
  have e: "rmc_sm_execute h 0 ?s = Inr u"
    using direct_adv_step [OF assms(1), of ?s 0 a] table_reconnect(1) c assms(2) by (simp add: paired_with_def u_def)
  have k: "reconn_times s + 1 \<le> MAX_RECONN_TIMES \<longleftrightarrow> reconn_times s < MAX_RECONN_TIMES"
    using assms(8) small_suc [of "reconn_times s"] by (auto simp: word_le_nat_alt word_less_nat_alt)
  have u: "adv_at a (reconn_times s + 1) (calls ?c @ (if reconn_times s < MAX_RECONN_TIMES then [Rc_Adv_Stop, Rc_Direct_Adv a] else [])) u"
    using c k by (simp add: adv_at_def u_def)
  define w where "w = (let (deliver, s) = is_need_deliver_to_app h v u in if deliver then send_ble_keycode h v s else s)"
  have act: "rmc_sm_state_is_activing u" using c by (simp add: rmc_sm_state_is_activing_def u_def)
  have n: "w = u\<lparr>pending_key := pending_key w, hci_comb_timer := hci_comb_timer w, timers := timers w\<rparr>" "timers w ID_DIRECT_ADV_TIMEOUT = timers u ID_DIRECT_ADV_TIMEOUT"
    using assms(7) act u unfolding w_def is_need_deliver_to_app_def comb_codes_def adv_at_def
    by (auto simp: send_ble_keycode_def rmc_sm_state_is_activing_def rmc_timer_start_def rmc_timer_stop_def Let_def)
  have "adv_at a (reconn_times s + 1) (calls ?c @ (if reconn_times s < MAX_RECONN_TIMES then [Rc_Adv_Stop, Rc_Direct_Adv a] else [])) w"
    using u n(2) by (subst n(1)) (auto simp: adv_at_def split: if_splits)
  moreover have "rc_exec h [Rc_Key v, Rc_Main] s = Some w"
  proof -
    show ?thesis using e c by (simp add: no_msgs rc_enabled_def rc_step_def post_def send_msg_def rc_main_def system_input_event_handle_def rmc_timer_start_def w_def split_beta)
  qed
  ultimately show ?thesis by blast
qed

lemma adv_runs:
  assumes "\<forall>cs. direct_result h cs = 0" "adv_at a k c s" "a \<noteq> BT_ADDR_LE_ANY" "unat k + n \<le> 4"
  shows "\<exists>t. rc_exec h (concat (replicate n [Rc_Timeout ID_DIRECT_ADV_TIMEOUT, Rc_Main])) s = Some t \<and>
    adv_at a (k + of_nat n) (c @ concat (replicate (min n (3 - unat k)) [Rc_Adv_Stop, Rc_Direct_Adv a])) t"
  using assms(2,4)
proof (induction n arbitrary: k c s)
  case (Suc n)
  have k: "k \<le> MAX_RECONN_TIMES" "unat (k + 1) = unat k + 1" "k < MAX_RECONN_TIMES \<longleftrightarrow> unat k < 3"
    using Suc.prems(2) small_suc [of k] by (simp_all add: word_le_nat_alt word_less_nat_alt)
  obtain t where t: "rc_exec h [Rc_Timeout ID_DIRECT_ADV_TIMEOUT, Rc_Main] s = Some t"
    "adv_at a (k + 1) (c @ (if k < MAX_RECONN_TIMES then [Rc_Adv_Stop, Rc_Direct_Adv a] else [])) t"
    using adv_runs_out [OF assms(1) Suc.prems(1) k(1) assms(3)] by blast
  obtain u where u: "rc_exec h (concat (replicate n [Rc_Timeout ID_DIRECT_ADV_TIMEOUT, Rc_Main])) t = Some u"
    "adv_at a (k + 1 + of_nat n) ((c @ (if k < MAX_RECONN_TIMES then [Rc_Adv_Stop, Rc_Direct_Adv a] else [])) @
      concat (replicate (min n (3 - unat (k + 1))) [Rc_Adv_Stop, Rc_Direct_Adv a])) u"
    using Suc.IH [OF t(2)] Suc.prems(2) k(2) by auto
  have "min (Suc n) (3 - unat k) = (if unat k < 3 then Suc (min n (3 - unat (k + 1))) else 0)" using k(2) by auto
  then have "(c @ (if k < MAX_RECONN_TIMES then [Rc_Adv_Stop, Rc_Direct_Adv a] else [])) @ concat (replicate (min n (3 - unat (k + 1))) [Rc_Adv_Stop, Rc_Direct_Adv a]) =
    c @ concat (replicate (min (Suc n) (3 - unat k)) [Rc_Adv_Stop, Rc_Direct_Adv a])" using k(2,3) by simp
  then show ?case using t(1) u rc_exec_append [of h "[Rc_Timeout ID_DIRECT_ADV_TIMEOUT, Rc_Main]" "concat (replicate n [Rc_Timeout ID_DIRECT_ADV_TIMEOUT, Rc_Main])" s]
    by (auto simp: ac_simps)
qed simp



section \<open>Keys before the connection is secure\<close>

lemma remote_report_sent:
  assumes "pconn s" "security_ready_flag s" "hid_send_input_report (hid_cfg s) (ccc_table s) HIDAPP_REMOTE_REPORT_ID = Some a"
  shows "snd (hid_app_remote_report_event h b s) = rc_do (Rc_Notify a [ucast b, ucast (drop_bit 8 b), 0]) s"
  using assms by (simp add: hid_app_remote_report_event_def hid_notify_def)

lemma table_connected: "table_entry 2 0 = Inr (2, Act_None)" "table_entry 2 2 = Inr (2, Act_Send_Key)"
  by (simp_all add: table_entry_def rmc_State_table_def rmc_act_set_def arr_get_def)

text \<open>Connected but not secure, with nothing waiting; and a key that is neither for voice nor a combination.\<close>

definition key_waiting :: "rmc \<Rightarrow> bool" where
  "key_waiting s \<longleftrightarrow> rmc_status s = RMC_STATES_CONNECTED \<and> pconn s \<and> ready_flag s \<and> \<not> security_ready_flag s \<and> msgs s = []"

definition plain_key :: "u16 \<Rightarrow> bool" where
  "plain_key k \<longleftrightarrow> acts_get_ble_keycode k \<notin> set ([REMOTE_KEY_VOICE_COMMAND, REMOTE_COMB_KEY_HCI_MODE] @ comb_codes)"

definition key_press :: "u16 \<Rightarrow> rc_event list" where
  "key_press k = [Rc_Key (KEY_TYPE_DOWN OR ucast k), Rc_Main, Rc_Key (KEY_TYPE_UP OR ucast k), Rc_Main]"

lemma key_of_ucast: "key_of v = ucast v"
proof -
  have "(v AND 0xFFFF) = take_bit 16 v" by (simp add: take_bit_eq_mask mask_eq_exp_minus_1)
  then show ?thesis by (intro bit_word_eqI) (auto simp: key_of_def bit_simps)
qed

lemma press_value: "key_of (KEY_TYPE_DOWN OR ucast k) = k" "key_of (KEY_TYPE_UP OR ucast k) = k" "\<not> flag_set (KEY_TYPE_UP OR ucast k) KEY_TYPE_DOWN"
proof -
  show "key_of (KEY_TYPE_DOWN OR ucast k) = k" "key_of (KEY_TYPE_UP OR ucast k) = k" by (simp_all add: key_of_ucast down_key type_key)
  have d: "KEY_TYPE_DOWN = push_bit 29 1" by simp
  have "\<not> bit (ucast k :: u32) 29" using bit_imp_le_length [of k 29] by (auto simp: bit_simps)
  then show "\<not> flag_set (KEY_TYPE_UP OR ucast k) KEY_TYPE_DOWN" unfolding d flag_set_bit by (simp add: bit_simps)
qed

definition peer_part :: "rmc \<Rightarrow> hid_config option \<times> hids_ccc" where
  "peer_part s = (hid_cfg s, ccc_table s)"

lemma key_waits:
  assumes "key_waiting s" "plain_key (key_of v)"
  shows "\<exists>t. rc_exec h [Rc_Key v, Rc_Main] s = Some t \<and> key_waiting t \<and> pending_key t = v \<and> rc_notified t = rc_notified s \<and> peer_part t = peer_part s"
proof -
  let ?c = "system_key_event_cb v s"
  let ?s = "?c\<lparr>timers := (timers s)(ID_NO_ACT_TIMEOUT := True)\<rparr>"
  have c: "rmc_status ?c = 2" "pconn ?c" "ready_flag ?c" "\<not> security_ready_flag ?c" "msgs ?c = []" "timers ?c = timers s" "hid_cfg ?c = hid_cfg s" "ccc_table ?c = ccc_table s"
    using key_cb_link(1) [of v s] assms(1) by (simp_all add: link_part_def key_waiting_def)
  have e: "rmc_sm_execute h 0 ?s = Inr ?s" using c(1) table_connected(1) by (simp add: rmc_sm_execute.simps [of h 0])
  define w where "w = (let (deliver, s) = is_need_deliver_to_app h v ?s in if deliver then send_ble_keycode h v s else s)"
  have eq: "w = ?s\<lparr>pending_key := v, pair_comb_timer := pair_comb_timer w, hci_comb_timer := hci_comb_timer w, timers := timers w\<rparr>"
    using assms(2) c unfolding w_def is_need_deliver_to_app_def plain_key_def comb_codes_def
    by (auto simp: send_ble_keycode_def rmc_timer_start_def rmc_timer_stop_def Let_def)
  have w: "key_waiting w" "pending_key w = v" "rc_notified w = rc_notified ?c" "peer_part w = peer_part s"
    by (subst eq; simp add: key_waiting_def rc_notified_def peer_part_def c)+
  have "rc_exec h [Rc_Key v, Rc_Main] s = Some w"
    using e c by (simp add: no_msgs rc_enabled_def rc_step_def post_def send_msg_def rc_main_def system_input_event_handle_def rmc_timer_start_def w_def split_beta)
  then show ?thesis using w key_cb_link(2) by metis
qed

lemma press_waits:
  assumes "key_waiting s" "plain_key k"
  shows "\<exists>t. rc_exec h (key_press k) s = Some t \<and> key_waiting t \<and> pending_key t = KEY_TYPE_UP OR ucast k \<and> rc_notified t = rc_notified s \<and> peer_part t = peer_part s"
proof -
  obtain t where t: "rc_exec h [Rc_Key (KEY_TYPE_DOWN OR ucast k), Rc_Main] s = Some t" "key_waiting t" "rc_notified t = rc_notified s" "peer_part t = peer_part s"
    using key_waits [OF assms(1), of "KEY_TYPE_DOWN OR ucast k" h] assms(2) press_value(1) [of k] by auto
  obtain u where u: "rc_exec h [Rc_Key (KEY_TYPE_UP OR ucast k), Rc_Main] t = Some u" "key_waiting u" "pending_key u = KEY_TYPE_UP OR ucast k" "rc_notified u = rc_notified t"
    "peer_part u = peer_part t"
    using key_waits [OF t(2), of "KEY_TYPE_UP OR ucast k" h] assms(2) press_value(2) [of k] by auto
  have "key_press k = [Rc_Key (KEY_TYPE_DOWN OR ucast k), Rc_Main] @ [Rc_Key (KEY_TYPE_UP OR ucast k), Rc_Main]" by (simp add: key_press_def)
  then show ?thesis using t u by (simp only: rc_exec_append) simp
qed

lemma presses_wait:
  assumes "key_waiting s" "\<forall>k\<in>set ks. plain_key k"
  shows "\<exists>t. rc_exec h (concat (map key_press ks)) s = Some t \<and> key_waiting t \<and> rc_notified t = rc_notified s \<and> peer_part t = peer_part s"
  using assms
proof (induction ks arbitrary: s)
  case (Cons k ks)
  obtain t where t: "rc_exec h (key_press k) s = Some t" "key_waiting t" "rc_notified t = rc_notified s" "peer_part t = peer_part s"
    using press_waits [OF Cons.prems(1)] Cons.prems(2) by fastforce
  then show ?case using Cons.IH [OF t(2)] Cons.prems(2) by (simp add: rc_exec_append)
qed simp

lemma secure_sends:
  assumes "rmc_status s = RMC_STATES_CONNECTED" "pconn s" "msgs s = []" "all_hid_ccc_is_enabled (ccc_table s)"
    "hid_send_input_report (hid_cfg s) (ccc_table s) HIDAPP_REMOTE_REPORT_ID = Some a"
    "pending_key s = KEY_TYPE_UP OR ucast k" "acts_get_ble_keycode k = c" "c \<noteq> KEY_RESERVED"
  shows "\<exists>t. rc_exec h [Rc_Security, Rc_Main] s = Some t \<and> rmc_status t = RMC_STATES_CONNECTED \<and> pconn t \<and> msgs t = [] \<and> peer_part t = peer_part s \<and>
    pending_key t = pending_key s \<and> rc_notified t = rc_notified s @ [Rc_Notify a [ucast c, ucast (drop_bit 8 c), 0], Rc_Notify a [0, 0, 0]]"
proof -
  have p: "is_paired h s = (fst (is_paired h s), s\<lparr>direct_addr := direct_addr (snd (is_paired h s))\<rparr>)"
    by (simp add: is_paired_def split: option.split)
  let ?s = "s\<lparr>direct_addr := direct_addr (snd (is_paired h s)), timers := (timers s)(ID_RMC_SEC_TIMEOUT := False), security_ready_flag := True, msgs := [], reconn_times := 0\<rparr>"
  let ?t = "?s\<lparr>calls := calls s @ [Rc_Notify a [ucast c, ucast (drop_bit 8 c), 0], Rc_Notify a [0, 0, 0]]\<rparr>"
  have x: "rmc_sm_execute h 2 ?s = Inr ?t"
    using assms table_connected(2) press_value [of k] by (simp add: rmc_sm_execute.simps [of h 2] send_pending_keycode_def remote_report_sent rc_do_def Let_def)
  have "rc_security_changed h s = Inr (post (Msg_Ble 2) (s\<lparr>direct_addr := direct_addr (snd (is_paired h s)), timers := (timers s)(ID_RMC_SEC_TIMEOUT := False), security_ready_flag := True\<rparr>))"
    unfolding rc_security_changed_def by (subst p) (simp add: assms(4) rmc_timer_stop_def)
  then have "rc_exec h [Rc_Security, Rc_Main] s = Some ?t"
    using assms(2,3) x by (simp add: rc_enabled_def rc_step_def post_def send_msg_def rc_main_def system_ble_event_handle_def)
  then show ?thesis using assms(1-3) by (simp add: peer_part_def rc_notified_def)
qed



end
