(* ===== verification/Spec2Isabelle.thy ===== *)
theory Spec2Isabelle
  imports Cgms Gls Hrs Speed_Cadence Ota Irc_Hal Led Ancs_App Module_Main Per_Main Key_Storage Rmc_Main
begin

text \<open>
  \<^bold>\<open>The program.\<close> The repository is the SDK of a Bluetooth Low Energy chip, on the Zephyr kernel. The host stack and the kernel are in the ROM
  of the chip; the repository has their headers, the drivers, a framework of profiles and hardware layers under
  \<^verbatim>\<open>ext/lib/actions\<close>, sample GATT services under \<^verbatim>\<open>samples/bluetooth/gatt\<close>, and applications. The development is about the code
  with logic of its own:

  \<^item> the glucose services, which keep a database of measurements and answer requests for them on a Record Access Control Point;
  \<^item> the over-the-air update profile, which receives a firmware image in packets, writes it to flash and verifies it;
  \<^item> infrared learning, which recognises a received waveform, stores it and replays it;
  \<^item> the serial module, an application that connects a UART to a peer: AT commands in one mode, transparent data in the other;
  \<^item> its variant for peripherals, with another configuration, pins, an analog input and pulse width modulation;
  \<^item> the heart rate, cycling and running services with their simulated sensors;
  \<^item> the LED manager, through which several users share a light;
  \<^item> the client of the Apple notification service, which decodes a stream of fragments;
  \<^item> the voice remote control: the drivers of its keys, the input manager, the HID service, and its state machine for advertising, pairing and reconnection;
  \<^item> the storage of pairing keys behind the host.

  \<^bold>\<open>How code becomes definitions.\<close> Machine integers are words of their width (theory \<open>Prelude\<close>: \<open>u8\<close>, \<open>u16\<close>, \<open>u32\<close>, \<open>s32\<close>). A
  C function is a HOL function of the same name; the static variables it changes are a record that it takes and returns. Undefined behaviour (an access out of
  bounds, a shift by too much, an uninitialised read, a null pointer) is a value \<open>Inl\<close> of the result type \<open>res\<close>, with checked accesses
  \<open>arr_get\<close>, \<open>arr_set\<close> and \<open>mem_cpy\<close>; error codes are ordinary results. Loops are structural recursion, functions with a termination
  proof, or, where the code need not end, \<open>c_while\<close>, for which a loop that runs forever is the result \<open>Inl Diverges\<close>; that the loops end is then proved
  (properties of kind liveness and termination). There is no fuel. Callbacks, interrupts, timers and threads are steps of one
  transition relation per component (\<open>lrun\<close> is a run of such steps), so that a theorem about all runs covers every interleaving of them.

  Code that is not in the repository is a parameter: the host's notifications and indications (\<open>gatt_env\<close>, theory \<open>Gatt_Env\<close>), whose
  results may depend on everything sent before; the reads of attributes (\<open>attr_read\<close>); flash, checksum and queue of the update
  profile (\<open>ota_env\<close>); the host, the non-volatile memory and the
  conversion of addresses of the serial module (\<open>host\<close>); the memory and the names of the keys of the infrared layer (\<open>irc_env\<close>); the
  memory and the resolution of private addresses of the key storage (\<open>nvram\<close>, \<open>irk_matches\<close>); host, memory and drivers of the peripheral module (\<open>per_host\<close>), of the
  notification client (\<open>ancs_host\<close>) and of the remote control (\<open>rc_host\<close>, with the voice encoder); the key code of the key matrix. What a theorem needs of them is among
  its premises, and its witness gives concrete functions for which they hold.

  \<^bold>\<open>Theories and sources.\<close>

  \<^item> \<open>Types_Encode\<close>: \<^verbatim>\<open>types_encode.h\<close>, \<^verbatim>\<open>date_time.h\<close>, \<^verbatim>\<open>iso_ieee_11073.h\<close>, \<^verbatim>\<open>bstream.h\<close>. Round trips of the codecs.
  \<^item> \<open>Slot_Db\<close>: \<^verbatim>\<open>cgms_db.c\<close> and \<^verbatim>\<open>gls_db.c\<close>, the same code over two record types. The locales \<open>record_source\<close> and
    \<open>record_store\<close> say what the databases promise; both services interpret them.
  \<^item> \<open>Crc16\<close>: the checksum of \<^verbatim>\<open>cgms.c\<close>, equal to the usual reflected computation, and its detection of errors in one byte.
  \<^item> \<open>Racp\<close>: the record access procedures that \<^verbatim>\<open>cgms.c\<close> and \<^verbatim>\<open>gls.c\<close> both contain, over a record of the service's
    operations. The locales \<open>racp_service\<close> and \<open>racp_delete_service\<close> prove once that a report sends exactly the selected records and
    ends, that a count counts them and that a deletion deletes.
  \<^item> \<open>Cgms\<close>, \<open>Gls\<close>: \<^verbatim>\<open>cgms.c\<close> and \<^verbatim>\<open>gls.c\<close>: every handler, the timers and the simulated sensors, the interpretations of the
    locales, the safety of all reachable states with the exact inputs that overflow a buffer, and the functional properties.
  \<^item> \<open>Ota\<close>: \<^verbatim>\<open>ext/lib/actions/ota\<close>. Safety of the reachable states, the update from erasure to verification, reading back, and the
    exclusion of concurrent transfers.
  \<^item> \<open>Irc_Protocol\<close>: \<^verbatim>\<open>irc_protocol.c\<close>. The recognisers are equivalent to a description of the waveform (\<open>wave\<close>, \<open>matches\<close>, Manchester
    codes), proved once in the locales \<open>pulse_windows\<close>, \<open>pulse_distance\<close>, \<open>pulse_coding\<close> and \<open>pulse_replay\<close> and interpreted for each
    format.
  \<^item> \<open>Irc_Hal\<close>: \<^verbatim>\<open>irc_hal.c\<close>, learning and replay on top of the recognisers.
  \<^item> \<open>Misc\<close>, \<open>Ble_Module\<close>, \<open>At_Cmd\<close>, \<open>Act_Data\<close>, \<open>Module_Main\<close>: the serial module \<^verbatim>\<open>samples/ble_module/src/ble_module\<close>: \<^verbatim>\<open>misc.c\<close>; the
    connection functions and variables of \<^verbatim>\<open>app_ble.c\<close>; \<^verbatim>\<open>at/at_cmd.c\<close>; \<^verbatim>\<open>at/act_data.c\<close> with \<^verbatim>\<open>profile/qpps.c\<close>; the callbacks and
    the stored configuration of \<^verbatim>\<open>app_ble.c\<close>, \<^verbatim>\<open>app_input.c\<close> and \<^verbatim>\<open>main.c\<close>. The whole is one transition system (\<open>sys_step\<close>) whose invariant
    is an interpretation of \<open>step_invariant\<close>; data mode refines a pipe (interpretation of \<open>simulation\<close>); the undefined cases are
    characterised exactly.
  \<^item> \<open>Per_Cfg\<close>, \<open>Per_Data\<close>, \<open>Per_Main\<close>: the peripheral variant \<^verbatim>\<open>samples/ble_module_per/src/ble_module\<close>: the stored configuration and its commands (\<^verbatim>\<open>app_cfg.c\<close>, the parser of
    \<^verbatim>\<open>at/at_cmd.c\<close>); data mode with flow control, which refines the same pipe as that of the other module; the command and data threads, pins, converter, modulator, callbacks and
    the message loop, whose mode invariant is an interpretation of \<open>step_invariant\<close>.
  \<^item> \<open>Hrs\<close>: \<^verbatim>\<open>hrs.c\<close>; the queue of intervals refines a bounded queue. \<open>Speed_Cadence\<close>: \<^verbatim>\<open>cscs.c\<close> and \<^verbatim>\<open>rscs.c\<close>, whose sensor locations share the locale \<open>location_point\<close>.
  \<^item> \<open>Led\<close>: \<^verbatim>\<open>hal/led_hal.c\<close> and \<^verbatim>\<open>framework/led_manager.c\<close>; it shows the shortest blink period requested.
  \<^item> \<open>Ancs\<close>, \<open>Ancs_App\<close>: \<^verbatim>\<open>samples/ancs/src/ancs\<close>: the decoder of the data source, equivalent for every fragmentation; discovery, stored handles, requests and the loop.
  \<^item> \<open>Key_Input\<close>: the drivers \<^verbatim>\<open>adckey_acts.c\<close> and \<^verbatim>\<open>mxkeypad_acts.c\<close> with \<^verbatim>\<open>framework/input_manager.c\<close>. The locale \<open>key_source\<close> says what a source of keys promises, and both drivers
    interpret it: the messages of the manager alternate.
  \<^item> \<open>Hog\<close>: \<^verbatim>\<open>samples/bluetooth/gatt/hid/hog.c\<close>: which reports are notified.
  \<^item> \<open>Rmc\<close>, \<open>Rmc_Main\<close>: \<^verbatim>\<open>samples/voice_rcu/src/peripheral_rmc\<close>: one record with a definition per function of \<^verbatim>\<open>system_app_sm.c\<close> to \<^verbatim>\<open>main.c\<close>, the queue of
    \<^verbatim>\<open>framework/msg_manager.c\<close>, the table of the state machine and its actions. The run of all events (\<open>rc_trans\<close>) has two invariants, interpretations of \<open>step_invariant\<close>: the state follows
    the connection, and no event is undefined.
  \<^item> \<open>Key_Storage\<close>: \<^verbatim>\<open>subsys/bluetooth/host/storage.c\<close> in both configurations. The pool of two entries interprets \<open>keyed_store\<close>.

  \<^bold>\<open>Bounds.\<close> Array sizes are those of the code: 20 records, command lines of 127 characters in three buffers,
  60 packets of 20 bytes, pulse tables of 100 entries, key entries of 144 bytes, two pools of 8 messages,
  voice buffers of 640 bytes encoded to 80. Counters that could wrap only after
  longer than the code runs are bounded in the premises of the theorems that count them.

  \<^bold>\<open>Not modelled.\<close> Device drivers and boot loaders are register accesses. The kernel and the host are not in the repository, only
  their headers, which are most of its lines. The audio layers hand buffers between a driver and a binary codec. The services \<^verbatim>\<open>hts.c\<close>, \<^verbatim>\<open>bas.c\<close>, \<^verbatim>\<open>dis.c\<close>, \<^verbatim>\<open>ias.c\<close>, \<^verbatim>\<open>lls.c\<close> and
  \<^verbatim>\<open>tps.c\<close> have constant characteristics and no state to speak of; the variant of the remote control without the HID service repeats the files of the modelled one. The main programs
  of the samples register services and start advertising; AirSync under \<^verbatim>\<open>samples/bluetooth/airsync\<close> is third-party code. Of the serial module, service discovery is not used in the
  modelled configuration. Functions that only print are left out.
\<close>

end
